(* ===== verification/Prelude.thy ===== *)
theory Prelude
  imports Main "HOL-Library.Word" "HOL-Library.Monad_Syntax" "HOL-Library.Signed_Division"
begin

text \<open>
  What every component shares: the machine integers of the i386 target, the flat
  byte-addressed memory the C code works on, little-endian loads and stores, C strings in
  memory, and the lemmas about them. An address is a 32-bit word and address arithmetic
  wraps around, as it does on the machine; \<open>inside p n a\<close> is the test that the
  address \<open>a\<close> is one of the \<open>n\<close> bytes starting at \<open>p\<close>.
\<close>

unbundle bit_operations_syntax

type_synonym u8 = "8 word"
type_synonym u16 = "16 word"
type_synonym u32 = "32 word"
type_synonym u64 = "64 word"
type_synonym mem = "u32 \<Rightarrow> u8"

named_theorems mem_simps \<open>reads of a memory that has just been written\<close>
named_theorems range_simps \<open>ranges of addresses without wrap-around\<close>

subsection \<open>Words\<close>

lemma unat_less_4G [simp]: "unat (a :: u32) < 4294967296"
  using unsigned_less [of a] by simp

lemma unat_le_4G: "unat (a :: u32) \<le> 4294967295"
  using unat_less_4G [of a] by linarith

lemma unat_add_small:
  "unat (a :: u32) + unat b < 4294967296 \<Longrightarrow> unat (a + b) = unat a + unat b"
  by (simp add: unat_word_ariths)

lemma unat_mult_small:
  "unat (a :: u32) * unat b < 4294967296 \<Longrightarrow> unat (a * b) = unat a * unat b"
  by (simp add: unat_word_ariths)

lemma unat_sub_small: "(b :: u32) \<le> a \<Longrightarrow> unat (a - b) = unat a - unat b"
  by (simp add: unat_sub)

lemma unat_of_nat32: "n < 4294967296 \<Longrightarrow> unat (of_nat n :: u32) = n"
  by (simp add: unat_of_nat)

lemma unat_Suc_less: "(i :: u32) < n \<Longrightarrow> unat (i + 1) = Suc (unat i)"
  using unat_le_4G [of n] by (subst unat_add_small) (auto simp: word_less_nat_alt)

lemma Suc_le_limit: "(i :: u32) < n \<Longrightarrow> i + 1 \<le> n"
  by (simp add: word_le_nat_alt unat_Suc_less word_less_nat_alt)

lemma unat_sub_wrap:
  "unat ((a :: u32) - b) = (if b \<le> a then unat a - unat b else unat a + 4294967296 - unat b)"
  by (simp add: unat_sub_if' word_le_nat_alt)

lemma eq_offset_iff:
  assumes "n < 4294967296"
  shows "a = (p :: u32) + of_nat n \<longleftrightarrow> unat (a - p) = n"
proof
  assume "unat (a - p) = n"
  then have "of_nat n = a - p" by (metis of_nat_unat ucast_id)
  then show "a = p + of_nat n" by simp
qed (use assms in \<open>simp add: unat_of_nat32\<close>)

lemma of_nat_Suc_add: "(a :: u32) + of_nat (Suc n) = a + 1 + of_nat n"
  by simp

lemma sint_bounds32: "- 2147483648 \<le> sint (v :: u32)" "sint (v :: u32) < 2147483648"
  using sint_range_size [of v] by (auto simp: word_size)

lemma sint_nonneg32: "0 \<le> sint (v :: u32) \<Longrightarrow> int (unat v) = sint v"
  using sint_bounds32 [of v] by (simp add: uint_sint take_bit_int_eq_self)

lemma sint_small32: "unat (v :: u32) < 2147483648 \<Longrightarrow> sint v = int (unat v)"
proof -
  assume "unat v < 2147483648"
  then have "int (unat v) < 2147483648" by linarith
  moreover have "- 2147483648 \<le> int (unat v)" by linarith
  ultimately show ?thesis by (simp add: sint_uint signed_take_bit_int_eq_self)
qed

subsection \<open>Ranges of addresses\<close>

definition inside :: "u32 \<Rightarrow> u32 \<Rightarrow> u32 \<Rightarrow> bool" where
  "inside p n a \<longleftrightarrow> a - p < n"

lemma inside_zero [simp]: "\<not> inside p 0 a"
  by (simp add: inside_def)

lemma inside_start: "n \<noteq> 0 \<Longrightarrow> inside p n p"
  by (simp add: inside_def word_neq_0_conv)

lemma inside_offset: "inside p n (p + k) \<longleftrightarrow> k < n"
  by (simp add: inside_def)

lemma inside_unat [range_simps]:
  assumes "unat p + unat n \<le> 4294967296"
  shows "inside p n a \<longleftrightarrow> unat p \<le> unat a \<and> unat a < unat p + unat n"
proof -
  have "unat (a - p) < unat n \<longleftrightarrow> unat p \<le> unat a \<and> unat a < unat p + unat n"
    using assms unat_less_4G [of a] unat_less_4G [of p]
    by (auto simp: unat_sub_wrap word_le_nat_alt)
  then show ?thesis by (simp add: inside_def word_less_nat_alt)
qed

definition apart :: "u32 \<Rightarrow> u32 \<Rightarrow> u32 \<Rightarrow> u32 \<Rightarrow> bool" where
  "apart p n q k \<longleftrightarrow> (\<forall>a. \<not> (inside p n a \<and> inside q k a))"

lemma apartD: "apart p n q k \<Longrightarrow> inside q k a \<Longrightarrow> \<not> inside p n a"
  by (auto simp: apart_def)

lemma apart_sym: "apart p n q k \<Longrightarrow> apart q k p n"
  by (auto simp: apart_def)

lemma apart_belowI:
  assumes "unat p + unat n \<le> unat q" "unat q + unat k \<le> 4294967296"
  shows "apart p n q k"
  using assms unat_less_4G [of q] by (auto simp: apart_def inside_unat)

lemma apart_aboveI:
  assumes "unat q + unat k \<le> unat p" "unat p + unat n \<le> 4294967296"
  shows "apart p n q k"
  using apart_belowI [OF assms] by (rule apart_sym)

subsection \<open>Filling and copying memory\<close>

definition mem_fill :: "mem \<Rightarrow> u32 \<Rightarrow> u8 \<Rightarrow> u32 \<Rightarrow> mem" where
  "mem_fill m p v n = (\<lambda>a. if inside p n a then v else m a)"

definition mem_copy :: "mem \<Rightarrow> u32 \<Rightarrow> u32 \<Rightarrow> u32 \<Rightarrow> mem" where
  "mem_copy m dst src n = (\<lambda>a. if inside dst n a then m (src + (a - dst)) else m a)"

lemma mem_fill_inside [mem_simps]: "inside p n a \<Longrightarrow> mem_fill m p v n a = v"
  by (simp add: mem_fill_def)

lemma mem_fill_outside [mem_simps]: "\<not> inside p n a \<Longrightarrow> mem_fill m p v n a = m a"
  by (simp add: mem_fill_def)

lemma mem_fill_0 [simp]: "mem_fill m p v 0 = m"
  by (simp add: mem_fill_def)

lemma mem_copy_inside [mem_simps]: "k < n \<Longrightarrow> mem_copy m dst src n (dst + k) = m (src + k)"
  by (simp add: mem_copy_def inside_def)

lemma mem_copy_outside [mem_simps]: "\<not> inside dst n a \<Longrightarrow> mem_copy m dst src n a = m a"
  by (simp add: mem_copy_def)

lemma mem_copy_0 [simp]: "mem_copy m dst src 0 = m"
  by (simp add: mem_copy_def)

subsection \<open>C strings\<close>

text \<open>
  \<open>cstr m p xs\<close>: the bytes \<open>xs\<close>, none of them zero, lie at \<open>p\<close> and a zero byte
  follows them. \<open>bytes_at\<close> is the same for a run of bytes with no terminator.
\<close>

fun bytes_at :: "mem \<Rightarrow> u32 \<Rightarrow> u8 list \<Rightarrow> bool" where
  "bytes_at m p [] = True"
| "bytes_at m p (x # xs) = (m p = x \<and> bytes_at m (p + 1) xs)"

fun cstr :: "mem \<Rightarrow> u32 \<Rightarrow> u8 list \<Rightarrow> bool" where
  "cstr m p [] = (m p = 0)"
| "cstr m p (x # xs) = (m p = x \<and> x \<noteq> 0 \<and> cstr m (p + 1) xs)"

lemma bytes_at_append:
  "bytes_at m p (xs @ ys) \<longleftrightarrow> bytes_at m p xs \<and> bytes_at m (p + of_nat (length xs)) ys"
  by (induction xs arbitrary: p) (auto simp: add.assoc)

lemma cstr_iff:
  "cstr m p xs \<longleftrightarrow> bytes_at m p xs \<and> 0 \<notin> set xs \<and> m (p + of_nat (length xs)) = 0"
  by (induction xs arbitrary: p) (auto simp: add.assoc)

lemma bytes_at_nth: "bytes_at m p xs \<longleftrightarrow> (\<forall>i < length xs. m (p + of_nat i) = xs ! i)"
proof (induction xs arbitrary: p)
  case (Cons x xs)
  show ?case
    by (auto simp: Cons.IH All_less_Suc2 nth_Cons add.assoc split: nat.splits)
qed simp

lemma of_nat_less_iff32:
  "i < n \<Longrightarrow> n \<le> 4294967295 \<Longrightarrow> (of_nat i :: u32) < of_nat n"
  by (simp add: word_less_nat_alt unat_of_nat32)

lemma bytes_at_cong:
  assumes "\<And>a. inside p (of_nat (length xs)) a \<Longrightarrow> m' a = m a"
    and "length xs \<le> 4294967295"
  shows "bytes_at m' p xs \<longleftrightarrow> bytes_at m p xs"
  using assms by (auto simp: bytes_at_nth inside_offset of_nat_less_iff32)

lemma cstr_cong:
  assumes same: "\<And>a. inside p (of_nat (length xs + 1)) a \<Longrightarrow> m' a = m a"
    and len: "length xs < 4294967295"
  shows "cstr m' p xs \<longleftrightarrow> cstr m p xs"
proof -
  have sub: "inside p (of_nat (length xs + 1)) a" if "inside p (of_nat (length xs)) a" for a
    using that len of_nat_less_iff32 [of "length xs" "length xs + 1"]
    by (simp add: inside_def del: of_nat_add)
  have "m' (p + of_nat (length xs)) = m (p + of_nat (length xs))"
    using len of_nat_less_iff32 [of "length xs" "length xs + 1"]
    by (intro same) (simp add: inside_offset)
  moreover have "bytes_at m' p xs \<longleftrightarrow> bytes_at m p xs"
    by (rule bytes_at_cong) (use same sub len in auto)
  ultimately show ?thesis by (simp add: cstr_iff)
qed

text \<open>The memory after the string \<open>xs\<close> and its terminator have been written at \<open>p\<close>.\<close>

definition put_cstr :: "mem \<Rightarrow> u32 \<Rightarrow> u8 list \<Rightarrow> mem" where
  "put_cstr m p xs = (\<lambda>a. if unat (a - p) < length xs then xs ! unat (a - p)
     else if unat (a - p) = length xs then 0 else m a)"

lemma cstr_put_cstr:
  "0 \<notin> set xs \<Longrightarrow> length xs < 4294967296 \<Longrightarrow> cstr (put_cstr m p xs) p xs"
  by (auto simp: cstr_iff bytes_at_nth put_cstr_def unat_of_nat32)

lemma put_cstr_outside [mem_simps]: "length xs < unat (a - p) \<Longrightarrow> put_cstr m p xs a = m a"
  by (simp add: put_cstr_def)

lemma put_cstr_single: "put_cstr m p [x] = m(p := x, p + 1 := 0)"
  using eq_offset_iff [of 1 _ p] by (auto simp: put_cstr_def fun_eq_iff unat_eq_zero)

subsection \<open>Little-endian words in memory\<close>

definition load16 :: "mem \<Rightarrow> u32 \<Rightarrow> u16" where
  "load16 m a = ucast (m a) OR push_bit 8 (ucast (m (a + 1)))"

definition load32 :: "mem \<Rightarrow> u32 \<Rightarrow> u32" where
  "load32 m a = ucast (m a) OR push_bit 8 (ucast (m (a + 1)))
     OR push_bit 16 (ucast (m (a + 2))) OR push_bit 24 (ucast (m (a + 3)))"

definition store32 :: "mem \<Rightarrow> u32 \<Rightarrow> u32 \<Rightarrow> mem" where
  "store32 m a w = m(a := ucast w, a + 1 := ucast (drop_bit 8 w),
     a + 2 := ucast (drop_bit 16 w), a + 3 := ucast (drop_bit 24 w))"

lemma load32_store32 [mem_simps]: "load32 (store32 m a w) a = w"
proof (rule bit_word_eqI)
  fix n assume "n < LENGTH(32)"
  then consider "n < 8" | "8 \<le> n" "n < 16" | "16 \<le> n" "n < 24" | "24 \<le> n" "n < 32"
    by fastforce
  then show "bit (load32 (store32 m a w) a) n = bit w n"
    by cases (auto simp: load32_def store32_def bit_simps)
qed

lemma inside_4: "inside a 4 b \<longleftrightarrow> b = a \<or> b = a + 1 \<or> b = a + 2 \<or> b = a + 3"
proof -
  have "b - a < 4 \<longleftrightarrow> b - a = 0 \<or> b - a = 1 \<or> b - a = 2 \<or> b - a = 3"
    by (auto simp: word_less_nat_alt unat_arith_simps)
  then show ?thesis by (auto simp: inside_def diff_eq_eq add.commute)
qed

lemma store32_outside [mem_simps]: "\<not> inside a 4 b \<Longrightarrow> store32 m a w b = m b"
  by (simp add: store32_def inside_4)

lemma load32_cong: "(\<And>b. inside a 4 b \<Longrightarrow> m' b = m b) \<Longrightarrow> load32 m' a = load32 m a"
  by (simp add: load32_def inside_4)

lemma load32_store32_apart [mem_simps]:
  "apart a 4 b 4 \<Longrightarrow> load32 (store32 m a w) b = load32 m b"
  by (rule load32_cong) (auto dest: apartD simp: store32_outside)

subsection \<open>Copies that do not read what they have overwritten\<close>

text \<open>
  \<open>copy_ok dst src n\<close>: neither region wraps around, and a copy that runs upwards never
  reads a byte it has already overwritten. Two such copies, the second continuing where the
  first stopped, are one copy.
\<close>

definition copy_ok :: "u32 \<Rightarrow> u32 \<Rightarrow> u32 \<Rightarrow> bool" where
  "copy_ok dst src n \<longleftrightarrow> unat dst + unat n \<le> 4294967296 \<and> unat src + unat n \<le> 4294967296
     \<and> (dst \<le> src \<or> unat src + unat n \<le> unat dst)"

lemma copy_ok_less: "copy_ok dst src n \<Longrightarrow> k \<le> n \<Longrightarrow> copy_ok dst src k"
  by (auto simp: copy_ok_def word_le_nat_alt)

lemma unat_offset: "unat (p :: u32) + unat k < 4294967296 \<Longrightarrow> unat (p + k) = unat p + unat k"
  by (rule unat_add_small)

lemma copy_ok_rest:
  assumes "copy_ok dst src (k + n)" "unat k + unat n < 4294967296" "n \<noteq> 0"
  shows "copy_ok (dst + k) (src + k) n"
proof -
  have "0 < unat n" using assms(3) by (simp add: unat_gt_0)
  moreover have "unat (k + n) = unat k + unat n" using assms(2) by (rule unat_add_small)
  ultimately have "unat (dst + k) = unat dst + unat k" "unat (src + k) = unat src + unat k"
    using assms(1) by (auto simp: copy_ok_def intro!: unat_offset)
  with \<open>unat (k + n) = _\<close> assms(1) show ?thesis by (auto simp: copy_ok_def word_le_nat_alt)
qed

lemma mem_copy_compose:
  assumes ok: "copy_ok dst src (k + n)" and nw: "unat k + unat n < 4294967296"
  shows "mem_copy (mem_copy m dst src k) (dst + k) (src + k) n = mem_copy m dst src (k + n)"
proof (cases "n = 0")
  case False
  have kn: "unat (k + n) = unat k + unat n" using nw by (rule unat_add_small)
  have "0 < unat n" using False by (simp add: unat_gt_0)
  then have dk: "unat (dst + k) = unat dst + unat k"
    using ok kn by (auto simp: copy_ok_def intro!: unat_offset)
  have ranges: "inside (dst + k) n a \<longleftrightarrow> unat dst + unat k \<le> unat a \<and> unat a < unat dst + unat k + unat n"
    "inside dst (k + n) a \<longleftrightarrow> unat dst \<le> unat a \<and> unat a < unat dst + unat k + unat n"
    "inside dst k a \<longleftrightarrow> unat dst \<le> unat a \<and> unat a < unat dst + unat k" for a
    using ok kn dk by (auto simp: copy_ok_def inside_unat)
  show ?thesis
  proof
    fix a
    show "mem_copy (mem_copy m dst src k) (dst + k) (src + k) n a = mem_copy m dst src (k + n) a"
    proof (cases "inside (dst + k) n a")
      case True
      then have "dst \<le> a" "unat (a - dst) = unat a - unat dst"
        using ranges(1) by (auto simp: word_le_nat_alt unat_sub)
      moreover have "unat src + (unat a - unat dst) < 4294967296"
        using True ranges(1) [of a] ok kn unat_less_4G [of a] by (auto simp: copy_ok_def)
      ultimately have "unat (src + (a - dst)) = unat src + (unat a - unat dst)"
        by (metis unat_offset)
      then have "\<not> inside dst k (src + (a - dst))"
        using True ranges ok by (auto simp: copy_ok_def word_le_nat_alt kn)
      moreover have "src + k + (a - (dst + k)) = src + (a - dst)" by simp
      ultimately show ?thesis
        using True ranges by (auto simp: mem_copy_def)
    next
      case False
      with ranges show ?thesis by (simp add: mem_copy_def)
    qed
  qed
qed simp

text \<open>\<open>n\<close> blocks of \<open>b\<close> bytes copied upwards one after the other.\<close>

fun copy_blocks :: "u32 \<Rightarrow> nat \<Rightarrow> mem \<Rightarrow> u32 \<Rightarrow> u32 \<Rightarrow> mem" where
  "copy_blocks b 0 m dst src = m"
| "copy_blocks b (Suc n) m dst src = copy_blocks b n (mem_copy m dst src b) (dst + b) (src + b)"

lemma copy_blocks_eq:
  assumes "copy_ok dst src (b * of_nat n)" "unat b * n < 4294967296"
  shows "copy_blocks b n m dst src = mem_copy m dst src (b * of_nat n)"
  using assms
proof (induction n arbitrary: m dst src)
  case (Suc n)
  have "unat (b * of_nat n) = unat b * n"
    using Suc.prems(2) unat_of_nat32 [of n]
    by (cases "b = 0") (auto simp: unat_word_ariths unat_of_nat mod_mult_right_eq)
  moreover have eq: "b * of_nat (Suc n) = b + b * of_nat n" by (simp add: algebra_simps)
  ultimately have nw: "unat b + unat (b * of_nat n) < 4294967296" using Suc.prems(2) by simp
  have ok: "copy_ok dst src (b + b * of_nat n)" using Suc.prems(1) by (simp only: eq)
  have "copy_blocks b n (mem_copy m dst src b) (dst + b) (src + b)
      = mem_copy (mem_copy m dst src b) (dst + b) (src + b) (b * of_nat n)"
  proof (cases "b * of_nat n = 0")
    case True
    then have "n = 0 \<or> b = 0" using \<open>unat (b * of_nat n) = unat b * n\<close> by (auto simp: unat_eq_0)
    moreover have "copy_blocks 0 n m' d s = m'" for m' d s by (induction n arbitrary: m' d s) auto
    ultimately show ?thesis by auto
  next
    case False
    then show ?thesis
      using Suc.prems(2) copy_ok_rest [OF ok nw] by (intro Suc.IH) auto
  qed
  also have "\<dots> = mem_copy m dst src (b + b * of_nat n)" by (rule mem_copy_compose [OF ok nw])
  finally show ?case by (simp only: copy_blocks.simps eq)
qed simp

subsection \<open>Counting loops\<close>

text \<open>
  \<open>for (i = start; i < limit; i += step) body\<close> over a 32-bit counter. The body may fail
  (\<open>None\<close>); a counter that wraps around past \<open>limit\<close> makes the loop run on.
\<close>

partial_function (option) for_loop ::
  "u32 \<Rightarrow> u32 \<Rightarrow> u32 \<Rightarrow> (u32 \<Rightarrow> 's \<Rightarrow> 's option) \<Rightarrow> 's \<Rightarrow> 's option" where
  "for_loop i limit step body s =
     (if i < limit then body i s \<bind> (\<lambda>s'. for_loop (i + step) limit step body s') else Some s)"

lemma for_loop_stop [simp]: "limit \<le> i \<Longrightarrow> for_loop i limit step body s = Some s"
  by (simp add: for_loop.simps not_less [symmetric])

text \<open>A loop whose body never fails is a fold over its indices, if the counter does not wrap.\<close>

lemma for_loop_fold:
  assumes "\<And>i s. body i s = Some (f i s)" "0 < unat step"
    "unat i + unat step * n < 4294967296"
  shows "for_loop i (i + step * of_nat n) step body s
    = Some (fold (\<lambda>k. f (i + step * of_nat k)) [0..<n] s)"
  using assms(3)
proof (induction n arbitrary: i s)
  case (Suc n)
  have mult: "unat (step * of_nat k) = unat step * k" if "k \<le> Suc n" for k
  proof -
    have "unat step * k \<le> unat step * Suc n" using that by (rule mult_le_mono2)
    then have small: "unat step * k < 4294967296" using Suc.prems by linarith
    moreover have "k \<le> unat step * k" using assms(2) by simp
    ultimately have "k < 4294967296" by linarith
    then have "unat (of_nat k :: u32) = k" by (rule unat_of_nat32)
    with small show ?thesis by (simp add: unat_word_ariths)
  qed
  have "unat (i + step * of_nat (Suc n)) = unat i + unat step * Suc n"
    using mult [of "Suc n"] Suc.prems by (subst unat_offset) auto
  moreover have "0 < unat step * Suc n" using assms(2) by simp
  ultimately have lt: "i < i + step * of_nat (Suc n)"
    unfolding word_less_nat_alt by linarith
  have "unat (i + step) = unat i + unat step"
    using Suc.prems by (intro unat_offset) simp
  then have IH: "for_loop (i + step) (i + step + step * of_nat n) step body (f i s)
      = Some (fold (\<lambda>k. f (i + step + step * of_nat k)) [0..<n] (f i s))"
    using Suc.prems by (intro Suc.IH) (simp add: algebra_simps)
  have shift: "i + step * of_nat (Suc n) = i + step + step * of_nat n" by (simp add: algebra_simps)
  have upt: "[0..<Suc n] = 0 # map Suc [0..<n]" by (simp add: upt_conv_Cons map_Suc_upt del: upt_Suc)
  have "for_loop i (i + step * of_nat (Suc n)) step body s
      = for_loop (i + step) (i + step * of_nat (Suc n)) step body (f i s)"
    using lt by (subst for_loop.simps) (simp add: assms(1) del: of_nat_Suc)
  also have "\<dots> = Some (fold (\<lambda>k. f (i + step + step * of_nat k)) [0..<n] (f i s))"
    unfolding shift by (rule IH)
  also have "fold (\<lambda>k. f (i + step + step * of_nat k)) [0..<n] (f i s)
      = fold (\<lambda>k. f (i + step * of_nat k)) [0..<Suc n] s"
    unfolding upt by (simp add: fold_map comp_def algebra_simps)
  finally show ?case .
qed simp

end
