(* ===== verification/Libc_Stdlib.thy ===== *)
theory Libc_Stdlib
  imports Prelude
begin

text \<open>
  The number and character routines of the kernel's C library:
  \<open>source/kernel/libc/ctype.c\<close>, \<open>stdlib.c\<close> (\<open>itoa\<close>, \<open>atoi\<close>, \<open>htoa\<close>, \<open>htoan\<close>,
  \<open>strtol\<close>) and the 64-bit division of \<open>math.c\<close>. A C \<open>int\<close> that is only compared
  or is small is an \<open>int\<close>; where the width matters it is a 32-bit word, read by \<open>sint\<close>.
  A loop that scans memory for a terminator is a \<open>partial_function\<close>: \<open>None\<close> is the scan
  that never ends. The specification is \<open>radix b n\<close>, the digits of \<open>n\<close> in base \<open>b\<close>,
  most significant first, and its inverse \<open>horner\<close>.
\<close>

section \<open>ctype.c\<close>

definition isalpha :: "int \<Rightarrow> bool" where
  "isalpha c \<longleftrightarrow> (65 \<le> c \<and> c \<le> 90) \<or> (97 \<le> c \<and> c \<le> 122)"

definition isdigit :: "int \<Rightarrow> bool" where
  "isdigit c \<longleftrightarrow> 48 \<le> c \<and> c \<le> 57"

definition isalnum :: "int \<Rightarrow> bool" where
  "isalnum c \<longleftrightarrow> isalpha c \<or> isdigit c"

definition isspace :: "int \<Rightarrow> bool" where
  "isspace c \<longleftrightarrow> c = 32 \<or> c = 9 \<or> c = 10 \<or> c = 11 \<or> c = 12 \<or> c = 13"

definition islower :: "int \<Rightarrow> bool" where
  "islower c \<longleftrightarrow> 97 \<le> c \<and> c \<le> 122"

definition isupper :: "int \<Rightarrow> bool" where
  "isupper c \<longleftrightarrow> 65 \<le> c \<and> c \<le> 90"

definition tolower :: "int \<Rightarrow> int" where
  "tolower c = (if isupper c then c + (97 - 65) else c)"

definition toupper :: "int \<Rightarrow> int" where
  "toupper c = (if islower c then c - (97 - 65) else c)"

lemmas ctype_defs = isalpha_def isdigit_def isalnum_def isspace_def islower_def isupper_def
  tolower_def toupper_def

section \<open>Specification: positional notation\<close>

function radix :: "nat \<Rightarrow> nat \<Rightarrow> nat list" where
  "radix b n = (if b < 2 \<or> n < b then [n] else radix b (n div b) @ [n mod b])"
  by pat_completeness auto
termination
  by (relation "measure snd") auto

declare radix.simps [simp del]

definition horner :: "nat \<Rightarrow> nat list \<Rightarrow> nat" where
  "horner b ds = foldl (\<lambda>r d. r * b + d) 0 ds"

definition digit_char :: "nat \<Rightarrow> u8" where
  "digit_char d = (if d < 10 then of_nat (48 + d) else of_nat (55 + d))"

lemma horner_snoc [simp]: "horner b (ds @ [d]) = horner b ds * b + d"
  by (simp add: horner_def)

lemma horner_Nil [simp]: "horner b [] = 0"
  by (simp add: horner_def)

lemma horner_radix: "horner b (radix b n) = n"
proof (induction b n rule: radix.induct)
  case (1 b n)
  then show ?case
    by (subst radix.simps) (auto simp: horner_def)
qed

lemma radix_less: "2 \<le> b \<Longrightarrow> d \<in> set (radix b n) \<Longrightarrow> d < b"
proof (induction b n rule: radix.induct)
  case (1 b n)
  from "1.prems"(2) have "d \<in> set (if b < 2 \<or> n < b then [n] else radix b (n div b) @ [n mod b])"
    by (subst radix.simps [symmetric])
  with 1 show ?case by (auto split: if_splits)
qed

lemma radix_nonempty: "radix b n \<noteq> []"
  by (subst radix.simps) simp

lemma length_radix: "2 \<le> b \<Longrightarrow> 0 < k \<Longrightarrow> n < b ^ k \<Longrightarrow> length (radix b n) \<le> k"
proof (induction b n arbitrary: k rule: radix.induct)
  case (1 b n)
  show ?case
  proof (cases "n < b")
    case True
    with "1.prems" show ?thesis by (subst radix.simps) simp
  next
    case False
    with "1.prems" obtain k' where k: "k = Suc k'" "0 < k'"
      by (cases k; cases "k - 1") auto
    with "1.prems" have "n div b < b ^ k'"
      by (simp add: less_mult_imp_div_less mult.commute)
    with "1.IH" "1.prems" False k have "length (radix b (n div b)) \<le> k'" by simp
    with False k show ?thesis by (subst radix.simps) simp
  qed
qed

lemma unat_digit_char: "d < 36 \<Longrightarrow> unat (digit_char d) = (if d < 10 then 48 + d else 55 + d)"
  by (simp add: digit_char_def unat_of_nat del: of_nat_add of_nat_numeral)

lemma digit_char_nonzero: "d < 36 \<Longrightarrow> digit_char d \<noteq> 0"
  by (auto dest!: arg_cong [where f = unat] simp: unat_digit_char split: if_splits)

section \<open>itoa\<close>

text \<open>
  \<open>itoa\<close> collects the digits, least significant first, in a 20-byte buffer and then
  writes the buffer backwards. \<open>value\<close> is a two's complement \<open>int\<close>; negating
  \<open>INT_MIN\<close> gives \<open>INT_MIN\<close> again, as the i386 \<open>neg\<close> does (in C it is undefined).
  \<open>None\<close> is a read behind the digits collected in \<open>buffer\<close>, which only a \<open>sz\<close> of
  \<open>2^31\<close> or more can cause.
\<close>

function itoa_digits :: "int \<Rightarrow> u8 list \<Rightarrow> u8 list" where
  "itoa_digits v buffer =
     (if v \<noteq> 0 \<and> length buffer < 20 - 1
      then itoa_digits (v sdiv 10) (buffer @ [word_of_int (v smod 10 + 48)])
      else buffer)"
  by pat_completeness auto
termination
  by (relation "measure (\<lambda>(v, buffer). 20 - length buffer)") auto

declare itoa_digits.simps [simp del]

function itoa_emit :: "u8 list \<Rightarrow> nat \<Rightarrow> nat \<Rightarrow> u32 \<Rightarrow> mem \<Rightarrow> mem" where
  "itoa_emit buffer i j str m =
     (if j < i
      then itoa_emit buffer i (j + 1) str (m(str + of_nat j := buffer ! (i - j - 1)))
      else m)"
  by pat_completeness auto
termination
  by (relation "measure (\<lambda>(buffer, i, j, str, m). i - j)") auto

declare itoa_emit.simps [simp del]

definition itoa_collect :: "u32 \<Rightarrow> u8 list" where
  "itoa_collect value =
     (let is_negative = sint value < 0;
          buffer = itoa_digits (if is_negative then sint (- value) else sint value) []
      in if is_negative then buffer @ [0x2D] else buffer)"

definition itoa :: "u32 \<Rightarrow> u32 \<Rightarrow> u32 \<Rightarrow> mem \<Rightarrow> mem option" where
  "itoa value str sz m =
     (if sz = 0 then Some m
      else if value = 0 then
        Some (if 1 < sz then m(str := 0x30, str + 1 := 0) else m)
      else
        let buffer = itoa_collect value;
            i = (if sint sz \<le> int (length buffer) then sint (sz - 1) else int (length buffer))
        in if int (length buffer) < i then None
           else Some ((itoa_emit buffer (nat i) 0 str m)(str + word_of_int i := 0)))"

text \<open>The text \<open>itoa\<close> is meant to produce.\<close>

definition decimal :: "nat \<Rightarrow> u8 list" where
  "decimal n = map digit_char (radix 10 n)"

definition decimal_int :: "int \<Rightarrow> u8 list" where
  "decimal_int v = (if v < 0 then 0x2D # decimal (nat (- v)) else decimal (nat v))"

lemma itoa_digits_decimal:
  assumes "0 < n" "n < 10 ^ k" "length buffer + k \<le> 19"
  shows "itoa_digits (int n) buffer = buffer @ rev (decimal n)"
  using assms
proof (induction n arbitrary: buffer k rule: less_induct)
  case (less n)
  obtain k' where k: "k = Suc k'" using less.prems by (cases k) auto
  have rem: "int n smod 10 = int (n mod 10)"
    by (simp add: smod_mod_positive zmod_int)
  have digit: "word_of_int (int n smod 10 + 48) = digit_char (n mod 10)"
    unfolding rem by (simp add: digit_char_def add.commute)
  have quot: "int n sdiv 10 = int (n div 10)"
    using less.prems(1) by (simp add: signed_divide_int_eq_divide_int zdiv_int)
  show ?case
  proof (cases "n < 10")
    case True
    with less.prems k digit quot show ?thesis
      by (subst itoa_digits.simps, subst itoa_digits.simps) (simp add: decimal_def radix.simps)
  next
    case False
    then have "itoa_digits (int (n div 10)) (buffer @ [digit_char (n mod 10)])
        = (buffer @ [digit_char (n mod 10)]) @ rev (decimal (n div 10))"
      using less.prems k by (intro less.IH [where k = k']) auto
    then show ?thesis
      using less.prems k digit quot False
      by (subst itoa_digits.simps) (simp add: decimal_def radix.simps [of 10 n])
  qed
qed

lemma itoa_emit_apply:
  assumes "i < 4294967296"
  shows "itoa_emit buffer i j str m a =
    (if j \<le> unat (a - str) \<and> unat (a - str) < i then buffer ! (i - unat (a - str) - 1) else m a)"
  using assms
proof (induction buffer i j str m rule: itoa_emit.induct)
  case (1 buffer i j str m)
  show ?case
  proof (cases "j < i")
    case True
    have eq: "a = str + of_nat j \<longleftrightarrow> unat (a - str) = j"
      using True "1.prems" by (intro eq_offset_iff) simp
    have "itoa_emit buffer i j str m a
        = itoa_emit buffer i (j + 1) str (m(str + of_nat j := buffer ! (i - j - 1))) a"
      using True by (subst itoa_emit.simps) simp
    also have "\<dots> = (if j + 1 \<le> unat (a - str) \<and> unat (a - str) < i
        then buffer ! (i - unat (a - str) - 1) else (m(str + of_nat j := buffer ! (i - j - 1))) a)"
      by (rule "1.IH" [OF True "1.prems"])
    finally show ?thesis
      using True eq by (auto simp: not_le less_Suc_eq)
  qed (subst itoa_emit.simps, auto)
qed

lemma decimal_nonzero: "0 \<notin> set (decimal n)"
proof -
  have "digit_char d \<noteq> 0" if "d \<in> set (radix 10 n)" for d
    using radix_less [OF _ that] by (intro digit_char_nonzero) simp
  then show ?thesis by (auto simp: decimal_def)
qed

lemma decimal_int_nonzero: "0 \<notin> set (decimal_int v)"
  by (simp add: decimal_int_def decimal_nonzero)

lemma length_decimal: "n < 10 ^ k \<Longrightarrow> 0 < k \<Longrightarrow> length (decimal n) \<le> k"
  by (simp add: decimal_def length_radix)

lemma sint_minus32:
  assumes "v \<noteq> (0x80000000 :: u32)"
  shows "sint (- v) = - sint v"
proof -
  have "sint v \<noteq> - 2147483648"
  proof
    assume "sint v = - 2147483648"
    then have "(of_int (sint v) :: u32) = of_int (- 2147483648)" by simp
    then show False using assms by simp
  qed
  then show ?thesis
    using sint_bounds32 [of v] by (simp add: sint_word_ariths signed_take_bit_int_eq_self)
qed

text \<open>What \<open>itoa\<close> writes: the whole text if it fits, else its last \<open>sz - 1\<close> characters.\<close>

definition itoa_text :: "int \<Rightarrow> nat \<Rightarrow> u8 list" where
  "itoa_text v n = (let s = decimal_int v in if length s < n then s else drop (length s + 1 - n) s)"

lemma itoa_buffer:
  assumes "(value :: u32) \<noteq> 0x80000000" "value \<noteq> 0"
  shows "itoa_collect value = rev (decimal_int (sint value))"
proof -
  define n where "n = nat \<bar>sint value\<bar>"
  have "sint value \<noteq> 0" using assms by (metis of_int_sint scast_id of_int_0)
  then have "0 < n" "n < 10 ^ 10" using sint_bounds32 [of "value"] by (auto simp: n_def)
  then have "itoa_digits (int n) [] = rev (decimal n)"
    by (subst itoa_digits_decimal [where k = 10]) auto
  moreover have "sint (- value) = int n" if "sint value < 0"
    using that assms by (simp add: n_def sint_minus32)
  moreover have "sint value = int n" if "\<not> sint value < 0"
    using that by (simp add: n_def)
  ultimately show ?thesis
    by (auto simp: itoa_collect_def decimal_int_def n_def)
qed

lemma itoa_emit_put_cstr:
  assumes "i \<le> length s" "i < 4294967296"
  shows "(itoa_emit (rev s) i 0 str m)(str + of_nat i := 0) = put_cstr m str (drop (length s - i) s)"
proof
  fix a
  have "rev s ! (i - unat (a - str) - 1) = s ! (length s - i + unat (a - str))"
    if "unat (a - str) < i"
    using that assms by (simp add: rev_nth)
  then show "((itoa_emit (rev s) i 0 str m)(str + of_nat i := 0)) a
      = put_cstr m str (drop (length s - i) s) a"
    using assms eq_offset_iff [of i a str] by (auto simp: itoa_emit_apply put_cstr_def)
qed

lemma length_decimal_int: "sint (v :: u32) = i \<Longrightarrow> length (decimal_int i) \<le> 11"
  using sint_bounds32 [of v] length_decimal [of "nat \<bar>i\<bar>" 10]
  by (fastforce simp: decimal_int_def)

lemma itoa_eq:
  assumes ok: "value \<noteq> 0x80000000" and sz: "2 \<le> sint sz"
  shows "itoa value str sz m = Some (put_cstr m str (itoa_text (sint value) (unat sz)))"
proof -
  have n: "int (unat sz) = sint sz" and n1: "sint (sz - 1) = sint sz - 1"
    using sz sint_bounds32 [of sz] sint_nonneg32 [of sz] by (auto simp: sint_word_ariths signed_take_bit_int_eq_self)
  let ?s = "decimal_int (sint value)"
  have len: "length ?s \<le> 11" by (rule length_decimal_int) (rule refl)
  show ?thesis
  proof (cases "value = 0")
    case True
    moreover have "decimal_int 0 = [0x30]"
      by (simp add: decimal_int_def decimal_def radix.simps digit_char_def)
    moreover have two: "2 \<le> unat sz" using sz n by linarith
    then have "sz \<noteq> 0" "1 < sz" by (auto simp: word_less_nat_alt)
    ultimately show ?thesis
      using two by (simp add: itoa_def itoa_text_def put_cstr_single Let_def)
  next
    case False
    define k where "k = (if unat sz \<le> length ?s then unat sz - 1 else length ?s)"
    have k: "k \<le> length ?s" "k < 4294967296"
      using len by (auto simp: k_def)
    have "2 \<le> unat sz" using sz n by linarith
    then have i: "(if sint sz \<le> int (length ?s) then sint (sz - 1) else int (length ?s)) = int k"
      using n n1 by (auto simp: k_def of_nat_diff simp del: of_nat_unat)
    have "sz \<noteq> 0" using sz by auto
    then have "itoa value str sz m = Some ((itoa_emit (rev ?s) k 0 str m)(str + of_nat k := 0))"
      using k False unfolding itoa_def Let_def itoa_buffer [OF ok False] length_rev i by simp
    also have "\<dots> = Some (put_cstr m str (itoa_text (sint value) (unat sz)))"
      using \<open>2 \<le> unat sz\<close> unfolding itoa_emit_put_cstr [OF k]
      by (auto simp: itoa_text_def k_def Let_def)
    finally show ?thesis .
  qed
qed

section \<open>atoi\<close>

text \<open>
  \<open>result\<close> is a 32-bit \<open>int\<close>; \<open>imul\<close> and \<open>add\<close> wrap around (in C the overflow is
  undefined).
\<close>

partial_function (option) atoi_skip :: "mem \<Rightarrow> u32 \<Rightarrow> u32 option" where
  "atoi_skip m str =
     (if m str = 0x20 \<or> m str = 0x09 \<or> m str = 0x0A then atoi_skip m (str + 1) else Some str)"

partial_function (option) atoi_digits :: "mem \<Rightarrow> u32 \<Rightarrow> u32 \<Rightarrow> u32 option" where
  "atoi_digits m str result =
     (if 0x30 \<le> m str \<and> m str \<le> 0x39
      then atoi_digits m (str + 1) (result * 10 + (ucast (m str) - 0x30))
      else Some result)"

definition atoi :: "mem \<Rightarrow> u32 \<Rightarrow> u32 option" where
  "atoi m str = do {
     str \<leftarrow> atoi_skip m str;
     let (sign, str) = (if m str = 0x2D then (- 1, str + 1)
                        else if m str = 0x2B then (1, str + 1) else (1, str));
     result \<leftarrow> atoi_digits m str 0;
     Some (sign * result)
   }"

lemma digit_char_decimal:
  assumes "d < 10"
  shows "0x30 \<le> digit_char d \<and> digit_char d \<le> 0x39" "ucast (digit_char d) - 0x30 = (of_nat d :: u32)"
    "digit_char d \<noteq> 0x20" "digit_char d \<noteq> 0x09" "digit_char d \<noteq> 0x0A"
    "digit_char d \<noteq> 0x2D" "digit_char d \<noteq> 0x2B"
proof -
  have "d = 0 \<or> d = 1 \<or> d = 2 \<or> d = 3 \<or> d = 4 \<or> d = 5 \<or> d = 6 \<or> d = 7 \<or> d = 8 \<or> d = 9"
    using assms by presburger
  then show "0x30 \<le> digit_char d \<and> digit_char d \<le> 0x39" "ucast (digit_char d) - 0x30 = (of_nat d :: u32)"
    "digit_char d \<noteq> 0x20" "digit_char d \<noteq> 0x09" "digit_char d \<noteq> 0x0A"
    "digit_char d \<noteq> 0x2D" "digit_char d \<noteq> 0x2B"
    by (elim disjE; simp add: digit_char_def)+
qed

lemma atoi_digits_run:
  assumes "bytes_at m p (map digit_char ds)" "\<forall>d \<in> set ds. d < 10"
    and "\<not> (0x30 \<le> m (p + of_nat (length ds)) \<and> m (p + of_nat (length ds)) \<le> 0x39)"
  shows "atoi_digits m p r = Some (foldl (\<lambda>r d. r * 10 + of_nat d) r ds)"
  using assms
proof (induction ds arbitrary: p r)
  case Nil
  then show ?case by (subst atoi_digits.simps) auto
next
  case (Cons d ds)
  then show ?case
    using digit_char_decimal [of d]
    by (subst atoi_digits.simps) (auto simp: add.assoc)
qed

lemma of_nat_horner: "(of_nat (horner b ds) :: u32) = foldl (\<lambda>r d. r * of_nat b + of_nat d) 0 ds"
  by (induction ds rule: rev_induct) (auto simp: horner_def)

lemma atoi_digits_decimal:
  assumes "bytes_at m p (decimal n)"
    and "\<not> (0x30 \<le> m (p + of_nat (length (decimal n))) \<and> m (p + of_nat (length (decimal n))) \<le> 0x39)"
  shows "atoi_digits m p 0 = Some (of_nat n)"
proof -
  have "of_nat n = foldl (\<lambda>r d. r * 10 + of_nat d) (0 :: u32) (radix 10 n)"
    using of_nat_horner [of 10 "radix 10 n"] by (simp add: horner_radix)
  with assms show ?thesis
    using atoi_digits_run [of m p "radix 10 n" 0] radix_less [of 10 _ n]
    by (simp add: decimal_def)
qed

lemma atoi_decimal_int:
  assumes "cstr m p (decimal_int v)"
  shows "atoi m p = Some (word_of_int v)"
proof -
  obtain d ds where d: "decimal (nat \<bar>v\<bar>) = digit_char d # ds" "d < 10"
    using radix_less [of 10 _ "nat \<bar>v\<bar>"] radix_nonempty [of 10 "nat \<bar>v\<bar>"]
    by (cases "radix 10 (nat \<bar>v\<bar>)") (auto simp: decimal_def)
  show ?thesis
  proof (cases "v < 0")
    case True
    then have p: "m p = 0x2D" "cstr m (p + 1) (decimal (nat \<bar>v\<bar>))"
      using assms by (auto simp: decimal_int_def)
    then have "atoi_digits m (p + 1) 0 = Some (of_nat (nat \<bar>v\<bar>))"
      by (intro atoi_digits_decimal) (auto simp: cstr_iff)
    with p True show ?thesis by (simp add: atoi_def atoi_skip.simps)
  next
    case False
    then have p: "cstr m p (decimal (nat \<bar>v\<bar>))"
      using assms by (auto simp: decimal_int_def)
    then have "atoi_digits m p 0 = Some (of_nat (nat \<bar>v\<bar>))"
      by (intro atoi_digits_decimal) (auto simp: cstr_iff)
    with p d False digit_char_decimal [of d] show ?thesis
      by (simp add: atoi_def atoi_skip.simps)
  qed
qed

section \<open>htoa and htoan\<close>

definition hex_digits :: "u8 list" where
  "hex_digits = [0x30, 0x31, 0x32, 0x33, 0x34, 0x35, 0x36, 0x37, 0x38, 0x39,
     0x41, 0x42, 0x43, 0x44, 0x45, 0x46]"

function htoa_collect :: "u32 \<Rightarrow> u8 list \<Rightarrow> u8 list" where
  "htoa_collect value temp =
     (let temp' = temp @ [hex_digits ! unat (value AND 0xF)]; value' = drop_bit 4 value
      in if value' \<noteq> 0 \<and> length temp' < 8 then htoa_collect value' temp' else temp')"
  by pat_completeness auto
termination
  by (relation "measure (\<lambda>(value, temp). 8 - length temp)") auto

declare htoa_collect.simps [simp del]

fun htoa_emit :: "u8 list \<Rightarrow> nat \<Rightarrow> nat \<Rightarrow> u32 \<Rightarrow> mem \<Rightarrow> mem" where
  "htoa_emit temp 0 j str m = m(str + of_nat j := 0)"
| "htoa_emit temp (Suc i) j str m = htoa_emit temp i (Suc j) str (m(str + of_nat j := temp ! i))"

definition htoa :: "u32 \<Rightarrow> u32 \<Rightarrow> mem \<Rightarrow> mem" where
  "htoa value str m = (let temp = htoa_collect value [] in htoa_emit temp (length temp) 0 str m)"

function htoan_loop :: "u32 \<Rightarrow> u32 \<Rightarrow> u32 \<Rightarrow> mem \<Rightarrow> mem" where
  "htoan_loop value str n m =
     (let n' = n - 1; m' = m(str + (2 + n') := hex_digits ! unat (value AND 0xF))
      in if 0 < n' then htoan_loop (drop_bit 4 value) str n' m' else m')"
  by pat_completeness auto
termination
proof (relation "measure (\<lambda>(value, str, n, m). unat (n - 1))", goal_cases)
  case (2 v str n m n' m')
  then have "n' \<noteq> 0" by auto
  then have "unat (n' - 1) = unat n' - 1" "0 < unat n'"
    by (rule unat_minus_one) (use \<open>n' \<noteq> 0\<close> in \<open>simp add: unat_gt_0\<close>)
  with 2(1) show ?case by simp
qed simp

declare htoan_loop.simps [simp del]

definition htoan :: "u32 \<Rightarrow> u32 \<Rightarrow> u32 \<Rightarrow> mem \<Rightarrow> mem" where
  "htoan value str n m =
     htoan_loop value str n (m(str := 0x30, str + 1 := 0x78, str + (2 + n + 1) := 0))"

lemma hex_digits_nth: "d < 16 \<Longrightarrow> hex_digits ! d = digit_char d"
proof -
  assume "d < 16"
  then have "d = 0 \<or> d = 1 \<or> d = 2 \<or> d = 3 \<or> d = 4 \<or> d = 5 \<or> d = 6 \<or> d = 7
    \<or> d = 8 \<or> d = 9 \<or> d = 10 \<or> d = 11 \<or> d = 12 \<or> d = 13 \<or> d = 14 \<or> d = 15"
    by presburger
  then show ?thesis
    by (elim disjE; simp add: hex_digits_def digit_char_def)
qed

lemma unat_and_15: "unat (value AND 0xF :: u32) = unat value mod 16"
proof -
  have "unat value mod 16 = take_bit 4 (unat value)"
    by (simp add: take_bit_eq_mod)
  also have "\<dots> = unat value AND 15"
    unfolding take_bit_eq_mask by (simp add: mask_eq_exp_minus_1)
  finally show ?thesis by (simp add: unsigned_and_eq)
qed

lemma hex_digit_low: "hex_digits ! unat (value AND 0xF :: u32) = digit_char (unat value mod 16)"
  by (simp add: unat_and_15 hex_digits_nth)

lemma unat_drop_bit_4: "unat (drop_bit 4 value :: u32) = unat value div 16"
  by (simp add: drop_bit_eq_div unat_div_distrib)

lemma htoa_collect_radix:
  assumes "unat value < 16 ^ k" "0 < k" "length temp + k \<le> 8"
  shows "htoa_collect value temp = temp @ rev (map digit_char (radix 16 (unat value)))"
  using assms
proof (induction k arbitrary: "value" temp)
  case (Suc k)
  have zero: "drop_bit 4 value = 0 \<longleftrightarrow> unat value < 16"
    by (metis unat_drop_bit_4 unat_eq_zero div_eq_0_iff zero_neq_numeral)
  show ?case
  proof (cases "unat value < 16")
    case True
    then show ?thesis
      using zero by (simp add: htoa_collect.simps [of "value"] Let_def hex_digit_low radix.simps)
  next
    case False
    then have k: "0 < k" using Suc.prems by (cases k) auto
    have "htoa_collect (drop_bit 4 value) (temp @ [digit_char (unat value mod 16)])
        = (temp @ [digit_char (unat value mod 16)])
          @ rev (map digit_char (radix 16 (unat (drop_bit 4 value))))"
      using Suc.prems k by (intro Suc.IH) (auto simp: unat_drop_bit_4)
    with False Suc.prems k zero show ?thesis
      by (simp add: htoa_collect.simps [of "value"] Let_def hex_digit_low unat_drop_bit_4
          radix.simps [of 16 "unat value"])
  qed
qed simp

lemma htoa_emit_apply:
  assumes "i + j < 4294967296"
  shows "htoa_emit temp i j str m a =
    (if j \<le> unat (a - str) \<and> unat (a - str) < i + j then temp ! (i + j - unat (a - str) - 1)
     else if unat (a - str) = i + j then 0 else m a)"
  using assms
proof (induction i arbitrary: j m)
  case 0
  then show ?case using eq_offset_iff [of j a str] by auto
next
  case (Suc i)
  then show ?case
    using eq_offset_iff [of j a str] Suc.IH [of "Suc j"] by auto
qed

lemma htoa_eq: "htoa value str m = put_cstr m str (map digit_char (radix 16 (unat value)))"
proof -
  let ?s = "map digit_char (radix 16 (unat value))"
  have "unat value < 16 ^ 8" using unat_less_4G [of "value"] by simp
  then have temp: "htoa_collect value [] = rev ?s" and len: "length ?s \<le> 8"
    by (auto simp: htoa_collect_radix [where k = 8] length_radix)
  show ?thesis
  proof
    fix a
    have "rev ?s ! (length ?s - unat (a - str) - 1) = ?s ! unat (a - str)"
      if "unat (a - str) < length ?s"
      using that by (subst rev_nth) auto
    then show "htoa value str m a = put_cstr m str ?s a"
      using len by (auto simp: htoa_def Let_def temp htoa_emit_apply put_cstr_def)
  qed
qed

text \<open>The \<open>n\<close> low hexadecimal digits of a number, most significant first.\<close>

definition hex_padded :: "nat \<Rightarrow> nat \<Rightarrow> u8 list" where
  "hex_padded n v = map (\<lambda>k. digit_char (v div 16 ^ (n - 1 - k) mod 16)) [0..<n]"

lemma htoan_loop_apply:
  assumes "unat n = Suc k"
  shows "htoan_loop value str n m a =
    (if unat (a - (str + 2)) < unat n
     then digit_char (unat value div 16 ^ (k - unat (a - (str + 2))) mod 16) else m a)"
  using assms
proof (induction k arbitrary: "value" n m)
  case 0
  then have "n = 1" by (metis One_nat_def of_nat_1 of_nat_unat ucast_id)
  then show ?case
    using eq_offset_iff [of 0 a "str + 2"]
    by (subst htoan_loop.simps) (auto simp: Let_def hex_digit_low)
next
  case (Suc k)
  have "n \<noteq> 0" using Suc.prems by auto
  then have n': "unat (n - 1) = Suc k" using Suc.prems by (simp add: unat_minus_one)
  then have pos: "0 < n - 1" by (simp add: word_less_nat_alt)
  have eq: "a = str + (2 + (n - 1)) \<longleftrightarrow> unat (a - (str + 2)) = Suc k"
  proof -
    have "n - 1 = of_nat (Suc k)" unfolding n' [symmetric] by simp
    moreover have "Suc k < 4294967296" unfolding n' [symmetric] by simp
    ultimately show ?thesis
      using eq_offset_iff [of "Suc k" a "str + 2"] by (simp only: add.assoc [symmetric])
  qed
  have "htoan_loop value str n m a
      = htoan_loop (drop_bit 4 value) str (n - 1)
          (m(str + (2 + (n - 1)) := digit_char (unat value mod 16))) a"
    using pos by (subst htoan_loop.simps) (simp add: Let_def hex_digit_low)
  also have "\<dots> = (if unat (a - (str + 2)) < unat (n - 1)
      then digit_char (unat (drop_bit 4 value) div 16 ^ (k - unat (a - (str + 2))) mod 16)
      else (m(str + (2 + (n - 1)) := digit_char (unat value mod 16))) a)"
    by (rule Suc.IH) (rule n')
  finally show ?case
    using Suc.prems eq n'
    by (auto simp: unat_drop_bit_4 Suc_diff_le less_Suc_eq simp flip: div_mult2_eq)
qed

text \<open>
  \<open>htoan\<close> puts its terminator one byte too far: the byte right behind the digits keeps what
  was there before.
\<close>

lemma htoan_apply:
  assumes "n \<noteq> 0" "unat n < 4294967292"
  shows "htoan value str n m a =
    (if a = str then 0x30 else if a = str + 1 then 0x78
     else if unat (a - (str + 2)) < unat n then hex_padded (unat n) (unat value) ! unat (a - (str + 2))
     else if a = str + 2 + (n + 1) then 0 else m a)"
proof -
  obtain k where k: "unat n = Suc k" using assms(1) by (cases "unat n") (auto simp: unat_eq_0)
  have far: "unat (str - (str + 2)) = 4294967294" "unat (str + 1 - (str + 2)) = 4294967295"
  proof -
    have "str - (str + 2) = - 2" "str + 1 - (str + 2) = - 1" by simp_all
    moreover have "(- 2 :: u32) = 4294967294" "(- 1 :: u32) = 4294967295" by simp_all
    ultimately show "unat (str - (str + 2)) = 4294967294" "unat (str + 1 - (str + 2)) = 4294967295"
      by (simp_all only:) simp_all
  qed
  have nth: "hex_padded (unat n) (unat value) ! j = digit_char (unat value div 16 ^ (k - j) mod 16)"
    if "j < unat n" for j
    using that k by (simp add: hex_padded_def nth_append del: upt_Suc)
  have "unat (3 + n) = 3 + unat n" "unat (2 + n) = 2 + unat n"
    using assms(2) by (subst unat_add_small; simp)+
  then have "3 + n \<noteq> 0" "2 + n \<noteq> 0" by auto
  then show ?thesis
    using assms far nth k unfolding htoan_def htoan_loop_apply [OF k] by (auto simp: add.assoc)
qed

section \<open>strtol\<close>

text \<open>
  \<open>long\<close> is 32 bits wide. \<open>char_at\<close> reads a (signed) \<open>char\<close>; \<open>c\<close> is the character
  last read and \<open>s\<close> points behind it.
\<close>

abbreviation char_at :: "mem \<Rightarrow> u32 \<Rightarrow> int" where
  "char_at m s \<equiv> sint (m s)"

partial_function (option) strtol_skip :: "mem \<Rightarrow> u32 \<Rightarrow> (u32 \<times> int) option" where
  "strtol_skip m s =
     (let c = char_at m s in if isspace c then strtol_skip m (s + 1) else Some (s + 1, c))"

definition strtol_digit :: "int \<Rightarrow> int option" where
  "strtol_digit c =
     (if isdigit c then Some (c - 48)
      else if isalpha c then Some (tolower c - 97 + 10)
      else None)"

partial_function (option) strtol_scan ::
  "mem \<Rightarrow> u32 \<Rightarrow> u32 \<Rightarrow> int \<Rightarrow> u32 \<Rightarrow> int \<Rightarrow> u32 \<Rightarrow> int \<Rightarrow> (u32 \<times> u32 \<times> int) option" where
  "strtol_scan m base cutoff cutlim s c acc any =
     (case strtol_digit c of
        None \<Rightarrow> Some (s, acc, any)
      | Some d \<Rightarrow>
          if sint base \<le> d then Some (s, acc, any)
          else if any < 0 then strtol_scan m base cutoff cutlim (s + 1) (char_at m s) acc any
          else if cutoff < acc \<or> (acc = cutoff \<and> cutlim < d)
          then strtol_scan m base cutoff cutlim (s + 1) (char_at m s) acc (- 1)
          else strtol_scan m base cutoff cutlim (s + 1) (char_at m s)
                 (acc * base + word_of_int d) 1)"

definition strtol :: "mem \<Rightarrow> u32 \<Rightarrow> u32 \<Rightarrow> (u32 \<times> u32) option" where
  "strtol m nptr base = do {
     (s, c) \<leftarrow> strtol_skip m nptr;
     let (neg, s, c) = (if c = 45 then (True, s + 1, char_at m s)
                        else if c = 43 then (False, s + 1, char_at m s)
                        else (False, s, c));
     let (base, s, c) = (if (base = 0 \<or> base = 16) \<and> c = 48 \<and> (char_at m s = 120 \<or> char_at m s = 88)
                         then (16, s + 2, char_at m (s + 1))
                         else (base, s, c));
     let base = (if base = 0 then (if c = 48 then 8 else 10) else base);
     let limit = (if neg then 0x80000000 else 0x7FFFFFFF);
     let cutlim = sint (limit mod base);
     let cutoff = limit div base;
     (s, acc, any) \<leftarrow> strtol_scan m base cutoff cutlim s c 0 0;
     let acc = (if any < 0 then (if neg then 0x80000000 else 0x7FFFFFFF)
                else if neg then - acc else acc);
     Some (acc, if any \<noteq> 0 then s - 1 else nptr)
   }"

lemma sint_digit_char: "d < 36 \<Longrightarrow> sint (digit_char d) = (if d < 10 then 48 + int d else 55 + int d)"
proof -
  assume d: "d < 36"
  have "sint (digit_char d) = int (unat (digit_char d))"
  proof -
    have "int (unat (digit_char d)) < 128" using d by (simp add: unat_digit_char del: of_nat_unat)
    moreover have "- 128 \<le> int (unat (digit_char d))" by linarith
    ultimately show ?thesis by (simp add: sint_uint signed_take_bit_int_eq_self)
  qed
  with d show ?thesis by (simp add: unat_digit_char del: of_nat_unat)
qed

lemma strtol_digit_digit_char: "d < 36 \<Longrightarrow> strtol_digit (sint (digit_char d)) = Some (int d)"
  by (auto simp: sint_digit_char strtol_digit_def isdigit_def isalpha_def tolower_def isupper_def)

text \<open>The test against \<open>cutoff\<close> and \<open>cutlim\<close> is exactly the test for exceeding the limit.\<close>

lemma cutoff_test:
  fixes v b d L :: nat
  assumes "0 < b" "d < b"
  shows "L div b < v \<or> (v = L div b \<and> L mod b < d) \<longleftrightarrow> L < v * b + d"
proof -
  have L: "L = L div b * b + L mod b" "L mod b < b" using assms by auto
  consider "v < L div b" | "v = L div b" | "L div b < v" by linarith
  then show ?thesis
  proof cases
    case 1
    then have "(v + 1) * b \<le> L div b * b" by (intro mult_le_mono1) simp
    then have "v * b + b \<le> L div b * b" by (simp add: algebra_simps)
    with 1 L assms show ?thesis by linarith
  next
    case 2
    with L show ?thesis by (metis add_less_cancel_left less_irrefl)
  next
    case 3
    then have "(L div b + 1) * b \<le> v * b" by (intro mult_le_mono1) simp
    then have "L div b * b + b \<le> v * b" by (simp add: algebra_simps)
    with 3 L show ?thesis by linarith
  qed
qed

text \<open>The digits \<open>ds\<close> are still to be scanned, the first of them in \<open>c\<close>.\<close>

fun digits_ahead :: "mem \<Rightarrow> u32 \<Rightarrow> int \<Rightarrow> nat list \<Rightarrow> bool" where
  "digits_ahead m s c [] = (strtol_digit c = None)"
| "digits_ahead m s c (d # ds) = (c = sint (digit_char d) \<and> digits_ahead m (s + 1) (char_at m s) ds)"

lemma digits_ahead_cstr:
  "cstr m p (map digit_char ds) \<Longrightarrow> digits_ahead m (p + 1) (char_at m p) ds"
proof (induction ds arbitrary: p)
  case Nil
  then show ?case by (simp add: strtol_digit_def isdigit_def isalpha_def)
next
  case (Cons d ds)
  then show ?case using Cons.IH [of "p + 1"] by simp
qed

lemma foldl_ge: "1 \<le> b \<Longrightarrow> v \<le> foldl (\<lambda>r d. r * b + d) (v :: nat) ds"
proof (induction ds arbitrary: v)
  case (Cons d ds)
  have "v \<le> v * b + d" using Cons.prems by (cases b) auto
  also have "\<dots> \<le> foldl (\<lambda>r d. r * b + d) (v * b + d) ds" by (rule Cons.IH) (rule Cons.prems)
  finally show ?case by simp
qed simp

text \<open>What the accumulator says about the value \<open>v\<close> read so far, for the limit \<open>L\<close>.\<close>

definition acc_ok :: "nat \<Rightarrow> nat \<Rightarrow> u32 \<Rightarrow> int \<Rightarrow> bool" where
  "acc_ok L v acc any \<longleftrightarrow> (if v \<le> L then acc = of_nat v \<and> (any = 0 \<or> any = 1) else any = - 1)"

lemma strtol_scan_digits:
  assumes b: "2 \<le> b" "b \<le> 36" and L: "L \<le> 2147483648"
    and "digits_ahead m s c ds" "\<forall>d \<in> set ds. d < b" "acc_ok L v acc any"
  shows "\<exists>acc' any'. strtol_scan m (of_nat b) (of_nat (L div b)) (int (L mod b)) s c acc any
      = Some (s + of_nat (length ds), acc', any')
    \<and> acc_ok L (foldl (\<lambda>r d. r * b + d) v ds) acc' any' \<and> (any' = 0 \<longrightarrow> any = 0 \<and> ds = [])"
  using assms(4-)
proof (induction ds arbitrary: s c v acc any)
  case Nil
  then show ?case by (subst strtol_scan.simps) auto
next
  case (Cons d ds)
  have c: "strtol_digit c = Some (int d)" and ahead: "digits_ahead m (s + 1) (char_at m s) ds"
    using Cons.prems b by (auto simp: strtol_digit_digit_char)
  have d: "d < b" and ds: "\<forall>d \<in> set ds. d < b" using Cons.prems by auto
  have base: "sint (of_nat b :: u32) = int b"
    using b by (subst sint_small32) (auto simp: unat_of_nat32 simp del: of_nat_unat)
  have step: ?case
    if eq: "strtol_scan m (of_nat b) (of_nat (L div b)) (int (L mod b)) s c acc any
      = strtol_scan m (of_nat b) (of_nat (L div b)) (int (L mod b)) (s + 1) (char_at m s) acc1 any1"
      and ok: "acc_ok L (v * b + d) acc1 any1" "any1 \<noteq> 0" for acc1 any1
    using Cons.IH [OF ahead ds ok(1)] ok(2) by (auto simp: eq add.assoc)
  show ?case
  proof (cases "v \<le> L")
    case False
    then have any: "any = - 1" using Cons.prems by (simp add: acc_ok_def)
    have "v \<le> v * b + d" using b by (cases b) auto
    with False any show ?thesis
      using c d base
      by (intro step [of acc "- 1"]) (subst strtol_scan.simps, auto simp: acc_ok_def)
  next
    case True
    then have acc: "acc = of_nat v" "any = 0 \<or> any = 1"
      using Cons.prems by (auto simp: acc_ok_def)
    have "v < 4294967296" "L div b < 4294967296"
      using True L div_le_dividend [of L b] by linarith+
    then have un: "unat acc = v" "unat (of_nat (L div b) :: u32) = L div b"
      using acc by (simp_all add: unat_of_nat32)
    have test: "of_nat (L div b) < acc \<or> (acc = of_nat (L div b) \<and> int (L mod b) < int d)
        \<longleftrightarrow> L < v * b + d"
      using cutoff_test [of b d L v] b d un
      by (auto simp: word_less_nat_alt word_unat_eq_iff)
    have "strtol_scan m (of_nat b) (of_nat (L div b)) (int (L mod b)) s c acc any
      = strtol_scan m (of_nat b) (of_nat (L div b)) (int (L mod b)) (s + 1) (char_at m s)
          (if L < v * b + d then acc else acc * of_nat b + word_of_int (int d))
          (if L < v * b + d then - 1 else 1)"
      using c d base acc(2) test by (subst strtol_scan.simps) auto
    then show ?thesis
      by (rule step) (use acc in \<open>auto simp: acc_ok_def split: if_splits\<close>)
  qed
qed

definition strtol_limit :: "bool \<Rightarrow> nat" where
  "strtol_limit neg = (if neg then 2147483648 else 2147483647)"

text \<open>The value \<open>strtol\<close> is meant to return: saturated at the ends of \<open>long\<close>.\<close>

definition saturate :: "bool \<Rightarrow> nat \<Rightarrow> u32" where
  "saturate neg v =
     (if v \<le> strtol_limit neg then (if neg then - of_nat v else of_nat v)
      else (if neg then 0x80000000 else 0x7FFFFFFF))"

lemma strtol_scan_top:
  fixes neg :: bool
  assumes b: "2 \<le> b" "b \<le> 36"
    and ahead: "digits_ahead m s c ds" "\<forall>d \<in> set ds. d < b" "ds \<noteq> []"
  defines "limit \<equiv> (if neg then 0x80000000 else 0x7FFFFFFF :: u32)"
  shows "\<exists>acc any. strtol_scan m (of_nat b) (limit div of_nat b) (sint (limit mod of_nat b)) s c 0 0
      = Some (s + of_nat (length ds), acc, any) \<and> any \<noteq> 0
    \<and> (if any < 0 then (if neg then 0x80000000 else 0x7FFFFFFF) else if neg then - acc else acc)
      = saturate neg (horner b ds)"
proof -
  let ?L = "strtol_limit neg"
  have limit: "limit = of_nat ?L" "unat limit = ?L"
    by (auto simp: limit_def strtol_limit_def)
  have ub: "unat (of_nat b :: u32) = b" using b by (simp add: unat_of_nat32)
  have "?L mod b < 2147483648" using b mod_less_divisor [of b ?L] by linarith
  then have "sint (limit mod of_nat b) = int (?L mod b)"
    using b by (subst sint_small32) (auto simp: unat_mod_distrib limit(2) ub simp del: of_nat_unat)
  moreover have "limit div of_nat b = of_nat (?L div b)"
    by (simp add: word_arith_nat_div [of limit] limit(2) ub)
  moreover have "acc_ok ?L 0 0 0" by (simp add: acc_ok_def)
  moreover have "?L \<le> 2147483648" by (simp add: strtol_limit_def)
  ultimately obtain acc any where
    "strtol_scan m (of_nat b) (limit div of_nat b) (sint (limit mod of_nat b)) s c 0 0
      = Some (s + of_nat (length ds), acc, any)" and
    acc: "acc_ok ?L (horner b ds) acc any" "any \<noteq> 0"
    using strtol_scan_digits [OF b, of ?L m s c ds 0 0 0] ahead by (auto simp: horner_def)
  moreover have "(if any < 0 then (if neg then 0x80000000 else 0x7FFFFFFF) else if neg then - acc else acc)
      = saturate neg (horner b ds)"
    using acc by (auto simp: acc_ok_def saturate_def split: if_splits)
  ultimately show ?thesis by blast
qed

lemma strtol_saturates:
  assumes b: "2 \<le> b" "b \<le> 36"
    and str: "cstr m p ((if neg then [0x2D] else []) @ map digit_char ds)"
    and ds: "ds \<noteq> []" "\<forall>d \<in> set ds. d < b"
  shows "strtol m p (of_nat b) = Some (saturate neg (horner b ds),
    p + of_nat (length ds + (if neg then 1 else 0)))"
proof -
  obtain d ds' where cons: "ds = d # ds'" using ds(1) by (cases ds) auto
  let ?q = "if neg then p + 1 else p"
  have q: "cstr m ?q (map digit_char ds)" using str by (cases neg) auto
  then have "digits_ahead m (?q + 1) (char_at m ?q) ds" by (rule digits_ahead_cstr)
  then obtain acc any where scan: "strtol_scan m (of_nat b)
      ((if neg then 0x80000000 else 0x7FFFFFFF) div of_nat b)
      (sint ((if neg then 0x80000000 else 0x7FFFFFFF) mod of_nat b :: u32)) (?q + 1) (char_at m ?q) 0 0
      = Some (?q + 1 + of_nat (length ds), acc, any)" "any \<noteq> 0"
      "(if any < 0 then (if neg then 0x80000000 else 0x7FFFFFFF) else if neg then - acc else acc)
       = saturate neg (horner b ds)"
    using strtol_scan_top [OF b _ ds(2,1), of m "?q + 1" "char_at m ?q" neg] by blast
  have d: "m ?q = digit_char d" "d < b" using q cons ds(2) by auto
  then have first: "\<not> isspace (char_at m ?q)" "char_at m ?q \<noteq> 45" "char_at m ?q \<noteq> 43"
    using b by (auto simp: sint_digit_char isspace_def)
  have next16: "char_at m (?q + 1) \<noteq> 120 \<and> char_at m (?q + 1) \<noteq> 88" if "b = 16"
  proof (cases ds')
    case (Cons d' ds'')
    with q cons ds(2) that have "m (?q + 1) = digit_char d'" "d' < 16" by auto
    then show ?thesis by (simp add: sint_digit_char)
  qed (use q cons in simp)
  have base: "(of_nat b :: u32) \<noteq> 0" "(of_nat b :: u32) = 16 \<longleftrightarrow> b = 16"
    using b by (auto simp: unat_of_nat32 dest: arg_cong [where f = unat])
  show ?thesis
  proof (cases neg)
    case True
    then have "m p = 0x2D" using str by simp
    then have "strtol_skip m p = Some (p + 1, 45)" by (subst strtol_skip.simps) (simp add: isspace_def)
    with True scan first next16 base show ?thesis
      by (auto simp: strtol_def Let_def)
  next
    case False
    then have "strtol_skip m p = Some (p + 1, char_at m p)"
      using first by (subst strtol_skip.simps) (simp add: Let_def)
    with False scan first next16 base show ?thesis
      by (auto simp: strtol_def Let_def)
  qed
qed

section \<open>64-bit division: math.c\<close>

definition abs_int :: "u32 \<Rightarrow> u32" where
  "abs_int j = (if sint j < 0 then - j else j)"

text \<open>
  \<open>udivdi3_loop i n d q r\<close> runs the loop body for the bit positions \<open>i - 1, \<dots>, 0\<close>.
\<close>

fun udivdi3_loop :: "nat \<Rightarrow> u64 \<Rightarrow> u64 \<Rightarrow> u64 \<Rightarrow> u64 \<Rightarrow> u64" where
  "udivdi3_loop 0 n d q r = q"
| "udivdi3_loop (Suc i) n d q r =
     (let r' = push_bit 1 r OR (drop_bit i n AND 1)
      in if d \<le> r' then udivdi3_loop i n d (q OR push_bit i 1) (r' - d)
         else udivdi3_loop i n d q r')"

definition udivdi3 :: "u64 \<Rightarrow> u64 \<Rightarrow> u64" where
  "udivdi3 n d = (if d = 0 then 0 else udivdi3_loop 64 n d 0 0)"

lemma unat_or_disjoint:
  fixes a b :: "'a::len word"
  assumes "a AND b = 0" "unat a + unat b < 2 ^ LENGTH('a)"
  shows "unat (a OR b) = unat a + unat b"
proof -
  have "a OR b = a + b"
    using assms(1) by (rule disjunctive_add_eq_or [symmetric])
  then show ?thesis using assms(2) by (simp add: unat_word_ariths)
qed

lemma div_mod_unique: "(x :: nat) = k * d + r \<Longrightarrow> r < d \<Longrightarrow> x div d = k \<and> x mod d = r"
  by simp

lemma unat_bit_at: "unat (drop_bit i n AND 1 :: u64) = unat n div 2 ^ i mod 2"
proof -
  have "unat (drop_bit i n AND 1 :: u64) = unat (drop_bit i n) mod 2"
    by (simp add: and_one_eq unat_mod_distrib)
  also have "\<dots> = drop_bit i (unat n) mod 2" by (simp only: unat_drop_bit_eq)
  finally show ?thesis by (simp only: drop_bit_eq_div)
qed

lemma udivdi3_loop_correct:
  assumes "0 < unat d" "i \<le> 64"
    and "unat r = (unat n div 2 ^ i) mod unat d"
    and "unat q = (unat n div 2 ^ i) div unat d * 2 ^ i"
  shows "unat (udivdi3_loop i n d q r) = unat n div unat d"
  using assms(2-)
proof (induction i arbitrary: q r)
  case 0
  then show ?case by simp
next
  case (Suc i)
  let ?N = "unat n div 2 ^ Suc i" and ?d = "unat d"
  define b where "b = unat n div 2 ^ i mod 2"
  have N: "unat n div 2 ^ i = 2 * ?N + b"
    by (simp add: b_def div_mult2_eq mult.commute [of 2])
  have "?N \<le> unat n div 2" using Suc.prems(1) by (intro div_le_mono2) (auto simp: le_numeral_extra self_le_power)
  moreover have "unat n < 18446744073709551616" using unsigned_less [of n] by simp
  ultimately have r63: "unat r < 9223372036854775808"
    using Suc.prems(2) mod_less_eq_dividend [of ?N ?d] by linarith
  define r' where "r' = push_bit 1 r OR (drop_bit i n AND 1)"
  have "unat (push_bit 1 r) = 2 * unat r"
    using r63 by (simp add: unat_word_ariths push_bit_eq_mult)
  moreover have "push_bit 1 r AND (drop_bit i n AND 1) = 0"
    by (rule bit_word_eqI) (simp only: bit_and_iff bit_push_bit_iff bit_1_iff bit_0_eq; auto)
  ultimately have r': "unat r' = 2 * unat r + b"
    unfolding r'_def using r63 by (subst unat_or_disjoint) (auto simp: unat_bit_at b_def)
  have quotient: "2 * ?N + b = (2 * (?N div ?d)) * ?d + unat r'"
  proof -
    have "2 * ?N = 2 * (?N div ?d * ?d + ?N mod ?d)" by (simp only: div_mult_mod_eq)
    also have "\<dots> = 2 * (?N div ?d) * ?d + 2 * (?N mod ?d)" by (simp only: distrib_left mult.assoc)
    finally show ?thesis unfolding r' Suc.prems(2) by linarith
  qed
  have r'_bound: "unat r' < 2 * ?d"
    unfolding r' Suc.prems(2) using mod_less_divisor [OF assms(1), of ?N] mod_less_divisor [of 2 "unat n div 2 ^ i"]
    unfolding b_def by linarith
  show ?case
  proof (cases "d \<le> r'")
    case False
    then have lt: "unat r' < ?d" by (simp add: word_le_nat_alt)
    then have "unat n div 2 ^ i div ?d = 2 * (?N div ?d)" "unat n div 2 ^ i mod ?d = unat r'"
      using div_mod_unique [OF quotient lt] unfolding N by auto
    then have "unat (udivdi3_loop i n d q r') = unat n div ?d"
      using Suc.prems by (intro Suc.IH) auto
    with False show ?thesis by (simp add: r'_def Let_def)
  next
    case True
    then have sub: "unat (r' - d) = unat r' - ?d" "?d \<le> unat r'"
      by (simp_all add: unat_sub word_le_nat_alt)
    have "2 * ?N + b = (2 * (?N div ?d) + 1) * ?d + (unat r' - ?d)" "unat r' - ?d < ?d"
      using quotient sub(2) r'_bound by (auto simp: algebra_simps)
    then have divs: "unat n div 2 ^ i div ?d = 2 * (?N div ?d) + 1"
        "unat n div 2 ^ i mod ?d = unat r' - ?d"
      using div_mod_unique unfolding N by metis+
    have bit: "unat (push_bit i 1 :: u64) = 2 ^ i"
    proof -
      have "(2 :: nat) ^ i < 2 ^ 64" using Suc.prems(1) by (intro power_strict_increasing) auto
      then have "unat (of_nat (2 ^ i) :: u64) = 2 ^ i"
        by (simp add: unat_of_nat del: of_nat_power)
      then show ?thesis by (simp add: push_bit_eq_mult)
    qed
    have "\<not> bit (unat q) i"
      unfolding Suc.prems(3) by (simp add: bit_iff_odd)
    then have "q AND push_bit i 1 = 0"
      by (intro bit_word_eqI) (auto simp: bit_simps)
    moreover have "unat q + 2 ^ i = (2 * (?N div ?d) + 1) * 2 ^ i"
      unfolding Suc.prems(3) by (simp add: algebra_simps)
    moreover have "(2 * (?N div ?d) + 1) * 2 ^ i < 2 ^ 64"
    proof -
      have "unat n div 2 ^ i div ?d * 2 ^ i \<le> unat n div 2 ^ i * 2 ^ i"
        by (intro mult_le_mono1) simp
      also have "\<dots> \<le> unat n" by simp
      also have "\<dots> < 2 ^ 64" using unsigned_less [of n] by simp
      finally show ?thesis by (simp only: divs)
    qed
    ultimately have "unat (q OR push_bit i 1) = (2 * (?N div ?d) + 1) * 2 ^ i"
      using bit by (subst unat_or_disjoint) (auto simp: push_bit_eq_mult)
    then have "unat (udivdi3_loop i n d (q OR push_bit i 1) (r' - d)) = unat n div ?d"
      using Suc.prems(1) divs sub by (intro Suc.IH) auto
    with True show ?thesis by (simp add: r'_def Let_def)
  qed
qed

lemma udivdi3_correct: "unat (udivdi3 n d) = unat n div unat d"
proof (cases "d = 0")
  case False
  have "unat n < 2 ^ 64" using unsigned_less [of n] by simp
  with False show ?thesis
    unfolding udivdi3_def by (simp add: udivdi3_loop_correct unat_gt_0)
qed (simp add: udivdi3_def)

section \<open>Properties\<close>

text \<open>
  C19. \<open>__udivdi3\<close>, the routine the compiler calls for 64-bit division, is the quotient of
  the two numbers for every divisor but zero, where it returns zero instead of trapping.
\<close>

theorem udivdi3_is_division: "unat (udivdi3 n d) = (if unat d = 0 then 0 else unat n div unat d)"
  by (simp add: udivdi3_correct)

text \<open>
  \<open>itoa\<close> writes the decimal text of the number and its terminator, or, if that does not
  fit into \<open>sz\<close> bytes, the last \<open>sz - 1\<close> characters of it; nothing else is written.
\<close>

theorem itoa_writes_decimal:
  assumes "value \<noteq> 0x80000000" "2 \<le> sint sz"
  shows "\<exists>m'. itoa value str sz m = Some m'
    \<and> cstr m' str (itoa_text (sint value) (unat sz))
    \<and> (\<forall>a. unat sz \<le> unat (a - str) \<longrightarrow> m' a = m a)"
proof -
  let ?s = "itoa_text (sint value) (unat sz)"
  have two: "2 \<le> unat sz"
    using assms(2) sint_nonneg32 [of sz] by linarith
  have "length (decimal_int (sint value)) \<le> 11" by (rule length_decimal_int) (rule refl)
  then have len: "length ?s < unat sz" "length ?s < 4294967296"
    using two by (auto simp: itoa_text_def Let_def)
  have "set ?s \<subseteq> set (decimal_int (sint value))"
    by (simp add: itoa_text_def Let_def set_drop_subset)
  then have "0 \<notin> set ?s" using decimal_int_nonzero by blast
  then show ?thesis
    using len by (auto simp: itoa_eq [OF assms] cstr_put_cstr put_cstr_outside)
qed

theorem itoa_writes_decimal_witness:
  "\<exists>m'. itoa (- 12) 0x1000 12 (\<lambda>_. 0) = Some m' \<and> cstr m' 0x1000 (itoa_text (- 12) 12)"
  using itoa_writes_decimal [of "- 12" 12 "0x1000" "\<lambda>_. 0"] by auto

text \<open>
  \<open>atoi\<close> reads back what \<open>itoa\<close> has written, whenever the buffer is large enough for
  every number (12 bytes).
\<close>

theorem atoi_itoa_roundtrip:
  assumes "value \<noteq> 0x80000000" "12 \<le> sint sz" "itoa value str sz m = Some m'"
  shows "atoi m' str = Some value"
proof -
  have "12 \<le> unat sz" using assms(2) sint_nonneg32 [of sz] by linarith
  moreover have "length (decimal_int (sint value)) \<le> 11" by (rule length_decimal_int) (rule refl)
  ultimately have full: "itoa_text (sint value) (unat sz) = decimal_int (sint value)"
    by (simp add: itoa_text_def Let_def)
  have "m' = put_cstr m str (decimal_int (sint value))"
    using assms itoa_eq [of "value" sz str m] by (simp add: full)
  moreover have "length (decimal_int (sint value)) < 4294967296"
    using \<open>length (decimal_int (sint value)) \<le> 11\<close> by simp
  ultimately have "cstr m' str (decimal_int (sint value))"
    using cstr_put_cstr [OF decimal_int_nonzero] by simp
  then show ?thesis
    using atoi_decimal_int [of m' str "sint value"] by simp
qed

theorem atoi_itoa_roundtrip_witness:
  "\<exists>m'. itoa (- 1234) 0x1000 12 (\<lambda>_. 0) = Some m' \<and> atoi m' 0x1000 = Some (- 1234)"
  using atoi_itoa_roundtrip [of "- 1234" 12 "0x1000" "\<lambda>_. 0"] itoa_eq [of "- 1234" 12 "0x1000" "\<lambda>_. 0"] by auto

text \<open>
  C25. \<open>strtol\<close> on an optional minus sign and digits of a base from 2 to 36: the value, or the
  end of \<open>long\<close> that overflow runs past, and \<open>endptr\<close> behind the last digit. The overflow is
  recognised without computing the number that does not fit.
\<close>

theorem strtol_value_or_limit:
  assumes "2 \<le> b" "b \<le> 36" "ds \<noteq> []" "list_all (\<lambda>d. d < b) ds"
    and "cstr m p ((if neg then [0x2D] else []) @ map digit_char ds)"
  shows "strtol m p (of_nat b) =
    Some (if horner b ds \<le> strtol_limit neg
            then (if neg then - of_nat (horner b ds) else of_nat (horner b ds))
            else (if neg then 0x80000000 else 0x7FFFFFFF),
          p + of_nat (length ds) + (if neg then 1 else 0))"
  using strtol_saturates [OF assms(1,2,5,3)] assms(4)
  by (auto simp: saturate_def list_all_iff add.assoc)

theorem strtol_value_or_limit_witness:
  "strtol (put_cstr (\<lambda>_. 0) 0x1000 [0x2D, 0x37, 0x42]) 0x1000 16 = Some (- 123, 0x1003)"
  using strtol_value_or_limit [of 16 "[7, 11]" "put_cstr (\<lambda>_. 0) 0x1000 [0x2D, 0x37, 0x42]" "0x1000" True]
    cstr_put_cstr [of "[0x2D, 0x37, 0x42]" "\<lambda>_. 0" "0x1000"]
  by (simp add: digit_char_def horner_def strtol_limit_def)

text \<open>
  The hexadecimal text \<open>htoa\<close> writes (no prefix, no leading zeros) is read back by
  \<open>strtol\<close> in base 16: the number itself below \<open>2^31\<close>, saturated above.
\<close>

theorem strtol_htoa_roundtrip:
  "strtol (htoa value str m) str 16 =
     Some (if unat value < 2147483648 then value else 0x7FFFFFFF,
       str + of_nat (length (radix 16 (unat value))))"
proof -
  let ?ds = "radix 16 (unat value)"
  have less: "\<forall>d \<in> set ?ds. d < 16" using radix_less [of 16] by auto
  have "unat value < 16 ^ 8" using unat_less_4G [of "value"] by simp
  then have "length ?ds \<le> 8" by (intro length_radix) auto
  moreover have "0 \<notin> set (map digit_char ?ds)"
    using less digit_char_nonzero by fastforce
  ultimately have "cstr (htoa value str m) str (map digit_char ?ds)"
    by (simp add: htoa_eq cstr_put_cstr)
  then have "strtol (htoa value str m) str (of_nat 16)
      = Some (saturate False (horner 16 ?ds), str + of_nat (length ?ds))"
    using strtol_saturates [of 16 "htoa value str m" str False ?ds] radix_nonempty less by simp
  then show ?thesis by (simp add: horner_radix saturate_def strtol_limit_def)
qed

text \<open>
  \<open>htoan\<close> with \<open>n\<close> digits writes \<open>0x\<close> and the digits, zero padded, but its terminator one
  byte behind the place where the string ends: the byte after the digits keeps its value.
\<close>

theorem htoan_leaves_gap:
  assumes "n \<noteq> 0" "unat n < 4294967292"
  shows "htoan value str n m (str + 2 + n) = m (str + 2 + n)
    \<and> htoan value str n m (str + 3 + n) = 0
    \<and> (\<forall>i < unat n. htoan value str n m (str + 2 + of_nat i) = hex_padded (unat n) (unat value) ! i)"
proof -
  have nonzero: "1 + x \<noteq> 0" "2 + x \<noteq> 0" "3 + x \<noteq> 0" if "unat (x :: u32) < 4294967292" for x
  proof -
    have "unat (1 + x) = 1 + unat x" "unat (2 + x) = 2 + unat x" "unat (3 + x) = 3 + unat x"
      using that by (subst unat_add_small; simp)+
    then show "1 + x \<noteq> 0" "2 + x \<noteq> 0" "3 + x \<noteq> 0" by auto
  qed
  have small: "unat (of_nat i :: u32) = i" if "i < unat n" for i
    using that assms(2) by (intro unat_of_nat32) simp
  have "htoan value str n m (str + 2 + of_nat i) = hex_padded (unat n) (unat value) ! i"
    if "i < unat n" for i
    using that small [OF that] nonzero [of "of_nat i"] assms(2)
    unfolding htoan_apply [OF assms] by (simp add: add.assoc)
  moreover have "unat (1 + n) = 1 + unat n" using assms(2) by (subst unat_add_small) auto
  ultimately show ?thesis
    using nonzero [OF assms(2)] assms(1) htoan_apply [OF assms, of "value" str m]
    by (auto simp: add.assoc)
qed

theorem htoan_leaves_gap_witness:
  "htoan 0x1A 0x1000 4 (\<lambda>_. 0) 0x1006 = (\<lambda>_. 0) 0x1006 \<and> htoan 0x1A 0x1000 4 (\<lambda>_. 0) 0x1007 = 0"
  using htoan_leaves_gap [of 4 "0x1A" "0x1000" "\<lambda>_. 0"] by simp

end
