(* ===== verification/Libc_String.thy ===== *)
theory Libc_String
  imports Libc_Stdlib
begin

text \<open>
  The string and memory routines of the kernel: \<open>source/kernel/libc/string.c\<close> and the
  assembly primitives it calls (\<open>optimalized_functions.asm\<close>). Every routine works on the
  flat memory, so aliasing of source and destination is part of the model. The three
  implementations the function pointer \<open>memcpy\<close> can hold return \<open>None\<close> where an aligned SSE
  move faults on an unaligned address. They meet the same contract, the locale
  \<open>memory_copier\<close>.
\<close>

section \<open>The assembly primitives\<close>

definition memcpy1 :: "mem \<Rightarrow> u32 \<Rightarrow> u32 \<Rightarrow> u32 \<Rightarrow> mem" where
  "memcpy1 m dst src len = copy_blocks 1 (unat len) m dst src"

definition memcpy4 :: "mem \<Rightarrow> u32 \<Rightarrow> u32 \<Rightarrow> u32 \<Rightarrow> mem" where
  "memcpy4 m dst src len = copy_blocks 4 (unat (drop_bit 2 len)) m dst src"

text \<open>
  Blocks of 128 bytes through eight SSE registers. The stores are always aligned moves; the
  loads are aligned in the \<open>a\<close> variants. The non-temporal variants differ only in how they
  use the cache.
\<close>

definition memcpy128a :: "mem \<Rightarrow> u32 \<Rightarrow> u32 \<Rightarrow> u32 \<Rightarrow> mem option" where
  "memcpy128a m dst src len =
     (let n = unat (drop_bit 7 len)
      in if 0 < n \<and> (dst mod 16 \<noteq> 0 \<or> src mod 16 \<noteq> 0) then None
         else Some (copy_blocks 128 n m dst src))"

definition memcpy128u :: "mem \<Rightarrow> u32 \<Rightarrow> u32 \<Rightarrow> u32 \<Rightarrow> mem option" where
  "memcpy128u m dst src len =
     (let n = unat (drop_bit 7 len)
      in if 0 < n \<and> dst mod 16 \<noteq> 0 then None else Some (copy_blocks 128 n m dst src))"

definition memcpynt128a :: "mem \<Rightarrow> u32 \<Rightarrow> u32 \<Rightarrow> u32 \<Rightarrow> mem option" where
  "memcpynt128a = memcpy128a"

definition memcpynt128u :: "mem \<Rightarrow> u32 \<Rightarrow> u32 \<Rightarrow> u32 \<Rightarrow> mem option" where
  "memcpynt128u = memcpy128u"

definition memset :: "mem \<Rightarrow> u32 \<Rightarrow> u8 \<Rightarrow> u32 \<Rightarrow> mem" where
  "memset m dst v len =
     (let blocks = drop_bit 2 len * 4
      in mem_fill (mem_fill m dst v blocks) (dst + blocks) v (len AND 3))"

fun copy_down :: "nat \<Rightarrow> mem \<Rightarrow> u32 \<Rightarrow> u32 \<Rightarrow> mem" where
  "copy_down 0 m dst src = m"
| "copy_down (Suc n) m dst src = copy_down n (m(dst := m src)) (dst - 1) (src - 1)"

definition memmove :: "mem \<Rightarrow> u32 \<Rightarrow> u32 \<Rightarrow> u32 \<Rightarrow> mem" where
  "memmove m dst src len =
     (if len = 0 then m
      else if dst < src \<or> src + len \<le> dst then
        let blocks = drop_bit 2 len; m' = copy_blocks 4 (unat blocks) m dst src
        in copy_blocks 1 (unat (len AND 3)) m' (dst + blocks * 4) (src + blocks * 4)
      else copy_down (unat len) m (dst + len - 1) (src + len - 1))"

section \<open>memcpy\<close>

definition memcpy_i386 :: "mem \<Rightarrow> u32 \<Rightarrow> u32 \<Rightarrow> u32 \<Rightarrow> (u32 \<times> mem) option" where
  "memcpy_i386 m dst src len =
     (let original_dest = dst;
          blocks = len div 4 * 4;
          m = memcpy4 m dst src blocks;
          m = memcpy1 m (dst + blocks) (src + blocks) (len - blocks)
      in Some (original_dest, m))"

definition memcpy_sse :: "mem \<Rightarrow> u32 \<Rightarrow> u32 \<Rightarrow> u32 \<Rightarrow> (u32 \<times> mem) option" where
  "memcpy_sse m dst src len =
     (if len < 2048 then memcpy_i386 m dst src len
      else do {
        let original_dest = dst;
        let (m, dst, src, len) =
          (if dst mod 16 \<noteq> 0 then
             let bytes_to_align_dst = 16 - dst mod 16
             in (memcpy1 m dst src bytes_to_align_dst, dst + bytes_to_align_dst,
                 src + bytes_to_align_dst, len - bytes_to_align_dst)
           else (m, dst, src, len));
        let bytes_to_copy_by_blocks = len div 128 * 128;
        (m, len) \<leftarrow>
          (if len < 1024 * 1024 then do {
             m \<leftarrow> (if src mod 16 = 0 then memcpy128a m dst src bytes_to_copy_by_blocks
                   else memcpy128u m dst src bytes_to_copy_by_blocks);
             Some (m, len - bytes_to_copy_by_blocks)
           } else do {
             m \<leftarrow> (if src mod 16 = 0 then memcpynt128a m dst src bytes_to_copy_by_blocks
                   else memcpynt128u m dst src bytes_to_copy_by_blocks);
             Some (m, len)
           });
        let len = len - bytes_to_copy_by_blocks;
        let bytes_to_align = len mod 128;
        m \<leftarrow> (if bytes_to_align \<noteq> 128
              then map_option snd (memcpy_i386 m (dst + bytes_to_copy_by_blocks)
                     (src + bytes_to_copy_by_blocks) bytes_to_align)
              else Some m);
        Some (original_dest, m)
      })"

definition memcpynt_sse :: "mem \<Rightarrow> u32 \<Rightarrow> u32 \<Rightarrow> u32 \<Rightarrow> (u32 \<times> mem) option" where
  "memcpynt_sse m dst src len = do {
     let original_dest = dst;
     let (m, dst, src, len) =
       (if dst mod 16 \<noteq> 0 then
          let bytes_to_align_dst = 16 - dst mod 16
          in (memcpy1 m dst src bytes_to_align_dst, dst + bytes_to_align_dst,
              src + bytes_to_align_dst, len - bytes_to_align_dst)
        else (m, dst, src, len));
     let bytes_to_copy_by_blocks = len div 128 * 128;
     m \<leftarrow> (if src mod 16 = 0 then memcpynt128a m dst src bytes_to_copy_by_blocks
           else memcpynt128u m dst src bytes_to_copy_by_blocks);
     let len = len - bytes_to_copy_by_blocks;
     let bytes_to_align = len mod 128;
     m \<leftarrow> (if bytes_to_align \<noteq> 128
           then map_option snd (memcpy_i386 m (dst + bytes_to_copy_by_blocks)
                  (src + bytes_to_copy_by_blocks) bytes_to_align)
           else Some m);
     Some (original_dest, m)
   }"

lemma blocks_exact:
  assumes "unat b dvd unat len" "b \<noteq> 0"
  shows "b * of_nat (unat (len div b)) = (len :: u32)" "unat b * unat (len div b) = unat len"
proof -
  show un: "unat b * unat (len div b) = unat len"
    using assms by (simp add: unat_div_distrib)
  have "unat (b * (len div b)) = unat len"
    using un by (subst unat_mult_small) auto
  then show "b * of_nat (unat (len div b)) = len" by (simp add: word_unat_eq_iff)
qed

lemma copy_blocks_exact:
  assumes "copy_ok dst src len" "unat b dvd unat len" "b \<noteq> 0"
  shows "copy_blocks b (unat (len div b)) m dst src = mem_copy m dst src len"
  using copy_blocks_eq [of dst src b "unat (len div b)" m] blocks_exact [OF assms(2,3)] assms(1)
  by simp

lemma memcpy1_eq: "copy_ok dst src len \<Longrightarrow> memcpy1 m dst src len = mem_copy m dst src len"
  using copy_blocks_exact [of dst src len 1 m] by (simp add: memcpy1_def)

lemma memcpy4_eq:
  "copy_ok dst src len \<Longrightarrow> 4 dvd unat len \<Longrightarrow> memcpy4 m dst src len = mem_copy m dst src len"
  using copy_blocks_exact [of dst src len 4 m] by (simp add: memcpy4_def drop_bit_eq_div)

lemma memcpy128_eq:
  assumes "copy_ok dst src len" "128 dvd unat len" "dst mod 16 = 0"
  shows "memcpy128u m dst src len = Some (mem_copy m dst src len)"
    and "src mod 16 = 0 \<Longrightarrow> memcpy128a m dst src len = Some (mem_copy m dst src len)"
  using copy_blocks_exact [of dst src len 128 m] assms
  by (simp_all add: memcpy128u_def memcpy128a_def drop_bit_eq_div Let_def)

lemma unat_floor: "unat ((len :: u32) div 4 * 4) = unat len div 4 * 4"
  "unat (len div 128 * 128) = unat len div 128 * 128"
proof -
  have "unat len div 4 * 4 \<le> unat len" "unat len div 128 * 128 \<le> unat len" by simp_all
  then have "unat len div 4 * 4 < 4294967296" "unat len div 128 * 128 < 4294967296"
    using unat_less_4G [of len] by linarith+
  then show "unat (len div 4 * 4) = unat len div 4 * 4" "unat (len div 128 * 128) = unat len div 128 * 128"
    by (subst unat_mult_small; simp add: unat_div_distrib)+
qed

lemma mem_copy_split:
  assumes "copy_ok dst src len" "k \<le> len"
  shows "mem_copy (mem_copy m dst src k) (dst + k) (src + k) (len - k) = mem_copy m dst src len"
  using mem_copy_compose [of dst src k "len - k" m] assms
  by (simp add: word_le_nat_alt unat_sub)

lemma copy_ok_tail:
  assumes "copy_ok dst src len" "k < len"
  shows "copy_ok (dst + k) (src + k) (len - k)"
proof -
  have "unat k + unat (len - k) < 4294967296" using assms(2) by (simp add: unat_sub word_le_nat_alt word_less_nat_alt)
  then show ?thesis using copy_ok_rest [of dst src k "len - k"] assms by auto
qed

text \<open>Finishing a copy of which the first \<open>k\<close> bytes are done.\<close>

lemma finish_copy:
  assumes "copy_ok dst src len" "k \<le> len"
    and "\<And>m. copy_ok (dst + k) (src + k) (len - k) \<Longrightarrow> f m = mem_copy m (dst + k) (src + k) (len - k)"
    and "\<And>m. len - k = 0 \<Longrightarrow> f m = m"
  shows "f (mem_copy m dst src k) = mem_copy m dst src len"
proof (cases "k = len")
  case True
  then show ?thesis using assms(4) by simp
next
  case False
  then have "k < len" using assms(2) by simp
  then show ?thesis
    using assms(3) [OF copy_ok_tail [OF assms(1)]] mem_copy_split [OF assms(1,2)] by simp
qed

lemma memcpy_i386_eq:
  assumes "copy_ok dst src len"
  shows "memcpy_i386 m dst src len = Some (dst, mem_copy m dst src len)"
proof -
  let ?k = "len div 4 * 4"
  have k: "?k \<le> len" by (simp add: word_le_nat_alt unat_floor)
  have "memcpy4 m dst src ?k = mem_copy m dst src ?k"
    by (rule memcpy4_eq) (use copy_ok_less [OF assms k] in \<open>auto simp: unat_floor\<close>)
  moreover have "memcpy1 (mem_copy m dst src ?k) (dst + ?k) (src + ?k) (len - ?k) = mem_copy m dst src len"
    by (rule finish_copy [OF assms k, where f = "\<lambda>m. memcpy1 m (dst + ?k) (src + ?k) (len - ?k)"])
      (simp add: memcpy1_eq, simp add: memcpy1_def)
  ultimately show ?thesis by (simp add: memcpy_i386_def Let_def)
qed

text \<open>The head of both SSE copies: bytes up to the first aligned destination address.\<close>

lemma align_head:
  assumes ok: "copy_ok dst src len" and len: "16 \<le> unat len" and dst: "dst mod 16 \<noteq> 0"
  defines "k \<equiv> 16 - dst mod 16"
  shows "k < len" "(dst + k) mod 16 = 0" "memcpy1 m dst src k = mem_copy m dst src k"
    "copy_ok (dst + k) (src + k) (len - k)"
proof -
  have r: "unat (dst mod 16) = unat dst mod 16" "0 < unat dst mod 16"
    using dst by (auto simp: unat_mod_distrib word_unat_eq_iff)
  have k: "unat k = 16 - unat dst mod 16"
    unfolding k_def using r by (subst unat_sub) (auto simp: word_le_nat_alt)
  show less: "k < len" using k r len by (simp add: word_less_nat_alt)
  have "unat (dst + k) = unat dst + unat k"
    using ok less by (intro unat_offset) (auto simp: copy_ok_def word_less_nat_alt)
  then have "unat ((dst + k) mod 16) = 0"
    using k r by (simp add: unat_mod_distrib) presburger
  then show "(dst + k) mod 16 = 0" by (simp add: unat_eq_0)
  show "memcpy1 m dst src k = mem_copy m dst src k"
    using copy_ok_less [OF ok, of k] less by (simp add: memcpy1_eq)
  show "copy_ok (dst + k) (src + k) (len - k)" by (rule copy_ok_tail [OF ok less])
qed

text \<open>
  The tail: the length left after the blocks is the same modulo 128 whether the block bytes
  have been subtracted once or, as \<open>memcpy_sse\<close> does below one megabyte, twice.
\<close>

lemma tail_length:
  "(len - len div 128 * 128) mod 128 = (len - len div 128 * 128 :: u32)"
  "(len - len div 128 * 128 - len div 128 * 128) mod 128 = (len - len div 128 * 128 :: u32)"
proof -
  let ?B = "len div 128 * 128"
  have B: "unat ?B = unat len div 128 * 128" by (rule unat_floor)
  have le: "?B \<le> len" by (simp add: word_le_nat_alt B)
  have rest: "unat (len - ?B) = unat len mod 128"
    using le by (simp add: unat_sub B minus_div_mult_eq_mod [of "unat len"] del: minus_div_mult_eq_mod)
  then show "(len - ?B) mod 128 = len - ?B"
    by (simp add: word_unat_eq_iff unat_mod_distrib del: minus_div_mult_eq_mod)
  have "unat (len - ?B - ?B) mod 128 = unat len mod 128"
  proof (cases "unat len div 128 = 0")
    case True
    then show ?thesis unfolding unat_sub_wrap [of "len - ?B"] word_le_nat_alt rest B by simp
  next
    case False
    then have "\<not> ?B \<le> len - ?B" unfolding word_le_nat_alt rest B by (simp add: not_le)
    moreover have "unat len div 128 \<le> 33554432"
      using div_le_mono [OF unat_le_4G [of len], of 128] by simp
    then have "unat len mod 128 + 4294967296 - unat len div 128 * 128
        = unat len mod 128 + 128 * (33554432 - unat len div 128)" by (simp add: diff_mult_distrib2)
    ultimately show ?thesis unfolding unat_sub_wrap [of "len - ?B"] rest B by simp
  qed
  then show "(len - ?B - ?B) mod 128 = len - ?B"
    by (simp add: word_unat_eq_iff unat_mod_distrib rest del: minus_div_mult_eq_mod)
qed

lemma mod_not_128: "(len :: u32) mod 128 \<noteq> 128"
proof
  assume "len mod 128 = 128"
  then have "unat (len mod 128) = 128" by simp
  then have "unat len mod 128 = 128" by (simp add: unat_mod_distrib)
  then show False by presburger
qed

lemma sse_blocks_and_tail:
  assumes ok: "copy_ok dst src len" and dst: "dst mod 16 = 0"
  defines "k \<equiv> len div 128 * 128"
  shows "(if src mod 16 = 0 then memcpy128a m dst src k else memcpy128u m dst src k)
      = Some (mem_copy m dst src k)"
    and "memcpy_i386 (mem_copy m dst src k) (dst + k) (src + k) (len - k)
      = Some (dst + k, mem_copy m dst src len)"
proof -
  have k: "k \<le> len" "128 dvd unat k" by (simp_all add: k_def word_le_nat_alt unat_floor)
  show "(if src mod 16 = 0 then memcpy128a m dst src k else memcpy128u m dst src k)
      = Some (mem_copy m dst src k)"
    using memcpy128_eq [OF copy_ok_less [OF ok k(1)] k(2) dst] by simp
  show "memcpy_i386 (mem_copy m dst src k) (dst + k) (src + k) (len - k)
      = Some (dst + k, mem_copy m dst src len)"
  proof (cases "k = len")
    case True
    then show ?thesis by (simp add: memcpy_i386_def memcpy1_def memcpy4_def Let_def)
  next
    case False
    then have "k < len" using k(1) by simp
    then show ?thesis
      using memcpy_i386_eq [OF copy_ok_tail [OF ok]] mem_copy_split [OF ok k(1)] by simp
  qed
qed

lemma tail_length_twice: "(len - 256 * (len div 128)) mod 128 = (len - len div 128 * 128 :: u32)"
proof -
  have "len - 256 * (len div 128) = len - len div 128 * 128 - len div 128 * 128"
    by (simp del: minus_div_mult_eq_mod)
  then show ?thesis by (simp only: tail_length)
qed

lemmas sse_simps = tail_length_twice memcpynt128a_def memcpynt128u_def Let_def tail_length mod_not_128

lemma memcpynt_sse_eq:
  assumes ok: "copy_ok dst src len" and len: "16 \<le> unat len"
  shows "memcpynt_sse m dst src len = Some (dst, mem_copy m dst src len)"
proof (cases "dst mod 16 = 0")
  case True
  then show ?thesis
    using sse_blocks_and_tail [OF ok True]
    by (cases "src mod 16 = 0") (simp_all add: memcpynt_sse_def sse_simps del: minus_div_mult_eq_mod)
next
  case False
  let ?k = "16 - dst mod 16"
  note head = align_head [OF ok len False]
  note rest = sse_blocks_and_tail [OF head(4,2)] 
  show ?thesis
    using False head(1,3) rest mem_copy_split [OF ok, of ?k m]
    by (cases "(src + ?k) mod 16 = 0") (simp_all add: memcpynt_sse_def sse_simps del: minus_div_mult_eq_mod)
qed

lemma memcpy_sse_eq:
  assumes ok: "copy_ok dst src len"
  shows "memcpy_sse m dst src len = Some (dst, mem_copy m dst src len)"
proof (cases "len < 2048")
  case True
  then show ?thesis by (simp add: memcpy_sse_def memcpy_i386_eq [OF ok])
next
  case False
  then have len: "16 \<le> unat len" by (simp add: word_less_nat_alt)
  show ?thesis
  proof (cases "dst mod 16 = 0")
    case True
    then show ?thesis
      using False sse_blocks_and_tail [OF ok True]
      by (cases "src mod 16 = 0") (simp_all add: memcpy_sse_def sse_simps del: minus_div_mult_eq_mod)
  next
    case unaligned: False
    obtain k where k: "16 - dst mod 16 = k" by blast
    note head = align_head [OF ok len unaligned, unfolded k]
    show ?thesis
      using False unaligned head(1,3) sse_blocks_and_tail [OF head(4,2)] mem_copy_split [OF ok, of k m]
      by (cases "(src + k) mod 16 = 0") (simp_all add: memcpy_sse_def k sse_simps del: minus_div_mult_eq_mod)
  qed
qed

section \<open>The contract of memcpy\<close>

text \<open>A string and its terminator copied as bytes are the string.\<close>

lemma cstr_mem_copy:
  assumes "length xs < 4294967295" "cstr m src xs"
  shows "cstr (mem_copy m dst src (of_nat (length xs + 1))) dst xs"
proof -
  have "(of_nat i :: u32) < of_nat (length xs + 1)" if "i \<le> length xs" for i
    using of_nat_less_iff32 [of i "length xs + 1"] that assms(1) by simp
  then have "mem_copy m dst src (of_nat (length xs + 1)) (dst + of_nat i) = m (src + of_nat i)"
    if "i \<le> length xs" for i
    using that by (simp add: mem_copy_inside del: of_nat_add)
  then show ?thesis
    using assms(2) by (simp add: cstr_iff bytes_at_nth del: of_nat_add)
qed

text \<open>
  What a caller of the function pointer \<open>memcpy\<close> relies on: for lengths the implementation
  accepts and regions that do not wrap and are not read after they are overwritten, it does
  not fault, returns the destination, and the destination holds the bytes the source held.
\<close>

locale memory_copier =
  fixes copy :: "mem \<Rightarrow> u32 \<Rightarrow> u32 \<Rightarrow> u32 \<Rightarrow> (u32 \<times> mem) option"
    and fits :: "u32 \<Rightarrow> bool"
  assumes copies: "copy_ok dst src len \<Longrightarrow> fits len \<Longrightarrow>
    copy m dst src len = Some (dst, mem_copy m dst src len)"
begin

lemma copy_frame:
  "copy_ok dst src len \<Longrightarrow> fits len \<Longrightarrow> \<not> inside dst len a \<Longrightarrow>
    \<exists>m'. copy m dst src len = Some (dst, m') \<and> m' a = m a"
  by (simp add: copies mem_copy_outside)

text \<open>Copying a C string with its terminator gives the same string at the destination.\<close>

lemma copy_string:
  assumes "copy_ok dst src (of_nat (length xs + 1))" "fits (of_nat (length xs + 1))"
    and "length xs < 4294967295" "cstr m src xs"
  shows "\<exists>m'. copy m dst src (of_nat (length xs + 1)) = Some (dst, m') \<and> cstr m' dst xs"
  using copies [OF assms(1,2)] cstr_mem_copy [OF assms(3,4)] by simp

end

interpretation i386_copier: memory_copier memcpy_i386 "\<lambda>len. True"
  by unfold_locales (rule memcpy_i386_eq)

interpretation sse_copier: memory_copier memcpy_sse "\<lambda>len. True"
  by unfold_locales (rule memcpy_sse_eq)

interpretation nt_copier: memory_copier memcpynt_sse "\<lambda>len. 16 \<le> unat len"
  by unfold_locales (rule memcpynt_sse_eq)

section \<open>memset and memmove\<close>

lemma and_3: "len AND 3 = (len :: u32) mod 4"
  using take_bit_eq_mask [of 2 len] by (simp add: mask_eq_exp_minus_1 take_bit_eq_mod)

lemma floor_4:
  fixes len :: u32
  shows "drop_bit 2 len * 4 = len div 4 * 4" "len div 4 * 4 \<le> len"
    "len AND 3 = len - len div 4 * 4" "len div 4 * 4 div 4 = len div 4"
proof -
  show "drop_bit 2 len * 4 = len div 4 * 4" "len div 4 * 4 \<le> len"
    by (simp_all add: drop_bit_eq_div word_le_nat_alt unat_floor)
  show "len AND 3 = len - len div 4 * 4"
    by (simp only: and_3 minus_div_mult_eq_mod)
  show "len div 4 * 4 div 4 = len div 4"
    by (simp add: word_unat_eq_iff unat_div_distrib unat_floor)
qed

lemma memset_eq: "memset m dst v len = mem_fill m dst v len"
proof
  fix a
  let ?k = "len div 4 * 4"
  have "inside dst ?k a \<or> inside (dst + ?k) (len - ?k) a \<longleftrightarrow> inside dst len a"
  proof -
    define j where "j = a - dst"
    have "a - (dst + ?k) = j - ?k" by (simp add: j_def)
    moreover have "j < ?k \<or> j - ?k < len - ?k \<longleftrightarrow> j < len"
    proof (cases "j < ?k")
      case True
      then show ?thesis using floor_4(2) [of len] by auto
    next
      case False
      then have le: "unat ?k \<le> unat j" "unat ?k \<le> unat len"
        using floor_4(2) [of len] False by (simp_all only: word_le_nat_alt word_less_nat_alt not_less)
      then have "unat (j - ?k) = unat j - unat ?k" "unat (len - ?k) = unat len - unat ?k"
        by (simp_all add: unat_sub word_le_nat_alt del: minus_div_mult_eq_mod)
      with False le show ?thesis unfolding word_less_nat_alt by linarith
    qed
    ultimately show ?thesis unfolding inside_def by (simp only: j_def)
  qed
  then show "memset m dst v len a = mem_fill m dst v len a"
    by (auto simp: memset_def Let_def mem_fill_def floor_4 simp del: minus_div_mult_eq_mod)
qed

lemma copy_down_eq:
  assumes "src \<le> dst" "unat dst + n \<le> 4294967296" "n < 4294967296"
  shows "copy_down n m (dst + of_nat n - 1) (src + of_nat n - 1) = mem_copy m dst src (of_nat n)"
  using assms(2,3)
proof (induction n arbitrary: m)
  case (Suc n)
  let ?m = "m(dst + of_nat n := m (src + of_nat n))"
  have "copy_down (Suc n) m (dst + of_nat (Suc n) - 1) (src + of_nat (Suc n) - 1)
      = copy_down n ?m (dst + of_nat n - 1) (src + of_nat n - 1)"
    by (simp add: algebra_simps)
  also have "\<dots> = mem_copy ?m dst src (of_nat n)"
    using Suc.prems by (intro Suc.IH) auto
  also have "\<dots> = mem_copy m dst src (of_nat (Suc n))"
  proof
    fix a
    have n: "unat (of_nat n :: u32) = n" "unat (of_nat (Suc n) :: u32) = Suc n"
      using Suc.prems by (auto intro!: unat_of_nat32 simp del: of_nat_Suc)
    have ranges: "inside dst (of_nat n) a \<longleftrightarrow> unat dst \<le> unat a \<and> unat a < unat dst + n"
      "inside dst (of_nat (Suc n)) a \<longleftrightarrow> unat dst \<le> unat a \<and> unat a < unat dst + Suc n"
      using Suc.prems n by (simp_all add: inside_unat del: of_nat_Suc)
    have last: "unat (dst + of_nat n) = unat dst + n"
      using Suc.prems n by (subst unat_offset) auto
    have not_last: "src + (a - dst) \<noteq> dst + of_nat n" if "inside dst (of_nat n) a"
    proof
      assume eq: "src + (a - dst) = dst + of_nat n"
      have le: "unat (a - dst) = unat a - unat dst" "unat dst \<le> unat a" "unat a < unat dst + n"
        using that ranges by (auto simp: unat_sub word_le_nat_alt)
      then have "unat (src + (a - dst)) = unat src + (unat a - unat dst)"
        using assms(1) Suc.prems by (subst unat_offset) (auto simp: word_le_nat_alt)
      then show False using eq last le assms(1) by (simp add: word_le_nat_alt)
    qed
    show "mem_copy ?m dst src (of_nat n) a = mem_copy m dst src (of_nat (Suc n)) a"
    proof (cases "inside dst (of_nat n) a")
      case True
      then show ?thesis using ranges not_last by (auto simp: mem_copy_def simp del: of_nat_Suc)
    next
      case False
      then have "inside dst (of_nat (Suc n)) a \<longleftrightarrow> a = dst + of_nat n"
        unfolding ranges word_unat_eq_iff last by auto
      with False show ?thesis by (auto simp: mem_copy_def simp del: of_nat_Suc)
    qed
  qed
  finally show ?case .
qed simp

lemma memmove_eq:
  assumes "unat src + unat len \<le> 4294967296" "unat dst + unat len \<le> 4294967296"
  shows "memmove m dst src len = mem_copy m dst src len"
proof (cases "dst < src \<or> src + len \<le> dst")
  case True
  have ok: "copy_ok dst src len" if "len \<noteq> 0"
  proof (cases "dst \<le> src")
    case False
    then have "unat src + unat len < 4294967296"
      using assms(2) that by (simp add: word_le_nat_alt unat_gt_0)
    then have "unat (src + len) = unat src + unat len" by (rule unat_offset)
    then show ?thesis using True False assms by (auto simp: copy_ok_def word_le_nat_alt word_less_nat_alt)
  qed (use assms in \<open>simp add: copy_ok_def\<close>)
  show ?thesis
  proof (cases "len = 0")
    case False
    have "snd (the (memcpy_i386 m dst src len)) = memmove m dst src len"
      using True False
      by (simp add: memcpy_i386_def memmove_def memcpy4_def memcpy1_def Let_def floor_4 drop_bit_eq_div
          del: minus_div_mult_eq_mod)
    then show ?thesis using memcpy_i386_eq [OF ok [OF False], of m] by simp
  qed (simp add: memmove_def)
next
  case False
  then have "src \<le> dst" by (simp only: de_Morgan_disj not_less)
  then show ?thesis
    using False copy_down_eq [of src dst "unat len" m] assms(2) by (auto simp: memmove_def)
qed

section \<open>Properties\<close>

text \<open>
  C18. \<open>memcpy_sse\<close> is a copy for every length and alignment: below 2048 bytes, with an
  unaligned destination, with cached and with non-temporal blocks. No aligned move faults,
  and the tail is right although the length of the blocks is subtracted twice below one
  megabyte.
\<close>

theorem memcpy_sse_copies:
  assumes "copy_ok dst src len"
  shows "memcpy_sse m dst src len = Some (dst, mem_copy m dst src len)"
  using assms by (rule sse_copier.copies) simp

theorem memcpy_sse_copies_witness:
  "memcpy_sse (\<lambda>_. 0) 0x100003 0x300001 0x100200 = Some (0x100003, mem_copy (\<lambda>_. 0) 0x100003 0x300001 0x100200)
   \<and> memcpy_sse (\<lambda>_. 0) 0x2000 0x1000 0x900 = Some (0x2000, mem_copy (\<lambda>_. 0) 0x2000 0x1000 0x900)"
  using memcpy_sse_copies [of "0x100003" "0x300001" "0x100200" "\<lambda>_. 0"]
    memcpy_sse_copies [of "0x2000" "0x1000" "0x900" "\<lambda>_. 0"]
  by (simp add: copy_ok_def)

text \<open>
  The three routines the function pointer \<open>memcpy\<close> can hold are interchangeable: they
  return the same pointer and the same memory. The non-temporal one needs 16 bytes, because
  it does not check that the bytes it copies to align the destination are there.
\<close>

theorem memcpy_implementations_agree:
  assumes "copy_ok dst src len" "16 \<le> unat len"
  shows "memcpy_sse m dst src len = memcpy_i386 m dst src len
    \<and> memcpynt_sse m dst src len = memcpy_i386 m dst src len"
  using assms by (simp add: sse_copier.copies i386_copier.copies nt_copier.copies)

theorem memcpy_implementations_agree_witness:
  "memcpy_sse (\<lambda>_. 0) 0x1001 0x9000 4000 = memcpy_i386 (\<lambda>_. 0) 0x1001 0x9000 4000
   \<and> memcpynt_sse (\<lambda>_. 0) 0x1001 0x9000 4000 = memcpy_i386 (\<lambda>_. 0) 0x1001 0x9000 4000"
  by (rule memcpy_implementations_agree) (simp_all add: copy_ok_def)

text \<open>
  \<open>memmove\<close> gives the destination the bytes the source held before the call, whichever
  way the regions overlap; \<open>memset\<close> fills exactly its region.
\<close>

theorem memmove_memset_correct:
  assumes "unat src + unat len \<le> 4294967296" "unat dst + unat len \<le> 4294967296"
  shows "memmove m dst src len = (\<lambda>a. if inside dst len a then m (src + (a - dst)) else m a)
    \<and> memset m dst v len = (\<lambda>a. if inside dst len a then v else m a)"
  using memmove_eq [OF assms, of m] memset_eq [of m dst v len]
  by (simp add: mem_copy_def mem_fill_def)

theorem memmove_memset_correct_witness:
  "memmove (\<lambda>_. 0) 0x1004 0x1000 9 0x1008 = (\<lambda>_. 0) 0x1004 \<and> memset (\<lambda>_. 0) 0x1000 7 9 0x1008 = 7"
  using memmove_memset_correct [of "0x1000" 9 "0x1004" "\<lambda>_. 0" 7]
    memmove_memset_correct [of "0x1000" 9 "0x1000" "\<lambda>_. 0" 7]
  by (simp add: inside_def)

end
