(* ===== verification/Libc_Text.thy ===== *)
theory Libc_Text
  imports Libc_String "HOL-Library.Sublist"
begin

text \<open>
  The C-string routines of \<open>source/kernel/libc/string.c\<close>: \<open>strlen\<close>, the comparisons, the
  string copies and the searches. They scan memory for a zero byte, so they are
  \<open>partial_function\<close>s: \<open>None\<close> is a scan that never meets one. The lemmas say that on strings
  (\<open>cstr\<close>) they end and what they return.
\<close>

section \<open>strlen and the comparisons\<close>

partial_function (option) strlen_loop :: "mem \<Rightarrow> u32 \<Rightarrow> u32 \<Rightarrow> u32 option" where
  "strlen_loop m str len =
     (if m (str + len) \<noteq> 0 then strlen_loop m str (len + 1) else Some len)"

definition strlen :: "mem \<Rightarrow> u32 \<Rightarrow> u32 option" where
  "strlen m str = strlen_loop m str 0"

partial_function (option) strcmp :: "mem \<Rightarrow> u32 \<Rightarrow> u32 \<Rightarrow> int option" where
  "strcmp m s1 s2 =
     (if m s1 \<noteq> 0 \<and> m s1 = m s2 then strcmp m (s1 + 1) (s2 + 1)
      else Some (uint (m s1) - uint (m s2)))"

function strncmp_loop :: "mem \<Rightarrow> u32 \<Rightarrow> u32 \<Rightarrow> u32 \<Rightarrow> u32 \<Rightarrow> u32" where
  "strncmp_loop m s1 s2 n i =
     (if i < n \<and> m (s1 + i) \<noteq> 0 \<and> m (s1 + i) = m (s2 + i)
      then strncmp_loop m s1 s2 n (i + 1) else i)"
  by pat_completeness auto
termination
  by (relation "measure (\<lambda>(m, s1, s2, n, i). unat n - unat i)")
    (auto simp: unat_Suc_less intro!: diff_less_mono2 simp flip: word_less_nat_alt)

declare strncmp_loop.simps [simp del]

definition strncmp :: "mem \<Rightarrow> u32 \<Rightarrow> u32 \<Rightarrow> u32 \<Rightarrow> int" where
  "strncmp m s1 s2 n =
     (let i = strncmp_loop m s1 s2 n 0
      in if i = n then 0 else uint (m (s1 + i)) - uint (m (s2 + i)))"

function memcmp_loop :: "mem \<Rightarrow> u32 \<Rightarrow> u32 \<Rightarrow> u32 \<Rightarrow> u32 \<Rightarrow> int" where
  "memcmp_loop m a b n i =
     (if i < n then
        if m (a + i) \<noteq> m (b + i) then uint (m (a + i)) - uint (m (b + i))
        else memcmp_loop m a b n (i + 1)
      else 0)"
  by pat_completeness auto
termination
  by (relation "measure (\<lambda>(m, a, b, n, i). unat n - unat i)")
    (auto simp: unat_Suc_less intro!: diff_less_mono2 simp flip: word_less_nat_alt)

declare memcmp_loop.simps [simp del]

definition memcmp :: "mem \<Rightarrow> u32 \<Rightarrow> u32 \<Rightarrow> u32 \<Rightarrow> int" where
  "memcmp m a b n = memcmp_loop m a b n 0"

text \<open>The order the comparisons decide: lexicographic, bytes unsigned.\<close>

fun byte_order :: "u8 list \<Rightarrow> u8 list \<Rightarrow> int" where
  "byte_order [] [] = 0"
| "byte_order [] (y # ys) = - uint y"
| "byte_order (x # xs) [] = uint x"
| "byte_order (x # xs) (y # ys) = (if x = y then byte_order xs ys else uint x - uint y)"

definition lex_less :: "u8 list \<Rightarrow> u8 list \<Rightarrow> bool" where
  "lex_less xs ys \<longleftrightarrow> (xs, ys) \<in> lexord {(x, y). x < y}"

lemma uint_pos8: "(x :: u8) \<noteq> 0 \<Longrightarrow> 0 < uint x"
  by (simp add: word_neq_0_conv word_less_def)

lemma byte_order_zero: "0 \<notin> set xs \<Longrightarrow> 0 \<notin> set ys \<Longrightarrow> byte_order xs ys = 0 \<longleftrightarrow> xs = ys"
  by (induction xs ys rule: byte_order.induct) (auto dest: uint_pos8 simp: word_uint_eq_iff)

lemma byte_order_neg: "0 \<notin> set xs \<Longrightarrow> 0 \<notin> set ys \<Longrightarrow> byte_order xs ys < 0 \<longleftrightarrow> lex_less xs ys"
  by (induction xs ys rule: byte_order.induct)
    (auto dest: uint_pos8 simp: lex_less_def word_less_def not_less)

lemma strlen_loop_cstr:
  "cstr m (str + k) xs \<Longrightarrow> strlen_loop m str k = Some (k + of_nat (length xs))"
proof (induction xs arbitrary: k)
  case (Cons x xs)
  then have "strlen_loop m str (k + 1) = Some (k + 1 + of_nat (length xs))"
    by (intro Cons.IH) (simp add: add.assoc)
  with Cons.prems show ?case by (subst strlen_loop.simps) (simp add: add.assoc)
qed (subst strlen_loop.simps, simp)

lemma strlen_cstr: "cstr m p xs \<Longrightarrow> strlen m p = Some (of_nat (length xs))"
  using strlen_loop_cstr [of m p 0 xs] by (simp add: strlen_def)

lemma strcmp_cstr: "cstr m p xs \<Longrightarrow> cstr m q ys \<Longrightarrow> strcmp m p q = Some (byte_order xs ys)"
  by (induction xs ys arbitrary: p q rule: byte_order.induct) (subst strcmp.simps, force)+

lemma same_end: "i \<le> n \<Longrightarrow> unat n - unat i = 0 \<longleftrightarrow> (i :: u32) = n"
  by (auto simp: word_le_nat_alt word_unat_eq_iff)

lemma strncmp_loop_cstr:
  assumes "cstr m (p + i) xs" "cstr m (q + i) ys" "i \<le> n"
  shows "let k = strncmp_loop m p q n i in
    (if k = n then 0 else uint (m (p + k)) - uint (m (q + k)))
    = byte_order (take (unat n - unat i) xs) (take (unat n - unat i) ys)"
  using assms
proof (induction xs ys arbitrary: i rule: byte_order.induct)
  case (4 x xs y ys)
  show ?case
  proof (cases "i < n \<and> x = y")
    case True
    then have step: "unat (i + 1) = Suc (unat i)" "i + 1 \<le> n" "unat i < unat n"
      by (auto simp: unat_Suc_less Suc_le_limit) (simp add: word_less_nat_alt)
    then have IH: "let k = strncmp_loop m p q n (i + 1) in
        (if k = n then 0 else uint (m (p + k)) - uint (m (q + k)))
        = byte_order (take (unat n - unat (i + 1)) xs) (take (unat n - unat (i + 1)) ys)"
      using True "4.prems" by (intro "4.IH") (auto simp: add.assoc)
    obtain d where "unat n - unat i = Suc d" "unat n - Suc (unat i) = d"
      using step(3) by (metis Suc_diff_Suc)
    with IH True step "4.prems" show ?thesis
      by (subst strncmp_loop.simps) simp
  next
    case False
    with "4.prems" have "i = n \<or> (i < n \<and> x \<noteq> y)" by auto
    moreover have "\<exists>d. unat n - unat i = Suc d" if "i < n"
      using that by (metis Suc_diff_Suc word_less_nat_alt)
    ultimately show ?thesis
      using "4.prems" by (subst strncmp_loop.simps) auto
  qed
next
  case (2 y ys)
  then show ?case using same_end [of i n] by (subst strncmp_loop.simps) (cases "unat n - unat i", auto)
next
  case (3 x xs)
  then show ?case using same_end [of i n] by (subst strncmp_loop.simps) (cases "unat n - unat i", auto)
qed (subst strncmp_loop.simps, simp)

lemma strncmp_cstr:
  "cstr m p xs \<Longrightarrow> cstr m q ys \<Longrightarrow>
    strncmp m p q n = byte_order (take (unat n) xs) (take (unat n) ys)"
  using strncmp_loop_cstr [of m p 0 xs q ys n] by (simp add: strncmp_def Let_def)

lemma memcmp_loop_bytes:
  assumes "bytes_at m (a + i) xs" "bytes_at m (b + i) ys" "length xs = length ys"
    "unat i + length xs = unat n"
  shows "memcmp_loop m a b n i = byte_order xs ys"
  using assms
proof (induction xs ys arbitrary: i rule: byte_order.induct)
  case (4 x xs y ys)
  then have "i < n" by (simp add: word_less_nat_alt)
  then have "unat (i + 1) = Suc (unat i)" by (auto simp: unat_Suc_less)
  then have "x = y \<Longrightarrow> memcmp_loop m a b n (i + 1) = byte_order xs ys"
    using "4.prems" by (intro "4.IH") (auto simp: add.assoc)
  with \<open>i < n\<close> "4.prems" show ?case by (subst memcmp_loop.simps) auto
qed (subst memcmp_loop.simps, auto simp: word_less_nat_alt)+

lemma memcmp_bytes:
  "bytes_at m a xs \<Longrightarrow> bytes_at m b ys \<Longrightarrow> length xs = unat n \<Longrightarrow> length ys = unat n \<Longrightarrow>
    memcmp m a b n = byte_order xs ys"
  using memcmp_loop_bytes [of m a 0 xs b ys n] by (simp add: memcmp_def)

section \<open>Copying strings\<close>

partial_function (option) strcpy_loop :: "mem \<Rightarrow> u32 \<Rightarrow> u32 \<Rightarrow> mem option" where
  "strcpy_loop m dest src =
     (let c = m src; m = m(dest := c)
      in if c \<noteq> 0 then strcpy_loop m (dest + 1) (src + 1) else Some m)"

definition strcpy :: "mem \<Rightarrow> u32 \<Rightarrow> u32 \<Rightarrow> (u32 \<times> mem) option" where
  "strcpy m dest src = map_option (\<lambda>m. (dest, m)) (strcpy_loop m dest src)"

function strncpy_loop :: "mem \<Rightarrow> u32 \<Rightarrow> u32 \<Rightarrow> u32 \<Rightarrow> u32 \<Rightarrow> u32 \<times> mem" where
  "strncpy_loop m dest src n i =
     (if i < n \<and> m (src + i) \<noteq> 0
      then strncpy_loop (m(dest + i := m (src + i))) dest src n (i + 1) else (i, m))"
  by pat_completeness auto
termination
  by (relation "measure (\<lambda>(m, dest, src, n, i). unat n - unat i)")
    (auto simp: unat_Suc_less intro!: diff_less_mono2 simp flip: word_less_nat_alt)

declare strncpy_loop.simps [simp del]

definition strncpy :: "mem \<Rightarrow> u32 \<Rightarrow> u32 \<Rightarrow> u32 \<Rightarrow> mem" where
  "strncpy m dest src n =
     (let (i, m) = strncpy_loop m dest src n 0
      in if i < n then m(dest + i := 0) else m)"

partial_function (option) strcat_end :: "mem \<Rightarrow> u32 \<Rightarrow> u32 option" where
  "strcat_end m ptr = (if m ptr \<noteq> 0 then strcat_end m (ptr + 1) else Some ptr)"

partial_function (option) strcat_loop :: "mem \<Rightarrow> u32 \<Rightarrow> u32 \<Rightarrow> (mem \<times> u32) option" where
  "strcat_loop m ptr src =
     (if m src \<noteq> 0 then strcat_loop (m(ptr := m src)) (ptr + 1) (src + 1) else Some (m, ptr))"

definition strcat :: "mem \<Rightarrow> u32 \<Rightarrow> u32 \<Rightarrow> (u32 \<times> mem) option" where
  "strcat m dest src = do {
     ptr \<leftarrow> strcat_end m dest;
     (m, ptr) \<leftarrow> strcat_loop m ptr src;
     Some (dest, m(ptr := 0))
   }"

lemma mem_copy_1: "mem_copy m dst src 1 = m(dst := m src)"
proof -
  have "inside dst 1 a \<longleftrightarrow> a = dst" for a
    by (auto simp: inside_def word_less_nat_alt unat_eq_0)
  then show ?thesis by (auto simp: mem_copy_def fun_eq_iff)
qed

lemma of_nat_Suc_1: "(of_nat (Suc n) :: u32) = 1 + of_nat n"
  by simp

text \<open>
  The byte about to be overwritten is not one the copy still has to read, so one step leaves
  the rest of the source string as it was.
\<close>

lemma copy_ok_step:
  assumes ok: "copy_ok dst src (1 + k)" and k: "unat k < 4294967295" "k \<noteq> 0"
  shows "copy_ok (dst + 1) (src + 1) k" "\<not> inside (src + 1) k dst"
proof -
  have 1: "copy_ok (dst + 1) (src + 1) k"
    using copy_ok_rest [of dst src 1 k] assms by simp
  then show "copy_ok (dst + 1) (src + 1) k" .
  have k1: "unat (1 + k) = 1 + unat k" using k by (subst unat_add_small) auto
  have "0 < unat k" using k(2) by (simp add: unat_gt_0)
  then have "unat (src + 1) = unat src + 1"
    using ok by (subst unat_add_small) (auto simp: copy_ok_def k1)
  then show "\<not> inside (src + 1) k dst"
    using 1 ok by (subst inside_unat) (auto simp: copy_ok_def k1 word_le_nat_alt)
qed

lemma cstr_after_step:
  assumes "copy_ok dst src (1 + of_nat (length xs + 1))" "length xs + 1 < 4294967295"
    and "cstr m (src + 1) xs"
  shows "cstr (m(dst := v)) (src + 1) xs" "copy_ok (dst + 1) (src + 1) (of_nat (length xs + 1))"
proof -
  have k: "unat (of_nat (length xs + 1) :: u32) < 4294967295" "(of_nat (length xs + 1) :: u32) \<noteq> 0"
    using assms(2) unat_of_nat32 [of "length xs + 1"] by (auto simp: word_unat_eq_iff simp del: of_nat_add)
  note step = copy_ok_step [OF assms(1) k]
  show "copy_ok (dst + 1) (src + 1) (of_nat (length xs + 1))" by (rule step)
  have "cstr (m(dst := v)) (src + 1) xs \<longleftrightarrow> cstr m (src + 1) xs"
    using step(2) assms(2) by (intro cstr_cong) (auto simp del: of_nat_add)
  then show "cstr (m(dst := v)) (src + 1) xs" using assms(3) by simp
qed

lemma strcpy_loop_cstr:
  assumes "copy_ok dst src (of_nat (length xs + 1))" "length xs + 1 < 4294967295" "cstr m src xs"
  shows "strcpy_loop m dst src = Some (mem_copy m dst src (of_nat (length xs + 1)))"
  using assms
proof (induction xs arbitrary: m dst src)
  case Nil
  then show ?case by (subst strcpy_loop.simps) (simp add: mem_copy_1)
next
  case (Cons x xs)
  let ?k = "of_nat (length xs + 1) :: u32"
  have sum: "of_nat (length (x # xs) + 1) = 1 + ?k" by simp
  have ok: "copy_ok dst src (1 + ?k)" using Cons.prems(1) unfolding sum .
  have src: "m src = x" "x \<noteq> 0" "cstr m (src + 1) xs" using Cons.prems by auto
  note step = cstr_after_step [OF ok _ src(3)]
  have "strcpy_loop (m(dst := x)) (dst + 1) (src + 1)
      = Some (mem_copy (m(dst := x)) (dst + 1) (src + 1) ?k)"
    using Cons.prems(2) by (intro Cons.IH step) auto
  moreover have "m(dst := x) = mem_copy m dst src 1"
    using src by (simp only: mem_copy_1)
  moreover have "mem_copy (mem_copy m dst src 1) (dst + 1) (src + 1) ?k = mem_copy m dst src (1 + ?k)"
    using Cons.prems(2) unat_of_nat32 [of "length xs + 1"]
    by (intro mem_copy_compose [OF ok]) (auto simp del: of_nat_add)
  ultimately have "strcpy_loop (m(dst := x)) (dst + 1) (src + 1) = Some (mem_copy m dst src (1 + ?k))"
    by (simp only:)
  then show ?case
    unfolding sum using src by (subst strcpy_loop.simps) simp
qed

lemma strcpy_cstr:
  assumes "copy_ok dst src (of_nat (length xs + 1))" "length xs + 1 < 4294967295" "cstr m src xs"
  shows "strcpy m dst src = Some (dst, mem_copy m dst src (of_nat (length xs + 1)))"
    and "cstr (mem_copy m dst src (of_nat (length xs + 1))) dst xs"
proof -
  show "strcpy m dst src = Some (dst, mem_copy m dst src (of_nat (length xs + 1)))"
    by (simp add: strcpy_def strcpy_loop_cstr [OF assms])
  show "cstr (mem_copy m dst src (of_nat (length xs + 1))) dst xs"
    using assms(2) by (intro cstr_mem_copy assms(3)) simp
qed

lemma strcat_end_cstr: "cstr m p xs \<Longrightarrow> strcat_end m p = Some (p + of_nat (length xs))"
  by (induction xs arbitrary: p) (subst strcat_end.simps, force simp: add.assoc)+

text \<open>Up to the terminator the second loop of \<open>strcat\<close> is \<open>strcpy\<close>.\<close>

lemma strcat_loop_strcpy:
  assumes "copy_ok ptr src (of_nat (length xs + 1))" "length xs + 1 < 4294967295" "cstr m src xs"
  shows "map_option (\<lambda>(m, p). m(p := 0)) (strcat_loop m ptr src) = strcpy_loop m ptr src"
  using assms
proof (induction xs arbitrary: m ptr src)
  case Nil
  then show ?case by (subst strcat_loop.simps, subst strcpy_loop.simps) simp
next
  case (Cons x xs)
  have src: "m src = x" "x \<noteq> 0" "cstr m (src + 1) xs" using Cons.prems by auto
  have ok: "copy_ok ptr src (1 + of_nat (length xs + 1))" using Cons.prems(1) by simp
  have "map_option (\<lambda>(m, p). m(p := 0)) (strcat_loop (m(ptr := x)) (ptr + 1) (src + 1))
      = strcpy_loop (m(ptr := x)) (ptr + 1) (src + 1)"
    using Cons.prems(2) by (intro Cons.IH cstr_after_step [OF ok _ src(3)]) auto
  with src show ?case by (subst strcat_loop.simps, subst strcpy_loop.simps) simp
qed

lemma strcat_cstr:
  assumes dest: "cstr m dest xs" and src: "cstr m src ys"
    and room: "unat dest + length xs + length ys < 4294967294"
    and ok: "copy_ok (dest + of_nat (length xs)) src (of_nat (length ys + 1))"
  shows "\<exists>m'. strcat m dest src = Some (dest, m') \<and> cstr m' dest (xs @ ys)
    \<and> (\<forall>a. \<not> inside (dest + of_nat (length xs)) (of_nat (length ys + 1)) a \<longrightarrow> m' a = m a)"
proof -
  let ?p = "dest + of_nat (length xs)" and ?k = "of_nat (length ys + 1) :: u32"
  let ?m = "mem_copy m ?p src ?k"
  have ys: "length ys + 1 < 4294967295" using room by simp
  have un: "unat (of_nat i :: u32) = i" if "i \<le> length xs + length ys + 1" for i
    using that room by (intro unat_of_nat32) simp
  have p: "unat (dest + of_nat i) = unat dest + i" if "i \<le> length xs + length ys" for i
    using that room un by (subst unat_offset) auto
  obtain m1 q where "strcat_loop m ?p src = Some (m1, q)" "m1(q := 0) = ?m"
    using strcat_loop_strcpy [OF ok ys src] strcpy_loop_cstr [OF ok ys src] by fastforce
  then have run: "strcat m dest src = Some (dest, ?m)"
    using dest by (simp add: strcat_def strcat_end_cstr)
  have "\<not> inside ?p ?k (dest + of_nat i)" if "i < length xs" for i
    using that p [of i] p [of "length xs"] un [of "length ys + 1"] room
    by (subst inside_unat) (auto simp del: of_nat_add)
  then have "bytes_at ?m dest xs \<longleftrightarrow> bytes_at m dest xs"
    by (auto simp: bytes_at_nth mem_copy_outside simp del: of_nat_add)
  moreover have "cstr ?m ?p ys" using ys by (intro cstr_mem_copy [OF _ src]) simp
  ultimately have "cstr ?m dest (xs @ ys)"
    using dest by (auto simp: cstr_iff bytes_at_append add.assoc)
  then show ?thesis using run by (auto simp: mem_copy_outside)
qed

section \<open>Searching\<close>

partial_function (option) strchr :: "mem \<Rightarrow> u32 \<Rightarrow> int \<Rightarrow> u32 option" where
  "strchr m string c =
     (if m string \<noteq> 0 then
        if sint (m string) = c then Some string else strchr m (string + 1) c
      else Some 0)"

partial_function (option) strstr_match :: "mem \<Rightarrow> u32 \<Rightarrow> u32 \<Rightarrow> u32 \<Rightarrow> u32 \<Rightarrow> u32 option" where
  "strstr_match m haystack needle i j =
     (if m (haystack + (i + j)) \<noteq> 0 \<and> m (needle + j) \<noteq> 0
         \<and> m (haystack + (i + j)) = m (needle + j)
      then strstr_match m haystack needle i (j + 1) else Some j)"

partial_function (option) strstr_loop :: "mem \<Rightarrow> u32 \<Rightarrow> u32 \<Rightarrow> u32 \<Rightarrow> u32 option" where
  "strstr_loop m haystack needle i =
     (if m (haystack + i) \<noteq> 0 then do {
        j \<leftarrow> strstr_match m haystack needle i 0;
        if m (needle + j) = 0 then Some (haystack + i)
        else strstr_loop m haystack needle (i + 1)
      } else Some 0)"

definition strstr :: "mem \<Rightarrow> u32 \<Rightarrow> u32 \<Rightarrow> u32 option" where
  "strstr m haystack needle =
     (if m needle = 0 then Some haystack else strstr_loop m haystack needle 0)"

text \<open>The position of the first occurrence, if there is one.\<close>

fun first_at :: "u8 list \<Rightarrow> u8 list \<Rightarrow> nat option" where
  "first_at ns [] = (if ns = [] then Some 0 else None)"
| "first_at ns (x # xs) = (if prefix ns (x # xs) then Some 0 else map_option Suc (first_at ns xs))"

lemma first_at_None: "first_at ns xs = None \<longleftrightarrow> \<not> sublist ns xs"
  by (induction xs) (auto simp: sublist_Cons_right)

lemma first_at_Some:
  "first_at ns xs = Some i \<Longrightarrow> i \<le> length xs \<and> prefix ns (drop i xs) \<and> (\<forall>k<i. \<not> prefix ns (drop k xs))"
proof (induction xs arbitrary: i)
  case (Cons x xs)
  then show ?case
    by (auto split: if_splits simp: less_Suc_eq_0_disj)
qed (auto split: if_splits)

lemma strchr_cstr:
  "cstr m p xs \<Longrightarrow> strchr m p c = Some (if \<exists>x \<in> set xs. sint x = c
     then p + of_nat (length (takeWhile (\<lambda>x. sint x \<noteq> c) xs)) else 0)"
proof (induction xs arbitrary: p)
  case (Cons x xs)
  then have "strchr m (p + 1) c = Some (if \<exists>x \<in> set xs. sint x = c
     then p + 1 + of_nat (length (takeWhile (\<lambda>x. sint x \<noteq> c) xs)) else 0)"
    by simp
  with Cons.prems show ?case by (subst strchr.simps) (auto simp: add.assoc)
qed (subst strchr.simps, simp)

lemma strstr_match_cstr:
  assumes "cstr m (h + (i + j)) hs" "cstr m (n + j) ns"
  shows "\<exists>k. strstr_match m h n i j = Some k \<and> (m (n + k) = 0 \<longleftrightarrow> prefix ns hs)"
  using assms
proof (induction ns arbitrary: j hs)
  case Nil
  then show ?case by (subst strstr_match.simps) simp
next
  case (Cons y ns)
  show ?case
  proof (cases "\<exists>hs'. hs = y # hs'")
    case True
    then obtain hs' where hs: "hs = y # hs'" by blast
    with Cons.prems have "\<exists>k. strstr_match m h n i (j + 1) = Some k \<and> (m (n + k) = 0 \<longleftrightarrow> prefix ns hs')"
      by (intro Cons.IH) (auto simp: add.assoc)
    with hs Cons.prems show ?thesis by (subst strstr_match.simps) auto
  next
    case False
    with Cons.prems show ?thesis by (subst strstr_match.simps) (cases hs, auto)
  qed
qed

lemma strstr_loop_cstr:
  assumes "cstr m (h + i) hs" "cstr m n ns" "ns \<noteq> []"
  shows "strstr_loop m h n i = Some (case first_at ns hs of None \<Rightarrow> 0 | Some k \<Rightarrow> h + i + of_nat k)"
  using assms(1)
proof (induction hs arbitrary: i)
  case Nil
  then show ?case using assms(3) by (subst strstr_loop.simps) simp
next
  case (Cons x hs)
  obtain k where k: "strstr_match m h n i 0 = Some k" "m (n + k) = 0 \<longleftrightarrow> prefix ns (x # hs)"
    using strstr_match_cstr [of m h i 0 "x # hs" n ns] Cons.prems assms(2) by auto
  have "strstr_loop m h n (i + 1)
      = Some (case first_at ns hs of None \<Rightarrow> 0 | Some k \<Rightarrow> h + (i + 1) + of_nat k)"
    using Cons.prems by (intro Cons.IH) (simp add: add.assoc)
  with k Cons.prems show ?case
    by (subst strstr_loop.simps) (auto simp: add.assoc split: option.splits)
qed

lemma strstr_cstr:
  assumes "cstr m h hs" "cstr m n ns"
  shows "strstr m h n = Some (case first_at ns hs of None \<Rightarrow> 0 | Some k \<Rightarrow> h + of_nat k)"
proof (cases "ns = []")
  case True
  then have "first_at ns hs = Some 0" by (cases hs) auto
  then show ?thesis using True assms by (simp add: strstr_def)
next
  case False
  then have "m n \<noteq> 0" using assms(2) by (cases ns) auto
  then show ?thesis
    using strstr_loop_cstr [of m h 0 hs n ns] assms False by (simp add: strstr_def split: option.split)
qed

section \<open>strncpy\<close>

lemma strncpy_loop_cstr:
  assumes "copy_ok (dst + i) (src + i) (of_nat (length xs + 1))" "length xs + 1 < 4294967295"
    and "cstr m (src + i) xs" "i \<le> n"
  shows "strncpy_loop m dst src n i = (let l = of_nat (min (length xs) (unat n - unat i))
    in (i + l, mem_copy m (dst + i) (src + i) l))"
  using assms
proof (induction xs arbitrary: m i)
  case Nil
  then show ?case by (subst strncpy_loop.simps) simp
next
  case (Cons x xs)
  have ok: "copy_ok (dst + i) (src + i) (1 + of_nat (length xs + 1))" using Cons.prems(1) by simp
  have src: "m (src + i) = x" "x \<noteq> 0" "cstr m (src + i + 1) xs" using Cons.prems by auto
  let ?m = "m(dst + i := x)" and ?l = "of_nat (min (length xs) (unat n - unat (i + 1))) :: u32"
  show ?case
  proof (cases "i < n")
    case False
    with Cons.prems(4) show ?thesis by (subst strncpy_loop.simps) auto
  next
    case True
    have i: "unat (i + 1) = Suc (unat i)" "i + 1 \<le> n" "unat i < unat n"
      using True by (auto simp: unat_Suc_less Suc_le_limit word_less_nat_alt simp flip: word_less_nat_alt)
    note step = cstr_after_step [OF ok _ src(3), unfolded add.assoc [of _ i]]
    have "strncpy_loop ?m dst src n (i + 1)
        = (let l = ?l in (i + 1 + l, mem_copy ?m (dst + (i + 1)) (src + (i + 1)) l))"
      using Cons.prems(2) by (intro Cons.IH step i) auto
    then have IH: "strncpy_loop ?m dst src n (i + 1)
        = (i + 1 + ?l, mem_copy ?m (dst + i + 1) (src + i + 1) ?l)"
      by (simp only: Let_def add.assoc)
    have l: "of_nat (min (length (x # xs)) (unat n - unat i)) = 1 + ?l"
      using i by (simp add: min_def not_le Suc_diff_Suc [symmetric] split: nat_diff_split)
    have small: "unat ?l \<le> length xs"
      using Cons.prems(2) by (subst unat_of_nat32) auto
    have "?m = mem_copy m (dst + i) (src + i) 1" using src by (simp only: mem_copy_1)
    moreover have "copy_ok (dst + i) (src + i) (1 + ?l)"
    proof (rule copy_ok_less [OF ok])
      have "unat (1 + of_nat (length xs + 1) :: u32) = length xs + 2"
        using unat_of_nat32 [of "length xs + 2"] Cons.prems(2) by simp
      moreover have "unat (1 + ?l) = 1 + unat ?l"
        using small Cons.prems(2) by (subst unat_add_small) auto
      ultimately show "1 + ?l \<le> 1 + of_nat (length xs + 1)"
        unfolding word_le_nat_alt using small by linarith
    qed
    ultimately have "mem_copy ?m (dst + i + 1) (src + i + 1) ?l = mem_copy m (dst + i) (src + i) (1 + ?l)"
      using small Cons.prems(2) mem_copy_compose [of "dst + i" "src + i" 1 ?l m] by simp
    with IH True src show ?thesis
      unfolding l by (subst strncpy_loop.simps) (simp add: Let_def)
  qed
qed

text \<open>
  A string shorter than \<open>n\<close> is copied with its terminator. Of a longer one the first \<open>n\<close>
  characters are copied, and no terminator.
\<close>

lemma strncpy_cstr:
  assumes "copy_ok dst src (of_nat (length xs + 1))" "length xs + 1 < 4294967295" "cstr m src xs"
  shows "length xs < unat n \<Longrightarrow> strncpy m dst src n = mem_copy m dst src (of_nat (length xs + 1))"
    and "unat n \<le> length xs \<Longrightarrow> strncpy m dst src n = mem_copy m dst src n"
proof -
  have run: "strncpy_loop m dst src n 0 = (let l = of_nat (min (length xs) (unat n)) in (l, mem_copy m dst src l))"
    using strncpy_loop_cstr [of dst 0 src xs m n] assms by simp
  show "strncpy m dst src n = mem_copy m dst src n" if "unat n \<le> length xs"
    using run that by (simp add: strncpy_def min_def)
  let ?l = "of_nat (length xs) :: u32"
  have l: "unat ?l = length xs" using assms(2) by (simp add: unat_of_nat32)
  have nw: "unat ?l + unat (1 :: u32) < 4294967296" using l assms(2) by simp
  have "(mem_copy m dst src ?l)(dst + ?l := 0) = mem_copy m dst src (?l + 1)"
  proof -
    have "unat (of_nat (length xs + 1) :: u32) = length xs + 1"
      using assms(2) by (intro unat_of_nat32) simp
    then have range: "unat dst + length xs < 4294967296" "unat src + length xs < 4294967296"
        "dst \<le> src \<or> unat src + length xs < unat dst"
      using assms(1) by (auto simp: copy_ok_def)
    then have "\<not> inside dst ?l (src + ?l)"
      using l unat_offset [of src ?l] by (subst inside_unat) (auto simp: word_le_nat_alt)
    then have zero: "mem_copy m dst src ?l (src + ?l) = 0"
      using assms(3) by (simp add: mem_copy_outside cstr_iff)
    show ?thesis
      using mem_copy_compose [OF _ nw, of dst src m] assms(1) zero by (simp add: mem_copy_1 add.commute)
  qed
  then show "strncpy m dst src n = mem_copy m dst src (of_nat (length xs + 1))" if "length xs < unat n"
    using run that l by (simp add: strncpy_def word_less_nat_alt add.commute Let_def)
qed

section \<open>Endianness\<close>

definition swap_bytes :: "mem \<Rightarrow> u32 \<Rightarrow> u32 \<Rightarrow> mem" where
  "swap_bytes m a b = m(a := m b, b := m a)"

definition switch_16_endian :: "mem \<Rightarrow> u32 \<Rightarrow> u32 \<Rightarrow> mem option" where
  "switch_16_endian m buffer sz =
     for_loop 0 (sz AND NOT 1) 2
       (\<lambda>i m. Some (swap_bytes m (buffer + i) (buffer + (i + 1)))) m"

definition switch_32_endian :: "mem \<Rightarrow> u32 \<Rightarrow> u32 \<Rightarrow> mem option" where
  "switch_32_endian m buffer sz =
     for_loop 0 (sz AND NOT 3) 4
       (\<lambda>i m. let m = swap_bytes m (buffer + i) (buffer + (i + 3))
              in Some (swap_bytes m (buffer + (i + 1)) (buffer + (i + 2)))) m"

definition switch_64_endian :: "mem \<Rightarrow> u32 \<Rightarrow> u32 \<Rightarrow> mem option" where
  "switch_64_endian m buffer sz =
     for_loop 0 (sz AND NOT 7) 8
       (\<lambda>i m. let m = swap_bytes m (buffer + i) (buffer + (i + 7));
                  m = swap_bytes m (buffer + (i + 1)) (buffer + (i + 6));
                  m = swap_bytes m (buffer + (i + 2)) (buffer + (i + 5))
              in Some (swap_bytes m (buffer + (i + 3)) (buffer + (i + 4)))) m"

text \<open>
  The specification: of the first \<open>n\<close> groups of \<open>w\<close> bytes at \<open>p\<close>, every byte comes from the
  mirrored position of its group.
\<close>

definition mirrored :: "nat \<Rightarrow> nat \<Rightarrow> u32 \<Rightarrow> mem \<Rightarrow> mem" where
  "mirrored w n p m = (\<lambda>a. let k = unat (a - p)
     in if k < w * n then m (p + of_nat (k div w * w + (w - 1 - k mod w))) else m a)"

text \<open>One group, which is what each loop body does.\<close>

definition mirror_group :: "nat \<Rightarrow> u32 \<Rightarrow> mem \<Rightarrow> mem" where
  "mirror_group w p m = (\<lambda>a. let k = unat (a - p)
     in if k < w then m (p + of_nat (w - 1 - k)) else m a)"

lemma mirror_group_eqI:
  assumes "\<And>c. c < w \<Longrightarrow> m' (p + of_nat c) = m (p + of_nat (w - 1 - c))"
    and "\<And>a. w \<le> unat (a - p) \<Longrightarrow> m' a = m a"
  shows "m' = mirror_group w p m"
proof
  fix a
  have "a = p + of_nat (unat (a - p))" by simp
  then show "m' a = mirror_group w p m a"
    using assms(1) [of "unat (a - p)"] assms(2) [of a]
    by (cases "unat (a - p) < w") (auto simp: mirror_group_def)
qed

lemma switch_bodies:
  "swap_bytes m p (p + 1) = mirror_group 2 p m"
  "swap_bytes (swap_bytes m p (p + 3)) (p + 1) (p + 2) = mirror_group 4 p m"
  "swap_bytes (swap_bytes (swap_bytes (swap_bytes m p (p + 7)) (p + 1) (p + 6)) (p + 2) (p + 5))
     (p + 3) (p + 4) = mirror_group 8 p m"
proof -
  have small: "c < 2 \<Longrightarrow> c = 0 \<or> c = 1" "c < 4 \<Longrightarrow> c = 0 \<or> c = 1 \<or> c = 2 \<or> c = 3"
    "c < 8 \<Longrightarrow> c = 0 \<or> c = 1 \<or> c = 2 \<or> c = 3 \<or> c = 4 \<or> c = 5 \<or> c = 6 \<or> c = 7" for c :: nat
    by auto
  show "swap_bytes m p (p + 1) = mirror_group 2 p m"
    by (rule mirror_group_eqI) (auto dest!: small simp: swap_bytes_def)
  show "swap_bytes (swap_bytes m p (p + 3)) (p + 1) (p + 2) = mirror_group 4 p m"
    by (rule mirror_group_eqI) (auto dest!: small simp: swap_bytes_def)
  show "swap_bytes (swap_bytes (swap_bytes (swap_bytes m p (p + 7)) (p + 1) (p + 6)) (p + 2) (p + 5))
     (p + 3) (p + 4) = mirror_group 8 p m"
    by (rule mirror_group_eqI) (auto dest!: small simp: swap_bytes_def)
qed

lemma group_unique:
  fixes k w n :: nat
  shows "w * n \<le> k \<Longrightarrow> k < w * n + w \<Longrightarrow> k div w = n \<and> k mod w = k - w * n"
proof -
  assume "w * n \<le> k" "k < w * n + w"
  then obtain c where "k = c + w * n" "c < w" by (metis le_Suc_ex add.commute nat_add_left_cancel_less)
  then show ?thesis by simp
qed

lemma mirror_next_group:
  assumes "w * Suc n \<le> 4294967296" "0 < w"
  shows "mirror_group w (p + of_nat (w * n)) (mirrored w n p m) = mirrored w (Suc n) p m"
proof (rule mirror_group_eqI [symmetric])
  have offset: "unat (p + of_nat (w * n) + of_nat c - p) = w * n + c" if "c < w" for c
    using that assms unat_of_nat32 [of "w * n + c"] by (simp add: add.commute)
  have group: "(w * n + c) div w = n" "(w * n + c) mod w = c" if "c < w" for c
    using that by simp_all
  have mirror: "mirrored w (Suc n) p m (p + of_nat (w * n) + of_nat c) = m (p + of_nat (w * n + (w - 1 - c)))"
    if "c < w" for c
    using that unfolding mirrored_def Let_def offset [OF that] group [OF that] by (simp add: mult.commute)
  fix c assume c: "c < w"
  then have "mirrored w n p m (p + of_nat (w * n) + of_nat (w - 1 - c)) = m (p + of_nat (w * n) + of_nat (w - 1 - c))"
    unfolding mirrored_def Let_def by (subst offset) auto
  then show "mirrored w (Suc n) p m (p + of_nat (w * n) + of_nat c)
      = mirrored w n p m (p + of_nat (w * n) + of_nat (w - 1 - c))"
    using mirror [OF c] by (simp add: add.assoc)
next
  fix a assume far: "w \<le> unat (a - (p + of_nat (w * n)))"
  have "\<not> (w * n \<le> unat (a - p) \<and> unat (a - p) < w * n + w)"
  proof
    assume k: "w * n \<le> unat (a - p) \<and> unat (a - p) < w * n + w"
    have "w * n < 4294967296" using assms by simp
    then have "unat (a - p - of_nat (w * n)) = unat (a - p) - w * n"
      using k by (subst unat_sub) (auto simp: word_le_nat_alt unat_of_nat32 simp del: of_nat_mult)
    moreover have "a - (p + of_nat (w * n)) = a - p - of_nat (w * n)" by simp
    ultimately have "unat (a - (p + of_nat (w * n))) = unat (a - p) - w * n" by (simp only:)
    with far k assms(2) show False by linarith
  qed
  then show "mirrored w (Suc n) p m a = mirrored w n p m a"
    by (auto simp: mirrored_def Let_def)
qed

lemma mirrored_fold:
  assumes "0 < w" "w * n \<le> 4294967296"
  shows "fold (\<lambda>j. mirror_group w (p + of_nat (w * j))) [0..<n] m = mirrored w n p m"
  using assms(2)
proof (induction n)
  case 0
  then show ?case by (simp add: mirrored_def)
next
  case (Suc n)
  then have "fold (\<lambda>j. mirror_group w (p + of_nat (w * j))) [0..<n] m = mirrored w n p m" by simp
  with mirror_next_group [OF Suc.prems assms(1)] show ?case by simp
qed

lemma and_not_mask: "(x :: u32) AND NOT (mask e) = push_bit e (drop_bit e x)"
  by (rule bit_word_eqI) (auto simp: bit_simps)

lemma whole_groups:
  assumes "e < 32"
  shows "(x :: u32) AND NOT (mask e) = 2 ^ e * of_nat (unat x div 2 ^ e)"
proof -
  have "(2 :: nat) ^ e < 2 ^ 32" using assms by (intro power_strict_increasing) auto
  then have "unat (of_nat (2 ^ e) :: u32) = 2 ^ e" by (intro unat_of_nat32) simp
  then have "unat (2 ^ e :: u32) = 2 ^ e" by simp
  then show ?thesis
    by (simp add: and_not_mask push_bit_eq_mult drop_bit_eq_div word_arith_nat_div [of x] mult.commute)
qed

lemma switch_loop:
  assumes body: "\<And>i m. body i m = Some (mirror_group w (buffer + i) m)"
    and w: "0 < w" "w < 4294967296" "limit = of_nat w * of_nat n" "w * n < 4294967296"
  shows "for_loop 0 limit (of_nat w) body m = Some (mirrored w n buffer m)"
proof -
  have "for_loop 0 (0 + of_nat w * of_nat n) (of_nat w) body m
      = Some (fold (\<lambda>k. mirror_group w (buffer + (0 + of_nat w * of_nat k))) [0..<n] m)"
    using w by (intro for_loop_fold body) (simp_all add: unat_of_nat32)
  moreover have "fold (\<lambda>k. mirror_group w (buffer + of_nat (w * k))) [0..<n] m = mirrored w n buffer m"
    using w by (intro mirrored_fold) auto
  ultimately show ?thesis by (simp add: w(3))
qed

lemma switch_16_eq: "switch_16_endian m buffer sz = Some (mirrored 2 (unat sz div 2) buffer m)"
proof -
  have "sz AND NOT 1 = of_nat 2 * of_nat (unat sz div 2)"
    using whole_groups [of 1 sz] by (simp add: mask_eq_exp_minus_1)
  then show ?thesis
    using unat_less_4G [of sz] less_mult_imp_div_less [of "unat sz" 2147483648 2] switch_bodies(1) [of _ "buffer + _"]
    unfolding switch_16_endian_def Let_def add.assoc
    by (intro switch_loop [where w = 2, simplified]) auto
qed

lemma switch_32_eq: "switch_32_endian m buffer sz = Some (mirrored 4 (unat sz div 4) buffer m)"
proof -
  have "sz AND NOT 3 = of_nat 4 * of_nat (unat sz div 4)"
    using whole_groups [of 2 sz] by (simp add: mask_eq_exp_minus_1)
  then show ?thesis
    using unat_less_4G [of sz] less_mult_imp_div_less [of "unat sz" 1073741824 4] switch_bodies(2) [of _ "buffer + _"]
    unfolding switch_32_endian_def Let_def add.assoc
    by (intro switch_loop [where w = 4, simplified]) auto
qed

lemma switch_64_eq: "switch_64_endian m buffer sz = Some (mirrored 8 (unat sz div 8) buffer m)"
proof -
  have "sz AND NOT 7 = of_nat 8 * of_nat (unat sz div 8)"
    using whole_groups [of 3 sz] by (simp add: mask_eq_exp_minus_1)
  then show ?thesis
    using unat_less_4G [of sz] less_mult_imp_div_less [of "unat sz" 536870912 8] switch_bodies(3) [of _ "buffer + _"]
    unfolding switch_64_endian_def Let_def add.assoc
    by (intro switch_loop [where w = 8, simplified]) auto
qed

lemma mirrored_mirrored:
  assumes "w * n < 4294967296"
  shows "mirrored w n p (mirrored w n p m) = m"
proof
  fix a
  define k where "k = unat (a - p)"
  define k' where "k' = k div w * w + (w - 1 - k mod w)"
  have a: "p + of_nat k = a" by (simp add: k_def)
  show "mirrored w n p (mirrored w n p m) a = m a"
  proof (cases "k < w * n")
    case True
    then have w: "0 < w" by (cases w) auto
    have q: "k' div w = k div w" "k' mod w = w - 1 - k mod w"
      using w unfolding k'_def by simp_all
    have "k' div w < n" unfolding q(1) using True by (simp add: less_mult_imp_div_less mult.commute)
    then have "k' < w * n" using div_less_iff_less_mult [OF w, of k' n] by (simp add: mult.commute)
    moreover have "k' div w * w + (w - 1 - k' mod w) = k"
    proof -
      have "k mod w < w" using w by simp
      then have "w - 1 - (w - 1 - k mod w) = k mod w" by simp
      then show ?thesis by (simp add: q)
    qed
    moreover have "unat (p + of_nat k' - p) = k'"
      using \<open>k' < w * n\<close> assms by (simp add: unat_of_nat32)
    ultimately have "mirrored w n p m (p + of_nat k') = m (p + of_nat k)"
      by (simp add: mirrored_def Let_def)
    moreover have "mirrored w n p (mirrored w n p m) a = mirrored w n p m (p + of_nat k')"
      using True by (simp add: mirrored_def [of w n p "mirrored w n p m"] Let_def k'_def k_def)
    ultimately show ?thesis by (simp add: a)
  qed (simp add: mirrored_def Let_def k_def)
qed

lemma mirrored_apply:
  assumes "j < n" "c < w" "w * n < 4294967296"
  shows "mirrored w n p m (p + of_nat (w * j) + of_nat c) = m (p + of_nat (w * j) + of_nat (w - 1 - c))"
proof -
  have "w * j + w \<le> w * n" using assms(1) mult_le_mono2 [of "Suc j" n w] by simp
  then have "unat (of_nat (w * j + c) :: u32) = w * j + c" "w * j + c < w * n"
    using assms by (auto intro: unat_of_nat32 simp del: of_nat_add)
  then show ?thesis
    using assms(2) by (simp add: mirrored_def Let_def add.assoc mult.commute add_diff_eq)
qed

definition byte_swapped :: "u32 \<Rightarrow> u32" where
  "byte_swapped w = push_bit 24 (w AND 0xFF) OR push_bit 8 (w AND 0xFF00)
     OR drop_bit 8 (w AND 0xFF0000) OR drop_bit 24 w"

lemma mask_byte: "(0xFF :: u32) = mask 8" "(0xFF00 :: u32) = push_bit 8 (mask 8)"
  "(0xFF0000 :: u32) = push_bit 16 (mask 8)"
  by (simp_all add: mask_eq_exp_minus_1 push_bit_eq_mult)

lemma byte_swapped_bytes:
  "byte_swapped (ucast (a :: u8) OR push_bit 8 (ucast (b :: u8)) OR push_bit 16 (ucast (c :: u8))
       OR push_bit 24 (ucast (d :: u8)))
     = ucast d OR push_bit 8 (ucast c) OR push_bit 16 (ucast b) OR push_bit 24 (ucast a)"
  (is "?l = ?r")
proof (rule bit_word_eqI)
  fix n assume "n < LENGTH(32)"
  then consider "n < 8" | "8 \<le> n" "n < 16" | "16 \<le> n" "n < 24" | "24 \<le> n" "n < 32"
    by fastforce
  then show "bit ?l n = bit ?r n"
    unfolding byte_swapped_def mask_byte
    by cases (auto simp: bit_simps dest: bit_imp_le_length)
qed

lemma load32_mirrored:
  assumes "4 * n < 4294967296" "j < n"
  shows "load32 (mirrored 4 n p m) (p + of_nat (4 * j)) = byte_swapped (load32 m (p + of_nat (4 * j)))"
proof -
  let ?q = "p + of_nat (4 * j)"
  have "mirrored 4 n p m ?q = m (?q + 3)" "mirrored 4 n p m (?q + 1) = m (?q + 2)"
    "mirrored 4 n p m (?q + 2) = m (?q + 1)" "mirrored 4 n p m (?q + 3) = m ?q"
    using mirrored_apply [OF assms(2) _ assms(1), of 0 p m] mirrored_apply [OF assms(2) _ assms(1), of 1 p m]
      mirrored_apply [OF assms(2) _ assms(1), of 2 p m] mirrored_apply [OF assms(2) _ assms(1), of 3 p m]
    by simp_all
  then have "load32 (mirrored 4 n p m) ?q = ucast (m (?q + 3)) OR push_bit 8 (ucast (m (?q + 2)))
      OR push_bit 16 (ucast (m (?q + 1))) OR push_bit 24 (ucast (m ?q))"
    by (simp add: load32_def)
  also have "\<dots> = byte_swapped (load32 m ?q)"
    by (simp only: load32_def byte_swapped_bytes)
  finally show ?thesis .
qed

section \<open>Properties\<close>

text \<open>
  The comparisons on C strings end; \<open>strcmp\<close> returns zero for equal strings only and a
  negative number exactly if the first string comes first in the byte order. \<open>strncmp\<close> does
  the same on the first \<open>n\<close> characters.
\<close>

theorem strcmp_strncmp_order:
  assumes "cstr m p xs" "cstr m q ys"
  shows "(\<exists>r. strcmp m p q = Some r \<and> (r = 0 \<longleftrightarrow> xs = ys) \<and> (r < 0 \<longleftrightarrow> lex_less xs ys))
    \<and> (strncmp m p q n = 0 \<longleftrightarrow> take (unat n) xs = take (unat n) ys)
    \<and> (strncmp m p q n < 0 \<longleftrightarrow> lex_less (take (unat n) xs) (take (unat n) ys))"
proof -
  have nz: "0 \<notin> set xs" "0 \<notin> set ys" using assms by (simp_all add: cstr_iff)
  then have nz': "0 \<notin> set (take (unat n) xs)" "0 \<notin> set (take (unat n) ys)"
    by (meson in_set_takeD)+
  show ?thesis
    using strcmp_cstr [OF assms] byte_order_zero [OF nz] byte_order_neg [OF nz]
      strncmp_cstr [OF assms] byte_order_zero [OF nz'] byte_order_neg [OF nz'] by auto
qed

theorem strcmp_strncmp_order_witness:
  "\<exists>r. strcmp (put_cstr (put_cstr (\<lambda>_. 0) 0x1000 [97, 98]) 0x2000 [97, 99]) 0x1000 0x2000 = Some r \<and> r < 0"
proof -
  let ?m = "put_cstr (put_cstr (\<lambda>_. 0) 0x1000 [97, 98]) 0x2000 [97, 99]"
  have "cstr ?m 0x2000 [97, 99]" by (rule cstr_put_cstr) auto
  moreover have "cstr ?m 0x1000 [97, 98]" by (simp add: put_cstr_def)
  moreover have "lex_less [97, 98] [97, 99]" by (simp add: lex_less_def word_less_nat_alt)
  ultimately show ?thesis using strcmp_strncmp_order by blast
qed

text \<open>
  \<open>strstr\<close> returns the first position at which the needle occurs, and NULL exactly if it
  occurs nowhere.
\<close>

theorem strstr_first_occurrence:
  assumes "cstr m h hs" "cstr m n ns"
  shows "(\<exists>i. strstr m h n = Some (h + of_nat i) \<and> i \<le> length hs \<and> take (length ns) (drop i hs) = ns
           \<and> \<not> (\<exists>k<i. take (length ns) (drop k hs) = ns))
    \<or> (strstr m h n = Some 0 \<and> \<not> sublist ns hs)"
proof -
  have take: "prefix ns ks \<longleftrightarrow> take (length ns) ks = ns" for ks :: "u8 list"
    by (auto simp: prefix_def) (metis append_take_drop_id)
  show ?thesis
    using strstr_cstr [OF assms] first_at_None [of ns hs] first_at_Some [of ns hs]
    by (cases "first_at ns hs") (auto simp: take)
qed

theorem strstr_first_occurrence_witness:
  "\<exists>i. strstr (put_cstr (put_cstr (\<lambda>_. 0) 0x1000 [97, 98, 99]) 0x2000 [98, 99]) 0x1000 0x2000
     = Some (0x1000 + of_nat i)"
proof -
  let ?m = "put_cstr (put_cstr (\<lambda>_. 0) 0x1000 [97, 98, 99]) 0x2000 [98, 99]"
  have "cstr ?m 0x2000 [98, 99]" by (rule cstr_put_cstr) auto
  moreover have "cstr ?m 0x1000 [97, 98, 99]" by (simp add: put_cstr_def)
  moreover have "sublist [98, 99] [97, 98, 99 :: u8]" by (simp add: sublist_Cons_right)
  ultimately show ?thesis
    using strstr_first_occurrence [of ?m "0x1000" "[97, 98, 99]" "0x2000" "[98, 99]"] by blast
qed

text \<open>
  \<open>strcat\<close> appends: the destination holds both strings, \<open>dest\<close> is returned, and only the
  bytes from the old terminator on are written.
\<close>

theorem strcat_appends:
  assumes "cstr m dest xs" "cstr m src ys" "unat dest + length xs + length ys < 4294967294"
    and "copy_ok (dest + of_nat (length xs)) src (of_nat (length ys + 1))"
  shows "\<exists>m'. strcat m dest src = Some (dest, m') \<and> cstr m' dest (xs @ ys)
    \<and> (\<forall>a. \<not> inside (dest + of_nat (length xs)) (of_nat (length ys + 1)) a \<longrightarrow> m' a = m a)"
  using assms by (rule strcat_cstr)

theorem strcat_appends_witness:
  "\<exists>m'. strcat (put_cstr (put_cstr (\<lambda>_. 0) 0x1000 [97]) 0x2000 [98, 99]) 0x1000 0x2000
     = Some (0x1000, m') \<and> cstr m' 0x1000 [97, 98, 99]"
proof -
  let ?m = "put_cstr (put_cstr (\<lambda>_. 0) 0x1000 [97]) 0x2000 [98, 99]"
  have "cstr ?m 0x2000 [98, 99]" by (rule cstr_put_cstr) auto
  moreover have "cstr ?m 0x1000 [97]" by (simp add: put_cstr_def)
  ultimately show ?thesis
    using strcat_appends [of ?m "0x1000" "[97]" "0x2000" "[98, 99]"] by (auto simp: copy_ok_def)
qed

text \<open>
  The endianness switches end without a fault, are involutions, and \<open>switch_32_endian\<close>
  reverses the bytes of every complete 32-bit word of the buffer; a rest that is not a whole
  word is left alone.
\<close>

theorem switch_endian_involution:
  "(\<exists>m'. switch_16_endian m p sz = Some m' \<and> switch_16_endian m' p sz = Some m)
   \<and> (\<exists>m'. switch_64_endian m p sz = Some m' \<and> switch_64_endian m' p sz = Some m)
   \<and> (\<exists>m'. switch_32_endian m p sz = Some m' \<and> switch_32_endian m' p sz = Some m
     \<and> (\<forall>j. j < unat sz div 4 \<longrightarrow>
          load32 m' (p + of_nat (4 * j)) = byte_swapped (load32 m (p + of_nat (4 * j))))
     \<and> (\<forall>a. unat sz div 4 * 4 \<le> unat (a - p) \<longrightarrow> m' a = m a))"
proof -
  have small: "w * (unat sz div w) < 4294967296" for w
    using unat_less_4G [of sz] times_div_less_eq_dividend [of w "unat sz"] by linarith
  note twice = mirrored_mirrored [OF small]
  have "mirrored 4 (unat sz div 4) p m a = m a" if "unat sz div 4 * 4 \<le> unat (a - p)" for a
    using that by (simp add: mirrored_def mult.commute)
  then show ?thesis
    using load32_mirrored [OF small]
    by (simp add: switch_16_eq switch_32_eq switch_64_eq twice)
qed

theorem switch_endian_involution_witness:
  "\<exists>m'. switch_32_endian (\<lambda>_. 0) 0x1000 6 = Some m' \<and> load32 m' 0x1000 = byte_swapped (load32 (\<lambda>_. 0) 0x1000)
    \<and> m' 0x1004 = (\<lambda>_. 0) 0x1004"
  using switch_endian_involution [of "\<lambda>_. 0" "0x1000" 6] by (fastforce dest: spec [of _ 0])

end
