(* ===== verification/Libc_Sprintf.thy ===== *)
theory Libc_Sprintf
  imports Libc_Text
begin

text \<open>
  \<open>sprintf\<close> of \<open>source/kernel/libc/string.c\<close>. Its variable arguments are a list of words;
  \<open>number_string\<close> is the address of its local buffer. \<open>None\<close> is an argument that is not there, a
  shift by more than the width of the number (both undefined in C) or a string without an end.
\<close>

section \<open>The function\<close>

partial_function (option) put_string :: "mem \<Rightarrow> u32 \<Rightarrow> u32 \<Rightarrow> (mem \<times> u32) option" where
  "put_string m str p =
     (if m p \<noteq> 0 then put_string (m(str := m p)) (str + 1) (p + 1) else Some (m, str))"

fun put_chars :: "nat \<Rightarrow> mem \<Rightarrow> u32 \<Rightarrow> u32 \<Rightarrow> mem \<times> u32" where
  "put_chars 0 m str p = (m, str)"
| "put_chars (Suc n) m str p = put_chars n (m(str := m p)) (str + 1) (p + 1)"

partial_function (option) put_wide_string :: "mem \<Rightarrow> u32 \<Rightarrow> u32 \<Rightarrow> (mem \<times> u32) option" where
  "put_wide_string m str p =
     (if load16 m p \<noteq> 0 then put_wide_string (m(str := ucast (load16 m p))) (str + 1) (p + 2) else Some (m, str))"

fun put_wide_chars :: "nat \<Rightarrow> mem \<Rightarrow> u32 \<Rightarrow> u32 \<Rightarrow> mem \<times> u32" where
  "put_wide_chars 0 m str p = (m, str)"
| "put_wide_chars (Suc n) m str p = put_wide_chars n (m(str := ucast (load16 m p))) (str + 1) (p + 2)"

fun put_zeros :: "nat \<Rightarrow> mem \<Rightarrow> u32 \<Rightarrow> mem \<times> u32" where
  "put_zeros 0 m str = (m, str)"
| "put_zeros (Suc n) m str = put_zeros n (m(str := 0x30)) (str + 1)"

definition hex_character :: "u32 \<Rightarrow> u8" where
  "hex_character digit = ucast (if digit < 10 then digit + 0x30 else digit + 0x41 - 10)"

fun put_hex :: "nat \<Rightarrow> u32 \<Rightarrow> mem \<Rightarrow> u32 \<Rightarrow> mem \<times> u32" where
  "put_hex 0 number m str = (m, str)"
| "put_hex (Suc n) number m str =
     put_hex n number (m(str := hex_character (drop_bit (4 * n) number AND 0xF))) (str + 1)"

partial_function (option) skip_digits :: "mem \<Rightarrow> u32 \<Rightarrow> u32 option" where
  "skip_digits m format = (if isdigit (sint (m format)) then skip_digits m (format + 1) else Some format)"

definition field_width :: "mem \<Rightarrow> u32 \<Rightarrow> (u32 \<times> u32) option" where
  "field_width m format =
     (if m format = 0x30 then do {
        number \<leftarrow> atoi m (format + 1);
        format \<leftarrow> skip_digits m (format + 1);
        Some (number, format)
      } else Some (0, format))"

fun va_arg :: "u32 list \<Rightarrow> (u32 \<times> u32 list) option" where
  "va_arg [] = None"
| "va_arg (x # xs) = Some (x, xs)"

text \<open>One conversion, behind the \<open>%\<close> and the width.\<close>

definition convert :: "u32 \<Rightarrow> mem \<Rightarrow> u32 \<Rightarrow> u32 \<Rightarrow> u32 \<Rightarrow> u32 list \<Rightarrow> (mem \<times> u32 \<times> u32 \<times> u32 list) option" where
  "convert number_string m str format width args =
     (let c = m format
      in if c = 0x73 then do {
        (p, args) \<leftarrow> va_arg args;
        (m, str) \<leftarrow> (if width = 0 then put_string m str p else Some (put_chars (unat width) m str p));
        Some (m, str, format + 1, args)
      } else if c = 0x53 then do {
        (p, args) \<leftarrow> va_arg args;
        (m, str) \<leftarrow> (if width = 0 then put_wide_string m str p else Some (put_wide_chars (unat width) m str p));
        Some (m, str, format + 1, args)
      } else if c = 0x64 \<or> c = 0x75 then do {
        (number, args) \<leftarrow> va_arg args;
        m \<leftarrow> itoa number number_string 11 m;
        len \<leftarrow> strlen m number_string;
        let (m, str) = put_zeros (unat width - unat len) m str;
        (m, str) \<leftarrow> put_string m str number_string;
        Some (m, str, format + 1, args)
      } else if c = 0x78 \<or> c = 0x58 then do {
        (number, args) \<leftarrow> va_arg args;
        let width = (if width = 0 then 8 else width);
        if 8 < width then None
        else do {
          let (m, str) = put_hex (unat width) number m str;
          Some (m, str, format + 1, args)
        }
      } else Some (m, str, format, args))"

partial_function (option) sprintf_loop :: "u32 \<Rightarrow> mem \<Rightarrow> u32 \<Rightarrow> u32 \<Rightarrow> u32 list \<Rightarrow> (mem \<times> u32) option" where
  "sprintf_loop number_string m str format args =
     (if m format = 0 then Some (m, str)
      else if m format \<noteq> 0x25 then sprintf_loop number_string (m(str := m format)) (str + 1) (format + 1) args
      else do {
        let format = format + 1;
        if m format = 0x25 then sprintf_loop number_string (m(str := 0x25)) (str + 1) (format + 1) args
        else if m format = 0x63 then do {
          (character, args) \<leftarrow> va_arg args;
          sprintf_loop number_string (m(str := ucast character)) (str + 1) (format + 1) args
        } else do {
          (width, format) \<leftarrow> field_width m format;
          (m, str, format, args) \<leftarrow> convert number_string m str format width args;
          sprintf_loop number_string m str format args
        }
      })"

definition sprintf :: "u32 \<Rightarrow> mem \<Rightarrow> u32 \<Rightarrow> u32 \<Rightarrow> u32 list \<Rightarrow> (u32 \<times> mem) option" where
  "sprintf number_string m str format args =
     map_option (\<lambda>(m, stop). (stop - str, m)) (sprintf_loop number_string m str format args)"

section \<open>What it writes\<close>

definition put_bytes :: "mem \<Rightarrow> u32 \<Rightarrow> u8 list \<Rightarrow> mem" where
  "put_bytes m p xs = (\<lambda>a. if unat (a - p) < length xs then xs ! unat (a - p) else m a)"

lemma put_bytes_Nil [simp]: "put_bytes m p [] = m"
  by (simp add: put_bytes_def)

lemma put_bytes_single: "put_bytes m p [x] = m(p := x)"
  by (auto simp: put_bytes_def fun_eq_iff unat_eq_zero)

lemma unat_diff_offset:
  fixes a p :: u32
  assumes "n < 4294967296"
  shows "unat (a - (p + of_nat n)) = (if n \<le> unat (a - p) then unat (a - p) - n else unat (a - p) + 4294967296 - n)"
proof -
  have "unat (d - of_nat n) = (if n \<le> unat d then unat d - n else unat d + 4294967296 - n)" for d :: u32
    using assms by (simp add: unat_sub_wrap word_le_nat_alt unat_of_nat32)
  from this [of "a - p"] show ?thesis by (simp add: diff_diff_eq)
qed

lemma put_bytes_append:
  assumes "length xs + length ys \<le> 4294967296"
  shows "put_bytes (put_bytes m p xs) (p + of_nat (length xs)) ys = put_bytes m p (xs @ ys)"
proof (cases "ys = []")
  case False
  then have "length xs < 4294967296" using assms by (cases ys) auto
  then show ?thesis using assms
    by (auto simp: put_bytes_def fun_eq_iff unat_diff_offset nth_append)
qed simp

lemma put_bytes_step:
  assumes "Suc (length ys) \<le> 4294967296"
  shows "put_bytes (m(p := x)) (p + 1) ys = put_bytes m p (x # ys)"
  using put_bytes_append [of "[x]" ys m p] assms by (simp add: put_bytes_single)

text \<open>
  \<open>clear_of s n p k\<close>: what is written to \<open>n\<close> bytes from \<open>s\<close> on does not touch the \<open>k\<close> bytes
  from \<open>p\<close> on.
\<close>

definition clear_of :: "u32 \<Rightarrow> nat \<Rightarrow> u32 \<Rightarrow> nat \<Rightarrow> bool" where
  "clear_of s n p k \<longleftrightarrow> (\<forall>a. unat (a - s) < n \<longrightarrow> k \<le> unat (a - p))"

lemma clear_of_shift:
  assumes "clear_of s (k + n) p j" "k + n \<le> 4294967296"
  shows "clear_of (s + of_nat k) n p j"
proof (cases "n = 0")
  case False
  have "unat (a - s) < k + n" if "unat (a - (s + of_nat k)) < n" for a
    using that assms(2) False by (auto simp: unat_diff_offset split: if_splits)
  then show ?thesis using assms(1) by (auto simp: clear_of_def)
qed (simp add: clear_of_def)

lemma clear_of_rest:
  assumes "clear_of s n p (k + j)" "k + j \<le> 4294967296"
  shows "clear_of s n (p + of_nat k) j"
proof (cases "j = 0")
  case False
  have "j \<le> unat (a - (p + of_nat k))" if "unat (a - s) < n" for a
  proof -
    have "k + j \<le> unat (a - p)" using that assms(1) by (simp add: clear_of_def)
    then show ?thesis using assms(2) False by (simp add: unat_diff_offset)
  qed
  then show ?thesis by (simp add: clear_of_def)
qed (simp add: clear_of_def)

lemma clear_of_less: "clear_of s n p k \<Longrightarrow> n' \<le> n \<Longrightarrow> clear_of s n' p k"
  by (auto simp: clear_of_def)

lemma clear_same:
  assumes "clear_of s n p k" "length xs \<le> n" "unat (a - p) < k"
  shows "put_bytes m s xs a = m a"
proof -
  have "\<not> unat (a - s) < n" using assms(1,3) by (auto simp: clear_of_def)
  then show ?thesis using assms(2) by (simp add: put_bytes_def)
qed

lemma cstr_clear:
  assumes "clear_of s n p (length ys + 1)" "length xs \<le> n" "length ys < 4294967295" "cstr m p ys"
  shows "cstr (put_bytes m s xs) p ys"
proof -
  have len: "unat (of_nat (length ys + 1) :: u32) = length ys + 1" using assms(3) by (intro unat_of_nat32) simp
  have "put_bytes m s xs a = m a" if "inside p (of_nat (length ys + 1)) a" for a
    using that by (intro clear_same [OF assms(1,2)]) (simp only: inside_def word_less_nat_alt len)
  then show ?thesis using assms(3,4) cstr_cong by blast
qed

lemma put_string_cstr:
  assumes "cstr m p xs" "clear_of s (length xs) p (length xs + 1)" "length xs < 4294967295"
  shows "put_string m s p = Some (put_bytes m s xs, s + of_nat (length xs))"
  using assms
proof (induction xs arbitrary: m s p)
  case Nil
  then show ?case by (subst put_string.simps) simp
next
  case (Cons x xs)
  have c: "clear_of s (length (x # xs)) p (length (x # xs) + 1)" using Cons.prems(2) .
  then have far: "clear_of s (length (x # xs)) (p + 1) (length xs + 1)"
    using Cons.prems(3) clear_of_rest [of s _ p 1 "length xs + 1"] by simp
  have "cstr (put_bytes m s [x]) (p + 1) xs"
    using Cons.prems(1,3) by (intro cstr_clear [OF far]) simp_all
  then have "cstr (m(s := x)) (p + 1) xs" by (simp add: put_bytes_single)
  moreover have "clear_of (s + 1) (length xs) (p + 1) (length xs + 1)"
    using clear_of_shift [of s 1 "length xs" "p + 1" "length xs + 1"] far Cons.prems(3) by simp
  ultimately have "put_string (m(s := x)) (s + 1) (p + 1)
      = Some (put_bytes (m(s := x)) (s + 1) xs, s + 1 + of_nat (length xs))"
    using Cons.prems(3) by (intro Cons.IH) (assumption, assumption, simp)
  then show ?case using Cons.prems(1,3) by (subst put_string.simps) (simp add: put_bytes_step add.assoc)
qed

lemma put_hex_bytes:
  assumes "n \<le> 8"
  shows "put_hex n number m s
    = (put_bytes m s (map (\<lambda>i. hex_character (drop_bit (4 * i) number AND 0xF)) (rev [0..<n])), s + of_nat n)"
  using assms
proof (induction n arbitrary: m s)
  case (Suc n)
  then show ?case by (simp add: put_bytes_step add.assoc)
qed simp

section \<open>Formats\<close>

text \<open>
  A format is read as a list of pieces; \<open>written\<close> is the text a piece stands for. What is left
  out are the conversions with a width, wide strings and decimal numbers.
\<close>

datatype piece = Plain u8 | Percent | Character u32 | Text u32 "u8 list" | Hex u32

fun spelled :: "piece \<Rightarrow> u8 list" where
  "spelled (Plain c) = [c]"
| "spelled Percent = [0x25, 0x25]"
| "spelled (Character w) = [0x25, 0x63]"
| "spelled (Text p xs) = [0x25, 0x73]"
| "spelled (Hex n) = [0x25, 0x78]"

fun arguments :: "piece \<Rightarrow> u32 list" where
  "arguments (Character w) = [w]"
| "arguments (Text p xs) = [p]"
| "arguments (Hex n) = [n]"
| "arguments _ = []"

fun written :: "piece \<Rightarrow> u8 list" where
  "written (Plain c) = [c]"
| "written Percent = [0x25]"
| "written (Character w) = [ucast w]"
| "written (Text p xs) = xs"
| "written (Hex n) = map (\<lambda>i. hex_character (drop_bit (4 * i) n AND 0xF)) (rev [0..<8])"

fun well_spelled :: "mem \<Rightarrow> u32 \<Rightarrow> nat \<Rightarrow> piece \<Rightarrow> bool" where
  "well_spelled m s n (Plain c) = (c \<noteq> 0 \<and> c \<noteq> 0x25)"
| "well_spelled m s n (Text p xs) = (cstr m p xs \<and> clear_of s n p (length xs + 1) \<and> length xs < 4294967295)"
| "well_spelled m s n _ = True"

lemma well_spelled_later:
  assumes "well_spelled m s (length xs + n) piece" "length xs + n \<le> 4294967296"
  shows "well_spelled (put_bytes m s xs) (s + of_nat (length xs)) n piece"
  using assms
proof (cases piece)
  case (Text p ys)
  then show ?thesis using assms
    by (auto intro: cstr_clear clear_of_shift)
qed auto

lemma spelled_not_empty: "spelled piece \<noteq> []"
  by (cases piece) auto

lemma sprintf_piece:
  assumes "cstr m format (spelled piece @ rest)" "well_spelled m s (length (written piece)) piece"
  shows "sprintf_loop number_string m s format (arguments piece @ args)
    = sprintf_loop number_string (put_bytes m s (written piece)) (s + of_nat (length (written piece)))
        (format + of_nat (length (spelled piece))) args"
proof (cases piece)
  case (Plain c)
  then show ?thesis using assms by (subst sprintf_loop.simps) (simp add: put_bytes_single)
next
  case Percent
  then show ?thesis using assms by (subst sprintf_loop.simps) (simp add: put_bytes_single add.assoc)
next
  case (Character w)
  then show ?thesis using assms by (subst sprintf_loop.simps) (simp add: put_bytes_single add.assoc)
next
  case (Text p xs)
  then have "put_string m s p = Some (put_bytes m s xs, s + of_nat (length xs))"
    using assms(2) by (intro put_string_cstr) simp_all
  then show ?thesis using Text assms(1)
    by (subst sprintf_loop.simps) (simp add: field_width_def convert_def add.assoc)
next
  case (Hex n)
  have "put_hex 8 n m s = (put_bytes m s (written (Hex n)), s + 8)" by (simp add: put_hex_bytes)
  moreover have "length (written (Hex n)) = 8" by simp
  ultimately show ?thesis using Hex assms(1)
    by (subst sprintf_loop.simps) (simp add: field_width_def convert_def add.assoc del: written.simps)
qed

lemma cstr_behind: "cstr m p (xs @ ys) \<Longrightarrow> cstr m (p + of_nat (length xs)) ys"
  by (auto simp: cstr_iff bytes_at_append add.assoc)

lemma well_spelled_less: "well_spelled m s n piece \<Longrightarrow> k \<le> n \<Longrightarrow> well_spelled m s k piece"
  by (cases piece) (auto intro: clear_of_less)

lemma sprintf_loop_pieces:
  assumes "cstr m format (concat (map spelled ps))" "length (concat (map spelled ps)) < 4294967295"
    "clear_of s n format (length (concat (map spelled ps)) + 1)"
    "\<forall>piece \<in> set ps. well_spelled m s n piece" "length (concat (map written ps)) = n" "n < 4294967296"
  shows "sprintf_loop number_string m s format (concat (map arguments ps))
    = Some (put_bytes m s (concat (map written ps)), s + of_nat n)"
  using assms
proof (induction ps arbitrary: m s format n)
  case Nil
  then show ?case by (subst sprintf_loop.simps) simp
next
  case (Cons piece ps)
  let ?w = "written piece" and ?f = "spelled piece"
  let ?m = "put_bytes m s ?w" and ?s = "s + of_nat (length ?w)" and ?format = "format + of_nat (length ?f)"
  obtain k where n: "n = length ?w + k" "length (concat (map written ps)) = k" using Cons.prems(5) by simp
  have far: "clear_of s n ?format (length (concat (map spelled ps)) + 1)"
    using Cons.prems(2,3) by (intro clear_of_rest) (simp_all add: add.assoc)
  have "cstr m ?format (concat (map spelled ps))" using Cons.prems(1) by (simp add: cstr_behind)
  then have format: "cstr ?m ?format (concat (map spelled ps))"
    using Cons.prems(2) n(1) by (intro cstr_clear [OF far]) simp_all
  have later: "clear_of ?s k ?format (length (concat (map spelled ps)) + 1)"
    using far Cons.prems(6) n(1) by (intro clear_of_shift) simp_all
  have "\<forall>piece \<in> set ps. well_spelled ?m ?s k piece"
    using Cons.prems(4,6) n(1) by (auto intro: well_spelled_later)
  then have rest: "sprintf_loop number_string ?m ?s ?format (concat (map arguments ps))
      = Some (put_bytes ?m ?s (concat (map written ps)), ?s + of_nat k)"
    using Cons.prems(2,6) n by (intro Cons.IH format later) simp_all
  have first: "sprintf_loop number_string m s format (arguments piece @ concat (map arguments ps))
      = sprintf_loop number_string ?m ?s ?format (concat (map arguments ps))"
    using Cons.prems(1,4) n(1) by (intro sprintf_piece) (auto intro: well_spelled_less)
  have "put_bytes ?m ?s (concat (map written ps)) = put_bytes m s (?w @ concat (map written ps))"
    using Cons.prems(6) n by (intro put_bytes_append) simp
  then show ?case using first rest n by (simp add: add.assoc)
qed

text \<open>
  For a format made of plain characters, \<open>%%\<close>, \<open>%c\<close>, \<open>%s\<close> and \<open>%x\<close> that lies, like the
  strings it prints, apart from the output, \<open>sprintf\<close> ends, returns the number of characters of
  the text that the format stands for, and writes this text and nothing else. In particular it
  does not write a terminator behind it, unlike the \<open>sprintf\<close> of the C standard.
\<close>

theorem sprintf_writes_pieces:
  assumes "cstr m format (concat (map spelled ps))" "length (concat (map spelled ps)) < 4294967295"
    "clear_of str (length (concat (map written ps))) format (length (concat (map spelled ps)) + 1)"
    "\<forall>piece \<in> set ps. well_spelled m str (length (concat (map written ps))) piece"
    "length (concat (map written ps)) < 4294967296"
  shows "sprintf number_string m str format (concat (map arguments ps))
    = Some (of_nat (length (concat (map written ps))), put_bytes m str (concat (map written ps)))"
  using sprintf_loop_pieces [OF assms(1-4) refl assms(5)] by (simp add: sprintf_def)

theorem sprintf_writes_pieces_witness:
  "\<exists>m. sprintf 0x3000 m 0x2000 0x1000 [0xCAFE]
    = Some (10, put_bytes m 0x2000 [0x78, 0x3D, 0x30, 0x30, 0x30, 0x30, 0x43, 0x41, 0x46, 0x45])"
proof -
  let ?ps = "[Plain 0x78, Plain 0x3D, Hex 0xCAFE]" and ?f = "[0x78, 0x3D, 0x25, 0x78] :: u8 list"
  let ?m = "put_cstr (\<lambda>_. 0) 0x1000 ?f"
  have w: "concat (map written ?ps) = [0x78, 0x3D, 0x30, 0x30, 0x30, 0x30, 0x43, 0x41, 0x46, 0x45]"
    by (simp add: upt_rec hex_character_def)
  have lens: "length (concat (map written ?ps)) = 10" "length (concat (map spelled ?ps)) = 4" unfolding w by simp_all
  have "10 \<le> unat (a - 0x2000) \<or> 5 \<le> unat (a - 0x1000)" for a :: u32
    using unat_less_4G [of a] by (auto simp: unat_sub_wrap word_le_nat_alt)
  then have clear: "clear_of 0x2000 10 0x1000 5" unfolding clear_of_def by (metis not_le)
  have c: "cstr ?m 0x1000 ?f" by (rule cstr_put_cstr) simp_all
  have "sprintf 0x3000 ?m 0x2000 0x1000 (concat (map arguments ?ps))
      = Some (of_nat (length (concat (map written ?ps))), put_bytes ?m 0x2000 (concat (map written ?ps)))"
    by (rule sprintf_writes_pieces, use c in simp, simp, simp only: lens, use clear in simp, simp, simp)
  then show ?thesis using w by (intro exI [of _ ?m]) simp
qed

end
