(* ===== verification/Cpu_Lock.thy ===== *)
theory Cpu_Lock
  imports Prelude
begin

text \<open>
  The locks of the kernel: the spin lock \<open>LOCK_MUTEX\<close>/\<open>UNLOCK_MUTEX\<close> of
  \<open>source/kernel/hardware/devices/cpu/mutex.h\<close>, the core mutex of \<open>mutex.c\<close> and the
  interrupt locking of one core, \<open>lock_core\<close>/\<open>unlock_core\<close> of \<open>interrupt.c\<close>.
  The two mutexes are modelled twice: as the operation one core performs while nobody
  interferes (\<open>None\<close> is spinning for ever), and as a step relation in which any number of
  cores interleave, one atomic instruction per step.
\<close>

section \<open>The spin lock\<close>

definition MUTEX_UNLOCKED_VALUE :: u32 where "MUTEX_UNLOCKED_VALUE = 0"
definition MUTEX_LOCKED_VALUE :: u32 where "MUTEX_LOCKED_VALUE = 1"

text \<open>\<open>lock cmpxchgl new, mem\<close>: the accumulator and the memory after the instruction.\<close>

definition cmpxchg :: "'a \<Rightarrow> 'a \<Rightarrow> 'a \<Rightarrow> 'a \<times> 'a" where
  "cmpxchg accumulator new m = (if m = accumulator then (accumulator, new) else (m, m))"

definition lock_attempt :: "u32 \<Rightarrow> bool \<times> u32" where
  "lock_attempt lock =
     (let (expected, lock) = cmpxchg MUTEX_UNLOCKED_VALUE MUTEX_LOCKED_VALUE lock
      in (expected = MUTEX_UNLOCKED_VALUE, lock))"

partial_function (option) lock_mutex :: "u32 \<Rightarrow> u32 option" where
  "lock_mutex lock =
     (let (acquired, lock) = lock_attempt lock in if acquired then Some lock else lock_mutex lock)"

definition unlock_mutex :: "u32 \<Rightarrow> u32" where
  "unlock_mutex lock = MUTEX_UNLOCKED_VALUE"

lemma lock_attempt_simps:
  "lock_attempt lock = (if lock = 0 then (True, 1) else (False, lock))"
  by (simp add: lock_attempt_def cmpxchg_def MUTEX_UNLOCKED_VALUE_def MUTEX_LOCKED_VALUE_def)

lemma lock_mutex_free [simp]: "lock_mutex 0 = Some 1"
  by (subst lock_mutex.simps) (simp add: lock_attempt_simps)

lemma lock_mutex_Some: "lock_mutex lock = Some lock' \<Longrightarrow> lock = 0 \<and> lock' = 1"
proof (rule lock_mutex.raw_induct [where P = "\<lambda>lock lock'. lock = 0 \<and> lock' = 1"])
  fix f :: "u32 \<Rightarrow> u32 option" and x y
  assume "\<And>x y. f x = Some y \<Longrightarrow> x = 0 \<and> y = 1"
    and "(let (acquired, lock) = lock_attempt x in if acquired then Some lock else f lock) = Some y"
  then show "x = 0 \<and> y = 1" by (auto simp: lock_attempt_simps split: if_splits)
qed

lemma lock_mutex_held: "lock \<noteq> 0 \<Longrightarrow> lock_mutex lock = None"
  using lock_mutex_Some by (cases "lock_mutex lock") auto

lemma unlock_mutex_eq [simp]: "unlock_mutex lock = 0"
  by (simp add: unlock_mutex_def MUTEX_UNLOCKED_VALUE_def)

text \<open>Any number of cores: where each of them is, and the lock word.\<close>

datatype spin_pc = Outside | Trying | Inside

record spin_system =
  spin_lock :: u32
  spin_at :: "nat \<Rightarrow> spin_pc"

inductive spin_step :: "spin_system \<Rightarrow> spin_system \<Rightarrow> bool" where
  enter: "spin_at s c = Outside \<Longrightarrow> spin_step s (s\<lparr>spin_at := (spin_at s)(c := Trying)\<rparr>)"
| attempt: "spin_at s c = Trying \<Longrightarrow> lock_attempt (spin_lock s) = (acquired, lock) \<Longrightarrow>
    spin_step s (s\<lparr>spin_lock := lock,
      spin_at := (spin_at s)(c := if acquired then Inside else Trying)\<rparr>)"
| leave: "spin_at s c = Inside \<Longrightarrow>
    spin_step s (s\<lparr>spin_lock := unlock_mutex (spin_lock s), spin_at := (spin_at s)(c := Outside)\<rparr>)"

inductive spin_reachable :: "spin_system \<Rightarrow> bool" where
  start: "spin_reachable \<lparr>spin_lock = 0, spin_at = (\<lambda>_. Outside)\<rparr>"
| step: "spin_reachable s \<Longrightarrow> spin_step s s' \<Longrightarrow> spin_reachable s'"

inductive_cases spin_stepE: "spin_step s s'"

definition spin_inv :: "spin_system \<Rightarrow> bool" where
  "spin_inv s \<longleftrightarrow> (if spin_lock s = 0 then \<forall>c. spin_at s c \<noteq> Inside
     else spin_lock s = 1 \<and> (\<exists>!c. spin_at s c = Inside))"

lemma spin_inv_step:
  assumes "spin_inv s" "spin_step s s'"
  shows "spin_inv s'"
  using assms(2)
proof cases
  case (enter c)
  then have "spin_at s' d = Inside \<longleftrightarrow> spin_at s d = Inside" for d by auto
  then show ?thesis using assms(1) enter(1) by (simp add: spin_inv_def)
next
  case (attempt c acquired lock)
  show ?thesis
  proof (cases "spin_lock s = 0")
    case True
    then have "spin_at s' d = Inside \<longleftrightarrow> d = c" for d
      using assms(1) attempt by (auto simp: spin_inv_def lock_attempt_simps)
    moreover have "spin_lock s' = 1" using True attempt by (simp add: lock_attempt_simps)
    ultimately show ?thesis by (simp add: spin_inv_def)
  next
    case False
    then have "spin_lock s' = spin_lock s" "spin_at s' d = Inside \<longleftrightarrow> spin_at s d = Inside" for d
      using attempt by (auto simp: lock_attempt_simps)
    then show ?thesis using assms(1) by (simp add: spin_inv_def)
  qed
next
  case (leave c)
  then have "spin_lock s \<noteq> 0" using assms(1) by (auto simp only: spin_inv_def if_True)
  with assms(1) have "\<exists>!c. spin_at s c = Inside" by (simp only: spin_inv_def if_False)
  then have only: "d = c" if "spin_at s d = Inside" for d
    using that leave(2) by (elim ex1E) (rule trans [OF _ sym]; blast)
  have "spin_at s' d \<noteq> Inside" for d using only [of d] unfolding leave(1) by auto
  moreover have "spin_lock s' = 0" using leave by simp
  ultimately show ?thesis by (simp add: spin_inv_def)
qed

lemma spin_reachable_inv: "spin_reachable s \<Longrightarrow> spin_inv s"
proof (induction rule: spin_reachable.induct)
  case start
  show ?case by (simp add: spin_inv_def)
qed (rule spin_inv_step)

section \<open>The core mutex\<close>

text \<open>The cell holds the id of the core that owns it, or \<open>-1\<close>.\<close>

definition CORE_MUTEX_UNLOCKED :: int where "CORE_MUTEX_UNLOCKED = - 1"

partial_function (option) core_mutex_spin :: "int \<Rightarrow> int \<Rightarrow> int option" where
  "core_mutex_spin current_core_id mutex =
     (let (expected, mutex) = cmpxchg CORE_MUTEX_UNLOCKED current_core_id mutex
      in if expected = CORE_MUTEX_UNLOCKED then Some mutex else core_mutex_spin current_core_id mutex)"

definition core_mutex_lock :: "int \<Rightarrow> int \<Rightarrow> int option" where
  "core_mutex_lock current_core_id mutex =
     (if mutex = current_core_id then Some mutex else core_mutex_spin current_core_id mutex)"

definition core_mutex_unlock :: "int \<Rightarrow> int \<Rightarrow> int" where
  "core_mutex_unlock current_core_id mutex =
     (if mutex = current_core_id then CORE_MUTEX_UNLOCKED else mutex)"

lemma core_mutex_spin_Some: "core_mutex_spin core mutex = Some mutex' \<Longrightarrow> mutex = - 1 \<and> mutex' = core"
proof (rule core_mutex_spin.raw_induct [where P = "\<lambda>core mutex mutex'. mutex = - 1 \<and> mutex' = core"])
  fix f :: "int \<Rightarrow> int \<Rightarrow> int option" and c x y
  assume "\<And>c x y. f c x = Some y \<Longrightarrow> x = - 1 \<and> y = c"
    and "(let (expected, mutex) = cmpxchg CORE_MUTEX_UNLOCKED c x
      in if expected = CORE_MUTEX_UNLOCKED then Some mutex else f c mutex) = Some y"
  then show "x = - 1 \<and> y = c" by (auto simp: cmpxchg_def CORE_MUTEX_UNLOCKED_def split: if_splits)
qed

lemma core_mutex_spin_free [simp]: "core_mutex_spin core (- 1) = Some core"
  by (subst core_mutex_spin.simps) (simp add: cmpxchg_def CORE_MUTEX_UNLOCKED_def)

lemma core_mutex_lock_iff:
  "core_mutex_lock core mutex = Some mutex' \<longleftrightarrow> mutex' = core \<and> (mutex = core \<or> mutex = - 1)"
  using core_mutex_spin_Some by (auto simp: core_mutex_lock_def)

section \<open>Interrupt locking of one core\<close>

text \<open>
  The fields of the logical processor the two functions use, and the interrupt flag of the
  processor that \<open>cli\<close> clears and \<open>sti\<close> sets. The function pointers \<open>lock_core\<close> and
  \<open>unlock_core\<close> start out as functions that do nothing: \<open>core_locking\<close> tells which pair is
  installed.
\<close>

record core_state =
  core_locking :: bool
  in_interrupt :: bool
  depth_of_lock :: u32
  interrupt_flag :: bool

definition core_locking_before_initialization :: "core_state \<Rightarrow> core_state" where
  "core_locking_before_initialization s = s"

definition initialize_core_locking :: "core_state \<Rightarrow> core_state" where
  "initialize_core_locking s = s\<lparr>core_locking := True\<rparr>"

definition lock_core_after_initialization :: "core_state \<Rightarrow> core_state" where
  "lock_core_after_initialization s =
     (if in_interrupt s then s
      else let s = (if depth_of_lock s = 0 then s\<lparr>interrupt_flag := False\<rparr> else s)
           in s\<lparr>depth_of_lock := depth_of_lock s + 1\<rparr>)"

definition unlock_core_after_initialization :: "core_state \<Rightarrow> core_state" where
  "unlock_core_after_initialization s =
     (if in_interrupt s then s
      else if 0 < depth_of_lock s then
        let s = s\<lparr>depth_of_lock := depth_of_lock s - 1\<rparr>
        in if depth_of_lock s = 0 then s\<lparr>interrupt_flag := True\<rparr> else s
      else s)"

definition lock_core :: "core_state \<Rightarrow> core_state" where
  "lock_core s = (if core_locking s then lock_core_after_initialization s
                  else core_locking_before_initialization s)"

definition unlock_core :: "core_state \<Rightarrow> core_state" where
  "unlock_core s = (if core_locking s then unlock_core_after_initialization s
                    else core_locking_before_initialization s)"

lemmas core_lock_defs = lock_core_def unlock_core_def lock_core_after_initialization_def
  unlock_core_after_initialization_def core_locking_before_initialization_def Let_def

text \<open>
  A program fragment is a tree of critical sections: plain work, or a locked section with
  further sections inside. \<open>run\<close> also collects the interrupt flag at every piece of work that
  is done under at least one lock.
\<close>

datatype section_tree = Locked "section_tree list"

fun run_sections :: "section_tree list \<Rightarrow> core_state \<Rightarrow> core_state \<times> bool list" where
  "run_sections [] s = (s, [])"
| "run_sections (Locked inner # rest) s =
     (let s1 = lock_core s;
          (s2, flags) = run_sections inner s1;
          (s4, flags') = run_sections rest (unlock_core s2)
      in (s4, interrupt_flag s1 # flags @ interrupt_flag s2 # flags'))"

fun nesting :: "section_tree list \<Rightarrow> nat" where
  "nesting [] = 0"
| "nesting (Locked inner # rest) = max (Suc (nesting inner)) (nesting rest)"

lemma run_sections_balanced:
  assumes "core_locking s" "\<not> in_interrupt s" "interrupt_flag s \<longleftrightarrow> depth_of_lock s = 0"
    and "unat (depth_of_lock s) + nesting ts < 4294967296"
  shows "fst (run_sections ts s) = s \<and> True \<notin> set (snd (run_sections ts s))"
  using assms
proof (induction ts s rule: run_sections.induct)
  case (2 inner rest s)
  let ?d = "depth_of_lock s"
  have up: "unat (?d + 1) = unat ?d + 1" using "2.prems"(4) by (subst unat_add_small) auto
  then have d: "?d + 1 \<noteq> 0" "0 < ?d + 1"
    by (auto simp: word_less_nat_alt dest: arg_cong [where f = unat])
  let ?s1 = "lock_core s"
  have s1: "core_locking ?s1" "\<not> in_interrupt ?s1" "\<not> interrupt_flag ?s1" "depth_of_lock ?s1 = ?d + 1"
    using "2.prems" by (auto simp: core_lock_defs)
  then have inner: "fst (run_sections inner ?s1) = ?s1" "True \<notin> set (snd (run_sections inner ?s1))"
    using "2.IH"(1) [OF refl] "2.prems"(4) up d by auto
  have undo: "unlock_core ?s1 = s"
    using "2.prems" d by (auto simp: core_lock_defs)
  show ?case
    using "2.IH"(2) [OF refl] inner undo "2.prems" s1(3)
    by (cases "run_sections inner ?s1"; cases "run_sections rest s") (auto simp: Let_def)
qed simp

section \<open>Properties\<close>

text \<open>
  C3. Mutual exclusion: however the cores interleave, at most one of them is between
  \<open>LOCK_MUTEX\<close> and \<open>UNLOCK_MUTEX\<close>, and while one is there the lock word is set, so that no
  attempt of another core succeeds.
\<close>

theorem spin_lock_mutual_exclusion:
  assumes "spin_reachable s" "spin_at s c = Inside"
  shows "(spin_at s d = Inside \<longrightarrow> d = c) \<and> fst (lock_attempt (spin_lock s)) = False
    \<and> lock_mutex (spin_lock s) = None"
proof -
  have inv: "spin_inv s" using assms(1) by (rule spin_reachable_inv)
  then have set: "spin_lock s \<noteq> 0" using assms(2) by (auto simp only: spin_inv_def if_True)
  with inv have "\<exists>!c. spin_at s c = Inside" by (simp only: spin_inv_def if_False)
  then have "spin_at s d = Inside \<longrightarrow> d = c" using assms(2) by (elim ex1E) (metis (full_types))
  with set show ?thesis by (simp add: lock_attempt_simps lock_mutex_held)
qed

theorem spin_lock_mutual_exclusion_witness:
  "\<exists>s. spin_reachable s \<and> spin_at s 3 = Inside \<and> (spin_at s 4 = Inside \<longrightarrow> 4 = (3 :: nat))"
proof -
  let ?s0 = "\<lparr>spin_lock = 0, spin_at = (\<lambda>_. Outside)\<rparr>"
  let ?s1 = "?s0\<lparr>spin_at := (spin_at ?s0)(3 := Trying)\<rparr>"
  let ?s2 = "?s1\<lparr>spin_lock := 1, spin_at := (spin_at ?s1)(3 := if True then Inside else Trying)\<rparr>"
  have "spin_reachable ?s1"
    by (rule spin_reachable.step [OF spin_reachable.start]) (rule spin_step.enter, simp)
  then have "spin_reachable ?s2"
    by (rule spin_reachable.step) (rule spin_step.attempt, simp_all add: lock_attempt_simps)
  moreover have "spin_at ?s2 3 = Inside" by simp
  ultimately show ?thesis using spin_lock_mutual_exclusion by blast
qed

text \<open>
  The core mutex is taken exactly when it is free or already owned by the core, and
  unlocking by a core that does not own it changes nothing. It does not count: after a nested
  lock and unlock on the owning core the mutex is free, and another core gets it while the
  first one is still inside its outer section.
\<close>

theorem core_mutex_ownership:
  "(core_mutex_lock core mutex = Some mutex' \<longleftrightarrow> mutex' = core \<and> (mutex = core \<or> mutex = - 1))
   \<and> (core \<noteq> mutex \<longrightarrow> core_mutex_unlock core mutex = mutex)
   \<and> Option.bind (Option.bind (core_mutex_lock core (- 1)) (core_mutex_lock core))
       (\<lambda>m. core_mutex_lock other (core_mutex_unlock core m)) = Some other"
proof -
  have run: "core_mutex_lock c (- 1) = Some c" "core_mutex_lock c c = Some c" for c
    by (simp_all add: core_mutex_lock_iff)
  have "core_mutex_unlock core core = - 1"
    by (simp add: core_mutex_unlock_def CORE_MUTEX_UNLOCKED_def)
  then have "Option.bind (Option.bind (core_mutex_lock core (- 1)) (core_mutex_lock core))
       (\<lambda>m. core_mutex_lock other (core_mutex_unlock core m)) = Some other"
    by (simp only: run Option.bind.bind_lunit)
  then show ?thesis
    by (simp only: core_mutex_lock_iff core_mutex_unlock_def) simp
qed

theorem core_mutex_ownership_witness:
  "Option.bind (Option.bind (core_mutex_lock 0 (- 1)) (core_mutex_lock 0))
     (\<lambda>m. core_mutex_lock 1 (core_mutex_unlock 0 m)) = Some 1 \<and> core_mutex_unlock 0 1 = 1"
  using core_mutex_ownership [of 0 1 1 1] by simp

text \<open>
  \<open>lock_core\<close> and \<open>unlock_core\<close> nest: after any tree of balanced critical sections the core
  is as before, and at no point inside a section are interrupts enabled. Before
  \<open>initialize_core_locking\<close> and inside an interrupt handler they do nothing.
\<close>

theorem core_lock_nesting:
  assumes "core_locking s" "\<not> in_interrupt s" "interrupt_flag s \<longleftrightarrow> depth_of_lock s = 0"
    and "unat (depth_of_lock s) + nesting ts < 4294967296"
  shows "fst (run_sections ts s) = s \<and> True \<notin> set (snd (run_sections ts s))"
  using assms by (rule run_sections_balanced)

theorem core_lock_nesting_witness:
  "fst (run_sections [Locked [Locked [], Locked []], Locked []]
     \<lparr>core_locking = True, in_interrupt = False, depth_of_lock = 0, interrupt_flag = True\<rparr>)
   = \<lparr>core_locking = True, in_interrupt = False, depth_of_lock = 0, interrupt_flag = True\<rparr>"
  using core_lock_nesting [of "\<lparr>core_locking = True, in_interrupt = False, depth_of_lock = 0, interrupt_flag = True\<rparr>"
      "[Locked [Locked [], Locked []], Locked []]"] by simp

end
