(* ===== verification/Physical_Memory.thy ===== *)
theory Physical_Memory
  imports Libc_String Cpu_Lock "HOL-Library.Multiset"
begin

text \<open>
  The physical page allocator, \<open>source/kernel/hardware/devices/memory/physical_memory.c\<close>:
  the free memory map and its bump allocator, the global stack of free pages that lies in
  virtual memory at \<open>VM_PHYSICAL_PAGES_STACK\<close>, and the per-processor stack in front of it.
  \<open>None\<close> is a kernel panic, or a spin for a mutex that is never released. The contract of the
  function pointers \<open>pm_alloc_page\<close> and \<open>pm_free_page\<close> is the locale \<open>page_source\<close>; the
  direct and the local pair both meet it.
\<close>

section \<open>Constants and state\<close>

definition PAGE_SIZE :: u32 where "PAGE_SIZE = 0x1000"
definition VM_PHYSICAL_PAGES_STACK :: u32 where "VM_PHYSICAL_PAGES_STACK = 0xFF800000"
definition VM_PAGE_TABLES :: u32 where "VM_PAGE_TABLES = 0xFFC00000"
definition VM_PAGE_DIRECTORY :: u32 where "VM_PAGE_DIRECTORY = 0xFFFFF000"
definition VM_FOR_CLEARING_MEMORY :: u32 where "VM_FOR_CLEARING_MEMORY = 0xC0400000"
definition VM_KERNEL :: u32 where "VM_KERNEL = 0x3"
definition VM_FLAG_GLOBAL :: u32 where "VM_FLAG_GLOBAL = 0x100"

definition PAGE_MASK :: "u32 \<Rightarrow> u32" where "PAGE_MASK x = x AND 0xFFFFF000"
definition PAGE_OFFSET_MASK :: "u32 \<Rightarrow> u32" where "PAGE_OFFSET_MASK x = x AND 0xFFF"

lemmas pm_constants = PAGE_SIZE_def VM_PHYSICAL_PAGES_STACK_def VM_PAGE_TABLES_def
  VM_PAGE_DIRECTORY_def VM_FOR_CLEARING_MEMORY_def VM_KERNEL_def VM_FLAG_GLOBAL_def

record map_entry =
  memory_start :: u32
  memory_size :: u32

datatype page_functions = No_functions | Direct_functions | Local_functions

text \<open>
  \<open>virt\<close> is the kernel's virtual memory, \<open>phys\<close> the contents of physical memory.
  \<open>physical_pages_stack\<close> is the array of the logical processor that runs.
\<close>

record pm_state =
  free_map :: "map_entry list"
  virt :: mem
  phys :: mem
  pm_stack_pointer :: u32
  pm_stack_last_entry :: u32
  pm_stack_mutex :: u32
  number_of_all_pages :: u32
  number_of_allocated_pages :: u32
  physical_pages_stack :: "u32 list"
  pm_functions :: page_functions

section \<open>The free memory map\<close>

definition align_size :: "map_entry \<Rightarrow> map_entry" where
  "align_size e = (if PAGE_OFFSET_MASK (memory_size e) \<noteq> 0
     then e\<lparr>memory_size := PAGE_MASK (memory_size e)\<rparr> else e)"

definition align_entry :: "map_entry \<Rightarrow> map_entry" where
  "align_entry e =
     (if PAGE_OFFSET_MASK (memory_start e) \<noteq> 0 then
        if PAGE_SIZE - PAGE_OFFSET_MASK (memory_start e) \<le> memory_size e then e\<lparr>memory_size := 0\<rparr>
        else
          let e = e\<lparr>memory_start := PAGE_MASK (memory_start e) + PAGE_SIZE\<rparr>;
              e = e\<lparr>memory_size := memory_size e - (PAGE_SIZE - PAGE_OFFSET_MASK (memory_start e))\<rparr>
          in align_size e
      else align_size e)"

fun bump_scan :: "u32 \<Rightarrow> map_entry list \<Rightarrow> (u32 \<times> map_entry list) option" where
  "bump_scan sz [] = None"
| "bump_scan sz (e # es) =
     (if sz \<le> memory_size e then
        Some (memory_start e,
          e\<lparr>memory_start := memory_start e + sz, memory_size := memory_size e - sz\<rparr> # es)
      else map_option (\<lambda>(page, es). (page, e # es)) (bump_scan sz es))"

definition pm_bump_alloc :: "u32 \<Rightarrow> pm_state \<Rightarrow> (u32 \<times> pm_state) option" where
  "pm_bump_alloc sz s =
     (let sz = (sz + PAGE_SIZE - 1) div PAGE_SIZE * PAGE_SIZE
      in map_option (\<lambda>(page, es). (page, s\<lparr>free_map := es\<rparr>)) (bump_scan sz (free_map s)))"

section \<open>The stacks of free pages\<close>

definition pm_direct_alloc_page :: "pm_state \<Rightarrow> (u32 \<times> pm_state) option" where
  "pm_direct_alloc_page s = do {
     lock \<leftarrow> lock_mutex (pm_stack_mutex s);
     let s = s\<lparr>pm_stack_mutex := lock\<rparr>;
     if pm_stack_pointer s = VM_PHYSICAL_PAGES_STACK then None
     else do {
       let s = s\<lparr>pm_stack_pointer := pm_stack_pointer s - 4\<rparr>;
       let page = load32 (virt s) (pm_stack_pointer s);
       let s = s\<lparr>number_of_allocated_pages := number_of_allocated_pages s + 1\<rparr>;
       Some (page, s\<lparr>pm_stack_mutex := unlock_mutex (pm_stack_mutex s)\<rparr>)
     }
   }"

definition pm_direct_free_page :: "u32 \<Rightarrow> pm_state \<Rightarrow> pm_state option" where
  "pm_direct_free_page page s = do {
     lock \<leftarrow> lock_mutex (pm_stack_mutex s);
     let s = s\<lparr>pm_stack_mutex := lock\<rparr>;
     if pm_stack_pointer s = pm_stack_last_entry s then None
     else do {
       let s = s\<lparr>virt := store32 (virt s) (pm_stack_pointer s) page,
                 pm_stack_pointer := pm_stack_pointer s + 4\<rparr>;
       let s = s\<lparr>number_of_allocated_pages := number_of_allocated_pages s - 1\<rparr>;
       Some (s\<lparr>pm_stack_mutex := unlock_mutex (pm_stack_mutex s)\<rparr>)
     }
   }"

fun load_pages :: "nat \<Rightarrow> u32 list \<Rightarrow> u32 \<Rightarrow> pm_state \<Rightarrow> u32 list \<times> u32 \<times> pm_state" where
  "load_pages 0 stack index s = (stack, index, s)"
| "load_pages (Suc i) stack index s =
     (if pm_stack_pointer s = VM_PHYSICAL_PAGES_STACK then (stack, index, s)
      else
        let index = index + 1;
            s = s\<lparr>pm_stack_pointer := pm_stack_pointer s - 4\<rparr>
        in load_pages i (stack[unat index := load32 (virt s) (pm_stack_pointer s)]) index s)"

definition pm_local_alloc_page :: "pm_state \<Rightarrow> (u32 \<times> pm_state) option" where
  "pm_local_alloc_page s = do {
     let stack = physical_pages_stack s;
     let index = stack ! 0;
     (stack, index, s) \<leftarrow>
       (if index = 0 then do {
          lock \<leftarrow> lock_mutex (pm_stack_mutex s);
          let s = s\<lparr>pm_stack_mutex := lock\<rparr>;
          if pm_stack_pointer s = VM_PHYSICAL_PAGES_STACK then None
          else do {
            let (stack, index, s) = load_pages 64 stack index s;
            let s = s\<lparr>pm_stack_mutex := unlock_mutex (pm_stack_mutex s)\<rparr>;
            Some (stack[0 := index], index, s)
          }
        } else Some (stack, index, s));
     let page = stack ! unat index;
     let stack = stack[0 := stack ! 0 - 1];
     Some (page, s\<lparr>physical_pages_stack := stack,
       number_of_allocated_pages := number_of_allocated_pages s + 1\<rparr>)
   }"

fun unload_pages :: "nat \<Rightarrow> u32 list \<Rightarrow> u32 \<Rightarrow> pm_state \<Rightarrow> (u32 \<times> pm_state) option" where
  "unload_pages 0 stack index s = Some (index, s)"
| "unload_pages (Suc i) stack index s =
     (if pm_stack_pointer s = pm_stack_last_entry s then None
      else unload_pages i stack (index - 1)
        (s\<lparr>virt := store32 (virt s) (pm_stack_pointer s) (stack ! unat index),
           pm_stack_pointer := pm_stack_pointer s + 4\<rparr>))"

definition pm_local_free_page :: "u32 \<Rightarrow> pm_state \<Rightarrow> pm_state option" where
  "pm_local_free_page page s = do {
     let stack = physical_pages_stack s;
     let index = stack ! 0;
     (stack, index, s) \<leftarrow>
       (if index = 255 then do {
          lock \<leftarrow> lock_mutex (pm_stack_mutex s);
          let s = s\<lparr>pm_stack_mutex := lock\<rparr>;
          (index, s) \<leftarrow> unload_pages 128 stack index s;
          let s = s\<lparr>pm_stack_mutex := unlock_mutex (pm_stack_mutex s)\<rparr>;
          Some (stack[0 := index], index, s)
        } else Some (stack, index, s));
     let index = index + 1;
     let stack = stack[unat index := page];
     let stack = stack[0 := stack ! 0 + 1];
     Some (s\<lparr>physical_pages_stack := stack,
       number_of_allocated_pages := number_of_allocated_pages s - 1\<rparr>)
   }"

text \<open>The function pointers.\<close>

definition pm_alloc_page :: "pm_state \<Rightarrow> (u32 \<times> pm_state) option" where
  "pm_alloc_page s = (case pm_functions s of No_functions \<Rightarrow> None
     | Direct_functions \<Rightarrow> pm_direct_alloc_page s | Local_functions \<Rightarrow> pm_local_alloc_page s)"

definition pm_free_page :: "u32 \<Rightarrow> pm_state \<Rightarrow> pm_state option" where
  "pm_free_page page s = (case pm_functions s of No_functions \<Rightarrow> None
     | Direct_functions \<Rightarrow> pm_direct_free_page page s | Local_functions \<Rightarrow> pm_local_free_page page s)"

section \<open>The stack as a list of pages\<close>

definition slot :: "nat \<Rightarrow> u32" where
  "slot i = VM_PHYSICAL_PAGES_STACK + 4 * of_nat i"

definition slots :: "mem \<Rightarrow> nat \<Rightarrow> u32 list" where
  "slots m n = map (\<lambda>i. load32 m (slot i)) [0..<n]"

text \<open>The four megabytes the stack may fill hold \<open>2^20\<close> entries.\<close>

lemma unat_slot: "i \<le> 1048576 \<Longrightarrow> unat (slot i) = 4286578688 + 4 * i"
proof -
  assume i: "i \<le> 1048576"
  then have "unat (of_nat i :: u32) = i" by (intro unat_of_nat32) simp
  then have "unat (4 * of_nat i :: u32) = 4 * i" using i by (subst unat_mult_small) auto
  then show ?thesis using i by (simp add: slot_def pm_constants unat_add_small)
qed

lemma slot_eq_iff: "i \<le> 1048576 \<Longrightarrow> j \<le> 1048576 \<Longrightarrow> slot i = slot j \<longleftrightarrow> i = j"
  by (auto dest!: arg_cong [where f = unat] simp: unat_slot)

lemma slot_Suc: "slot i + 4 = slot (Suc i)" "slot (Suc i) - 4 = slot i"
  by (simp_all add: slot_def)

lemma slot_0: "slot 0 = VM_PHYSICAL_PAGES_STACK"
  by (simp add: slot_def)

lemma load32_slot:
  assumes "i < 1048576" "j < 1048576"
  shows "load32 (store32 m (slot i) w) (slot j) = (if i = j then w else load32 m (slot j))"
proof (cases "i = j")
  case False
  then have "apart (slot i) 4 (slot j) 4"
  proof (cases "i < j")
    case True
    then show ?thesis using assms by (intro apart_belowI) (auto simp: unat_slot)
  next
    case False
    then show ?thesis using assms \<open>i \<noteq> j\<close> by (intro apart_aboveI) (auto simp: unat_slot)
  qed
  with False show ?thesis by (simp add: mem_simps)
qed (simp add: mem_simps)

lemma slots_Suc: "slots m (Suc n) = slots m n @ [load32 m (slot n)]"
  by (simp add: slots_def)

lemma length_slots [simp]: "length (slots m n) = n"
  by (simp add: slots_def)

lemma slots_push: "n < 1048576 \<Longrightarrow> slots (store32 m (slot n) w) (Suc n) = slots m n @ [w]"
  by (simp add: slots_def load32_slot)

definition pm_count :: "pm_state \<Rightarrow> nat" where
  "pm_count s = unat (pm_stack_pointer s - VM_PHYSICAL_PAGES_STACK) div 4"

definition global_pages :: "pm_state \<Rightarrow> u32 list" where
  "global_pages s = slots (virt s) (pm_count s)"

definition local_pages :: "pm_state \<Rightarrow> u32 list" where
  "local_pages s = take (unat (physical_pages_stack s ! 0)) (tl (physical_pages_stack s))"

definition free_pages :: "pm_state \<Rightarrow> u32 multiset" where
  "free_pages s = mset (global_pages s) + mset (local_pages s)"

definition stack_ok :: "pm_state \<Rightarrow> bool" where
  "stack_ok s \<longleftrightarrow> pm_count s \<le> 1048576 \<and> pm_stack_pointer s = slot (pm_count s)
     \<and> (\<exists>k. k \<le> 1048576 \<and> pm_count s \<le> k \<and> pm_stack_last_entry s = slot k)"

definition pm_wf :: "pm_state \<Rightarrow> bool" where
  "pm_wf s \<longleftrightarrow> pm_stack_mutex s = 0 \<and> stack_ok s
     \<and> length (physical_pages_stack s) = 256 \<and> physical_pages_stack s ! 0 \<le> 255"

lemma pm_count_slot: "n \<le> 1048576 \<Longrightarrow> pm_stack_pointer s = slot n \<Longrightarrow> pm_count s = n"
proof -
  assume n: "n \<le> 1048576" "pm_stack_pointer s = slot n"
  then have "unat (of_nat n :: u32) = n" by (intro unat_of_nat32) simp
  then have "unat (4 * of_nat n :: u32) = 4 * n" using n by (subst unat_mult_small) auto
  then show ?thesis using n by (simp add: pm_count_def slot_def)
qed

lemma stack_ok_count_0: "stack_ok s \<Longrightarrow> pm_stack_pointer s = VM_PHYSICAL_PAGES_STACK \<longleftrightarrow> pm_count s = 0"
  using slot_eq_iff [of "pm_count s" 0] by (auto simp: stack_ok_def slot_0)

lemma stack_ok_full:
  assumes "stack_ok s" "pm_stack_pointer s \<noteq> pm_stack_last_entry s"
  shows "pm_count s < 1048576"
proof -
  obtain k where "k \<le> 1048576" "pm_count s \<le> k" "pm_stack_last_entry s = slot k"
      "pm_stack_pointer s = slot (pm_count s)"
    using assms(1) by (auto simp: stack_ok_def)
  with assms(2) show ?thesis by (cases "pm_count s = k") auto
qed

text \<open>One page popped from, or pushed onto, the global stack.\<close>

lemma pop_page:
  assumes "stack_ok s" "pm_count s = Suc n"
    and s': "pm_stack_pointer s' = pm_stack_pointer s - 4" "virt s' = virt s"
      "pm_stack_last_entry s' = pm_stack_last_entry s"
  shows "stack_ok s'" "pm_stack_pointer s' = slot n" "pm_count s' = n"
    "global_pages s = global_pages s' @ [load32 (virt s) (slot n)]"
proof -
  show p: "pm_stack_pointer s' = slot n" using assms by (simp add: stack_ok_def slot_Suc)
  moreover have n: "n \<le> 1048576" using assms by (simp add: stack_ok_def)
  ultimately show c: "pm_count s' = n" using pm_count_slot by blast
  show "stack_ok s'" using assms by (auto simp: stack_ok_def c slot_Suc)
  show "global_pages s = global_pages s' @ [load32 (virt s) (slot n)]"
    using assms c by (simp add: global_pages_def slots_Suc)
qed

lemma push_page:
  assumes "stack_ok s" "pm_stack_pointer s \<noteq> pm_stack_last_entry s"
    and s': "pm_stack_pointer s' = pm_stack_pointer s + 4"
      "virt s' = store32 (virt s) (pm_stack_pointer s) page"
      "pm_stack_last_entry s' = pm_stack_last_entry s"
  shows "stack_ok s'" "pm_stack_pointer s' = slot (Suc (pm_count s))" "pm_count s' = Suc (pm_count s)"
    "global_pages s' = global_pages s @ [page]"
proof -
  have n: "pm_count s < 1048576" by (rule stack_ok_full [OF assms(1,2)])
  show p: "pm_stack_pointer s' = slot (Suc (pm_count s))"
    using assms(1) s' by (simp add: stack_ok_def slot_Suc)
  then show c: "pm_count s' = Suc (pm_count s)" using n by (intro pm_count_slot) auto
  obtain k where k: "k \<le> 1048576" "pm_count s \<le> k" "pm_stack_last_entry s = slot k"
    using assms(1) by (auto simp: stack_ok_def)
  moreover have "pm_count s \<noteq> k" using assms(1,2) k by (auto simp: stack_ok_def)
  ultimately show "stack_ok s'" using n p c s'(3) by (auto simp: stack_ok_def)
  have "virt s' = store32 (virt s) (slot (pm_count s)) page"
    using assms(1) s'(2) by (simp add: stack_ok_def)
  then show "global_pages s' = global_pages s @ [page]"
    using n by (simp add: global_pages_def c slots_push)
qed

section \<open>The contract of pm_alloc_page and pm_free_page\<close>

text \<open>
  A source of pages: allocation takes one page out of the free ones, freeing puts the page
  back. What a client gets from it: pages are neither lost nor created, and if no page is free
  twice in the beginning, no two allocations that are live at the same time get the same page.
\<close>

datatype page_op = Alloc | Free nat

fun page_run :: "('s \<Rightarrow> (u32 \<times> 's) option) \<Rightarrow> (u32 \<Rightarrow> 's \<Rightarrow> 's option) \<Rightarrow> page_op list \<Rightarrow>
    's \<times> u32 list \<Rightarrow> ('s \<times> u32 list) option" where
  "page_run alloc free [] (s, held) = Some (s, held)"
| "page_run alloc free (Alloc # ops) (s, held) = do {
     (page, s) \<leftarrow> alloc s;
     page_run alloc free ops (s, page # held)
   }"
| "page_run alloc free (Free i # ops) (s, held) =
     (if i < length held then do {
        s \<leftarrow> free (held ! i) s;
        page_run alloc free ops (s, take i held @ drop (Suc i) held)
      } else None)"

locale page_source =
  fixes alloc :: "'s \<Rightarrow> (u32 \<times> 's) option"
    and free :: "u32 \<Rightarrow> 's \<Rightarrow> 's option"
    and wf :: "'s \<Rightarrow> bool"
    and pages :: "'s \<Rightarrow> u32 multiset"
  assumes alloc_page: "wf s \<Longrightarrow> alloc s = Some (p, s') \<Longrightarrow> wf s' \<and> pages s = add_mset p (pages s')"
    and free_page: "wf s \<Longrightarrow> free p s = Some s' \<Longrightarrow> wf s' \<and> pages s' = add_mset p (pages s)"
begin

lemma conservation:
  "wf s \<Longrightarrow> page_run alloc free ops (s, held) = Some (s', held') \<Longrightarrow>
    wf s' \<and> pages s' + mset held' = pages s + mset held"
proof (induction ops arbitrary: s held)
  case (Cons op ops)
  show ?case
  proof (cases op)
    case Alloc
    then obtain page s1 where s1: "alloc s = Some (page, s1)"
      "page_run alloc free ops (s1, page # held) = Some (s', held')"
      using Cons.prems(2) by (auto split: bind_splits)
    then show ?thesis using Cons.IH [OF _ s1(2)] alloc_page [OF Cons.prems(1) s1(1)] by simp
  next
    case (Free i)
    then obtain s1 where s1: "i < length held" "free (held ! i) s = Some s1"
      "page_run alloc free ops (s1, take i held @ drop (Suc i) held) = Some (s', held')"
      using Cons.prems(2) by (auto split: bind_splits if_splits)
    have "held = take i held @ held ! i # drop (Suc i) held"
      using s1(1) by (simp add: id_take_nth_drop)
    then have "mset held = mset (take i held @ held ! i # drop (Suc i) held)" by simp
    then have "mset held = add_mset (held ! i) (mset (take i held @ drop (Suc i) held))" by simp
    then show ?thesis using Cons.IH [OF _ s1(3)] free_page [OF Cons.prems(1) s1(2)] by simp
  qed
qed simp

lemma no_double_allocation:
  assumes "wf s" "\<And>p. count (pages s) p \<le> 1" "page_run alloc free ops (s, []) = Some (s', held')"
  shows "distinct held' \<and> set held' \<inter> set_mset (pages s') = {}"
proof -
  have sum: "pages s' + mset held' = pages s" using conservation [OF assms(1,3)] by simp
  then have le: "count (pages s') p + count (mset held') p \<le> 1" for p
    using assms(2) [of p] by (metis count_union)
  then have "count (mset held') p \<le> 1" for p using le_trans [OF le_add2] by blast
  then have "distinct held'" by (simp add: distinct_count_atmost_1 le_Suc_eq count_mset_0_iff)
  moreover have "p \<notin># pages s'" if "p \<in> set held'" for p
  proof -
    have "0 < count (mset held') p" using that by (simp add: count_greater_zero_iff)
    then have "count (pages s') p = 0" using le [of p] by linarith
    then show ?thesis by (simp only: not_in_iff)
  qed
  ultimately show ?thesis by blast
qed

end

text \<open>The direct pair on the global stack.\<close>

lemma direct_alloc:
  assumes "pm_wf s" "pm_direct_alloc_page s = Some (p, s')"
  shows "pm_wf s' \<and> free_pages s = add_mset p (free_pages s')"
proof -
  have ok: "stack_ok s" and lock: "lock_mutex (pm_stack_mutex s) = Some 1"
    using assms(1) by (simp_all add: pm_wf_def)
  have nonempty: "pm_stack_pointer s \<noteq> VM_PHYSICAL_PAGES_STACK"
    using assms(2) lock by (auto simp: pm_direct_alloc_page_def Let_def split: if_splits)
  then obtain n where n: "pm_count s = Suc n"
    using stack_ok_count_0 [OF ok] by (cases "pm_count s") auto
  have s': "p = load32 (virt s) (pm_stack_pointer s - 4)"
    "s' = s\<lparr>pm_stack_pointer := pm_stack_pointer s - 4, pm_stack_mutex := 0,
       number_of_allocated_pages := number_of_allocated_pages s + 1\<rparr>"
    using assms(2) lock nonempty by (auto simp: pm_direct_alloc_page_def Let_def)
  note popped = pop_page [OF ok n, of s']
  have "stack_ok s'" "global_pages s = global_pages s' @ [p]"
    using popped s' by auto
  moreover have "local_pages s' = local_pages s" using s' by (simp add: local_pages_def)
  ultimately show ?thesis using assms(1) s' by (simp add: pm_wf_def free_pages_def)
qed

lemma direct_free:
  assumes "pm_wf s" "pm_direct_free_page p s = Some s'"
  shows "pm_wf s' \<and> free_pages s' = add_mset p (free_pages s)"
proof -
  have ok: "stack_ok s" and lock: "lock_mutex (pm_stack_mutex s) = Some 1"
    using assms(1) by (simp_all add: pm_wf_def)
  have room: "pm_stack_pointer s \<noteq> pm_stack_last_entry s"
    using assms(2) lock by (auto simp: pm_direct_free_page_def Let_def split: if_splits)
  have s': "s' = s\<lparr>virt := store32 (virt s) (pm_stack_pointer s) p,
      pm_stack_pointer := pm_stack_pointer s + 4, pm_stack_mutex := 0,
      number_of_allocated_pages := number_of_allocated_pages s - 1\<rparr>"
    using assms(2) lock room by (auto simp: pm_direct_free_page_def Let_def)
  have "stack_ok s'" "global_pages s' = global_pages s @ [p]"
    using push_page [OF ok room, of s' p] s' by auto
  moreover have "local_pages s' = local_pages s" using s' by (simp add: local_pages_def)
  ultimately show ?thesis using assms(1) s' by (simp add: pm_wf_def free_pages_def)
qed

interpretation direct_pages: page_source pm_direct_alloc_page pm_direct_free_page pm_wf free_pages
  by unfold_locales (fact direct_alloc, fact direct_free)

text \<open>
  The local pair. Moving pages between the two stacks keeps their union: \<open>moved\<close> is the part
  of the local array in use while \<open>index\<close> runs ahead of \<open>stack[0]\<close>.
\<close>

definition moved :: "u32 list \<Rightarrow> u32 \<Rightarrow> u32 list" where
  "moved stack index = take (unat index) (tl stack)"

lemma local_pages_moved: "local_pages s = moved (physical_pages_stack s) (physical_pages_stack s ! 0)"
  by (simp add: local_pages_def moved_def)

lemma unat_index: "unat (index :: u32) < 255 \<Longrightarrow> unat (index + 1) = Suc (unat index)"
  by (subst unat_add_small) auto

lemma moved_push:
  assumes "length stack = 256" "unat index < 255"
  shows "moved (stack[unat (index + 1) := page]) (index + 1) = moved stack index @ [page]"
proof -
  obtain x xs where "stack = x # xs" "length xs = 255" using assms(1) by (cases stack) auto
  then show ?thesis
    using assms(2) by (simp add: moved_def unat_index take_Suc_conv_app_nth)
qed

lemma moved_pop:
  assumes "length stack = 256" "0 < unat index" "unat index \<le> 255"
  shows "moved stack index = moved stack (index - 1) @ [stack ! unat index]"
proof -
  obtain x xs where st: "stack = x # xs" "length xs = 255" using assms(1) by (cases stack) auto
  have "unat (index - 1) = unat index - 1" using assms(2) by (subst unat_sub) (auto simp: word_le_nat_alt)
  moreover obtain k where "unat index = Suc k" using assms(2) by (cases "unat index") auto
  ultimately show ?thesis using assms(3) st by (simp add: moved_def take_Suc_conv_app_nth)
qed

lemma moved_count [simp]: "moved (stack[0 := c]) index = moved stack index"
  by (cases stack) (simp_all add: moved_def)

lemma load_pages_moves:
  assumes "stack_ok s" "length stack = 256" "unat index + i \<le> 255"
    and "load_pages i stack index s = (stack', index', s')"
  shows "stack_ok s' \<and> length stack' = 256 \<and> unat index \<le> unat index' \<and> unat index' \<le> unat index + i
    \<and> mset (moved stack' index') + mset (global_pages s') = mset (moved stack index) + mset (global_pages s)
    \<and> (0 < i \<and> pm_count s \<noteq> 0 \<longrightarrow> unat index < unat index')
    \<and> (\<exists>p. s' = s\<lparr>pm_stack_pointer := p\<rparr>)"
  using assms
proof (induction i arbitrary: stack index s)
  case 0
  then show ?case by (auto intro: exI [of _ "pm_stack_pointer s'"])
next
  case (Suc i)
  show ?case
  proof (cases "pm_stack_pointer s = VM_PHYSICAL_PAGES_STACK")
    case True
    then have "stack' = stack" "index' = index" "s' = s" "pm_count s = 0"
      using Suc.prems stack_ok_count_0 [of s] by auto
    then show ?thesis using Suc.prems by (auto intro: exI [of _ "pm_stack_pointer s'"])
  next
    case False
    then obtain n where n: "pm_count s = Suc n"
      using stack_ok_count_0 [OF Suc.prems(1)] by (cases "pm_count s") auto
    let ?s = "s\<lparr>pm_stack_pointer := pm_stack_pointer s - 4\<rparr>"
    let ?page = "load32 (virt s) (pm_stack_pointer ?s)"
    let ?stack = "stack[unat (index + 1) := ?page]"
    have up: "unat (index + 1) = Suc (unat index)" using Suc.prems(3) by (intro unat_index) simp
    note popped = pop_page [OF Suc.prems(1) n, of ?s]
    have "load_pages i ?stack (index + 1) ?s = (stack', index', s')"
      using Suc.prems(4) False by (simp add: Let_def)
    then have IH: "stack_ok s' \<and> length stack' = 256 \<and> unat (index + 1) \<le> unat index'
        \<and> unat index' \<le> unat (index + 1) + i
        \<and> mset (moved stack' index') + mset (global_pages s') = mset (moved ?stack (index + 1)) + mset (global_pages ?s)
        \<and> (\<exists>p. s' = ?s\<lparr>pm_stack_pointer := p\<rparr>)"
      using Suc.IH [of ?s ?stack "index + 1"] popped Suc.prems(2,3) up by auto
    have "moved ?stack (index + 1) = moved stack index @ [?page]"
      using Suc.prems(2,3) by (intro moved_push) auto
    moreover have "global_pages s = global_pages ?s @ [?page]" using popped by simp
    ultimately show ?thesis using IH up by auto
  qed
qed

lemma unload_pages_moves:
  assumes "stack_ok s" "length stack = 256" "i \<le> unat index" "unat index \<le> 255"
    and "unload_pages i stack index s = Some (index', s')"
  shows "stack_ok s' \<and> unat index' = unat index - i
    \<and> mset (moved stack index') + mset (global_pages s') = mset (moved stack index) + mset (global_pages s)
    \<and> (\<exists>p m. s' = s\<lparr>virt := m, pm_stack_pointer := p\<rparr>)"
  using assms
proof (induction i arbitrary: index s)
  case 0
  then show ?case by (cases s') auto
next
  case (Suc i)
  then have room: "pm_stack_pointer s \<noteq> pm_stack_last_entry s" by auto
  let ?page = "stack ! unat index"
  let ?s = "s\<lparr>virt := store32 (virt s) (pm_stack_pointer s) ?page, pm_stack_pointer := pm_stack_pointer s + 4\<rparr>"
  note pushed = push_page [OF Suc.prems(1) room, of ?s ?page]
  have down: "unat (index - 1) = unat index - 1"
    using Suc.prems(3) by (subst unat_sub) (auto simp: word_le_nat_alt)
  have "unload_pages i stack (index - 1) ?s = Some (index', s')"
    using Suc.prems(5) room by simp
  then have IH: "stack_ok s' \<and> unat index' = unat (index - 1) - i
    \<and> mset (moved stack index') + mset (global_pages s') = mset (moved stack (index - 1)) + mset (global_pages ?s)
    \<and> (\<exists>p m. s' = ?s\<lparr>virt := m, pm_stack_pointer := p\<rparr>)"
    using Suc.IH [of ?s "index - 1"] pushed Suc.prems(2,3,4) down by auto
  have "moved stack index = moved stack (index - 1) @ [?page]"
    using Suc.prems by (intro moved_pop) auto
  moreover have "global_pages ?s = global_pages s @ [?page]" using pushed by simp
  ultimately show ?case using IH down by auto
qed

lemma local_alloc:
  assumes "pm_wf s" "pm_local_alloc_page s = Some (p, s')"
  shows "pm_wf s' \<and> free_pages s = add_mset p (free_pages s')"
proof -
  let ?stack = "physical_pages_stack s"
  have ok: "stack_ok s" and lock: "lock_mutex (pm_stack_mutex s) = Some 1"
    and st: "length ?stack = 256" "?stack ! 0 \<le> 255"
    using assms(1) by (simp_all add: pm_wf_def)
  have finish: ?thesis
    if s1: "stack_ok s1" "pm_stack_mutex s1 = 0" and stack: "length stack = 256" "stack ! 0 = index"
      and index: "0 < unat index" "unat index \<le> 255"
      and sum: "mset (moved stack index) + mset (global_pages s1) = free_pages s"
      and p: "p = stack ! unat index"
      and s': "s' = s1\<lparr>physical_pages_stack := stack[0 := index - 1],
        number_of_allocated_pages := number_of_allocated_pages s1 + 1\<rparr>"
    for s1 stack index
  proof -
    have "unat (index - 1) = unat index - 1"
      using index by (subst unat_sub) (auto simp: word_le_nat_alt)
    then have "index - 1 \<le> 255" using index by (simp add: word_le_nat_alt)
    moreover have "stack_ok s'" "global_pages s' = global_pages s1"
      using s1 by (simp_all add: s' stack_ok_def pm_count_def global_pages_def)
    moreover have "local_pages s' = moved stack (index - 1)"
      using stack by (simp add: local_pages_moved s')
    moreover have "moved stack index = moved stack (index - 1) @ [p]"
      unfolding p by (rule moved_pop [OF stack(1) index])
    ultimately show ?thesis
      using stack s1 sum by (simp add: pm_wf_def free_pages_def s' ac_simps)
  qed
  show ?thesis
  proof (cases "?stack ! 0 = 0")
    case True
    let ?s0 = "s\<lparr>pm_stack_mutex := 1\<rparr>"
    obtain stack index s1 where load: "load_pages 64 ?stack 0 ?s0 = (stack, index, s1)"
      by (cases "load_pages 64 ?stack 0 ?s0") auto
    have nonempty: "pm_stack_pointer s \<noteq> VM_PHYSICAL_PAGES_STACK"
      using assms(2) lock True by (auto simp: pm_local_alloc_page_def Let_def split: if_splits)
    then have "pm_count s \<noteq> 0" using stack_ok_count_0 [OF ok] by simp
    moreover have "stack_ok ?s0" "global_pages ?s0 = global_pages s" "pm_count ?s0 = pm_count s"
      using ok by (simp_all add: stack_ok_def pm_count_def global_pages_def)
    ultimately have m: "stack_ok s1" "length stack = 256" "0 < unat index" "unat index \<le> 64"
        "mset (moved stack index) + mset (global_pages s1) = mset (moved ?stack 0) + mset (global_pages s)"
      using load_pages_moves [OF _ st(1) _ load] by auto
    have "p = stack[0 := index] ! unat index"
      "s' = s1\<lparr>pm_stack_mutex := 0, physical_pages_stack := stack[0 := index, 0 := index - 1],
        number_of_allocated_pages := number_of_allocated_pages s1 + 1\<rparr>"
      using assms(2) lock True nonempty load m(2) by (auto simp: pm_local_alloc_page_def Let_def)
    then show ?thesis
      using m True
      by (intro finish [of "s1\<lparr>pm_stack_mutex := 0\<rparr>" "stack[0 := index]" index])
        (auto simp: stack_ok_def pm_count_def global_pages_def free_pages_def local_pages_moved)
  next
    case False
    then have "p = ?stack ! unat (?stack ! 0)"
      "s' = s\<lparr>physical_pages_stack := ?stack[0 := ?stack ! 0 - 1],
        number_of_allocated_pages := number_of_allocated_pages s + 1\<rparr>"
      using assms(2) by (auto simp: pm_local_alloc_page_def Let_def)
    moreover have "unat (?stack ! 0) \<le> 255" using st(2) by (simp add: word_le_nat_alt)
    ultimately show ?thesis
      using False st ok assms(1)
      by (intro finish [of s ?stack "?stack ! 0"])
        (auto simp: pm_wf_def free_pages_def local_pages_moved unat_gt_0 ac_simps)
  qed
qed

lemma local_free:
  assumes "pm_wf s" "pm_local_free_page p s = Some s'"
  shows "pm_wf s' \<and> free_pages s' = add_mset p (free_pages s)"
proof -
  let ?stack = "physical_pages_stack s"
  have ok: "stack_ok s" and lock: "lock_mutex (pm_stack_mutex s) = Some 1"
    and st: "length ?stack = 256" "?stack ! 0 \<le> 255"
    using assms(1) by (simp_all add: pm_wf_def)
  have finish: ?thesis
    if s1: "stack_ok s1" "pm_stack_mutex s1 = 0" and stack: "length stack = 256" "stack ! 0 = index"
      and index: "unat index < 255"
      and sum: "mset (moved stack index) + mset (global_pages s1) = free_pages s"
      and s': "s' = s1\<lparr>physical_pages_stack := stack[unat (index + 1) := p, 0 := index + 1],
        number_of_allocated_pages := number_of_allocated_pages s1 - 1\<rparr>"
    for s1 stack index
  proof -
    have up: "unat (index + 1) = Suc (unat index)" by (rule unat_index [OF index])
    then have "index + 1 \<le> 255" using index by (simp add: word_le_nat_alt)
    moreover have "stack_ok s'" "global_pages s' = global_pages s1"
      using s1 by (simp_all add: s' stack_ok_def pm_count_def global_pages_def)
    moreover have "local_pages s' = moved stack index @ [p]"
      using stack moved_push [OF stack(1) index, of p] by (simp add: local_pages_moved s')
    ultimately show ?thesis
      using stack s1 sum by (simp add: pm_wf_def free_pages_def s' ac_simps)
  qed
  show ?thesis
  proof (cases "?stack ! 0 = 255")
    case True
    let ?s0 = "s\<lparr>pm_stack_mutex := 1\<rparr>"
    obtain index s1 where unload: "unload_pages 128 ?stack 255 ?s0 = Some (index, s1)"
      using assms(2) lock True by (auto simp: pm_local_free_page_def Let_def split: bind_splits)
    have "stack_ok ?s0" "global_pages ?s0 = global_pages s"
      using ok by (simp_all add: stack_ok_def pm_count_def global_pages_def)
    then have m: "stack_ok s1" "unat index = 127"
        "mset (moved ?stack index) + mset (global_pages s1) = mset (moved ?stack 255) + mset (global_pages s)"
      using unload_pages_moves [OF _ st(1) _ _ unload] by auto
    have index: "unat (index + 1) = 128" using m(2) by (subst unat_index) auto
    have "s' = s1\<lparr>pm_stack_mutex := 0, physical_pages_stack := ?stack[0 := index, 128 := p, 0 := index + 1],
        number_of_allocated_pages := number_of_allocated_pages s1 - 1\<rparr>"
      using assms(2) lock True unload st(1) index by (auto simp: pm_local_free_page_def Let_def)
    then show ?thesis
      using m True st index
      by (intro finish [of "s1\<lparr>pm_stack_mutex := 0\<rparr>" "?stack[0 := index]" index])
        (auto simp: stack_ok_def pm_count_def global_pages_def free_pages_def local_pages_moved)
  next
    case False
    then have lt: "unat (?stack ! 0) < 255"
      using st(2) by (auto simp: word_le_nat_alt word_unat_eq_iff)
    then have "s' = s\<lparr>physical_pages_stack := ?stack[unat (?stack ! 0 + 1) := p, 0 := ?stack ! 0 + 1],
        number_of_allocated_pages := number_of_allocated_pages s - 1\<rparr>"
      using assms(2) False unat_index [OF lt] by (auto simp: pm_local_free_page_def Let_def)
    then show ?thesis
      using lt st ok assms(1)
      by (intro finish [of s ?stack "?stack ! 0"])
        (auto simp: pm_wf_def free_pages_def local_pages_moved add.commute)
  qed
qed

interpretation local_pages: page_source pm_local_alloc_page pm_local_free_page pm_wf free_pages
  by unfold_locales (fact local_alloc, fact local_free)

interpretation current_pages: page_source pm_alloc_page pm_free_page pm_wf free_pages
proof
  fix s p s'
  assume "pm_wf s"
  then show "pm_alloc_page s = Some (p, s') \<Longrightarrow> pm_wf s' \<and> free_pages s = add_mset p (free_pages s')"
    using direct_alloc [of s p s'] local_alloc [of s p s'] by (cases "pm_functions s") (simp_all add: pm_alloc_page_def)
  show "pm_free_page p s = Some s' \<Longrightarrow> pm_wf s' \<and> free_pages s' = add_mset p (free_pages s)"
    using \<open>pm_wf s\<close> direct_free [of s p s'] local_free [of s p s']
    by (cases "pm_functions s") (simp_all add: pm_free_page_def)
qed

section \<open>Continuous memory\<close>

text \<open>
  The pointer comparisons are on addresses; \<open>number_of_pages * 4\<close> entries are 16 bytes a page. The
  code calls \<open>memcpy\<close> through a pointer to one of its implementations; the model calls
  \<open>memcpy_sse\<close>, and \<open>memcpy_implementations_agree\<close> of \<open>Libc_String\<close> shows that they
  copy alike where they are defined for the length.
\<close>

partial_function (option) continuous_run :: "mem \<Rightarrow> u32 \<Rightarrow> u32 \<Rightarrow> (u32 \<times> u32) option" where
  "continuous_run m start_pointer number_of_continuous_pages =
     (if VM_PHYSICAL_PAGES_STACK < start_pointer
         \<and> load32 m start_pointer + PAGE_SIZE = load32 m (start_pointer - 4)
      then continuous_run m (start_pointer - 4) (number_of_continuous_pages + 1)
      else Some (start_pointer, number_of_continuous_pages))"

partial_function (option) continuous_search :: "mem \<Rightarrow> u32 \<Rightarrow> u32 \<Rightarrow> (u32 \<times> u32) option option" where
  "continuous_search m number_of_pages start_pointer =
     (if VM_PHYSICAL_PAGES_STACK < start_pointer then do {
        let page = load32 m start_pointer;
        let block_in_stack_pointer = start_pointer + 4;
        (start_pointer, number_of_continuous_pages) \<leftarrow> continuous_run m start_pointer 1;
        if number_of_continuous_pages < number_of_pages
        then continuous_search m number_of_pages (start_pointer - 4)
        else Some (Some (page, block_in_stack_pointer))
      } else Some None)"

definition pm_alloc_continuous_memory :: "u32 \<Rightarrow> pm_state \<Rightarrow> (u32 \<times> pm_state) option" where
  "pm_alloc_continuous_memory sz s = do {
     let sz = (if PAGE_OFFSET_MASK sz \<noteq> 0 then PAGE_MASK sz + PAGE_SIZE else sz);
     let number_of_pages = drop_bit 12 sz;
     if pm_stack_pointer s - 4 * (number_of_pages * 4) < VM_PHYSICAL_PAGES_STACK then Some (0, s)
     else do {
       found \<leftarrow> continuous_search (virt s) number_of_pages (pm_stack_pointer s - 4);
       case found of None \<Rightarrow> Some (0, s)
       | Some (page, block_in_stack_pointer) \<Rightarrow> do {
           (_, m) \<leftarrow> memcpy_sse (virt s) (block_in_stack_pointer - number_of_pages * 4)
             block_in_stack_pointer (pm_stack_pointer s - block_in_stack_pointer);
           Some (page, s\<lparr>virt := m,
             pm_stack_pointer := pm_stack_pointer s - 4 * number_of_pages,
             number_of_allocated_pages := number_of_allocated_pages s + number_of_pages\<rparr>)
         }
     }
   }"

definition page_block :: "u32 \<Rightarrow> nat \<Rightarrow> u32 list" where
  "page_block page n = map (\<lambda>i. page + PAGE_SIZE * of_nat i) [0..<n]"

lemma slot_less: "i \<le> 1048576 \<Longrightarrow> j \<le> 1048576 \<Longrightarrow> slot i < slot j \<longleftrightarrow> i < j"
  by (simp add: word_less_nat_alt unat_slot)

lemma above_stack: "i \<le> 1048576 \<Longrightarrow> VM_PHYSICAL_PAGES_STACK < slot i \<longleftrightarrow> 0 < i"
  using slot_less [of 0 i] by (simp add: slot_0)

lemma below_stack: "\<not> VM_PHYSICAL_PAGES_STACK < slot 0 - 4"
  by (simp add: slot_def pm_constants)

text \<open>A run of pages, seen from its first page at the top of the stack downwards.\<close>

lemma continuous_run_slots:
  assumes "k \<le> 1048576"
  shows "\<exists>j \<le> k. continuous_run m (slot k) c = Some (slot j, c + of_nat (k - j))
    \<and> (\<forall>i. j \<le> i \<longrightarrow> i \<le> k \<longrightarrow> load32 m (slot i) = load32 m (slot k) + PAGE_SIZE * of_nat (k - i))
    \<and> (j = 0 \<or> load32 m (slot j) + PAGE_SIZE \<noteq> load32 m (slot (j - 1)))"
  using assms
proof (induction k arbitrary: c)
  case 0
  then show ?case by (subst continuous_run.simps) (simp add: above_stack)
next
  case (Suc k)
  show ?case
  proof (cases "load32 m (slot (Suc k)) + PAGE_SIZE = load32 m (slot k)")
    case True
    obtain j where j: "j \<le> k" "continuous_run m (slot k) (c + 1) = Some (slot j, c + 1 + of_nat (k - j))"
      "\<forall>i. j \<le> i \<longrightarrow> i \<le> k \<longrightarrow> load32 m (slot i) = load32 m (slot k) + PAGE_SIZE * of_nat (k - i)"
      "j = 0 \<or> load32 m (slot j) + PAGE_SIZE \<noteq> load32 m (slot (j - 1))"
      using Suc.IH [OF Suc_leD [OF Suc.prems], of "c + 1"] by blast
    have "continuous_run m (slot (Suc k)) c = Some (slot j, c + of_nat (Suc k - j))"
      using True j(1,2) Suc.prems
      by (subst continuous_run.simps) (simp add: above_stack slot_Suc Suc_diff_le)
    moreover have "load32 m (slot i) = load32 m (slot (Suc k)) + PAGE_SIZE * of_nat (Suc k - i)"
      if "j \<le> i" "i \<le> Suc k" for i
    proof (cases "i = Suc k")
      case False
      then have le: "i \<le> k" using that by simp
      have "load32 m (slot i) = load32 m (slot k) + PAGE_SIZE * of_nat (k - i)"
        using j(3) that(1) le by blast
      also have "\<dots> = load32 m (slot (Suc k)) + PAGE_SIZE + PAGE_SIZE * of_nat (k - i)"
        by (simp only: True)
      finally show ?thesis
        by (simp only: Suc_diff_le [OF le] of_nat_Suc distrib_left add.assoc mult_1_right)
    qed simp
    ultimately show ?thesis using le_SucI [OF j(1)] j(4) by blast
  next
    case False
    then have "continuous_run m (slot (Suc k)) c = Some (slot (Suc k), c)"
      by (subst continuous_run.simps) (simp add: slot_Suc)
    then show ?thesis using False by (intro exI [of _ "Suc k"]) auto
  qed
qed

lemma continuous_search_slots:
  assumes "k \<le> 1048576" "0 < unat number"
  shows "continuous_search m number (slot k) = Some None
    \<or> (\<exists>k' \<le> k. unat number \<le> Suc k'
        \<and> continuous_search m number (slot k) = Some (Some (load32 m (slot k'), slot (Suc k')))
        \<and> (\<forall>i < unat number. load32 m (slot (k' - i)) = load32 m (slot k') + PAGE_SIZE * of_nat i))"
  using assms(1)
proof (induction k rule: less_induct)
  case (less k)
  show ?case
  proof (cases "k = 0")
    case True
    then show ?thesis by (subst continuous_search.simps) (simp add: above_stack)
  next
    case False
    obtain j where j: "j \<le> k" "continuous_run m (slot k) 1 = Some (slot j, 1 + of_nat (k - j))"
      "\<And>i. j \<le> i \<Longrightarrow> i \<le> k \<Longrightarrow> load32 m (slot i) = load32 m (slot k) + PAGE_SIZE * of_nat (k - i)"
      using continuous_run_slots [OF less.prems, of m 1] by blast
    have c: "unat (1 + of_nat (k - j) :: u32) = Suc (k - j)"
      using less.prems unat_of_nat32 [of "Suc (k - j)"] by simp
    have unfold: "continuous_search m number (slot k) =
      (if 1 + of_nat (k - j) < number then continuous_search m number (slot j - 4)
       else Some (Some (load32 m (slot k), slot (Suc k))))"
      using False less.prems j(2) by (subst continuous_search.simps) (simp add: above_stack slot_Suc)
    show ?thesis
    proof (cases "1 + of_nat (k - j) < number")
      case True
      show ?thesis
      proof (cases j)
        case 0
        then have "continuous_search m number (slot j - 4) = Some None"
          using below_stack by (subst continuous_search.simps) simp
        with True unfold show ?thesis by simp
      next
        case (Suc j')
        then have eq: "continuous_search m number (slot k) = continuous_search m number (slot j')"
          using True unfold by (simp only: slot_Suc if_True)
        have j': "j' < k" "j' \<le> 1048576" using Suc j(1) less.prems by auto
        from less.IH [OF this] show ?thesis unfolding eq
        proof (elim disjE exE conjE)
          fix k' assume "k' \<le> j'"
          then have "k' \<le> k" using j'(1) by simp
          moreover assume "unat number \<le> Suc k'"
            "continuous_search m number (slot j') = Some (Some (load32 m (slot k'), slot (Suc k')))"
            "\<forall>i < unat number. load32 m (slot (k' - i)) = load32 m (slot k') + PAGE_SIZE * of_nat i"
          ultimately show "continuous_search m number (slot j') = Some None
            \<or> (\<exists>k' \<le> k. unat number \<le> Suc k'
              \<and> continuous_search m number (slot j') = Some (Some (load32 m (slot k'), slot (Suc k')))
              \<and> (\<forall>i < unat number. load32 m (slot (k' - i)) = load32 m (slot k') + PAGE_SIZE * of_nat i))"
            by blast
        qed simp
      qed
    next
      case False
      then have n: "unat number \<le> Suc (k - j)" using c by (simp add: word_less_nat_alt)
      have "load32 m (slot (k - i)) = load32 m (slot k) + PAGE_SIZE * of_nat i" if "i < unat number" for i
        using that n j(1) j(3) [of "k - i"] by auto
      with False unfold n show ?thesis by (intro disjI2 exI [of _ k]) auto
    qed
  qed
qed

text \<open>
  The search visits the top of every maximal run, so it misses no block; only the lowest entry is
  never the start of a run.
\<close>

lemma continuous_search_finds:
  assumes "k \<le> 1048576" "k' \<le> k" "unat number \<le> Suc k'" "2 \<le> unat number \<or> 0 < k"
    "\<And>i. i < unat number \<Longrightarrow> load32 m (slot (k' - i)) = load32 m (slot k') + PAGE_SIZE * of_nat i"
  shows "continuous_search m number (slot k) \<noteq> Some None"
  using assms(1,2,4)
proof (induction k rule: less_induct)
  case (less k)
  then have k: "0 < k" using assms(3) by auto
  obtain j where j: "j \<le> k" "continuous_run m (slot k) 1 = Some (slot j, 1 + of_nat (k - j))"
    "j = 0 \<or> load32 m (slot j) + PAGE_SIZE \<noteq> load32 m (slot (j - 1))"
    using continuous_run_slots [OF less.prems(1), of m 1] by blast
  have c: "unat (1 + of_nat (k - j) :: u32) = Suc (k - j)"
    using less.prems unat_of_nat32 [of "Suc (k - j)"] by simp
  have unfold: "continuous_search m number (slot k) =
    (if 1 + of_nat (k - j) < number then continuous_search m number (slot j - 4)
     else Some (Some (load32 m (slot k), slot (Suc k))))"
    using k less.prems j(2) by (subst continuous_search.simps) (simp add: above_stack slot_Suc)
  show ?case
  proof (cases "1 + of_nat (k - j) < number")
    case True
    then have n: "Suc (k - j) < unat number" using c by (simp add: word_less_nat_alt)
    have below: "k' < j"
    proof (rule ccontr)
      assume "\<not> k' < j"
      then have i: "k' - j < unat number" "k' - (j - 1) < unat number" "0 < j" "j \<le> k'"
        using n less.prems(2) j(1) assms(3) by auto
      then have "load32 m (slot j) = load32 m (slot k') + PAGE_SIZE * of_nat (k' - j)"
        "load32 m (slot (j - 1)) = load32 m (slot k') + PAGE_SIZE * of_nat (Suc (k' - j))"
        using assms(5) [OF i(1)] assms(5) [OF i(2)] by (auto simp: Suc_diff_le)
      then have "load32 m (slot (j - 1)) = load32 m (slot j) + PAGE_SIZE"
        by (simp only: of_nat_Suc distrib_left mult_1_right) (simp add: add.commute add.left_commute)
      then show False using j(3) i(3) by simp
    qed
    then obtain j' where j': "j = Suc j'" by (cases j) auto
    then have "continuous_search m number (slot j') \<noteq> Some None"
      using less.IH [of j'] below n j(1) less.prems(1) by auto
    then show ?thesis using True unfold j' by (simp only: slot_Suc if_True) simp
  next
    case False
    then show ?thesis using unfold by simp
  qed
qed

text \<open>The test for enough pages counts every page four times.\<close>

lemma enough_pages:
  assumes "c \<le> 1048576" "unat number < 1048576"
  shows "slot c - 4 * (number * 4) < VM_PHYSICAL_PAGES_STACK \<longleftrightarrow> c < 4 * unat number"
proof -
  have four: "unat (number * 4) = 4 * unat number" using assms(2) by (subst unat_mult_small) simp_all
  have n: "unat (4 * (number * 4)) = 16 * unat number"
    using assms(2) by (subst unat_mult_small) (simp_all add: four)
  have "4 * (number * 4) \<le> slot c" using assms unfolding word_le_nat_alt n unat_slot [OF assms(1)] by simp
  then have "unat (slot c - 4 * (number * 4)) = 4286578688 + 4 * c - 16 * unat number"
    using assms(1) by (simp only: unat_sub n unat_slot)
  then show ?thesis using assms by (simp add: word_less_nat_alt pm_constants) linarith
qed

lemma load32_mem_copy:
  assumes "unat off + 4 \<le> unat len"
  shows "load32 (mem_copy m dst src len) (dst + off) = load32 m (src + off)"
proof -
  have "unat (off + 1) = unat off + 1" "unat (off + 2) = unat off + 2" "unat (off + 3) = unat off + 3"
    using assms unat_le_4G [of len] by (auto intro!: unat_add_small [THEN trans])
  then have "off < len" "off + 1 < len" "off + 2 < len" "off + 3 < len"
    using assms by (simp_all add: word_less_nat_alt)
  then show ?thesis by (simp add: load32_def add.assoc mem_copy_inside)
qed

lemma slots_eqI:
  assumes "length xs = n" "\<And>i. i < n \<Longrightarrow> load32 m (slot i) = xs ! i"
  shows "slots m n = xs"
  using assms by (intro nth_equalityI) (simp_all add: slots_def)

lemma nth_slots: "i < n \<Longrightarrow> slots m n ! i = load32 m (slot i)"
  by (simp add: slots_def)

lemma slot_offset: "slot (i + j) = slot i + 4 * of_nat j"
  by (simp add: slot_def algebra_simps)

text \<open>Closing the gap: the entries behind the block slide down over it.\<close>

lemma slots_close_gap:
  assumes "b + n \<le> c" "c \<le> 1048576"
  shows "slots (mem_copy m (slot b) (slot (b + n)) (slot c - slot (b + n))) (c - n)
    = take b (slots m c) @ drop (b + n) (slots m c)"
proof (rule slots_eqI)
  let ?len = "slot c - slot (b + n)"
  have le: "slot (b + n) \<le> slot c" using assms by (simp add: word_le_nat_alt unat_slot)
  have len: "unat ?len = 4 * (c - (b + n))"
    using assms by (subst unat_sub [OF le]) (simp add: unat_slot)
  show "length (take b (slots m c) @ drop (b + n) (slots m c)) = c - n" using assms by simp
  fix i assume i: "i < c - n"
  show "load32 (mem_copy m (slot b) (slot (b + n)) ?len) (slot i)
      = (take b (slots m c) @ drop (b + n) (slots m c)) ! i"
  proof (cases "i < b")
    case True
    have "apart (slot i) 4 (slot b) ?len"
      using True assms by (intro apart_belowI) (simp_all add: unat_slot len)
    then have "load32 (mem_copy m (slot b) (slot (b + n)) ?len) (slot i) = load32 m (slot i)"
      by (intro load32_cong mem_copy_outside) (auto dest: apartD apart_sym)
    then show ?thesis using True assms i by (simp add: nth_append nth_slots)
  next
    case False
    then obtain d where d: "i = b + d" using le_Suc_ex not_less by blast
    then have "unat (4 * of_nat d :: u32) = 4 * d"
      using i assms unat_of_nat32 [of d] by (subst unat_mult_small) auto
    then have "load32 (mem_copy m (slot b) (slot (b + n)) ?len) (slot b + 4 * of_nat d)
        = load32 m (slot (b + n) + 4 * of_nat d)"
      using i d assms len by (intro load32_mem_copy) simp
    then have "load32 (mem_copy m (slot b) (slot (b + n)) ?len) (slot i) = load32 m (slot (b + n + d))"
      by (simp only: d slot_offset)
    then show ?thesis using d i assms by (simp add: nth_append nth_slots)
  qed
qed

lemma rev_page_block:
  assumes "k' < c" "n \<le> Suc k'"
    and "\<And>i. i < n \<Longrightarrow> load32 m (slot (k' - i)) = page + PAGE_SIZE * of_nat i"
  shows "drop (Suc k' - n) (take (Suc k') (slots m c)) = rev (page_block page n)"
proof (rule nth_equalityI)
  show "length (drop (Suc k' - n) (take (Suc k') (slots m c))) = length (rev (page_block page n))"
    using assms by (simp add: page_block_def)
  fix i assume "i < length (drop (Suc k' - n) (take (Suc k') (slots m c)))"
  then have i: "i < n" using assms by simp
  then have "Suc k' - n + i = k' - (n - 1 - i)" using assms(2) by simp
  then show "drop (Suc k' - n) (take (Suc k') (slots m c)) ! i = rev (page_block page n) ! i"
    using assms(1,2) assms(3) [of "n - 1 - i"] i by (simp add: page_block_def rev_nth nth_slots)
qed

lemma split_block: "xs = take (b - n) xs @ drop (b - n) (take b xs) @ drop b xs"
proof -
  have "take (b - n) (take b xs) = take (b - n) xs" by simp
  then have "take b xs = take (b - n) xs @ drop (b - n) (take b xs)"
    using append_take_drop_id [of "b - n" "take b xs"] by simp
  then show ?thesis using append_take_drop_id [of b xs] by (metis append_assoc)
qed

definition rounded_pages :: "u32 \<Rightarrow> u32" where
  "rounded_pages sz = drop_bit 12 (if PAGE_OFFSET_MASK sz \<noteq> 0 then PAGE_MASK sz + PAGE_SIZE else sz)"

lemma rounded_pages_less: "unat (rounded_pages sz) < 1048576"
proof -
  have "unat (drop_bit 12 w) < 1048576" for w :: u32
  proof -
    have "unat (drop_bit 12 w) = drop_bit 12 (unat w)" by (rule unat_drop_bit_eq)
    also have "\<dots> = unat w div 4096" by (simp add: drop_bit_eq_div)
    finally show ?thesis using unsigned_less [of w, where ?'a = nat] by (simp add: less_mult_imp_div_less)
  qed
  then show ?thesis by (simp only: rounded_pages_def)
qed

lemma slot_minus: "n \<le> b \<Longrightarrow> unat number = n \<Longrightarrow> slot b - 4 * number = slot (b - n)"
  using slot_offset [of "b - n" n] by (auto simp: algebra_simps)

text \<open>
  The taken block is removed from the stack and the rest of the stack is kept in order.
\<close>

lemma continuous_alloc:
  assumes ok: "stack_ok s" and n: "0 < unat (rounded_pages sz)"
  shows "if 4 * unat (rounded_pages sz) \<le> length (global_pages s)
      \<and> (\<exists>as page bs. global_pages s = as @ rev (page_block page (unat (rounded_pages sz))) @ bs)
    then \<exists>as page bs s'. pm_alloc_continuous_memory sz s = Some (page, s') \<and> stack_ok s'
        \<and> global_pages s = as @ rev (page_block page (unat (rounded_pages sz))) @ bs \<and> global_pages s' = as @ bs
        \<and> pm_stack_last_entry s' = pm_stack_last_entry s
        \<and> number_of_allocated_pages s' = number_of_allocated_pages s + rounded_pages sz
    else pm_alloc_continuous_memory sz s = Some (0, s)"
proof -
  define number where "number = rounded_pages sz"
  let ?n = "unat number" and ?c = "pm_count s"
  have sp: "pm_stack_pointer s = slot ?c" "?c \<le> 1048576" using ok by (simp_all add: stack_ok_def)
  have few: "slot ?c - 4 * (number * 4) < VM_PHYSICAL_PAGES_STACK \<longleftrightarrow> ?c < 4 * ?n"
    using enough_pages [OF sp(2), of number] rounded_pages_less [of sz] by (simp only: number_def)
  have unfold: "pm_alloc_continuous_memory sz s =
    (if ?c < 4 * ?n then Some (0, s)
     else do {
       found \<leftarrow> continuous_search (virt s) number (slot ?c - 4);
       case found of None \<Rightarrow> Some (0, s)
       | Some (page, block) \<Rightarrow> do {
           (_, m) \<leftarrow> memcpy_sse (virt s) (block - number * 4) block (slot ?c - block);
           Some (page, s\<lparr>virt := m, pm_stack_pointer := slot ?c - 4 * number,
             number_of_allocated_pages := number_of_allocated_pages s + number\<rparr>)
         }
     })"
    unfolding few [symmetric] by (simp add: pm_alloc_continuous_memory_def number_def rounded_pages_def sp(1) Let_def)
  have len_pages: "length (global_pages s) = ?c" by (simp add: global_pages_def slots_def)
  show ?thesis
  proof (cases "?c < 4 * ?n \<or> continuous_search (virt s) number (slot ?c - 4) = Some None")
    case True
    have "\<not> (\<exists>as page bs. global_pages s = as @ rev (page_block page ?n) @ bs)" if enough: "\<not> ?c < 4 * ?n"
    proof
      assume "\<exists>as page bs. global_pages s = as @ rev (page_block page ?n) @ bs"
      then obtain as page bs where g: "global_pages s = as @ rev (page_block page ?n) @ bs" by blast
      obtain c where c: "?c = Suc c" using enough n by (cases ?c) (auto simp: number_def)
      have blk: "length as + ?n \<le> ?c" using len_pages g by (simp add: page_block_def)
      have entry: "load32 (virt s) (slot (length as + ?n - 1 - i)) = page + PAGE_SIZE * of_nat i" if "i < ?n" for i
      proof -
        have "global_pages s ! (length as + (?n - 1 - i)) = (rev (page_block page ?n) @ bs) ! (?n - 1 - i)"
          by (simp only: g nth_append_length_plus)
        also have "\<dots> = rev (page_block page ?n) ! (?n - 1 - i)" using that by (simp add: nth_append page_block_def)
        finally have "global_pages s ! (length as + (?n - 1 - i)) = rev (page_block page ?n) ! (?n - 1 - i)" .
        then show ?thesis using that blk by (simp add: global_pages_def nth_slots rev_nth page_block_def)
      qed
      have "continuous_search (virt s) number (slot c) \<noteq> Some None"
      proof (rule continuous_search_finds [of _ "length as + ?n - 1"])
        show "c \<le> 1048576" "length as + ?n - 1 \<le> c" "?n \<le> Suc (length as + ?n - 1)" using sp(2) c blk by simp_all
        show "2 \<le> ?n \<or> 0 < c" using enough c n by (auto simp: number_def)
        show "load32 (virt s) (slot (length as + ?n - 1 - i)) = load32 (virt s) (slot (length as + ?n - 1)) + PAGE_SIZE * of_nat i"
          if "i < ?n" for i using entry [OF that] entry [of 0] that by simp
      qed
      then show False using True enough c by (simp add: slot_Suc)
    qed
    moreover have "pm_alloc_continuous_memory sz s = Some (0, s)" using True unfolding unfold by auto
    ultimately show ?thesis using len_pages by (auto simp: number_def)
  next
    case False
    then obtain c where c: "?c = Suc c" using n by (cases ?c) (auto simp: number_def)
    then have "slot ?c - 4 = slot c" by (simp add: slot_Suc)
    then obtain k where k: "k \<le> c" "?n \<le> Suc k"
      "continuous_search (virt s) number (slot ?c - 4) = Some (Some (load32 (virt s) (slot k), slot (Suc k)))"
      "\<And>i. i < ?n \<Longrightarrow> load32 (virt s) (slot (k - i)) = load32 (virt s) (slot k) + PAGE_SIZE * of_nat i"
      using continuous_search_slots [of c number "virt s"] False sp(2) c n number_def by auto
    let ?page = "load32 (virt s) (slot k)" and ?b = "Suc k - ?n"
    have b: "?b + ?n = Suc k" "Suc k \<le> ?c" using k c by auto
    have dst: "slot (Suc k) - number * 4 = slot ?b"
      using slot_minus [of ?n "Suc k" number] k(2) by (simp add: mult.commute)
    have le: "slot (Suc k) \<le> slot ?c" "slot ?b \<le> slot (Suc k)"
      using b sp(2) by (simp_all add: word_le_nat_alt unat_slot)
    then have len: "unat (slot ?c - slot (Suc k)) = 4 * (?c - Suc k)"
      using b sp(2) by (simp add: unat_sub unat_slot)
    define m where "m = mem_copy (virt s) (slot ?b) (slot (?b + ?n)) (slot ?c - slot (?b + ?n))"
    have "copy_ok (slot ?b) (slot (Suc k)) (slot ?c - slot (Suc k))"
    proof -
      obtain d where d: "?c = Suc k + d" using b(2) le_Suc_ex by blast
      have "unat (slot (Suc k)) = 4286578688 + 4 * Suc k" "unat (slot ?b) = 4286578688 + 4 * ?b"
        using b sp(2) by (intro unat_slot; linarith)+
      moreover have "unat (slot ?c - slot (Suc k)) = 4 * d" using len d by simp
      moreover have "x + y \<le> 4294967296"
        if "x = 4286578688 + 4 * u" "y = 4 * d" "u + d \<le> 1048576" for x y u :: nat
        using that by simp
      moreover have "Suc k + d \<le> 1048576" "?b + d \<le> 1048576" using sp(2) d b by simp_all
      ultimately show ?thesis unfolding copy_ok_def using le(2) by blast
    qed
    then have "memcpy_sse (virt s) (slot ?b) (slot (Suc k)) (slot ?c - slot (Suc k)) = Some (slot ?b, m)"
      by (simp add: memcpy_sse_eq m_def b(1))
    moreover define s' where "s' = s\<lparr>virt := m, pm_stack_pointer := slot (?c - ?n),
        number_of_allocated_pages := number_of_allocated_pages s + number\<rparr>"
    moreover have "slot ?c - 4 * number = slot (?c - ?n)" using b by (intro slot_minus) auto
    ultimately have run: "pm_alloc_continuous_memory sz s = Some (?page, s')"
      using False k(3) unfolding unfold by (simp add: dst)
    have count: "pm_count s' = ?c - ?n"
      using sp(2) by (intro pm_count_slot) (simp_all add: s'_def)
    have split: "slots (virt s) ?c = take ?b (slots (virt s) ?c)
        @ drop ?b (take (Suc k) (slots (virt s) ?c)) @ drop (Suc k) (slots (virt s) ?c)"
      by (rule split_block)
    also have "drop ?b (take (Suc k) (slots (virt s) ?c)) = rev (page_block ?page ?n)"
      using b(2) k(2,4) by (intro rev_page_block) auto
    finally have before: "global_pages s = take ?b (slots (virt s) ?c) @ rev (page_block ?page ?n) @ drop (Suc k) (slots (virt s) ?c)"
      unfolding global_pages_def .
    have "virt s' = m" by (simp add: s'_def)
    then have after: "global_pages s' = take ?b (slots (virt s) ?c) @ drop (Suc k) (slots (virt s) ?c)"
      using slots_close_gap [of ?b ?n ?c "virt s"] b sp(2)
      by (simp add: global_pages_def count m_def)
    have "pm_stack_pointer s' = slot (?c - ?n)" "pm_stack_last_entry s' = pm_stack_last_entry s"
      by (simp_all add: s'_def)
    then have "stack_ok s'" using ok count by (auto simp: stack_ok_def)
    moreover have "4 * ?n \<le> length (global_pages s)" using False len_pages by simp
    moreover have "number_of_allocated_pages s' = number_of_allocated_pages s + number" "pm_stack_last_entry s' = pm_stack_last_entry s"
      by (simp_all add: s'_def)
    ultimately show ?thesis using run before after unfolding number_def by metis
  qed
qed

section \<open>Initialization\<close>

text \<open>
  The kernel's page tables and the tables of the stack: each gets a page of its own from the
  bump allocator. The loop counters run over 254 directory entries and over the number of
  pages the stack needs.
\<close>

fun map_tables :: "nat \<Rightarrow> u32 \<Rightarrow> u32 \<Rightarrow> pm_state \<Rightarrow> pm_state option" where
  "map_tables 0 entry flags s = Some s"
| "map_tables (Suc n) entry flags s = do {
     (page, s) \<leftarrow> pm_bump_alloc PAGE_SIZE s;
     map_tables n (entry + 4) flags (s\<lparr>virt := store32 (virt s) entry (page OR flags)\<rparr>)
   }"

definition count_free_memory :: "map_entry list \<Rightarrow> u32" where
  "count_free_memory es = fold (\<lambda>e free_memory. free_memory + PAGE_MASK (memory_size e)) es 0"

text \<open>
  Filling the stack. A batch of pages is mapped into the window at \<open>VM_FOR_CLEARING_MEMORY\<close>,
  page \<open>j\<close> through the table entry \<open>j\<close>, and pushed; the \<open>memset\<close> over the window clears the
  physical pages the entries name.
\<close>

definition window_entry :: "nat \<Rightarrow> u32" where
  "window_entry j = VM_PAGE_TABLES + drop_bit 12 VM_FOR_CLEARING_MEMORY * 4 + 4 * of_nat j"

fun push_pages :: "nat \<Rightarrow> nat \<Rightarrow> u32 \<Rightarrow> pm_state \<Rightarrow> pm_state" where
  "push_pages 0 j pm_page s = s"
| "push_pages (Suc n) j pm_page s =
     (let s = s\<lparr>virt := store32 (virt s) (window_entry j) (pm_page OR VM_KERNEL)\<rparr>;
          s = s\<lparr>virt := store32 (virt s) (pm_stack_pointer s) pm_page,
                pm_stack_pointer := pm_stack_pointer s + 4\<rparr>;
          s = s\<lparr>number_of_all_pages := number_of_all_pages s + 1\<rparr>
      in push_pages n (j + 1) (pm_page + PAGE_SIZE) s)"

definition clear_window :: "nat \<Rightarrow> pm_state \<Rightarrow> pm_state" where
  "clear_window n s = s\<lparr>phys := fold (\<lambda>j m. mem_fill m (PAGE_MASK (load32 (virt s) (window_entry j))) 0 PAGE_SIZE)
     [0..<n] (phys s)\<rparr>"

partial_function (option) fill_entry :: "map_entry \<Rightarrow> pm_state \<Rightarrow> (map_entry \<times> pm_state) option" where
  "fill_entry e s =
     (if 0 < memory_size e then
        let number_of_pages = memory_size e div PAGE_SIZE;
            number_of_pages = (if 1024 * 253 < number_of_pages then 1024 * 253 else number_of_pages);
            s = push_pages (unat number_of_pages) 0 (memory_start e) s;
            s = clear_window (unat number_of_pages) s
        in fill_entry (e\<lparr>memory_start := memory_start e + number_of_pages * PAGE_SIZE,
                         memory_size := memory_size e - number_of_pages * PAGE_SIZE\<rparr>) s
      else Some (e, s))"

fun fill_stack :: "map_entry list \<Rightarrow> pm_state \<Rightarrow> (map_entry list \<times> pm_state) option" where
  "fill_stack [] s = Some ([], s)"
| "fill_stack (e # es) s = do {
     (e, s) \<leftarrow> fill_entry e s;
     (es, s) \<leftarrow> fill_stack es s;
     Some (e # es, s)
   }"

definition initialize_physical_memory :: "pm_state \<Rightarrow> pm_state option" where
  "initialize_physical_memory s = do {
     let s = s\<lparr>free_map := map align_entry (free_map s)\<rparr>;
     s \<leftarrow> map_tables 254 (VM_PAGE_DIRECTORY + 769 * 4) VM_KERNEL s;
     let s = s\<lparr>virt := memset (virt s) (VM_PAGE_TABLES + 0xC0400 * 4) 0 (254 * PAGE_SIZE)\<rparr>;
     let free_memory = count_free_memory (free_map s);
     let pm_stack_number_of_entries = drop_bit 12 free_memory;
     let pm_stack_number_of_vm_pages = (pm_stack_number_of_entries + 1024 - 1) div 1024;
     s \<leftarrow> map_tables (unat pm_stack_number_of_vm_pages) (VM_PAGE_TABLES + 0xFF800 * 4)
       (VM_KERNEL OR VM_FLAG_GLOBAL) s;
     let s = s\<lparr>pm_stack_pointer := VM_PHYSICAL_PAGES_STACK\<rparr>;
     (es, s) \<leftarrow> fill_stack (free_map s) s;
     let s = s\<lparr>free_map := es\<rparr>;
     let s = s\<lparr>virt := memset (virt s) (VM_PAGE_TABLES + 0xC0400 * 4) 0 (253 * PAGE_SIZE)\<rparr>;
     let s = s\<lparr>pm_stack_last_entry := pm_stack_pointer s\<rparr>;
     Some (s\<lparr>pm_functions := Direct_functions\<rparr>)
   }"

lemma unat_window: "j \<le> 259072 \<Longrightarrow> unat (window_entry j) = 4293922816 + 4 * j"
proof -
  assume j: "j \<le> 259072"
  then have "unat (of_nat j :: u32) = j" by (intro unat_of_nat32) simp
  then have "unat (4 * of_nat j :: u32) = 4 * j" using j by (subst unat_mult_small) auto
  moreover have "VM_PAGE_TABLES + drop_bit 12 VM_FOR_CLEARING_MEMORY * 4 = 0xFFF01000"
    by (simp add: pm_constants drop_bit_eq_div)
  ultimately show ?thesis using j by (simp add: window_entry_def unat_add_small)
qed

lemma load32_window:
  assumes "i < 259072" "j < 259072"
  shows "load32 (store32 m (window_entry i) w) (window_entry j) = (if i = j then w else load32 m (window_entry j))"
proof (cases "i = j")
  case False
  then have "apart (window_entry i) 4 (window_entry j) 4"
  proof (cases "i < j")
    case True
    then show ?thesis using assms by (intro apart_belowI) (auto simp: unat_window)
  next
    case False
    then show ?thesis using assms \<open>i \<noteq> j\<close> by (intro apart_aboveI) (auto simp: unat_window)
  qed
  with False show ?thesis by (simp add: mem_simps)
qed (simp add: mem_simps)

lemma slot_window_apart:
  assumes "i < 1048576" "j < 259072"
  shows "load32 (store32 m (slot i) w) (window_entry j) = load32 m (window_entry j)"
    "load32 (store32 m (window_entry j) w) (slot i) = load32 m (slot i)"
proof -
  have "apart (slot i) 4 (window_entry j) 4"
    using assms by (intro apart_belowI) (auto simp: unat_window unat_slot)
  then show "load32 (store32 m (slot i) w) (window_entry j) = load32 m (window_entry j)"
    "load32 (store32 m (window_entry j) w) (slot i) = load32 m (slot i)"
    by (auto simp: mem_simps dest: apart_sym)
qed

lemma slots_window: "n \<le> 1048576 \<Longrightarrow> j < 259072 \<Longrightarrow> slots (store32 m (window_entry j) w) n = slots m n"
  by (simp add: slots_def slot_window_apart)

lemma page_block_Suc: "page_block p (Suc n) = p # page_block (p + PAGE_SIZE) n"
  by (simp add: page_block_def upt_conv_Cons map_Suc_upt [symmetric] algebra_simps del: upt_Suc)

text \<open>A batch: the pages are pushed in order, and the window maps exactly them.\<close>

lemma push_pages_batch:
  assumes "c + n \<le> 1048576" "pm_stack_pointer s = slot c" "j + n \<le> 259072"
  shows "let s' = push_pages n j p s in
      slots (virt s') (c + n) = slots (virt s) c @ page_block p n
      \<and> pm_stack_pointer s' = slot (c + n)
      \<and> number_of_all_pages s' = number_of_all_pages s + of_nat n
      \<and> (\<forall>i < j + n. load32 (virt s') (window_entry i) =
        (if i < j then load32 (virt s) (window_entry i) else (p + PAGE_SIZE * of_nat (i - j)) OR VM_KERNEL))
      \<and> phys s' = phys s \<and> free_map s' = free_map s"
  using assms
proof (induction n arbitrary: c j p s)
  case 0
  then show ?case by (simp add: page_block_def)
next
  case (Suc n)
  let ?m = "store32 (store32 (virt s) (window_entry j) (p OR VM_KERNEL)) (slot c) p"
  let ?s = "s\<lparr>virt := ?m, pm_stack_pointer := slot (Suc c), number_of_all_pages := number_of_all_pages s + 1\<rparr>"
  have step: "push_pages (Suc n) j p s = push_pages n (Suc j) (p + PAGE_SIZE) ?s"
    using Suc.prems(2) by (simp add: Let_def slot_Suc)
  have top: "slots ?m (Suc c) = slots (virt s) c @ [p]"
    using Suc.prems by (subst slots_push) (simp_all add: slots_window)
  have window: "load32 ?m (window_entry i) = (if i = j then p OR VM_KERNEL else load32 (virt s) (window_entry i))"
    if "i < 259072" for i
    using that Suc.prems by (simp add: slot_window_apart load32_window)
  obtain s' where s': "s' = push_pages n (Suc j) (p + PAGE_SIZE) ?s" by blast
  have IH: "slots (virt s') (Suc c + n) = slots ?m (Suc c) @ page_block (p + PAGE_SIZE) n"
    "pm_stack_pointer s' = slot (Suc c + n)"
    "number_of_all_pages s' = number_of_all_pages s + 1 + of_nat n"
    "\<forall>i < Suc j + n. load32 (virt s') (window_entry i) =
      (if i < Suc j then load32 ?m (window_entry i) else (p + PAGE_SIZE + PAGE_SIZE * of_nat (i - Suc j)) OR VM_KERNEL)"
    "phys s' = phys s" "free_map s' = free_map s"
    using Suc.IH [of "Suc c" ?s "Suc j" "p + PAGE_SIZE"] Suc.prems by (simp_all add: Let_def s')
  have "load32 (virt s') (window_entry i) =
      (if i < j then load32 (virt s) (window_entry i) else (p + PAGE_SIZE * of_nat (i - j)) OR VM_KERNEL)"
    if i: "i < j + Suc n" for i
  proof (cases "i < Suc j")
    case True
    then show ?thesis using IH(4) i window [of i] Suc.prems(3) by auto
  next
    case False
    then have "i - j = Suc (i - Suc j)" by simp
    then show ?thesis using IH(4) i False by (simp add: algebra_simps)
  qed
  then show ?case
    unfolding step s' [symmetric] Let_def using IH(1-3,5,6) top by (simp add: page_block_Suc)
qed

lemma offset_mask_mod: "PAGE_OFFSET_MASK x = x mod 0x1000"
proof -
  have "(0xFFF :: u32) = mask 12" by (simp add: mask_eq_exp_minus_1)
  then have "PAGE_OFFSET_MASK x = take_bit 12 x" by (simp add: PAGE_OFFSET_MASK_def take_bit_eq_mask)
  then show ?thesis by (simp add: take_bit_eq_mod)
qed

lemma offset_mask_unat: "PAGE_OFFSET_MASK x = 0 \<longleftrightarrow> unat x mod 4096 = 0"
  by (simp add: offset_mask_mod word_unat_eq_iff unat_mod_distrib)

lemma mask_of_aligned: "PAGE_OFFSET_MASK p = 0 \<Longrightarrow> PAGE_MASK p = p"
proof -
  assume "PAGE_OFFSET_MASK p = 0"
  moreover have "PAGE_MASK p OR PAGE_OFFSET_MASK p = p AND (0xFFFFF000 OR 0xFFF)"
    by (simp only: PAGE_MASK_def PAGE_OFFSET_MASK_def bit.conj_disj_distrib)
  moreover have "(0xFFFFF000 OR 0xFFF :: u32) = - 1" by simp
  ultimately show ?thesis by (simp only: and.right_neutral or.right_neutral)
qed

lemma mask_of_entry: "PAGE_OFFSET_MASK p = 0 \<Longrightarrow> PAGE_MASK (p OR VM_KERNEL) = p"
  using mask_of_aligned [of p] by (simp add: PAGE_MASK_def VM_KERNEL_def bit.conj_disj_distrib2)

lemma aligned_add:
  "PAGE_OFFSET_MASK p = 0 \<Longrightarrow> PAGE_OFFSET_MASK (p + PAGE_SIZE * k) = 0"
proof -
  assume "PAGE_OFFSET_MASK p = 0"
  then have p: "unat p mod 4096 = 0" by (simp only: offset_mask_unat)
  have "unat (p + PAGE_SIZE * k) mod 4096 = (unat p + (4096 * unat k) mod 4294967296) mod 4096"
    by (simp add: unat_word_ariths PAGE_SIZE_def mod_mod_cancel)
  also have "\<dots> = (unat p mod 4096 + ((4096 * unat k) mod 4294967296) mod 4096) mod 4096"
    by (simp only: mod_add_eq)
  also have "\<dots> = 0" by (simp add: p mod_mod_cancel)
  finally show ?thesis by (simp only: offset_mask_unat)
qed

lemma fold_fill: "fold (\<lambda>j m. mem_fill m (f j) v k) js m a = (if \<exists>j \<in> set js. inside (f j) k a then v else m a)"
  by (induction js arbitrary: m) (auto simp: mem_fill_def)

definition in_pages :: "u32 \<Rightarrow> nat \<Rightarrow> u32 \<Rightarrow> bool" where
  "in_pages p n a \<longleftrightarrow> (\<exists>q \<in> set (page_block p n). inside q PAGE_SIZE a)"

lemma page_block_add: "page_block p (m + n) = page_block p m @ page_block (p + PAGE_SIZE * of_nat m) n"
proof -
  have "[0..<m + n] = [0..<m] @ map (\<lambda>i. m + i) [0..<n]"
    by (simp add: upt_add_eq_append [of 0 m n] map_add_upt add.commute)
  then show ?thesis by (simp add: page_block_def algebra_simps)
qed

lemma in_pages_add: "in_pages p (m + n) a \<longleftrightarrow> in_pages p m a \<or> in_pages (p + PAGE_SIZE * of_nat m) n a"
  by (auto simp: in_pages_def page_block_add)

lemma batch_cleared:
  assumes "c + n \<le> 1048576" "pm_stack_pointer s = slot c" "n \<le> 259072" "PAGE_OFFSET_MASK p = 0"
  shows "phys (clear_window n (push_pages n 0 p s)) a = (if in_pages p n a then 0 else phys s a)"
proof -
  let ?s = "push_pages n 0 p s"
  have batch: "\<forall>i < n. load32 (virt ?s) (window_entry i) = (p + PAGE_SIZE * of_nat i) OR VM_KERNEL"
    "phys ?s = phys s"
    using push_pages_batch [OF assms(1,2), of 0 p] assms(3) by (simp_all add: Let_def)
  have "PAGE_MASK (load32 (virt ?s) (window_entry i)) = p + PAGE_SIZE * of_nat i" if "i < n" for i
    using batch(1) that mask_of_entry [OF aligned_add [OF assms(4)]] by simp
  then show ?thesis
    by (auto simp: clear_window_def fold_fill batch(2) in_pages_def page_block_def)
qed

definition page_run_entry :: "map_entry \<Rightarrow> nat \<Rightarrow> bool" where
  "page_run_entry e n \<longleftrightarrow> PAGE_OFFSET_MASK (memory_start e) = 0 \<and> unat (memory_size e) = 4096 * n"

text \<open>
  One batch of an entry of \<open>n\<close> pages: what remains is an entry of the pages behind the batch.
\<close>

lemma entry_batch:
  fixes e :: map_entry
  assumes "page_run_entry e n" "0 < n"
  defines "k \<equiv> memory_size e div PAGE_SIZE"
  defines "b \<equiv> (if 1024 * 253 < k then 1024 * 253 else k)"
  shows "unat b = min n 259072" "0 < memory_size e"
    and "page_run_entry (e\<lparr>memory_start := memory_start e + b * PAGE_SIZE,
        memory_size := memory_size e - b * PAGE_SIZE\<rparr>) (n - min n 259072)"
proof -
  have sz: "unat (memory_size e) = 4096 * n" "4096 * n < 4294967296"
    using assms(1) unat_less_4G [of "memory_size e"] by (simp_all add: page_run_entry_def)
  show "0 < memory_size e" using sz assms(2) by (simp add: word_less_nat_alt)
  have "unat k = n" using sz by (simp add: k_def PAGE_SIZE_def unat_div_distrib)
  then show b: "unat b = min n 259072" by (auto simp: b_def word_less_nat_alt)
  have mult: "unat (b * PAGE_SIZE) = min n 259072 * 4096"
    using b sz by (subst unat_mult_small) (auto simp: PAGE_SIZE_def min_def)
  then have "b * PAGE_SIZE \<le> memory_size e" using sz by (simp add: word_le_nat_alt)
  then have "unat (memory_size e - b * PAGE_SIZE) = 4096 * (n - min n 259072)"
    using mult sz by (simp add: unat_sub diff_mult_distrib2 mult.commute)
  moreover have "PAGE_OFFSET_MASK (memory_start e + b * PAGE_SIZE) = 0"
    using aligned_add [of "memory_start e" b] assms(1) by (simp add: page_run_entry_def mult.commute)
  ultimately show "page_run_entry (e\<lparr>memory_start := memory_start e + b * PAGE_SIZE,
        memory_size := memory_size e - b * PAGE_SIZE\<rparr>) (n - min n 259072)"
    by (simp add: page_run_entry_def)
qed

lemma fill_entry_pages:
  assumes "page_run_entry e n" "c + n \<le> 1048576" "pm_stack_pointer s = slot c"
  shows "\<exists>e' s'. fill_entry e s = Some (e', s') \<and> memory_size e' = 0
    \<and> pm_stack_pointer s' = slot (c + n)
    \<and> slots (virt s') (c + n) = slots (virt s) c @ page_block (memory_start e) n
    \<and> number_of_all_pages s' = number_of_all_pages s + of_nat n
    \<and> (\<forall>a. phys s' a = (if in_pages (memory_start e) n a then 0 else phys s a))"
  using assms
proof (induction n arbitrary: e c s rule: less_induct)
  case (less n)
  show ?case
  proof (cases "n = 0")
    case True
    then have "memory_size e = 0" using less.prems(1) by (simp add: page_run_entry_def unat_eq_0)
    then show ?thesis
      using True less.prems by (subst fill_entry.simps) (simp add: page_block_def in_pages_def)
  next
    case False
    define b where "b = (if 1024 * 253 < memory_size e div PAGE_SIZE then 1024 * 253 else memory_size e div PAGE_SIZE)"
    let ?k = "min n 259072"
    let ?e = "e\<lparr>memory_start := memory_start e + b * PAGE_SIZE, memory_size := memory_size e - b * PAGE_SIZE\<rparr>"
    let ?s = "clear_window ?k (push_pages ?k 0 (memory_start e) s)"
    note batch = entry_batch [OF less.prems(1), folded b_def]
    have b: "unat b = ?k" "0 < memory_size e" "page_run_entry ?e (n - ?k)" using batch False by simp_all
    have start: "b * PAGE_SIZE = PAGE_SIZE * of_nat ?k"
      by (simp add: b(1) [symmetric] mult.commute del: min_def)
    have push: "slots (virt ?s) (c + ?k) = slots (virt s) c @ page_block (memory_start e) ?k"
      "pm_stack_pointer ?s = slot (c + ?k)" "number_of_all_pages ?s = number_of_all_pages s + of_nat ?k"
      using push_pages_batch [of c ?k s 0 "memory_start e"] less.prems(2,3)
      by (simp_all add: Let_def clear_window_def)
    have clear: "phys ?s a = (if in_pages (memory_start e) ?k a then 0 else phys s a)" for a
      using less.prems by (intro batch_cleared [where c = c]) (auto simp: page_run_entry_def)
    obtain e' s' where IH: "fill_entry ?e ?s = Some (e', s')" "memory_size e' = 0"
      "pm_stack_pointer s' = slot (c + ?k + (n - ?k))"
      "slots (virt s') (c + ?k + (n - ?k)) = slots (virt ?s) (c + ?k) @ page_block (memory_start ?e) (n - ?k)"
      "number_of_all_pages s' = number_of_all_pages ?s + of_nat (n - ?k)"
      "\<forall>a. phys s' a = (if in_pages (memory_start ?e) (n - ?k) a then 0 else phys ?s a)"
      using less.IH [of "n - ?k" ?e "c + ?k" ?s] False b(3) push(2) less.prems(2) by auto
    have n: "n = ?k + (n - ?k)" by simp
    have "fill_entry e s = Some (e', s')"
      by (subst fill_entry.simps) (simp only: Let_def b_def [symmetric] b(1,2) if_True IH(1))
    moreover have "page_block (memory_start e) n = page_block (memory_start e) ?k @ page_block (memory_start ?e) (n - ?k)"
      using page_block_add [of "memory_start e" ?k "n - ?k"] by (simp add: start)
    moreover have "in_pages (memory_start e) n a \<longleftrightarrow> in_pages (memory_start e) ?k a \<or> in_pages (memory_start ?e) (n - ?k) a" for a
      using in_pages_add [of "memory_start e" ?k "n - ?k" a] by (simp add: start)
    moreover have "(of_nat n :: u32) = of_nat ?k + of_nat (n - ?k)"
      by (subst n) (simp only: of_nat_add)
    ultimately show ?thesis using IH(2-) push clear by (auto simp: add.assoc)
  qed
qed

definition entry_pages :: "map_entry \<Rightarrow> u32 list" where
  "entry_pages e = page_block (memory_start e) (unat (memory_size e) div 4096)"

lemma fill_stack_pages:
  assumes "\<And>e. e \<in> set es \<Longrightarrow> page_run_entry e (unat (memory_size e) div 4096)"
    and "c + length (concat (map entry_pages es)) \<le> 1048576" "pm_stack_pointer s = slot c"
  shows "\<exists>es' s'. fill_stack es s = Some (es', s')
    \<and> pm_stack_pointer s' = slot (c + length (concat (map entry_pages es)))
    \<and> slots (virt s') (c + length (concat (map entry_pages es))) = slots (virt s) c @ concat (map entry_pages es)
    \<and> number_of_all_pages s' = number_of_all_pages s + of_nat (length (concat (map entry_pages es)))
    \<and> (\<forall>a. phys s' a = (if \<exists>p \<in> set (concat (map entry_pages es)). inside p PAGE_SIZE a then 0 else phys s a))"
  using assms
proof (induction es arbitrary: c s)
  case (Cons e es)
  define n where "n = unat (memory_size e) div 4096"
  have len: "length (entry_pages e) = n" by (simp add: entry_pages_def page_block_def n_def)
  obtain e' s1 where 1: "fill_entry e s = Some (e', s1)" "pm_stack_pointer s1 = slot (c + n)"
    "slots (virt s1) (c + n) = slots (virt s) c @ entry_pages e"
    "number_of_all_pages s1 = number_of_all_pages s + of_nat n"
    "\<forall>a. phys s1 a = (if in_pages (memory_start e) n a then 0 else phys s a)"
    using fill_entry_pages [of e n c s] Cons.prems len by (auto simp: n_def entry_pages_def)
  obtain es' s2 where "fill_stack es s1 = Some (es', s2)"
    "pm_stack_pointer s2 = slot (c + n + length (concat (map entry_pages es)))"
    "slots (virt s2) (c + n + length (concat (map entry_pages es))) = slots (virt s1) (c + n) @ concat (map entry_pages es)"
    "number_of_all_pages s2 = number_of_all_pages s1 + of_nat (length (concat (map entry_pages es)))"
    "\<forall>a. phys s2 a = (if \<exists>p \<in> set (concat (map entry_pages es)). inside p PAGE_SIZE a then 0 else phys s1 a)"
    using Cons.IH [of "c + n" s1] Cons.prems len 1(2) by auto
  moreover have "in_pages (memory_start e) n a \<longleftrightarrow> (\<exists>p \<in> set (entry_pages e). inside p PAGE_SIZE a)" for a
    by (simp add: in_pages_def entry_pages_def n_def)
  ultimately show ?case
    using 1 len by (auto simp: add.assoc)
qed auto

lemma alloc_fails_iff:
  assumes "pm_wf s"
  shows "pm_direct_alloc_page s = None \<longleftrightarrow> global_pages s = []"
    and "pm_local_alloc_page s = None \<longleftrightarrow> free_pages s = {#}"
proof -
  have ok: "stack_ok s" and lock: "lock_mutex (pm_stack_mutex s) = Some 1"
    using assms by (simp_all add: pm_wf_def)
  have empty: "pm_stack_pointer s = VM_PHYSICAL_PAGES_STACK \<longleftrightarrow> global_pages s = []"
    using stack_ok_count_0 [OF ok] length_slots [of "virt s" "pm_count s"]
    by (auto simp: global_pages_def simp del: length_slots)
  show "pm_direct_alloc_page s = None \<longleftrightarrow> global_pages s = []"
    by (simp add: pm_direct_alloc_page_def lock empty Let_def)
  have "local_pages s = [] \<longleftrightarrow> physical_pages_stack s ! 0 = 0"
    using assms by (cases "physical_pages_stack s") (auto simp: local_pages_def pm_wf_def unat_eq_0)
  then show "pm_local_alloc_page s = None \<longleftrightarrow> free_pages s = {#}"
    by (auto simp: pm_local_alloc_page_def lock empty Let_def free_pages_def split: prod.splits)
qed

section \<open>Properties\<close>

text \<open>
  C2. Whichever pair of functions the pointers hold, a run of page allocations and frees
  neither loses nor invents a page: the free pages and the pages in use are always the pages
  there were in the beginning, and no page is in use twice or both in use and free.
\<close>

theorem pages_never_shared:
  assumes "pm_wf s" "\<And>p. count (free_pages s) p \<le> 1"
    and "page_run pm_alloc_page pm_free_page ops (s, []) = Some (s', held)"
  shows "free_pages s' + mset held = free_pages s \<and> distinct held \<and> set held \<inter> set_mset (free_pages s') = {}"
  using current_pages.conservation [OF assms(1,3)] current_pages.no_double_allocation [OF assms] by simp

text \<open>A small state: two free pages on the global stack, the local stack empty.\<close>

definition two_pages :: "page_functions \<Rightarrow> pm_state" where
  "two_pages f = \<lparr>free_map = [], virt = store32 (store32 (\<lambda>_. 0) (slot 0) 0x5000) (slot 1) 0x7000,
     phys = (\<lambda>_. 0), pm_stack_pointer = slot 2, pm_stack_last_entry = slot 2, pm_stack_mutex = 0,
     number_of_all_pages = 2, number_of_allocated_pages = 0,
     physical_pages_stack = replicate 256 0, pm_functions = f\<rparr>"

lemma two_pages_wf: "pm_wf (two_pages f)" "free_pages (two_pages f) = {#0x5000, 0x7000#}"
proof -
  have c: "pm_count (two_pages f) = 2" by (rule pm_count_slot) (simp_all add: two_pages_def)
  then have "stack_ok (two_pages f)" by (auto simp: stack_ok_def two_pages_def intro: exI [of _ 2])
  then show "pm_wf (two_pages f)" by (simp add: pm_wf_def two_pages_def)
  have "global_pages (two_pages f) = [0x5000, 0x7000]"
    using c by (simp add: global_pages_def two_pages_def slots_def numeral_2_eq_2 load32_slot)
  then show "free_pages (two_pages f) = {#0x5000, 0x7000#}"
    by (simp add: free_pages_def local_pages_def two_pages_def)
qed

theorem pages_never_shared_witness:
  "\<exists>s' held. page_run pm_alloc_page pm_free_page [Alloc, Alloc, Free 1] (two_pages Direct_functions, []) = Some (s', held)
     \<and> free_pages s' + mset held = free_pages (two_pages Direct_functions) \<and> distinct held"
proof -
  have "\<exists>s' held. page_run pm_alloc_page pm_free_page [Alloc, Alloc, Free 1] (two_pages Direct_functions, []) = Some (s', held)"
    by (simp add: pm_alloc_page_def pm_free_page_def pm_direct_alloc_page_def pm_direct_free_page_def
        two_pages_def slot_def pm_constants Let_def)
  then show ?thesis
    using pages_never_shared [of "two_pages Direct_functions"] two_pages_wf by fastforce
qed

text \<open>
  An allocation panics only when there is nothing left that it could hand out: the direct
  one if the global stack is empty, the local one if no page is free at all. A direct free
  panics only on a stack that is as full as it was after initialization, and the page freed
  last is the next one handed out.
\<close>

theorem page_allocation_total:
  assumes "pm_wf s"
  shows "(pm_direct_alloc_page s = None \<longleftrightarrow> global_pages s = [])
    \<and> (pm_local_alloc_page s = None \<longleftrightarrow> free_pages s = {#})
    \<and> (pm_direct_free_page p s = None \<longleftrightarrow> pm_stack_pointer s = pm_stack_last_entry s)
    \<and> (\<forall>s'. pm_direct_free_page p s = Some s' \<longrightarrow> (\<exists>s''. pm_direct_alloc_page s' = Some (p, s'')))"
proof -
  have ok: "stack_ok s" and lock: "lock_mutex (pm_stack_mutex s) = Some 1"
    using assms by (simp_all add: pm_wf_def)
  note 1 = alloc_fails_iff(1) [OF assms] and 2 = alloc_fails_iff(2) [OF assms]
  have 3: "pm_direct_free_page p s = None \<longleftrightarrow> pm_stack_pointer s = pm_stack_last_entry s"
    by (simp add: pm_direct_free_page_def lock Let_def)
  have "\<exists>s''. pm_direct_alloc_page s' = Some (p, s'')" if s': "pm_direct_free_page p s = Some s'" for s'
  proof -
    have room: "pm_stack_pointer s \<noteq> pm_stack_last_entry s" using 3 s' by auto
    have upd: "virt s' = store32 (virt s) (pm_stack_pointer s) p" "pm_stack_pointer s' = pm_stack_pointer s + 4"
      "pm_stack_mutex s' = 0" "pm_stack_last_entry s' = pm_stack_last_entry s"
      using s' room by (auto simp: pm_direct_free_page_def lock Let_def)
    then have "stack_ok s'" "pm_count s' = Suc (pm_count s)"
      using push_page [OF ok room] by auto
    then have "pm_stack_pointer s' \<noteq> VM_PHYSICAL_PAGES_STACK" using stack_ok_count_0 by force
    then show ?thesis by (simp add: pm_direct_alloc_page_def upd mem_simps Let_def)
  qed
  with 1 2 3 show ?thesis by blast
qed

theorem page_allocation_total_witness:
  "pm_direct_alloc_page (two_pages Direct_functions) \<noteq> None
   \<and> pm_local_alloc_page (two_pages Local_functions) \<noteq> None"
  using page_allocation_total [OF two_pages_wf(1), of Direct_functions]
    page_allocation_total [OF two_pages_wf(1), of Local_functions]
    two_pages_wf(2) [of Direct_functions] two_pages_wf(2) [of Local_functions]
  by (auto simp: free_pages_def local_pages_def two_pages_def)

text \<open>
  C17. \<open>pm_alloc_continuous_memory\<close> gives memory exactly if it can: if somewhere in the stack a
  block of the rounded size lies in descending order and four times as many pages are free, it
  takes the pages of such a block off the stack, keeps the others in order and counts them as
  allocated; otherwise it returns NULL and changes nothing. The factor of four is that of the
  code, which multiplies the number of pages by four before it subtracts it from a pointer to words.
\<close>

theorem continuous_memory_is_continuous:
  assumes "stack_ok s" "0 < unat (rounded_pages sz)"
  shows "if 4 * unat (rounded_pages sz) \<le> length (global_pages s)
      \<and> (\<exists>as page bs. global_pages s = as @ rev (page_block page (unat (rounded_pages sz))) @ bs)
    then \<exists>as page bs s'. pm_alloc_continuous_memory sz s = Some (page, s') \<and> stack_ok s'
        \<and> global_pages s = as @ rev (page_block page (unat (rounded_pages sz))) @ bs \<and> global_pages s' = as @ bs
        \<and> pm_stack_last_entry s' = pm_stack_last_entry s
        \<and> number_of_allocated_pages s' = number_of_allocated_pages s + rounded_pages sz
    else pm_alloc_continuous_memory sz s = Some (0, s)"
  using assms by (rule continuous_alloc)

text \<open>Eight free pages, of which two in the middle are neighbours.\<close>

definition eight_free_pages :: pm_state where
  "eight_free_pages = (two_pages Direct_functions)\<lparr>
     virt := store32 (store32 (store32 (store32 (store32 (store32 (store32 (store32 (\<lambda>_. 0) (slot 0) 0x20000)
       (slot 1) 0x30000) (slot 2) 0x6000) (slot 3) 0x5000) (slot 4) 0x40000) (slot 5) 0x50000) (slot 6) 0x60000) (slot 7) 0x70000,
     pm_stack_pointer := slot 8, pm_stack_last_entry := slot 8\<rparr>"

lemma eight_free_pages:
  "stack_ok eight_free_pages" "global_pages eight_free_pages = [0x20000, 0x30000, 0x6000, 0x5000, 0x40000, 0x50000, 0x60000, 0x70000]"
proof -
  have c: "pm_count eight_free_pages = 8" by (rule pm_count_slot) (simp_all add: eight_free_pages_def)
  then show "stack_ok eight_free_pages" by (auto simp: stack_ok_def eight_free_pages_def intro: exI [of _ 8])
  show "global_pages eight_free_pages = [0x20000, 0x30000, 0x6000, 0x5000, 0x40000, 0x50000, 0x60000, 0x70000]"
    unfolding global_pages_def c by (simp add: eight_free_pages_def slots_def upt_rec load32_slot)
qed

theorem continuous_memory_is_continuous_witness:
  "(\<exists>s'. pm_alloc_continuous_memory 0x1800 eight_free_pages = Some (0x5000, s')
      \<and> global_pages s' = [0x20000, 0x30000, 0x40000, 0x50000, 0x60000, 0x70000])
   \<and> pm_alloc_continuous_memory 0x2800 eight_free_pages = Some (0, eight_free_pages)"
proof -
  have n: "unat (rounded_pages 0x1800) = 2" "unat (rounded_pages 0x2800) = 3"
    by (simp_all add: rounded_pages_def PAGE_OFFSET_MASK_def PAGE_MASK_def PAGE_SIZE_def drop_bit_eq_div)
  have block: "rev (page_block page 2) = [page + 0x1000, page]" for page
    by (simp add: page_block_def PAGE_SIZE_def upt_rec)
  have here: "global_pages eight_free_pages = [0x20000, 0x30000] @ rev (page_block 0x5000 2) @ [0x40000, 0x50000, 0x60000, 0x70000]"
    by (simp add: eight_free_pages block)
  have "4 * 2 \<le> length (global_pages eight_free_pages)
      \<and> (\<exists>as page bs. global_pages eight_free_pages = as @ [page + 0x1000, page] @ bs)"
    using here unfolding block by (intro conjI exI) (simp add: eight_free_pages(2))
  then obtain as page bs s' where s': "pm_alloc_continuous_memory 0x1800 eight_free_pages = Some (page, s')"
    "global_pages eight_free_pages = as @ [page + 0x1000, page] @ bs" "global_pages s' = as @ bs"
    using continuous_memory_is_continuous [OF eight_free_pages(1), of "0x1800"] unfolding n block
    by (simp only: if_True simp_thms zero_less_numeral) blast
  have "page = 0x5000 \<and> as = [0x20000, 0x30000] \<and> bs = [0x40000, 0x50000, 0x60000, 0x70000]"
    using s'(2) unfolding eight_free_pages(2) by (auto simp: Cons_eq_append_conv)
  moreover have "pm_alloc_continuous_memory 0x2800 eight_free_pages = Some (0, eight_free_pages)"
    using continuous_memory_is_continuous [OF eight_free_pages(1), of "0x2800"] unfolding n by (simp add: eight_free_pages(2))
  ultimately show ?thesis using s'(1,3) by simp
qed

text \<open>
  Filling the page stack from a map of page-aligned entries ends, pushes exactly the pages
  of the entries in order, counts them, and clears every one of them and nothing else.
\<close>

theorem stack_filled_with_clear_pages:
  assumes "\<And>e. e \<in> set es \<Longrightarrow> PAGE_OFFSET_MASK (memory_start e) = 0 \<and> PAGE_OFFSET_MASK (memory_size e) = 0"
    and "length (concat (map entry_pages es)) \<le> 1048576" "pm_stack_pointer s = VM_PHYSICAL_PAGES_STACK"
  shows "\<exists>es' s'. fill_stack es s = Some (es', s')
    \<and> global_pages s' = concat (map entry_pages es)
    \<and> number_of_all_pages s' = number_of_all_pages s + of_nat (length (concat (map entry_pages es)))
    \<and> (\<forall>a. phys s' a = (if \<exists>p \<in> set (concat (map entry_pages es)). inside p PAGE_SIZE a then 0 else phys s a))"
proof -
  have "page_run_entry e (unat (memory_size e) div 4096)" if "e \<in> set es" for e
    using assms(1) [OF that] by (auto simp: page_run_entry_def offset_mask_unat)
  then obtain es' s' where *:
    "fill_stack es s = Some (es', s')"
    "pm_stack_pointer s' = slot (length (concat (map entry_pages es)))"
    "slots (virt s') (length (concat (map entry_pages es))) = concat (map entry_pages es)"
    "number_of_all_pages s' = number_of_all_pages s + of_nat (length (concat (map entry_pages es)))"
    "\<forall>a. phys s' a = (if \<exists>p \<in> set (concat (map entry_pages es)). inside p PAGE_SIZE a then 0 else phys s a)"
    using fill_stack_pages [of es 0 s] assms(2,3)
    by (simp only: add_0 slot_0 slots_def upt_0 list.map append_Nil) blast
  moreover have "global_pages s' = concat (map entry_pages es)"
    unfolding global_pages_def pm_count_slot [OF assms(2) *(2)] by (rule *(3))
  ultimately show ?thesis by blast
qed

theorem stack_filled_with_clear_pages_witness:
  "\<exists>es' s'. fill_stack [\<lparr>memory_start = 0x100000, memory_size = 0x2000\<rparr>]
       ((two_pages No_functions)\<lparr>pm_stack_pointer := VM_PHYSICAL_PAGES_STACK\<rparr>) = Some (es', s')
     \<and> global_pages s' = [0x100000, 0x101000]"
proof -
  let ?es = "[\<lparr>memory_start = 0x100000, memory_size = 0x2000\<rparr>]"
  let ?s = "(two_pages No_functions)\<lparr>pm_stack_pointer := VM_PHYSICAL_PAGES_STACK\<rparr>"
  have pages: "concat (map entry_pages ?es) = [0x100000, 0x101000]"
    by (simp add: entry_pages_def page_block_def PAGE_SIZE_def upt_rec)
  have "PAGE_OFFSET_MASK (memory_start e) = 0 \<and> PAGE_OFFSET_MASK (memory_size e) = 0" if "e \<in> set ?es" for e
    using that by (auto simp: PAGE_OFFSET_MASK_def)
  moreover have "length (concat (map entry_pages ?es)) \<le> 1048576" unfolding pages by simp
  moreover have "pm_stack_pointer ?s = VM_PHYSICAL_PAGES_STACK" by simp
  ultimately show ?thesis
    using stack_filled_with_clear_pages [of ?es ?s] unfolding pages by blast
qed

text \<open>
  Aligning an entry of the memory map that starts on a page boundary keeps its start and
  rounds its size down. An entry that starts inside a page is lost if it reaches the next page
  boundary, and if it does not, its size underflows: the tests are the wrong way round.
\<close>

theorem align_entry_cases:
  "(PAGE_OFFSET_MASK (memory_start e) = 0 \<longrightarrow> align_entry e = e\<lparr>memory_size := PAGE_MASK (memory_size e)\<rparr>)
   \<and> (PAGE_OFFSET_MASK (memory_start e) \<noteq> 0 \<longrightarrow>
        PAGE_SIZE - PAGE_OFFSET_MASK (memory_start e) \<le> memory_size e \<longrightarrow>
        align_entry e = e\<lparr>memory_size := 0\<rparr>)
   \<and> (PAGE_OFFSET_MASK (memory_start e) \<noteq> 0 \<longrightarrow>
        memory_size e < PAGE_SIZE - PAGE_OFFSET_MASK (memory_start e) \<longrightarrow>
        memory_start (align_entry e) = PAGE_MASK (memory_start e) + PAGE_SIZE
        \<and> memory_size (align_entry e) = 0xFFFFF000)"
proof -
  have keep: "PAGE_MASK x = x" if "PAGE_OFFSET_MASK x = 0" for x using mask_of_aligned [OF that] .
  have small: "PAGE_MASK (x - PAGE_SIZE) = 0xFFFFF000" if "x < 0x1000" for x
  proof -
    have "x = x AND 0xFFF"
      using that less_mask_eq [of x 12] by (simp add: mask_eq_exp_minus_1)
    then have "x AND 0xFFFFF000 = x AND (0xFFF AND 0xFFFFF000)" by (metis and.assoc)
    then have "x AND 0xFFFFF000 = 0" by simp
    moreover have "x - PAGE_SIZE = x + 0xFFFFF000" by (simp add: PAGE_SIZE_def)
    ultimately have "x - PAGE_SIZE = x OR 0xFFFFF000" by (simp only: disjunctive_add_eq_or)
    then show ?thesis by (simp add: PAGE_MASK_def bit.conj_disj_distrib2)
  qed
  have boundary: "PAGE_OFFSET_MASK (PAGE_MASK x + PAGE_SIZE) = 0" for x
    using aligned_add [of "PAGE_MASK x" 1] by (simp add: PAGE_MASK_def PAGE_OFFSET_MASK_def and.assoc)
  have "unat (memory_start e mod 0x1000) < 4096" by (simp add: unat_mod_distrib)
  then have "unat (PAGE_SIZE - PAGE_OFFSET_MASK (memory_start e)) \<le> 4096"
    unfolding offset_mask_mod PAGE_SIZE_def by (subst unat_sub) (simp_all add: word_le_nat_alt)
  then have "memory_size e < 0x1000" if "memory_size e < PAGE_SIZE - PAGE_OFFSET_MASK (memory_start e)"
    using that by (simp add: word_less_nat_alt)
  then show ?thesis
    using small [of "memory_size e"] keep [of "memory_size e - PAGE_SIZE"] keep [of "memory_size e"]
    by (auto simp: align_entry_def align_size_def boundary Let_def not_le)
qed

theorem align_entry_cases_witness:
  "align_entry \<lparr>memory_start = 0x100800, memory_size = 0x8000\<rparr> = \<lparr>memory_start = 0x100800, memory_size = 0\<rparr>
   \<and> memory_size (align_entry \<lparr>memory_start = 0x100800, memory_size = 0x400\<rparr>) = 0xFFFFF000"
  using align_entry_cases [of "\<lparr>memory_start = 0x100800, memory_size = 0x8000\<rparr>"]
    align_entry_cases [of "\<lparr>memory_start = 0x100800, memory_size = 0x400\<rparr>"]
  by (simp add: PAGE_OFFSET_MASK_def PAGE_SIZE_def)

end
