(* ===== verification/Virtual_Memory.thy ===== *)
theory Virtual_Memory
  imports Physical_Memory
begin

text \<open>
  Paging, \<open>source/kernel/hardware/devices/memory/virtual_memory.c\<close>. The recursive mapping
  shows the page tables of the current directory at \<open>VM_PAGE_TABLES\<close> and the directory itself
  at \<open>VM_PAGE_DIRECTORY\<close>; both windows, like the page stack, are in the flat memory \<open>virt\<close>.
  What the program sees at any other address is read through the page tables from \<open>phys\<close>.
  The TLB is not modelled: a changed entry is used at once. \<open>None\<close> is a panic, a page fault,
  or a spin on an entry whose lock bit nobody will clear.
\<close>

section \<open>Page entries\<close>

definition PAGE_TABLE_SIZE :: u32 where "PAGE_TABLE_SIZE = 0x400000"
definition VM_FLAG_PRESENT :: u32 where "VM_FLAG_PRESENT = 1"
definition VM_FLAG_READ_WRITE :: u32 where "VM_FLAG_READ_WRITE = 2"
definition VM_FLAG_USER :: u32 where "VM_FLAG_USER = 4"
definition VM_FLAG_SPINLOCK :: u32 where "VM_FLAG_SPINLOCK = 0x800"
definition VM_FLAGS_TYPE :: u32 where "VM_FLAGS_TYPE = 0xE00"
definition VM_LAZY_ALLOCATION :: u32 where "VM_LAZY_ALLOCATION = 0x200"
definition VM_COW_ALLOCATION :: u32 where "VM_COW_ALLOCATION = 0x400"
definition VM_SPAWN_TEMPLATE :: u32 where "VM_SPAWN_TEMPLATE = 0x600"
definition VM_PAGE_TABLE :: u32 where "VM_PAGE_TABLE = 7"
definition VM_USER :: u32 where "VM_USER = 7"

lemmas vm_flags = VM_FLAG_PRESENT_def VM_FLAG_READ_WRITE_def VM_FLAG_USER_def VM_FLAG_SPINLOCK_def
  VM_FLAGS_TYPE_def VM_LAZY_ALLOCATION_def VM_COW_ALLOCATION_def VM_SPAWN_TEMPLATE_def
  VM_PAGE_TABLE_def VM_USER_def

abbreviation entry_at :: "pm_state \<Rightarrow> u32 \<Rightarrow> u32" where
  "entry_at s p \<equiv> load32 (virt s) p"

definition set_entry :: "u32 \<Rightarrow> u32 \<Rightarrow> pm_state \<Rightarrow> pm_state" where
  "set_entry p w s = s\<lparr>virt := store32 (virt s) p w\<rparr>"

definition pde_address :: "u32 \<Rightarrow> u32" where
  "pde_address vm_page = VM_PAGE_DIRECTORY + drop_bit 22 vm_page * 4"

definition pte_address :: "u32 \<Rightarrow> u32" where
  "pte_address vm_page = VM_PAGE_TABLES + drop_bit 12 vm_page * 4"

definition present :: "u32 \<Rightarrow> bool" where
  "present entry \<longleftrightarrow> entry AND VM_FLAG_PRESENT = VM_FLAG_PRESENT"

definition get_page_entry_of_vm_page :: "u32 \<Rightarrow> pm_state \<Rightarrow> u32" where
  "get_page_entry_of_vm_page vm_page s =
     (if entry_at s (pde_address vm_page) AND VM_FLAG_PRESENT = 0 then 0
      else entry_at s (pte_address vm_page))"

definition get_pm_of_vm_page :: "u32 \<Rightarrow> pm_state \<Rightarrow> u32" where
  "get_pm_of_vm_page vm_page s = PAGE_MASK (get_page_entry_of_vm_page vm_page s)"

definition is_vm_page_mapped :: "u32 \<Rightarrow> pm_state \<Rightarrow> bool" where
  "is_vm_page_mapped vm_page s \<longleftrightarrow> present (get_page_entry_of_vm_page vm_page s)"

text \<open>The atomic or of \<open>lock_page_entry\<close> sets the bit in every round of the loop.\<close>

partial_function (option) lock_page_entry :: "u32 \<Rightarrow> pm_state \<Rightarrow> pm_state option" where
  "lock_page_entry p s =
     (let old = entry_at s p; s' = set_entry p (old OR VM_FLAG_SPINLOCK) s
      in if old AND VM_FLAG_SPINLOCK \<noteq> 0 then lock_page_entry p s' else Some s')"

definition unlock_page_entry :: "u32 \<Rightarrow> pm_state \<Rightarrow> pm_state" where
  "unlock_page_entry p s = set_entry p (entry_at s p AND NOT VM_FLAG_SPINLOCK) s"

fun lock_entries :: "nat \<Rightarrow> u32 \<Rightarrow> pm_state \<Rightarrow> pm_state option" where
  "lock_entries 0 pte s = Some s"
| "lock_entries (Suc n) pte s = lock_page_entry pte s \<bind> lock_entries n (pte + 4)"

fun unlock_entries :: "nat \<Rightarrow> u32 \<Rightarrow> pm_state \<Rightarrow> pm_state" where
  "unlock_entries 0 pte s = s"
| "unlock_entries (Suc n) pte s = unlock_entries n (pte + 4) (unlock_page_entry pte s)"

text \<open>The number of rounds of \<open>for(i = start; i < start + size; i += PAGE_SIZE)\<close>.\<close>

definition page_rounds :: "u32 \<Rightarrow> u32 \<Rightarrow> nat" where
  "page_rounds start sz =
     (if start < start + sz then (unat (start + sz) - unat start + 4095) div 4096 else 0)"

definition lock_virtual_memory :: "u32 \<Rightarrow> u32 \<Rightarrow> pm_state \<Rightarrow> pm_state option" where
  "lock_virtual_memory start sz s = lock_entries (page_rounds start sz) (pte_address start) s"

definition unlock_virtual_memory :: "u32 \<Rightarrow> u32 \<Rightarrow> pm_state \<Rightarrow> pm_state" where
  "unlock_virtual_memory start sz s = unlock_entries (page_rounds start sz) (pte_address start) s"

section \<open>Memory behind the page tables\<close>

definition translate :: "pm_state \<Rightarrow> u32 \<Rightarrow> u32 option" where
  "translate s a =
     (if present (entry_at s (pde_address a)) \<and> present (entry_at s (pte_address a))
      then Some (PAGE_MASK (entry_at s (pte_address a)) OR PAGE_OFFSET_MASK a) else None)"

text \<open>\<open>memset(page, 0, PAGE_SIZE)\<close> on a page-aligned address; \<open>None\<close> is the page fault.\<close>

definition clear_virtual_page :: "u32 \<Rightarrow> pm_state \<Rightarrow> pm_state option" where
  "clear_virtual_page page s = map_option
     (\<lambda>frame. s\<lparr>phys := mem_fill (phys s) frame 0 PAGE_SIZE\<rparr>) (translate s page)"

text \<open>
  A new page table becomes visible in the window at \<open>VM_PAGE_TABLES\<close> with the contents of the
  physical page that holds it.
\<close>

definition show_page_table :: "u32 \<Rightarrow> u32 \<Rightarrow> pm_state \<Rightarrow> pm_state" where
  "show_page_table index page s =
     s\<lparr>virt := (\<lambda>a. let base = VM_PAGE_TABLES + index * PAGE_SIZE
        in if inside base PAGE_SIZE a then phys s (page + (a - base)) else virt s a)\<rparr>"

section \<open>Mapping and allocating\<close>

fun allocate_tables :: "nat \<Rightarrow> u32 \<Rightarrow> pm_state \<Rightarrow> pm_state option" where
  "allocate_tables 0 index s = Some s"
| "allocate_tables (Suc n) index s = do {
     let page_directory_entry = VM_PAGE_DIRECTORY + index * 4;
     s \<leftarrow> lock_page_entry page_directory_entry s;
     if present (entry_at s page_directory_entry)
     then allocate_tables n (index + 1) (unlock_page_entry page_directory_entry s)
     else do {
       (page, s) \<leftarrow> pm_alloc_page s;
       let s = set_entry page_directory_entry (page OR VM_PAGE_TABLE) s;
       allocate_tables n (index + 1) (show_page_table index page s)
     }
   }"

definition vm_allocate_page_tables :: "u32 \<Rightarrow> u32 \<Rightarrow> pm_state \<Rightarrow> pm_state option" where
  "vm_allocate_page_tables vm_start sz s =
     (let first_page_table = drop_bit 22 vm_start;
          last_page_table = drop_bit 22 (vm_start + sz - 1)
      in allocate_tables (if first_page_table \<le> last_page_table
           then unat last_page_table - unat first_page_table + 1 else 0) first_page_table s)"

definition vm_map_page :: "u32 \<Rightarrow> u32 \<Rightarrow> u32 \<Rightarrow> pm_state \<Rightarrow> pm_state option" where
  "vm_map_page vm_page pm_page flags s = do {
     s \<leftarrow> vm_allocate_page_tables vm_page PAGE_SIZE s;
     let page_table_entry = pte_address vm_page;
     s \<leftarrow> lock_page_entry page_table_entry s;
     Some (set_entry page_table_entry (pm_page OR flags) s)
   }"

fun map_phy_loop :: "nat \<Rightarrow> u32 \<Rightarrow> u32 \<Rightarrow> u32 \<Rightarrow> pm_state \<Rightarrow> pm_state option" where
  "map_phy_loop 0 page_table_entry pm_page flags s = Some s"
| "map_phy_loop (Suc n) page_table_entry pm_page flags s = do {
     s \<leftarrow> lock_page_entry page_table_entry s;
     if present (entry_at s page_table_entry)
     then map_phy_loop n page_table_entry (pm_page + PAGE_SIZE) flags (unlock_page_entry page_table_entry s)
     else map_phy_loop n (page_table_entry + 4) (pm_page + PAGE_SIZE) flags
       (set_entry page_table_entry (pm_page OR flags) s)
   }"

definition vm_map_phy_pages :: "u32 \<Rightarrow> u32 \<Rightarrow> u32 \<Rightarrow> u32 \<Rightarrow> pm_state \<Rightarrow> pm_state option" where
  "vm_map_phy_pages vm_start_page pm_start_page sz flags s = do {
     let sz = PAGE_MASK (sz + PAGE_SIZE - 1);
     s \<leftarrow> vm_allocate_page_tables vm_start_page sz s;
     map_phy_loop (unat (drop_bit 12 sz)) (pte_address vm_start_page) pm_start_page flags s
   }"

definition vm_unmap_page :: "u32 \<Rightarrow> pm_state \<Rightarrow> pm_state option" where
  "vm_unmap_page vm_page s = do {
     let page_directory_entry = pde_address vm_page;
     s \<leftarrow> lock_page_entry page_directory_entry s;
     if entry_at s page_directory_entry AND VM_FLAG_PRESENT = 0
     then Some (unlock_page_entry page_directory_entry s)
     else do {
       let page_table_entry = pte_address vm_page;
       s \<leftarrow> lock_page_entry page_table_entry s;
       Some (set_entry page_table_entry 0 s)
     }
   }"

fun unmap_loop :: "nat \<Rightarrow> u32 \<Rightarrow> pm_state \<Rightarrow> pm_state option" where
  "unmap_loop 0 page_table_entry s = Some s"
| "unmap_loop (Suc n) page_table_entry s = do {
     s \<leftarrow> lock_page_entry page_table_entry s;
     unmap_loop n (page_table_entry + 4) (set_entry page_table_entry 0 s)
   }"

definition vm_unmap_pages :: "u32 \<Rightarrow> u32 \<Rightarrow> pm_state \<Rightarrow> pm_state option" where
  "vm_unmap_pages vm_start_page sz s =
     (let sz = PAGE_MASK (sz + PAGE_SIZE - 1)
      in unmap_loop (unat (drop_bit 12 sz)) (VM_PAGE_TABLES + drop_bit 10 vm_start_page) s)"

definition vm_allocate_page :: "u32 \<Rightarrow> u32 \<Rightarrow> pm_state \<Rightarrow> pm_state option" where
  "vm_allocate_page vm_page flags s = do {
     (page, s) \<leftarrow> pm_alloc_page s;
     vm_map_page vm_page page flags s
   }"

partial_function (option) allocate_loop :: "u32 \<Rightarrow> u32 \<Rightarrow> u32 \<Rightarrow> u32 \<Rightarrow> pm_state \<Rightarrow> pm_state option" where
  "allocate_loop page page_end page_table_entry flags s =
     (if page \<le> page_end then do {
        s \<leftarrow> lock_page_entry page_table_entry s;
        if present (entry_at s page_table_entry)
        then allocate_loop (page + PAGE_SIZE) page_end (page_table_entry + 4) flags
          (unlock_page_entry page_table_entry s)
        else do {
          (pm_page, s) \<leftarrow> pm_alloc_page s;
          allocate_loop (page + PAGE_SIZE) page_end (page_table_entry + 4) flags
            (set_entry page_table_entry (pm_page OR flags) s)
        }
      } else Some s)"

definition vm_allocate_pages :: "u32 \<Rightarrow> u32 \<Rightarrow> u32 \<Rightarrow> pm_state \<Rightarrow> pm_state option" where
  "vm_allocate_pages vm_start sz flags s =
     (if sz = 0 then Some s
      else do {
        s \<leftarrow> vm_allocate_page_tables vm_start sz s;
        allocate_loop vm_start (vm_start + sz - 1) (pte_address vm_start) flags s
      })"

fun deallocate_loop :: "nat \<Rightarrow> u32 \<Rightarrow> u32 \<Rightarrow> pm_state \<Rightarrow> pm_state option" where
  "deallocate_loop 0 page_table_entry vm_page_pointer s = Some s"
| "deallocate_loop (Suc n) page_table_entry vm_page_pointer s = do {
     s \<leftarrow> lock_page_entry page_table_entry s;
     if entry_at s page_table_entry AND VM_FLAG_PRESENT = 0
     then deallocate_loop n (page_table_entry + 4) vm_page_pointer (unlock_page_entry page_table_entry s)
     else do {
       let s = set_entry page_table_entry
         ((entry_at s page_table_entry AND NOT VM_FLAG_USER) OR VM_FLAG_SPINLOCK) s;
       s \<leftarrow> clear_virtual_page vm_page_pointer s;
       s \<leftarrow> pm_free_page (PAGE_MASK (entry_at s page_table_entry)) s;
       deallocate_loop n (page_table_entry + 4) (vm_page_pointer + PAGE_SIZE) (set_entry page_table_entry 0 s)
     }
   }"

definition vm_deallocate_pages :: "u32 \<Rightarrow> u32 \<Rightarrow> pm_state \<Rightarrow> pm_state option" where
  "vm_deallocate_pages vm_start_page sz s =
     (let sz = PAGE_MASK (sz + PAGE_SIZE - 1)
      in deallocate_loop (unat (drop_bit 12 sz)) (VM_PAGE_TABLES + drop_bit 10 vm_start_page) vm_start_page s)"

text \<open>\<open>step\<close> is the distance to the next pair of entries: \<open>-4\<close> when the pages move upwards.\<close>

fun move_loop :: "nat \<Rightarrow> u32 \<Rightarrow> u32 \<Rightarrow> u32 \<Rightarrow> pm_state \<Rightarrow> pm_state option" where
  "move_loop 0 old new step s = Some s"
| "move_loop (Suc n) old new step s = do {
     s \<leftarrow> lock_page_entry old s;
     s \<leftarrow> lock_page_entry new s;
     let s = set_entry new (entry_at s old) s;
     let s = set_entry old 0 s;
     let s = unlock_page_entry new s;
     let s = unlock_page_entry old s;
     move_loop n (old + step) (new + step) step s
   }"

definition vm_move_pages :: "u32 \<Rightarrow> u32 \<Rightarrow> u32 \<Rightarrow> pm_state \<Rightarrow> pm_state option" where
  "vm_move_pages vm_old_start vm_new_start sz s =
     (if vm_old_start = vm_new_start then Some s
      else do {
        let sz = PAGE_MASK (sz + PAGE_SIZE - 1);
        s \<leftarrow> vm_allocate_page_tables vm_new_start sz s;
        if vm_old_start < vm_new_start
        then move_loop (unat (drop_bit 12 sz)) (VM_PAGE_TABLES + drop_bit 10 (vm_old_start + sz - PAGE_SIZE))
          (VM_PAGE_TABLES + drop_bit 10 (vm_new_start + sz - PAGE_SIZE)) (- 4) s
        else move_loop (unat (drop_bit 12 sz)) (VM_PAGE_TABLES + drop_bit 10 vm_old_start)
          (VM_PAGE_TABLES + drop_bit 10 vm_new_start) 4 s
      })"

section \<open>Pages of the user space\<close>

definition SUCCESS :: u32 where "SUCCESS = 1"
definition ERROR :: u32 where "ERROR = 0"
definition VM_AREA_FOR_CLEARING_PAGES :: u32 where "VM_AREA_FOR_CLEARING_PAGES = 0xFF000000"

definition round_down :: "u32 \<Rightarrow> u32 \<Rightarrow> u32" where
  "round_down unit a = a AND NOT (unit - 1)"

text \<open>
  \<open>map_physical_pages_to_userspace\<close>. A page that is NULL ends the function with an error; the
  second loop then unlocks the directory entry behind the last one and not the page entry.
\<close>

partial_function (option) map_tables_loop :: "u32 \<Rightarrow> u32 \<Rightarrow> u32 \<Rightarrow> pm_state \<Rightarrow> (u32 \<times> u32 \<times> pm_state) option" where
  "map_tables_loop vaddr end_vaddr pd_entry s =
     (if vaddr < end_vaddr then do {
        s \<leftarrow> lock_page_entry pd_entry s;
        if entry_at s pd_entry AND VM_FLAG_PRESENT = 0
        then do {
          (pm_page, s) \<leftarrow> pm_alloc_page s;
          if pm_page = 0 then Some (ERROR, pd_entry, unlock_page_entry pd_entry s)
          else map_tables_loop (vaddr + PAGE_TABLE_SIZE) end_vaddr (pd_entry + 4)
            (show_page_table ((pd_entry - VM_PAGE_DIRECTORY) div 4) pm_page
              (set_entry pd_entry (pm_page OR VM_PAGE_TABLE) s))
        }
        else map_tables_loop (vaddr + PAGE_TABLE_SIZE) end_vaddr (pd_entry + 4) (unlock_page_entry pd_entry s)
      } else Some (SUCCESS, pd_entry, s))"

partial_function (option) map_pages_loop :: "u32 \<Rightarrow> u32 \<Rightarrow> u32 \<Rightarrow> u32 \<Rightarrow> pm_state \<Rightarrow> (u32 \<times> pm_state) option" where
  "map_pages_loop vaddr end_vaddr pd_entry pt_entry s =
     (if vaddr < end_vaddr then do {
        s \<leftarrow> lock_page_entry pt_entry s;
        if entry_at s pt_entry AND VM_FLAG_PRESENT = 0
        then do {
          (pm_page, s) \<leftarrow> pm_alloc_page s;
          if pm_page = 0 then Some (ERROR, unlock_page_entry pd_entry s)
          else map_pages_loop (vaddr + PAGE_SIZE) end_vaddr pd_entry (pt_entry + 4)
            (set_entry pt_entry (pm_page OR VM_USER) s)
        }
        else map_pages_loop (vaddr + PAGE_SIZE) end_vaddr pd_entry (pt_entry + 4) (unlock_page_entry pt_entry s)
      } else Some (SUCCESS, s))"

definition map_physical_pages_to_userspace :: "u32 \<Rightarrow> u32 \<Rightarrow> pm_state \<Rightarrow> (u32 \<times> pm_state) option" where
  "map_physical_pages_to_userspace address sz s = do {
     let start_page_table = round_down PAGE_TABLE_SIZE address;
     let end_page_table = round_down PAGE_TABLE_SIZE (address + sz + PAGE_TABLE_SIZE - 1);
     (status, pd_entry, s) \<leftarrow> map_tables_loop start_page_table end_page_table (pde_address address) s;
     if status = ERROR then Some (ERROR, s)
     else map_pages_loop (round_down PAGE_SIZE address) (round_down PAGE_SIZE (address + sz + PAGE_SIZE - 1))
       pd_entry (pte_address address) s
   }"

text \<open>
  \<open>unmap_physical_pages_from_userspace\<close>. The list the function allocates on the kernel heap is a
  list here; \<open>collected_type\<close> is the test that spares lazily allocated, copy-on-write and
  template pages, applied to the entry as it is, with the lock bit set.
\<close>

definition collected_type :: "u32 \<Rightarrow> bool" where
  "collected_type entry = (let type = entry AND VM_FLAGS_TYPE
     in type \<noteq> VM_LAZY_ALLOCATION \<and> type \<noteq> VM_COW_ALLOCATION \<and> type \<noteq> VM_SPAWN_TEMPLATE)"

definition unmap_entry :: "u32 \<Rightarrow> u32 list \<Rightarrow> pm_state \<Rightarrow> (u32 list \<times> pm_state) option" where
  "unmap_entry pt_entry pages s = do {
     s \<leftarrow> lock_page_entry pt_entry s;
     let entry = entry_at s pt_entry;
     let (pages, s) = (if entry AND VM_FLAG_PRESENT \<noteq> 0
       then (if collected_type entry then pages @ [PAGE_MASK entry] else pages, set_entry pt_entry 0 s)
       else (pages, s));
     Some (pages, unlock_page_entry pt_entry s)
   }"

partial_function (option) unmap_pages_loop :: "u32 \<Rightarrow> u32 \<Rightarrow> u32 list \<Rightarrow> pm_state \<Rightarrow> (u32 list \<times> pm_state) option" where
  "unmap_pages_loop vaddr end_vaddr pages s =
     (if vaddr < end_vaddr then do {
        s \<leftarrow> lock_page_entry (pde_address vaddr) s;
        let absent = (entry_at s (pde_address vaddr) AND VM_FLAG_PRESENT = 0);
        let s = unlock_page_entry (pde_address vaddr) s;
        if absent
        then unmap_pages_loop (((vaddr + 0x400000) AND NOT 0x3FFFFF) - PAGE_SIZE + PAGE_SIZE) end_vaddr pages s
        else do {
          (pages, s) \<leftarrow> unmap_entry (pte_address vaddr) pages s;
          unmap_pages_loop (vaddr + PAGE_SIZE) end_vaddr pages s
        }
      } else Some (pages, s))"

fun table_is_empty :: "nat \<Rightarrow> u32 \<Rightarrow> pm_state \<Rightarrow> (bool \<times> pm_state) option" where
  "table_is_empty 0 pt_entry s = Some (True, s)"
| "table_is_empty (Suc n) pt_entry s = do {
     s \<leftarrow> lock_page_entry pt_entry s;
     let used = (PAGE_MASK (entry_at s pt_entry) \<noteq> 0);
     let s = unlock_page_entry pt_entry s;
     if used then Some (False, s) else table_is_empty n (pt_entry + 4) s
   }"

fun unmap_tables_loop :: "nat \<Rightarrow> u32 \<Rightarrow> u32 list \<Rightarrow> pm_state \<Rightarrow> (u32 list \<times> pm_state) option" where
  "unmap_tables_loop 0 pd_index pages s = Some (pages, s)"
| "unmap_tables_loop (Suc n) pd_index pages s = do {
     let pd_entry = VM_PAGE_DIRECTORY + pd_index * 4;
     s \<leftarrow> lock_page_entry pd_entry s;
     if entry_at s pd_entry AND VM_FLAG_PRESENT = 0
     then unmap_tables_loop n (pd_index + 1) pages (unlock_page_entry pd_entry s)
     else do {
       (is_empty, s) \<leftarrow> table_is_empty 1024 (VM_PAGE_TABLES + pd_index * PAGE_SIZE) s;
       let (pages, s) = (if is_empty then (pages @ [PAGE_MASK (entry_at s pd_entry)], set_entry pd_entry 0 s)
         else (pages, s));
       unmap_tables_loop n (pd_index + 1) pages (unlock_page_entry pd_entry s)
     }
   }"

text \<open>At most 2048 frames at a time are mapped at \<open>VM_AREA_FOR_CLEARING_PAGES\<close>, cleared and freed.\<close>

fun map_for_clearing :: "u32 \<Rightarrow> u32 list \<Rightarrow> pm_state \<Rightarrow> pm_state" where
  "map_for_clearing entry [] s = s"
| "map_for_clearing entry (page # pages) s = map_for_clearing (entry + 4) pages (set_entry entry (page OR VM_KERNEL) s)"

definition clear_area :: "nat \<Rightarrow> pm_state \<Rightarrow> pm_state" where
  "clear_area n s = s\<lparr>phys := fold (\<lambda>i m. mem_fill m
     (PAGE_MASK (entry_at s (pte_address VM_AREA_FOR_CLEARING_PAGES + 4 * of_nat i))) 0 PAGE_SIZE) [0..<n] (phys s)\<rparr>"

fun free_all :: "u32 list \<Rightarrow> pm_state \<Rightarrow> pm_state option" where
  "free_all [] s = Some s"
| "free_all (page # pages) s = pm_free_page page s \<bind> free_all pages"

function clear_and_free :: "u32 list \<Rightarrow> pm_state \<Rightarrow> pm_state option" where
  "clear_and_free pages s =
     (if pages = [] then Some s
      else do {
        let batch = take 2048 pages;
        let s = clear_area (length batch) (map_for_clearing (pte_address VM_AREA_FOR_CLEARING_PAGES) batch s);
        s \<leftarrow> free_all batch s;
        clear_and_free (drop 2048 pages) s
      })"
  by pat_completeness auto
termination by (relation "measure (length \<circ> fst)") auto

declare clear_and_free.simps [simp del]

definition unmap_physical_pages_from_userspace :: "u32 \<Rightarrow> u32 \<Rightarrow> pm_state \<Rightarrow> (u32 \<times> pm_state) option" where
  "unmap_physical_pages_from_userspace address sz s = do {
     let start_vaddr = round_down PAGE_SIZE address;
     let end_vaddr = round_down PAGE_SIZE (address + sz + PAGE_SIZE - 1);
     (pages, s) \<leftarrow> unmap_pages_loop start_vaddr end_vaddr [] s;
     let first_pd_index = drop_bit 22 start_vaddr;
     let last_pd_index = drop_bit 22 (end_vaddr - 1);
     (pages, s) \<leftarrow> unmap_tables_loop (if first_pd_index \<le> last_pd_index
       then unat last_pd_index - unat first_pd_index + 1 else 0) first_pd_index pages s;
     s \<leftarrow> clear_and_free pages s;
     Some (SUCCESS, s)
   }"

section \<open>What paging needs of the page allocator\<close>

definition pm_capacity :: "pm_state \<Rightarrow> nat" where
  "pm_capacity s = unat (pm_stack_last_entry s - VM_PHYSICAL_PAGES_STACK) div 4"

definition pm_ready :: "pm_state \<Rightarrow> bool" where
  "pm_ready s \<longleftrightarrow> pm_wf s \<and> pm_functions s \<noteq> No_functions
     \<and> (pm_functions s = Direct_functions \<longrightarrow> local_pages s = [])"

definition in_stack :: "u32 \<Rightarrow> bool" where
  "in_stack a \<longleftrightarrow> inside VM_PHYSICAL_PAGES_STACK 0x400000 a"

lemma in_stack_unat: "in_stack a \<longleftrightarrow> 4286578688 \<le> unat a \<and> unat a < 4290772992"
  by (simp add: in_stack_def inside_unat pm_constants)

lemma store32_slot_frame: "n < 1048576 \<Longrightarrow> \<not> in_stack a \<Longrightarrow> store32 m (slot n) w a = m a"
  by (rule store32_outside) (auto simp: in_stack_unat inside_unat unat_slot)

lemma capacity_slot: "stack_ok s \<Longrightarrow> pm_capacity s \<le> 1048576 \<and> pm_stack_last_entry s = slot (pm_capacity s) \<and> pm_count s \<le> pm_capacity s"
  using pm_count_slot [of _ "s\<lparr>pm_stack_pointer := pm_stack_last_entry s\<rparr>"]
  by (auto simp: stack_ok_def pm_capacity_def pm_count_def)

lemma stack_room: "stack_ok s \<Longrightarrow> pm_count s < pm_capacity s \<Longrightarrow> pm_stack_pointer s \<noteq> pm_stack_last_entry s"
  using slot_eq_iff [of "pm_count s" "pm_capacity s"] capacity_slot [of s] by (auto simp: stack_ok_def)

lemma unload_pages_total:
  assumes "stack_ok s" "pm_count s + i \<le> pm_capacity s"
  shows "\<exists>index' s'. unload_pages i stack index s = Some (index', s')
    \<and> (\<forall>a. \<not> in_stack a \<longrightarrow> virt s' a = virt s a)"
  using assms
proof (induction i arbitrary: index s)
  case (Suc i)
  have room: "pm_stack_pointer s \<noteq> pm_stack_last_entry s"
    using Suc.prems by (intro stack_room) auto
  have n: "pm_count s < 1048576" by (rule stack_ok_full [OF Suc.prems(1) room])
  let ?page = "stack ! unat index"
  let ?s = "s\<lparr>virt := store32 (virt s) (pm_stack_pointer s) ?page, pm_stack_pointer := pm_stack_pointer s + 4\<rparr>"
  note pushed = push_page [OF Suc.prems(1) room, of ?s ?page]
  have "pm_capacity ?s = pm_capacity s" by (simp add: pm_capacity_def)
  then obtain index' s' where "unload_pages i stack (index - 1) ?s = Some (index', s')"
      "\<forall>a. \<not> in_stack a \<longrightarrow> virt s' a = virt ?s a"
    using Suc.IH [of ?s "index - 1"] pushed Suc.prems(2) by auto
  moreover have "virt ?s a = virt s a" if "\<not> in_stack a" for a
    using that n Suc.prems(1) by (simp add: stack_ok_def store32_slot_frame)
  ultimately show ?case using room by simp
qed simp

lemma load_pages_frame: "load_pages i stack index s = (stack', index', s') \<Longrightarrow> \<exists>p. s' = s\<lparr>pm_stack_pointer := p\<rparr>"
proof (induction i arbitrary: stack index s)
  case 0
  then show ?case by (auto intro: exI [of _ "pm_stack_pointer s"])
next
  case (Suc i)
  show ?case
  proof (cases "pm_stack_pointer s = VM_PHYSICAL_PAGES_STACK")
    case True
    with Suc.prems show ?thesis by (auto intro: exI [of _ "pm_stack_pointer s"])
  next
    case False
    with Suc.prems show ?thesis by (auto simp: Let_def dest!: Suc.IH)
  qed
qed

text \<open>Allocation succeeds while a page is free and touches no memory.\<close>

lemma alloc_ready:
  assumes "pm_ready s" "free_pages s \<noteq> {#}"
  obtains p s' where "pm_alloc_page s = Some (p, s')" "pm_ready s'" "free_pages s = add_mset p (free_pages s')"
    "virt s' = virt s" "phys s' = phys s" "pm_capacity s' = pm_capacity s"
proof -
  have wf: "pm_wf s" using assms(1) by (simp add: pm_ready_def)
  have lock: "lock_mutex (pm_stack_mutex s) = Some 1" using wf by (simp add: pm_wf_def)
  have "pm_alloc_page s \<noteq> None"
    using alloc_fails_iff [OF wf] assms by (cases "pm_functions s") (auto simp: pm_ready_def pm_alloc_page_def free_pages_def)
  then obtain p s' where r: "pm_alloc_page s = Some (p, s')" by auto
  have frame: "virt s' = virt s \<and> phys s' = phys s \<and> pm_capacity s' = pm_capacity s \<and> pm_functions s' = pm_functions s
    \<and> (pm_functions s = Direct_functions \<longrightarrow> local_pages s' = local_pages s)"
  proof (cases "pm_functions s")
    case Direct_functions
    then show ?thesis using r lock
      by (auto simp: pm_alloc_page_def pm_direct_alloc_page_def Let_def pm_capacity_def local_pages_def split: if_splits)
  next
    case Local_functions
    then show ?thesis using r lock
      by (auto simp: pm_alloc_page_def pm_local_alloc_page_def Let_def pm_capacity_def split: if_splits prod.splits dest!: load_pages_frame)
  qed (use assms in \<open>simp add: pm_ready_def\<close>)
  show ?thesis
    using that [OF r] current_pages.alloc_page [OF wf r] frame assms(1) by (auto simp: pm_ready_def)
qed

text \<open>A free succeeds while the stack has room and touches no memory but the stack.\<close>

lemma free_ready:
  assumes "pm_ready s" "size (free_pages s) < pm_capacity s"
  obtains s' where "pm_free_page p s = Some s'" "pm_ready s'" "free_pages s' = add_mset p (free_pages s)"
    "\<And>a. \<not> in_stack a \<Longrightarrow> virt s' a = virt s a" "phys s' = phys s" "pm_capacity s' = pm_capacity s"
proof -
  have wf: "pm_wf s" and ok: "stack_ok s" using assms(1) by (simp_all add: pm_ready_def pm_wf_def)
  have lock: "lock_mutex (pm_stack_mutex s) = Some 1" using wf by (simp add: pm_wf_def)
  have sz: "size (free_pages s) = pm_count s + unat (physical_pages_stack s ! 0)"
    using wf by (auto simp: free_pages_def global_pages_def local_pages_def pm_wf_def word_le_nat_alt)
  have room: "pm_stack_pointer s \<noteq> pm_stack_last_entry s" using assms(2) sz ok by (intro stack_room) auto
  have "\<exists>s'. pm_free_page p s = Some s' \<and> (\<forall>a. \<not> in_stack a \<longrightarrow> virt s' a = virt s a) \<and> phys s' = phys s
     \<and> pm_capacity s' = pm_capacity s \<and> pm_functions s' = pm_functions s
     \<and> (pm_functions s = Direct_functions \<longrightarrow> local_pages s' = local_pages s)"
  proof (cases "pm_functions s")
    case Direct_functions
    have "pm_stack_pointer s = slot (pm_count s)" using ok by (simp add: stack_ok_def)
    then show ?thesis using Direct_functions lock room stack_ok_full [OF ok room]
      by (auto simp: pm_free_page_def pm_direct_free_page_def Let_def pm_capacity_def local_pages_def store32_slot_frame)
  next
    case Local_functions
    show ?thesis
    proof (cases "physical_pages_stack s ! 0 = 255")
      case True
      let ?s = "s\<lparr>pm_stack_mutex := 1\<rparr>"
      have "stack_ok ?s" "pm_count ?s + 128 \<le> pm_capacity ?s"
        using ok assms(2) sz True by (auto simp: stack_ok_def pm_count_def pm_capacity_def)
      then obtain index' s' where u: "unload_pages 128 (physical_pages_stack s) 255 ?s = Some (index', s')"
          "\<forall>a. \<not> in_stack a \<longrightarrow> virt s' a = virt ?s a"
        using unload_pages_total by blast
      moreover have "\<exists>q m. s' = ?s\<lparr>virt := m, pm_stack_pointer := q\<rparr>"
        using unload_pages_moves [OF \<open>stack_ok ?s\<close> _ _ _ u(1)] wf by (auto simp: pm_wf_def)
      ultimately show ?thesis using Local_functions True lock
        by (auto simp: pm_free_page_def pm_local_free_page_def Let_def pm_capacity_def)
    next
      case False
      then show ?thesis using Local_functions
        by (auto simp: pm_free_page_def pm_local_free_page_def Let_def pm_capacity_def)
    qed
  qed (use assms in \<open>simp add: pm_ready_def\<close>)
  then obtain s' where s': "pm_free_page p s = Some s'" "\<forall>a. \<not> in_stack a \<longrightarrow> virt s' a = virt s a" "phys s' = phys s"
     "pm_capacity s' = pm_capacity s" "pm_functions s' = pm_functions s"
     "pm_functions s = Direct_functions \<longrightarrow> local_pages s' = local_pages s" by blast
  show ?thesis
    using that [OF s'(1)] current_pages.free_page [OF wf s'(1)] s' assms(1) by (auto simp: pm_ready_def)
qed

section \<open>The page tables as a function\<close>

text \<open>
  Entry \<open>i\<close> maps page \<open>i\<close> of the virtual space; the entries from \<open>1047552\<close> on are the page
  directory, which the recursive mapping shows as the last table.
\<close>

definition pte_at :: "nat \<Rightarrow> u32" where
  "pte_at i = VM_PAGE_TABLES + 4 * of_nat i"

definition table :: "pm_state \<Rightarrow> nat \<Rightarrow> u32" where
  "table s i = (if i < 1048576 then entry_at s (pte_at i) else 0)"

definition page_index :: "u32 \<Rightarrow> nat" where
  "page_index vm = unat vm div 4096"

definition directory_index :: "u32 \<Rightarrow> nat" where
  "directory_index vm = 1047552 + unat vm div 4194304"

abbreviation locked :: "u32 \<Rightarrow> bool" where
  "locked entry \<equiv> entry AND VM_FLAG_SPINLOCK \<noteq> 0"

lemma unat_pte_at: "i < 1048576 \<Longrightarrow> unat (pte_at i) = 4290772992 + 4 * i"
proof -
  assume i: "i < 1048576"
  then have "unat (of_nat i :: u32) = i" by (intro unat_of_nat32) simp
  then have "unat (4 * of_nat i :: u32) = 4 * i" using i by (subst unat_mult_small) auto
  then show ?thesis using i by (simp add: pte_at_def pm_constants unat_add_small)
qed

lemma pte_at_add: "pte_at i + 4 = pte_at (Suc i)" "pte_at (i + j) = pte_at i + 4 * of_nat j"
  by (simp_all add: pte_at_def algebra_simps)

lemma page_index_less: "page_index vm < 1048576"
  using unat_less_4G [of vm] by (simp add: page_index_def less_mult_imp_div_less)

lemma directory_index_less: "directory_index vm < 1048576"
  using unat_less_4G [of vm] by (simp add: directory_index_def less_mult_imp_div_less)

lemma pte_address_index: "pte_address vm = pte_at (page_index vm)"
proof -
  have "drop_bit 12 vm = of_nat (page_index vm)"
    by (rule word_unat_eq_iff [THEN iffD2])
      (use page_index_less [of vm] in \<open>simp add: drop_bit_eq_div unat_div_distrib page_index_def unat_of_nat32\<close>)
  then show ?thesis by (simp add: pte_address_def pte_at_def)
qed

lemma pde_address_index: "pde_address vm = pte_at (directory_index vm)"
proof -
  have "unat vm div 4194304 < 1024" using unat_less_4G [of vm] by (simp add: less_mult_imp_div_less)
  then have "drop_bit 22 vm = of_nat (unat vm div 4194304)"
    by (intro word_unat_eq_iff [THEN iffD2]) (simp add: drop_bit_eq_div unat_div_distrib unat_of_nat32)
  then show ?thesis by (simp add: pde_address_def pte_at_def directory_index_def pm_constants algebra_simps)
qed

lemma page_index_add:
  "unat vm + 4096 * n < 4294967296 \<Longrightarrow> page_index (vm + 4096 * of_nat n) = page_index vm + n"
proof -
  assume n: "unat vm + 4096 * n < 4294967296"
  then have "unat (of_nat n :: u32) = n" by (intro unat_of_nat32) simp
  then have "unat (4096 * of_nat n :: u32) = 4096 * n" using n by (subst unat_mult_small) auto
  then show ?thesis using n by (simp add: page_index_def unat_add_small)
qed

lemma pte_at_apart: "i < 1048576 \<Longrightarrow> j < 1048576 \<Longrightarrow> i \<noteq> j \<Longrightarrow> apart (pte_at i) 4 (pte_at j) 4"
  by (cases "i < j") (simp_all add: apart_belowI apart_aboveI unat_pte_at)

lemma table_set_entry: "i < 1048576 \<Longrightarrow> table (set_entry (pte_at i) w s) = (table s)(i := w)"
  by (auto simp: table_def set_entry_def fun_eq_iff mem_simps pte_at_apart)

lemma entry_at_table: "i < 1048576 \<Longrightarrow> load32 (virt s) (pte_at i) = table s i"
  by (simp add: table_def)

lemma table_cong: "(\<And>a. 4290772992 \<le> unat a \<Longrightarrow> virt s' a = virt s a) \<Longrightarrow> table s' = table s"
proof
  fix i assume *: "\<And>a. 4290772992 \<le> unat a \<Longrightarrow> virt s' a = virt s a"
  have "load32 (virt s') (pte_at i) = load32 (virt s) (pte_at i)" if "i < 1048576"
    using * that by (intro load32_cong) (auto simp: inside_unat unat_pte_at)
  then show "table s' i = table s i" by (simp add: table_def)
qed

lemma table_phys [simp]: "table (s\<lparr>phys := m\<rparr>) = table s"
  by (rule table_cong) simp

lemma table_stack: "(\<And>a. \<not> in_stack a \<Longrightarrow> virt s' a = virt s a) \<Longrightarrow> table s' = table s"
  by (rule table_cong) (auto simp: in_stack_unat)

text \<open>What an operation on entries leaves alone.\<close>

definition same_but_tables :: "pm_state \<Rightarrow> pm_state \<Rightarrow> bool" where
  "same_but_tables s s' \<longleftrightarrow> (\<exists>m. s' = s\<lparr>virt := m\<rparr> \<and> (\<forall>a. unat a < 4290772992 \<longrightarrow> m a = virt s a))"

lemma same_but_tables_refl: "same_but_tables s s"
  by (auto simp: same_but_tables_def intro!: exI [of _ "virt s"])

lemma same_but_tables_trans: "same_but_tables s s' \<Longrightarrow> same_but_tables s' s'' \<Longrightarrow> same_but_tables s s''"
  by (auto simp: same_but_tables_def)

lemma same_but_tables_set_entry: "i < 1048576 \<Longrightarrow> same_but_tables s (set_entry (pte_at i) w s)"
  unfolding same_but_tables_def set_entry_def
  by (rule exI [of _ "store32 (virt s) (pte_at i) w"]) (auto simp: unat_pte_at inside_unat intro!: store32_outside)

lemma same_but_tables_pages:
  assumes "same_but_tables s s'" "pm_ready s"
  shows "free_pages s' = free_pages s" "pm_ready s'" "pm_capacity s' = pm_capacity s" "phys s' = phys s"
proof -
  obtain m where m: "s' = s\<lparr>virt := m\<rparr>" "\<forall>a. unat a < 4290772992 \<longrightarrow> m a = virt s a"
    using assms by (auto simp: same_but_tables_def)
  show "phys s' = phys s" "pm_capacity s' = pm_capacity s" using m(1) by (simp_all add: pm_capacity_def)
  have c: "pm_count s' = pm_count s" using m(1) by (simp add: pm_count_def)
  show "pm_ready s'" using m(1) c assms(2) by (simp add: pm_ready_def pm_wf_def stack_ok_def local_pages_def)
  have "pm_count s \<le> 1048576" using assms(2) by (simp add: pm_ready_def pm_wf_def stack_ok_def)
  then have "load32 (virt s') (slot i) = load32 (virt s) (slot i)" if "i < pm_count s" for i
    using that m by (intro load32_cong) (auto simp: inside_unat unat_slot)
  then have "global_pages s' = global_pages s" by (simp add: global_pages_def c slots_def)
  then show "free_pages s' = free_pages s" using m(1) by (simp add: free_pages_def local_pages_def)
qed

section \<open>Locking entries\<close>

lemma lock_page_entry_Some: "lock_page_entry p s = Some s' \<Longrightarrow> \<not> locked (entry_at s p)"
proof (rule lock_page_entry.raw_induct [where P = "\<lambda>p s s'. \<not> locked (entry_at s p)"])
  fix lock :: "u32 \<Rightarrow> pm_state \<Rightarrow> pm_state option" and p s s'
  assume IH: "\<And>p s s'. lock p s = Some s' \<Longrightarrow> \<not> locked (entry_at s p)"
    and step: "(let old = entry_at s p; s' = set_entry p (old OR VM_FLAG_SPINLOCK) s
      in if old AND VM_FLAG_SPINLOCK \<noteq> 0 then lock p s' else Some s') = Some s'"
  show "\<not> locked (entry_at s p)"
  proof
    assume held: "locked (entry_at s p)"
    then have "lock p (set_entry p (entry_at s p OR VM_FLAG_SPINLOCK) s) = Some s'"
      using step by (simp add: Let_def)
    then have "\<not> locked (entry_at (set_entry p (entry_at s p OR VM_FLAG_SPINLOCK) s) p)" by (rule IH)
    then show False by (simp add: set_entry_def mem_simps bit.conj_disj_distrib2 vm_flags)
  qed
qed

lemma lock_page_entry_table:
  assumes "i < 1048576"
  shows "lock_page_entry (pte_at i) s = (if locked (table s i) then None
    else Some (set_entry (pte_at i) (table s i OR VM_FLAG_SPINLOCK) s))"
proof (cases "locked (table s i)")
  case True
  then have "lock_page_entry (pte_at i) s \<noteq> Some s'" for s'
    using lock_page_entry_Some assms by (auto simp: table_def)
  then show ?thesis using True by (cases "lock_page_entry (pte_at i) s") auto
next
  case False
  then show ?thesis using assms by (subst lock_page_entry.simps) (simp add: Let_def table_def)
qed

lemma present_lock [simp]: "present (e OR VM_FLAG_SPINLOCK) \<longleftrightarrow> present e"
  by (simp add: present_def bit.conj_disj_distrib2 vm_flags)

lemma present_unlock [simp]: "present (e AND NOT VM_FLAG_SPINLOCK) \<longleftrightarrow> present e"
proof -
  have "e AND NOT VM_FLAG_SPINLOCK AND VM_FLAG_PRESENT = e AND VM_FLAG_PRESENT"
    by (simp add: vm_flags and.assoc)
  then show ?thesis by (simp add: present_def and.assoc)
qed

lemma not_present_iff: "e AND VM_FLAG_PRESENT = 0 \<longleftrightarrow> \<not> present e"
  by (simp add: present_def vm_flags and_one_eq not_mod_2_eq_0_eq_1)

lemma unlock_locked [simp]: "\<not> locked e \<Longrightarrow> (e OR VM_FLAG_SPINLOCK) AND NOT VM_FLAG_SPINLOCK = e"
  by (auto simp: bit_eq_iff bit_simps)

lemma unlock_page_entry_table: "i < 1048576 \<Longrightarrow>
    unlock_page_entry (pte_at i) s = set_entry (pte_at i) (table s i AND NOT VM_FLAG_SPINLOCK) s"
  by (simp add: unlock_page_entry_def table_def)

lemma store32_twice [simp]: "store32 (store32 m p v) p w = store32 m p w"
  by (auto simp: fun_eq_iff store32_def)

lemma load32_bytes: "ucast (load32 m p) = m p" "ucast (drop_bit 8 (load32 m p)) = m (p + 1)"
  "ucast (drop_bit 16 (load32 m p)) = m (p + 2)" "ucast (drop_bit 24 (load32 m p)) = m (p + 3)"
     apply (rule bit_word_eqI, simp add: load32_def bit_simps)
    apply (rule bit_word_eqI, auto simp: load32_def bit_simps dest: bit_imp_le_length)[1]
   apply (rule bit_word_eqI, auto simp: load32_def bit_simps dest: bit_imp_le_length)[1]
  apply (rule bit_word_eqI, auto simp: load32_def bit_simps dest: bit_imp_le_length)[1]
  done

lemma store32_same [simp]: "store32 m p (load32 m p) = m"
  by (simp add: store32_def load32_bytes)

lemma set_entry_twice [simp]: "set_entry p v (set_entry p w s) = set_entry p v s"
  by (simp add: set_entry_def)

lemma set_entry_same [simp]: "i < 1048576 \<Longrightarrow> set_entry (pte_at i) (table s i) s = s"
  by (simp add: set_entry_def table_def)


section \<open>The loops over entries\<close>

definition missing :: "(nat \<Rightarrow> u32) \<Rightarrow> nat \<Rightarrow> nat \<Rightarrow> nat list" where
  "missing t k n = filter (\<lambda>i. \<not> present (t i)) [k..<k + n]"

definition filled :: "u32 \<Rightarrow> nat \<Rightarrow> nat \<Rightarrow> (nat \<Rightarrow> u32) \<Rightarrow> (nat \<Rightarrow> u32) \<Rightarrow> nat \<Rightarrow> u32" where
  "filled flags k n frame t = (\<lambda>i. if i \<in> set (missing t k n) then frame i OR flags else t i)"

definition unlocked :: "(nat \<Rightarrow> u32) \<Rightarrow> nat \<Rightarrow> nat \<Rightarrow> bool" where
  "unlocked t k n \<longleftrightarrow> (\<forall>i. k \<le> i \<and> i < k + n \<longrightarrow> \<not> locked (t i))"

text \<open>Physical memory, the room on the page stack and all other memory of the kernel are kept.\<close>

definition memory_kept :: "pm_state \<Rightarrow> pm_state \<Rightarrow> bool" where
  "memory_kept s s' \<longleftrightarrow> pm_capacity s' = pm_capacity s \<and> (\<forall>a. unat a < 4286578688 \<longrightarrow> virt s' a = virt s a)"

lemma memory_kept_refl [simp]: "memory_kept s s"
  by (simp add: memory_kept_def)

lemma memory_kept_trans: "memory_kept s s' \<Longrightarrow> memory_kept s' s'' \<Longrightarrow> memory_kept s s''"
  by (simp add: memory_kept_def)

lemma same_but_tables_kept: "same_but_tables s s' \<Longrightarrow> memory_kept s s'"
  by (auto simp: same_but_tables_def memory_kept_def pm_capacity_def)

lemma missing_Suc: "missing t k (Suc n) = (if present (t k) then [] else [k]) @ missing t (Suc k) n"
  by (simp add: missing_def upt_conv_Cons del: upt_Suc)

lemma missing_cong: "(\<And>i. k \<le> i \<Longrightarrow> i < k + n \<Longrightarrow> t' i = t i) \<Longrightarrow> missing t' k n = missing t k n"
  unfolding missing_def by (rule filter_cong) auto

lemma in_missing: "i \<in> set (missing t k n) \<longleftrightarrow> k \<le> i \<and> i < k + n \<and> \<not> present (t i)"
  by (auto simp: missing_def)

lemma page_advance: "unat (page :: u32) + 4096 < 4294967296 \<Longrightarrow> unat (page + PAGE_SIZE) = unat page + 4096"
  by (simp add: PAGE_SIZE_def unat_add_small)

lemma lock_unlock:
  assumes "k < 1048576" "\<not> locked (table s k)"
  shows "unlock_page_entry (pte_at k) (set_entry (pte_at k) (table s k OR VM_FLAG_SPINLOCK) s) = s"
  using assms by (simp add: unlock_page_entry_table table_set_entry)

lemma set_entry_ready:
  assumes "pm_ready s" "k < 1048576"
  shows "pm_ready (set_entry (pte_at k) w s)" "free_pages (set_entry (pte_at k) w s) = free_pages s"
    "pm_capacity (set_entry (pte_at k) w s) = pm_capacity s" "phys (set_entry (pte_at k) w s) = phys s"
    "memory_kept s (set_entry (pte_at k) w s)"
  using same_but_tables_pages [OF same_but_tables_set_entry [OF assms(2)] assms(1)]
    same_but_tables_kept [OF same_but_tables_set_entry [OF assms(2)]] by auto

lemma allocate_loop_fills:
  assumes "pm_ready s" "unlocked (table s) k n" "k + n \<le> 1048576"
    "length (missing (table s) k n) \<le> size (free_pages s)"
    "unat page + 4096 * n < 4294967296" "unat page_end < unat page + 4096 * n"
    "n \<noteq> 0 \<Longrightarrow> unat page + 4096 * (n - 1) \<le> unat page_end" "n = 0 \<Longrightarrow> page_end < page"
  shows "\<exists>frame s'. allocate_loop page page_end (pte_at k) flags s = Some s'
    \<and> table s' = filled flags k n frame (table s)
    \<and> free_pages s = mset (map frame (missing (table s) k n)) + free_pages s'
    \<and> pm_ready s' \<and> phys s' = phys s \<and> memory_kept s s'"
  using assms
proof (induction n arbitrary: s k page)
  case 0
  then show ?case
    by (subst allocate_loop.simps) (auto simp: filled_def missing_def)
next
  case (Suc n)
  have k: "k < 1048576" and unl: "\<not> locked (table s k)"
    using Suc.prems by (auto simp: unlocked_def)
  have adv: "unat (page + PAGE_SIZE) = unat page + 4096" using Suc.prems by (intro page_advance) simp
  have loop: "page \<le> page_end" using Suc.prems by (simp add: word_le_nat_alt)
  let ?s = "set_entry (pte_at k) (table s k OR VM_FLAG_SPINLOCK) s"
  have lock: "lock_page_entry (pte_at k) s = Some ?s" using k unl by (simp add: lock_page_entry_table)
  have next_prems: "unat (page + PAGE_SIZE) + 4096 * n < 4294967296" "unat page_end < unat (page + PAGE_SIZE) + 4096 * n"
    "n \<noteq> 0 \<Longrightarrow> unat (page + PAGE_SIZE) + 4096 * (n - 1) \<le> unat page_end" "n = 0 \<Longrightarrow> page_end < page + PAGE_SIZE"
    "Suc k + n \<le> 1048576"
    using Suc.prems(3,5,6,7) adv by (auto simp: word_less_nat_alt algebra_simps diff_mult_distrib2)
  show ?case
  proof (cases "present (table s k)")
    case True
    have "unlocked (table s) (Suc k) n" using Suc.prems(2) by (auto simp: unlocked_def)
    moreover have miss: "missing (table s) k (Suc n) = missing (table s) (Suc k) n" using True by (simp add: missing_Suc)
    ultimately obtain frame s' where IH: "allocate_loop (page + PAGE_SIZE) page_end (pte_at (Suc k)) flags s = Some s'"
      "table s' = filled flags (Suc k) n frame (table s)"
      "free_pages s = mset (map frame (missing (table s) (Suc k) n)) + free_pages s'"
      "pm_ready s' \<and> phys s' = phys s \<and> memory_kept s s'"
      using Suc.IH [of s "Suc k" "page + PAGE_SIZE"] Suc.prems(1,4) next_prems by auto
    have "allocate_loop page page_end (pte_at k) flags s = Some s'"
      using loop lock True IH(1) k unl
      by (subst allocate_loop.simps) (simp add: entry_at_table table_set_entry lock_unlock pte_at_add(1))
    moreover have "filled flags k (Suc n) frame (table s) = filled flags (Suc k) n frame (table s)"
      by (simp add: filled_def miss)
    ultimately show ?thesis using IH by (intro exI [of _ frame] exI [of _ s']) (simp add: miss)
  next
    case False
    have miss: "missing (table s) k (Suc n) = k # missing (table s) (Suc k) n" using False by (simp add: missing_Suc)
    have "free_pages ?s \<noteq> {#}" using Suc.prems(1,4) k miss by (auto simp: set_entry_ready)
    then obtain p s1 where al: "pm_alloc_page ?s = Some (p, s1)" "pm_ready s1" "free_pages ?s = add_mset p (free_pages s1)"
        "virt s1 = virt ?s" "phys s1 = phys ?s" "pm_capacity s1 = pm_capacity ?s"
      using alloc_ready [of ?s] set_entry_ready(1) [OF Suc.prems(1) k] by blast
    let ?s2 = "set_entry (pte_at k) (p OR flags) s1"
    have t1: "table s1 = table ?s" by (rule table_cong) (simp add: al)
    have t2: "table ?s2 = (table s)(k := p OR flags)" using k by (simp add: table_set_entry t1)
    have ready: "pm_ready ?s2" "free_pages ?s2 = free_pages s1" "phys ?s2 = phys s" "free_pages s = add_mset p (free_pages s1)"
      using al set_entry_ready [OF _ k] Suc.prems(1) by simp_all
    have "memory_kept ?s s1" using al by (simp add: memory_kept_def)
    then have kept: "memory_kept s ?s2"
      using set_entry_ready(5) [OF Suc.prems(1) k] set_entry_ready(5) [OF al(2) k] by (blast intro: memory_kept_trans)
    have "unlocked (table ?s2) (Suc k) n" using Suc.prems(2) by (auto simp: unlocked_def t2)
    moreover have miss2: "missing (table ?s2) (Suc k) n = missing (table s) (Suc k) n" by (rule missing_cong) (simp add: t2)
    ultimately obtain frame s' where IH: "allocate_loop (page + PAGE_SIZE) page_end (pte_at (Suc k)) flags ?s2 = Some s'"
      "table s' = filled flags (Suc k) n frame (table ?s2)"
      "free_pages ?s2 = mset (map frame (missing (table s) (Suc k) n)) + free_pages s'"
      "pm_ready s'" "phys s' = phys ?s2" "memory_kept ?s2 s'"
      using Suc.IH [of ?s2 "Suc k" "page + PAGE_SIZE"] Suc.prems(4) ready next_prems by (auto simp: miss)
    let ?frame = "frame(k := p)"
    have "allocate_loop page page_end (pte_at k) flags s = Some s'"
      using loop lock False IH(1) k al(1)
      by (subst allocate_loop.simps) (simp add: entry_at_table table_set_entry pte_at_add(1))
    moreover have "table s' = filled flags k (Suc n) ?frame (table s)"
      unfolding IH(2) by (auto simp: filled_def miss2 miss t2 in_missing)
    moreover have "map ?frame (missing (table s) (Suc k) n) = map frame (missing (table s) (Suc k) n)"
      by (auto simp: in_missing)
    then have "free_pages s = mset (map ?frame (missing (table s) k (Suc n))) + free_pages s'"
      using IH(3) ready by (simp add: miss del: mset_map map_eq_conv)
    ultimately show ?thesis using IH(4,5) ready(3) memory_kept_trans [OF kept IH(6)] by metis
  qed
qed


text \<open>Directory entries that are already there are only locked and unlocked again.\<close>

definition tables_present :: "(nat \<Rightarrow> u32) \<Rightarrow> nat \<Rightarrow> nat \<Rightarrow> bool" where
  "tables_present t d n \<longleftrightarrow> (\<forall>i. d \<le> i \<and> i < d + n \<longrightarrow> present (t i) \<and> \<not> locked (t i))"

lemma directory_entry: "VM_PAGE_DIRECTORY + of_nat d * 4 = pte_at (1047552 + d)"
  by (simp add: pte_at_def pm_constants algebra_simps)

lemma allocate_tables_present:
  "tables_present (table s) (1047552 + d) n \<Longrightarrow> d + n \<le> 1024 \<Longrightarrow> allocate_tables n (of_nat d) s = Some s"
proof (induction n arbitrary: d)
  case (Suc n)
  have k: "1047552 + d < 1048576" "present (table s (1047552 + d))" "\<not> locked (table s (1047552 + d))"
    using Suc.prems by (auto simp: tables_present_def)
  have "allocate_tables n (of_nat (Suc d)) s = Some s"
    using Suc.prems by (intro Suc.IH) (auto simp: tables_present_def)
  then show ?case using k
    by (simp add: directory_entry lock_page_entry_table entry_at_table table_set_entry lock_unlock add.commute)
qed simp

definition table_count :: "u32 \<Rightarrow> u32 \<Rightarrow> nat" where
  "table_count vm sz = Suc (unat (vm + sz - 1) div 4194304) - unat vm div 4194304"

lemma vm_allocate_page_tables_present:
  assumes "tables_present (table s) (directory_index vm) (table_count vm sz)"
  shows "vm_allocate_page_tables vm sz s = Some s"
proof -
  have top: "unat (a :: u32) div 4194304 < 1024" for a
    using unat_less_4G [of a] by (simp add: less_mult_imp_div_less)
  have index: "drop_bit 22 a = of_nat (unat a div 4194304)" "unat (drop_bit 22 a) = unat a div 4194304" for a :: u32
    using top [of a] by (simp_all add: drop_bit_eq_div word_unat_eq_iff unat_div_distrib unat_of_nat32)
  have "allocate_tables (table_count vm sz) (drop_bit 22 vm) s = Some s"
    unfolding index(1) [of vm] using assms top [of "vm + sz - 1"] top [of vm]
    by (intro allocate_tables_present) (auto simp: directory_index_def table_count_def)
  then show ?thesis
    by (auto simp: vm_allocate_page_tables_def word_le_nat_alt index(2) table_count_def Suc_diff_le not_le Let_def)
qed

text \<open>The entry while its page is being freed.\<close>

lemma claimed_entry:
  "PAGE_MASK (((e OR VM_FLAG_SPINLOCK) AND NOT VM_FLAG_USER) OR VM_FLAG_SPINLOCK) = PAGE_MASK e"
  by (simp add: PAGE_MASK_def bit.conj_disj_distrib2 and.assoc) (simp add: vm_flags)

lemma present_claimed [simp]: "present (e AND NOT VM_FLAG_USER) \<longleftrightarrow> present e"
proof -
  have "NOT VM_FLAG_USER AND VM_FLAG_PRESENT = VM_FLAG_PRESENT" by (simp add: vm_flags)
  then show ?thesis by (simp add: present_def and.assoc)
qed

lemma directory_of_page: "directory_index vm = 1047552 + page_index vm div 1024"
  by (simp add: directory_index_def page_index_def div_mult2_eq [symmetric])

lemma aligned_page: "PAGE_OFFSET_MASK vm = 0 \<Longrightarrow> unat vm = 4096 * page_index vm"
  using mod_mult_div_eq [of "unat vm" 4096] by (simp add: offset_mask_unat page_index_def)

lemma next_page:
  assumes "PAGE_OFFSET_MASK vm = 0" "page_index vm < 1048575"
  shows "PAGE_OFFSET_MASK (vm + PAGE_SIZE) = 0" "page_index (vm + PAGE_SIZE) = Suc (page_index vm)"
proof -
  have "unat (vm + PAGE_SIZE) = unat vm + 4096"
    using aligned_page [OF assms(1)] assms(2) by (intro page_advance) simp
  then show "PAGE_OFFSET_MASK (vm + PAGE_SIZE) = 0" "page_index (vm + PAGE_SIZE) = Suc (page_index vm)"
    using assms(1) by (simp_all add: offset_mask_unat page_index_def)
qed

definition erased :: "nat \<Rightarrow> nat \<Rightarrow> (nat \<Rightarrow> u32) \<Rightarrow> nat \<Rightarrow> u32" where
  "erased k n t = (\<lambda>i. if k \<le> i \<and> i < k + n then 0 else t i)"

definition wiped :: "u32 list \<Rightarrow> mem \<Rightarrow> mem" where
  "wiped frames m = fold (\<lambda>frame m. mem_fill m frame 0 PAGE_SIZE) frames m"

definition frames_of :: "(nat \<Rightarrow> u32) \<Rightarrow> nat \<Rightarrow> nat \<Rightarrow> u32 list" where
  "frames_of t k n = map (\<lambda>i. PAGE_MASK (t i)) [k..<k + n]"

lemma frames_of_Suc: "frames_of t k (Suc n) = PAGE_MASK (t k) # frames_of t (Suc k) n"
  by (simp add: frames_of_def upt_conv_Cons del: upt_Suc)

lemma deallocate_loop_frees:
  assumes "pm_ready s" "unlocked (table s) k n" "k + n \<le> 1047552"
    "\<And>i. k \<le> i \<Longrightarrow> i < k + n \<Longrightarrow> present (table s i) \<and> present (table s (1047552 + i div 1024))"
    "page_index vm = k" "PAGE_OFFSET_MASK vm = 0" "size (free_pages s) + n \<le> pm_capacity s"
  shows "\<exists>s'. deallocate_loop n (pte_at k) vm s = Some s'
    \<and> table s' = erased k n (table s) \<and> free_pages s' = mset (frames_of (table s) k n) + free_pages s
    \<and> phys s' = wiped (frames_of (table s) k n) (phys s) \<and> pm_ready s' \<and> memory_kept s s'"
  using assms
proof (induction n arbitrary: s k vm)
  case 0
  then show ?case by (auto simp: erased_def wiped_def frames_of_def fun_eq_iff)
next
  case (Suc n)
  have k: "k < 1048576" and unl: "\<not> locked (table s k)" and pres: "present (table s k)" "present (table s (1047552 + k div 1024))"
    and d: "1047552 + k div 1024 < 1048576" "1047552 + k div 1024 \<noteq> k"
    using Suc.prems(2,3) Suc.prems(4) [of k] by (auto simp: unlocked_def)
  let ?e = "((table s k OR VM_FLAG_SPINLOCK) AND NOT VM_FLAG_USER) OR VM_FLAG_SPINLOCK"
  let ?frame = "PAGE_MASK (table s k)"
  let ?s1 = "set_entry (pte_at k) ?e s" and ?s2 = "\<lambda>s. s\<lparr>phys := mem_fill (phys s) ?frame 0 PAGE_SIZE\<rparr>"
  have ready: "pm_ready ?s1" "free_pages ?s1 = free_pages s" "pm_capacity ?s1 = pm_capacity s" "phys ?s1 = phys s"
    "memory_kept s ?s1" using set_entry_ready [OF Suc.prems(1) k] by auto
  have "translate ?s1 vm = Some ?frame"
    using k d pres Suc.prems(5,6)
    by (simp add: translate_def pte_address_index pde_address_index directory_of_page entry_at_table
        table_set_entry claimed_entry)
  then have clear: "clear_virtual_page vm ?s1 = Some (?s2 ?s1)" by (simp add: clear_virtual_page_def)
  have ready2: "pm_ready (?s2 ?s1)" "free_pages (?s2 ?s1) = free_pages s" "pm_capacity (?s2 ?s1) = pm_capacity s"
    using ready by (simp_all add: pm_ready_def pm_wf_def stack_ok_def pm_count_def local_pages_def free_pages_def
        global_pages_def pm_capacity_def)
  then obtain s3 where fr: "pm_free_page ?frame (?s2 ?s1) = Some s3" "pm_ready s3" "free_pages s3 = add_mset ?frame (free_pages s)"
    "\<And>a. \<not> in_stack a \<Longrightarrow> virt s3 a = virt (?s2 ?s1) a" "phys s3 = phys (?s2 ?s1)" "pm_capacity s3 = pm_capacity s"
    using free_ready [of "?s2 ?s1" ?frame] Suc.prems(7) by auto
  let ?s4 = "set_entry (pte_at k) 0 s3"
  have t3: "table s3 = table ?s1" using table_stack [OF fr(4)] by simp
  have t4: "table ?s4 = (table s)(k := 0)" using k by (simp add: table_set_entry t3)
  have ready4: "pm_ready ?s4" "free_pages ?s4 = add_mset ?frame (free_pages s)" "pm_capacity ?s4 = pm_capacity s"
    "phys ?s4 = mem_fill (phys s) ?frame 0 PAGE_SIZE" "memory_kept s3 ?s4"
    using set_entry_ready [OF fr(2) k] fr ready by auto
  have "memory_kept ?s1 s3" using fr(4,6) ready(3) by (simp add: memory_kept_def in_stack_unat)
  then have kept: "memory_kept s ?s4" using ready(5) ready4(5) by (blast intro: memory_kept_trans)
  have np: "PAGE_OFFSET_MASK (vm + PAGE_SIZE) = 0" "page_index (vm + PAGE_SIZE) = Suc k"
    using next_page [of vm] Suc.prems(3,5,6) by auto
  have frames: "frames_of (table ?s4) (Suc k) n = frames_of (table s) (Suc k) n"
    by (auto simp: frames_of_def t4)
  have "unlocked (table ?s4) (Suc k) n" using Suc.prems(2) by (auto simp: unlocked_def t4)
  moreover have "present (table ?s4 i) \<and> present (table ?s4 (1047552 + i div 1024))" if "Suc k \<le> i" "i < Suc k + n" for i
    using Suc.prems(3) Suc.prems(4) [of i] that by (auto simp: t4)
  ultimately obtain s' where IH: "deallocate_loop n (pte_at (Suc k)) (vm + PAGE_SIZE) ?s4 = Some s'"
    "table s' = erased (Suc k) n (table ?s4)"
    "free_pages s' = mset (frames_of (table s) (Suc k) n) + free_pages ?s4"
    "phys s' = wiped (frames_of (table s) (Suc k) n) (phys ?s4)" "pm_ready s'" "memory_kept ?s4 s'"
    using Suc.IH [of ?s4 "Suc k" "vm + PAGE_SIZE"] Suc.prems(3,7) np ready4(1,2,3) unfolding frames by auto
  have "deallocate_loop (Suc n) (pte_at k) vm s = Some s'"
    using k unl pres IH(1) clear fr(1) np
    by (simp add: lock_page_entry_table entry_at_table table_set_entry not_present_iff pte_at_add(1) claimed_entry t3 Let_def)
  moreover have "table s' = erased k (Suc n) (table s)" unfolding IH(2) by (auto simp: erased_def t4)
  ultimately show ?case
    using IH(3,4,5) ready4 memory_kept_trans [OF kept IH(6)] by (simp add: frames_of_Suc wiped_def)
qed


text \<open>
  Moving the entries. Upwards the last one goes first, downwards the first one, so the two
  ranges may overlap.
\<close>

definition moved_entries :: "nat \<Rightarrow> nat \<Rightarrow> nat \<Rightarrow> (nat \<Rightarrow> u32) \<Rightarrow> nat \<Rightarrow> u32" where
  "moved_entries old new n t = (\<lambda>i. if new \<le> i \<and> i < new + n then t (i + old - new)
     else if old \<le> i \<and> i < old + n then 0 else t i)"

lemma move_step:
  assumes "i < 1048576" "j < 1048576" "i \<noteq> j" "\<not> locked (table s i)" "\<not> locked (table s j)"
  obtains s' where "move_loop (Suc n) (pte_at i) (pte_at j) step s = move_loop n (pte_at i + step) (pte_at j + step) step s'"
    "table s' = (table s)(j := table s i, i := 0)" "same_but_tables s s'"
proof -
  define s1 where "s1 = set_entry (pte_at i) (table s i OR VM_FLAG_SPINLOCK) s"
  define s2 where "s2 = set_entry (pte_at j) (table s1 j OR VM_FLAG_SPINLOCK) s1"
  define s3 where "s3 = set_entry (pte_at j) (table s2 i) s2"
  define s4 where "s4 = set_entry (pte_at i) 0 s3"
  define s5 where "s5 = unlock_page_entry (pte_at j) s4"
  define s6 where "s6 = unlock_page_entry (pte_at i) s5"
  note defs = s1_def s2_def s3_def s4_def s5_def s6_def
  have "lock_page_entry (pte_at i) s = Some s1" using assms by (simp add: s1_def lock_page_entry_table)
  moreover have "lock_page_entry (pte_at j) s1 = Some s2"
    using assms by (simp add: s2_def lock_page_entry_table) (simp add: s1_def table_set_entry)
  ultimately have "move_loop (Suc n) (pte_at i) (pte_at j) step s = move_loop n (pte_at i + step) (pte_at j + step) step s6"
    using assms by (simp add: s3_def s4_def s5_def s6_def entry_at_table Let_def)
  moreover have "table s6 = (table s)(j := table s i, i := 0)"
    using assms by (auto simp: defs unlock_page_entry_table table_set_entry fun_eq_iff)
  moreover have "same_but_tables s s6"
    unfolding defs unlock_page_entry_def
    by (intro same_but_tables_trans [OF _ same_but_tables_set_entry] same_but_tables_set_entry assms)
  ultimately show ?thesis by (rule that)
qed

lemma move_down:
  assumes "new < old" "old + n \<le> 1048576" "unlocked (table s) old n" "unlocked (table s) new n"
  shows "\<exists>s'. move_loop n (pte_at old) (pte_at new) 4 s = Some s'
    \<and> table s' = moved_entries old new n (table s) \<and> same_but_tables s s'"
  using assms
proof (induction n arbitrary: old new s)
  case 0
  then show ?case by (auto simp: moved_entries_def fun_eq_iff same_but_tables_refl)
next
  case (Suc n)
  have "\<not> locked (table s old)" "\<not> locked (table s new)" using Suc.prems(3,4) by (auto simp: unlocked_def)
  with Suc.prems(1,2) obtain s1 where s1:
    "move_loop (Suc n) (pte_at old) (pte_at new) 4 s = move_loop n (pte_at (Suc old)) (pte_at (Suc new)) 4 s1"
    "table s1 = (table s)(new := table s old, old := 0)" "same_but_tables s s1"
    using move_step [of old new s n 4] by (auto simp: pte_at_add(1))
  have "unlocked (table s1) (Suc old) n" "unlocked (table s1) (Suc new) n"
    using Suc.prems by (auto simp: unlocked_def s1(2))
  then obtain s' where "move_loop n (pte_at (Suc old)) (pte_at (Suc new)) 4 s1 = Some s'"
    "table s' = moved_entries (Suc old) (Suc new) n (table s1)" "same_but_tables s1 s'"
    using Suc.IH [of "Suc new" "Suc old" s1] Suc.prems(1,2) by auto
  moreover have "moved_entries (Suc old) (Suc new) n (table s1) = moved_entries old new (Suc n) (table s)"
    using Suc.prems(1) by (auto simp: moved_entries_def s1(2) fun_eq_iff Suc_diff_le not_le less_Suc_eq)
  ultimately show ?case using s1(1) same_but_tables_trans [OF s1(3)] by auto
qed

lemma move_up:
  assumes "old < new" "new + n \<le> 1048576" "unlocked (table s) old n" "unlocked (table s) new n"
  shows "\<exists>s'. move_loop n (pte_at (old + n) - 4) (pte_at (new + n) - 4) (- 4) s = Some s'
    \<and> table s' = moved_entries old new n (table s) \<and> same_but_tables s s'"
  using assms
proof (induction n arbitrary: s)
  case 0
  then show ?case by (auto simp: moved_entries_def fun_eq_iff same_but_tables_refl)
next
  case (Suc n)
  have "\<not> locked (table s (old + n))" "\<not> locked (table s (new + n))" using Suc.prems(3,4) by (auto simp: unlocked_def)
  with Suc.prems(1,2) obtain s1 where s1:
    "move_loop (Suc n) (pte_at (old + n)) (pte_at (new + n)) (- 4) s
      = move_loop n (pte_at (old + n) - 4) (pte_at (new + n) - 4) (- 4) s1"
    "table s1 = (table s)(new + n := table s (old + n), old + n := 0)" "same_but_tables s s1"
    using move_step [of "old + n" "new + n" s n "- 4"] by auto
  have "unlocked (table s1) old n" "unlocked (table s1) new n"
    using Suc.prems by (auto simp: unlocked_def s1(2))
  then obtain s' where "move_loop n (pte_at (old + n) - 4) (pte_at (new + n) - 4) (- 4) s1 = Some s'"
    "table s' = moved_entries old new n (table s1)" "same_but_tables s1 s'"
    using Suc.IH [of s1] Suc.prems(1,2) by auto
  moreover have "moved_entries old new n (table s1) = moved_entries old new (Suc n) (table s)"
    using Suc.prems(1) by (auto simp: moved_entries_def s1(2) fun_eq_iff less_Suc_eq)
  moreover have "pte_at (old + Suc n) - 4 = pte_at (old + n)" "pte_at (new + Suc n) - 4 = pte_at (new + n)"
    by (simp_all add: pte_at_def algebra_simps)
  ultimately show ?case using s1(1) same_but_tables_trans [OF s1(3)] by auto
qed


text \<open>The physical frames follow the pages up to the first page that is mapped already.\<close>

definition leading :: "(nat \<Rightarrow> u32) \<Rightarrow> nat \<Rightarrow> nat \<Rightarrow> nat" where
  "leading t k n = length (takeWhile (\<lambda>i. \<not> present (t i)) [k..<k + n])"

definition mapped_run :: "u32 \<Rightarrow> u32 \<Rightarrow> nat \<Rightarrow> nat \<Rightarrow> (nat \<Rightarrow> u32) \<Rightarrow> nat \<Rightarrow> u32" where
  "mapped_run pm flags k n t = (\<lambda>i. if k \<le> i \<and> i < k + n
     then (pm + PAGE_SIZE * of_nat (i - k)) OR flags else t i)"

lemma leading_Suc: "leading t k (Suc n) = (if present (t k) then 0 else Suc (leading t (Suc k) n))"
  by (simp add: leading_def upt_conv_Cons del: upt_Suc)

lemma leading_cong: "(\<And>i. k \<le> i \<Longrightarrow> i < k + n \<Longrightarrow> t' i = t i) \<Longrightarrow> leading t' k n = leading t k n"
  unfolding leading_def by (intro arg_cong [where f = length] takeWhile_cong) auto

lemma map_phy_loop_present:
  "k < 1048576 \<Longrightarrow> present (table s k) \<Longrightarrow> \<not> locked (table s k) \<Longrightarrow> map_phy_loop n (pte_at k) pm flags s = Some s"
  by (induction n arbitrary: pm)
    (simp_all add: lock_page_entry_table entry_at_table table_set_entry lock_unlock)

lemma map_phy_loop_maps:
  assumes "unlocked (table s) k n" "k + n \<le> 1048576"
  shows "\<exists>s'. map_phy_loop n (pte_at k) pm flags s = Some s'
    \<and> table s' = mapped_run pm flags k (leading (table s) k n) (table s) \<and> same_but_tables s s'"
  using assms
proof (induction n arbitrary: k pm s)
  case 0
  then show ?case by (auto simp: mapped_run_def leading_def fun_eq_iff same_but_tables_refl)
next
  case (Suc n)
  have k: "k < 1048576" and unl: "\<not> locked (table s k)" using Suc.prems by (auto simp: unlocked_def)
  show ?case
  proof (cases "present (table s k)")
    case True
    have "mapped_run pm flags k 0 (table s) = table s" by (auto simp: mapped_run_def fun_eq_iff)
    then show ?thesis
      using map_phy_loop_present [OF k True unl, of "Suc n"] True by (simp add: leading_Suc same_but_tables_refl)
  next
    case False
    let ?s = "set_entry (pte_at k) (pm OR flags) s"
    have "leading (table ?s) (Suc k) n = leading (table s) (Suc k) n"
      by (rule leading_cong) (simp add: table_set_entry k)
    moreover have "unlocked (table ?s) (Suc k) n"
      using Suc.prems(1) by (auto simp: unlocked_def table_set_entry k)
    ultimately obtain s' where IH: "map_phy_loop n (pte_at (Suc k)) (pm + PAGE_SIZE) flags ?s = Some s'"
      "table s' = mapped_run (pm + PAGE_SIZE) flags (Suc k) (leading (table s) (Suc k) n) (table ?s)"
      "same_but_tables ?s s'"
      using Suc.IH [of ?s "Suc k" "pm + PAGE_SIZE"] Suc.prems(2) by auto
    have "map_phy_loop (Suc n) (pte_at k) pm flags s = Some s'"
      using k unl False IH(1)
      by (simp add: lock_page_entry_table entry_at_table table_set_entry pte_at_add(1))
    moreover have "i - k = Suc (i - Suc k)" if "Suc k \<le> i" for i using that by simp
    then have "table s' = mapped_run pm flags k (leading (table s) k (Suc n)) (table s)"
      unfolding IH(2) using False
      by (auto simp: mapped_run_def leading_Suc table_set_entry k fun_eq_iff algebra_simps)
    ultimately show ?thesis
      using same_but_tables_trans [OF same_but_tables_set_entry [OF k] IH(3)] by blast
  qed
qed

text \<open>A range of entries locked as a whole.\<close>

definition with_locks :: "nat \<Rightarrow> nat \<Rightarrow> (nat \<Rightarrow> u32) \<Rightarrow> nat \<Rightarrow> u32" where
  "with_locks k n t = (\<lambda>i. if k \<le> i \<and> i < k + n then t i OR VM_FLAG_SPINLOCK else t i)"

lemma same_tables_eq:
  assumes "same_but_tables s s'" "table s' = table s"
  shows "s' = s"
proof -
  obtain m where m: "s' = s\<lparr>virt := m\<rparr>" "\<forall>a. unat a < 4290772992 \<longrightarrow> m a = virt s a"
    using assms(1) by (auto simp: same_but_tables_def)
  have "m a = virt s a" if a: "4290772992 \<le> unat a" for a
  proof -
    define i where "i = (unat a - 4290772992) div 4"
    have "unat a - 4290772992 < 1048576 * 4" using unat_less_4G [of a] by linarith
    then have i: "i < 1048576" unfolding i_def by (rule less_mult_imp_div_less)
    have "unat (pte_at i) = 4290772992 + 4 * i" by (rule unat_pte_at [OF i])
    moreover have "4 * i + (unat a - 4290772992) mod 4 = unat a - 4290772992" by (simp add: i_def)
    moreover have "(unat a - 4290772992) mod 4 < 4" by simp
    ultimately have "inside (pte_at i) 4 a" using a i by (simp add: inside_unat) linarith
    moreover have "load32 m (pte_at i) = load32 (virt s) (pte_at i)"
      using fun_cong [OF assms(2), of i] i by (simp add: table_def m(1))
    ultimately show ?thesis by (metis inside_4 load32_bytes)
  qed
  then have "m = virt s" using m(2) by (intro ext) (metis not_le)
  then show ?thesis using m(1) by simp
qed

lemma unlock_entries_table:
  "k + n \<le> 1048576 \<Longrightarrow> same_but_tables s (unlock_entries n (pte_at k) s) \<and>
    table (unlock_entries n (pte_at k) s) = (\<lambda>i. if k \<le> i \<and> i < k + n then table s i AND NOT VM_FLAG_SPINLOCK else table s i)"
proof (induction n arbitrary: k s)
  case 0
  then show ?case by (auto simp: same_but_tables_refl fun_eq_iff)
next
  case (Suc n)
  let ?s = "set_entry (pte_at k) (table s k AND NOT VM_FLAG_SPINLOCK) s"
  have "unlock_entries (Suc n) (pte_at k) s = unlock_entries n (pte_at (Suc k)) ?s"
    using Suc.prems by (simp add: unlock_page_entry_table pte_at_add(1))
  then show ?case
    using Suc.IH [of "Suc k" ?s] Suc.prems same_but_tables_trans [OF same_but_tables_set_entry [of k s]]
    by (auto simp: table_set_entry fun_eq_iff)
qed

lemma lock_entries_iff:
  "k + n \<le> 1048576 \<Longrightarrow>
    (\<not> unlocked (table s) k n \<longrightarrow> lock_entries n (pte_at k) s = None) \<and>
    (unlocked (table s) k n \<longrightarrow> (\<exists>s'. lock_entries n (pte_at k) s = Some s' \<and> table s' = with_locks k n (table s)
      \<and> unlock_entries n (pte_at k) s' = s \<and> same_but_tables s s'))"
proof (induction n arbitrary: k s)
  case 0
  then show ?case by (auto simp: unlocked_def with_locks_def fun_eq_iff same_but_tables_refl)
next
  case (Suc n)
  have k: "k < 1048576" "Suc k + n \<le> 1048576" using Suc.prems by auto
  show ?case
  proof (cases "locked (table s k)")
    case True
    then have "\<not> unlocked (table s) k (Suc n)" by (auto simp: unlocked_def)
    then show ?thesis using True k by (simp add: lock_page_entry_table)
  next
    case False
    let ?s = "set_entry (pte_at k) (table s k OR VM_FLAG_SPINLOCK) s"
    have "k \<le> i \<and> i < k + Suc n \<longleftrightarrow> i = k \<or> Suc k \<le> i \<and> i < Suc k + n" for i by auto
    then have iff: "unlocked (table s) k (Suc n) \<longleftrightarrow> unlocked (table ?s) (Suc k) n"
      using False by (auto simp: unlocked_def table_set_entry k)
    have step: "lock_entries (Suc n) (pte_at k) s = lock_entries n (pte_at (Suc k)) ?s"
      using False k by (simp add: lock_page_entry_table pte_at_add(1))
    show ?thesis
    proof (cases "unlocked (table ?s) (Suc k) n")
      case True
      then obtain s' where IH: "lock_entries n (pte_at (Suc k)) ?s = Some s'" "table s' = with_locks (Suc k) n (table ?s)"
        "unlock_entries n (pte_at (Suc k)) s' = ?s" "same_but_tables ?s s'"
        using Suc.IH [OF k(2), of ?s] by blast
      have "table s' = with_locks k (Suc n) (table s)"
        unfolding IH(2) by (auto simp: with_locks_def table_set_entry k fun_eq_iff)
      moreover have kept: "same_but_tables s s'"
        by (rule same_but_tables_trans [OF same_but_tables_set_entry [OF k(1)] IH(4)])
      moreover have "unlock_entries (Suc n) (pte_at k) s' = s"
      proof (rule same_tables_eq)
        show "same_but_tables s (unlock_entries (Suc n) (pte_at k) s')"
          using kept unlock_entries_table [OF Suc.prems, of s'] by (blast intro: same_but_tables_trans)
        show "table (unlock_entries (Suc n) (pte_at k) s') = table s"
          using unlock_entries_table [OF Suc.prems, of s'] \<open>table s' = with_locks k (Suc n) (table s)\<close> iff True
          by (auto simp: with_locks_def unlocked_def)
      qed
      ultimately show ?thesis
        using iff True step IH(1) by auto
    next
      case False
      then show ?thesis using Suc.IH [OF k(2), of ?s] iff step by simp
    qed
  qed
qed


section \<open>Sizes in pages\<close>

definition page_count :: "u32 \<Rightarrow> nat" where
  "page_count sz = (unat sz + 4095) div 4096"

lemma page_count_bounds: "unat sz \<le> 4096 * page_count sz" "sz \<noteq> 0 \<Longrightarrow> 4096 * (page_count sz - 1) < unat sz"
  "sz \<noteq> 0 \<Longrightarrow> 0 < page_count sz"
proof -
  have eq: "4096 * page_count sz + (unat sz + 4095) mod 4096 = unat sz + 4095" by (simp add: page_count_def)
  moreover have "(unat sz + 4095) mod 4096 < 4096" by simp
  ultimately show le: "unat sz \<le> 4096 * page_count sz" by linarith
  assume "sz \<noteq> 0"
  then have "0 < unat sz" by (simp add: unat_gt_0)
  with eq le show "4096 * (page_count sz - 1) < unat sz" "0 < page_count sz" by (auto simp: diff_mult_distrib2)
qed

lemma page_count_fits: "4096 * page_count sz < 4294967296 \<Longrightarrow> unat sz + 4095 < 4294967296"
proof (rule ccontr)
  assume "\<not> unat sz + 4095 < 4294967296"
  then have "4294967296 div 4096 \<le> page_count sz" unfolding page_count_def by (intro div_le_mono) simp
  moreover assume "4096 * page_count sz < 4294967296"
  ultimately show False by simp
qed

lemma rounded_size:
  assumes "unat sz + 4095 < 4294967296"
  shows "unat (drop_bit 12 (PAGE_MASK (sz + PAGE_SIZE - 1))) = page_count sz"
    "unat (PAGE_MASK (sz + PAGE_SIZE - 1)) = 4096 * page_count sz"
proof -
  have "sz + PAGE_SIZE - 1 = sz + 4095" by (simp add: PAGE_SIZE_def)
  moreover have u: "unat (sz + 4095) = unat sz + 4095" using assms by (subst unat_add_small) auto
  ultimately have plus: "unat (sz + PAGE_SIZE - 1) = unat sz + 4095" by (simp only:)
  have "drop_bit 12 (PAGE_MASK x) = drop_bit 12 x AND mask 20" for x :: u32
    by (simp add: PAGE_MASK_def mask_eq_exp_minus_1)
  moreover have "drop_bit 12 x AND mask 20 = drop_bit 12 x" for x :: u32
    by (rule bit_word_eqI) (auto simp: bit_simps dest: bit_imp_le_length)
  ultimately have "drop_bit 12 (PAGE_MASK (sz + PAGE_SIZE - 1)) = drop_bit 12 (sz + PAGE_SIZE - 1)" by simp
  then show 1: "unat (drop_bit 12 (PAGE_MASK (sz + PAGE_SIZE - 1))) = page_count sz"
    using plus by (simp add: drop_bit_eq_div unat_div_distrib page_count_def)
  have "PAGE_OFFSET_MASK (PAGE_MASK x) = 0" for x by (simp add: PAGE_OFFSET_MASK_def PAGE_MASK_def and.assoc)
  then have "unat (PAGE_MASK (sz + PAGE_SIZE - 1)) = 4096 * (unat (PAGE_MASK (sz + PAGE_SIZE - 1)) div 4096)"
    using aligned_page by (simp only: page_index_def)
  moreover have "unat (PAGE_MASK (sz + PAGE_SIZE - 1)) div 4096 = page_count sz"
    using 1 by (simp add: drop_bit_eq_div unat_div_distrib)
  ultimately show "unat (PAGE_MASK (sz + PAGE_SIZE - 1)) = 4096 * page_count sz" by (simp only:)
qed

lemma table_pointer: "PAGE_OFFSET_MASK vm = 0 \<Longrightarrow> VM_PAGE_TABLES + drop_bit 10 vm = pte_at (page_index vm)"
proof -
  assume "PAGE_OFFSET_MASK vm = 0"
  then have "unat vm = 4096 * page_index vm" by (rule aligned_page)
  then have "unat (drop_bit 10 vm) = 4 * page_index vm" by (simp add: drop_bit_eq_div unat_div_distrib)
  moreover have "unat (4 * of_nat (page_index vm) :: u32) = 4 * page_index vm"
    using page_index_less [of vm] by (subst unat_mult_small) (simp_all add: unat_of_nat32)
  ultimately have "drop_bit 10 vm = 4 * of_nat (page_index vm)" by (simp only: word_unat_eq_iff)
  then show ?thesis by (simp add: pte_at_def)
qed

section \<open>What the operations do\<close>

lemma vm_allocate_pages_fills:
  assumes "pm_ready s" "unat vm + 4096 * page_count sz < 4294967296"
    "tables_present (table s) (directory_index vm) (table_count vm sz)"
    "unlocked (table s) (page_index vm) (page_count sz)"
    "length (missing (table s) (page_index vm) (page_count sz)) \<le> size (free_pages s)"
  shows "\<exists>frame s'. vm_allocate_pages vm sz flags s = Some s'
    \<and> table s' = filled flags (page_index vm) (page_count sz) frame (table s)
    \<and> free_pages s = mset (map frame (missing (table s) (page_index vm) (page_count sz))) + free_pages s'
    \<and> pm_ready s' \<and> phys s' = phys s \<and> memory_kept s s'"
proof (cases "sz = 0")
  case True
  then show ?thesis using assms(1) by (auto simp: vm_allocate_pages_def page_count_def missing_def filled_def)
next
  case False
  note n = page_count_bounds(1) [of sz] page_count_bounds(2,3) [OF False]
  have last: "unat (vm + sz - 1) = unat vm + unat sz - 1"
    using n assms(2) False by (subst unat_sub) (simp_all add: unat_add_small word_le_nat_alt unat_gt_0)
  have "page_index vm + page_count sz \<le> 1048576"
    using assms(2) unfolding page_index_def by linarith
  then show ?thesis
    using allocate_loop_fills [of s "page_index vm" "page_count sz" vm "vm + sz - 1" flags] assms n last False
    by (simp add: vm_allocate_pages_def vm_allocate_page_tables_present pte_address_index)
qed

lemma vm_deallocate_pages_frees:
  assumes "pm_ready s" "PAGE_OFFSET_MASK vm = 0" "unat vm + 4096 * page_count sz \<le> 4290772992"
    "\<And>i. page_index vm \<le> i \<Longrightarrow> i < page_index vm + page_count sz \<Longrightarrow>
      present (table s i) \<and> present (table s (1047552 + i div 1024))"
    "unlocked (table s) (page_index vm) (page_count sz)" "size (free_pages s) + page_count sz \<le> pm_capacity s"
  shows "\<exists>s'. vm_deallocate_pages vm sz s = Some s'
    \<and> table s' = erased (page_index vm) (page_count sz) (table s)
    \<and> free_pages s' = mset (frames_of (table s) (page_index vm) (page_count sz)) + free_pages s
    \<and> phys s' = wiped (frames_of (table s) (page_index vm) (page_count sz)) (phys s)
    \<and> pm_ready s' \<and> memory_kept s s'"
proof -
  have "page_index vm + page_count sz \<le> 1047552"
    using assms(3) unfolding page_index_def by linarith
  moreover have "unat sz + 4095 < 4294967296" using page_count_bounds(1) [of sz] assms(3) by linarith
  ultimately show ?thesis
    using deallocate_loop_frees [OF assms(1,5) _ assms(4) refl assms(2,6)] rounded_size(1) [of sz] table_pointer [OF assms(2)]
    by (simp add: vm_deallocate_pages_def Let_def)
qed

lemma rounded_minus: 
  assumes "PAGE_OFFSET_MASK vm = 0" "unat vm + 4096 * page_count sz < 4294967296" "0 < page_count sz"
  shows "VM_PAGE_TABLES + drop_bit 10 (vm + PAGE_MASK (sz + PAGE_SIZE - 1) - PAGE_SIZE)
    = pte_at (page_index vm + page_count sz) - 4"
proof -
  let ?last = "vm + PAGE_MASK (sz + PAGE_SIZE - 1) - PAGE_SIZE"
  have "unat sz + 4095 < 4294967296" using assms(2) by (intro page_count_fits) simp
  note r = rounded_size(2) [OF this]
  have "unat ?last = unat vm + 4096 * page_count sz - 4096"
    using assms(2,3) r by (subst unat_sub) (simp_all add: PAGE_SIZE_def unat_add_small word_le_nat_alt)
  then have last: "unat ?last = 4096 * (page_index vm + page_count sz - 1)"
    using aligned_page [OF assms(1)] by (simp add: diff_mult_distrib2)
  then have "VM_PAGE_TABLES + drop_bit 10 ?last = pte_at (page_index ?last)"
    by (intro table_pointer) (simp add: offset_mask_unat)
  also have "page_index ?last = page_index vm + page_count sz - 1" by (simp add: page_index_def [of ?last] last)
  also have "pte_at (page_index vm + page_count sz - 1) = pte_at (page_index vm + page_count sz) - 4"
    using pte_at_add(1) [of "page_index vm + page_count sz - 1"] assms(3) by (simp add: algebra_simps)
  finally show ?thesis .
qed


text \<open>The directory entries of a range of pages.\<close>

lemma directory_present:
  assumes "tables_present (table s) (directory_index vm) (table_count vm sz)" "PAGE_OFFSET_MASK vm = 0"
    "unat vm + 4096 * page_count sz < 4294967296" "page_index vm \<le> i" "i < page_index vm + page_count sz"
  shows "present (table s (1047552 + i div 1024))"
proof -
  have nz: "sz \<noteq> 0" using assms(4,5) by (auto simp: page_count_def)
  note n = page_count_bounds(1) [of sz] page_count_bounds(2,3) [OF nz]
  have last: "unat (vm + sz - 1) = unat vm + unat sz - 1"
    using n assms(3) nz by (subst unat_sub) (simp_all add: unat_add_small word_le_nat_alt unat_gt_0)
  have "i * 4096 \<le> unat (vm + sz - 1)" using assms(5) n aligned_page [OF assms(2)] last by linarith
  then have "i * 4096 div 4194304 \<le> unat (vm + sz - 1) div 4194304" by (rule div_le_mono)
  moreover have "i * 4096 div 4194304 = i div 1024" using div_mult_mult2 [of 4096 i 1024] by simp
  moreover have "page_index vm div 1024 \<le> i div 1024" using assms(4) by (rule div_le_mono)
  moreover have "page_index vm div 1024 = unat vm div 4194304"
    by (simp add: page_index_def div_mult2_eq [symmetric])
  ultimately show ?thesis
    using assms(1) by (simp add: tables_present_def table_count_def directory_index_def)
qed

lemma mask_of_page: "PAGE_OFFSET_MASK p = 0 \<Longrightarrow> PAGE_MASK flags = 0 \<Longrightarrow> PAGE_MASK (p OR flags) = p"
  using mask_of_aligned [of p] by (simp add: PAGE_MASK_def bit.conj_disj_distrib2)

lemma present_or: "present flags \<Longrightarrow> present (p OR flags)"
  by (auto simp: present_def vm_flags and_one_eq even_or_iff odd_iff_mod_2_eq_one [symmetric])

section \<open>Properties\<close>

text \<open>A small state: no page mapped, one page table at four megabytes, two free pages.\<close>

definition one_table :: "page_functions \<Rightarrow> pm_state" where
  "one_table f = set_entry (pte_at 1047553) 7 (two_pages f)"

lemma one_table:
  "table (one_table f) = (\<lambda>_. 0)(1047553 := 7)" "free_pages (one_table f) = {#0x5000, 0x7000#}" "pm_capacity (one_table f) = 2"
  "pm_ready (one_table Direct_functions)" 
proof -
  let ?z = "(two_pages f)\<lparr>virt := (\<lambda>_. 0)\<rparr>"
  have "table (two_pages f) = table ?z"
    by (rule table_stack) (simp add: two_pages_def store32_slot_frame)
  also have "table ?z = (\<lambda>_. 0)" by (simp add: table_def load32_def fun_eq_iff)
  finally show "table (one_table f) = (\<lambda>_. 0)(1047553 := 7)" by (simp add: one_table_def table_set_entry)
  have ready: "pm_ready ((two_pages f)\<lparr>pm_functions := Direct_functions\<rparr>)" for f
    using two_pages_wf(1) [of Direct_functions] by (simp add: pm_ready_def local_pages_def two_pages_def)
  then show "pm_ready (one_table Direct_functions)"
    using set_entry_ready(1) [of "two_pages Direct_functions" 1047553 7] by (simp add: one_table_def two_pages_def)
  have same: "free_pages (one_table f) = free_pages (one_table Direct_functions)"
    by (simp add: one_table_def set_entry_def two_pages_def free_pages_def global_pages_def local_pages_def pm_count_def)
  have "pm_ready (two_pages Direct_functions)" using ready [of Direct_functions] by (simp add: two_pages_def)
  then show "free_pages (one_table f) = {#0x5000, 0x7000#}"
    unfolding same using set_entry_ready(2) [of "two_pages Direct_functions" 1047553 7] two_pages_wf(2)
    by (simp add: one_table_def)
  show "pm_capacity (one_table f) = 2"
    by (simp add: one_table_def set_entry_def pm_capacity_def two_pages_def slot_def)
qed

text \<open>
  C6. \<open>vm_allocate_pages\<close> returns whenever enough pages are free, every page of the range is
  mapped afterwards, the pages that were mapped before keep their entries, every other page gets
  a frame of its own that was free and is not free any more, and no other entry and no other
  memory changes.
\<close>

theorem vm_allocate_maps_missing_pages:
  assumes "pm_ready s" "unat vm + 4096 * page_count sz < 4294967296"
    "tables_present (table s) (directory_index vm) (table_count vm sz)"
    "unlocked (table s) (page_index vm) (page_count sz)"
    "length (missing (table s) (page_index vm) (page_count sz)) \<le> size (free_pages s)"
    "present flags"
  shows "\<exists>frame s'. vm_allocate_pages vm sz flags s = Some s'
    \<and> (\<forall>i. page_index vm \<le> i \<and> i < page_index vm + page_count sz \<longrightarrow> present (table s' i))
    \<and> table s' = filled flags (page_index vm) (page_count sz) frame (table s)
    \<and> free_pages s = mset (map frame (missing (table s) (page_index vm) (page_count sz))) + free_pages s'
    \<and> phys s' = phys s \<and> memory_kept s s'"
proof -
  have "present (filled flags k n frame t i)" if "k \<le> i" "i < k + n" for k n frame t i
    using that assms(6) by (simp add: filled_def in_missing present_or)
  then show ?thesis using vm_allocate_pages_fills [OF assms(1-5)] by metis
qed

lemma one_table_range:
  "tables_present (table (one_table f)) (directory_index 0x400000) (table_count 0x400000 0x1800)"
  "page_index 0x400000 = 1024" "page_count 0x1800 = 2" "unlocked (table (one_table f)) 1024 2"
  "missing (table (one_table f)) 1024 2 = [1024, 1025]"
  by (auto simp: tables_present_def directory_index_def table_count_def one_table page_index_def page_count_def
      present_def vm_flags unlocked_def missing_def upt_rec)

theorem vm_allocate_maps_missing_pages_witness:
  "\<exists>s'. vm_allocate_pages 0x400000 0x1800 VM_USER (one_table Direct_functions) = Some s'
    \<and> present (table s' 1024) \<and> present (table s' 1025) \<and> free_pages s' = {#}"
proof -
  have "present VM_USER" by (simp add: present_def vm_flags)
  then obtain frame s' where r: "vm_allocate_pages 0x400000 0x1800 VM_USER (one_table Direct_functions) = Some s'"
    "\<forall>i. 1024 \<le> i \<and> i < 1024 + 2 \<longrightarrow> present (table s' i)"
    "{#0x5000, 0x7000#} = mset (map (frame :: nat \<Rightarrow> u32) [1024, 1025]) + free_pages s'"
    using vm_allocate_maps_missing_pages [of "one_table Direct_functions" "0x400000" "0x1800" VM_USER]
    unfolding one_table(2) one_table_range by (auto simp: one_table(4) one_table_range)
  have "size {#0x5000, 0x7000 :: u32#} = size (mset (map frame [1024, 1025]) + free_pages s')" using r(3) by (simp only:)
  then have "free_pages s' = {#}" by simp
  with r(1,2) show ?thesis by auto
qed


text \<open>
  C13. \<open>vm_deallocate_pages\<close> on a page-aligned range of the user or kernel space whose pages are
  all mapped returns, unmaps exactly these pages, overwrites their frames with zeros and gives
  the frames back to the free pages.
\<close>

theorem vm_deallocate_returns_clear_frames:
  assumes "pm_ready s" "PAGE_OFFSET_MASK vm = 0" "unat vm + 4096 * page_count sz \<le> 4290772992"
    "\<And>i. page_index vm \<le> i \<Longrightarrow> i < page_index vm + page_count sz \<Longrightarrow>
      present (table s i) \<and> present (table s (1047552 + i div 1024))"
    "unlocked (table s) (page_index vm) (page_count sz)" "size (free_pages s) + page_count sz \<le> pm_capacity s"
  shows "\<exists>s'. vm_deallocate_pages vm sz s = Some s'
    \<and> table s' = erased (page_index vm) (page_count sz) (table s)
    \<and> free_pages s' = mset (frames_of (table s) (page_index vm) (page_count sz)) + free_pages s
    \<and> phys s' = wiped (frames_of (table s) (page_index vm) (page_count sz)) (phys s) \<and> memory_kept s s'"
  using vm_deallocate_pages_frees [OF assms] by blast

text \<open>The same state with one frame mapped, and room for it on the stack.\<close>

definition one_page :: "page_functions \<Rightarrow> pm_state" where
  "one_page f = set_entry (pte_at 1024) 0x9007 (one_table f\<lparr>pm_stack_last_entry := slot 3\<rparr>)"

lemma one_page:
  "table (one_page f) = (\<lambda>_. 0)(1047553 := 7, 1024 := 0x9007)" "free_pages (one_page Direct_functions) = {#0x5000, 0x7000#}"
  "pm_capacity (one_page Direct_functions) = 3" "pm_ready (one_page Direct_functions)"
proof -
  let ?s = "one_table Direct_functions\<lparr>pm_stack_last_entry := slot 3\<rparr>"
  have "table (one_table f\<lparr>pm_stack_last_entry := p\<rparr>) = table (one_table f)" for f p by (rule table_cong) simp
  then show "table (one_page f) = (\<lambda>_. 0)(1047553 := 7, 1024 := 0x9007)"
    by (simp add: one_page_def table_set_entry one_table)
  have "pm_wf (one_table Direct_functions)" using one_table(4) by (simp add: pm_ready_def)
  moreover have "pm_count (one_table Direct_functions) = 2"
    by (rule pm_count_slot) (simp_all add: one_table_def set_entry_def two_pages_def)
  moreover have "pm_count ?s = pm_count (one_table Direct_functions)" by (simp add: pm_count_def)
  ultimately have "pm_wf ?s" by (auto simp: pm_wf_def stack_ok_def intro!: exI [of _ 3])
  then have ready: "pm_ready ?s" using one_table(4) by (simp add: pm_ready_def local_pages_def)
  have "free_pages ?s = free_pages (one_table Direct_functions)"
    by (simp add: free_pages_def global_pages_def local_pages_def pm_count_def)
  then show "free_pages (one_page Direct_functions) = {#0x5000, 0x7000#}" "pm_capacity (one_page Direct_functions) = 3"
    "pm_ready (one_page Direct_functions)"
    using set_entry_ready [OF ready, of 1024 "0x9007"] by (simp_all add: one_page_def one_table pm_capacity_def slot_def)
qed

theorem vm_deallocate_returns_clear_frames_witness:
  "\<exists>s'. vm_deallocate_pages 0x400000 0x1000 (one_page Direct_functions) = Some s'
    \<and> table s' 1024 = 0 \<and> free_pages s' = {#0x9000, 0x5000, 0x7000#}"
proof -
  let ?s = "one_page Direct_functions"
  have index: "page_index 0x400000 = 1024" "page_count 0x1000 = 1" by (simp_all add: page_index_def page_count_def)
  have "frames_of (table ?s) 1024 1 = [0x9000]" by (simp add: frames_of_def one_page PAGE_MASK_def)
  moreover have "present (table ?s i) \<and> present (table ?s (1047552 + i div 1024))" if "1024 \<le> i" "i < 1024 + 1" for i
    using that by (simp add: one_page present_def vm_flags le_less_Suc_eq)
  ultimately show ?thesis
    using vm_deallocate_returns_clear_frames [of ?s "0x400000" "0x1000"] one_page(2,3,4)
    by (auto simp: index one_page PAGE_OFFSET_MASK_def unlocked_def vm_flags erased_def)
qed

text \<open>
  C22. Allocating an unmapped range and deallocating it again gives every frame back: the free
  pages are what they were, and no page of the range is mapped.
\<close>

theorem vm_allocation_round_trip:
  assumes "pm_ready s" "PAGE_OFFSET_MASK vm = 0" "unat vm + 4096 * page_count sz \<le> 4290772992"
    "tables_present (table s) (directory_index vm) (table_count vm sz)"
    "unlocked (table s) (page_index vm) (page_count sz)"
    "\<And>i. page_index vm \<le> i \<Longrightarrow> i < page_index vm + page_count sz \<Longrightarrow> \<not> present (table s i)"
    "page_count sz \<le> size (free_pages s)" "size (free_pages s) \<le> pm_capacity s"
    "\<And>p. p \<in># free_pages s \<Longrightarrow> PAGE_OFFSET_MASK p = 0" "PAGE_MASK flags = 0" "present flags" "\<not> locked flags"
  shows "\<exists>s1 s2. vm_allocate_pages vm sz flags s = Some s1 \<and> vm_deallocate_pages vm sz s1 = Some s2
    \<and> free_pages s2 = free_pages s \<and> table s2 = erased (page_index vm) (page_count sz) (table s)"
proof -
  let ?k = "page_index vm" and ?n = "page_count sz"
  have miss: "missing (table s) ?k ?n = [?k..<?k + ?n]"
    using assms(6) by (simp add: missing_def)
  have fits: "unat vm + 4096 * ?n < 4294967296" "?k + ?n \<le> 1047552"
    using assms(3) unfolding page_index_def by linarith+
  have "length (missing (table s) ?k ?n) \<le> size (free_pages s)" using assms(7) by (simp add: miss)
  then obtain frame s1 where s1: "vm_allocate_pages vm sz flags s = Some s1"
    "table s1 = filled flags ?k ?n frame (table s)" "free_pages s = mset (map frame [?k..<?k + ?n]) + free_pages s1"
    "pm_ready s1" "memory_kept s s1"
    using vm_allocate_pages_fills [OF assms(1) fits(1) assms(4,5), of flags] unfolding miss by blast
  have aligned: "PAGE_OFFSET_MASK (frame i) = 0" if "?k \<le> i" "i < ?k + ?n" for i
    using s1(3) that by (intro assms(9)) auto
  have entry: "table s1 i = (if ?k \<le> i \<and> i < ?k + ?n then frame i OR flags else table s i)" for i
    by (simp add: s1(2) filled_def miss)
  have "PAGE_MASK (table s1 i) = frame i" if "i \<in> set [?k..<?k + ?n]" for i
    using that aligned assms(10) by (simp add: entry mask_of_page)
  then have frames: "frames_of (table s1) ?k ?n = map frame [?k..<?k + ?n]"
    unfolding frames_of_def by (intro map_cong) auto
  have "\<not> locked (frame i OR flags)" if "?k \<le> i" "i < ?k + ?n" for i
  proof -
    have "frame i AND VM_FLAG_SPINLOCK = PAGE_MASK (frame i) AND VM_FLAG_SPINLOCK"
      using aligned [OF that] by (simp add: mask_of_aligned)
    also have "\<dots> = 0" by (simp add: PAGE_MASK_def vm_flags and.assoc)
    finally show ?thesis using assms(12) by (simp add: bit.conj_disj_distrib2)
  qed
  then have "unlocked (table s1) ?k ?n" by (auto simp: unlocked_def entry)
  moreover have "present (table s1 i) \<and> present (table s1 (1047552 + i div 1024))"
    if "?k \<le> i" "i < ?k + ?n" for i
    using that fits(2) directory_present [OF assms(4,2) fits(1) that] assms(11) by (simp add: entry present_or)
  moreover have "size (free_pages s1) + ?n = size (free_pages s)" by (simp add: s1(3))
  then have "size (free_pages s1) + ?n \<le> pm_capacity s1" using s1(5) assms(8) by (simp add: memory_kept_def)
  ultimately obtain s2 where "vm_deallocate_pages vm sz s1 = Some s2" "table s2 = erased ?k ?n (table s1)"
    "free_pages s2 = mset (map frame [?k..<?k + ?n]) + free_pages s1"
    using vm_deallocate_pages_frees [OF s1(4) assms(2,3)] unfolding frames by metis
  moreover have "erased ?k ?n (table s1) = erased ?k ?n (table s)" by (auto simp: erased_def entry)
  ultimately show ?thesis using s1(1,3) by metis
qed

theorem vm_allocation_round_trip_witness:
  "\<exists>s1 s2. vm_allocate_pages 0x400000 0x1800 VM_USER (one_table Direct_functions) = Some s1
    \<and> vm_deallocate_pages 0x400000 0x1800 s1 = Some s2 \<and> free_pages s2 = {#0x5000, 0x7000#}"
proof -
  let ?s = "one_table Direct_functions"
  have "\<not> present (table ?s i)" if "1024 \<le> i" "i < 1024 + 2" for i
    using that by (simp add: one_table(1) present_def vm_flags)
  moreover have "PAGE_OFFSET_MASK p = 0" if "p \<in># free_pages ?s" for p
    using that by (auto simp: one_table(2) PAGE_OFFSET_MASK_def)
  moreover have "PAGE_MASK VM_USER = 0" "present VM_USER" "\<not> locked VM_USER" "PAGE_OFFSET_MASK 0x400000 = 0"
    by (simp_all add: present_def vm_flags PAGE_MASK_def PAGE_OFFSET_MASK_def)
  ultimately show ?thesis
    using vm_allocation_round_trip [of ?s "0x400000" "0x1800" VM_USER] one_table(2-4)
    by (auto simp: one_table_range)
qed


text \<open>
  \<open>vm_move_pages\<close> is a memmove on page table entries: whichever way the ranges overlap, the
  entries of the old range arrive in the new one, the rest of the old range is unmapped, and no
  other entry changes.
\<close>

theorem vm_move_pages_moves_entries:
  assumes "PAGE_OFFSET_MASK old = 0" "PAGE_OFFSET_MASK new = 0" "0 < page_count sz"
    "unat old + 4096 * page_count sz < 4294967296" "unat new + 4096 * page_count sz < 4294967296"
    "tables_present (table s) (directory_index new) (table_count new (PAGE_MASK (sz + PAGE_SIZE - 1)))"
    "unlocked (table s) (page_index old) (page_count sz)" "unlocked (table s) (page_index new) (page_count sz)"
  shows "\<exists>s'. vm_move_pages old new sz s = Some s'
    \<and> table s' = moved_entries (page_index old) (page_index new) (page_count sz) (table s) \<and> same_but_tables s s'"
proof -
  have fits: "page_index old + page_count sz \<le> 1048576" "page_index new + page_count sz \<le> 1048576"
    using assms(4,5) unfolding page_index_def by linarith+
  have "unat sz + 4095 < 4294967296" using assms(4) by (intro page_count_fits) simp
  note rounded = rounded_size(1) [OF this]
  have tables: "vm_allocate_page_tables new (PAGE_MASK (sz + PAGE_SIZE - 1)) s = Some s"
    by (rule vm_allocate_page_tables_present [OF assms(6)])
  have less: "old < new \<longleftrightarrow> page_index old < page_index new"
    unfolding word_less_nat_alt aligned_page [OF assms(1)] aligned_page [OF assms(2)] by simp
  have eq: "old = new \<longleftrightarrow> page_index old = page_index new"
    unfolding word_unat_eq_iff [of old] aligned_page [OF assms(1)] aligned_page [OF assms(2)] by simp
  consider "old = new" | "page_index old < page_index new" | "page_index new < page_index old"
    using eq by (cases "page_index old" "page_index new" rule: linorder_cases) auto
  then show ?thesis
  proof cases
    case 1
    then show ?thesis by (auto simp: vm_move_pages_def moved_entries_def fun_eq_iff same_but_tables_refl)
  next
    case 2
    then show ?thesis
      using move_up [OF 2 fits(2) assms(7,8)] tables rounded less eq
        rounded_minus [OF assms(1,4,3)] rounded_minus [OF assms(2,5,3)]
      by (simp add: vm_move_pages_def Let_def)
  next
    case 3
    then show ?thesis
      using move_down [OF 3 fits(1) assms(7,8)] tables rounded less eq table_pointer [OF assms(1)] table_pointer [OF assms(2)]
      by (simp add: vm_move_pages_def Let_def)
  qed
qed

theorem vm_move_pages_moves_entries_witness:
  "\<exists>s'. vm_move_pages 0x400000 0x401000 0x2000 (one_page Direct_functions) = Some s'
    \<and> table s' 1025 = 0x9007 \<and> table s' 1024 = 0"
proof -
  let ?s = "one_page Direct_functions"
  have index: "page_index 0x400000 = 1024" "page_index 0x401000 = 1025" "page_count 0x2000 = 2"
    "directory_index 0x401000 = 1047553" "table_count 0x401000 (PAGE_MASK (0x2000 + PAGE_SIZE - 1)) = 1"
    by (simp_all add: page_index_def page_count_def directory_index_def table_count_def PAGE_MASK_def PAGE_SIZE_def)
  have "tables_present (table ?s) 1047553 1" "unlocked (table ?s) 1024 2" "unlocked (table ?s) 1025 2"
    by (auto simp: tables_present_def unlocked_def one_page present_def vm_flags)
  then show ?thesis
    using vm_move_pages_moves_entries [of "0x400000" "0x401000" "0x2000" ?s] unfolding index
    by (auto simp: PAGE_OFFSET_MASK_def moved_entries_def one_page)
qed

lemma vm_allocate_page_tables_locked:
  assumes "locked (table s (directory_index vm))" "0 < sz" "unat vm + unat sz \<le> 4294967296"
  shows "vm_allocate_page_tables vm sz s = None"
proof -
  have "0 < unat sz" using assms(2) by (simp add: word_less_nat_alt)
  then have "unat (sz - 1) = unat sz - 1" by (simp add: unat_sub word_le_nat_alt)
  then have "unat (vm + (sz - 1)) = unat vm + unat sz - 1"
    using assms(3) \<open>0 < unat sz\<close> by (subst unat_add_small) linarith+
  then have u: "unat (vm + sz - 1) = unat vm + unat sz - 1" by (simp only: add_diff_eq)
  have top: "unat (a :: u32) div 4194304 < 1024" for a
    using unat_less_4G [of a] by (simp add: less_mult_imp_div_less)
  have index: "drop_bit 22 a = of_nat (unat a div 4194304)" "unat (drop_bit 22 a) = unat a div 4194304" for a :: u32
    using top [of a] by (simp_all add: drop_bit_eq_div word_unat_eq_iff unat_div_distrib unat_of_nat32)
  have "0 < unat sz" using assms(2) by (simp add: word_less_nat_alt)
  then have "unat vm \<le> unat (vm + sz - 1)" using u by linarith
  then have le: "unat vm div 4194304 \<le> unat (vm + sz - 1) div 4194304" by (rule div_le_mono)
  have pde: "VM_PAGE_DIRECTORY + drop_bit 22 vm * 4 = pte_at (directory_index vm)"
    unfolding index(1) directory_entry by (simp add: directory_index_def)
  have "allocate_tables (Suc n) (drop_bit 22 vm) s = None" for n
    using assms(1) directory_index_less [of vm] by (simp add: pde lock_page_entry_table)
  then show ?thesis using le by (simp add: vm_allocate_page_tables_def word_le_nat_alt index(2) Let_def del: allocate_tables.simps)
qed

text \<open>
  \<open>vm_unmap_page\<close> unmaps the page but returns with the lock bit of the directory entry set:
  from then on no page of the same four megabytes can be unmapped, mapped or allocated, every
  attempt spins forever.
\<close>

theorem vm_unmap_leaves_directory_locked:
  assumes "page_index vm < 1047552" "present (table s (directory_index vm))"
    "\<not> locked (table s (directory_index vm))" "\<not> locked (table s (page_index vm))"
  shows "\<exists>s'. vm_unmap_page vm s = Some s'
    \<and> table s' = (table s)(page_index vm := 0, directory_index vm := table s (directory_index vm) OR VM_FLAG_SPINLOCK)
    \<and> vm_unmap_page vm s' = None
    \<and> (\<forall>sz flags. 0 < sz \<and> unat vm + unat sz \<le> 4294967296 \<longrightarrow> vm_allocate_pages vm sz flags s' = None)
    \<and> (\<forall>pm flags. vm_map_page vm pm flags s' = None)"
proof -
  have d: "directory_index vm < 1048576" "page_index vm < 1048576" "page_index vm \<noteq> directory_index vm"
    using directory_index_less page_index_less assms(1) by (auto simp: directory_index_def)
  let ?t = "(table s)(page_index vm := 0, directory_index vm := table s (directory_index vm) OR VM_FLAG_SPINLOCK)"
  obtain s' where s': "vm_unmap_page vm s = Some s'" "table s' = ?t"
    using d assms
    by (auto simp: vm_unmap_page_def pde_address_index pte_address_index lock_page_entry_table entry_at_table
        table_set_entry not_present_iff fun_eq_iff)
  have held: "locked (table s' (directory_index vm))"
    using d by (simp add: s'(2) bit.conj_disj_distrib2) (simp add: vm_flags)
  then have unmap: "vm_unmap_page vm s' = None"
    using d by (simp add: vm_unmap_page_def pde_address_index lock_page_entry_table)
  have alloc: "vm_allocate_pages vm sz flags s' = None" if "0 < sz \<and> unat vm + unat sz \<le> 4294967296" for sz flags
    using vm_allocate_page_tables_locked [OF held] that by (auto simp: vm_allocate_pages_def)
  have "unat vm + unat PAGE_SIZE \<le> 4294967296"
    using assms(1) div_mult_mod_eq [of "unat vm" 4096] mod_less_divisor [of 4096 "unat vm"]
    unfolding page_index_def PAGE_SIZE_def by simp
  then have "vm_map_page vm pm flags s' = None" for pm flags
    using vm_allocate_page_tables_locked [OF held, of PAGE_SIZE]
    by (simp add: vm_map_page_def) (simp add: PAGE_SIZE_def)
  with s' unmap alloc show ?thesis by blast
qed

theorem vm_unmap_leaves_directory_locked_witness:
  "\<exists>s'. vm_unmap_page 0x400000 (one_page Direct_functions) = Some s' \<and> table s' 1024 = 0
    \<and> vm_allocate_pages 0x400000 0x1000 VM_USER s' = None"
proof -
  let ?s = "one_page Direct_functions"
  have index: "page_index 0x400000 = 1024" "directory_index 0x400000 = 1047553"
    by (simp_all add: page_index_def directory_index_def)
  have "present (table ?s 1047553)" "\<not> locked (table ?s 1047553)" "\<not> locked (table ?s 1024)"
    by (simp_all add: one_page present_def vm_flags)
  then obtain s' where "vm_unmap_page 0x400000 ?s = Some s'"
    "table s' = (table ?s)(1024 := 0, 1047553 := table ?s 1047553 OR VM_FLAG_SPINLOCK)"
    "\<forall>sz flags. 0 < sz \<and> unat (0x400000 :: u32) + unat sz \<le> 4294967296 \<longrightarrow> vm_allocate_pages 0x400000 sz flags s' = None"
    using vm_unmap_leaves_directory_locked [of "0x400000" ?s] unfolding index by auto
  then show ?thesis by auto
qed

text \<open>
  \<open>vm_map_phy_pages\<close> maps the frames from \<open>pm\<close> on, one after the other, up to the first page
  that is already mapped, and not one page after it: its loop skips a mapped page without moving
  on to the next entry.
\<close>

theorem vm_map_phy_pages_stops_at_mapped_page:
  assumes "unat vm + 4096 * page_count sz < 4294967296"
    "tables_present (table s) (directory_index vm) (table_count vm (PAGE_MASK (sz + PAGE_SIZE - 1)))"
    "unlocked (table s) (page_index vm) (page_count sz)"
  shows "\<exists>s'. vm_map_phy_pages vm pm sz flags s = Some s'
    \<and> table s' = mapped_run pm flags (page_index vm) (leading (table s) (page_index vm) (page_count sz)) (table s)
    \<and> same_but_tables s s'"
proof -
  have "unat sz + 4095 < 4294967296" using assms(1) by (intro page_count_fits) simp
  note rounded = rounded_size(1) [OF this]
  have "page_index vm + page_count sz \<le> 1048576" using assms(1) unfolding page_index_def by linarith
  then show ?thesis
    using map_phy_loop_maps [OF assms(3), of pm flags] vm_allocate_page_tables_present [OF assms(2)] rounded
    by (simp add: vm_map_phy_pages_def pte_address_index Let_def)
qed

theorem vm_map_phy_pages_stops_at_mapped_page_witness:
  "\<exists>s'. vm_map_phy_pages 0x400000 0xB000 0x3000 VM_KERNEL (one_page Direct_functions) = Some s'
    \<and> table s' = table (one_page Direct_functions)"
proof -
  let ?s = "one_page Direct_functions"
  have index: "page_index 0x400000 = 1024" "page_count 0x3000 = 3" "directory_index 0x400000 = 1047553"
    "table_count 0x400000 (PAGE_MASK (0x3000 + PAGE_SIZE - 1)) = 1"
    by (simp_all add: page_index_def page_count_def directory_index_def table_count_def PAGE_MASK_def PAGE_SIZE_def)
  have "tables_present (table ?s) 1047553 1" "unlocked (table ?s) 1024 3"
    by (auto simp: tables_present_def unlocked_def one_page present_def vm_flags)
  moreover have "leading (table ?s) 1024 3 = 0"
    by (simp add: leading_def one_page present_def vm_flags upt_rec)
  moreover have "mapped_run pm flags k 0 t = t" for pm flags k t by (auto simp: mapped_run_def fun_eq_iff)
  ultimately show ?thesis
    using vm_map_phy_pages_stops_at_mapped_page [of "0x400000" "0x3000" ?s "0xB000" VM_KERNEL] unfolding index by auto
qed

text \<open>
  \<open>lock_virtual_memory\<close> returns exactly if no page of the range is locked, with the lock bit
  of every entry set; unlocking the same range then restores the state, and locking it a second
  time spins forever.
\<close>

theorem virtual_memory_lock_round_trip:
  assumes "page_index start + page_rounds start sz \<le> 1048576"
  shows "(\<not> unlocked (table s) (page_index start) (page_rounds start sz) \<longrightarrow> lock_virtual_memory start sz s = None)
    \<and> (unlocked (table s) (page_index start) (page_rounds start sz) \<longrightarrow>
        (\<exists>s'. lock_virtual_memory start sz s = Some s' \<and> unlock_virtual_memory start sz s' = s
          \<and> table s' = with_locks (page_index start) (page_rounds start sz) (table s)
          \<and> (0 < page_rounds start sz \<longrightarrow> lock_virtual_memory start sz s' = None)))"
proof -
  note iff = lock_entries_iff [OF assms]
  have "\<not> unlocked (with_locks k n t) k n" if "0 < n" for k n t
    using that by (auto simp: unlocked_def with_locks_def bit.conj_disj_distrib2 vm_flags intro!: exI [of _ k])
  then show ?thesis
    using iff [of s] iff unfolding lock_virtual_memory_def unlock_virtual_memory_def pte_address_index by metis
qed

theorem virtual_memory_lock_round_trip_witness:
  "\<exists>s'. lock_virtual_memory 0x400000 0x2000 (one_page Direct_functions) = Some s'
    \<and> unlock_virtual_memory 0x400000 0x2000 s' = one_page Direct_functions"
proof -
  let ?s = "one_page Direct_functions"
  have index: "page_index 0x400000 = 1024" "page_rounds 0x400000 0x2000 = 2"
    by (simp_all add: page_index_def page_rounds_def)
  have "unlocked (table ?s) 1024 2" by (auto simp: unlocked_def one_page vm_flags)
  then show ?thesis using virtual_memory_lock_round_trip [of "0x400000" "0x2000" ?s] unfolding index by auto
qed


text \<open>
  \<open>unmap_physical_pages_from_userspace\<close> takes every mapped page of its range for freeing,
  whatever its type: the entry is locked when its type is read, and the lock bit is one of the
  three bits of the type, so the test for lazily allocated, copy-on-write and template pages
  never holds. An unlocked entry of such a type would have been spared.
\<close>

theorem unmap_collects_every_type:
  assumes "i < 1048576" "present (table s i)" "\<not> locked (table s i)"
  shows "unmap_entry (pte_at i) pages s = Some (pages @ [PAGE_MASK (table s i)], set_entry (pte_at i) 0 s)"
proof -
  let ?e = "table s i OR VM_FLAG_SPINLOCK"
  have "bit (?e AND VM_FLAGS_TYPE) 11"
    by (simp add: bit_simps vm_flags)
  moreover have "\<not> bit VM_LAZY_ALLOCATION 11" "\<not> bit VM_COW_ALLOCATION 11" "\<not> bit VM_SPAWN_TEMPLATE 11"
    by (simp_all add: vm_flags bit_iff_odd)
  ultimately have "collected_type ?e" unfolding collected_type_def Let_def by metis
  moreover have "PAGE_MASK ?e = PAGE_MASK (table s i)"
    by (simp add: PAGE_MASK_def bit.conj_disj_distrib2) (simp add: vm_flags)
  moreover have "?e AND VM_FLAG_PRESENT \<noteq> 0" using assms(2) by (simp add: not_present_iff)
  ultimately show ?thesis using assms
    by (simp add: unmap_entry_def lock_page_entry_table entry_at_table table_set_entry unlock_page_entry_table)
qed

theorem unmap_collects_every_type_witness:
  "unmap_entry (pte_at 1024) [] (set_entry (pte_at 1024) (0x9007 OR VM_COW_ALLOCATION) (one_page Direct_functions))
     = Some ([0x9000], set_entry (pte_at 1024) 0 (one_page Direct_functions))
   \<and> \<not> collected_type (0x9007 OR VM_COW_ALLOCATION)"
proof -
  let ?s = "set_entry (pte_at 1024) (0x9007 OR VM_COW_ALLOCATION) (one_page Direct_functions)"
  have t: "table ?s 1024 = 0x9407" by (simp add: table_set_entry vm_flags)
  have "unmap_entry (pte_at 1024) [] ?s = Some ([] @ [PAGE_MASK (table ?s 1024)], set_entry (pte_at 1024) 0 ?s)"
    by (rule unmap_collects_every_type) (simp, unfold t, simp_all add: present_def vm_flags)
  moreover have "PAGE_MASK 0x9407 = 0x9000" by (simp add: PAGE_MASK_def)
  moreover have "\<not> collected_type (0x9007 OR VM_COW_ALLOCATION)" by (simp add: collected_type_def vm_flags Let_def)
  ultimately show ?thesis by (simp add: t)
qed

end
