(* ===== verification/Kernel_Heap.thy ===== *)
theory Kernel_Heap
  imports Virtual_Memory
begin

text \<open>
  The allocators of \<open>source/kernel/hardware/devices/memory/memory_allocators.c\<close>: the temporary
  and the permanent one, the kernel heap, and the block and pool allocators on top of it. The
  heap's metadata and its entries are in the kernel's virtual memory, where the code keeps
  them; mapping and unmapping its pages are the operations of \<open>Virtual_Memory\<close>. \<open>None\<close> is a
  panic, a page fault of the page clearing, or a loop that does not end.
\<close>

section \<open>State\<close>

definition VM_TEMP_ALLOCATOR_START :: u32 where "VM_TEMP_ALLOCATOR_START = 0x400000"
definition VM_KERNEL_HEAP_START :: u32 where "VM_KERNEL_HEAP_START = 0xC0800000"
definition VM_KERNEL_HEAP_END :: u32 where "VM_KERNEL_HEAP_END = 0xE0000000"
definition VM_PERM_ALLOCATOR_START :: u32 where "VM_PERM_ALLOCATOR_START = 0xE0000000"
definition VM_PERM_ALLOCATOR_END :: u32 where "VM_PERM_ALLOCATOR_END = 0xFF000000"
definition NUMBER_OF_PREALLOCATED_BLOCKS_IN_CELL :: u32 where "NUMBER_OF_PREALLOCATED_BLOCKS_IN_CELL = 32"

text \<open>The global variables of the file.\<close>

record allocators =
  vm :: pm_state
  cpu :: core_state
  temporary_kernel_allocator_base :: u32
  temporary_kernel_allocator_free_size :: u32
  temp_alloc_mutex :: u32
  permanent_kernel_allocator_base :: u32
  perm_allocator_num_of_allocations :: u32
  perm_allocator_requested_size :: u32
  perm_allocator_real_size :: u32
  perm_allocator_phy_mem_mapped :: u32
  perm_alloc_mutex :: u32
  kheap_mutex :: u32
  block_alloc_cells :: u32
  block_alloc_mutex :: u32

abbreviation heap :: "allocators \<Rightarrow> mem" where
  "heap s \<equiv> virt (vm s)"

abbreviation word_at :: "allocators \<Rightarrow> u32 \<Rightarrow> u32" where
  "word_at s a \<equiv> load32 (heap s) a"

definition on_heap :: "(mem \<Rightarrow> mem) \<Rightarrow> allocators \<Rightarrow> allocators" where
  "on_heap f s = s\<lparr>vm := (vm s)\<lparr>virt := f (virt (vm s))\<rparr>\<rparr>"

definition set_word :: "u32 \<Rightarrow> u32 \<Rightarrow> allocators \<Rightarrow> allocators" where
  "set_word a w = on_heap (\<lambda>m. store32 m a w)"

definition on_vm :: "(pm_state \<Rightarrow> pm_state option) \<Rightarrow> allocators \<Rightarrow> allocators option" where
  "on_vm f s = map_option (\<lambda>v. s\<lparr>vm := v\<rparr>) (f (vm s))"

text \<open>The fields of \<open>kernel_heap_metadata_t\<close> at \<open>VM_KERNEL_HEAP_START\<close>, and of \<open>kheap_entry_t\<close>.\<close>

definition MEMORY_START :: u32 where "MEMORY_START = VM_KERNEL_HEAP_START"
definition MEMORY_SIZE :: u32 where "MEMORY_SIZE = VM_KERNEL_HEAP_START + 4"
definition MEMORY_END :: u32 where "MEMORY_END = VM_KERNEL_HEAP_START + 8"
definition FREE_MEMORY_START :: u32 where "FREE_MEMORY_START = VM_KERNEL_HEAP_START + 12"
definition FREE_MEMORY_SIZE :: u32 where "FREE_MEMORY_SIZE = VM_KERNEL_HEAP_START + 16"
definition INSERT_ENTRY :: u32 where "INSERT_ENTRY = VM_KERNEL_HEAP_START + 20"
definition FIRST_ENTRY :: u32 where "FIRST_ENTRY = VM_KERNEL_HEAP_START + 24"

definition SIZEOF_HEAP_METADATA :: u32 where "SIZEOF_HEAP_METADATA = 36"
definition SIZEOF_ENTRY :: u32 where "SIZEOF_ENTRY = 12"

lemmas heap_fields = MEMORY_START_def MEMORY_SIZE_def MEMORY_END_def FREE_MEMORY_START_def
  FREE_MEMORY_SIZE_def INSERT_ENTRY_def FIRST_ENTRY_def VM_KERNEL_HEAP_START_def
  SIZEOF_HEAP_METADATA_def SIZEOF_ENTRY_def

definition entry_end :: "mem \<Rightarrow> u32 \<Rightarrow> u32" where "entry_end m e = load32 m e"
definition entry_prev :: "mem \<Rightarrow> u32 \<Rightarrow> u32" where "entry_prev m e = load32 m (e + 4)"
definition entry_next :: "mem \<Rightarrow> u32 \<Rightarrow> u32" where "entry_next m e = load32 m (e + 8)"

text \<open>The free space after an entry.\<close>

definition free_space :: "mem \<Rightarrow> u32 \<Rightarrow> u32" where
  "free_space m e = (if entry_next m e = 0 then load32 m MEMORY_END - entry_end m e
     else entry_next m e - entry_end m e)"

section \<open>Locks\<close>

definition lock_kheap :: "allocators \<Rightarrow> allocators option" where
  "lock_kheap s = map_option (\<lambda>lock. s\<lparr>cpu := lock_core (cpu s), kheap_mutex := lock\<rparr>) (lock_mutex (kheap_mutex s))"

definition unlock_kheap :: "allocators \<Rightarrow> allocators" where
  "unlock_kheap s = s\<lparr>kheap_mutex := unlock_mutex (kheap_mutex s), cpu := unlock_core (cpu s)\<rparr>"

definition lock_temp :: "allocators \<Rightarrow> allocators option" where
  "lock_temp s = map_option (\<lambda>lock. s\<lparr>cpu := lock_core (cpu s), temp_alloc_mutex := lock\<rparr>) (lock_mutex (temp_alloc_mutex s))"

definition unlock_temp :: "allocators \<Rightarrow> allocators" where
  "unlock_temp s = s\<lparr>temp_alloc_mutex := unlock_mutex (temp_alloc_mutex s), cpu := unlock_core (cpu s)\<rparr>"

definition lock_perm :: "allocators \<Rightarrow> allocators option" where
  "lock_perm s = map_option (\<lambda>lock. s\<lparr>cpu := lock_core (cpu s), perm_alloc_mutex := lock\<rparr>) (lock_mutex (perm_alloc_mutex s))"

definition unlock_perm :: "allocators \<Rightarrow> allocators" where
  "unlock_perm s = s\<lparr>perm_alloc_mutex := unlock_mutex (perm_alloc_mutex s), cpu := unlock_core (cpu s)\<rparr>"

definition lock_blocks :: "allocators \<Rightarrow> allocators option" where
  "lock_blocks s = map_option (\<lambda>lock. s\<lparr>cpu := lock_core (cpu s), block_alloc_mutex := lock\<rparr>) (lock_mutex (block_alloc_mutex s))"

definition unlock_blocks :: "allocators \<Rightarrow> allocators" where
  "unlock_blocks s = s\<lparr>block_alloc_mutex := unlock_mutex (block_alloc_mutex s), cpu := unlock_core (cpu s)\<rparr>"

section \<open>The temporary and the permanent allocator\<close>

definition round_to_pages :: "u32 \<Rightarrow> u32" where
  "round_to_pages sz = (sz + PAGE_SIZE - 1) div PAGE_SIZE * PAGE_SIZE"

definition temp_phy_alloc :: "u32 \<Rightarrow> u32 \<Rightarrow> u32 \<Rightarrow> allocators \<Rightarrow> (u32 \<times> allocators) option" where
  "temp_phy_alloc phy_start sz flags s = do {
     let sz = round_to_pages (sz + PAGE_OFFSET_MASK phy_start);
     s \<leftarrow> lock_temp s;
     let base = temporary_kernel_allocator_base s;
     if base = 0 \<or> temporary_kernel_allocator_free_size s = 0 \<or> temporary_kernel_allocator_free_size s < sz
     then Some (0, unlock_temp s)
     else do {
       s \<leftarrow> on_vm (vm_map_phy_pages base (PAGE_MASK phy_start) sz flags) s;
       let s = s\<lparr>temporary_kernel_allocator_base := base + sz,
                 temporary_kernel_allocator_free_size := temporary_kernel_allocator_free_size s - sz\<rparr>;
       Some (base + PAGE_OFFSET_MASK phy_start, unlock_temp s)
     }
   }"

definition quit_temp_alloc :: "allocators \<Rightarrow> allocators option" where
  "quit_temp_alloc s = do {
     s \<leftarrow> on_vm (vm_unmap_pages VM_TEMP_ALLOCATOR_START (temporary_kernel_allocator_base s - VM_TEMP_ALLOCATOR_START)) s;
     Some (s\<lparr>temporary_kernel_allocator_base := 0, temporary_kernel_allocator_free_size := 0\<rparr>)
   }"

definition perm_alloc :: "u32 \<Rightarrow> allocators \<Rightarrow> (u32 \<times> allocators) option" where
  "perm_alloc sz s = do {
     let s = s\<lparr>perm_allocator_num_of_allocations := perm_allocator_num_of_allocations s + 1,
               perm_allocator_requested_size := perm_allocator_requested_size s + sz\<rparr>;
     let sz = round_to_pages sz;
     s \<leftarrow> lock_perm s;
     if permanent_kernel_allocator_base s - sz < VM_PERM_ALLOCATOR_START
     then Some (0, unlock_perm s)
     else do {
       let base = permanent_kernel_allocator_base s - sz;
       let s = s\<lparr>permanent_kernel_allocator_base := base\<rparr>;
       s \<leftarrow> on_vm (vm_allocate_pages base sz (VM_KERNEL OR VM_FLAG_GLOBAL)) s;
       let s = s\<lparr>perm_allocator_real_size := perm_allocator_real_size s + sz\<rparr>;
       Some (base, unlock_perm s)
     }
   }"

definition perm_phy_alloc :: "u32 \<Rightarrow> u32 \<Rightarrow> u32 \<Rightarrow> allocators \<Rightarrow> (u32 \<times> allocators) option" where
  "perm_phy_alloc phy_start sz flags s = do {
     let s = s\<lparr>perm_allocator_num_of_allocations := perm_allocator_num_of_allocations s + 1\<rparr>;
     let sz = round_to_pages (sz + PAGE_OFFSET_MASK phy_start);
     s \<leftarrow> lock_perm s;
     if permanent_kernel_allocator_base s - sz < VM_PERM_ALLOCATOR_START
     then Some (0, unlock_perm s)
     else do {
       let base = permanent_kernel_allocator_base s - sz;
       let s = s\<lparr>permanent_kernel_allocator_base := base\<rparr>;
       s \<leftarrow> on_vm (vm_map_phy_pages base (PAGE_MASK phy_start) sz (flags OR VM_FLAG_GLOBAL)) s;
       let s = s\<lparr>perm_allocator_phy_mem_mapped := perm_allocator_phy_mem_mapped s + sz\<rparr>;
       Some (base + PAGE_OFFSET_MASK phy_start, unlock_perm s)
     }
   }"

section \<open>The kernel heap\<close>

text \<open>The pages an operation maps or unmaps, \<open>last\<close> included; none if \<open>last < first\<close>.\<close>

definition map_pages :: "u32 \<Rightarrow> u32 \<Rightarrow> allocators \<Rightarrow> allocators option" where
  "map_pages first_page last_page s =
     (if first_page \<le> last_page then on_vm (vm_allocate_pages first_page (last_page - first_page + PAGE_SIZE) VM_KERNEL) s
      else Some s)"

definition unmap_pages :: "u32 \<Rightarrow> u32 \<Rightarrow> allocators \<Rightarrow> allocators option" where
  "unmap_pages first_page last_page s =
     (if first_page \<le> last_page then on_vm (vm_deallocate_pages first_page (last_page - first_page + PAGE_SIZE)) s
      else Some s)"

text \<open>
  The pages of an entry less the one it shares with the entry before it and the one it shares
  with the entry after it (\<open>next_entry\<close>, NULL if there is none). \<open>aligned_kalloc\<close>, \<open>kfree\<close> and
  the expansion of \<open>krealloc\<close> compute them with the same statements.
\<close>

definition own_pages :: "u32 \<Rightarrow> u32 \<Rightarrow> u32 \<Rightarrow> u32 \<Rightarrow> u32 \<times> u32" where
  "own_pages prev_end entry stop next_entry =
     (let last_page_of_previous_allocation = PAGE_MASK (prev_end - 1);
          first_page = PAGE_MASK entry;
          first_page = (if last_page_of_previous_allocation = first_page then first_page + PAGE_SIZE else first_page);
          last_page = PAGE_MASK (stop - 1);
          first_page_of_next_allocation = (if next_entry = 0 then 0 else PAGE_MASK next_entry);
          last_page = (if last_page = first_page_of_next_allocation then last_page - PAGE_SIZE else last_page)
      in (first_page, last_page))"

text \<open>The search for the biggest free space; the list may be cyclic. \<open>(0, 0)\<close> is no space found.\<close>

partial_function (option) biggest_space :: "mem \<Rightarrow> u32 \<Rightarrow> u32 \<Rightarrow> u32 \<Rightarrow> (u32 \<times> u32) option" where
  "biggest_space m current_entry biggest entry =
     (if current_entry = 0 then Some (biggest, entry)
      else let sz = free_space m current_entry
        in if biggest < sz then biggest_space m (entry_next m current_entry) sz current_entry
           else biggest_space m (entry_next m current_entry) biggest entry)"

definition use_free_space :: "u32 \<Rightarrow> u32 \<Rightarrow> u32 \<Rightarrow> allocators \<Rightarrow> allocators" where
  "use_free_space start sz entry s =
     set_word INSERT_ENTRY entry (set_word FREE_MEMORY_SIZE sz (set_word FREE_MEMORY_START start s))"

text \<open>The result says whether \<open>sz\<close> bytes are free at \<open>free_memory_start\<close>.\<close>

definition find_space :: "u32 \<Rightarrow> allocators \<Rightarrow> (bool \<times> allocators) option" where
  "find_space sz s =
     (if word_at s FREE_MEMORY_SIZE < sz then do {
        (biggest, entry) \<leftarrow> biggest_space (heap s) FIRST_ENTRY 0 0;
        if biggest = 0 then Some (False, s)
        else Some (sz \<le> biggest, use_free_space (entry_end (heap s) entry) biggest entry s)
      } else Some (True, s))"

definition link_entry :: "u32 \<Rightarrow> u32 \<Rightarrow> u32 \<Rightarrow> allocators \<Rightarrow> allocators" where
  "link_entry new_entry prev_entry next_entry s =
     (let s = (if next_entry \<noteq> 0 then set_word (next_entry + 4) new_entry s else s)
      in set_word (prev_entry + 8) new_entry s)"

definition write_entry :: "u32 \<Rightarrow> u32 \<Rightarrow> u32 \<Rightarrow> u32 \<Rightarrow> allocators \<Rightarrow> allocators" where
  "write_entry entry stop prev_entry next_entry s =
     set_word (entry + 8) next_entry (set_word (entry + 4) prev_entry (set_word entry stop s))"

definition allocation_size :: "u32 \<Rightarrow> u32" where
  "allocation_size sz = (sz + SIZEOF_ENTRY + 3) div 4 * 4"

definition kalloc :: "u32 \<Rightarrow> allocators \<Rightarrow> (u32 \<times> allocators) option" where
  "kalloc sz s =
     (if sz = 0 then Some (0, s)
      else do {
        let sz = allocation_size sz;
        s \<leftarrow> lock_kheap s;
        (found, s) \<leftarrow> find_space sz s;
        if \<not> found then Some (0, unlock_kheap s)
        else do {
          let new_entry = word_at s FREE_MEMORY_START;
          let new_entry_end = new_entry + sz;
          let new_entry_prev = word_at s INSERT_ENTRY;
          let new_entry_next = entry_next (heap s) (word_at s INSERT_ENTRY);
          let s = set_word FREE_MEMORY_START (word_at s FREE_MEMORY_START + sz) s;
          let s = set_word FREE_MEMORY_SIZE (word_at s FREE_MEMORY_SIZE - sz) s;
          let s = link_entry new_entry new_entry_prev new_entry_next s;
          let s = set_word INSERT_ENTRY new_entry s;
          let prev_end = entry_end (heap s) new_entry_prev;
          let first_page = PAGE_MASK new_entry;
          let first_page = (if PAGE_OFFSET_MASK prev_end \<noteq> 0 \<and> PAGE_MASK prev_end = first_page
            then first_page + PAGE_SIZE else first_page);
          let last_page = PAGE_MASK (new_entry_end - 1);
          let last_page = (if new_entry_next \<noteq> 0 \<and> PAGE_MASK new_entry_next = last_page
            then last_page - PAGE_SIZE else last_page);
          s \<leftarrow> map_pages first_page last_page s;
          let s = on_heap (\<lambda>m. memset m new_entry 0 sz) s;
          let s = write_entry new_entry new_entry_end new_entry_prev new_entry_next s;
          Some (new_entry + SIZEOF_ENTRY, unlock_kheap s)
        }
      })"

text \<open>
  \<open>aligned_kalloc\<close>: the first aligned address in a free space that leaves room for the metadata
  below it. \<open>metadata_size\<close> is an \<open>int\<close> of the code.
\<close>

partial_function (option) skip_alignment :: "u32 \<Rightarrow> u32 \<Rightarrow> u32 \<Rightarrow> u32 \<Rightarrow> (bool \<times> u32 \<times> u32) option" where
  "skip_alignment alignment metadata_size free_start free_size =
     (if free_size < alignment then Some (False, free_start, free_size)
      else let free_start = free_start + alignment;
               free_size = free_size - alignment;
               metadata_size = metadata_size - alignment
        in if 0 < sint metadata_size then skip_alignment alignment metadata_size free_start free_size
           else Some (True, free_start, free_size))"

definition aligned_fit :: "u32 \<Rightarrow> u32 \<Rightarrow> u32 \<Rightarrow> u32 \<Rightarrow> (bool \<times> u32 \<times> u32) option" where
  "aligned_fit alignment sz free_start free_size = do {
     let lower_mask = alignment - 1;
     let until_alignment = (if free_start AND lower_mask = 0 then 0 else alignment - (free_start AND lower_mask));
     let fits = (until_alignment \<le> free_size);
     let free_start = free_start + until_alignment;
     let free_size = free_size - until_alignment;
     (crossed, free_start, free_size) \<leftarrow>
       (if until_alignment < SIZEOF_ENTRY
        then skip_alignment alignment (SIZEOF_ENTRY - until_alignment) free_start free_size
        else Some (True, free_start, free_size));
     Some (fits \<and> crossed \<and> sz \<le> free_size, free_start, free_size)
   }"

partial_function (option) aligned_search :: "mem \<Rightarrow> u32 \<Rightarrow> u32 \<Rightarrow> u32 \<Rightarrow> (u32 \<times> u32) option option" where
  "aligned_search m alignment sz current_entry =
     (if current_entry = 0 then Some None
      else do {
        (fits, free_start, free_size) \<leftarrow> aligned_fit alignment sz (entry_end m current_entry) (free_space m current_entry);
        if fits then Some (Some (current_entry, free_start))
        else aligned_search m alignment sz (entry_next m current_entry)
      })"

definition finish_aligned :: "u32 \<Rightarrow> u32 \<Rightarrow> u32 \<Rightarrow> u32 \<Rightarrow> allocators \<Rightarrow> (u32 \<times> allocators) option" where
  "finish_aligned new_entry sz prev_entry next_entry s = do {
     let new_entry_end = new_entry + SIZEOF_ENTRY + sz;
     let (first_page, last_page) = own_pages (entry_end (heap s) prev_entry) new_entry new_entry_end next_entry;
     s \<leftarrow> map_pages first_page last_page s;
     let s = on_heap (\<lambda>m. memset m new_entry 0 (sz + SIZEOF_ENTRY)) s;
     let s = write_entry new_entry new_entry_end prev_entry next_entry s;
     Some (new_entry + SIZEOF_ENTRY, unlock_kheap s)
   }"

definition aligned_kalloc :: "u32 \<Rightarrow> u32 \<Rightarrow> allocators \<Rightarrow> (u32 \<times> allocators) option" where
  "aligned_kalloc alignment sz s =
     (if sz = 0 then Some (0, s)
      else if alignment \<le> 4 then kalloc sz s
      else do {
        s \<leftarrow> lock_kheap s;
        (fits, free_start, free_size) \<leftarrow>
          aligned_fit alignment sz (word_at s FREE_MEMORY_START) (word_at s FREE_MEMORY_SIZE);
        if fits then do {
          let new_entry = free_start - SIZEOF_ENTRY;
          let prev_entry = word_at s INSERT_ENTRY;
          let next_entry = entry_next (heap s) prev_entry;
          let s = set_word FREE_MEMORY_START (free_start + sz) s;
          let s = set_word FREE_MEMORY_SIZE (free_size - sz) s;
          let s = set_word INSERT_ENTRY new_entry (link_entry new_entry prev_entry next_entry s);
          finish_aligned new_entry sz prev_entry next_entry s
        }
        else do {
          found \<leftarrow> aligned_search (heap s) alignment sz FIRST_ENTRY;
          case found of
            None \<Rightarrow> Some (0, unlock_kheap s)
          | Some (prev_entry, free_start) \<Rightarrow> do {
              let new_entry = free_start - SIZEOF_ENTRY;
              let next_entry = entry_next (heap s) prev_entry;
              finish_aligned new_entry sz prev_entry next_entry (link_entry new_entry prev_entry next_entry s)
            }
        }
      })"

text \<open>The free space of an entry becomes the one to allocate from if it is the biggest so far.\<close>

definition offer_space :: "u32 \<Rightarrow> u32 \<Rightarrow> u32 \<Rightarrow> allocators \<Rightarrow> allocators" where
  "offer_space start sz entry s =
     (if word_at s FREE_MEMORY_SIZE < sz then use_free_space start sz entry s else s)"

definition kfree :: "u32 \<Rightarrow> allocators \<Rightarrow> allocators option" where
  "kfree allocation s =
     (if allocation = 0 then Some s
      else do {
        s \<leftarrow> lock_kheap s;
        let entry = allocation - SIZEOF_ENTRY;
        let prev_entry = entry_prev (heap s) entry;
        let next_entry = entry_next (heap s) entry;
        let (first_page, last_page) =
          own_pages (entry_end (heap s) prev_entry) entry (entry_end (heap s) entry) next_entry;
        s \<leftarrow> unmap_pages first_page last_page s;
        let s = set_word (prev_entry + 8) next_entry s;
        let s = (if next_entry \<noteq> 0 then set_word (next_entry + 4) prev_entry s else s);
        let prev_end = entry_end (heap s) prev_entry;
        let free_space_size = (if next_entry = 0 then word_at s MEMORY_END - prev_end else next_entry - prev_end);
        Some (unlock_kheap (offer_space prev_end free_space_size prev_entry s))
      })"

text \<open>The three ways of \<open>krealloc\<close> to change the size of an entry.\<close>

definition shrink_entry :: "u32 \<Rightarrow> u32 \<Rightarrow> u32 \<Rightarrow> allocators \<Rightarrow> (u32 \<times> allocators) option" where
  "shrink_entry allocation entry new_size s = do {
     let old_end = entry_end (heap s) entry;
     let new_end = entry + new_size;
     let s = set_word entry new_end s;
     let s = offer_space new_end (free_space (heap s) entry) entry s;
     let first_page = PAGE_MASK new_end + (if PAGE_OFFSET_MASK new_end = 0 then 0 else PAGE_SIZE);
     let last_page = PAGE_MASK (old_end - 1);
     let next_entry = entry_next (heap s) entry;
     let next_page = (if next_entry = 0 then 0 else PAGE_MASK next_entry);
     let last_page = (if last_page = next_page then last_page - PAGE_SIZE else last_page);
     s \<leftarrow> unmap_pages first_page last_page s;
     Some (allocation, unlock_kheap s)
   }"

definition expand_entry :: "u32 \<Rightarrow> u32 \<Rightarrow> u32 \<Rightarrow> u32 \<Rightarrow> allocators \<Rightarrow> (u32 \<times> allocators) option" where
  "expand_entry allocation entry entry_size new_size s = do {
     let size_diff = new_size - entry_size;
     let new_end = entry + new_size;
     let s = set_word entry new_end s;
     let s = (if word_at s INSERT_ENTRY = entry
       then set_word FREE_MEMORY_SIZE (word_at s FREE_MEMORY_SIZE - size_diff)
         (set_word FREE_MEMORY_START (word_at s FREE_MEMORY_START + size_diff) s)
       else s);
     let (first_page, last_page) = own_pages (entry_end (heap s) (entry_prev (heap s) entry)) entry new_end (entry_next (heap s) entry);
     s \<leftarrow> map_pages first_page last_page s;
     Some (allocation, unlock_kheap s)
   }"

definition slide_entry :: "u32 \<Rightarrow> u32 \<Rightarrow> u32 \<Rightarrow> u32 \<Rightarrow> u32 \<Rightarrow> allocators \<Rightarrow> (u32 \<times> allocators) option" where
  "slide_entry entry old_end entry_size available_space new_size s = do {
     let new_start = entry_end (heap s) (entry_prev (heap s) entry);
     let new_end = new_start + new_size;
     let s = offer_space new_end (available_space - new_size) entry s;
     let first_page = PAGE_MASK new_start;
     let first_page = (if PAGE_OFFSET_MASK new_start \<noteq> 0 then first_page + PAGE_SIZE else first_page);
     let last_page = (if new_end - 1 < entry
       then let last_page = PAGE_MASK (new_end - 1)
            in if last_page = PAGE_MASK entry then last_page - PAGE_SIZE else last_page
       else PAGE_MASK entry - PAGE_SIZE);
     s \<leftarrow> map_pages first_page last_page s;
     let next_entry = entry_next (heap s) entry;
     s \<leftarrow> (if old_end < new_end
       then do {
         let first_page = PAGE_MASK old_end;
         let first_page = (if PAGE_OFFSET_MASK old_end \<noteq> 0 then first_page + PAGE_SIZE else first_page);
         let last_page = PAGE_MASK (new_end - 1);
         let last_page = (if next_entry \<noteq> 0 \<and> PAGE_MASK next_entry = last_page then last_page - PAGE_SIZE else last_page);
         map_pages first_page last_page s
       }
       else Some s);
     let s = on_heap (\<lambda>m. memmove m new_start entry entry_size) s;
     s \<leftarrow> (if new_end < old_end
       then do {
         let first_page = PAGE_MASK new_end;
         let first_page = (if PAGE_OFFSET_MASK new_end \<noteq> 0 then first_page + PAGE_SIZE else first_page);
         let first_page = (if first_page < PAGE_MASK entry then PAGE_MASK entry else first_page);
         let last_page = PAGE_MASK (old_end - 1);
         let last_page = (if PAGE_MASK new_end = last_page \<or> (next_entry \<noteq> 0 \<and> PAGE_MASK next_entry = last_page)
           then last_page - PAGE_SIZE else last_page);
         unmap_pages first_page last_page s
       }
       else Some s);
     let s = set_word new_start new_end s;
     let s = set_word (entry_prev (heap s) new_start + 8) new_start s;
     let s = (if next_entry \<noteq> 0 then set_word (next_entry + 4) new_start s else s);
     Some (new_start + SIZEOF_ENTRY, unlock_kheap s)
   }"

text \<open>\<open>copy\<close> is the \<open>memcpy\<close> that \<open>initialize_libc\<close> has chosen.\<close>

definition krealloc :: "(mem \<Rightarrow> u32 \<Rightarrow> u32 \<Rightarrow> u32 \<Rightarrow> (u32 \<times> mem) option) \<Rightarrow> u32 \<Rightarrow> u32 \<Rightarrow> allocators \<Rightarrow> (u32 \<times> allocators) option" where
  "krealloc copy allocation new_size s =
     (if allocation = 0 then kalloc new_size s
      else do {
        s \<leftarrow> lock_kheap s;
        let entry = allocation - SIZEOF_ENTRY;
        let old_end = entry_end (heap s) entry;
        let entry_size = old_end - entry;
        let new_size = allocation_size new_size;
        if new_size = SIZEOF_ENTRY
        then kfree allocation (unlock_kheap s) \<bind> (\<lambda>s. Some (0, s))
        else if new_size = entry_size then Some (allocation, unlock_kheap s)
        else if new_size < entry_size then shrink_entry allocation entry new_size s
        else if new_size - entry_size \<le> free_space (heap s) entry then expand_entry allocation entry entry_size new_size s
        else do {
          let prev_end = entry_end (heap s) (entry_prev (heap s) entry);
          let available_space = (if entry_next (heap s) entry = 0 then word_at s MEMORY_END - prev_end
            else entry_next (heap s) entry - prev_end);
          if new_size \<le> available_space then slide_entry entry old_end entry_size available_space new_size s
          else do {
            (new_allocation, s) \<leftarrow> kalloc (new_size - SIZEOF_ENTRY) (unlock_kheap s);
            if new_allocation = 0 then Some (0, s)
            else do {
              (_, m) \<leftarrow> copy (heap s) new_allocation allocation (entry_size - SIZEOF_ENTRY);
              s \<leftarrow> kfree allocation (on_heap (\<lambda>_. m) s);
              Some (new_allocation, s)
            }
          }
        }
      })"

section \<open>The block allocator\<close>

text \<open>
  A cell: \<open>prev\<close>, \<open>next\<close>, \<open>lifo_index\<close> and 32 pointers. \<open>sizes\<close> is \<open>block_alloc_cells_list\<close>, whose
  entries are \<open>sizeof\<close>s of structures of the scheduler, and \<open>biggest\<close> its biggest entry.
\<close>

definition SIZEOF_CELL :: u32 where "SIZEOF_CELL = 140"

definition cell_allocation :: "u32 \<Rightarrow> u32 \<Rightarrow> u32" where
  "cell_allocation metadata i = metadata + 12 + i * 4"

fun fill_cell :: "nat \<Rightarrow> u32 \<Rightarrow> u32 \<Rightarrow> u32 \<Rightarrow> allocators \<Rightarrow> allocators option" where
  "fill_cell 0 i metadata sz s = Some s"
| "fill_cell (Suc n) i metadata sz s = do {
     (block, s) \<leftarrow> kalloc sz s;
     fill_cell n (i + 1) metadata sz (set_word (cell_allocation metadata i) block s)
   }"

definition block_alloc :: "u32 \<Rightarrow> allocators \<Rightarrow> (u32 \<times> allocators) option" where
  "block_alloc sz s = do {
     s \<leftarrow> lock_blocks s;
     let cell = block_alloc_cells s + sz * 4;
     let metadata = word_at s cell;
     (metadata, s) \<leftarrow>
       (if word_at s (metadata + 8) = NUMBER_OF_PREALLOCATED_BLOCKS_IN_CELL
        then do {
          (metadata, s) \<leftarrow>
            (if word_at s (metadata + 4) \<noteq> 0 then Some (word_at s (metadata + 4), s)
             else do {
               (new_cell, s) \<leftarrow> kalloc SIZEOF_CELL s;
               let s = set_word (metadata + 4) new_cell s;
               let s = set_word (word_at s (metadata + 4)) metadata s;
               let metadata = word_at s (metadata + 4);
               s \<leftarrow> fill_cell 32 0 metadata sz s;
               Some (metadata, s)
             });
          Some (metadata, set_word cell metadata s)
        }
        else Some (metadata, s));
     let index = word_at s (metadata + 8);
     let s = set_word (metadata + 8) (index + 1) s;
     Some (word_at s (cell_allocation metadata index), unlock_blocks s)
   }"

fun free_cell :: "nat \<Rightarrow> u32 \<Rightarrow> u32 \<Rightarrow> allocators \<Rightarrow> allocators option" where
  "free_cell 0 i metadata s = Some s"
| "free_cell (Suc n) i metadata s = kfree (word_at s (cell_allocation metadata i)) s \<bind> free_cell n (i + 1) metadata"

definition block_free :: "u32 \<Rightarrow> u32 \<Rightarrow> allocators \<Rightarrow> allocators option" where
  "block_free sz allocation s = do {
     s \<leftarrow> lock_blocks s;
     let cell = block_alloc_cells s + sz * 4;
     let metadata = word_at s cell;
     let empty = (word_at s (metadata + 8) = 0);
     if empty \<and> word_at s metadata = 0 then Some (unlock_blocks s)
     else do {
       let metadata = (if empty then word_at s metadata else metadata);
       let index = word_at s (metadata + 8) - 1;
       let s = set_word (metadata + 8) index s;
       let s = set_word (cell_allocation metadata index) allocation s;
       if word_at s (metadata + 8) = NUMBER_OF_PREALLOCATED_BLOCKS_IN_CELL div 2 \<and> word_at s (metadata + 4) \<noteq> 0
       then do {
         let next_metadata = word_at s (metadata + 4);
         s \<leftarrow> free_cell 32 0 next_metadata s;
         s \<leftarrow> kfree next_metadata s;
         let s = set_word (metadata + 4) 0 s;
         Some (unlock_blocks (set_word cell metadata s))
       }
       else Some (unlock_blocks s)
     }
   }"

section \<open>The pool allocator\<close>

text \<open>\<open>next\<close>, \<open>size\<close>, \<open>count\<close>, \<open>start\<close>, \<open>ptr\<close>, \<open>free_count\<close>, \<open>alloc_count\<close>.\<close>

definition SIZEOF_POOL :: u32 where "SIZEOF_POOL = 28"

definition create_alloc_pool :: "u32 \<Rightarrow> u32 \<Rightarrow> allocators \<Rightarrow> (u32 \<times> allocators) option" where
  "create_alloc_pool sz number s = do {
     (pool, s) \<leftarrow> kalloc SIZEOF_POOL s;
     (start, s) \<leftarrow> kalloc (sz * number) s;
     let s = set_word (pool + 12) start s;
     let s = set_word (pool + 8) number s;
     let s = set_word (pool + 16) (word_at s (pool + 12)) s;
     let s = set_word (pool + 20) number s;
     let s = set_word (pool + 24) 0 s;
     Some (pool, s)
   }"

partial_function (option) pool_alloc :: "u32 \<Rightarrow> allocators \<Rightarrow> (u32 \<times> allocators) option" where
  "pool_alloc pool s =
     (if word_at s (pool + 20) = 0 then do {
        s \<leftarrow> (if word_at s pool = 0 then do {
               (next_pool, s) \<leftarrow> create_alloc_pool (word_at s (pool + 4)) (word_at s (pool + 8)) s;
               Some (set_word pool next_pool s)
             } else Some s);
        pool_alloc (word_at s pool) s
      }
      else do {
        let s = set_word (pool + 20) (word_at s (pool + 20) - 1) s;
        let s = set_word (pool + 24) (word_at s (pool + 24) + 1) s;
        let s = set_word (pool + 16) (word_at s (pool + 16) + word_at s (pool + 4)) s;
        Some (word_at s (pool + 16), s)
      })"

partial_function (option) pool_free :: "u32 \<Rightarrow> u32 \<Rightarrow> allocators \<Rightarrow> allocators option" where
  "pool_free pool ptr s =
     (if ptr < word_at s (pool + 12) \<or> word_at s (pool + 12) + word_at s (pool + 8) * word_at s (pool + 4) < ptr
      then if word_at s pool = 0 then Some s else pool_free (word_at s pool) ptr s
      else do {
        let s = set_word (pool + 24) (word_at s (pool + 24) - 1) s;
        if word_at s (pool + 24) = 0 \<and> word_at s (pool + 20) = 0
        then do {
          s \<leftarrow> kfree (word_at s (pool + 12)) s;
          Some (set_word (pool + 12) 0 s)
        }
        else Some s
      })"

partial_function (option) destroy_pool :: "u32 \<Rightarrow> allocators \<Rightarrow> allocators option" where
  "destroy_pool pool s =
     (if pool = 0 then Some s
      else do {
        let next_pool = word_at s pool;
        s \<leftarrow> kfree (word_at s (pool + 12)) s;
        s \<leftarrow> kfree pool s;
        destroy_pool next_pool s
      })"

section \<open>Initialization\<close>

definition initialize_heap :: "allocators \<Rightarrow> allocators option" where
  "initialize_heap s = do {
     s \<leftarrow> on_vm (vm_allocate_pages VM_KERNEL_HEAP_START SIZEOF_HEAP_METADATA VM_KERNEL) s;
     let s = set_word MEMORY_START (VM_KERNEL_HEAP_START + SIZEOF_HEAP_METADATA) s;
     let s = (if PAGE_OFFSET_MASK SIZEOF_HEAP_METADATA \<noteq> 0
       then set_word MEMORY_START (PAGE_MASK (word_at s MEMORY_START) + PAGE_SIZE) s else s);
     let s = set_word MEMORY_END VM_KERNEL_HEAP_END s;
     let s = set_word MEMORY_SIZE (word_at s MEMORY_END - word_at s MEMORY_START) s;
     let s = set_word FREE_MEMORY_START (word_at s MEMORY_START) s;
     let s = set_word FREE_MEMORY_SIZE (word_at s MEMORY_SIZE) s;
     let s = set_word INSERT_ENTRY FIRST_ENTRY s;
     let s = write_entry FIRST_ENTRY (word_at s MEMORY_START) 0 0 s;
     Some (s\<lparr>kheap_mutex := MUTEX_UNLOCKED_VALUE\<rparr>)
   }"

fun create_cells :: "u32 list \<Rightarrow> allocators \<Rightarrow> allocators option" where
  "create_cells [] s = Some s"
| "create_cells (sz # sizes) s =
     (if word_at s (block_alloc_cells s + sz * 4) \<noteq> 0 then create_cells sizes s
      else do {
        (cell, s) \<leftarrow> kalloc SIZEOF_CELL s;
        let s = set_word (block_alloc_cells s + sz * 4) cell s;
        s \<leftarrow> fill_cell 32 0 (word_at s (block_alloc_cells s + sz * 4)) sz s;
        create_cells sizes s
      })"

definition initialize_allocators :: "u32 list \<Rightarrow> u32 \<Rightarrow> allocators \<Rightarrow> allocators option" where
  "initialize_allocators sizes biggest s = do {
     let s = s\<lparr>temporary_kernel_allocator_base := VM_TEMP_ALLOCATOR_START,
               temporary_kernel_allocator_free_size := PAGE_TABLE_SIZE * 511,
               temp_alloc_mutex := MUTEX_UNLOCKED_VALUE,
               permanent_kernel_allocator_base := VM_PERM_ALLOCATOR_END,
               perm_alloc_mutex := MUTEX_UNLOCKED_VALUE\<rparr>;
     s \<leftarrow> initialize_heap s;
     (cells, s) \<leftarrow> kalloc ((biggest + 1) * 4) s;
     create_cells sizes (s\<lparr>block_alloc_cells := cells\<rparr>)
   }"

text \<open>The walk over the entries only counts them for the log; here it only has to end.\<close>

partial_function (option) count_entries :: "mem \<Rightarrow> u32 \<Rightarrow> u32 \<Rightarrow> u32 option" where
  "count_entries m current_entry n =
     (if current_entry = 0 then Some n else count_entries m (entry_next m current_entry) (n + 1))"

definition initialize_allocators_for_user_space :: "allocators \<Rightarrow> allocators option" where
  "initialize_allocators_for_user_space s = do {
     s \<leftarrow> quit_temp_alloc s;
     s \<leftarrow> lock_kheap s;
     _ \<leftarrow> count_entries (heap s) FIRST_ENTRY 0;
     Some (unlock_kheap (set_word MEMORY_END (permanent_kernel_allocator_base s) s))
   }"

end
