(* ===== verification/Heap_Lists.thy ===== *)
theory Heap_Lists
  imports Kernel_Heap
begin

text \<open>
  The list of heap entries in memory. \<open>seg m p es n\<close>: the entries \<open>es\<close>, pairs of an address and
  an end, lie in memory \<open>m\<close> linked both ways, with \<open>p\<close> before the first and \<open>n\<close> after the last.
  \<open>ordered lo es hi\<close>: they lie between \<open>lo\<close> and \<open>hi\<close> one after the other, each with room for its
  metadata. The lemmas say what inserting, removing and resizing an entry does to the list.
\<close>

type_synonym block = "u32 \<times> u32"

fun next_of :: "block list \<Rightarrow> u32 \<Rightarrow> u32" where
  "next_of [] n = n"
| "next_of ((e, b) # es) n = e"

definition last_of :: "u32 \<Rightarrow> block list \<Rightarrow> u32" where
  "last_of p es = (if es = [] then p else fst (last es))"

fun seg :: "mem \<Rightarrow> u32 \<Rightarrow> block list \<Rightarrow> u32 \<Rightarrow> bool" where
  "seg m p [] n = True"
| "seg m p ((e, b) # es) n =
     (entry_end m e = b \<and> entry_prev m e = p \<and> entry_next m e = next_of es n \<and> seg m e es n)"

fun ordered :: "nat \<Rightarrow> block list \<Rightarrow> nat \<Rightarrow> bool" where
  "ordered lo [] hi = (lo \<le> hi)"
| "ordered lo ((e, b) # es) hi = (lo \<le> unat e \<and> unat e + 12 \<le> unat b \<and> ordered (unat b) es hi)"

fun start_of :: "block list \<Rightarrow> nat \<Rightarrow> nat" where
  "start_of [] hi = hi"
| "start_of ((e, b) # es) hi = unat e"

definition end_of :: "nat \<Rightarrow> block list \<Rightarrow> nat" where
  "end_of lo es = (if es = [] then lo else unat (snd (last es)))"

lemma last_of_simps [simp]: "last_of p [] = p" "last_of p ((e, b) # es) = last_of e es" "last_of p (es @ [(e, b)]) = e"
  by (simp_all add: last_of_def)

lemma end_of_simps [simp]: "end_of lo [] = lo" "end_of lo ((e, b) # es) = end_of (unat b) es" "end_of lo (es @ [(e, b)]) = unat b"
  by (simp_all add: end_of_def)

lemma next_of_append [simp]: "next_of (xs @ ys) n = next_of xs (next_of ys n)"
  by (cases xs) (auto simp: split_paired_all)

lemma seg_append: "seg m p (xs @ ys) n \<longleftrightarrow> seg m p xs (next_of ys n) \<and> seg m (last_of p xs) ys n"
  by (induction xs arbitrary: p rule: list.induct) (auto simp: split_paired_all)

lemma ordered_le: "ordered lo es hi \<Longrightarrow> lo \<le> hi"
  by (induction es arbitrary: lo) (force simp: split_paired_all)+

lemma ordered_append: "ordered lo (xs @ ys) hi \<longleftrightarrow> ordered lo xs (end_of lo xs) \<and> ordered (end_of lo xs) ys hi"
proof (induction xs arbitrary: lo)
  case (Cons x xs)
  then show ?case by (cases x) auto
qed (auto dest: ordered_le)

lemma ordered_range: "ordered lo es hi \<Longrightarrow> (e, b) \<in> set es \<Longrightarrow> lo \<le> unat e \<and> unat e + 12 \<le> unat b \<and> unat b \<le> hi"
proof (induction es arbitrary: lo)
  case (Cons x es)
  then show ?case by (cases x) (force dest: ordered_le)
qed simp

lemma ordered_start: "ordered lo es hi \<Longrightarrow> lo \<le> start_of es hi"
  by (cases es) (auto dest: ordered_le simp: split_paired_all)

lemma ordered_mono: "ordered lo es hi \<Longrightarrow> lo' \<le> start_of es hi' \<Longrightarrow> hi \<le> hi' \<Longrightarrow> ordered lo' es hi'"
proof (induction es arbitrary: lo lo')
  case (Cons x es)
  obtain e b where x: "x = (e, b)" by (cases x)
  have "ordered (unat b) es hi'"
    using Cons.IH [of "unat b" "unat b"] Cons.prems(1,3) ordered_start [of "unat b" es hi] x
    by (cases es) (auto dest: ordered_le)
  then show ?case using Cons.prems(1,2) x by simp
qed auto

text \<open>Loads and stores of words whose addresses do not wrap around.\<close>

lemma load32_disjoint:
  "unat a + 4 \<le> unat b \<or> unat b + 4 \<le> unat a \<Longrightarrow> unat a \<le> 4294967292 \<Longrightarrow> unat b \<le> 4294967292 \<Longrightarrow>
    load32 (store32 m a w) b = load32 m b"
  by (rule load32_store32_apart) (elim disjE; simp add: apart_belowI apart_aboveI)

lemma store32_frame:
  "unat x < unat a \<or> unat a + 4 \<le> unat x \<Longrightarrow> unat a \<le> 4294967292 \<Longrightarrow> store32 m a w x = m x"
  by (rule store32_outside) (auto simp: inside_unat)

lemma load32_same:
  "(\<And>x. unat a \<le> unat x \<Longrightarrow> unat x < unat a + 4 \<Longrightarrow> m' x = m x) \<Longrightarrow> unat a \<le> 4294967292 \<Longrightarrow> load32 m' a = load32 m a"
  by (rule load32_cong) (auto simp: inside_unat)

lemma unat_plus_small: "unat (e :: u32) + 12 < 4294967296 \<Longrightarrow> unat (e + 4) = unat e + 4 \<and> unat (e + 8) = unat e + 8 \<and> unat (e + 12) = unat e + 12"
  using unat_add_small [of e 4] unat_add_small [of e 8] unat_add_small [of e 12] by simp

lemma entry_end_same:
  "(\<And>x. unat e \<le> unat x \<Longrightarrow> unat x < unat e + 4 \<Longrightarrow> m' x = m x) \<Longrightarrow> unat e + 12 < 4294967296 \<Longrightarrow>
    entry_end m' e = entry_end m e"
  unfolding entry_end_def by (rule load32_same) auto

lemma entry_prev_same:
  "(\<And>x. unat e + 4 \<le> unat x \<Longrightarrow> unat x < unat e + 8 \<Longrightarrow> m' x = m x) \<Longrightarrow> unat e + 12 < 4294967296 \<Longrightarrow>
    entry_prev m' e = entry_prev m e"
  unfolding entry_prev_def by (rule load32_same) (auto simp: unat_plus_small)

lemma entry_next_same:
  "(\<And>x. unat e + 8 \<le> unat x \<Longrightarrow> unat x < unat e + 12 \<Longrightarrow> m' x = m x) \<Longrightarrow> unat e + 12 < 4294967296 \<Longrightarrow>
    entry_next m' e = entry_next m e"
  unfolding entry_next_def by (rule load32_same) (auto simp: unat_plus_small)

lemma header_same:
  assumes "\<And>x. unat e \<le> unat x \<Longrightarrow> unat x < unat e + 12 \<Longrightarrow> m' x = m x" "unat e + 12 < 4294967296"
  shows "entry_end m' e = entry_end m e" "entry_prev m' e = entry_prev m e" "entry_next m' e = entry_next m e"
  by (rule entry_end_same [OF _ assms(2)], rule assms(1), simp_all)
    (rule entry_prev_same [OF _ assms(2)], rule assms(1), simp_all,
     rule entry_next_same [OF _ assms(2)], rule assms(1), simp_all)

lemma seg_frame:
  assumes "\<And>e b x. (e, b) \<in> set es \<Longrightarrow> unat e \<le> unat x \<Longrightarrow> unat x < unat e + 12 \<Longrightarrow> m' x = m x"
    "ordered lo es hi" "hi < 4294967296"
  shows "seg m' p es n = seg m p es n"
  using assms
proof (induction es arbitrary: p lo)
  case (Cons x es)
  obtain e b where x: "x = (e, b)" by (cases x)
  have "unat e + 12 < 4294967296" using ordered_range [OF Cons.prems(2), of e b] x Cons.prems(3) by simp
  then have "entry_end m' e = entry_end m e" "entry_prev m' e = entry_prev m e" "entry_next m' e = entry_next m e"
    using Cons.prems(1) [of e b] x by (auto intro!: header_same)
  moreover have "seg m' e es n = seg m e es n"
    using Cons.prems x by (intro Cons.IH [of "unat b"]) auto
  ultimately show ?case by (simp add: x)
qed simp

text \<open>Two entries of an ordered list do not overlap.\<close>

lemma ordered_apart:
  assumes "ordered lo (xs @ (q, qb) # ys) hi"
  shows "(e, b) \<in> set xs \<Longrightarrow> unat b \<le> unat q" "(e, b) \<in> set ys \<Longrightarrow> unat qb \<le> unat e"
    "unat q + 12 \<le> unat qb" "unat qb \<le> start_of ys hi" "lo \<le> unat q" "start_of ys hi \<le> hi" "end_of lo xs \<le> unat q"
proof -
  have o: "ordered lo xs (end_of lo xs)" "end_of lo xs \<le> unat q" "unat q + 12 \<le> unat qb" "ordered (unat qb) ys hi"
    using assms by (simp_all add: ordered_append)
  show "(e, b) \<in> set xs \<Longrightarrow> unat b \<le> unat q" using ordered_range [OF o(1)] o(2) by fastforce
  show "(e, b) \<in> set ys \<Longrightarrow> unat qb \<le> unat e" using ordered_range [OF o(4)] by fastforce
  show "unat q + 12 \<le> unat qb" "unat qb \<le> start_of ys hi" "lo \<le> unat q" "end_of lo xs \<le> unat q"
    using o ordered_start [OF o(4)] ordered_le [OF o(1)] by auto
  show "start_of ys hi \<le> hi" using ordered_le [of "unat (snd (hd ys))" "tl ys" hi] o(4) by (cases ys) auto
qed

subsection \<open>Inserting, removing and resizing\<close>

lemma seg_insert:
  assumes "seg m p (xs @ (q, qb) # ys) 0" "ordered lo (xs @ (q, qb) # ys) hi" "hi < 4294967296"
    "unat qb \<le> unat e" "unat e + 12 \<le> unat b" "unat b \<le> start_of ys hi"
    "entry_end m' e = b" "entry_prev m' e = q" "entry_next m' e = next_of ys 0" "entry_next m' q = e"
    "ys \<noteq> [] \<Longrightarrow> entry_prev m' (next_of ys 0) = e"
    "\<And>x. lo \<le> unat x \<Longrightarrow> unat x < hi \<Longrightarrow> \<not> (unat q + 8 \<le> unat x \<and> unat x < unat q + 12) \<Longrightarrow>
      (ys \<noteq> [] \<Longrightarrow> \<not> (start_of ys hi + 4 \<le> unat x \<and> unat x < start_of ys hi + 8)) \<Longrightarrow>
      \<not> (unat e \<le> unat x \<and> unat x < unat b) \<Longrightarrow> m' x = m x"
  shows "seg m' p (xs @ (q, qb) # (e, b) # ys) 0 \<and> ordered lo (xs @ (q, qb) # (e, b) # ys) hi"
proof -
  note apart = ordered_apart [OF assms(2)]
  have o: "ordered lo xs (end_of lo xs)" "ordered (unat qb) ys hi"
    using assms(2) by (simp_all add: ordered_append)
  have oys: "ordered (unat b) ys hi" using ordered_mono [OF o(2) assms(6)] by simp
  have s: "seg m p xs q" "entry_end m q = qb" "entry_prev m q = last_of p xs" "seg m q ys 0"
    using assms(1) by (simp_all add: seg_append)
  have xs: "seg m' p xs q"
  proof -
    have "seg m' p xs q = seg m p xs q"
    proof (rule seg_frame [OF _ o(1)])
      show "m' x = m x" if "(c, d) \<in> set xs" "unat c \<le> unat x" "unat x < unat c + 12" for c d x
      proof (rule assms(12))
        have "lo \<le> unat c" "unat c + 12 \<le> unat d" "unat d \<le> unat q"
          using ordered_range [OF o(1) that(1)] apart(1) [OF that(1)] by auto
        then show "lo \<le> unat x" "unat x < hi" "\<not> (unat q + 8 \<le> unat x \<and> unat x < unat q + 12)"
          "\<not> (start_of ys hi + 4 \<le> unat x \<and> unat x < start_of ys hi + 8)" "\<not> (unat e \<le> unat x \<and> unat x < unat b)"
          using that apart(3,4,6) assms(4) by linarith+
      qed
      show "end_of lo xs < 4294967296" using apart(3,4,6,7) assms(3) by linarith
    qed
    then show ?thesis using s(1) by simp
  qed
  have q: "entry_end m' q = qb" "entry_prev m' q = last_of p xs"
  proof -
    have small: "unat q + 12 < 4294967296" using apart(3,4,6) assms(3) by linarith
    have same: "m' x = m x" if "unat q \<le> unat x" "unat x < unat q + 8" for x
      using that apart(3-6) assms(4) by (intro assms(12)) linarith+
    have "entry_end m' q = entry_end m q" by (rule entry_end_same [OF same small]) auto
    moreover have "entry_prev m' q = entry_prev m q" by (rule entry_prev_same [OF same small]) auto
    ultimately show "entry_end m' q = qb" "entry_prev m' q = last_of p xs" using s(2,3) by simp_all
  qed
  have ys: "seg m' e ys 0"
  proof (cases ys)
    case (Cons y ys')
    obtain c d where y: "y = (c, d)" by (cases y)
    have st: "start_of ys hi = unat c" by (simp add: Cons y)
    have oc: "unat b \<le> unat c" "unat c + 12 \<le> unat d" "ordered (unat d) ys' hi" using oys Cons y by auto
    have dhi: "unat d \<le> hi" using ordered_le [OF oc(3)] .
    have bounds: "lo \<le> unat q" "unat q + 12 \<le> unat qb" "unat qb \<le> unat e" "unat e + 12 \<le> unat b"
      using apart(3,5) assms(4,5) by auto
    have small: "unat c + 12 < 4294967296" using oc(2) dhi assms(3) by linarith
    have same: "m' x = m x" if "unat c \<le> unat x" "unat x < hi" "\<not> (unat c + 4 \<le> unat x \<and> unat x < unat c + 8)" for x
      using that oc(1) bounds st by (intro assms(12)) linarith+
    have "entry_end m' c = entry_end m c" by (rule entry_end_same [OF same small]) (use oc(2) dhi in auto)
    moreover have "entry_next m' c = entry_next m c" by (rule entry_next_same [OF same small]) (use oc(2) dhi in auto)
    moreover have "seg m' c ys' 0 = seg m c ys' 0"
    proof (rule seg_frame [OF _ oc(3) assms(3)])
      show "m' x = m x" if "(f, g) \<in> set ys'" "unat f \<le> unat x" "unat x < unat f + 12" for f g x
        using ordered_range [OF oc(3) that(1)] that(2,3) oc(2) by (intro same) linarith+
    qed
    moreover have "entry_prev m' c = e" using assms(11) Cons y by simp
    ultimately show ?thesis using s(4) by (simp add: Cons y)
  qed simp
  show ?thesis
    using xs q ys o(1) oys assms(4-10) apart(3,7) by (simp add: seg_append ordered_append)
qed

lemma seg_remove:
  assumes "seg m p (xs @ (q, qb) # (e, b) # ys) 0" "ordered lo (xs @ (q, qb) # (e, b) # ys) hi" "hi < 4294967296"
    "entry_next m' q = next_of ys 0" "ys \<noteq> [] \<Longrightarrow> entry_prev m' (next_of ys 0) = q"
    "\<And>x. lo \<le> unat x \<Longrightarrow> unat x < hi \<Longrightarrow> \<not> (unat q + 8 \<le> unat x \<and> unat x < unat q + 12) \<Longrightarrow>
      (ys \<noteq> [] \<Longrightarrow> \<not> (start_of ys hi + 4 \<le> unat x \<and> unat x < start_of ys hi + 8)) \<Longrightarrow> m' x = m x"
  shows "seg m' p (xs @ (q, qb) # ys) 0 \<and> ordered lo (xs @ (q, qb) # ys) hi"
proof -
  note apart = ordered_apart [OF assms(2)]
  have o: "ordered lo xs (end_of lo xs)" "unat qb \<le> unat e" "unat e + 12 \<le> unat b" "ordered (unat b) ys hi"
    using assms(2) by (simp_all add: ordered_append)
  have oys: "ordered (unat qb) ys hi"
    using ordered_mono [OF o(4)] ordered_start [OF o(4)] o(2,3) by simp
  have s: "seg m p xs q" "entry_end m q = qb" "entry_prev m q = last_of p xs" "seg m e ys 0"
    using assms(1) by (simp_all add: seg_append)
  have start: "unat b \<le> start_of ys hi" using ordered_start [OF o(4)] .
  have shi: "start_of ys hi \<le> hi" using ordered_apart(6) [of lo "xs @ [(q, qb)]" e b ys hi] assms(2) by simp
  have hi: "unat q + 12 < 4294967296" using apart(3) o(2,3) start ordered_le [OF oys] assms(3) ordered_le [OF o(4)] by linarith
  have xs: "seg m' p xs q = seg m p xs q"
  proof (rule seg_frame [OF _ o(1)])
    show "m' x = m x" if "(c, d) \<in> set xs" "unat c \<le> unat x" "unat x < unat c + 12" for c d x
      using ordered_range [OF o(1) that(1)] apart(1) [OF that(1)] that(2,3) apart(3) o(2,3) start shi
      by (intro assms(6)) linarith+
    show "end_of lo xs < 4294967296" using apart(7) hi by linarith
  qed
  have same: "m' x = m x" if "unat q \<le> unat x" "unat x < unat q + 8" for x
    using that apart(3,5) o(2,3) start shi by (intro assms(6)) linarith+
  have "entry_end m' q = entry_end m q" by (rule entry_end_same [OF same hi]) auto
  moreover have "entry_prev m' q = entry_prev m q" by (rule entry_prev_same [OF same hi]) auto
  ultimately have q: "entry_end m' q = qb" "entry_prev m' q = last_of p xs" using s(2,3) by simp_all
  have ys: "seg m' q ys 0"
  proof (cases ys)
    case (Cons y ys')
    obtain c d where y: "y = (c, d)" by (cases y)
    have st: "start_of ys hi = unat c" by (simp add: Cons y)
    have oc: "unat b \<le> unat c" "unat c + 12 \<le> unat d" "ordered (unat d) ys' hi" using o(4) Cons y by auto
    have dhi: "unat d \<le> hi" using ordered_le [OF oc(3)] .
    have small: "unat c + 12 < 4294967296" using oc(2) ordered_le [OF oc(3)] assms(3) by linarith
    have same: "m' x = m x" if "unat c \<le> unat x" "unat x < hi" "\<not> (unat c + 4 \<le> unat x \<and> unat x < unat c + 8)" for x
      using that oc(1) apart(3,5) o(2,3) st by (intro assms(6)) linarith+
    have "entry_end m' c = entry_end m c" by (rule entry_end_same [OF same small]) (use oc(2) dhi in auto)
    moreover have "entry_next m' c = entry_next m c" by (rule entry_next_same [OF same small]) (use oc(2) dhi in auto)
    moreover have "seg m' c ys' 0 = seg m c ys' 0"
    proof (rule seg_frame [OF _ oc(3) assms(3)])
      show "m' x = m x" if "(f, g) \<in> set ys'" "unat f \<le> unat x" "unat x < unat f + 12" for f g x
        using ordered_range [OF oc(3) that(1)] that(2,3) oc(2) by (intro same) linarith+
    qed
    ultimately show ?thesis using s(4) assms(5) by (simp add: Cons y)
  qed simp
  show ?thesis using xs s(1) q ys o(1) oys assms(4) apart(3,7) by (simp add: seg_append ordered_append)
qed

lemma seg_resize:
  assumes "seg m p (xs @ (e, b) # ys) 0" "ordered lo (xs @ (e, b) # ys) hi" "hi < 4294967296"
    "unat e + 12 \<le> unat b'" "unat b' \<le> start_of ys hi" "entry_end m' e = b'"
    "\<And>x. lo \<le> unat x \<Longrightarrow> unat x < hi \<Longrightarrow> \<not> (unat e \<le> unat x \<and> unat x < unat e + 4) \<Longrightarrow> m' x = m x"
  shows "seg m' p (xs @ (e, b') # ys) 0 \<and> ordered lo (xs @ (e, b') # ys) hi"
proof -
  note apart = ordered_apart [OF assms(2)]
  have o: "ordered lo xs (end_of lo xs)" "unat e + 12 \<le> unat b" "ordered (unat b) ys hi"
    using assms(2) by (simp_all add: ordered_append)
  have s: "seg m p xs e" "entry_prev m e = last_of p xs" "entry_next m e = next_of ys 0" "seg m e ys 0"
    using assms(1) by (simp_all add: seg_append)
  have start: "unat b \<le> start_of ys hi" using ordered_start [OF o(3)] .
  have hi: "unat e + 12 < 4294967296" using assms(3-5) apart(6) by linarith
  have xs: "seg m' p xs e = seg m p xs e"
  proof (rule seg_frame [OF _ o(1)])
    show "m' x = m x" if "(c, d) \<in> set xs" "unat c \<le> unat x" "unat x < unat c + 12" for c d x
      using ordered_range [OF o(1) that(1)] apart(1) [OF that(1)] that(2,3) apart(3,4,6) by (intro assms(7)) linarith+
    show "end_of lo xs < 4294967296" using apart(7) hi by linarith
  qed
  have ehi: "unat e + 12 \<le> hi" using assms(4,5) apart(6) by linarith
  have same: "m' x = m x" if "unat e + 4 \<le> unat x" "unat x < hi" for x
    using that apart(5) by (intro assms(7)) linarith+
  have e: "entry_prev m' e = entry_prev m e" "entry_next m' e = entry_next m e"
    by (rule entry_prev_same [OF same hi]; use ehi in simp) (rule entry_next_same [OF same hi]; use ehi in simp)
  have ys: "seg m' e ys 0 = seg m e ys 0"
  proof (rule seg_frame [OF _ o(3) assms(3)])
    show "m' x = m x" if "(c, d) \<in> set ys" "unat c \<le> unat x" "unat x < unat c + 12" for c d x
      using ordered_range [OF o(3) that(1)] that(2,3) o(2) by (intro same) linarith+
  qed
  have "ordered (unat b') ys hi" using ordered_mono [OF o(3) assms(5)] by simp
  then show ?thesis using xs s e ys o(1) assms(4-6) apart(3,7) by (simp add: seg_append ordered_append)
qed

subsection \<open>The metadata and the search\<close>

definition FIRST_END :: u32 where "FIRST_END = 0xC0801000"

definition heap_end :: "mem \<Rightarrow> nat" where "heap_end m = unat (load32 m MEMORY_END)"

text \<open>
  The free space the next allocation is taken from lies after the entry \<open>insert_entry\<close>. Its size
  in the metadata is at most the real one, and with \<open>ex\<close> exactly the real one.
\<close>

definition fits_gap :: "bool \<Rightarrow> nat \<Rightarrow> nat \<Rightarrow> bool" where
  "fits_gap ex sz gap \<longleftrightarrow> sz \<le> gap \<and> (ex \<longrightarrow> sz = gap)"

lemma fits_gap_refl [simp]: "fits_gap ex n n" by (simp add: fits_gap_def)
lemma fits_gap_le: "fits_gap ex n g \<Longrightarrow> n \<le> g" by (simp add: fits_gap_def)
lemma fits_gap_exact: "fits_gap True n g \<Longrightarrow> n = g" by (simp add: fits_gap_def)

definition free_ok :: "bool \<Rightarrow> mem \<Rightarrow> block list \<Rightarrow> bool" where
  "free_ok ex m es \<longleftrightarrow> (\<exists>xs q qb ys. es = xs @ (q, qb) # ys \<and> load32 m INSERT_ENTRY = q
     \<and> load32 m FREE_MEMORY_START = qb \<and> fits_gap ex (unat (load32 m FREE_MEMORY_SIZE)) (start_of ys (heap_end m) - unat qb))"

definition heap_list :: "mem \<Rightarrow> block list \<Rightarrow> bool" where
  "heap_list m es \<longleftrightarrow> (\<exists>rest. es = (FIRST_ENTRY, FIRST_END) # rest) \<and> seg m 0 es 0
     \<and> ordered 3229614104 es (heap_end m) \<and> heap_end m \<le> 4278190080"

lemma heap_list_nonzero:
  assumes "heap_list m es" "es = xs @ ys"
  shows "next_of ys 0 = 0 \<longleftrightarrow> ys = []"
proof -
  have "next_of ys 0 \<noteq> 0" if nonempty: "ys \<noteq> []"
  proof -
    obtain z ys' where "ys = z # ys'" using nonempty by (cases ys) auto
    then obtain y d where ys: "ys = (y, d) # ys'" by (cases z) auto
    then have "3229614104 \<le> unat y"
      using assms ordered_range [of 3229614104 es "heap_end m" y d] by (auto simp: heap_list_def)
    then show ?thesis using ys by auto
  qed
  then show ?thesis by (cases ys) auto
qed

lemma free_space_entry:
  assumes "heap_list m (xs @ (q, qb) # ys)"
  shows "entry_end m q = qb" "entry_next m q = next_of ys 0" "unat (free_space m q) = start_of ys (heap_end m) - unat qb"
    "unat qb \<le> start_of ys (heap_end m)"
proof -
  have l: "seg m 0 (xs @ (q, qb) # ys) 0" "ordered 3229614104 (xs @ (q, qb) # ys) (heap_end m)"
    using assms by (simp_all add: heap_list_def)
  show e: "entry_end m q = qb" "entry_next m q = next_of ys 0" using l(1) by (simp_all add: seg_append)
  have o: "ordered (unat qb) ys (heap_end m)" using l(2) by (simp add: ordered_append)
  then show le: "unat qb \<le> start_of ys (heap_end m)" by (rule ordered_start)
  have nz: "next_of ys 0 = 0 \<longleftrightarrow> ys = []" using heap_list_nonzero [OF assms, of "xs @ [(q, qb)]" ys] by simp
  show "unat (free_space m q) = start_of ys (heap_end m) - unat qb"
    using e nz le by (cases ys) (auto simp: free_space_def heap_end_def unat_sub word_le_nat_alt)
qed

lemma start_of_next: "ys \<noteq> [] \<Longrightarrow> start_of ys hi = unat (next_of ys n)"
  by (cases ys) auto

text \<open>The search returns the biggest free space of the whole list.\<close>

lemma biggest_space_suffix:
  assumes "heap_list m (xs @ es)"
  shows "\<exists>r re. biggest_space m (next_of es 0) big ent = Some (r, re) \<and> big \<le> r
    \<and> (\<forall>zs c d ys. es = zs @ (c, d) # ys \<longrightarrow> start_of ys (heap_end m) - unat d \<le> unat r)
    \<and> ((r, re) = (big, ent) \<or> (\<exists>zs d ys. es = zs @ (re, d) # ys \<and> unat r = start_of ys (heap_end m) - unat d))"
  using assms
proof (induction es arbitrary: xs big ent)
  case Nil
  then show ?case by (subst biggest_space.simps) auto
next
  case (Cons x es)
  obtain c d where x: "x = (c, d)" by (cases x)
  have fs: "entry_next m c = next_of es 0" "unat (free_space m c) = start_of es (heap_end m) - unat d"
    using free_space_entry [of m xs c d es] Cons.prems x by simp_all
  have nz: "c \<noteq> 0" using heap_list_nonzero [OF Cons.prems refl] x by auto
  let ?big = "if big < free_space m c then free_space m c else big"
  let ?ent = "if big < free_space m c then c else ent"
  obtain r re where IH: "biggest_space m (next_of es 0) ?big ?ent = Some (r, re)" "?big \<le> r"
    "\<forall>zs c d ys. es = zs @ (c, d) # ys \<longrightarrow> start_of ys (heap_end m) - unat d \<le> unat r"
    "(r, re) = (?big, ?ent) \<or> (\<exists>zs d ys. es = zs @ (re, d) # ys \<and> unat r = start_of ys (heap_end m) - unat d)"
    using Cons.IH [of "xs @ [x]" ?big ?ent] Cons.prems unfolding append_assoc append_Cons append_Nil by blast
  have "biggest_space m c big ent = Some (r, re)"
    using IH(1) nz fs(1) by (subst biggest_space.simps) (auto simp: Let_def)
  moreover have "big \<le> r" "free_space m c \<le> r" using IH(2) by (auto split: if_splits)
  moreover have "start_of ys (heap_end m) - unat d' \<le> unat r" if "x # es = zs @ (c', d') # ys" for zs c' d' ys
    using that IH(3) \<open>free_space m c \<le> r\<close> fs(2) x by (cases zs) (auto simp: word_le_nat_alt)
  moreover have "(r, re) = (big, ent) \<or> (\<exists>zs d ys. x # es = zs @ (re, d) # ys \<and> unat r = start_of ys (heap_end m) - unat d)"
    using IH(4)
  proof
    assume *: "(r, re) = (?big, ?ent)"
    show ?thesis
    proof (cases "big < free_space m c")
      case True
      then have "x # es = [] @ (re, d) # es" "unat r = start_of es (heap_end m) - unat d" using * fs(2) x by auto
      then show ?thesis by blast
    qed (use * in simp)
  next
    assume "\<exists>zs d ys. es = zs @ (re, d) # ys \<and> unat r = start_of ys (heap_end m) - unat d"
    then obtain zs d' ys where "x # es = (x # zs) @ (re, d') # ys" "unat r = start_of ys (heap_end m) - unat d'" by auto
    then show ?thesis by blast
  qed
  ultimately show ?case using x by auto
qed

lemma biggest_space_list:
  assumes "heap_list m es"
  obtains (none) re where "biggest_space m FIRST_ENTRY 0 0 = Some (0, re)"
      "\<And>xs q qb ys. es = xs @ (q, qb) # ys \<Longrightarrow> start_of ys (heap_end m) - unat qb = 0"
    | (some) xs q qb ys r where "biggest_space m FIRST_ENTRY 0 0 = Some (r, q)" "es = xs @ (q, qb) # ys" "0 < unat r"
      "unat r = start_of ys (heap_end m) - unat qb"
      "\<And>xs q qb ys. es = xs @ (q, qb) # ys \<Longrightarrow> start_of ys (heap_end m) - unat qb \<le> unat r"
proof -
  have first: "next_of es 0 = FIRST_ENTRY" using assms by (auto simp: heap_list_def)
  have "heap_list m ([] @ es)" using assms by simp
  then obtain r re where r: "biggest_space m FIRST_ENTRY 0 0 = Some (r, re)"
    "\<forall>zs c d ys. es = zs @ (c, d) # ys \<longrightarrow> start_of ys (heap_end m) - unat d \<le> unat r"
    "(r, re) = (0, 0) \<or> (\<exists>zs d ys. es = zs @ (re, d) # ys \<and> unat r = start_of ys (heap_end m) - unat d)"
    using biggest_space_suffix [of m "[]" es 0 0] unfolding first by blast
  show thesis
  proof (cases "r = 0")
    case True
    show thesis
    proof (rule none)
      show "biggest_space m FIRST_ENTRY 0 0 = Some (0, re)" using r(1) True by simp
      show "start_of ys (heap_end m) - unat qb = 0" if "es = xs @ (q, qb) # ys" for xs q qb ys
        using r(2) that True by fastforce
    qed
  next
    case False
    then obtain zs d ys where "es = zs @ (re, d) # ys" "unat r = start_of ys (heap_end m) - unat d" using r(3) by blast
    moreover have "0 < unat r" using False by (simp add: unat_gt_0)
    ultimately show thesis using some [OF r(1)] r(2) by blast
  qed
qed

end
