(* ===== verification/Heap_Proofs.thy ===== *)
theory Heap_Proofs
  imports Heap_Lists
begin

text \<open>
  Correctness of the kernel heap. \<open>heap_inv ex s es\<close> says that the heap of \<open>s\<close> is the list of entries
  \<open>es\<close>, that every byte of every entry is on a mapped page, and that the page tables and the free
  pages are as the allocators need them. Every operation of the heap keeps it.
\<close>

section \<open>The pages of the heap\<close>

text \<open>Pages \<open>788480\<close> to \<open>1044480\<close> lie between \<open>VM_KERNEL_HEAP_START\<close> and \<open>VM_PERM_ALLOCATOR_END\<close>.\<close>

definition mapped :: "pm_state \<Rightarrow> nat set" where
  "mapped v = {i. 788480 \<le> i \<and> i < 1044480 \<and> present (table v i)}"

definition paging_ok :: "pm_state \<Rightarrow> bool" where
  "paging_ok v \<longleftrightarrow> pm_ready v \<and> (\<forall>p \<in> set_mset (free_pages v). PAGE_OFFSET_MASK p = 0)
     \<and> (\<forall>i. 1048322 \<le> i \<and> i < 1048572 \<longrightarrow> present (table v i) \<and> \<not> locked (table v i))
     \<and> (\<forall>i. 788480 \<le> i \<and> i < 1044480 \<longrightarrow> \<not> locked (table v i))
     \<and> size (free_pages v) + card (mapped v) \<le> pm_capacity v"

lemma finite_mapped [simp]: "finite (mapped v)"
  by (rule finite_subset [of _ "{..<1044480}"]) (auto simp: mapped_def)

lemma mask_aligned: "PAGE_OFFSET_MASK (PAGE_MASK x) = 0"
  by (simp add: PAGE_OFFSET_MASK_def PAGE_MASK_def and.assoc)

lemma unat_page_mask: "unat (PAGE_MASK x) = 4096 * (unat x div 4096)"
proof -
  have "PAGE_MASK x + PAGE_OFFSET_MASK x = x AND (0xFFFFF000 OR 0xFFF)"
    unfolding PAGE_MASK_def PAGE_OFFSET_MASK_def
    by (subst disjunctive_add_eq_or) (simp add: and.assoc and.left_commute, simp only: bit.conj_disj_distrib)
  moreover have "(0xFFFFF000 OR 0xFFF :: u32) = - 1" by simp
  ultimately have sum: "PAGE_MASK x + PAGE_OFFSET_MASK x = x" by (simp only: and.right_neutral)
  have off: "unat (PAGE_OFFSET_MASK x) = unat x mod 4096"
    by (simp add: offset_mask_mod unat_mod_distrib)
  have "PAGE_MASK x = x - PAGE_OFFSET_MASK x" using sum by (simp add: algebra_simps)
  moreover have "PAGE_OFFSET_MASK x \<le> x" using off by (simp add: word_le_nat_alt)
  ultimately have "unat (PAGE_MASK x) = unat x - unat x mod 4096" using off by (simp add: unat_sub)
  then show ?thesis by (simp add: minus_mod_eq_mult_div)
qed

lemma page_index_mask [simp]: "page_index (PAGE_MASK x) = page_index x"
  by (simp add: page_index_def unat_page_mask)

lemma aligned_entry_unlocked: "PAGE_OFFSET_MASK p = 0 \<Longrightarrow> \<not> locked flags \<Longrightarrow> \<not> locked (p OR flags)"
proof -
  assume "PAGE_OFFSET_MASK p = 0" and "\<not> locked flags"
  moreover from this(1) have "p AND VM_FLAG_SPINLOCK = PAGE_MASK p AND VM_FLAG_SPINLOCK" by (simp add: mask_of_aligned)
  moreover have "PAGE_MASK p AND VM_FLAG_SPINLOCK = 0" by (simp add: PAGE_MASK_def vm_flags and.assoc)
  ultimately show ?thesis by (simp add: bit.conj_disj_distrib2)
qed

lemma page_range_size:
  assumes "PAGE_OFFSET_MASK first = 0" "PAGE_OFFSET_MASK stop = 0" "first \<le> stop" "page_index stop < 1044480"
  shows "unat (stop - first + PAGE_SIZE) = 4096 * (Suc (page_index stop) - page_index first)"
    "page_count (stop - first + PAGE_SIZE) = Suc (page_index stop) - page_index first"
    "page_index first \<le> page_index stop"
proof -
  note u = aligned_page [OF assms(1)] aligned_page [OF assms(2)]
  show le: "page_index first \<le> page_index stop" using assms(3) u by (simp add: word_le_nat_alt)
  have "unat (stop - first) = 4096 * (page_index stop - page_index first)"
    using assms(3) u by (simp add: unat_sub diff_mult_distrib2)
  then have "unat (stop - first + PAGE_SIZE) = 4096 * (page_index stop - page_index first) + 4096"
    using assms(4) by (subst unat_add_small) (auto simp: PAGE_SIZE_def)
  then show "unat (stop - first + PAGE_SIZE) = 4096 * (Suc (page_index stop) - page_index first)"
    using le by (simp add: Suc_diff_le)
  then show "page_count (stop - first + PAGE_SIZE) = Suc (page_index stop) - page_index first"
    by (simp add: page_count_def)
qed

text \<open>Mapping a range of heap pages.\<close>

lemma heap_range_mapped:
  assumes "paging_ok v" "PAGE_OFFSET_MASK first = 0" "sz \<noteq> 0" "788480 \<le> page_index first"
    "page_index first + page_count sz \<le> 1044480" "page_count sz \<le> size (free_pages v)"
  shows "\<exists>v'. vm_allocate_pages first sz VM_KERNEL v = Some v' \<and> paging_ok v' \<and> memory_kept v v'
    \<and> (\<forall>i. present (table v' i) \<longleftrightarrow> present (table v i) \<or> (page_index first \<le> i \<and> i < page_index first + page_count sz))
    \<and> size (free_pages v) \<le> size (free_pages v') + page_count sz"
proof -
  let ?k = "page_index first" and ?n = "page_count sz"
  note n = page_count_bounds(1) [of sz] page_count_bounds(3) [OF assms(3)]
  have u: "unat first = 4096 * ?k" by (rule aligned_page [OF assms(2)])
  have fits: "unat first + 4096 * ?n < 4294967296" using u assms(5) by simp
  have "unat (first + sz) = unat first + unat sz" using u n assms(5) by (intro unat_add_small) simp
  moreover have "0 < unat sz" using assms(3) by (simp add: unat_gt_0)
  ultimately have end_addr: "unat (first + sz - 1) = unat first + unat sz - 1"
    by (subst unat_sub) (simp_all add: word_le_nat_alt)
  have "unat (first + sz - 1) div 4194304 \<le> 1019" "770 \<le> unat first div 4194304"
    using end_addr u n assms(4,5) by simp_all
  then have tables: "tables_present (table v) (directory_index first) (table_count first sz)"
    using assms(1) by (auto simp: tables_present_def directory_index_def table_count_def paging_ok_def)
  have unl: "unlocked (table v) ?k ?n"
    using assms(1,4,5) by (auto simp: unlocked_def paging_ok_def)
  have len: "length (missing (table v) ?k ?n) \<le> ?n"
    using length_filter_le [of _ "[?k..<?k + ?n]"] by (simp add: missing_def)
  then have enough: "length (missing (table v) ?k ?n) \<le> size (free_pages v)" using assms(6) by simp
  have ready: "pm_ready v" using assms(1) by (simp add: paging_ok_def)
  obtain frame v' where v': "vm_allocate_pages first sz VM_KERNEL v = Some v'"
    "table v' = filled VM_KERNEL ?k ?n frame (table v)"
    "free_pages v = mset (map frame (missing (table v) ?k ?n)) + free_pages v'" "pm_ready v'" "memory_kept v v'"
    using vm_allocate_pages_fills [OF ready fits tables unl enough, of VM_KERNEL] by blast
  have pk: "present VM_KERNEL" "\<not> locked VM_KERNEL" by (simp_all add: present_def vm_flags VM_KERNEL_def)
  have pres: "present (table v' i) \<longleftrightarrow> present (table v i) \<or> (?k \<le> i \<and> i < ?k + ?n)" for i
    using pk(1) by (auto simp: v'(2) filled_def in_missing present_or)
  have range: "i \<in> set (missing (table v) ?k ?n) \<Longrightarrow> 788480 \<le> i \<and> i < 1044480" for i
    using assms(4,5) by (auto simp: in_missing)
  have unl': "\<not> locked (table v' i)" if "788480 \<le> i" "i < 1044480" for i
    using that assms(1) aligned_entry_unlocked [OF _ pk(2), of "frame i"] v'(3)
    by (auto simp: v'(2) filled_def paging_ok_def)
  have dir': "present (table v' i) \<and> \<not> locked (table v' i)" if "1048322 \<le> i" "i < 1048572" for i
    using that assms(1) range [of i] by (auto simp: v'(2) filled_def paging_ok_def)
  have aligned': "\<forall>p \<in> set_mset (free_pages v'). PAGE_OFFSET_MASK p = 0" using assms(1) v'(3) by (simp add: paging_ok_def)
  have "mapped v' = mapped v \<union> set (missing (table v) ?k ?n)"
    using assms(4,5) by (auto simp: mapped_def pres in_missing)
  moreover have "mapped v \<inter> set (missing (table v) ?k ?n) = {}" by (auto simp: mapped_def in_missing)
  moreover have "card (set (missing (table v) ?k ?n)) = length (missing (table v) ?k ?n)"
    by (rule distinct_card) (simp add: missing_def)
  ultimately have "card (mapped v') = card (mapped v) + length (missing (table v) ?k ?n)"
    by (simp add: card_Un_disjoint)
  then have "size (free_pages v') + card (mapped v') \<le> pm_capacity v'"
    using assms(1) v'(3,5) by (simp add: paging_ok_def memory_kept_def)
  then have "paging_ok v'" using v'(4) unl' dir' aligned' by (simp add: paging_ok_def)
  then show ?thesis using v' pres len by auto
qed

lemma heap_pages_mapped:
  assumes "paging_ok v" "PAGE_OFFSET_MASK first = 0" "PAGE_OFFSET_MASK stop = 0" "first \<le> stop"
    "788480 \<le> page_index first" "page_index stop < 1044480" "Suc (page_index stop) - page_index first \<le> size (free_pages v)"
  shows "\<exists>v'. vm_allocate_pages first (stop - first + PAGE_SIZE) VM_KERNEL v = Some v' \<and> paging_ok v' \<and> memory_kept v v'
    \<and> (\<forall>i. present (table v' i) \<longleftrightarrow> present (table v i) \<or> (page_index first \<le> i \<and> i \<le> page_index stop))
    \<and> size (free_pages v) \<le> size (free_pages v') + (Suc (page_index stop) - page_index first)"
proof -
  note sz = page_range_size [OF assms(2-4,6)]
  have "stop - first + PAGE_SIZE \<noteq> 0" using sz(1,3) by (auto simp: unat_eq_0 [symmetric] simp del: unat_eq_0)
  moreover have "page_index first + (Suc (page_index stop) - page_index first) = Suc (page_index stop)" using sz(3) by simp
  ultimately show ?thesis
    using heap_range_mapped [OF assms(1,2), of "stop - first + PAGE_SIZE"] assms(5-7) unfolding sz(2)
    by (simp add: less_Suc_eq_le)
qed

lemma map_pages_ok:
  assumes "paging_ok (vm s)" "PAGE_OFFSET_MASK first = 0" "PAGE_OFFSET_MASK stop = 0"
    "788480 \<le> page_index first" "page_index stop < 1044480" "Suc (page_index stop) - page_index first \<le> size (free_pages (vm s))"
  obtains v where "map_pages first stop s = Some (s\<lparr>vm := v\<rparr>)" "paging_ok v" "memory_kept (vm s) v"
    "\<And>i. present (table v i) \<longleftrightarrow> present (table (vm s) i) \<or> (page_index first \<le> i \<and> i \<le> page_index stop)"
    "size (free_pages (vm s)) \<le> size (free_pages v) + (Suc (page_index stop) - page_index first)"
proof (cases "first \<le> stop")
  case True
  then show ?thesis
    using that heap_pages_mapped [OF assms(1-3) True assms(4-6)] by (auto simp: map_pages_def on_vm_def)
next
  case False
  then have "\<not> page_index first \<le> page_index stop"
    using aligned_page [OF assms(2)] aligned_page [OF assms(3)] by (simp add: word_le_nat_alt)
  then show ?thesis using False by (intro that [of "vm s"]) (auto simp: map_pages_def assms(1))
qed

lemma length_frames: "length (frames_of t k n) = n"
  by (simp add: frames_of_def)

text \<open>Unmapping a range of heap pages that are all mapped.\<close>

lemma heap_pages_unmapped:
  assumes "paging_ok v" "PAGE_OFFSET_MASK first = 0" "PAGE_OFFSET_MASK stop = 0" "first \<le> stop"
    "788480 \<le> page_index first" "page_index stop < 1044480"
    "\<And>i. page_index first \<le> i \<Longrightarrow> i \<le> page_index stop \<Longrightarrow> present (table v i)"
  shows "\<exists>v'. vm_deallocate_pages first (stop - first + PAGE_SIZE) v = Some v' \<and> paging_ok v' \<and> memory_kept v v'
    \<and> (\<forall>i. present (table v' i) \<longleftrightarrow> present (table v i) \<and> \<not> (page_index first \<le> i \<and> i \<le> page_index stop))"
proof -
  let ?sz = "stop - first + PAGE_SIZE" and ?k = "page_index first" and ?n = "Suc (page_index stop) - page_index first"
  note sz = page_range_size [OF assms(2-4,6)]
  have u: "unat first = 4096 * ?k" by (rule aligned_page [OF assms(2)])
  have fits: "unat first + 4096 * page_count ?sz \<le> 4290772992" using u sz(2,3) assms(6) by simp
  have pres: "present (table v i) \<and> present (table v (1047552 + i div 1024))" if "?k \<le> i" "i < ?k + page_count ?sz" for i
  proof
    show "present (table v i)" using that sz assms(7) by simp
    have "770 \<le> i div 1024" "i div 1024 < 1020" using that sz(2,3) assms(5,6) by simp_all
    then show "present (table v (1047552 + i div 1024))" using assms(1) by (simp add: paging_ok_def)
  qed
  have unl: "unlocked (table v) ?k (page_count ?sz)"
    using assms(1,5,6) sz by (auto simp: unlocked_def paging_ok_def)
  have ready: "pm_ready v" using assms(1) by (simp add: paging_ok_def)
  have sub: "{?k..page_index stop} \<subseteq> mapped v" using assms(5-7) by (auto simp: mapped_def)
  have n: "card {?k..page_index stop} = ?n" by simp
  then have "?n \<le> card (mapped v)" using card_mono [OF finite_mapped sub] by simp
  then have room: "size (free_pages v) + page_count ?sz \<le> pm_capacity v" using assms(1) sz(2) by (simp add: paging_ok_def)
  obtain v' where v': "vm_deallocate_pages first ?sz v = Some v'" "table v' = erased ?k ?n (table v)"
    "free_pages v' = mset (frames_of (table v) ?k ?n) + free_pages v" "pm_ready v'" "memory_kept v v'"
    using vm_deallocate_pages_frees [OF ready assms(2) fits pres unl room] unfolding sz(2) by blast
  have "\<not> present 0" by (simp add: present_def vm_flags)
  then have pres': "present (table v' i) \<longleftrightarrow> present (table v i) \<and> \<not> (?k \<le> i \<and> i \<le> page_index stop)" for i
    using sz(3) by (auto simp: v'(2) erased_def)
  have unl': "\<not> locked (table v' i)" if "788480 \<le> i" "i < 1044480" for i
    using that assms(1) by (auto simp: v'(2) erased_def paging_ok_def vm_flags)
  have dir': "present (table v' i) \<and> \<not> locked (table v' i)" if "1048322 \<le> i" "i < 1048572" for i
    using that assms(1,6) sz(3) by (auto simp: v'(2) erased_def paging_ok_def)
  have "mapped v' = mapped v - {?k..page_index stop}" by (auto simp: mapped_def pres')
  then have "card (mapped v') + ?n = card (mapped v)"
    using card_Diff_subset [OF _ sub] n card_mono [OF finite_mapped sub] by simp
  moreover have "size (free_pages v') = ?n + size (free_pages v)" by (simp only: v'(3) size_union size_mset length_frames)
  ultimately have "size (free_pages v') + card (mapped v') \<le> pm_capacity v'"
    using assms(1) v'(5) by (simp add: paging_ok_def memory_kept_def)
  note room' = this
  moreover have "\<forall>p \<in> set_mset (free_pages v'). PAGE_OFFSET_MASK p = 0"
    using assms(1) v'(3) by (auto simp: paging_ok_def frames_of_def mask_aligned)
  ultimately have "paging_ok v'" using v'(4) unl' dir' by (simp add: paging_ok_def)
  then show ?thesis using v' pres' by blast
qed

lemma unmap_pages_ok:
  assumes "paging_ok (vm s)" "PAGE_OFFSET_MASK first = 0" "PAGE_OFFSET_MASK stop = 0"
    "788480 \<le> page_index first" "page_index stop < 1044480"
    "\<And>i. page_index first \<le> i \<Longrightarrow> i \<le> page_index stop \<Longrightarrow> present (table (vm s) i)"
  obtains v where "unmap_pages first stop s = Some (s\<lparr>vm := v\<rparr>)" "paging_ok v" "memory_kept (vm s) v"
    "\<And>i. present (table v i) \<longleftrightarrow> present (table (vm s) i) \<and> \<not> (page_index first \<le> i \<and> i \<le> page_index stop)"
proof (cases "first \<le> stop")
  case True
  then show ?thesis
    using that heap_pages_unmapped [OF assms(1-3) True assms(4-6)] by (auto simp: unmap_pages_def on_vm_def)
next
  case False
  then have "\<not> page_index first \<le> page_index stop"
    using aligned_page [OF assms(2)] aligned_page [OF assms(3)] by (simp add: word_le_nat_alt)
  then show ?thesis using False by (intro that [of "vm s"]) (auto simp: unmap_pages_def assms(1))
qed

section \<open>The invariant\<close>

definition mapped_ok :: "pm_state \<Rightarrow> block list \<Rightarrow> bool" where
  "mapped_ok v es \<longleftrightarrow> (\<forall>e b i. (e, b) \<in> set es \<longrightarrow> page_index e \<le> i \<longrightarrow> i \<le> (unat b - 1) div 4096 \<longrightarrow> present (table v i))"

definition heap_inv :: "bool \<Rightarrow> allocators \<Rightarrow> block list \<Rightarrow> bool" where
  "heap_inv ex s es \<longleftrightarrow> kheap_mutex s = 0 \<and> paging_ok (vm s) \<and> heap_list (heap s) es \<and> free_ok ex (heap s) es
     \<and> mapped_ok (vm s) es"

text \<open>Writes below \<open>VM_PERM_ALLOCATOR_END\<close> touch neither the page stack nor the page tables.\<close>

lemma heap_write:
  assumes "\<And>a. 4278190080 \<le> unat a \<Longrightarrow> m a = virt v a"
  shows "table (v\<lparr>virt := m\<rparr>) = table v" "free_pages (v\<lparr>virt := m\<rparr>) = free_pages v \<or> \<not> pm_ready v"
    "paging_ok (v\<lparr>virt := m\<rparr>) \<longleftrightarrow> paging_ok v"
proof -
  let ?v = "v\<lparr>virt := m\<rparr>"
  show t: "table ?v = table v" by (rule table_cong) (simp add: assms)
  have c: "pm_count ?v = pm_count v" by (simp add: pm_count_def)
  have ready: "pm_ready ?v \<longleftrightarrow> pm_ready v" by (simp add: pm_ready_def pm_wf_def stack_ok_def local_pages_def c)
  have "free_pages ?v = free_pages v" if "pm_ready v"
  proof -
    have "pm_count v \<le> 1048576" using that by (simp add: pm_ready_def pm_wf_def stack_ok_def)
    then have "load32 m (slot i) = load32 (virt v) (slot i)" if "i < pm_count v" for i
      using that assms by (intro load32_cong) (auto simp: inside_unat unat_slot)
    then have "global_pages ?v = global_pages v" by (simp add: global_pages_def c slots_def)
    then show ?thesis by (simp add: free_pages_def local_pages_def)
  qed
  moreover have "mapped ?v = mapped v" by (simp add: mapped_def t)
  ultimately show "free_pages ?v = free_pages v \<or> \<not> pm_ready v" "paging_ok ?v \<longleftrightarrow> paging_ok v"
    by (auto simp: paging_ok_def ready t pm_capacity_def)
qed

lemma mapped_ok_cong: "(\<And>i. present (table v i) \<Longrightarrow> present (table v' i)) \<Longrightarrow> mapped_ok v es \<Longrightarrow> mapped_ok v' es"
  by (auto simp: mapped_ok_def)

section \<open>Placing a block\<close>

definition link_mem :: "u32 \<Rightarrow> u32 \<Rightarrow> u32 \<Rightarrow> mem \<Rightarrow> mem" where
  "link_mem new_entry prev_entry next_entry m =
     store32 (if next_entry \<noteq> 0 then store32 m (next_entry + 4) new_entry else m) (prev_entry + 8) new_entry"

definition header_mem :: "u32 \<Rightarrow> u32 \<Rightarrow> u32 \<Rightarrow> u32 \<Rightarrow> mem \<Rightarrow> mem" where
  "header_mem e b p n m = store32 (store32 (store32 m e b) (e + 4) p) (e + 8) n"

lemma link_entry_mem: "link_entry e q y s = on_heap (link_mem e q y) s"
  by (simp add: link_entry_def link_mem_def set_word_def on_heap_def Let_def)

lemma write_entry_mem: "write_entry e b q y s = on_heap (header_mem e b q y) s"
  by (simp add: write_entry_def header_mem_def set_word_def on_heap_def)

lemma header_mem_reads:
  assumes "unat e + 12 < 4294967296"
  shows "entry_end (header_mem e b p n m) e = b" "entry_prev (header_mem e b p n m) e = p"
    "entry_next (header_mem e b p n m) e = n"
    "\<And>x. unat x < unat e \<or> unat e + 12 \<le> unat x \<Longrightarrow> header_mem e b p n m x = m x"
  using unat_plus_small [OF assms] assms
  by (auto simp: header_mem_def entry_end_def entry_prev_def entry_next_def load32_disjoint load32_store32 store32_frame)

lemma mem_fill_frame:
  assumes "unat e \<le> unat b"
  shows "unat x < unat e \<or> unat b \<le> unat x \<Longrightarrow> mem_fill m e v (b - e) x = m x"
    "unat e \<le> unat x \<Longrightarrow> unat x < unat b \<Longrightarrow> mem_fill m e v (b - e) x = v"
proof -
  have "unat (b - e) = unat b - unat e" using assms by (simp add: unat_sub word_le_nat_alt)
  moreover have "unat e + unat (b - e) \<le> 4294967296" using calculation assms unat_less_4G [of b] by linarith
  ultimately have "inside e (b - e) x \<longleftrightarrow> unat e \<le> unat x \<and> unat x < unat b" using assms by (auto simp: inside_unat)
  then show "unat x < unat e \<or> unat b \<le> unat x \<Longrightarrow> mem_fill m e v (b - e) x = m x"
    "unat e \<le> unat x \<Longrightarrow> unat x < unat b \<Longrightarrow> mem_fill m e v (b - e) x = v"
    by (auto simp: mem_fill_def)
qed

text \<open>
  \<open>M\<close> is the memory when the new block has been linked, the metadata updated and the pages
  mapped; then the block is cleared and its header written.
\<close>

lemma place_block:
  assumes hl: "heap_list m (xs @ (q, qb) # ys)"
    and fits: "unat qb \<le> unat e" "unat e + 12 \<le> unat b" "unat b \<le> start_of ys (heap_end m)"
    and M: "\<And>x. 3229614104 \<le> unat x \<Longrightarrow> unat x < 4286578688 \<Longrightarrow> M x = link_mem e q (next_of ys 0) m x" "heap_end M = heap_end m"
    and m': "m' = header_mem e b q (next_of ys 0) (mem_fill M e 0 (b - e))"
  shows "heap_list m' (xs @ (q, qb) # (e, b) # ys)"
    "\<And>x. unat e + 12 \<le> unat x \<Longrightarrow> unat x < unat b \<Longrightarrow> m' x = 0"
    "\<And>c d x. (c, d) \<in> set (xs @ (q, qb) # ys) \<Longrightarrow> unat c + 12 \<le> unat x \<Longrightarrow> unat x < unat d \<Longrightarrow> m' x = m x"
    "\<And>x. unat x < 3229614104 \<or> 4278190080 \<le> unat x \<Longrightarrow> m' x = M x"
proof -
  let ?y = "next_of ys 0" and ?hi = "heap_end m"
  have s: "seg m 0 (xs @ (q, qb) # ys) 0" "ordered 3229614104 (xs @ (q, qb) # ys) ?hi" "?hi \<le> 4278190080"
    "\<exists>rest. xs @ (q, qb) # ys = (FIRST_ENTRY, FIRST_END) # rest"
    using hl by (simp_all add: heap_list_def)
  note apart = ordered_apart [OF s(2)]
  have nz: "?y = 0 \<longleftrightarrow> ys = []" using heap_list_nonzero [OF hl, of "xs @ [(q, qb)]" ys] by simp
  have lo: "3229614104 \<le> unat q" "unat q + 12 \<le> unat qb" "unat b \<le> 4278190080"
    using apart(3,5,6) fits(3) s(3) by auto
  have e: "unat e + 12 < 4294967296" "unat q + 12 < 4294967296" using lo fits by linarith+
  have oys: "ordered (unat qb) ys ?hi" using s(2) by (simp add: ordered_append)
  have y: "unat ?y = start_of ys ?hi" "unat ?y + 12 \<le> 4278190080" if nonempty: "ys \<noteq> []"
  proof -
    obtain c d ys' where ys: "ys = (c, d) # ys'" using nonempty by (cases ys) auto
    then show "unat ?y = start_of ys ?hi" "unat ?y + 12 \<le> 4278190080"
      using ordered_range [OF oys, of c d] s(3) by auto
  qed
  note header = header_mem_reads [OF e(1), where b = b and p = q and n = ?y and m = "mem_fill M e 0 (b - e)", folded m']
  have eb: "unat e \<le> unat b" using fits(2) by simp
  have out: "m' x = M x" if "unat x < unat e \<or> unat b \<le> unat x" for x
    using that header(4) [of x] mem_fill_frame(1) [OF eb] fits(2) by auto
  show zero: "m' x = 0" if "unat e + 12 \<le> unat x" "unat x < unat b" for x
    using that header(4) [of x] mem_fill_frame(2) [OF eb, of x] fits(2) by auto
  show low: "m' x = M x" if "unat x < 3229614104 \<or> 4278190080 \<le> unat x" for x
    using that out [of x] lo fits(1) by linarith
  have q8: "unat (q + 8) = unat q + 8" using unat_plus_small [OF e(2)] by simp
  have y4: "unat (?y + 4) = unat ?y + 4" if "ys \<noteq> []"
    using unat_plus_small [of ?y] y(2) [OF that] by simp
  have link: "link_mem e q ?y m x = m x"
    if "\<not> (unat q + 8 \<le> unat x \<and> unat x < unat q + 12)" "ys \<noteq> [] \<Longrightarrow> \<not> (start_of ys ?hi + 4 \<le> unat x \<and> unat x < start_of ys ?hi + 8)" for x
  proof -
    have q: "unat x < unat (q + 8) \<or> unat (q + 8) + 4 \<le> unat x" "unat (q + 8) \<le> 4294967292"
      using that(1) q8 e(2) by linarith+
    have "store32 m (?y + 4) e x = m x" if "ys \<noteq> []"
    proof (rule store32_frame)
      show "unat x < unat (?y + 4) \<or> unat (?y + 4) + 4 \<le> unat x"
        using that \<open>ys \<noteq> [] \<Longrightarrow> \<not> (start_of ys ?hi + 4 \<le> unat x \<and> unat x < start_of ys ?hi + 8)\<close> y(1) y4
        by linarith
      show "unat (?y + 4) \<le> 4294967292" using y(2) y4 that by linarith
    qed
    then show ?thesis using nz by (simp add: link_mem_def store32_frame [OF q])
  qed
  have frame: "m' x = m x" if "3229614104 \<le> unat x" "\<not> (unat q + 8 \<le> unat x \<and> unat x < unat q + 12)"
    "ys \<noteq> [] \<Longrightarrow> \<not> (start_of ys ?hi + 4 \<le> unat x \<and> unat x < start_of ys ?hi + 8)" "\<not> (unat e \<le> unat x \<and> unat x < unat b)"
    "unat x < 4278190080" for x
    using that out [of x] M(1) [of x] link [OF that(2,3)] by auto
  have end': "heap_end m' = ?hi"
  proof -
    have "load32 m' MEMORY_END = load32 M MEMORY_END"
      by (rule load32_same) (auto simp: heap_fields intro!: low)
    then show ?thesis using M(2) by (simp add: heap_end_def)
  qed
  have "entry_next m' q = entry_next M q"
    using out e(2) fits(1) lo(2) by (intro entry_next_same) auto
  also have "\<dots> = e"
  proof -
    have "entry_next M q = entry_next (link_mem e q ?y m) q"
      using M(1) lo fits e(2) by (intro entry_next_same) auto
    then show ?thesis by (simp add: entry_next_def link_mem_def load32_store32)
  qed
  finally have nq: "entry_next m' q = e" .
  have py: "entry_prev m' ?y = e" if ne: "ys \<noteq> []"
  proof -
    have small: "unat ?y + 12 < 4294967296" using y(2) [OF ne] by simp
    have above: "unat b \<le> unat ?y" using fits(3) y(1) [OF ne] by simp
    have "entry_prev m' ?y = entry_prev M ?y" using out above by (intro entry_prev_same [OF _ small]) auto
    also have "\<dots> = entry_prev (link_mem e q ?y m) ?y"
      using M(1) above y(2) [OF ne] lo fits by (intro entry_prev_same [OF _ small]) auto
    also have "\<dots> = e"
      using nz ne y4 [OF ne] q8 above fits lo small
      by (simp add: entry_prev_def link_mem_def load32_disjoint load32_store32)
    finally show ?thesis .
  qed
  have "seg m' 0 (xs @ (q, qb) # (e, b) # ys) 0 \<and> ordered 3229614104 (xs @ (q, qb) # (e, b) # ys) ?hi"
  proof (rule seg_insert [OF s(1,2) _ fits header(1-3) nq py])
    show "?hi < 4294967296" using s(3) by simp
    show "m' x = m x" if "3229614104 \<le> unat x" "unat x < ?hi" "\<not> (unat q + 8 \<le> unat x \<and> unat x < unat q + 12)"
      "ys \<noteq> [] \<Longrightarrow> \<not> (start_of ys ?hi + 4 \<le> unat x \<and> unat x < start_of ys ?hi + 8)"
      "\<not> (unat e \<le> unat x \<and> unat x < unat b)" for x
      using that s(3) by (intro frame) auto
  qed
  moreover have "\<exists>rest. xs @ (q, qb) # (e, b) # ys = (FIRST_ENTRY, FIRST_END) # rest"
    using s(4) by (cases xs) auto
  ultimately show "heap_list m' (xs @ (q, qb) # (e, b) # ys)" using s(3) end' by (simp add: heap_list_def)
  show "m' x = m x" if cd: "(c, d) \<in> set (xs @ (q, qb) # ys)" and "unat c + 12 \<le> unat x" "unat x < unat d" for c d x
  proof -
    have r: "3229614104 \<le> unat c" "unat d \<le> ?hi" using ordered_range [OF s(2) that(1)] by auto
    consider "(c, d) \<in> set xs" | "c = q" "d = qb" | "(c, d) \<in> set ys" using cd by auto
    then show ?thesis
    proof cases
      case 1
      have "unat d \<le> unat q" using apart(1) [OF 1] .
      then show ?thesis using that(2,3) r s(3) lo fits y(1) by (intro frame) linarith+
    next
      case 2
      then have "unat q + 12 \<le> unat x" "unat x < unat qb" using that(2,3) by simp_all
      then show ?thesis using s(3) lo fits apart(4,6) by (intro frame) linarith+
    next
      case 3
      then obtain zs zs' where zs: "ys = zs @ (c, d) # zs'" by (auto dest: split_list)
      have "start_of ys ?hi \<le> unat c"
      proof (cases zs)
        case (Cons z zs'')
        obtain f g where z: "z = (f, g)" by (cases z)
        then have "ordered (unat g) (zs'' @ (c, d) # zs') ?hi" "unat f + 12 \<le> unat g"
          using oys zs Cons by auto
        then show ?thesis using ordered_range [of "unat g" "zs'' @ (c, d) # zs'" ?hi c d] zs Cons z by simp
      qed (use zs in simp)
      then show ?thesis using that(2,3) r s(3) lo fits by (intro frame) linarith+
    qed
  qed
qed

section \<open>Changes of the metadata\<close>

definition meta_change :: "mem \<Rightarrow> mem \<Rightarrow> bool" where
  "meta_change m m' \<longleftrightarrow> (\<forall>x. 3229614104 \<le> unat x \<longrightarrow> m' x = m x) \<and> heap_end m' = heap_end m"

lemma meta_change_refl [simp]: "meta_change m m"
  by (simp add: meta_change_def)

lemma meta_change_trans: "meta_change m m' \<Longrightarrow> meta_change m' m'' \<Longrightarrow> meta_change m m''"
  by (simp add: meta_change_def)

lemma meta_change_store:
  assumes "a = FREE_MEMORY_START \<or> a = FREE_MEMORY_SIZE \<or> a = INSERT_ENTRY"
  shows "meta_change m (store32 m a w)"
proof -
  have a: "unat MEMORY_END + 4 \<le> unat a" "unat a + 4 \<le> 3229614104" "unat MEMORY_END \<le> 4294967292"
    using assms by (auto simp: heap_fields)
  then have "load32 (store32 m a w) MEMORY_END = load32 m MEMORY_END" by (intro load32_disjoint) linarith+
  then show ?thesis using a by (auto simp: meta_change_def heap_end_def intro!: store32_frame)
qed

lemma heap_list_meta:
  assumes "heap_list m es" "meta_change m m'"
  shows "heap_list m' es"
proof -
  have "ordered 3229614104 es (heap_end m)" "heap_end m \<le> 4278190080" using assms(1) by (simp_all add: heap_list_def)
  moreover from this have "seg m' 0 es 0 = seg m 0 es 0"
    using assms(2) by (intro seg_frame) (auto simp: meta_change_def dest: ordered_range)
  ultimately show ?thesis using assms by (simp add: heap_list_def meta_change_def)
qed

definition free_mem :: "u32 \<Rightarrow> u32 \<Rightarrow> u32 \<Rightarrow> mem \<Rightarrow> mem" where
  "free_mem start sz entry m = store32 (store32 (store32 m FREE_MEMORY_START start) FREE_MEMORY_SIZE sz) INSERT_ENTRY entry"

lemma use_free_space_mem: "use_free_space start sz entry s = on_heap (free_mem start sz entry) s"
  by (simp add: use_free_space_def free_mem_def set_word_def on_heap_def)

lemma free_mem_meta: "meta_change m (free_mem start sz entry m)"
  unfolding free_mem_def by (intro meta_change_trans [OF _ meta_change_store] meta_change_refl) simp_all

lemma free_mem_reads:
  "load32 (free_mem start sz entry m) FREE_MEMORY_START = start" "load32 (free_mem start sz entry m) FREE_MEMORY_SIZE = sz"
  "load32 (free_mem start sz entry m) INSERT_ENTRY = entry"
  "\<And>x. unat x < 3229614092 \<or> 3229614104 \<le> unat x \<Longrightarrow> free_mem start sz entry m x = m x"
  by (auto simp: free_mem_def load32_store32 load32_disjoint heap_fields store32_frame)

lemma on_heap_simps [simp]: "heap (on_heap f s) = f (heap s)" "kheap_mutex (on_heap f s) = kheap_mutex s"
  "cpu (on_heap f s) = cpu s" "vm (on_heap f s) = (vm s)\<lparr>virt := f (heap s)\<rparr>"
  by (simp_all add: on_heap_def)

text \<open>The search ends with a free space that is big enough, or with none in the whole list.\<close>

lemma find_space_ok:
  assumes "heap_list (heap s) es" "free_ok ex (heap s) es"
  obtains (found) m xs q qb ys where "find_space n s = Some (True, s\<lparr>vm := (vm s)\<lparr>virt := m\<rparr>\<rparr>)" "meta_change (heap s) m"
      "\<And>x. unat x < 3229614092 \<Longrightarrow> m x = heap s x"
      "es = xs @ (q, qb) # ys" "load32 m INSERT_ENTRY = q" "load32 m FREE_MEMORY_START = qb" "n \<le> load32 m FREE_MEMORY_SIZE"
      "fits_gap ex (unat (load32 m FREE_MEMORY_SIZE)) (start_of ys (heap_end m) - unat qb)"
    | (missing) m where "find_space n s = Some (False, s\<lparr>vm := (vm s)\<lparr>virt := m\<rparr>\<rparr>)" "meta_change (heap s) m"
      "\<And>x. unat x < 3229614092 \<Longrightarrow> m x = heap s x"
      "free_ok ex m es" "\<And>xs q qb ys. es = xs @ (q, qb) # ys \<Longrightarrow> start_of ys (heap_end (heap s)) - unat qb < unat n"
proof (cases "load32 (heap s) FREE_MEMORY_SIZE < n")
  case False
  then show thesis using found [of "heap s"] assms(2) by (auto simp: find_space_def free_ok_def)
next
  case True
  then have n: "0 < unat n" by (auto simp: word_less_nat_alt)
  from assms(1) show thesis
  proof (cases rule: biggest_space_list)
    case (none re)
    then show thesis using missing [of "heap s"] True n assms(2) by (simp add: find_space_def)
  next
    case (some xs q qb ys r)
    let ?m = "free_mem qb r q (heap s)"
    have "entry_end (heap s) q = qb" using free_space_entry(1) [of "heap s" xs q qb ys] assms(1) some(2) by simp
    moreover have "r \<noteq> 0" using some(3) by auto
    ultimately have find: "find_space n s = Some (n \<le> r, s\<lparr>vm := (vm s)\<lparr>virt := ?m\<rparr>\<rparr>)"
      using True some(1) by (simp add: find_space_def use_free_space_mem on_heap_def)
    have "heap_end ?m = heap_end (heap s)" using free_mem_meta by (simp add: meta_change_def)
    then have size_ok: "fits_gap ex (unat (load32 ?m FREE_MEMORY_SIZE)) (start_of ys (heap_end ?m) - unat qb)"
      using some(4) by (simp add: free_mem_reads)
    show thesis
    proof (cases "n \<le> r")
      case True
      then show thesis
        using found [OF _ free_mem_meta _ some(2), of qb r q] find size_ok by (simp add: free_mem_reads)
    next
      case False
      then have "start_of ys' (heap_end (heap s)) - unat qb' < unat n" if "es = xs' @ (q', qb') # ys'" for xs' q' qb' ys'
        using some(5) [OF that] by (simp add: word_le_nat_alt)
      moreover have "free_ok ex ?m es" using some(2) size_ok by (auto simp: free_ok_def free_mem_reads)
      ultimately show thesis using missing [OF _ free_mem_meta, of qb r q] find False by (simp add: free_mem_reads)
    qed
  qed
qed

text \<open>The memory once a new block is linked and the metadata points behind it.\<close>

definition insert_mem :: "u32 \<Rightarrow> u32 \<Rightarrow> u32 \<Rightarrow> u32 \<Rightarrow> u32 \<Rightarrow> mem \<Rightarrow> mem" where
  "insert_mem e stop sz q y m =
     store32 (link_mem e q y (store32 (store32 m FREE_MEMORY_START stop) FREE_MEMORY_SIZE sz)) INSERT_ENTRY e"

lemma store32_pointwise: "m' x = m x \<Longrightarrow> store32 m' a w x = store32 m a w x"
  by (auto simp: store32_def)

lemma link_mem_pointwise: "m' x = m x \<Longrightarrow> link_mem e q y m' x = link_mem e q y m x"
  by (auto simp: link_mem_def intro!: store32_pointwise)

lemma link_mem_low:
  assumes "3229614104 \<le> unat q" "unat q + 12 < 4294967296" "y \<noteq> 0 \<Longrightarrow> 3229614104 \<le> unat y \<and> unat y + 12 < 4294967296"
    "unat x < 3229614104"
  shows "link_mem e q y m x = m x"
proof -
  have q: "unat (q + 8) = unat q + 8" using unat_plus_small [OF assms(2)] by simp
  have "store32 m (y + 4) e x = m x" if "y \<noteq> 0"
    using assms(3) [OF that] assms(4) unat_plus_small [of y] by (intro store32_frame) auto
  moreover have "store32 m' (q + 8) e x = m' x" for m' using q assms(1,2,4) by (intro store32_frame) auto
  ultimately show ?thesis by (simp add: link_mem_def)
qed

lemma link_mem_far:
  assumes "heap_list m (xs @ (q, qb) # ys)" and far: "unat x < unat q + 8 \<or> 4278190080 \<le> unat x"
  shows "link_mem e q (next_of ys 0) m x = m x"
proof -
  let ?y = "next_of ys 0"
  have o: "ordered 3229614104 (xs @ (q, qb) # ys) (heap_end m)" "heap_end m \<le> 4278190080"
    using assms(1) by (simp_all add: heap_list_def)
  have q: "unat q + 12 \<le> unat qb" "unat qb \<le> 4278190080"
    using ordered_range [OF o(1), of q qb] o(2) by auto
  have oys: "ordered (unat qb) ys (heap_end m)" using o(1) by (simp add: ordered_append)
  have "store32 m (?y + 4) e x = m x" if nz: "?y \<noteq> 0"
  proof -
    obtain c d ys' where "ys = (c, d) # ys'" using nz by (cases ys) auto
    then have y: "unat qb \<le> unat ?y" "unat ?y + 12 \<le> 4278190080" using ordered_range [OF oys, of c d] o(2) by auto
    then have "unat (?y + 4) = unat ?y + 4" using unat_plus_small [of ?y] by linarith
    then show ?thesis using y q far by (intro store32_frame) linarith+
  qed
  moreover have "unat (q + 8) = unat q + 8" using unat_plus_small [of q] q by linarith
  then have "store32 m' (q + 8) e x = m' x" for m' using far q by (intro store32_frame) linarith+
  ultimately show ?thesis by (simp add: link_mem_def)
qed

lemma insert_mem_facts:
  assumes "heap_list m (xs @ (q, qb) # ys)"
  shows "\<And>x. 3229614104 \<le> unat x \<Longrightarrow> insert_mem e stop sz q (next_of ys 0) m x = link_mem e q (next_of ys 0) m x"
    "heap_end (insert_mem e stop sz q (next_of ys 0) m) = heap_end m"
    "load32 (insert_mem e stop sz q (next_of ys 0) m) INSERT_ENTRY = e"
    "load32 (insert_mem e stop sz q (next_of ys 0) m) FREE_MEMORY_START = stop"
    "load32 (insert_mem e stop sz q (next_of ys 0) m) FREE_MEMORY_SIZE = sz"
    "entry_end (insert_mem e stop sz q (next_of ys 0) m) q = qb"
    "\<And>x. unat x < 3229614092 \<Longrightarrow> insert_mem e stop sz q (next_of ys 0) m x = m x"
    "\<And>x. 4278190080 \<le> unat x \<Longrightarrow> insert_mem e stop sz q (next_of ys 0) m x = m x"
proof -
  let ?y = "next_of ys 0"
  have o: "ordered 3229614104 (xs @ (q, qb) # ys) (heap_end m)" "heap_end m \<le> 4278190080"
    using assms by (simp_all add: heap_list_def)
  have q: "3229614104 \<le> unat q" "unat q + 12 \<le> unat qb" "unat qb \<le> 4278190080"
    using ordered_range [OF o(1), of q qb] o(2) by auto
  have oys: "ordered (unat qb) ys (heap_end m)" using o(1) by (simp add: ordered_append)
  have y: "unat qb \<le> unat ?y \<and> unat ?y + 12 \<le> 4278190080" if nz: "?y \<noteq> 0"
  proof -
    obtain c d ys' where "ys = (c, d) # ys'" using nz by (cases ys) auto
    then show ?thesis using ordered_range [OF oys, of c d] o(2) by auto
  qed
  have small: "unat q + 12 < 4294967296" using q by linarith
  have y': "3229614104 \<le> unat ?y \<and> unat ?y + 12 < 4294967296" if "?y \<noteq> 0" using y [OF that] q by linarith
  note low = link_mem_low [OF q(1) small y']
  let ?m1 = "store32 (store32 m FREE_MEMORY_START stop) FREE_MEMORY_SIZE sz"
  let ?m2 = "link_mem e q ?y ?m1" and ?m = "insert_mem e stop sz q ?y m"
  have m: "?m = store32 ?m2 INSERT_ENTRY e" by (simp add: insert_mem_def)
  have ins: "?m x = ?m2 x" if "unat x < 3229614100 \<or> 3229614104 \<le> unat x" for x
    unfolding m by (rule store32_frame) (use that in \<open>auto simp: heap_fields\<close>)
  have m1: "?m1 x = m x" if "unat x < 3229614092 \<or> 3229614104 \<le> unat x" for x
    using that by (auto simp: heap_fields store32_frame)
  show high: "?m x = link_mem e q ?y m x" if "3229614104 \<le> unat x" for x
    using ins [of x] link_mem_pointwise [of ?m1 x m e q ?y] m1 [of x] that by simp
  show meta: "?m x = m x" if "unat x < 3229614092" for x
    using ins [of x] m1 [of x] low [of x] that by simp
  show "heap_end ?m = heap_end m"
    unfolding heap_end_def by (rule arg_cong [where f = unat], rule load32_same) (auto simp: heap_fields intro!: meta)
  show "load32 ?m INSERT_ENTRY = e" by (simp add: m load32_store32)
  have "load32 ?m a = load32 ?m1 a" if "a = FREE_MEMORY_START \<or> a = FREE_MEMORY_SIZE" for a
    using that ins low by (intro load32_same) (auto simp: heap_fields)
  then show "load32 ?m FREE_MEMORY_START = stop" "load32 ?m FREE_MEMORY_SIZE = sz"
    by (simp_all add: load32_store32 load32_disjoint heap_fields)
  note link = link_mem_far [OF assms, of _ e]
  have "entry_end ?m q = entry_end m q"
    using high link q(1) by (intro entry_end_same [OF _ small]) auto
  then show "entry_end ?m q = qb" using free_space_entry(1) [OF assms] by simp
  show "?m x = m x" if "4278190080 \<le> unat x" for x using high [of x] link [of x] that by simp
qed

lemma entry_pages:
  assumes "mapped_ok v es" "(e, b) \<in> set es" "page_index e \<le> i" "i \<le> (unat b - 1) div 4096"
  shows "present (table v i)"
  using assms by (auto simp: mapped_ok_def)

lemma mapped_ok_insert:
  assumes "mapped_ok v (xs @ (q, qb) # ys)"
    "\<And>i. present (table v' i) \<longleftrightarrow> present (table v i) \<or> (f \<le> i \<and> i \<le> l)"
    "f \<le> page_index e \<or> f = Suc (page_index e) \<and> present (table v (page_index e))"
    "l = (unat b - 1) div 4096 \<or> Suc l = (unat b - 1) div 4096 \<and> present (table v (Suc l))"
  shows "mapped_ok v' (xs @ (q, qb) # (e, b) # ys)"
proof -
  have "present (table v' i)" if "page_index e \<le> i" "i \<le> (unat b - 1) div 4096" for i
  proof (cases "f \<le> i")
    case False
    then have "f = Suc (page_index e)" "present (table v (page_index e))" "i = page_index e" using that assms(3) by auto
    then show ?thesis using assms(2) by simp
  next
    case f: True
    show ?thesis
    proof (cases "i \<le> l")
      case False
      then have "present (table v (Suc l))" "i = Suc l" using that assms(4) by auto
      then show ?thesis using assms(2) by simp
    qed (use f assms(2) in simp)
  qed
  then show ?thesis using assms(1,2) by (auto simp: mapped_ok_def)
qed

lemma page_step:
  assumes "PAGE_OFFSET_MASK p = 0" "page_index p < 1048575"
  shows "PAGE_OFFSET_MASK (p + PAGE_SIZE) = 0 \<and> page_index (p + PAGE_SIZE) = Suc (page_index p)"
  using next_page [OF assms] by simp

lemma page_back:
  assumes "PAGE_OFFSET_MASK p = 0" "0 < page_index p"
  shows "PAGE_OFFSET_MASK (p - PAGE_SIZE) = 0 \<and> Suc (page_index (p - PAGE_SIZE)) = page_index p"
proof -
  have u: "unat p = 4096 * page_index p" by (rule aligned_page [OF assms(1)])
  then have "unat (p - PAGE_SIZE) = unat p - 4096"
    using assms(2) by (subst unat_sub) (auto simp: PAGE_SIZE_def word_le_nat_alt)
  then have "unat (p - PAGE_SIZE) = 4096 * (page_index p - 1)" using u by (simp add: diff_mult_distrib2)
  then show ?thesis using assms(2) by (simp add: offset_mask_unat page_index_def [of "p - PAGE_SIZE"])
qed

section \<open>Allocation\<close>

lemma unat_allocation_size:
  assumes "unat sz \<le> 4294967280"
  shows "unat (allocation_size sz) = 4 * ((unat sz + 15) div 4)" "unat sz + 12 \<le> unat (allocation_size sz)"
proof -
  have "unat (sz + SIZEOF_ENTRY + 3) = unat sz + 15"
    using assms by (simp add: SIZEOF_ENTRY_def unat_add_small)
  then have "unat ((sz + SIZEOF_ENTRY + 3) div 4) = (unat sz + 15) div 4" by (simp add: unat_div_distrib)
  then show eq: "unat (allocation_size sz) = 4 * ((unat sz + 15) div 4)"
    using assms unfolding allocation_size_def by (subst unat_mult_small) auto
  have "4 * ((unat sz + 15) div 4) + (unat sz + 15) mod 4 = unat sz + 15" by simp
  moreover have "(unat sz + 15) mod 4 < 4" by simp
  ultimately show "unat sz + 12 \<le> unat (allocation_size sz)" using eq by linarith
qed

definition contents_kept :: "block list \<Rightarrow> mem \<Rightarrow> mem \<Rightarrow> bool" where
  "contents_kept es m m' \<longleftrightarrow> (\<forall>e b x. (e, b) \<in> set es \<longrightarrow> unat e + 12 \<le> unat x \<longrightarrow> unat x < unat b \<longrightarrow> m' x = m x)"

text \<open>The first and the last page \<open>kalloc\<close> maps.\<close>

lemma kalloc_pages:
  assumes hl: "heap_list m (xs @ (q, qb) # ys)" and mp: "mapped_ok v (xs @ (q, qb) # ys)"
    and b: "unat qb + 12 \<le> unat b" "unat b \<le> start_of ys (heap_end m)"
    and f: "f = (if PAGE_OFFSET_MASK qb \<noteq> 0 then PAGE_MASK qb + PAGE_SIZE else PAGE_MASK qb)"
    and l: "l = (if next_of ys 0 \<noteq> 0 \<and> PAGE_MASK (next_of ys 0) = PAGE_MASK (b - 1)
      then PAGE_MASK (b - 1) - PAGE_SIZE else PAGE_MASK (b - 1))"
  shows "PAGE_OFFSET_MASK f = 0" "PAGE_OFFSET_MASK l = 0" "788480 \<le> page_index f" "page_index l < 1044480"
    "page_index f \<le> page_index qb \<or> page_index f = Suc (page_index qb) \<and> present (table v (page_index qb))"
    "page_index l = (unat b - 1) div 4096 \<or> Suc (page_index l) = (unat b - 1) div 4096 \<and> present (table v (Suc (page_index l)))"
    "page_index qb \<le> page_index f"
proof -
  have o: "ordered 3229614104 (xs @ (q, qb) # ys) (heap_end m)" "heap_end m \<le> 4278190080"
    using hl by (simp_all add: heap_list_def)
  note apart = ordered_apart [OF o(1)]
  have r: "3229614116 \<le> unat qb" "unat b \<le> 4278190080" using apart(3,5,6) b o(2) by linarith+
  have b1: "unat (b - 1) = unat b - 1" using r b by (subst unat_sub) (auto simp: word_le_nat_alt)
  then have bi: "page_index (b - 1) = (unat b - 1) div 4096" by (simp add: page_index_def)
  have qi: "788480 \<le> page_index qb" "page_index qb < 1044480" "page_index (b - 1) < 1044480" "788480 \<le> page_index (b - 1)"
    using r b b1 unfolding page_index_def by simp_all
  have step: "PAGE_OFFSET_MASK (PAGE_MASK qb + PAGE_SIZE) = 0" "page_index (PAGE_MASK qb + PAGE_SIZE) = Suc (page_index qb)"
    using page_step [OF mask_aligned, of qb] qi(2) by auto
  have before: "PAGE_OFFSET_MASK (PAGE_MASK (b - 1) - PAGE_SIZE) = 0"
    "Suc (page_index (PAGE_MASK (b - 1) - PAGE_SIZE)) = page_index (b - 1)"
    using page_back [OF mask_aligned, of "b - 1"] qi(4) by auto
  show "PAGE_OFFSET_MASK f = 0" "788480 \<le> page_index f" "page_index qb \<le> page_index f"
    using f step mask_aligned qi(1) by auto
  show "PAGE_OFFSET_MASK l = 0" "page_index l < 1044480" using l before mask_aligned qi(3) by auto
  show "page_index f \<le> page_index qb \<or> page_index f = Suc (page_index qb) \<and> present (table v (page_index qb))"
  proof (cases "PAGE_OFFSET_MASK qb = 0")
    case False
    then have "0 < unat qb mod 4096" "unat qb mod 4096 < 4096" by (simp_all add: offset_mask_unat)
    moreover have "unat qb = 4096 * page_index qb + unat qb mod 4096" by (simp add: page_index_def)
    ultimately have "4096 * page_index qb \<le> unat qb - 1" "unat qb - 1 < 4096 * Suc (page_index qb)"
      by (linarith, simp)
    then have "(unat qb - 1) div 4096 = page_index qb" by (rule div_nat_eqI)
    moreover have "page_index q \<le> page_index qb" using apart(3) by (auto simp: page_index_def intro: div_le_mono)
    ultimately have "present (table v (page_index qb))" using entry_pages [OF mp, of q qb] by simp
    then show ?thesis using f step by auto
  qed (use f in simp)
  show "page_index l = (unat b - 1) div 4096 \<or> Suc (page_index l) = (unat b - 1) div 4096 \<and> present (table v (Suc (page_index l)))"
  proof (cases "next_of ys 0 \<noteq> 0 \<and> PAGE_MASK (next_of ys 0) = PAGE_MASK (b - 1)")
    case True
    then obtain c d ys' where ys: "ys = (c, d) # ys'" by (cases ys) auto
    then have "page_index c = page_index (b - 1)" using True by (metis next_of.simps(2) page_index_mask)
    moreover have "unat c + 12 \<le> unat d" using ordered_range [OF o(1), of c d] ys by auto
    then have "page_index c \<le> (unat d - 1) div 4096" unfolding page_index_def by (intro div_le_mono) simp
    ultimately have "present (table v (page_index (b - 1)))" using entry_pages [OF mp, of c d "page_index c"] ys by simp
    then show ?thesis using l True before(2) bi by auto
  qed (use l bi in auto)
qed

lemma contents_kept_refl [simp]: "contents_kept es m m"
  by (simp add: contents_kept_def)

lemma kept_virt: "memory_kept v v' \<Longrightarrow> unat x < 4286578688 \<Longrightarrow> virt v' x = virt v x"
  by (simp add: memory_kept_def)

definition cleared :: "mem \<Rightarrow> nat \<Rightarrow> nat \<Rightarrow> bool" where
  "cleared m start till \<longleftrightarrow> (\<forall>x. start \<le> unat x \<and> unat x < till \<longrightarrow> m x = 0)"

text \<open>A state with another memory of the heap, or another state of the locks.\<close>

lemma lock_kheap_free: "kheap_mutex s = 0 \<Longrightarrow> lock_kheap s = Some (s\<lparr>cpu := lock_core (cpu s), kheap_mutex := 1\<rparr>)"
  by (simp add: lock_kheap_def)

lemma unlock_kheap_simps [simp]: "kheap_mutex (unlock_kheap s) = 0" "vm (unlock_kheap s) = vm s"
  by (simp_all add: unlock_kheap_def)

lemma mapped_ok_write:
  "(\<And>a. 4278190080 \<le> unat a \<Longrightarrow> m a = virt v a) \<Longrightarrow> mapped_ok (v\<lparr>virt := m\<rparr>) es \<longleftrightarrow> mapped_ok v es"
  by (simp add: mapped_ok_def heap_write(1))

lemma meta_change_high: "meta_change m m' \<Longrightarrow> 3229614104 \<le> unat a \<Longrightarrow> m' a = m a"
  by (simp add: meta_change_def)

lemma contents_kept_meta:
  assumes "heap_list m es" "meta_change m m'"
  shows "contents_kept es m m'"
proof -
  have "ordered 3229614104 es (heap_end m)" using assms(1) by (simp add: heap_list_def)
  then show ?thesis using assms(2) by (force simp: contents_kept_def meta_change_def dest: ordered_range)
qed

lemma page_span: "a \<le> b \<Longrightarrow> Suc (b div 4096) - a div 4096 \<le> (b - a) div 4096 + 2" for a b :: nat
  by linarith

lemma kalloc_cases:
  assumes inv: "heap_inv ex s es" and sz: "sz \<noteq> 0" "unat sz \<le> 4294967280"
    and pages: "(unat sz + 15) div 4096 + 2 \<le> size (free_pages (vm s))"
  obtains (null) s' where "kalloc sz s = Some (0, s')" "heap_inv ex s' es" "contents_kept es (heap s) (heap s')"
      "\<And>xs q qb ys. es = xs @ (q, qb) # ys \<Longrightarrow> start_of ys (heap_end (heap s)) - unat qb < unat (allocation_size sz)"
    | (block) xs q qb ys b s' where "es = xs @ (q, qb) # ys" "kalloc sz s = Some (qb + 12, s')"
      "unat b = unat qb + unat (allocation_size sz)" "heap_inv ex s' (xs @ (q, qb) # (qb, b) # ys)"
      "contents_kept es (heap s) (heap s')" "cleared (heap s') (unat qb + 12) (unat b)"
      "unat b \<le> start_of ys (heap_end (heap s))"
      "size (free_pages (vm s)) \<le> size (free_pages (vm s')) + ((unat sz + 15) div 4096 + 2)"
proof -
  let ?n = "allocation_size sz" and ?s1 = "s\<lparr>cpu := lock_core (cpu s), kheap_mutex := 1\<rparr>"
  note size_n = unat_allocation_size [OF sz(2)]
  have i: "kheap_mutex s = 0" "paging_ok (vm s)" "heap_list (heap s) es" "free_ok ex (heap s) es" "mapped_ok (vm s) es"
    using inv by (simp_all add: heap_inv_def)
  note lock = lock_kheap_free [OF i(1)]
  have "heap_list (heap ?s1) es" "free_ok ex (heap ?s1) es" using i by simp_all
  then show thesis
  proof (cases rule: find_space_ok [where n = ?n])
    case (missing m)
    let ?s2 = "?s1\<lparr>vm := (vm s)\<lparr>virt := m\<rparr>\<rparr>"
    have "kalloc sz s = Some (0, unlock_kheap ?s2)"
      using sz(1) lock missing(1) by (simp add: kalloc_def Let_def)
    moreover have high: "m a = virt (vm s) a" if "4278190080 \<le> unat a" for a
      using meta_change_high [OF missing(2)] that by simp
    have "heap_inv ex (unlock_kheap ?s2) es"
      using i heap_list_meta [OF i(3)] missing(2,4) heap_write(3) [of m "vm s"] mapped_ok_write [of m "vm s"] high
      by (simp add: heap_inv_def)
    moreover have "contents_kept es (heap s) (heap (unlock_kheap ?s2))"
      using contents_kept_meta [OF i(3)] missing(2) by simp
    ultimately show thesis using null missing(5) by simp
  next
    case (found m xs q qb ys)
    let ?y = "next_of ys 0" and ?b = "qb + ?n" and ?fs = "load32 m FREE_MEMORY_SIZE"
    have hl: "heap_list m (xs @ (q, qb) # ys)" using heap_list_meta [OF i(3)] found(2,4) by simp
    have mend: "heap_end m = heap_end (heap s)" using found(2) by (simp add: meta_change_def)
    have o: "ordered 3229614104 (xs @ (q, qb) # ys) (heap_end m)" "heap_end m \<le> 4278190080"
      using hl by (simp_all add: heap_list_def)
    note apart = ordered_apart [OF o(1)]
    have le: "unat ?n \<le> unat ?fs" using found(7) by (simp add: word_le_nat_alt)
    then have fit: "unat qb + unat ?n \<le> start_of ys (heap_end m)" using fits_gap_le [OF found(8)] apart(4) size_n(2) by linarith
    then have b: "unat ?b = unat qb + unat ?n" using apart(6) o(2) by (intro unat_add_small) linarith
    have fits: "unat qb \<le> unat qb" "unat qb + 12 \<le> unat ?b" "unat ?b \<le> start_of ys (heap_end m)"
      using b size_n(2) fit by simp_all
    have fse: "entry_next m q = ?y" using free_space_entry(2) [OF hl] .
    define M where "M = insert_mem qb ?b (?fs - ?n) q ?y m"
    note facts = insert_mem_facts [OF hl, where e = qb and stop = ?b and sz = "?fs - ?n", folded M_def]
    let ?v2 = "(vm s)\<lparr>virt := M\<rparr>" and ?s2 = "?s1\<lparr>vm := (vm s)\<lparr>virt := M\<rparr>\<rparr>"
    have highm: "m a = virt (vm s) a" if "4278190080 \<le> unat a" for a
      using meta_change_high [OF found(2)] that by simp
    then have highM: "M a = virt (vm s) a" if "4278190080 \<le> unat a" for a using facts(8) that by simp
    have paging2: "paging_ok ?v2" using heap_write(3) [of M "vm s"] highM i(2) by simp
    have mapped2: "mapped_ok ?v2 (xs @ (q, qb) # ys)" using mapped_ok_write [of M "vm s"] highM i(5) found(4) by simp
    have free2: "free_pages ?v2 = free_pages (vm s)"
      using heap_write(2) [of M "vm s"] highM i(2) by (auto simp: paging_ok_def)
    define f where "f = (if PAGE_OFFSET_MASK qb \<noteq> 0 then PAGE_MASK qb + PAGE_SIZE else PAGE_MASK qb)"
    define l where "l = (if ?y \<noteq> 0 \<and> PAGE_MASK ?y = PAGE_MASK (?b - 1) then PAGE_MASK (?b - 1) - PAGE_SIZE else PAGE_MASK (?b - 1))"
    note fl = kalloc_pages [OF hl mapped2 fits(2,3) f_def l_def]
    have "page_index l \<le> (unat ?b - 1) div 4096" using fl(6) by auto
    moreover have "Suc ((unat ?b - 1) div 4096) - unat qb div 4096 \<le> (unat ?b - 1 - unat qb) div 4096 + 2"
      by (rule page_span) (use fits(2) in linarith)
    moreover have "(unat ?b - 1 - unat qb) div 4096 \<le> (unat sz + 15) div 4096" using b size_n(1) by (intro div_le_mono) linarith
    ultimately have few: "Suc (page_index l) - page_index f \<le> (unat sz + 15) div 4096 + 2"
      using fl(7) unfolding page_index_def [of qb] by linarith
    then have "Suc (page_index l) - page_index f \<le> size (free_pages (vm ?s2))" using pages free2 by simp
    with paging2 fl(1-4) obtain v where v: "map_pages f l ?s2 = Some (?s2\<lparr>vm := v\<rparr>)" "paging_ok v" "memory_kept ?v2 v"
      "\<And>i. present (table v i) \<longleftrightarrow> present (table ?v2 i) \<or> (page_index f \<le> i \<and> i \<le> page_index l)"
      "size (free_pages ?v2) \<le> size (free_pages v) + (Suc (page_index l) - page_index f)"
      using map_pages_ok [of ?s2 f l] by auto
    define m' where "m' = header_mem qb ?b q ?y (mem_fill (virt v) qb 0 ?n)"
    define s' where "s' = unlock_kheap (?s1\<lparr>vm := v\<lparr>virt := m'\<rparr>\<rparr>)"
    have M: "\<And>x. 3229614104 \<le> unat x \<Longrightarrow> unat x < 4286578688 \<Longrightarrow> virt v x = link_mem qb q ?y m x" "heap_end (virt v) = heap_end m"
    proof -
      show "virt v x = link_mem qb q ?y m x" if "3229614104 \<le> unat x" "unat x < 4286578688" for x
        using facts(1) [of x] kept_virt [OF v(3), of x] that by simp
      have "load32 (virt v) MEMORY_END = load32 M MEMORY_END"
        using kept_virt [OF v(3)] by (intro load32_same) (auto simp: heap_fields)
      then show "heap_end (virt v) = heap_end m" using facts(2) by (simp add: heap_end_def)
    qed
    have m': "m' = header_mem qb ?b q ?y (mem_fill (virt v) qb 0 (?b - qb))" by (simp add: m'_def)
    note placed = place_block [OF hl fits M m']
    have set_meta: "set_word INSERT_ENTRY qb (link_entry qb q ?y (set_word FREE_MEMORY_SIZE (?fs - ?n)
        (set_word FREE_MEMORY_START ?b (?s1\<lparr>vm := (vm s)\<lparr>virt := m\<rparr>\<rparr>)))) = ?s2"
      by (simp add: set_word_def link_entry_mem on_heap_def M_def insert_mem_def)
    have read: "word_at (set_word FREE_MEMORY_START w (?s1\<lparr>vm := (vm s)\<lparr>virt := m\<rparr>\<rparr>)) FREE_MEMORY_SIZE = ?fs" for w
      unfolding set_word_def on_heap_simps by (simp, rule load32_disjoint) (simp_all add: heap_fields)
    have finish: "unlock_kheap (write_entry qb ?b q ?y (on_heap (\<lambda>m. memset m qb 0 ?n) (?s1\<lparr>vm := v\<rparr>))) = s'"
      by (simp add: s'_def m'_def write_entry_mem on_heap_def memset_eq)
    have "kalloc sz s = Some (qb + 12, s')"
      using sz(1) lock found(1) v(1) facts(6)
      by (simp add: kalloc_def Let_def found(5,6) fse set_meta read f_def [symmetric] l_def [symmetric] finish SIZEOF_ENTRY_def
          split del: if_split cong: if_cong)
    moreover have "heap_inv ex s' (xs @ (q, qb) # (qb, ?b) # ys)"
    proof -
      have high: "m' a = virt v a" if "4278190080 \<le> unat a" for a using placed(4) that by blast
      have meta: "load32 m' a = load32 M a" if "unat a + 4 \<le> 3229614104" for a
      proof (rule load32_same)
        show "m' x = M x" if "unat a \<le> unat x" "unat x < unat a + 4" for x
          using placed(4) [of x] kept_virt [OF v(3), of x] that \<open>unat a + 4 \<le> 3229614104\<close> by simp
        show "unat a \<le> 4294967292" using \<open>unat a + 4 \<le> 3229614104\<close> by simp
      qed
      have "heap_end m' = heap_end m" using meta [of MEMORY_END] facts(2) by (simp add: heap_end_def heap_fields)
      moreover have "load32 m' INSERT_ENTRY = qb" "load32 m' FREE_MEMORY_START = ?b" "load32 m' FREE_MEMORY_SIZE = ?fs - ?n"
        using meta facts(3-5) by (simp_all add: heap_fields)
      moreover have "fits_gap ex (unat (?fs - ?n)) (start_of ys (heap_end m) - unat ?b)"
        using found(8) le b by (auto simp: fits_gap_def unat_sub word_le_nat_alt)
      ultimately have "free_ok ex m' (xs @ (q, qb) # (qb, ?b) # ys)"
        unfolding free_ok_def by (intro exI [of _ "xs @ [(q, qb)]"] exI [of _ qb] exI [of _ ?b] exI [of _ ys]) simp
      moreover have "mapped_ok v (xs @ (q, qb) # (qb, ?b) # ys)"
        by (rule mapped_ok_insert [OF mapped2 v(4) fl(5,6)])
      ultimately show ?thesis
        using placed(1) v(2) heap_write(3) [of m' v] mapped_ok_write [of m' v] high
        by (simp add: heap_inv_def s'_def)
    qed
    moreover have "contents_kept es (heap s) (heap s')"
    proof -
      have "contents_kept es m m'" using placed(3) found(4) by (simp add: contents_kept_def)
      then show ?thesis using contents_kept_meta [OF i(3) found(2) [simplified]] by (simp add: contents_kept_def s'_def)
    qed
    moreover have "cleared (heap s') (unat qb + 12) (unat ?b)" using placed(2) by (simp add: cleared_def s'_def)
    moreover have "free_pages (vm s') = free_pages v"
      using heap_write(2) [of m' v] placed(4) v(2) by (auto simp: paging_ok_def s'_def)
    then have "size (free_pages (vm s)) \<le> size (free_pages (vm s')) + ((unat sz + 15) div 4096 + 2)"
      using v(5) few free2 by simp
    ultimately show thesis using block [OF found(4)] b fits(3) mend by simp
  qed
qed

section \<open>Freeing\<close>

text \<open>
  \<open>own_pages\<close> computes pages of the entry that no other entry touches, and leaves out at most the
  first page, which the entry before it has mapped, and the last one, which the entry after it has.
\<close>

lemma own_pages_ok:
  assumes hl: "ordered 3229614104 (xs @ (q, qb) # ys) hi" "hi \<le> 4278190080"
    and nz: "next_of ys 0 = 0 \<longleftrightarrow> ys = []"
    and b: "unat qb \<le> unat e" "unat e + 12 \<le> unat b" "unat b \<le> start_of ys hi"
    and fl: "own_pages qb e b (next_of ys 0) = (f, l)"
  shows "PAGE_OFFSET_MASK f = 0" "PAGE_OFFSET_MASK l = 0" "788480 \<le> page_index f" "page_index l < 1044480"
    "page_index e \<le> page_index f" "page_index l \<le> (unat b - 1) div 4096"
    "\<And>c d i. (c, d) \<in> set (xs @ (q, qb) # ys) \<Longrightarrow> page_index c \<le> i \<Longrightarrow> i \<le> (unat d - 1) div 4096 \<Longrightarrow>
      \<not> (page_index f \<le> i \<and> i \<le> page_index l)"
    "mapped_ok v (xs @ (q, qb) # ys) \<Longrightarrow>
      page_index f \<le> page_index e \<or> page_index f = Suc (page_index e) \<and> present (table v (page_index e))"
    "mapped_ok v (xs @ (q, qb) # ys) \<Longrightarrow>
      page_index l = (unat b - 1) div 4096 \<or> Suc (page_index l) = (unat b - 1) div 4096 \<and> present (table v (Suc (page_index l)))"
proof -
  note apart = ordered_apart [OF hl(1)]
  have r: "3229614116 \<le> unat qb" "unat b \<le> 4278190080" using apart(3,5,6) b hl(2) by linarith+
  have b1: "page_index (b - 1) = (unat b - 1) div 4096"
    unfolding page_index_def using r b by (subst unat_sub) (auto simp: word_le_nat_alt)
  have q1: "page_index (qb - 1) = (unat qb - 1) div 4096"
    unfolding page_index_def using r by (subst unat_sub) (auto simp: word_le_nat_alt)
  have idx: "788480 \<le> page_index e" "page_index e < 1044480" "page_index (b - 1) < 1044480" "788480 \<le> page_index (b - 1)"
    unfolding b1 unfolding page_index_def using r b by simp_all
  have step: "PAGE_OFFSET_MASK (PAGE_MASK e + PAGE_SIZE) = 0" "page_index (PAGE_MASK e + PAGE_SIZE) = Suc (page_index e)"
    using page_step [OF mask_aligned, of e] idx(2) by auto
  have before: "PAGE_OFFSET_MASK (PAGE_MASK (b - 1) - PAGE_SIZE) = 0"
    "Suc (page_index (PAGE_MASK (b - 1) - PAGE_SIZE)) = page_index (b - 1)"
    using page_back [OF mask_aligned, of "b - 1"] idx(4) by auto
  have same: "PAGE_MASK x = PAGE_MASK z \<longleftrightarrow> page_index x = page_index z" for x z
    by (auto simp: word_unat_eq_iff unat_page_mask page_index_def)
  have f: "f = (if page_index (qb - 1) = page_index e then PAGE_MASK e + PAGE_SIZE else PAGE_MASK e)"
    using fl by (auto simp: own_pages_def Let_def same)
  have ne: "PAGE_MASK (b - 1) \<noteq> 0"
  proof
    assume "PAGE_MASK (b - 1) = 0"
    then have "page_index (b - 1) = page_index 0" by (metis page_index_mask)
    then show False using idx(4) by (simp add: page_index_def [of 0])
  qed
  then have l: "l = (if ys \<noteq> [] \<and> page_index (b - 1) = page_index (next_of ys 0) then PAGE_MASK (b - 1) - PAGE_SIZE else PAGE_MASK (b - 1))"
    using fl nz by (auto simp: own_pages_def Let_def same)
  show "PAGE_OFFSET_MASK f = 0" "788480 \<le> page_index f" "page_index e \<le> page_index f"
    using f step mask_aligned idx(1) by auto
  show "PAGE_OFFSET_MASK l = 0" "page_index l < 1044480" "page_index l \<le> (unat b - 1) div 4096"
    using l before mask_aligned idx(3) b1 by auto
  have qe: "page_index (qb - 1) \<le> page_index e" unfolding q1 using b(1) by (simp add: page_index_def div_le_mono)
  have pf: "page_index (qb - 1) < page_index f" using f step(2) qe by auto
  have oys: "ordered (unat qb) ys hi" using hl(1) by (simp add: ordered_append)
  have by_le: "page_index (b - 1) \<le> page_index (next_of ys 0)" if "ys \<noteq> []"
    using b(3) start_of_next [OF that, of hi 0] unfolding b1 by (simp add: page_index_def div_le_mono)
  show "\<not> (page_index f \<le> i \<and> i \<le> page_index l)"
    if cd: "(c, d) \<in> set (xs @ (q, qb) # ys)" and i: "page_index c \<le> i" "i \<le> (unat d - 1) div 4096" for c d i
  proof -
    consider "unat d \<le> unat qb" | "(c, d) \<in> set ys" using cd apart(1) [of c d] apart(3) by fastforce
    then show ?thesis
    proof cases
      case 1
      then have "(unat d - 1) div 4096 \<le> page_index (qb - 1)" unfolding q1 by (intro div_le_mono) simp
      then show ?thesis using i pf by linarith
    next
      case 2
      then have nonempty: "ys \<noteq> []" by auto
      have "unat (next_of ys 0) \<le> unat c"
      proof (cases ys)
        case (Cons y ys')
        obtain g h where y: "y = (g, h)" by (cases y)
        then have "ordered (unat h) ys' hi" "unat g + 12 \<le> unat h" using oys Cons by auto
        then show ?thesis using 2 Cons y ordered_range [of "unat h" ys' hi c d] by auto
      qed (use 2 in simp)
      then have "page_index (next_of ys 0) \<le> page_index c" by (simp add: page_index_def div_le_mono)
      moreover have "page_index l < page_index (next_of ys 0)"
        using l before(2) by_le [OF nonempty] nonempty by auto
      ultimately show ?thesis using i by linarith
    qed
  qed
  assume mp: "mapped_ok v (xs @ (q, qb) # ys)"
  show "page_index f \<le> page_index e \<or> page_index f = Suc (page_index e) \<and> present (table v (page_index e))"
  proof (cases "page_index (qb - 1) = page_index e")
    case True
    have "page_index q \<le> page_index (qb - 1)" unfolding q1 using apart(3) by (simp add: page_index_def div_le_mono)
    then have "present (table v (page_index e))" using entry_pages [OF mp, of q qb "page_index e"] True q1 by simp
    then show ?thesis using f True step(2) by simp
  qed (use f in simp)
  show "page_index l = (unat b - 1) div 4096 \<or> Suc (page_index l) = (unat b - 1) div 4096 \<and> present (table v (Suc (page_index l)))"
  proof (cases "ys \<noteq> [] \<and> page_index (b - 1) = page_index (next_of ys 0)")
    case True
    then obtain c d ys' where ys: "ys = (c, d) # ys'" by (cases ys) auto
    have "unat c + 12 \<le> unat d" using ordered_range [OF oys, of c d] ys by auto
    then have "page_index c \<le> (unat d - 1) div 4096" unfolding page_index_def by (intro div_le_mono) simp
    then have "present (table v (page_index (b - 1)))" using entry_pages [OF mp, of c d "page_index c"] ys True by simp
    then show ?thesis using l True before(2) b1 by auto
  qed (use l b1 in auto)
qed

lemma split_cases:
  assumes "xs' @ x # ys' = xs @ a # b # ys"
  obtains (left) zs where "xs = xs' @ x # zs" "ys' = zs @ a # b # ys" | (first) "xs' = xs" "x = a" "ys' = b # ys"
    | (second) "xs' = xs @ [a]" "x = b" "ys' = ys" | (right) zs where "xs' = xs @ a # b # zs" "ys = zs @ x # ys'"
  using assms by (auto simp: append_eq_append_conv2 Cons_eq_append_conv append_eq_Cons_conv)

lemma start_of_append: "start_of (zs @ (c, d) # ys) hi = start_of (zs @ (c, d') # ys') hi'"
  by (cases zs) auto

definition unlink_mem :: "u32 \<Rightarrow> u32 \<Rightarrow> mem \<Rightarrow> mem" where
  "unlink_mem q y m = (if y \<noteq> 0 then store32 (store32 m (q + 8) y) (y + 4) q else store32 m (q + 8) y)"

lemma unlink_block:
  assumes hl: "heap_list m (xs @ (q, qb) # (e, b) # ys)"
    and M: "\<And>x. unat x < 4286578688 \<Longrightarrow> M x = m x" and m': "m' = unlink_mem q (next_of ys 0) M"
  shows "heap_list m' (xs @ (q, qb) # ys)" "contents_kept (xs @ (q, qb) # ys) m m'"
    "\<And>x. unat x < 3229614104 \<or> 4278190080 \<le> unat x \<Longrightarrow> m' x = M x" "heap_end m' = heap_end m"
    "entry_end m' q = qb"
proof -
  let ?y = "next_of ys 0" and ?hi = "heap_end m"
  have s: "seg m 0 (xs @ (q, qb) # (e, b) # ys) 0" "ordered 3229614104 (xs @ (q, qb) # (e, b) # ys) ?hi" "?hi \<le> 4278190080"
    "\<exists>rest. xs @ (q, qb) # (e, b) # ys = (FIRST_ENTRY, FIRST_END) # rest"
    using hl by (simp_all add: heap_list_def)
  note apart = ordered_apart [OF s(2)]
  have nz: "?y = 0 \<longleftrightarrow> ys = []" using heap_list_nonzero [OF hl, of "xs @ [(q, qb), (e, b)]" ys] by simp
  have o: "unat qb \<le> unat e" "unat e + 12 \<le> unat b" "ordered (unat b) ys ?hi" using s(2) by (simp_all add: ordered_append)
  have b: "unat b \<le> ?hi" using ordered_le [OF o(3)] .
  have small: "unat q + 12 < 4294967296" "3229614104 \<le> unat q" using apart(3,5) o b s(3) by linarith+
  have q8: "unat (q + 8) = unat q + 8" using unat_plus_small [OF small(1)] by simp
  have y: "unat ?y = start_of ys ?hi" "unat ?y + 12 \<le> ?hi" "unat b \<le> unat ?y" "unat (?y + 4) = unat ?y + 4" if ne: "ys \<noteq> []"
  proof -
    obtain c d ys' where ys: "ys = (c, d) # ys'" using ne by (cases ys) auto
    then show "unat ?y = start_of ys ?hi" and *: "unat ?y + 12 \<le> ?hi" and "unat b \<le> unat ?y"
      using ordered_range [OF o(3), of c d] by auto
    then have "unat ?y + 12 < 4294967296" using s(3) by linarith
    then show "unat (?y + 4) = unat ?y + 4" using unat_plus_small by blast
  qed
  have frame: "m' x = M x" if far: "\<not> (unat q + 8 \<le> unat x \<and> unat x < unat q + 12)"
    "ys \<noteq> [] \<Longrightarrow> \<not> (start_of ys ?hi + 4 \<le> unat x \<and> unat x < start_of ys ?hi + 8)" for x
  proof -
    have 1: "store32 M (q + 8) ?y x = M x" using far(1) q8 small by (intro store32_frame) linarith+
    have "store32 m'' (?y + 4) q x = m'' x" if "ys \<noteq> []" for m''
      using far(2) [OF that] y [OF that] s(3) by (intro store32_frame) linarith+
    then show ?thesis using 1 nz by (cases "ys = []") (simp_all add: m' unlink_mem_def)
  qed
  show low: "m' x = M x" if far: "unat x < 3229614104 \<or> 4278190080 \<le> unat x" for x
  proof (rule frame)
    show "\<not> (unat q + 8 \<le> unat x \<and> unat x < unat q + 12)" using far apart(3) small o b s(3) by linarith
    show "\<not> (start_of ys ?hi + 4 \<le> unat x \<and> unat x < start_of ys ?hi + 8)" if "ys \<noteq> []"
      using far y [OF that] small apart(3) o s(3) by linarith
  qed
  have "load32 m' MEMORY_END = load32 m MEMORY_END"
    using low M by (intro load32_same) (auto simp: heap_fields)
  then show end': "heap_end m' = ?hi" by (simp add: heap_end_def)
  have nq: "entry_next m' q = ?y"
  proof (cases "ys = []")
    case False
    have "apart (?y + 4) 4 (q + 8) 4"
      using y [OF False] q8 apart(3) o s(3) small by (intro apart_aboveI) simp_all
    then show ?thesis using False nz by (simp add: entry_next_def m' unlink_mem_def load32_store32 load32_store32_apart)
  qed (use nz in \<open>simp add: entry_next_def m' unlink_mem_def load32_store32\<close>)
  have py: "entry_prev m' ?y = q" if "ys \<noteq> []"
    using nz that by (simp add: entry_prev_def m' unlink_mem_def load32_store32)
  have framem: "m' x = m x" if "unat x < ?hi" "\<not> (unat q + 8 \<le> unat x \<and> unat x < unat q + 12)"
    "ys \<noteq> [] \<Longrightarrow> \<not> (start_of ys ?hi + 4 \<le> unat x \<and> unat x < start_of ys ?hi + 8)" for x
    using frame [OF that(2,3)] M [of x] that(1) s(3) by simp
  have hi: "?hi < 4294967296" using s(3) by linarith
  have "seg m' 0 (xs @ (q, qb) # ys) 0 \<and> ordered 3229614104 (xs @ (q, qb) # ys) ?hi"
    by (rule seg_remove [OF s(1,2) hi nq py framem]) auto
  moreover have "\<exists>rest. xs @ (q, qb) # ys = (FIRST_ENTRY, FIRST_END) # rest" using s(4) by (cases xs) auto
  ultimately show "heap_list m' (xs @ (q, qb) # ys)" using s(3) end' by (simp add: heap_list_def)
  then show "entry_end m' q = qb" using free_space_entry(1) by blast
  show "contents_kept (xs @ (q, qb) # ys) m m'"
    unfolding contents_kept_def
  proof (intro allI impI)
    fix c d x :: u32
    assume cd: "(c, d) \<in> set (xs @ (q, qb) # ys)" "unat c + 12 \<le> unat x" "unat x < unat d"
    have "ordered 3229614104 (xs @ (q, qb) # ys) ?hi" using \<open>seg m' 0 _ 0 \<and> _\<close> by simp
    then have r: "unat d \<le> ?hi" "3229614104 \<le> unat c" using ordered_range cd(1) by blast+
    show "m' x = m x"
    proof (rule framem)
      show "unat x < ?hi" using cd(3) r by linarith
      have "unat d \<le> unat q \<or> unat q \<le> unat c" using cd(1) apart(1) [of c d] apart(2) [of c d] apart(3) by auto
      then show "\<not> (unat q + 8 \<le> unat x \<and> unat x < unat q + 12)" using cd(2,3) by linarith
      show "\<not> (start_of ys ?hi + 4 \<le> unat x \<and> unat x < start_of ys ?hi + 8)" if ne: "ys \<noteq> []"
      proof -
        obtain g h ys' where ys: "ys = (g, h) # ys'" using ne by (cases ys) auto
        have "ordered (unat h) ys' ?hi" "unat g + 12 \<le> unat h" "unat b \<le> unat g" using o(3) ys by auto
        moreover have "unat d \<le> unat qb \<or> (c, d) \<in> set ys" using cd(1) apart(1) [of c d] apart(3) by fastforce
        ultimately have "unat d \<le> unat g \<or> unat g \<le> unat c"
          using ordered_range [of "unat h" ys' ?hi c d] ys o(1,2) by auto
        then show ?thesis using cd(2,3) ys by auto
      qed
    qed
  qed
qed

text \<open>Offering the free space after an entry.\<close>

lemma offer_space_mem:
  "offer_space start sz entry s =
     (if word_at s FREE_MEMORY_SIZE < sz then on_heap (free_mem start sz entry) s else s)"
  by (simp add: offer_space_def use_free_space_mem)

lemma kfree_ok:
  assumes inv: "heap_inv ex s (xs @ (q, qb) # (e, b) # ys)"
  obtains s' where "kfree (e + 12) s = Some s'" "heap_inv ex s' (xs @ (q, qb) # ys)"
    "contents_kept (xs @ (q, qb) # ys) (heap s) (heap s')" "heap_end (heap s') = heap_end (heap s)"
proof -
  let ?es = "xs @ (q, qb) # (e, b) # ys" and ?y = "next_of ys 0" and ?m = "heap s"
  let ?s1 = "s\<lparr>cpu := lock_core (cpu s), kheap_mutex := 1\<rparr>"
  have i: "kheap_mutex s = 0" "paging_ok (vm s)" "heap_list ?m ?es" "free_ok ex ?m ?es" "mapped_ok (vm s) ?es"
    using inv by (simp_all add: heap_inv_def)
  have o: "ordered 3229614104 ?es (heap_end ?m)" "heap_end ?m \<le> 4278190080" "seg ?m 0 ?es 0"
    using i(3) by (simp_all add: heap_list_def)
  have hl1: "heap_list ?m ((xs @ [(q, qb)]) @ (e, b) # ys)" using i(3) by simp
  have e: "entry_end ?m e = b" "entry_next ?m e = ?y" "entry_prev ?m e = q"
    using free_space_entry(1,2) [OF hl1] o(3) by (simp_all add: seg_append)
  have ord: "unat qb \<le> unat e" "unat e + 12 \<le> unat b" "unat b \<le> start_of ys (heap_end ?m)"
    using o(1) ordered_apart(4) [of _ "xs @ [(q, qb)]" e b ys] by (auto simp: ordered_append)
  have rest: "ordered 3229614104 (xs @ (q, qb) # ys) (heap_end ?m)"
    using o(1) ord ordered_mono [of "unat b" ys "heap_end ?m" "unat qb" "heap_end ?m"] ordered_start [of "unat b" ys "heap_end ?m"]
    by (auto simp: ordered_append)
  have nz: "?y = 0 \<longleftrightarrow> ys = []" using heap_list_nonzero [OF i(3), of "xs @ [(q, qb), (e, b)]" ys] by simp
  obtain f l where fl: "own_pages qb e b ?y = (f, l)" by (cases "own_pages qb e b ?y")
  note own = own_pages_ok [OF rest o(2) nz ord fl]
  have pres: "present (table (vm s) i)" if "page_index f \<le> i" "i \<le> page_index l" for i
    using entry_pages [OF i(5), of e b i] own(5,6) that by simp
  obtain v where v: "unmap_pages f l ?s1 = Some (?s1\<lparr>vm := v\<rparr>)" "paging_ok v" "memory_kept (vm s) v"
    "\<And>i. present (table v i) \<longleftrightarrow> present (table (vm s) i) \<and> \<not> (page_index f \<le> i \<and> i \<le> page_index l)"
    using unmap_pages_ok [of ?s1 f l] i(2) own(1-4) pres by auto
  define m1 where "m1 = unlink_mem q ?y (virt v)"
  note un = unlink_block [OF i(3) kept_virt [OF v(3)] m1_def]
  let ?sz = "if ?y = 0 then load32 m1 MEMORY_END - qb else ?y - qb"
  define m2 where "m2 = (if load32 m1 FREE_MEMORY_SIZE < ?sz then free_mem qb ?sz q m1 else m1)"
  have meta: "meta_change m1 m2" by (simp add: m2_def free_mem_meta)
  define s' where "s' = unlock_kheap (?s1\<lparr>vm := v\<lparr>virt := m2\<rparr>\<rparr>)"
  have "e + 12 \<noteq> 0"
    using ordered_range [OF o(1), of e b] o(2) unat_plus_small [of e] by auto
  have qe: "entry_end ?m q = qb" using free_space_entry(1) [OF i(3)] .
  have "kfree (e + 12) s = Some s'"
  proof -
    let ?s2 = "?s1\<lparr>vm := v\<rparr>"
    have unlink: "(if ?y \<noteq> 0 then set_word (?y + 4) q (set_word (q + 8) ?y ?s2) else set_word (q + 8) ?y ?s2)
        = ?s1\<lparr>vm := v\<lparr>virt := m1\<rparr>\<rparr>"
      by (simp add: set_word_def on_heap_def m1_def unlink_mem_def)
    have "offer_space qb ?sz q (?s1\<lparr>vm := v\<lparr>virt := m1\<rparr>\<rparr>) = ?s1\<lparr>vm := v\<lparr>virt := m2\<rparr>\<rparr>"
      by (simp add: offer_space_mem on_heap_def m2_def)
    with unlink show ?thesis
      using lock_kheap_free [OF i(1)] \<open>e + 12 \<noteq> 0\<close> fl v(1) un(5)
      by (cases "?y = 0") (simp_all add: kfree_def SIZEOF_ENTRY_def e qe s'_def Let_def)
  qed
  moreover have "heap_inv ex s' (xs @ (q, qb) # ys)"
  proof -
    have high: "m2 a = virt v a" if "4278190080 \<le> unat a" for a
      using meta_change_high [OF meta] un(3) that by simp
    have list: "heap_list m2 (xs @ (q, qb) # ys)" using heap_list_meta [OF un(1) meta] .
    have end2: "heap_end m2 = heap_end ?m" using meta un(4) by (simp add: meta_change_def)
    have gap: "unat ?sz = start_of ys (heap_end ?m) - unat qb"
    proof (cases "ys = []")
      case True
      then show ?thesis using nz un(4) ord by (simp add: heap_end_def unat_sub word_le_nat_alt)
    next
      case False
      then show ?thesis using nz start_of_next [OF False, of "heap_end ?m" 0] ord by (simp add: unat_sub word_le_nat_alt)
    qed
    have "free_ok ex m2 (xs @ (q, qb) # ys)"
    proof (cases "load32 m1 FREE_MEMORY_SIZE < ?sz")
      case True
      then have "m2 = free_mem qb ?sz q m1" by (simp add: m2_def)
      then show ?thesis
        unfolding free_ok_def end2 using gap
        by (intro exI [of _ xs] exI [of _ q] exI [of _ qb] exI [of _ ys]) (simp add: free_mem_reads)
    next
      case False
      then have m21: "m2 = m1" by (simp add: m2_def)
      have read: "load32 m1 a = load32 ?m a" if "a = INSERT_ENTRY \<or> a = FREE_MEMORY_START \<or> a = FREE_MEMORY_SIZE" for a
        using that un(3) kept_virt [OF v(3)] by (intro load32_same) (auto simp: heap_fields)
      obtain xs' p pb ys' where p: "?es = xs' @ (p, pb) # ys'" "load32 ?m INSERT_ENTRY = p" "load32 ?m FREE_MEMORY_START = pb"
        "fits_gap ex (unat (load32 ?m FREE_MEMORY_SIZE)) (start_of ys' (heap_end ?m) - unat pb)"
        using i(4) by (auto simp: free_ok_def)
      have small: "start_of ys (heap_end ?m) - unat qb \<le> unat (load32 ?m FREE_MEMORY_SIZE)"
        using False gap read [of FREE_MEMORY_SIZE] by (simp add: word_less_nat_alt)
      have "\<exists>us vs. xs @ (q, qb) # ys = us @ (p, pb) # vs
          \<and> fits_gap ex (unat (load32 ?m FREE_MEMORY_SIZE)) (start_of vs (heap_end ?m) - unat pb)"
      proof (rule split_cases [OF p(1) [symmetric]])
        fix zs assume zs: "xs = xs' @ (p, pb) # zs" "ys' = zs @ (q, qb) # (e, b) # ys"
        then show ?thesis
          using p(4) start_of_append [of zs q qb "(e, b) # ys" "heap_end ?m" qb ys "heap_end ?m"]
          by (intro exI [of _ xs'] exI [of _ "zs @ (q, qb) # ys"]) simp
      next
        assume "xs' = xs" "(p, pb) = (q, qb)" "ys' = (e, b) # ys"
        then show ?thesis using fits_gap_le [OF p(4)] ord small by (intro exI [of _ xs] exI [of _ ys]) simp
      next
        assume "xs' = xs @ [(q, qb)]" "(p, pb) = (e, b)" "ys' = ys"
        then show ?thesis using fits_gap_le [OF p(4)] ord small by auto
      next
        fix zs assume "xs' = xs @ (q, qb) # (e, b) # zs" "ys = zs @ (p, pb) # ys'"
        then show ?thesis using p(4) by (intro exI [of _ "xs @ (q, qb) # zs"] exI [of _ ys']) simp
      qed
      then show ?thesis unfolding free_ok_def end2 using read p(2,3) m21 by auto
    qed
    moreover have "mapped_ok v (xs @ (q, qb) # ys)"
      unfolding mapped_ok_def
    proof (intro allI impI)
      fix c d i
      assume cd: "(c, d) \<in> set (xs @ (q, qb) # ys)" "page_index c \<le> i" "i \<le> (unat d - 1) div 4096"
      then have "present (table (vm s) i)" using entry_pages [OF i(5), of c d i] by auto
      then show "present (table v i)" using own(7) [OF cd] v(4) by blast
    qed
    ultimately show ?thesis
      using list v(2) heap_write(3) [of m2 v] mapped_ok_write [of m2 v] high by (simp add: heap_inv_def s'_def)
  qed
  moreover have "contents_kept (xs @ (q, qb) # ys) ?m (heap s')"
    using un(2) contents_kept_meta [OF un(1) meta] by (simp add: contents_kept_def s'_def)
  moreover have "heap_end (heap s') = heap_end ?m" using meta un(4) by (simp add: meta_change_def s'_def)
  ultimately show thesis by (rule that)
qed

section \<open>Aligned allocation\<close>

lemma sint_metadata:
  assumes "unat (md :: u32) \<le> 12" "8 \<le> unat al" "unat al \<le> 1073741824"
  shows "0 < sint (md - al) \<longleftrightarrow> unat al < unat md"
proof (cases "unat al \<le> unat md")
  case True
  then have u: "unat (md - al) = unat md - unat al" by (simp add: unat_sub word_le_nat_alt)
  then have "sint (md - al) = int (unat md - unat al)" using assms(1) by (subst sint_small32) (simp_all only: u)
  then show ?thesis by simp
next
  case False
  then have "unat (md - al) = unat md + 4294967296 - unat al" by (simp add: unat_sub_wrap word_le_nat_alt)
  then have "2147483648 \<le> int (unat (md - al))" using assms(3) by linarith
  then have "\<not> 0 < sint (md - al)" using sint_nonneg32 [of "md - al"] sint_bounds32 [of "md - al"] by linarith
  then show ?thesis using False by simp
qed

lemma skip_alignment_total:
  assumes "unat md \<le> 12" "8 \<le> unat al" "unat al \<le> 1073741824"
  shows "skip_alignment al md fs fz \<noteq> None"
  using assms
proof (induction "unat md" arbitrary: md fs fz rule: less_induct)
  case less
  note pos = sint_metadata [OF less.prems]
  show ?case
  proof (cases "unat al < unat md")
    case True
    moreover have le12: "unat md - unat al \<le> 12" using less.prems(1) by linarith
    ultimately have "unat (md - al) = unat md - unat al" by (simp add: unat_sub word_le_nat_alt)
    then show ?thesis
      using less.hyps [of "md - al" "fs + al" "fz - al"] less.prems True le12
      by (subst skip_alignment.simps) (auto simp: Let_def pos intro: exI [of _ False])
  next
    case False
    then show ?thesis by (subst skip_alignment.simps) (auto simp: Let_def pos)
  qed
qed

lemma skip_alignment_ok:
  assumes "unat md \<le> 12" "0 < unat md" "8 \<le> unat al" "unat al \<le> 1073741824" "unat fs + unat fz < 4294967296"
  shows "\<exists>ok st sz. skip_alignment al md fs fz = Some (ok, st, sz)
    \<and> (ok \<longrightarrow> (\<exists>j. unat st = unat fs + j * unat al \<and> unat md \<le> j * unat al \<and> unat st + unat sz = unat fs + unat fz))"
  using assms
proof (induction "unat md" arbitrary: md fs fz rule: less_induct)
  case less
  show ?case
  proof (cases "fz < al")
    case True
    then show ?thesis by (intro exI [of _ False]) (subst skip_alignment.simps, simp)
  next
    case False
    then have le: "unat al \<le> unat fz" by (simp add: word_less_nat_alt)
    have fs: "unat (fs + al) = unat fs + unat al" using le less.prems(5) by (intro unat_add_small) linarith
    have fz: "unat (fz - al) = unat fz - unat al" using le by (simp add: unat_sub word_le_nat_alt)
    note pos = sint_metadata [OF less.prems(1,3,4)]
    show ?thesis
    proof (cases "unat al < unat md")
      case True
      then have md: "unat (md - al) = unat md - unat al" by (simp add: unat_sub word_le_nat_alt)
      have le12: "unat md - unat al \<le> 12" using less.prems(1) by linarith
      obtain ok st sz where IH: "skip_alignment al (md - al) (fs + al) (fz - al) = Some (ok, st, sz)"
        "ok \<longrightarrow> (\<exists>j. unat st = unat (fs + al) + j * unat al \<and> unat (md - al) \<le> j * unat al
          \<and> unat st + unat sz = unat (fs + al) + unat (fz - al))"
        using less.hyps [of "md - al" "fs + al" "fz - al"] less.prems md fs fz le True le12 by auto
      have "skip_alignment al md fs fz = Some (ok, st, sz)"
        using IH(1) False True pos by (subst skip_alignment.simps) (simp add: Let_def)
      moreover have "\<exists>j. unat st = unat fs + j * unat al \<and> unat md \<le> j * unat al \<and> unat st + unat sz = unat fs + unat fz" if ok
      proof -
        obtain j where "unat st = unat (fs + al) + j * unat al" "unat (md - al) \<le> j * unat al"
          "unat st + unat sz = unat (fs + al) + unat (fz - al)" using IH(2) \<open>ok\<close> by blast
        then show ?thesis using md fs fz le True by (intro exI [of _ "Suc j"]) simp
      qed
      ultimately show ?thesis by blast
    next
      case f: False
      then have "skip_alignment al md fs fz = Some (True, fs + al, fz - al)"
        using False pos by (subst skip_alignment.simps) (simp add: Let_def)
      then show ?thesis using f fs fz le by (auto intro!: exI [of _ 1])
    qed
  qed
qed

text \<open>\<open>alignment\<close> is a power of two.\<close>

lemma aligned_fit_ok:
  assumes k: "alignment = 2 ^ k" "3 \<le> k" "k \<le> 30" and room: "unat fs + unat fz < 4294967296" "12 \<le> unat fs"
    and big: "unat fs + unat alignment < 4294967296"
  shows "\<exists>fits st left. aligned_fit alignment sz fs fz = Some (fits, st, left)
    \<and> (fits \<longrightarrow> unat st mod 2 ^ k = 0 \<and> unat fs + 12 \<le> unat st \<and> unat st + unat left = unat fs + unat fz \<and> unat sz \<le> unat left)"
proof -
  have pow: "(2::nat) ^ 3 \<le> 2 ^ k" "(2::nat) ^ k \<le> 2 ^ 30" using k by (intro power_increasing; simp)+
  then have "unat (of_nat (2 ^ k) :: u32) = 2 ^ k" by (intro unat_of_nat32) simp
  then have al: "unat alignment = 2 ^ k" using k by simp
  have al8: "8 \<le> unat alignment" "unat alignment \<le> 1073741824" using al pow by simp_all
  let ?low = "fs AND (alignment - 1)"
  have "?low = take_bit k fs" by (simp add: k(1) take_bit_eq_mask mask_eq_exp_minus_1)
  then have "unat ?low = take_bit k (unat fs)" by (simp only: unsigned_take_bit_eq)
  then have low: "unat ?low = unat fs mod 2 ^ k" by (simp only: take_bit_eq_mod)
  define u where "u = (if ?low = 0 then 0 else alignment - ?low)"
  have lt: "unat fs mod 2 ^ k < 2 ^ k" by simp
  have uu: "unat u = (if unat fs mod 2 ^ k = 0 then 0 else 2 ^ k - unat fs mod 2 ^ k)"
    using low al lt by (auto simp: u_def unat_eq_0 [symmetric] unat_sub word_le_nat_alt)
  then have ule: "unat u \<le> 2 ^ k" by simp
  have fsu: "unat (fs + u) = unat fs + unat u" using big al ule by (intro unat_add_small) linarith
  have "(unat fs + unat u) mod 2 ^ k = 0"
  proof (cases "unat fs mod 2 ^ k = 0")
    case False
    then have "unat fs + unat u = unat fs div 2 ^ k * 2 ^ k + 2 ^ k"
      using uu lt div_mult_mod_eq [of "unat fs" "2 ^ k"] by simp
    then show ?thesis by simp
  qed (use uu in simp)
  then have mod: "(unat (fs + u) + j * 2 ^ k) mod 2 ^ k = 0" for j using fsu by simp
  have small12: "u < SIZEOF_ENTRY \<longleftrightarrow> unat u < 12" by (simp add: SIZEOF_ENTRY_def word_less_nat_alt)
  show ?thesis
  proof (cases "u \<le> fz")
    case False
    have "unat (SIZEOF_ENTRY - u) \<le> 12" if "u < SIZEOF_ENTRY"
      using that by (simp add: unat_sub SIZEOF_ENTRY_def word_le_nat_alt word_less_nat_alt)
    then have "\<exists>a b c. (if u < SIZEOF_ENTRY then skip_alignment alignment (SIZEOF_ENTRY - u) (fs + u) (fz - u)
        else Some (True, fs + u, fz - u)) = Some (a, b, c)"
      using skip_alignment_total [OF _ al8, of "SIZEOF_ENTRY - u" "fs + u" "fz - u"] by (auto split: prod.splits)
    then show ?thesis using False by (auto simp: aligned_fit_def Let_def u_def [symmetric])
  next
    case True
    then have fzu: "unat (fz - u) = unat fz - unat u" "unat u \<le> unat fz" by (simp_all add: unat_sub word_le_nat_alt)
    show ?thesis
    proof (cases "unat u < 12")
      case f: False
      then have "aligned_fit alignment sz fs fz = Some (sz \<le> fz - u, fs + u, fz - u)"
        using True small12 by (simp add: aligned_fit_def Let_def u_def [symmetric])
      then show ?thesis using mod [of 0] f fsu fzu by (simp add: word_le_nat_alt)
    next
      case t: True
      have md: "unat (SIZEOF_ENTRY - u) = 12 - unat u"
        using t by (simp add: unat_sub SIZEOF_ENTRY_def word_le_nat_alt)
      obtain ok st left where sk: "skip_alignment alignment (SIZEOF_ENTRY - u) (fs + u) (fz - u) = Some (ok, st, left)"
        "ok \<longrightarrow> (\<exists>j. unat st = unat (fs + u) + j * unat alignment \<and> unat (SIZEOF_ENTRY - u) \<le> j * unat alignment
          \<and> unat st + unat left = unat (fs + u) + unat (fz - u))"
        using skip_alignment_ok [OF _ _ al8, of "SIZEOF_ENTRY - u" "fs + u" "fz - u"] md t fsu fzu room(1) by auto
      have "aligned_fit alignment sz fs fz = Some (ok \<and> sz \<le> left, st, left)"
        using True t small12 sk(1) by (simp add: aligned_fit_def Let_def u_def [symmetric])
      moreover have "unat st mod 2 ^ k = 0 \<and> unat fs + 12 \<le> unat st \<and> unat st + unat left = unat fs + unat fz" if "ok"
      proof -
        obtain j where "unat st = unat (fs + u) + j * unat alignment" "unat (SIZEOF_ENTRY - u) \<le> j * unat alignment"
          "unat st + unat left = unat (fs + u) + unat (fz - u)" using sk(2) \<open>ok\<close> by blast
        then show ?thesis using mod [of j] al md fsu fzu t by simp
      qed
      ultimately show ?thesis by (auto simp: word_le_nat_alt)
    qed
  qed
qed

end
