(* ===== verification/Heap_Aligned.thy ===== *)
theory Heap_Aligned
  imports Heap_Proofs
begin

text \<open>
  \<open>aligned_kalloc\<close>: the search for an aligned place, and that it keeps the invariant. The exact
  form of the invariant is needed: a free space that the metadata understates could be found by
  the search although the allocator still believes it free.
\<close>

section \<open>The search\<close>

lemma heap_bounds:
  assumes "heap_list m (xs @ (q, qb) # ys)"
  shows "3229614104 \<le> unat q" "unat q + 12 \<le> unat qb" "unat qb \<le> start_of ys (heap_end m)"
    "start_of ys (heap_end m) \<le> heap_end m" "heap_end m \<le> 4278190080"
  using assms ordered_apart [of 3229614104 xs q qb ys "heap_end m"] by (auto simp: heap_list_def)

definition aligned_place :: "u32 \<Rightarrow> nat \<Rightarrow> u32 \<Rightarrow> u32 \<Rightarrow> nat \<Rightarrow> bool" where
  "aligned_place sz k qb st limit \<longleftrightarrow>
     unat st mod 2 ^ k = 0 \<and> unat qb + 12 \<le> unat st \<and> unat st + unat sz \<le> limit"

lemma aligned_fit_heap:
  assumes "3 \<le> k" "k \<le> 23" "12 \<le> unat fs" "unat fs + unat fz \<le> 4278190080"
  obtains fits st left where "aligned_fit (2 ^ k) sz fs fz = Some (fits, st, left)"
    "fits \<Longrightarrow> aligned_place sz k fs st (unat fs + unat fz) \<and> unat st + unat left = unat fs + unat fz \<and> unat sz \<le> unat left"
proof -
  have "(2::nat) ^ k \<le> 2 ^ 23" using assms(2) by (intro power_increasing) simp_all
  then have "unat (of_nat (2 ^ k) :: u32) = 2 ^ k" by (intro unat_of_nat32) simp
  then have "unat (2 ^ k :: u32) = 2 ^ k" by simp
  then have "unat fs + unat (2 ^ k :: u32) < 4294967296"
    using assms(4) \<open>(2::nat) ^ k \<le> 2 ^ 23\<close> by simp
  then show thesis
    using aligned_fit_ok [of "2 ^ k" k fs fz sz] assms that by (auto simp: aligned_place_def)
qed

lemma aligned_search_suffix:
  assumes "heap_list m (xs @ es)" "3 \<le> k" "k \<le> 23"
  shows "aligned_search m (2 ^ k) sz (next_of es 0) = Some None
    \<or> (\<exists>zs q qb ys st left. es = zs @ (q, qb) # ys \<and> aligned_search m (2 ^ k) sz (next_of es 0) = Some (Some (q, st))
        \<and> aligned_fit (2 ^ k) sz qb (free_space m q) = Some (True, st, left)
        \<and> aligned_place sz k qb st (start_of ys (heap_end m)))"
  using assms(1)
proof (induction es arbitrary: xs)
  case Nil
  then show ?case by (subst aligned_search.simps) simp
next
  case (Cons x es)
  obtain c d where x: "x = (c, d)" by (cases x)
  have hl: "heap_list m (xs @ (c, d) # es)" using Cons.prems x by simp
  note fs = free_space_entry [OF hl]
  note b = heap_bounds [OF hl]
  have nz: "c \<noteq> 0" using heap_list_nonzero [OF hl refl] by auto
  have "12 \<le> unat d" "unat d + unat (free_space m c) \<le> 4278190080" using b fs(3) by simp_all
  then obtain fits st left where f: "aligned_fit (2 ^ k) sz d (free_space m c) = Some (fits, st, left)"
    "fits \<Longrightarrow> aligned_place sz k d st (unat d + unat (free_space m c))"
    using aligned_fit_heap [OF assms(2,3), of d "free_space m c" sz] by metis
  have search: "aligned_search m (2 ^ k) sz c = (if fits then Some (Some (c, st)) else aligned_search m (2 ^ k) sz (next_of es 0))"
    using nz f(1) fs(1,2) by (subst aligned_search.simps) simp
  show ?case
  proof (cases fits)
    case True
    have "unat d + unat (free_space m c) = start_of es (heap_end m)" using b(3) fs(3) by simp
    then have "aligned_place sz k d st (start_of es (heap_end m))" using f(2) True by simp
    then have "x # es = [] @ (c, d) # es \<and> aligned_search m (2 ^ k) sz (next_of (x # es) 0) = Some (Some (c, st))
        \<and> aligned_fit (2 ^ k) sz d (free_space m c) = Some (True, st, left)
        \<and> aligned_place sz k d st (start_of es (heap_end m))"
      using x search f(1) True by simp
    then show ?thesis by blast
  next
    case False
    have next_es: "aligned_search m (2 ^ k) sz (next_of (x # es) 0) = aligned_search m (2 ^ k) sz (next_of es 0)"
      using x search False by simp
    have "heap_list m ((xs @ [x]) @ es)" using Cons.prems by simp
    then consider "aligned_search m (2 ^ k) sz (next_of es 0) = Some None"
      | zs q qb ys st left where "es = zs @ (q, qb) # ys" "aligned_search m (2 ^ k) sz (next_of es 0) = Some (Some (q, st))"
        "aligned_fit (2 ^ k) sz qb (free_space m q) = Some (True, st, left)"
        "aligned_place sz k qb st (start_of ys (heap_end m))"
      using Cons.IH [of "xs @ [x]"] by blast
    then show ?thesis
    proof cases
      case 2
      then have "x # es = (x # zs) @ (q, qb) # ys" by simp
      then show ?thesis unfolding next_es using 2(2-4) by blast
    qed (simp add: next_es)
  qed
qed

section \<open>Placing the block\<close>

lemma finish_aligned_ok:
  assumes hl: "heap_list m (xs @ (q, qb) # ys)" and inv: "paging_ok (vm s)" "mapped_ok (vm s) (xs @ (q, qb) # ys)"
    and M: "\<And>x. 3229614104 \<le> unat x \<Longrightarrow> unat x < 4286578688 \<Longrightarrow> heap s x = link_mem e q (next_of ys 0) m x"
      "heap_end (heap s) = heap_end m" "entry_end (heap s) q = qb"
    and fits: "unat qb \<le> unat e" "unat e + 12 + unat sz \<le> start_of ys (heap_end m)"
    and pages: "(unat sz + 12) div 4096 + 2 \<le> size (free_pages (vm s))"
  obtains s' b where "finish_aligned e sz q (next_of ys 0) s = Some (e + 12, s')" "unat b = unat e + 12 + unat sz"
    "kheap_mutex s' = 0" "paging_ok (vm s')" "mapped_ok (vm s') (xs @ (q, qb) # (e, b) # ys)"
    "heap_list (heap s') (xs @ (q, qb) # (e, b) # ys)" "contents_kept (xs @ (q, qb) # ys) m (heap s')"
    "cleared (heap s') (unat e + 12) (unat b)" "\<And>x. unat x < 3229614104 \<Longrightarrow> heap s' x = heap s x"
proof -
  let ?y = "next_of ys 0" and ?b = "e + SIZEOF_ENTRY + sz"
  note bounds = heap_bounds [OF hl]
  have e12: "unat (e + SIZEOF_ENTRY) = unat e + 12"
    using fits bounds by (subst unat_add_small) (simp_all add: SIZEOF_ENTRY_def)
  have b: "unat ?b = unat e + 12 + unat sz"
    using fits bounds e12 by (subst unat_add_small) simp_all
  have b1: "unat e + 12 \<le> unat ?b" and b2: "unat ?b \<le> start_of ys (heap_end m)" using b fits(2) by simp_all
  have o: "ordered 3229614104 (xs @ (q, qb) # ys) (heap_end m)" using hl by (simp add: heap_list_def)
  have nz: "?y = 0 \<longleftrightarrow> ys = []" using heap_list_nonzero [OF hl, of "xs @ [(q, qb)]" ys] by simp
  obtain f l where fl: "own_pages qb e ?b ?y = (f, l)" by (cases "own_pages qb e ?b ?y")
  note own = own_pages_ok [OF o bounds(5) nz fits(1) b1 b2 fl]
  have "Suc ((unat ?b - 1) div 4096) - unat e div 4096 \<le> (unat ?b - 1 - unat e) div 4096 + 2"
    by (rule page_span) (use b1 in linarith)
  moreover have "(unat ?b - 1 - unat e) div 4096 \<le> (unat sz + 12) div 4096" using b by (intro div_le_mono) linarith
  ultimately have "Suc (page_index l) - page_index f \<le> size (free_pages (vm s))"
    using own(5,6) pages unfolding page_index_def [of e] by linarith
  then obtain v where v: "map_pages f l s = Some (s\<lparr>vm := v\<rparr>)" "paging_ok v" "memory_kept (vm s) v"
    "\<And>i. present (table v i) \<longleftrightarrow> present (table (vm s) i) \<or> (page_index f \<le> i \<and> i \<le> page_index l)"
    using map_pages_ok [OF inv(1) own(1-4)] by metis
  define m' where "m' = header_mem e ?b q ?y (mem_fill (virt v) e 0 (?b - e))"
  define s' where "s' = unlock_kheap (s\<lparr>vm := v\<lparr>virt := m'\<rparr>\<rparr>)"
  have be: "sz + SIZEOF_ENTRY = ?b - e" by (simp add: algebra_simps)
  have "heap_end (virt v) = heap_end m"
  proof -
    have "load32 (virt v) MEMORY_END = load32 (heap s) MEMORY_END"
      using kept_virt [OF v(3)] by (intro load32_same) (auto simp: heap_fields)
    then show ?thesis using M(2) by (simp add: heap_end_def)
  qed
  moreover have "virt v x = link_mem e q ?y m x" if "3229614104 \<le> unat x" "unat x < 4286578688" for x
    using M(1) [OF that] kept_virt [OF v(3) that(2)] by simp
  ultimately have placed: "heap_list m' (xs @ (q, qb) # (e, ?b) # ys)"
    "\<And>x. unat e + 12 \<le> unat x \<Longrightarrow> unat x < unat ?b \<Longrightarrow> m' x = 0"
    "\<And>c d x. (c, d) \<in> set (xs @ (q, qb) # ys) \<Longrightarrow> unat c + 12 \<le> unat x \<Longrightarrow> unat x < unat d \<Longrightarrow> m' x = m x"
    "\<And>x. unat x < 3229614104 \<or> 4278190080 \<le> unat x \<Longrightarrow> m' x = virt v x"
    using place_block [OF hl fits(1) b1 b2 _ _ m'_def] by blast+
  have s': "vm s' = v\<lparr>virt := m'\<rparr>" "kheap_mutex s' = 0" by (simp_all add: s'_def)
  have "finish_aligned e sz q ?y s = Some (e + 12, s')"
    using fl v(1) M(3)
    by (simp add: finish_aligned_def s'_def m'_def write_entry_mem on_heap_def memset_eq be SIZEOF_ENTRY_def [symmetric])
  moreover have "paging_ok (vm s')" "mapped_ok (vm s') (xs @ (q, qb) # (e, ?b) # ys)"
    using heap_write(3) [of m' v] mapped_ok_write [of m' v] placed(4) v(2)
      mapped_ok_insert [OF inv(2) v(4) own(8,9) [OF inv(2)]] s'(1) by simp_all
  moreover have "heap s' x = heap s x" if "unat x < 3229614104" for x
    using placed(4) [of x] kept_virt [OF v(3), of x] that s' by simp
  ultimately show thesis
    using that [of s' ?b] b placed(1-3) s' by (simp add: contents_kept_def cleared_def)
qed

section \<open>Aligned allocation keeps the invariant\<close>

lemma free_ok_insert_elsewhere:
  assumes "free_ok True m es" "heap_list m es" "es = xs @ (q, qb) # ys" "load32 m INSERT_ENTRY \<noteq> q"
    and m': "heap_end m' = heap_end m" "load32 m' INSERT_ENTRY = load32 m INSERT_ENTRY"
      "load32 m' FREE_MEMORY_START = load32 m FREE_MEMORY_START" "load32 m' FREE_MEMORY_SIZE = load32 m FREE_MEMORY_SIZE"
  shows "free_ok True m' (xs @ (q, qb) # (e, b) # ys)"
proof -
  obtain xs' p pb ys' where p: "es = xs' @ (p, pb) # ys'" "load32 m INSERT_ENTRY = p" "load32 m FREE_MEMORY_START = pb"
    "fits_gap True (unat (load32 m FREE_MEMORY_SIZE)) (start_of ys' (heap_end m) - unat pb)"
    using assms(1) by (auto simp: free_ok_def)
  have eq: "xs' @ (p, pb) # ys' = xs @ (q, qb) # ys" using p(1) assms(3) by simp
  have pq: "(p, pb) \<noteq> (q, qb)" using p(2) assms(4) by simp
  have "\<exists>us vs. xs @ (q, qb) # (e, b) # ys = us @ (p, pb) # vs \<and> start_of vs (heap_end m) = start_of ys' (heap_end m)"
  proof (cases "length xs' < length xs")
    case True
    then obtain zs where "xs = xs' @ (p, pb) # zs" "ys' = zs @ (q, qb) # ys"
      using eq pq by (auto simp: append_eq_append_conv2 Cons_eq_append_conv append_eq_Cons_conv)
    then show ?thesis using start_of_append [of zs q qb ys "heap_end m" qb "(e, b) # ys" "heap_end m"]
      by (intro exI [of _ xs'] exI [of _ "zs @ (q, qb) # (e, b) # ys"]) simp
  next
    case False
    then obtain zs where "xs' = xs @ (q, qb) # zs" "ys = zs @ (p, pb) # ys'"
      using eq pq by (auto simp: append_eq_append_conv2 Cons_eq_append_conv append_eq_Cons_conv)
    then show ?thesis by (intro exI [of _ "xs @ (q, qb) # (e, b) # zs"] exI [of _ ys']) simp
  qed
  then show ?thesis unfolding free_ok_def m' using p(2-4) by metis
qed

lemma heap_inv_locked:
  assumes "heap_inv ex s es"
  obtains s1 where "lock_kheap s = Some s1" "vm s1 = vm s" "paging_ok (vm s)" "heap_list (heap s) es" "free_ok ex (heap s) es"
    "mapped_ok (vm s) es"
  using assms that [of "s\<lparr>cpu := lock_core (cpu s), kheap_mutex := 1\<rparr>"] lock_kheap_free [of s] by (simp add: heap_inv_def)

lemma finish_first:
  assumes inv: "paging_ok (vm s)" "heap_list (heap s) es" "free_ok True (heap s) es" "mapped_ok (vm s) es"
    and es: "es = xs @ (q, qb) # ys" "word_at s INSERT_ENTRY = q" "word_at s FREE_MEMORY_START = qb"
      "unat (word_at s FREE_MEMORY_SIZE) = start_of ys (heap_end (heap s)) - unat qb"
    and place: "aligned_place sz k qb st (start_of ys (heap_end (heap s)))"
      "unat st + unat left = start_of ys (heap_end (heap s))" "unat sz \<le> unat left"
    and pages: "(unat sz + 12) div 4096 + 2 \<le> size (free_pages (vm s))"
    and s1: "s1 = set_word INSERT_ENTRY (st - 12) (link_entry (st - 12) q (next_of ys 0)
      (set_word FREE_MEMORY_SIZE (left - sz) (set_word FREE_MEMORY_START (st + sz) s)))"
  obtains s' b where "finish_aligned (st - 12) sz q (next_of ys 0) s1 = Some (st, s')" "unat b = unat st + unat sz"
    "heap_inv True s' (xs @ (q, qb) # (st - 12, b) # ys)" "contents_kept es (heap s) (heap s')"
    "cleared (heap s') (unat st) (unat b)"
proof -
  let ?y = "next_of ys 0" and ?e = "st - 12" and ?M = "insert_mem (st - 12) (st + sz) (left - sz) q (next_of ys 0) (heap s)"
  have hl: "heap_list (heap s) (xs @ (q, qb) # ys)" using inv(2) es(1) by simp
  note bounds = heap_bounds [OF hl]
  note facts = insert_mem_facts [OF hl, where e = ?e and stop = "st + sz" and sz = "left - sz"]
  have M: "heap s1 = ?M" "vm s1 = (vm s)\<lparr>virt := ?M\<rparr>"
    unfolding s1 set_word_def link_entry_mem on_heap_simps by (simp_all add: insert_mem_def)
  have st: "unat qb + 12 \<le> unat st" "unat st + unat sz \<le> start_of ys (heap_end (heap s))"
    using place(1) by (simp_all add: aligned_place_def)
  have e: "unat ?e = unat st - 12" using st(1) by (simp add: unat_sub word_le_nat_alt)
  have sum: "unat (st + sz) = unat st + unat sz" using st bounds by (intro unat_add_small) linarith
  have high: "?M a = virt (vm s) a" if "4278190080 \<le> unat a" for a using facts(8) [OF that] by simp
  have p1: "paging_ok (vm s1)" using heap_write(3) [of ?M "vm s"] high inv(1) M(2) by simp
  have m1: "mapped_ok (vm s1) (xs @ (q, qb) # ys)" using mapped_ok_write [of ?M "vm s"] high inv(4) es(1) M(2) by simp
  have "free_pages (vm s1) = free_pages (vm s)"
    using heap_write(2) [of ?M "vm s"] high inv(1) M(2) by (auto simp: paging_ok_def)
  then have f1: "(unat sz + 12) div 4096 + 2 \<le> size (free_pages (vm s1))" using pages by simp
  have fit: "unat qb \<le> unat ?e" "unat ?e + 12 + unat sz \<le> start_of ys (heap_end (heap s))" using st e by simp_all
  have l1: "heap s1 x = link_mem ?e q ?y (heap s) x" if "3229614104 \<le> unat x" "unat x < 4286578688" for x
    using facts(1) [OF that(1)] M(1) by simp
  have en: "heap_end (heap s1) = heap_end (heap s)" "entry_end (heap s1) q = qb" using facts(2,6) M(1) by simp_all
  obtain s' b where f: "finish_aligned ?e sz q ?y s1 = Some (?e + 12, s')" "unat b = unat ?e + 12 + unat sz"
    "kheap_mutex s' = 0" "paging_ok (vm s')" "mapped_ok (vm s') (xs @ (q, qb) # (?e, b) # ys)"
    "heap_list (heap s') (xs @ (q, qb) # (?e, b) # ys)" "contents_kept (xs @ (q, qb) # ys) (heap s) (heap s')"
    "cleared (heap s') (unat ?e + 12) (unat b)" "\<And>x. unat x < 3229614104 \<Longrightarrow> heap s' x = heap s1 x"
    using finish_aligned_ok [OF hl p1 m1 l1 en fit f1] by metis
  have read: "load32 (heap s') a = load32 ?M a" if "unat a + 4 \<le> 3229614104" for a
    using f(9) M(1) that by (intro load32_same) auto
  have bst: "unat b = unat st + unat sz" using f(2) e st(1) by simp
  then have "b = st + sz" using sum by (simp add: word_unat_eq_iff)
  moreover have "heap_end (heap s') = heap_end (heap s)" "load32 (heap s') INSERT_ENTRY = ?e"
    "load32 (heap s') FREE_MEMORY_START = st + sz" "load32 (heap s') FREE_MEMORY_SIZE = left - sz"
    using read facts(2-5) by (simp_all add: heap_end_def heap_fields)
  moreover have "unat (left - sz) = start_of ys (heap_end (heap s)) - unat (st + sz)"
    using place(2,3) sum by (simp add: unat_sub word_le_nat_alt)
  ultimately have "free_ok True (heap s') (xs @ (q, qb) # (?e, b) # ys)"
    unfolding free_ok_def by (intro exI [of _ "xs @ [(q, qb)]"] exI [of _ ?e] exI [of _ b] exI [of _ ys]) simp
  then have "heap_inv True s' (xs @ (q, qb) # (?e, b) # ys)" using f(3-6) by (simp add: heap_inv_def)
  then show thesis using that [of s' b] f(1,7,8) bst e st(1) es(1) by simp
qed

lemma finish_fallback:
  assumes inv: "paging_ok (vm s)" "heap_list (heap s) es" "free_ok True (heap s) es" "mapped_ok (vm s) es"
    and es: "es = xs @ (q, qb) # ys" "word_at s INSERT_ENTRY \<noteq> q"
    and place: "aligned_place sz k qb st (start_of ys (heap_end (heap s)))"
    and pages: "(unat sz + 12) div 4096 + 2 \<le> size (free_pages (vm s))"
  obtains s' b where "finish_aligned (st - 12) sz q (next_of ys 0) (link_entry (st - 12) q (next_of ys 0) s) = Some (st, s')"
    "unat b = unat st + unat sz" "heap_inv True s' (xs @ (q, qb) # (st - 12, b) # ys)"
    "contents_kept es (heap s) (heap s')" "cleared (heap s') (unat st) (unat b)"
proof -
  let ?y = "next_of ys 0" and ?e = "st - 12" and ?M = "link_mem (st - 12) q (next_of ys 0) (heap s)"
  let ?s1 = "link_entry (st - 12) q (next_of ys 0) s"
  have hl: "heap_list (heap s) (xs @ (q, qb) # ys)" using inv(2) es(1) by simp
  note bounds = heap_bounds [OF hl]
  note far = link_mem_far [OF hl, where e = ?e]
  have M: "heap ?s1 = ?M" "vm ?s1 = (vm s)\<lparr>virt := ?M\<rparr>" unfolding link_entry_mem on_heap_simps by simp_all
  have st: "unat qb + 12 \<le> unat st" "unat st + unat sz \<le> start_of ys (heap_end (heap s))"
    using place(1) by (simp_all add: aligned_place_def)
  have e: "unat ?e = unat st - 12" using st(1) by (simp add: unat_sub word_le_nat_alt)
  have high: "?M a = virt (vm s) a" if "4278190080 \<le> unat a" for a using far [of a] that by simp
  have low: "?M a = heap s a" if "unat a < 3229614104" for a using far [of a] that bounds(1) by simp
  have p1: "paging_ok (vm ?s1)" using heap_write(3) [of ?M "vm s"] high inv(1) M(2) by simp
  have m1: "mapped_ok (vm ?s1) (xs @ (q, qb) # ys)" using mapped_ok_write [of ?M "vm s"] high inv(4) es(1) M(2) by simp
  have "free_pages (vm ?s1) = free_pages (vm s)"
    using heap_write(2) [of ?M "vm s"] high inv(1) M(2) by (auto simp: paging_ok_def)
  then have f1: "(unat sz + 12) div 4096 + 2 \<le> size (free_pages (vm ?s1))" using pages by simp
  have fit: "unat qb \<le> unat ?e" "unat ?e + 12 + unat sz \<le> start_of ys (heap_end (heap s))" using st e by simp_all
  have l1: "heap ?s1 x = link_mem ?e q ?y (heap s) x" if "3229614104 \<le> unat x" "unat x < 4286578688" for x
    using M(1) by simp
  have read0: "load32 ?M a = load32 (heap s) a" if "unat a + 4 \<le> 3229614104" for a
    using low that by (intro load32_same) auto
  have "entry_end ?M q = entry_end (heap s) q" using far bounds(2-5) by (intro entry_end_same) auto
  then have en: "heap_end (heap ?s1) = heap_end (heap s)" "entry_end (heap ?s1) q = qb"
    using M(1) read0 [of MEMORY_END] free_space_entry(1) [OF hl] by (simp_all add: heap_end_def heap_fields)
  obtain s' b where f: "finish_aligned ?e sz q ?y ?s1 = Some (?e + 12, s')" "unat b = unat ?e + 12 + unat sz"
    "kheap_mutex s' = 0" "paging_ok (vm s')" "mapped_ok (vm s') (xs @ (q, qb) # (?e, b) # ys)"
    "heap_list (heap s') (xs @ (q, qb) # (?e, b) # ys)" "contents_kept (xs @ (q, qb) # ys) (heap s) (heap s')"
    "cleared (heap s') (unat ?e + 12) (unat b)" "\<And>x. unat x < 3229614104 \<Longrightarrow> heap s' x = heap ?s1 x"
    using finish_aligned_ok [OF hl p1 m1 l1 en fit f1] by metis
  have read: "load32 (heap s') a = load32 (heap s) a" if "unat a + 4 \<le> 3229614104" for a
  proof -
    have "load32 (heap s') a = load32 ?M a" using f(9) M(1) that by (intro load32_same) auto
    then show ?thesis using read0 [OF that] by simp
  qed
  have "free_ok True (heap s') (xs @ (q, qb) # (?e, b) # ys)"
    using read by (intro free_ok_insert_elsewhere [OF inv(3,2) es]) (simp_all add: heap_end_def heap_fields)
  then have "heap_inv True s' (xs @ (q, qb) # (?e, b) # ys)" using f(3-6) by (simp add: heap_inv_def)
  then show thesis using that [of s' b] f(1,2,7,8) e st(1) es(1) by simp
qed

lemma aligned_kalloc_cases:
  assumes inv: "heap_inv True s es" and k: "3 \<le> k" "k \<le> 23" and nz: "sz \<noteq> 0"
    and pages: "(unat sz + 12) div 4096 + 2 \<le> size (free_pages (vm s))"
  obtains (null) s' where "aligned_kalloc (2 ^ k) sz s = Some (0, s')" "heap_inv True s' es" "contents_kept es (heap s) (heap s')"
    | (block) xs q qb ys st b s' where "es = xs @ (q, qb) # ys" "aligned_kalloc (2 ^ k) sz s = Some (st, s')"
      "aligned_place sz k qb st (start_of ys (heap_end (heap s)))" "unat b = unat st + unat sz"
      "heap_inv True s' (xs @ (q, qb) # (st - 12, b) # ys)" "contents_kept es (heap s) (heap s')"
      "cleared (heap s') (unat st) (unat b)"
proof -
  obtain s1 where i: "lock_kheap s = Some s1" "vm s1 = vm s" "paging_ok (vm s1)" "heap_list (heap s1) es"
    "free_ok True (heap s1) es" "mapped_ok (vm s1) es"
    using heap_inv_locked [OF inv] by metis
  have big: "\<not> (2 ^ k :: u32) \<le> 4"
  proof -
    have "(2::nat) ^ 3 \<le> 2 ^ k" "(2::nat) ^ k \<le> 2 ^ 23" using k by (intro power_increasing; simp)+
    then have "unat (of_nat (2 ^ k) :: u32) = 2 ^ k" by (intro unat_of_nat32) simp
    then show ?thesis using \<open>(2::nat) ^ 3 \<le> 2 ^ k\<close> by (simp add: word_le_nat_alt)
  qed
  have pages1: "(unat sz + 12) div 4096 + 2 \<le> size (free_pages (vm s1))" using pages i(2) by simp
  obtain xs q qb ys where es: "es = xs @ (q, qb) # ys" "word_at s1 INSERT_ENTRY = q" "word_at s1 FREE_MEMORY_START = qb"
    "unat (word_at s1 FREE_MEMORY_SIZE) = start_of ys (heap_end (heap s1)) - unat qb"
    using i(5) by (auto simp: free_ok_def fits_gap_def)
  have hl: "heap_list (heap s1) (xs @ (q, qb) # ys)" using i(4) es(1) by simp
  note bounds = heap_bounds [OF hl]
  have sum: "unat qb + unat (word_at s1 FREE_MEMORY_SIZE) = start_of ys (heap_end (heap s1))" using es(4) bounds(3) by simp
  have "12 \<le> unat qb" "unat qb + unat (word_at s1 FREE_MEMORY_SIZE) \<le> 4278190080" using bounds sum by linarith+
  then obtain fits st left where fit: "aligned_fit (2 ^ k) sz qb (word_at s1 FREE_MEMORY_SIZE) = Some (fits, st, left)"
    "fits \<Longrightarrow> aligned_place sz k qb st (start_of ys (heap_end (heap s1)))
      \<and> unat st + unat left = start_of ys (heap_end (heap s1)) \<and> unat sz \<le> unat left"
    using aligned_fit_heap [OF k, of qb "word_at s1 FREE_MEMORY_SIZE" sz] sum by metis
  note unfold_fit = aligned_kalloc_def nz big i(1) es(2,3) fit(1) SIZEOF_ENTRY_def free_space_entry(2) [OF hl]
  show thesis
  proof (cases fits)
    case True
    then obtain s' b where f: "finish_aligned (st - 12) sz q (next_of ys 0) (set_word INSERT_ENTRY (st - 12)
        (link_entry (st - 12) q (next_of ys 0) (set_word FREE_MEMORY_SIZE (left - sz) (set_word FREE_MEMORY_START (st + sz) s1))))
        = Some (st, s')" "unat b = unat st + unat sz" "heap_inv True s' (xs @ (q, qb) # (st - 12, b) # ys)"
      "contents_kept es (heap s1) (heap s')" "cleared (heap s') (unat st) (unat b)"
      using finish_first [OF i(3-6) es _ _ _ pages1 refl] fit(2) by metis
    have "aligned_kalloc (2 ^ k) sz s = Some (st, s')" using f(1) True by (simp add: unfold_fit Let_def)
    then show thesis using block [OF es(1)] fit(2) [OF True] f(2-5) i(2) by simp
  next
    case False
    have first: "next_of es 0 = FIRST_ENTRY" using i(4) by (auto simp: heap_list_def)
    have "heap_list (heap s1) ([] @ es)" using i(4) by simp
    then consider "aligned_search (heap s1) (2 ^ k) sz FIRST_ENTRY = Some None"
      | zs p pb us st left where "es = zs @ (p, pb) # us" "aligned_search (heap s1) (2 ^ k) sz FIRST_ENTRY = Some (Some (p, st))"
        "aligned_fit (2 ^ k) sz pb (free_space (heap s1) p) = Some (True, st, left)"
        "aligned_place sz k pb st (start_of us (heap_end (heap s1)))"
      using aligned_search_suffix [OF _ k, of "heap s1" "[]" es sz] unfolding first by blast
    then show thesis
    proof cases
      case 1
      then have "aligned_kalloc (2 ^ k) sz s = Some (0, unlock_kheap s1)" using False by (simp add: unfold_fit Let_def)
      then show thesis using null [of "unlock_kheap s1"] i by (simp add: heap_inv_def)
    next
      case (2 zs p pb us st' left')
      have hlp: "heap_list (heap s1) (zs @ (p, pb) # us)" using i(4) 2(1) by simp
      have "word_at s1 INSERT_ENTRY \<noteq> p"
      proof
        assume "word_at s1 INSERT_ENTRY = p"
        then have p: "p = q" using es(2) by simp
        then have "pb = qb" using free_space_entry(1) [OF hl] free_space_entry(1) [OF hlp] by simp
        moreover have "unat (free_space (heap s1) q) = unat (word_at s1 FREE_MEMORY_SIZE)"
          using free_space_entry(3) [OF hl] es(4) by simp
        then have "free_space (heap s1) q = word_at s1 FREE_MEMORY_SIZE" by (simp add: word_unat_eq_iff)
        ultimately show False using fit(1) 2(3) False p by simp
      qed
      then obtain s' b where f: "finish_aligned (st' - 12) sz p (next_of us 0) (link_entry (st' - 12) p (next_of us 0) s1)
        = Some (st', s')" "unat b = unat st' + unat sz" "heap_inv True s' (zs @ (p, pb) # (st' - 12, b) # us)"
        "contents_kept es (heap s1) (heap s')" "cleared (heap s') (unat st') (unat b)"
        using finish_fallback [OF i(3-6) 2(1) _ 2(4) pages1] by metis
      have "aligned_kalloc (2 ^ k) sz s = Some (st', s')"
        using f(1) False 2(2) by (simp add: unfold_fit Let_def free_space_entry(2) [OF hlp])
      then show thesis using block [OF 2(1)] 2(4) f(2-5) i(2) by simp
    qed
  qed
qed

end
