(* ===== verification/Heap_Realloc.thy ===== *)
theory Heap_Realloc
  imports Heap_Aligned
begin

text \<open>
  \<open>krealloc\<close>: shrinking and expanding a block in place keep the invariant and the contents, and
  moving a block to a new place copies it.
\<close>

section \<open>Resizing an entry\<close>

lemma heap_list_cong:
  assumes "heap_list m es" "\<And>x. 3229614080 \<le> unat x \<Longrightarrow> unat x < 4278190080 \<Longrightarrow> m' x = m x"
  shows "heap_list m' es" "free_ok ex m' es \<longleftrightarrow> free_ok ex m es" "heap_end m' = heap_end m"
proof -
  have read: "load32 m' a = load32 m a" if "a = MEMORY_END \<or> a = INSERT_ENTRY \<or> a = FREE_MEMORY_START \<or> a = FREE_MEMORY_SIZE" for a
    using that by (intro load32_same assms(2)) (auto simp: heap_fields)
  then show e: "heap_end m' = heap_end m" by (simp add: heap_end_def)
  show "free_ok ex m' es \<longleftrightarrow> free_ok ex m es" by (simp add: free_ok_def e read)
  have o: "ordered 3229614104 es (heap_end m)" "heap_end m \<le> 4278190080" using assms(1) by (simp_all add: heap_list_def)
  have "seg m' 0 es 0 = seg m 0 es 0"
  proof (rule seg_frame [OF _ o(1)])
    show "m' x = m x" if "(e, b) \<in> set es" "unat e \<le> unat x" "unat x < unat e + 12" for e b x
      using ordered_range [OF o(1) that(1)] that(2,3) o(2) by (intro assms(2)) linarith+
    show "heap_end m < 4294967296" using o(2) by simp
  qed
  then show "heap_list m' es" using assms(1) e by (simp add: heap_list_def)
qed

lemma resize_block:
  assumes hl: "heap_list m (xs @ (q, qb) # (e, b) # ys)"
    and b': "unat e + 12 \<le> unat b'" "unat b' \<le> start_of ys (heap_end m)"
  shows "heap_list (store32 m e b') (xs @ (q, qb) # (e, b') # ys)" "heap_end (store32 m e b') = heap_end m"
    "\<And>x. unat x < unat e \<or> unat e + 12 \<le> unat x \<Longrightarrow> store32 m e b' x = m x"
proof -
  have hl': "heap_list m ((xs @ [(q, qb)]) @ (e, b) # ys)" using hl by simp
  note bounds = heap_bounds [OF hl']
  have o: "seg m 0 ((xs @ [(q, qb)]) @ (e, b) # ys) 0" "ordered 3229614104 ((xs @ [(q, qb)]) @ (e, b) # ys) (heap_end m)"
    "heap_end m \<le> 4278190080" "heap_end m < 4294967296"
    using hl' by (simp_all add: heap_list_def)
  have q: "3229614104 \<le> unat q" "unat q + 12 \<le> unat qb" using ordered_range [OF o(2), of q qb] by simp_all
  have qe: "unat qb \<le> unat e" using o(2) by (auto simp: ordered_append)
  have far: "store32 m e b' x = m x" if "unat x < unat e \<or> unat e + 4 \<le> unat x" for x
    using that bounds by (intro store32_frame) linarith+
  then show "store32 m e b' x = m x" if "unat x < unat e \<or> unat e + 12 \<le> unat x" for x
    using that by auto
  have "load32 (store32 m e b') MEMORY_END = load32 m MEMORY_END"
    using q qe by (intro load32_same far) (auto simp: heap_fields)
  then show e: "heap_end (store32 m e b') = heap_end m" by (simp add: heap_end_def)
  have "seg (store32 m e b') 0 ((xs @ [(q, qb)]) @ (e, b') # ys) 0
      \<and> ordered 3229614104 ((xs @ [(q, qb)]) @ (e, b') # ys) (heap_end m)"
    by (rule seg_resize [OF o(1,2,4) b']) (auto simp: entry_end_def load32_store32 intro: far)
  then show "heap_list (store32 m e b') (xs @ (q, qb) # (e, b') # ys)"
    using hl o(3) e by (cases xs) (simp_all add: heap_list_def)
qed

text \<open>Where the metadata's free space is when an entry gets another end.\<close>

lemma free_ok_resize:
  assumes "free_ok ex m (xs @ (e, b) # ys)" "load32 m INSERT_ENTRY \<noteq> e"
    and m': "heap_end m' = heap_end m" "load32 m' INSERT_ENTRY = load32 m INSERT_ENTRY"
      "load32 m' FREE_MEMORY_START = load32 m FREE_MEMORY_START" "load32 m' FREE_MEMORY_SIZE = load32 m FREE_MEMORY_SIZE"
  shows "free_ok ex m' (xs @ (e, b') # ys)"
proof -
  obtain xs' p pb ys' where p: "xs @ (e, b) # ys = xs' @ (p, pb) # ys'" "load32 m INSERT_ENTRY = p" "load32 m FREE_MEMORY_START = pb"
    "fits_gap ex (unat (load32 m FREE_MEMORY_SIZE)) (start_of ys' (heap_end m) - unat pb)"
    using assms(1) by (auto simp: free_ok_def)
  have pe: "(p, pb) \<noteq> (e, b)" using p(2) assms(2) by simp
  have "\<exists>us vs. xs @ (e, b') # ys = us @ (p, pb) # vs \<and> start_of vs (heap_end m) = start_of ys' (heap_end m)"
  proof (cases "length xs' < length xs")
    case True
    then obtain zs where "xs = xs' @ (p, pb) # zs" "ys' = zs @ (e, b) # ys"
      using p(1) pe by (auto simp: append_eq_append_conv2 Cons_eq_append_conv append_eq_Cons_conv)
    then show ?thesis using start_of_append [of zs e b ys "heap_end m" b' ys "heap_end m"]
      by (intro exI [of _ xs'] exI [of _ "zs @ (e, b') # ys"]) simp
  next
    case False
    then obtain zs where "xs' = xs @ (e, b) # zs" "ys = zs @ (p, pb) # ys'"
      using p(1) pe by (auto simp: append_eq_append_conv2 Cons_eq_append_conv append_eq_Cons_conv)
    then show ?thesis by (intro exI [of _ "xs @ (e, b') # zs"] exI [of _ ys']) simp
  qed
  then show ?thesis unfolding free_ok_def m' using p(2-4) by metis
qed

text \<open>The list tells of which entry the metadata speaks.\<close>

lemma insert_entry_end:
  assumes "free_ok ex m es" "heap_list m es" "es = xs @ (e, b) # ys" "load32 m INSERT_ENTRY = e"
  shows "load32 m FREE_MEMORY_START = b" "fits_gap ex (unat (load32 m FREE_MEMORY_SIZE)) (start_of ys (heap_end m) - unat b)"
proof -
  obtain xs' pb ys' where p: "es = xs' @ (e, pb) # ys'" "load32 m FREE_MEMORY_START = pb"
    "fits_gap ex (unat (load32 m FREE_MEMORY_SIZE)) (start_of ys' (heap_end m) - unat pb)"
    using assms(1,4) by (auto simp: free_ok_def)
  have "heap_list m (xs' @ (e, pb) # ys')" "heap_list m (xs @ (e, b) # ys)" using assms(2,3) p(1) by simp_all
  note f = free_space_entry [OF this(1)] free_space_entry [OF this(2)]
  have b: "b = pb" using f(1,5) by simp
  then show "load32 m FREE_MEMORY_START = b" using p(2) by simp
  have "start_of ys' (heap_end m) = start_of ys (heap_end m)" using f(3,4,7,8) b by (metis eq_diff_iff)
  then show "fits_gap ex (unat (load32 m FREE_MEMORY_SIZE)) (start_of ys (heap_end m) - unat b)" using p(3) b by simp
qed

lemma round_up_page:
  assumes "unat x \<le> 4278190080" "f = PAGE_MASK x + (if PAGE_OFFSET_MASK x = 0 then 0 else PAGE_SIZE)"
  shows "PAGE_OFFSET_MASK f = 0" "page_index f = (unat x + 4095) div 4096"
proof -
  have i: "page_index x < 1048575" using assms(1) by (simp add: page_index_def)
  have step: "PAGE_OFFSET_MASK (PAGE_MASK x + PAGE_SIZE) = 0" "page_index (PAGE_MASK x + PAGE_SIZE) = Suc (page_index x)"
    using page_step [OF mask_aligned, of x] i by auto
  have zero: "PAGE_OFFSET_MASK x = 0 \<longleftrightarrow> unat x mod 4096 = 0"
  proof -
    have "PAGE_OFFSET_MASK x = take_bit 12 x" by (simp add: PAGE_OFFSET_MASK_def take_bit_eq_mask mask_eq_exp_minus_1)
    then have "unat (PAGE_OFFSET_MASK x) = take_bit 12 (unat x)" by (simp only: unsigned_take_bit_eq)
    then have "unat (PAGE_OFFSET_MASK x) = unat x mod 4096" by (simp add: take_bit_eq_mod)
    then show ?thesis by (metis unat_eq_0)
  qed
  show "PAGE_OFFSET_MASK f = 0" using step(1) assms(2) by (simp add: mask_aligned)
  have "(n + 4095) div 4096 = (if n mod 4096 = 0 then n div 4096 else Suc (n div 4096))" for n :: nat
  proof (cases "n mod 4096")
    case 0
    then obtain j where "n = 4096 * j" by (auto elim: dvdE)
    then show ?thesis by simp
  next
    case (Suc r)
    have "n mod 4096 < 4096" by simp
    then have r: "r < 4096" using Suc by linarith
    have "n = 4096 * (n div 4096) + Suc r" using div_mult_mod_eq [of n 4096] Suc by simp
    then have "n + 4095 = r + 4096 * Suc (n div 4096)" by simp
    moreover have "(r + 4096 * Suc (n div 4096)) div 4096 = Suc (n div 4096) + r div 4096" by (rule div_mult_self2) simp
    ultimately have "(n + 4095) div 4096 = Suc (n div 4096)" using r by (simp only: div_less add_0_right)
    then show ?thesis using Suc by simp
  qed
  then have "(unat x + 4095) div 4096 = (if PAGE_OFFSET_MASK x = 0 then page_index x else Suc (page_index x))"
    unfolding zero page_index_def by blast
  then show "page_index f = (unat x + 4095) div 4096" using step(2) assms(2) by simp
qed

section \<open>Shrinking\<close>

text \<open>What the two ways of resizing in place have in common: the memory with the new end.\<close>

lemma block_bounds:
  assumes "heap_list m (xs @ (q, qb) # (e, b) # ys)"
  shows "unat qb \<le> unat e" "unat e + 12 \<le> unat b" "unat b \<le> start_of ys (heap_end m)" "3229614116 \<le> unat e"
    "start_of ys (heap_end m) \<le> 4278190080" "entry_end m e = b" "entry_prev m e = q" "entry_next m e = next_of ys 0"
    "entry_end m q = qb" "next_of ys 0 = 0 \<longleftrightarrow> ys = []"
proof -
  have hl: "heap_list m ((xs @ [(q, qb)]) @ (e, b) # ys)" using assms by simp
  note b = heap_bounds [OF hl] heap_bounds [OF assms]
  have o: "ordered 3229614104 (xs @ (q, qb) # (e, b) # ys) (heap_end m)" "seg m 0 (xs @ (q, qb) # (e, b) # ys) 0"
    using assms by (simp_all add: heap_list_def)
  show "unat qb \<le> unat e" using b(8) by simp
  then show "3229614116 \<le> unat e" using b(6,7) by simp
  show "unat e + 12 \<le> unat b" "unat b \<le> start_of ys (heap_end m)" "start_of ys (heap_end m) \<le> 4278190080"
    using b by simp_all
  show "entry_end m e = b" "entry_prev m e = q" "entry_next m e = next_of ys 0" "entry_end m q = qb"
    using o(2) by (simp_all add: seg_append)
  show "next_of ys 0 = 0 \<longleftrightarrow> ys = []" using heap_list_nonzero [OF hl, of "xs @ [(q, qb), (e, b)]" ys] by simp
qed

lemma mapped_ok_sub: "mapped_ok v (xs @ y # z # ys) \<Longrightarrow> mapped_ok v (xs @ y # ys)"
  by (auto simp: mapped_ok_def)

lemma free_ok_shrink:
  assumes f: "free_ok ex m (xs @ (e, b) # ys)" and hl: "heap_list m (xs @ (e, b) # ys)" "heap_list m1 (xs @ (e, b') # ys)"
    and less: "unat b' < unat b" "unat b \<le> start_of ys (heap_end m)" and m1: "heap_end m1 = heap_end m"
      "\<And>a. a \<in> {INSERT_ENTRY, FREE_MEMORY_START, FREE_MEMORY_SIZE} \<Longrightarrow> load32 m1 a = load32 m a"
    and m2: "m2 = (if load32 m1 FREE_MEMORY_SIZE < free_space m1 e then free_mem b' (free_space m1 e) e m1 else m1)"
  shows "free_ok ex m2 (xs @ (e, b') # ys)"
proof -
  note gap = free_space_entry(3) [OF hl(2)]
  have e2: "heap_end m2 = heap_end m1" using free_mem_meta by (auto simp: m2 meta_change_def)
  show ?thesis
  proof (cases "load32 m1 FREE_MEMORY_SIZE < free_space m1 e")
    case True
    then have "load32 m2 INSERT_ENTRY = e" "load32 m2 FREE_MEMORY_START = b'" "load32 m2 FREE_MEMORY_SIZE = free_space m1 e"
      by (simp_all add: m2 free_mem_reads)
    then show ?thesis unfolding free_ok_def e2 using gap
      by (intro exI [of _ xs] exI [of _ e] exI [of _ b'] exI [of _ ys]) simp
  next
    case False
    then have "m2 = m1" by (simp add: m2)
    moreover have "load32 m INSERT_ENTRY \<noteq> e"
    proof
      assume "load32 m INSERT_ENTRY = e"
      then have "unat (load32 m FREE_MEMORY_SIZE) \<le> start_of ys (heap_end m) - unat b"
        using insert_entry_end(2) [OF f hl(1) refl] fits_gap_le by blast
      then show False using False gap less m1 by (simp add: word_less_nat_alt)
    qed
    ultimately show ?thesis using m1 by (intro free_ok_resize [OF f]) simp_all
  qed
qed

lemma shrink_entry_ok:
  assumes i: "paging_ok (vm s)" "heap_list (heap s) (xs @ (q, qb) # (e, b) # ys)"
      "free_ok ex (heap s) (xs @ (q, qb) # (e, b) # ys)" "mapped_ok (vm s) (xs @ (q, qb) # (e, b) # ys)"
    and n: "unat e + 12 \<le> unat (e + n)" "unat (e + n) < unat b"
  obtains s' where "shrink_entry (e + 12) e n s = Some (e + 12, s')" "heap_inv ex s' (xs @ (q, qb) # (e, e + n) # ys)"
    "contents_kept (xs @ (q, qb) # (e, e + n) # ys) (heap s) (heap s')"
proof -
  let ?es' = "xs @ (q, qb) # (e, e + n) # ys" and ?y = "next_of ys 0" and ?b' = "e + n" and ?m = "heap s"
  define m1 where "m1 = store32 ?m e ?b'"
  note bb = block_bounds [OF i(2)]
  have le: "unat ?b' \<le> start_of ys (heap_end ?m)" using n(2) bb(3) by linarith
  note r = resize_block [OF i(2) n(1) le, folded m1_def]
  define m2 where "m2 = (if load32 m1 FREE_MEMORY_SIZE < free_space m1 e then free_mem ?b' (free_space m1 e) e m1 else m1)"
  have meta: "meta_change m1 m2" by (simp add: m2_def free_mem_meta)
  have hl1: "heap_list m1 ((xs @ [(q, qb)]) @ (e, ?b') # ys)" "heap_list ?m ((xs @ [(q, qb)]) @ (e, b) # ys)"
    "free_ok ex ?m ((xs @ [(q, qb)]) @ (e, b) # ys)" using r(1) i(2,3) by simp_all
  have low: "load32 m1 a = load32 ?m a" if "a \<in> {INSERT_ENTRY, FREE_MEMORY_START, FREE_MEMORY_SIZE}" for a
    using that bb(4) r(3) by (intro load32_same) (auto simp: heap_fields)
  have free2: "free_ok ex m2 ?es'"
    using free_ok_shrink [OF hl1(3,2,1) n(2) bb(3) r(2) low m2_def] by simp
  have hl2: "heap_list m2 ?es'" by (rule heap_list_meta [OF r(1) meta])
  have high: "m2 a = virt (vm s) a" if "4278190080 \<le> unat a" for a
    using meta_change_high [OF meta, of a] r(3) [of a] bb(2,3,5) that by simp
  let ?v2 = "(vm s)\<lparr>virt := m2\<rparr>" and ?s2 = "s\<lparr>vm := (vm s)\<lparr>virt := m2\<rparr>\<rparr>"
  have p2: "paging_ok ?v2" using heap_write(3) [of m2 "vm s"] high i(1) by simp
  have mp2: "mapped_ok ?v2 (xs @ (q, qb) # (e, b) # ys)" using mapped_ok_write [of m2 "vm s"] high i(4) by simp
  define f where "f = PAGE_MASK ?b' + (if PAGE_OFFSET_MASK ?b' = 0 then 0 else PAGE_SIZE)"
  have b4: "unat ?b' \<le> 4278190080" using le bb(5) by linarith
  note up = round_up_page [OF b4 f_def]
  obtain f0 l where own: "own_pages qb e b ?y = (f0, l)" by (cases "own_pages qb e b ?y")
  have l: "l = (if PAGE_MASK (b - 1) = (if ?y = 0 then 0 else PAGE_MASK ?y) then PAGE_MASK (b - 1) - PAGE_SIZE else PAGE_MASK (b - 1))"
    using own by (simp add: own_pages_def Let_def split: if_splits)
  have o: "ordered 3229614104 (xs @ (q, qb) # ys) (heap_end ?m)" "heap_end ?m \<le> 4278190080"
    using i(2) ordered_mono [of "unat b" ys "heap_end ?m" "unat qb" "heap_end ?m"] bb(1-3)
    by (auto simp: heap_list_def ordered_append)
  note own_ok = own_pages_ok [OF o bb(10,1-3) own]
  have f0: "page_index f0 \<le> Suc (page_index e)"
    using own_ok(8) [OF mapped_ok_sub [OF mp2]] by auto
  have fe: "Suc (page_index e) \<le> page_index f" unfolding up(2) page_index_def [of e] using n(1) by linarith
  have pres: "present (table (vm ?s2) j)" if "page_index f \<le> j" "j \<le> page_index l" for j
    using entry_pages [OF mp2, of e b j] that own_ok(6) fe by simp
  have f788: "788480 \<le> page_index f" using fe bb(4) by (simp add: page_index_def)
  have p2': "paging_ok (vm ?s2)" using p2 by simp
  obtain v where v: "unmap_pages f l ?s2 = Some (?s2\<lparr>vm := v\<rparr>)" "paging_ok v" "memory_kept ?v2 v"
    "\<And>j. present (table v j) \<longleftrightarrow> present (table ?v2 j) \<and> \<not> (page_index f \<le> j \<and> j \<le> page_index l)"
    using unmap_pages_ok [OF p2' up(1) own_ok(2) f788 own_ok(4) pres] by auto
  define s' where "s' = unlock_kheap (s\<lparr>vm := v\<rparr>)"
  have s': "heap s' = virt v" "vm s' = v" "kheap_mutex s' = 0" by (simp_all add: s'_def)
  have same: "virt v x = m2 x" if "unat x < 4278190080" for x
    using kept_virt [OF v(3), of x] that by simp
  note c = heap_list_cong [OF hl2 same]
  have next1: "entry_next m2 e = ?y" "entry_end ?m e = b" "free_space m1 e = free_space m1 e"
    using hl2 bb(6) block_bounds(8) by blast+
  have "offer_space ?b' (free_space m1 e) e (set_word e ?b' s) = ?s2"
    by (simp add: offer_space_mem on_heap_def set_word_def m1_def m2_def)
  moreover have "heap (set_word e ?b' s) = m1" unfolding set_word_def on_heap_simps by (simp add: m1_def)
  ultimately have "shrink_entry (e + 12) e n s = Some (e + 12, s')"
    using v(1) next1 l
    by (simp add: shrink_entry_def Let_def f_def [symmetric] s'_def cong: if_cong split del: if_split)
  moreover have "mapped_ok v ?es'"
    unfolding mapped_ok_def
  proof (intro allI impI)
    fix c d j assume cd: "(c, d) \<in> set ?es'" "page_index c \<le> j" "j \<le> (unat d - 1) div 4096"
    have "present (table ?v2 j) \<and> \<not> (page_index f \<le> j \<and> j \<le> page_index l)"
    proof (cases "(c, d) = (e, ?b')")
      case True
      have "(unat ?b' - 1) div 4096 \<le> (unat b - 1) div 4096" using n(2) by (intro div_le_mono) linarith
      then have "present (table ?v2 j)" using entry_pages [OF mp2, of e b j] cd True by simp
      moreover have "(unat ?b' - 1) div 4096 < (unat ?b' + 4095) div 4096" using n(1) by linarith
      ultimately show ?thesis using cd True up(2) by simp
    next
      case False
      then have cd': "(c, d) \<in> set (xs @ (q, qb) # ys)" using cd(1) by auto
      then have "present (table ?v2 j)" using entry_pages [OF mp2, of c d j] cd by auto
      moreover have "\<not> (page_index f0 \<le> j \<and> j \<le> page_index l)" by (rule own_ok(7) [OF cd' cd(2,3)])
      ultimately show ?thesis using f0 fe by linarith
    qed
    then show "present (table v j)" using v(4) by blast
  qed
  then have "heap_inv ex s' ?es'" using c free2 v(2) s' by (simp add: heap_inv_def)
  moreover have "contents_kept ?es' ?m (heap s')"
    unfolding contents_kept_def
  proof (intro allI impI)
    fix c d x :: u32 assume cd: "(c, d) \<in> set ?es'" "unat c + 12 \<le> unat x" "unat x < unat d"
    have o2: "ordered 3229614104 ((xs @ [(q, qb)]) @ (e, ?b') # ys) (heap_end m2)" "heap_end m2 \<le> 4278190080"
      using hl2 by (simp_all add: heap_list_def)
    have range: "3229614104 \<le> unat c" "unat d \<le> 4278190080" using ordered_range [OF o2(1), of c d] cd(1) o2(2) by auto
    have "unat x < unat e \<or> unat e + 12 \<le> unat x"
      using ordered_apart(1,2) [OF o2(1), of c d] cd n(1) by fastforce
    then have "m1 x = ?m x" by (rule r(3))
    moreover have "m2 x = m1 x" using meta cd(2) range(1) by (simp add: meta_change_def)
    moreover have "virt v x = m2 x" using same [of x] cd(3) range(2) by simp
    ultimately show "heap s' x = ?m x" by (simp add: s')
  qed
  ultimately show thesis by (rule that)
qed

section \<open>Expanding in place\<close>

lemma free_ok_expand:
  assumes f: "free_ok True m (xs @ (e, b) # ys)" and hl: "heap_list m (xs @ (e, b) # ys)" "heap_end m1 = heap_end m"
    and b': "unat b \<le> unat b'" "unat b' \<le> start_of ys (heap_end m)"
    and m1: "\<And>a. a \<in> {INSERT_ENTRY, FREE_MEMORY_START, FREE_MEMORY_SIZE} \<Longrightarrow> load32 m1 a = load32 m a"
    and m2: "m2 = (if load32 m1 INSERT_ENTRY = e
      then store32 (store32 m1 FREE_MEMORY_START (load32 m1 FREE_MEMORY_START + (b' - b))) FREE_MEMORY_SIZE
        (load32 m1 FREE_MEMORY_SIZE - (b' - b)) else m1)"
  shows "free_ok True m2 (xs @ (e, b') # ys)" "meta_change m1 m2"
proof -
  show meta: "meta_change m1 m2"
    by (auto simp: m2 intro!: meta_change_store intro: meta_change_trans)
  then have e2: "heap_end m2 = heap_end m" using hl(2) by (simp add: meta_change_def)
  show "free_ok True m2 (xs @ (e, b') # ys)"
  proof (cases "load32 m INSERT_ENTRY = e")
    case True
    note i = insert_entry_end [OF f hl(1) refl True]
    have sz: "unat (load32 m FREE_MEMORY_SIZE) = start_of ys (heap_end m) - unat b" using i(2) by (rule fits_gap_exact)
    have d: "unat (b' - b) = unat b' - unat b" using b'(1) by (simp add: unat_sub word_le_nat_alt)
    have le: "b' - b \<le> load32 m FREE_MEMORY_SIZE" unfolding word_le_nat_alt d sz using b'(2) by (rule diff_le_mono)
    have "unat (load32 m FREE_MEMORY_SIZE - (b' - b)) = start_of ys (heap_end m) - unat b'"
      using le d sz b' by (simp add: unat_sub)
    moreover have "load32 m2 INSERT_ENTRY = e" "load32 m2 FREE_MEMORY_START = b'"
      "load32 m2 FREE_MEMORY_SIZE = load32 m FREE_MEMORY_SIZE - (b' - b)"
      using True m1 i(1) by (simp_all add: m2 load32_store32 load32_disjoint heap_fields)
    ultimately show ?thesis unfolding free_ok_def e2
      by (intro exI [of _ xs] exI [of _ e] exI [of _ b'] exI [of _ ys]) simp
  next
    case False
    then have "m2 = m1" using m1 by (simp add: m2)
    then show ?thesis using m1 hl(2) False by (intro free_ok_resize [OF f]) simp_all
  qed
qed

lemma expand_entry_ok:
  assumes i: "paging_ok (vm s)" "heap_list (heap s) (xs @ (q, qb) # (e, b) # ys)"
      "free_ok True (heap s) (xs @ (q, qb) # (e, b) # ys)" "mapped_ok (vm s) (xs @ (q, qb) # (e, b) # ys)"
    and n: "unat (e + n) = unat e + unat n" "unat b \<le> unat e + unat n" "unat e + unat n \<le> start_of ys (heap_end (heap s))"
    and pages: "unat n div 4096 + 2 \<le> size (free_pages (vm s))"
  obtains s' where "expand_entry (e + 12) e (b - e) n s = Some (e + 12, s')"
    "heap_inv True s' (xs @ (q, qb) # (e, e + n) # ys)"
    "contents_kept (xs @ (q, qb) # (e, b) # ys) (heap s) (heap s')"
proof -
  let ?es' = "xs @ (q, qb) # (e, e + n) # ys" and ?y = "next_of ys 0" and ?b' = "e + n" and ?m = "heap s"
  define m1 where "m1 = store32 ?m e ?b'"
  note bb = block_bounds [OF i(2)]
  have n12: "unat e + 12 \<le> unat ?b'" and le: "unat ?b' \<le> start_of ys (heap_end ?m)" using n bb(2) by simp_all
  note r = resize_block [OF i(2) n12 le, folded m1_def]
  have diff: "n - (b - e) = ?b' - b" by simp
  define m2 where "m2 = (if load32 m1 INSERT_ENTRY = e
      then store32 (store32 m1 FREE_MEMORY_START (load32 m1 FREE_MEMORY_START + (?b' - b))) FREE_MEMORY_SIZE
        (load32 m1 FREE_MEMORY_SIZE - (?b' - b)) else m1)"
  have low: "load32 m1 a = load32 ?m a" if "a \<in> {INSERT_ENTRY, FREE_MEMORY_START, FREE_MEMORY_SIZE}" for a
    using that bb(4) r(3) by (intro load32_same) (auto simp: heap_fields)
  have old: "free_ok True ?m ((xs @ [(q, qb)]) @ (e, b) # ys)" "heap_list ?m ((xs @ [(q, qb)]) @ (e, b) # ys)" using i(2,3) by simp_all
  have leb: "unat b \<le> unat ?b'" using n by simp
  note fe = free_ok_expand [OF old r(2) leb le low m2_def]
  have free2: "free_ok True m2 ?es'" and meta: "meta_change m1 m2" using fe by simp_all
  have hl2: "heap_list m2 ?es'" by (rule heap_list_meta [OF r(1) meta])
  have high: "m2 a = virt (vm s) a" if "4278190080 \<le> unat a" for a
    using meta_change_high [OF meta, of a] r(3) [of a] bb(2,3,5) that by simp
  let ?v2 = "(vm s)\<lparr>virt := m2\<rparr>" and ?s2 = "s\<lparr>vm := (vm s)\<lparr>virt := m2\<rparr>\<rparr>"
  have p2: "paging_ok (vm ?s2)" using heap_write(3) [of m2 "vm s"] high i(1) by simp
  have mp2: "mapped_ok ?v2 (xs @ (q, qb) # ys)" using mapped_ok_write [of m2 "vm s"] high mapped_ok_sub [OF i(4)] by simp
  have free: "free_pages ?v2 = free_pages (vm s)"
    using heap_write(2) [of m2 "vm s"] high i(1) by (auto simp: paging_ok_def)
  obtain f l where own: "own_pages qb e ?b' ?y = (f, l)" by (cases "own_pages qb e ?b' ?y")
  have o: "ordered 3229614104 (xs @ (q, qb) # ys) (heap_end ?m)" "heap_end ?m \<le> 4278190080"
    using i(2) ordered_mono [of "unat b" ys "heap_end ?m" "unat qb" "heap_end ?m"] bb(1-3)
    by (auto simp: heap_list_def ordered_append)
  note own_ok = own_pages_ok [OF o bb(10,1) n12 le own]
  have "Suc ((unat ?b' - 1) div 4096) - unat e div 4096 \<le> (unat ?b' - 1 - unat e) div 4096 + 2"
    by (rule page_span) (use n12 in linarith)
  moreover have "(unat ?b' - 1 - unat e) div 4096 \<le> unat n div 4096" using n(1) by (intro div_le_mono) linarith
  ultimately have "Suc (page_index l) - page_index f \<le> size (free_pages (vm ?s2))"
    using own_ok(5,6) pages free unfolding page_index_def [of e] by simp linarith
  then obtain v where v: "map_pages f l ?s2 = Some (?s2\<lparr>vm := v\<rparr>)" "paging_ok v" "memory_kept ?v2 v"
    "\<And>j. present (table v j) \<longleftrightarrow> present (table ?v2 j) \<or> (page_index f \<le> j \<and> j \<le> page_index l)"
    using map_pages_ok [OF p2 own_ok(1-4)] by auto
  define s' where "s' = unlock_kheap (s\<lparr>vm := v\<rparr>)"
  have s': "heap s' = virt v" "vm s' = v" "kheap_mutex s' = 0" by (simp_all add: s'_def)
  have same: "virt v x = m2 x" if "unat x < 4278190080" for x
    using kept_virt [OF v(3), of x] that by simp
  note c = heap_list_cong [OF hl2 same]
  note b2 = block_bounds [OF hl2]
  have e1: "heap (set_word e ?b' s) = m1" unfolding set_word_def on_heap_simps by (simp add: m1_def)
  have "expand_entry (e + 12) e (b - e) n s
    = do { s \<leftarrow> map_pages f l ?s2; Some (e + 12, unlock_kheap s) }"
  proof -
    have "(if load32 m1 INSERT_ENTRY = e then set_word FREE_MEMORY_SIZE
        (load32 m1 FREE_MEMORY_SIZE - (n - (b - e)))
        (set_word FREE_MEMORY_START (load32 m1 FREE_MEMORY_START + (n - (b - e))) (set_word e ?b' s)) else set_word e ?b' s) = ?s2"
      unfolding diff set_word_def by (simp add: on_heap_def m2_def m1_def)
    then show ?thesis
      using own b2(6-9) e1 by (simp add: expand_entry_def Let_def cong: if_cong split del: if_split)
  qed
  then have "expand_entry (e + 12) e (b - e) n s = Some (e + 12, s')" using v(1) by (simp add: s'_def)
  moreover have "mapped_ok v ?es'"
    by (rule mapped_ok_insert [OF mp2 v(4) own_ok(8,9) [OF mp2]])
  then have "heap_inv True s' ?es'" using c free2 v(2) s' by (simp add: heap_inv_def)
  moreover have "contents_kept (xs @ (q, qb) # (e, b) # ys) ?m (heap s')"
    unfolding contents_kept_def
  proof (intro allI impI)
    fix c d x :: u32 assume cd: "(c, d) \<in> set (xs @ (q, qb) # (e, b) # ys)" "unat c + 12 \<le> unat x" "unat x < unat d"
    have o2: "ordered 3229614104 ((xs @ [(q, qb)]) @ (e, b) # ys) (heap_end ?m)" "heap_end ?m \<le> 4278190080"
      using i(2) by (simp_all add: heap_list_def)
    have range: "3229614104 \<le> unat c" "unat d \<le> 4278190080" using ordered_range [OF o2(1), of c d] cd(1) o2(2) by auto
    have "unat x < unat e \<or> unat e + 12 \<le> unat x"
      using ordered_apart(1,2) [OF o2(1), of c d] cd bb(2) by fastforce
    then have "m1 x = ?m x" by (rule r(3))
    moreover have "m2 x = m1 x" using meta cd(2) range(1) by (simp add: meta_change_def)
    moreover have "virt v x = m2 x" using same [of x] cd(3) range(2) by simp
    ultimately show "heap s' x = ?m x" by (simp add: s')
  qed
  ultimately show thesis by (rule that)
qed

section \<open>Reallocation\<close>

lemma krealloc_in_place:
  assumes inv: "heap_inv True s (xs @ (q, qb) # (e, b) # ys)" and n: "sz \<noteq> 0" "unat sz \<le> 4294967280"
    and fits: "unat e + unat (allocation_size sz) \<le> start_of ys (heap_end (heap s))"
    and pages: "unat (allocation_size sz) div 4096 + 2 \<le> size (free_pages (vm s))"
  obtains s' b' where "krealloc copy (e + 12) sz s = Some (e + 12, s')" "unat b' = unat e + unat (allocation_size sz)"
    "heap_inv True s' (xs @ (q, qb) # (e, b') # ys)" "contents_kept (xs @ (q, qb) # ys) (heap s) (heap s')"
    "\<And>x. unat e + 12 \<le> unat x \<Longrightarrow> unat x < unat b \<Longrightarrow> unat x < unat b' \<Longrightarrow> heap s' x = heap s x"
proof -
  let ?n = "allocation_size sz" and ?es = "xs @ (q, qb) # (e, b) # ys"
  obtain s1 where i: "lock_kheap s = Some s1" "vm s1 = vm s" "paging_ok (vm s1)" "heap_list (heap s1) ?es"
    "free_ok True (heap s1) ?es" "mapped_ok (vm s1) ?es"
    using heap_inv_locked [OF inv] by metis
  note bb = block_bounds [OF i(4)]
  have fits1: "unat e + unat ?n \<le> start_of ys (heap_end (heap s1))" using fits i(2) by simp
  have b': "unat (e + ?n) = unat e + unat ?n" using fits1 bb(5) by (intro unat_add_small) linarith
  have n16: "unat sz + 12 \<le> unat ?n" using unat_allocation_size(2) [OF n(2)] .
  have sz0: "0 < unat sz" using n(1) by (simp add: unat_gt_0)
  have ne: "?n \<noteq> SIZEOF_ENTRY" using n16 sz0 by (auto simp: SIZEOF_ENTRY_def)
  have e12: "e + 12 \<noteq> 0" using bb(2,3,5) unat_plus_small [of e] by auto
  have size: "unat (b - e) = unat b - unat e" using bb(2) by (simp add: unat_sub word_le_nat_alt)
  have entry: "e + 12 - SIZEOF_ENTRY = e" by (simp add: SIZEOF_ENTRY_def)
  note start = krealloc_def i(1) Let_def entry bb(6) ne e12
  consider "?n = b - e" | "?n < b - e" | "b - e < ?n" by fastforce
  then show thesis
  proof cases
    case 1
    then have "krealloc copy (e + 12) sz s = Some (e + 12, unlock_kheap s1)" using ne by (simp add: start)
    moreover have "e + ?n = b" using 1 by simp
    ultimately show thesis using that [of "unlock_kheap s1" b] b' i by (simp add: heap_inv_def)
  next
    case 2
    then have less: "unat ?n < unat b - unat e" using size by (simp add: word_less_nat_alt)
    have lt: "unat e + 12 \<le> unat (e + ?n)" "unat (e + ?n) < unat b" using b' n16 less by linarith+
    obtain s' where s': "shrink_entry (e + 12) e ?n s1 = Some (e + 12, s')" "heap_inv True s' (xs @ (q, qb) # (e, e + ?n) # ys)"
      "contents_kept (xs @ (q, qb) # (e, e + ?n) # ys) (heap s1) (heap s')"
      using shrink_entry_ok [OF i(3-6) lt] by metis
    have "krealloc copy (e + 12) sz s = Some (e + 12, s')" using 2 s'(1) by (simp add: start)
    then show thesis using that [of s' "e + ?n"] b' s'(2,3) i(2) by (simp add: contents_kept_def)
  next
    case 3
    then have less: "unat b - unat e < unat ?n" using size by (simp add: word_less_nat_alt)
    have leb: "unat b \<le> unat e + unat ?n" using less bb(2) by linarith
    have pages1: "unat ?n div 4096 + 2 \<le> size (free_pages (vm s1))" using pages i(2) by simp
    obtain s' where s': "expand_entry (e + 12) e (b - e) ?n s1 = Some (e + 12, s')"
      "heap_inv True s' (xs @ (q, qb) # (e, e + ?n) # ys)" "contents_kept ?es (heap s1) (heap s')"
      using expand_entry_ok [OF i(3-6) b' leb fits1 pages1] by metis
    have hl: "heap_list (heap s1) ((xs @ [(q, qb)]) @ (e, b) # ys)" using i(4) by simp
    have "unat (?n - (b - e)) = unat ?n - (unat b - unat e)" using less size by (simp add: unat_sub word_le_nat_alt)
    then have "?n - (b - e) \<le> free_space (heap s1) e"
      unfolding word_le_nat_alt free_space_entry(3) [OF hl] using fits1 bb(2,3) by linarith
    moreover have "\<not> ?n < b - e" "?n \<noteq> b - e" using 3 by auto
    ultimately have "krealloc copy (e + 12) sz s = Some (e + 12, s')" using s'(1) by (simp add: start)
    then show thesis using that [of s' "e + ?n"] b' s'(2,3) i(2) by (simp add: contents_kept_def)
  qed
qed

end
