(* ===== verification/Heap_Properties.thy ===== *)
theory Heap_Properties
  imports Heap_Realloc
begin

text \<open>
  The properties of the kernel heap, on the invariant of \<open>Heap_Proofs\<close>, each with an instance on
  the heap that \<open>initialize_heap\<close> builds on four free pages.
\<close>

section \<open>The initial heap\<close>

lemma set_word_heap: "set_word a w s = on_heap (\<lambda>m. store32 m a w) s"
  by (simp add: set_word_def)

definition initial_mem :: "mem \<Rightarrow> mem" where
  "initial_mem m =
     (let m = store32 (store32 m MEMORY_START 0xC0800024) MEMORY_START FIRST_END;
          m = store32 (store32 m MEMORY_END VM_KERNEL_HEAP_END) MEMORY_SIZE (VM_KERNEL_HEAP_END - FIRST_END);
          m = store32 (store32 m FREE_MEMORY_START FIRST_END) FREE_MEMORY_SIZE (VM_KERNEL_HEAP_END - FIRST_END);
          m = store32 m INSERT_ENTRY FIRST_ENTRY
      in store32 (store32 (store32 m FIRST_ENTRY FIRST_END) (FIRST_ENTRY + 4) 0) (FIRST_ENTRY + 8) 0)"

lemma initial_mem:
  "load32 (initial_mem m) MEMORY_END = VM_KERNEL_HEAP_END" "load32 (initial_mem m) INSERT_ENTRY = FIRST_ENTRY"
  "load32 (initial_mem m) FREE_MEMORY_START = FIRST_END"
  "load32 (initial_mem m) FREE_MEMORY_SIZE = VM_KERNEL_HEAP_END - FIRST_END"
  "entry_end (initial_mem m) FIRST_ENTRY = FIRST_END" "entry_prev (initial_mem m) FIRST_ENTRY = 0"
  "entry_next (initial_mem m) FIRST_ENTRY = 0"
  "unat x < 3229614080 \<or> 3229614116 \<le> unat x \<Longrightarrow> initial_mem m x = m x"
  by (simp_all add: initial_mem_def Let_def heap_fields entry_end_def entry_prev_def entry_next_def
      load32_disjoint load32_store32) (elim disjE; simp add: store32_frame)

lemma initial_list:
  "heap_list (initial_mem m) [(FIRST_ENTRY, FIRST_END)]" "free_ok True (initial_mem m) [(FIRST_ENTRY, FIRST_END)]"
proof -
  have "heap_end (initial_mem m) = 3758096384" by (simp add: heap_end_def initial_mem(1) VM_KERNEL_HEAP_END_def)
  then show "heap_list (initial_mem m) [(FIRST_ENTRY, FIRST_END)]" "free_ok True (initial_mem m) [(FIRST_ENTRY, FIRST_END)]"
    by (simp_all add: heap_list_def free_ok_def initial_mem FIRST_END_def VM_KERNEL_HEAP_END_def Cons_eq_append_conv)
      (simp_all add: heap_fields)
qed

lemma initialize_heap_ok:
  assumes "paging_ok (vm s)" "free_pages (vm s) \<noteq> {#}"
  obtains s' where "initialize_heap s = Some s'" "heap_inv True s' [(FIRST_ENTRY, FIRST_END)]"
    "heap_end (heap s') = 3758096384" "size (free_pages (vm s)) \<le> size (free_pages (vm s')) + 1"
proof -
  have idx: "PAGE_OFFSET_MASK VM_KERNEL_HEAP_START = 0" "page_index VM_KERNEL_HEAP_START = 788480" "page_count SIZEOF_HEAP_METADATA = 1"
    by (simp_all add: PAGE_OFFSET_MASK_def VM_KERNEL_HEAP_START_def page_index_def page_count_def SIZEOF_HEAP_METADATA_def)
  have nz: "SIZEOF_HEAP_METADATA \<noteq> 0" by (simp add: SIZEOF_HEAP_METADATA_def)
  have one: "788480 \<le> i \<and> i < 788480 + 1 \<longleftrightarrow> i = 788480" for i :: nat by linarith
  have "1 \<le> size (free_pages (vm s))" using assms(2) by (simp add: Suc_le_eq nonempty_has_size)
  then obtain v where v: "vm_allocate_pages VM_KERNEL_HEAP_START SIZEOF_HEAP_METADATA VM_KERNEL (vm s) = Some v" "paging_ok v"
    "\<forall>i. present (table v i) \<longleftrightarrow> present (table (vm s) i) \<or> i = 788480"
    "size (free_pages (vm s)) \<le> size (free_pages v) + 1"
    using heap_range_mapped [OF assms(1) idx(1), of SIZEOF_HEAP_METADATA] nz unfolding idx one by auto
  let ?m = "initial_mem (virt v)"
  define s' where "s' = s\<lparr>vm := v\<lparr>virt := ?m\<rparr>, kheap_mutex := 0\<rparr>"
  have vm': "vm s' = v\<lparr>virt := ?m\<rparr>" by (simp add: s'_def)
  have init: "initialize_heap s = Some s'"
    using v(1) by (simp add: initialize_heap_def on_vm_def set_word_heap write_entry_mem on_heap_def s'_def initial_mem_def
        header_mem_def load32_store32 load32_disjoint heap_fields PAGE_OFFSET_MASK_def PAGE_MASK_def PAGE_SIZE_def
        FIRST_END_def VM_KERNEL_HEAP_END_def MUTEX_UNLOCKED_VALUE_def Let_def)
  have high: "?m a = virt v a" if "4278190080 \<le> unat a" for a
    using that by (intro initial_mem(8)) simp
  have "free_pages (v\<lparr>virt := ?m\<rparr>) = free_pages v"
    using heap_write(2) [of ?m v] high v(2) by (auto simp: paging_ok_def)
  moreover have "mapped_ok v [(FIRST_ENTRY, FIRST_END)]"
    using v(3) by (auto simp: mapped_ok_def page_index_def heap_fields FIRST_END_def)
  then have "heap_inv True s' [(FIRST_ENTRY, FIRST_END)]"
    using heap_write(3) [of ?m v] mapped_ok_write [of ?m v] high v(2) initial_list
    by (simp add: heap_inv_def s'_def)
  ultimately show thesis
    using v(4) init vm' by (intro that [of s']) (simp_all add: heap_end_def initial_mem(1) VM_KERNEL_HEAP_END_def)
qed

text \<open>Memory with all page tables of the kernel's part present, and a stack of eight free pages.\<close>

definition kernel_tables :: mem where
  "kernel_tables x = (if 4294966280 \<le> unat x \<and> unat x < 4294967280 \<and> unat x mod 4 = 0 then 7 else 0)"

definition eight_pages :: mem where
  "eight_pages = fold (\<lambda>i m. store32 m (slot i) (0x5000 + 0x1000 * of_nat i)) [0..<8] kernel_tables"

definition booted :: allocators where
  "booted = \<lparr>vm = \<lparr>free_map = [], virt = eight_pages, phys = (\<lambda>_. 0), pm_stack_pointer = slot 8,
       pm_stack_last_entry = slot 8, pm_stack_mutex = 0, number_of_all_pages = 8, number_of_allocated_pages = 0,
       physical_pages_stack = replicate 256 0, pm_functions = Direct_functions\<rparr>,
     cpu = \<lparr>core_locking = False, in_interrupt = False, depth_of_lock = 0, interrupt_flag = False\<rparr>,
     temporary_kernel_allocator_base = 0, temporary_kernel_allocator_free_size = 0, temp_alloc_mutex = 0,
     permanent_kernel_allocator_base = VM_PERM_ALLOCATOR_END, perm_allocator_num_of_allocations = 0,
     perm_allocator_requested_size = 0, perm_allocator_real_size = 0, perm_allocator_phy_mem_mapped = 0,
     perm_alloc_mutex = 0, kheap_mutex = 0, block_alloc_cells = 0, block_alloc_mutex = 0\<rparr>"

lemma load32_kernel_tables:
  "i < 1048576 \<Longrightarrow> load32 kernel_tables (pte_at i) = (if 1048322 \<le> i \<and> i < 1048572 then 7 else 0)"
proof -
  assume i: "i < 1048576"
  have "unat (pte_at i + k) = unat (pte_at i) + unat k" if "unat k < 4" for k
    using that i by (intro unat_add_small) (simp add: unat_pte_at)
  then have "unat (pte_at i + 1) = 4290772993 + 4 * i" "unat (pte_at i + 2) = 4290772994 + 4 * i"
    "unat (pte_at i + 3) = 4290772995 + 4 * i"
    using i by (simp_all add: unat_pte_at)
  moreover have "(4290772992 + 4 * i) mod 4 = 0" "(4290772993 + 4 * i) mod 4 = 1" "(4290772994 + 4 * i) mod 4 = 2"
    "(4290772995 + 4 * i) mod 4 = 3" by presburger+
  ultimately show ?thesis using i by (auto simp: load32_def kernel_tables_def unat_pte_at)
qed

lemma eight_pages:
  "\<not> in_stack a \<Longrightarrow> eight_pages a = kernel_tables a"
  "slots eight_pages 8 = [0x5000, 0x6000, 0x7000, 0x8000, 0x9000, 0xA000, 0xB000, 0xC000]"
  by (simp_all add: eight_pages_def upt_rec store32_slot_frame slots_def load32_slot)

lemma booted:
  "table (vm booted) i = (if 1048322 \<le> i \<and> i < 1048572 then 7 else 0)"
  "free_pages (vm booted) = {#0x5000, 0x6000, 0x7000, 0x8000, 0x9000, 0xA000, 0xB000, 0xC000#}"
  "paging_ok (vm booted)"
proof -
  show t: "table (vm booted) i = (if 1048322 \<le> i \<and> i < 1048572 then 7 else 0)" for i
  proof -
    have "table (vm booted) = table ((vm booted)\<lparr>virt := kernel_tables\<rparr>)"
      by (rule table_stack) (simp add: booted_def eight_pages)
    then show ?thesis by (simp add: table_def load32_kernel_tables)
  qed
  have c: "pm_count (vm booted) = 8" by (rule pm_count_slot) (simp_all add: booted_def)
  have ready: "pm_ready (vm booted)"
    using c by (auto simp: pm_ready_def pm_wf_def stack_ok_def local_pages_def booted_def intro!: exI [of _ 8])
  have "virt (vm booted) = eight_pages" by (simp add: booted_def)
  then have "global_pages (vm booted) = [0x5000, 0x6000, 0x7000, 0x8000, 0x9000, 0xA000, 0xB000, 0xC000]"
    using c by (simp add: global_pages_def eight_pages)
  moreover have "local_pages (vm booted) = []" by (simp add: local_pages_def booted_def)
  ultimately show f: "free_pages (vm booted) = {#0x5000, 0x6000, 0x7000, 0x8000, 0x9000, 0xA000, 0xB000, 0xC000#}"
    by (simp add: free_pages_def)
  have "mapped (vm booted) = {}" by (simp add: mapped_def t present_def vm_flags)
  moreover have "pm_capacity (vm booted) = 8" by (simp add: pm_capacity_def booted_def slot_def)
  ultimately show "paging_ok (vm booted)"
    using ready by (simp add: paging_ok_def f t present_def vm_flags PAGE_OFFSET_MASK_def)
qed

lemma booted_heap:
  obtains s where "initialize_heap booted = Some s" "heap_inv True s [(FIRST_ENTRY, FIRST_END)]"
    "heap_end (heap s) = 3758096384" "7 \<le> size (free_pages (vm s))"
proof -
  have "free_pages (vm booted) \<noteq> {#}" and eight: "size (free_pages (vm booted)) = 8" by (simp_all add: booted)
  from booted(3) this(1) show thesis
  proof (rule initialize_heap_ok)
    fix s' assume "initialize_heap booted = Some s'" "heap_inv True s' [(FIRST_ENTRY, FIRST_END)]"
      "heap_end (heap s') = 3758096384" "size (free_pages (vm booted)) \<le> size (free_pages (vm s')) + 1"
    then show thesis using eight by (intro that) simp_all
  qed
qed

section \<open>Properties\<close>

text \<open>
  C26. \<open>initialize_heap\<close> returns whenever a page is free, and the heap it leaves satisfies the
  invariant: one entry of the metadata's page, everything up to \<open>VM_KERNEL_HEAP_END\<close> free, and
  the size of the free space in the metadata is the real one.
\<close>

theorem initialize_heap_establishes_invariant:
  assumes "paging_ok (vm s)" "free_pages (vm s) \<noteq> {#}"
  shows "\<exists>s'. initialize_heap s = Some s' \<and> heap_inv True s' [(FIRST_ENTRY, FIRST_END)]
    \<and> heap_end (heap s') = unat VM_KERNEL_HEAP_END"
proof -
  have "unat VM_KERNEL_HEAP_END = 3758096384" by (simp add: VM_KERNEL_HEAP_END_def)
  then show ?thesis using initialize_heap_ok [OF assms] by metis
qed

theorem initialize_heap_establishes_invariant_witness:
  "\<exists>s'. initialize_heap booted = Some s' \<and> heap_inv True s' [(FIRST_ENTRY, FIRST_END)]"
  using initialize_heap_establishes_invariant [OF booted(3)] by (auto simp: booted(2))

text \<open>
  C1. \<open>kalloc\<close> returns on every heap that satisfies the invariant, whatever the size below the
  overflow of \<open>size + 15\<close>, and keeps the invariant and the contents of every block. A block it
  returns starts at the end of an existing entry, is disjoint from every entry, has room for the
  metadata and the requested bytes, lies on mapped pages and is full of zeros.
\<close>

theorem kalloc_gives_fresh_block:
  assumes "heap_inv ex s es" "sz \<noteq> 0" "unat sz \<le> 4294967280"
    "(unat sz + 15) div 4096 + 2 \<le> size (free_pages (vm s))"
  shows "\<exists>p s'. kalloc sz s = Some (p, s') \<and> contents_kept es (heap s) (heap s')
    \<and> (p = 0 \<and> heap_inv ex s' es \<or>
       (\<exists>xs q e b ys. es = xs @ (q, e) # ys \<and> p = e + 12 \<and> heap_inv ex s' (xs @ (q, e) # (e, b) # ys)
          \<and> unat e + 12 + unat sz \<le> unat b
          \<and> (\<forall>c d. (c, d) \<in> set es \<longrightarrow> unat d \<le> unat e \<or> unat b \<le> unat c)
          \<and> (\<forall>i. page_index e \<le> i \<and> i \<le> (unat b - 1) div 4096 \<longrightarrow> present (table (vm s') i))
          \<and> cleared (heap s') (unat e + 12) (unat b)))"
  using assms
proof (rule kalloc_cases)
  fix s' assume "kalloc sz s = Some (0, s')" "heap_inv ex s' es" "contents_kept es (heap s) (heap s')"
  then show ?thesis by blast
next
  fix xs q e ys b s'
  assume es: "es = xs @ (q, e) # ys" and r: "kalloc sz s = Some (e + 12, s')" "contents_kept es (heap s) (heap s')"
    and b: "unat b = unat e + unat (allocation_size sz)" and inv: "heap_inv ex s' (xs @ (q, e) # (e, b) # ys)"
    and c: "cleared (heap s') (unat e + 12) (unat b)"
  have "ordered 3229614104 ((xs @ [(q, e)]) @ (e, b) # ys) (heap_end (heap s'))"
    using inv by (simp add: heap_inv_def heap_list_def)
  note apart = ordered_apart [OF this]
  have "unat q \<le> unat e" using inv by (auto simp: heap_inv_def heap_list_def ordered_append)
  then have "\<forall>c d. (c, d) \<in> set es \<longrightarrow> unat d \<le> unat e \<or> unat b \<le> unat c"
    using apart(1,2) by (auto simp: es dest: apart(1) apart(2))
  moreover have "\<forall>i. page_index e \<le> i \<and> i \<le> (unat b - 1) div 4096 \<longrightarrow> present (table (vm s') i)"
    using inv by (auto simp: heap_inv_def mapped_ok_def)
  moreover have "unat e + 12 + unat sz \<le> unat b" using b unat_allocation_size(2) [OF assms(3)] by simp
  ultimately show ?thesis using es r inv c by blast
qed

theorem kalloc_gives_fresh_block_witness:
  "\<exists>s p s'. initialize_heap booted = Some s \<and> kalloc 100 s = Some (p, s')
    \<and> contents_kept [(FIRST_ENTRY, FIRST_END)] (heap s) (heap s')"
proof -
  obtain s where s: "initialize_heap booted = Some s" "heap_inv True s [(FIRST_ENTRY, FIRST_END)]"
    "7 \<le> size (free_pages (vm s))" by (rule booted_heap)
  show ?thesis using kalloc_gives_fresh_block [OF s(2), of 100] s(1,3) by fastforce
qed

text \<open>
  C21. \<open>kalloc\<close> refuses a request only when it must: it returns NULL exactly when the free space
  after every entry is smaller than the aligned request with its metadata.
\<close>

theorem kalloc_null_iff_nothing_fits:
  assumes "heap_inv ex s es" "sz \<noteq> 0" "unat sz \<le> 4294967280"
    "(unat sz + 15) div 4096 + 2 \<le> size (free_pages (vm s))"
  shows "(\<exists>s'. kalloc sz s = Some (0, s')) \<longleftrightarrow>
    (\<forall>xs q e ys. es = xs @ (q, e) # ys \<longrightarrow> start_of ys (heap_end (heap s)) - unat e < 4 * ((unat sz + 15) div 4))"
  using assms
proof (rule kalloc_cases)
  fix s' assume "kalloc sz s = Some (0, s')"
    "\<And>xs q qb ys. es = xs @ (q, qb) # ys \<Longrightarrow> start_of ys (heap_end (heap s)) - unat qb < unat (allocation_size sz)"
  then show ?thesis unfolding unat_allocation_size(1) [OF assms(3)] by blast
next
  fix xs q e ys b s'
  assume es: "es = xs @ (q, e) # ys" and r: "kalloc sz s = Some (e + 12, s')"
    and b: "unat b = unat e + unat (allocation_size sz)" "unat b \<le> start_of ys (heap_end (heap s))"
    and inv: "heap_inv ex s' (xs @ (q, e) # (e, b) # ys)"
  have "ordered 3229614104 ((xs @ [(q, e)]) @ (e, b) # ys) (heap_end (heap s'))" "heap_end (heap s') \<le> 4278190080"
    using inv by (simp_all add: heap_inv_def heap_list_def)
  note apart = ordered_apart(3-6) [OF this(1)] this(2)
  have "unat (e + 12) = unat e + 12" using apart by (intro unat_add_small [THEN trans]) simp_all
  then have "e + 12 \<noteq> 0" by (auto simp: unat_eq_0 [symmetric] simp del: unat_eq_0)
  moreover have "\<not> start_of ys (heap_end (heap s)) - unat e < 4 * ((unat sz + 15) div 4)"
    using b unfolding unat_allocation_size(1) [OF assms(3)] by linarith
  ultimately show ?thesis using r es by (metis option.inject prod.inject)
qed

theorem kalloc_null_iff_nothing_fits_witness:
  "\<exists>s. initialize_heap booted = Some s \<and> \<not> (\<exists>s'. kalloc 100 s = Some (0, s'))"
proof -
  obtain s where s: "initialize_heap booted = Some s" "heap_inv True s [(FIRST_ENTRY, FIRST_END)]"
    "heap_end (heap s) = 3758096384" "7 \<le> size (free_pages (vm s))" by (rule booted_heap)
  have "\<not> start_of [] (heap_end (heap s)) - unat FIRST_END < 4 * ((100 + 15) div 4)" by (simp add: s(3) FIRST_END_def)
  then show ?thesis using kalloc_null_iff_nothing_fits [OF s(2), of 100] s(1,4) by fastforce
qed

text \<open>
  C4. \<open>kfree\<close> of any entry but the first returns, unlinks exactly this entry, keeps the
  invariant (in particular the metadata's free space stays a free space of the list) and leaves
  the contents of all the other blocks alone.
\<close>

theorem kfree_removes_block:
  assumes "heap_inv ex s (xs @ (q, qb) # (e, b) # ys)"
  shows "\<exists>s'. kfree (e + 12) s = Some s' \<and> heap_inv ex s' (xs @ (q, qb) # ys)
    \<and> contents_kept (xs @ (q, qb) # ys) (heap s) (heap s')"
  using kfree_ok [OF assms] by metis

theorem kfree_removes_block_witness:
  "\<exists>s p s1 s2. initialize_heap booted = Some s \<and> kalloc 100 s = Some (p, s1) \<and> kfree p s1 = Some s2
    \<and> heap_inv True s2 [(FIRST_ENTRY, FIRST_END)]"
proof -
  obtain s where s: "initialize_heap booted = Some s" "heap_inv True s [(FIRST_ENTRY, FIRST_END)]"
    "heap_end (heap s) = 3758096384" "7 \<le> size (free_pages (vm s))" by (rule booted_heap)
  show ?thesis
  proof (rule kalloc_cases [OF s(2), of 100])
    show "(unat (100 :: u32) + 15) div 4096 + 2 \<le> size (free_pages (vm s))" using s(4) by simp
  next
    fix s1 assume *: "kalloc 100 s = Some (0, s1)" "heap_inv True s1 [(FIRST_ENTRY, FIRST_END)]"
    then show ?thesis using s(1) by (auto simp: kfree_def)
  next
    fix xs q e ys b s1
    assume es: "[(FIRST_ENTRY, FIRST_END)] = xs @ (q, e) # ys" and k: "kalloc 100 s = Some (e + 12, s1)"
      and inv: "heap_inv True s1 (xs @ (q, e) # (e, b) # ys)"
    obtain s2 where "kfree (e + 12) s1 = Some s2" "heap_inv True s2 (xs @ (q, e) # ys)"
      using kfree_removes_block [OF inv] by blast
    then show ?thesis using s(1) k es by metis
  qed simp_all
qed

text \<open>
  C20. Allocating and freeing are inverse: \<open>kfree\<close> of what \<open>kalloc\<close> returned succeeds and gives
  back the heap of before, the list of entries, the invariant and every block's contents.
\<close>

theorem kalloc_kfree_round_trip:
  assumes "heap_inv ex s es" "sz \<noteq> 0" "unat sz \<le> 4294967280"
    "(unat sz + 15) div 4096 + 2 \<le> size (free_pages (vm s))" "kalloc sz s = Some (p, s1)"
  shows "\<exists>s2. kfree p s1 = Some s2 \<and> heap_inv ex s2 es \<and> contents_kept es (heap s) (heap s2)"
  using assms(1-4)
proof (rule kalloc_cases)
  fix s' assume "kalloc sz s = Some (0, s')" "heap_inv ex s' es" "contents_kept es (heap s) (heap s')"
  then show ?thesis using assms(5) by (simp add: kfree_def)
next
  fix xs q e ys b s'
  assume *: "es = xs @ (q, e) # ys" "kalloc sz s = Some (e + 12, s')" "contents_kept es (heap s) (heap s')"
    "heap_inv ex s' (xs @ (q, e) # (e, b) # ys)"
  obtain s2 where "kfree (e + 12) s' = Some s2" "heap_inv ex s2 es" "contents_kept es (heap s') (heap s2)"
    using kfree_ok [OF *(4)] *(1) by metis
  then show ?thesis using *(2,3) assms(5) by (auto simp: contents_kept_def)
qed

theorem kalloc_kfree_round_trip_witness:
  "\<exists>s p s1 s2. initialize_heap booted = Some s \<and> kalloc 5000 s = Some (p, s1) \<and> kfree p s1 = Some s2
    \<and> heap_inv True s2 [(FIRST_ENTRY, FIRST_END)] \<and> contents_kept [(FIRST_ENTRY, FIRST_END)] (heap s) (heap s2)"
proof -
  obtain s where s: "initialize_heap booted = Some s" "heap_inv True s [(FIRST_ENTRY, FIRST_END)]"
    "heap_end (heap s) = 3758096384" "7 \<le> size (free_pages (vm s))" by (rule booted_heap)
  have pages: "(unat (5000 :: u32) + 15) div 4096 + 2 \<le> size (free_pages (vm s))" using s(4) by simp
  obtain p s1 where k: "kalloc 5000 s = Some (p, s1)"
    by (rule kalloc_cases [OF s(2) _ _ pages], simp, simp) blast+
  then show ?thesis using kalloc_kfree_round_trip [OF s(2) _ _ pages k] s(1) by fastforce
qed

text \<open>
  C8. \<open>aligned_kalloc\<close> with a power of two from 8 bytes to 8 megabytes returns on every heap that
  satisfies the exact invariant and keeps it, with the contents of every block. A block it
  returns is aligned, lies in the free space after an entry with its metadata below it, has the
  requested size and is full of zeros.
\<close>

theorem aligned_kalloc_aligns:
  assumes "heap_inv True s es" "3 \<le> k" "k \<le> 23" "sz \<noteq> 0" "(unat sz + 12) div 4096 + 2 \<le> size (free_pages (vm s))"
  shows "\<exists>p s'. aligned_kalloc (2 ^ k) sz s = Some (p, s') \<and> contents_kept es (heap s) (heap s')
    \<and> (p = 0 \<and> heap_inv True s' es \<or>
       (\<exists>xs q e b ys. es = xs @ (q, e) # ys \<and> heap_inv True s' (xs @ (q, e) # (p - 12, b) # ys)
          \<and> unat p mod 2 ^ k = 0 \<and> unat e + 12 \<le> unat p \<and> unat b = unat p + unat sz
          \<and> unat b \<le> start_of ys (heap_end (heap s)) \<and> cleared (heap s') (unat p) (unat b)))"
  using assms
proof (rule aligned_kalloc_cases)
  fix s' assume "aligned_kalloc (2 ^ k) sz s = Some (0, s')" "heap_inv True s' es" "contents_kept es (heap s) (heap s')"
  then show ?thesis by blast
next
  fix xs q e ys st b s'
  assume *: "es = xs @ (q, e) # ys" "aligned_kalloc (2 ^ k) sz s = Some (st, s')"
    "aligned_place sz k e st (start_of ys (heap_end (heap s)))" "unat b = unat st + unat sz"
    "heap_inv True s' (xs @ (q, e) # (st - 12, b) # ys)" "contents_kept es (heap s) (heap s')"
    "cleared (heap s') (unat st) (unat b)"
  then have "unat st mod 2 ^ k = 0" "unat e + 12 \<le> unat st" "unat b \<le> start_of ys (heap_end (heap s))"
    by (simp_all add: aligned_place_def)
  then show ?thesis using *
    by (intro exI [of _ st] exI [of _ s'] conjI disjI2 exI [of _ xs] exI [of _ q] exI [of _ e] exI [of _ b] exI [of _ ys])
qed

theorem aligned_kalloc_aligns_witness:
  "\<exists>s p s'. initialize_heap booted = Some s \<and> aligned_kalloc 4096 100 s = Some (p, s')
    \<and> contents_kept [(FIRST_ENTRY, FIRST_END)] (heap s) (heap s')"
proof -
  obtain s where s: "initialize_heap booted = Some s" "heap_inv True s [(FIRST_ENTRY, FIRST_END)]"
    "heap_end (heap s) = 3758096384" "7 \<le> size (free_pages (vm s))" by (rule booted_heap)
  have pages: "(unat (100 :: u32) + 12) div 4096 + 2 \<le> size (free_pages (vm s))" using s(4) by simp
  have "(2 :: u32) ^ 12 = 4096" by simp
  then show ?thesis using aligned_kalloc_aligns [OF s(2) _ _ _ pages, of 12] s(1) by fastforce
qed

text \<open>
  C7. \<open>krealloc\<close> of a block whose new size fits before the next entry, smaller or bigger, returns
  the same address, gives the block the new size, keeps the exact invariant, the contents of all
  other blocks, and the bytes of the block itself up to the smaller of its two sizes.
\<close>

theorem krealloc_resizes_in_place:
  assumes "heap_inv True s (xs @ (q, qb) # (e, b) # ys)" "sz \<noteq> 0" "unat sz \<le> 4294967280"
    "unat e + unat (allocation_size sz) \<le> start_of ys (heap_end (heap s))"
    "unat (allocation_size sz) div 4096 + 2 \<le> size (free_pages (vm s))"
  shows "\<exists>s' b'. krealloc copy (e + 12) sz s = Some (e + 12, s') \<and> unat b' = unat e + unat (allocation_size sz)
    \<and> heap_inv True s' (xs @ (q, qb) # (e, b') # ys) \<and> contents_kept (xs @ (q, qb) # ys) (heap s) (heap s')
    \<and> (\<forall>x. unat e + 12 \<le> unat x \<and> unat x < min (unat b) (unat b') \<longrightarrow> heap s' x = heap s x)"
proof -
  obtain s' b' where *: "krealloc copy (e + 12) sz s = Some (e + 12, s')" "unat b' = unat e + unat (allocation_size sz)"
    "heap_inv True s' (xs @ (q, qb) # (e, b') # ys)" "contents_kept (xs @ (q, qb) # ys) (heap s) (heap s')"
    "\<And>x. unat e + 12 \<le> unat x \<Longrightarrow> unat x < unat b \<Longrightarrow> unat x < unat b' \<Longrightarrow> heap s' x = heap s x"
    by (rule krealloc_in_place [OF assms, where copy = copy]) blast
  then have "\<forall>x. unat e + 12 \<le> unat x \<and> unat x < min (unat b) (unat b') \<longrightarrow> heap s' x = heap s x" by simp
  then show ?thesis using *(1-4) by blast
qed

theorem krealloc_resizes_in_place_witness:
  "\<exists>s p s1 s2. initialize_heap booted = Some s \<and> kalloc 100 s = Some (p, s1) \<and> krealloc memcpy_i386 p 50 s1 = Some (p, s2)"
proof -
  obtain s where s: "initialize_heap booted = Some s" "heap_inv True s [(FIRST_ENTRY, FIRST_END)]"
    "heap_end (heap s) = 3758096384" "7 \<le> size (free_pages (vm s))" by (rule booted_heap)
  have pages: "(unat (100 :: u32) + 15) div 4096 + 2 \<le> size (free_pages (vm s))" using s(4) by simp
  show ?thesis
  proof (rule kalloc_cases [OF s(2) _ _ pages])
    fix s1 assume k: "kalloc 100 s = Some (0, s1)"
    have "\<not> start_of [] (heap_end (heap s)) - unat FIRST_END < 4 * ((100 + 15) div 4)" by (simp add: s(3) FIRST_END_def)
    moreover assume "\<And>xs q qb ys. [(FIRST_ENTRY, FIRST_END)] = xs @ (q, qb) # ys \<Longrightarrow>
      start_of ys (heap_end (heap s)) - unat qb < unat (allocation_size 100)"
    from this [of "[]"] have "start_of [] (heap_end (heap s)) - unat FIRST_END < unat (allocation_size 100)" by simp
    ultimately show ?thesis by (simp add: unat_allocation_size(1))
  next
    fix xs q e ys b s1
    assume es: "[(FIRST_ENTRY, FIRST_END)] = xs @ (q, e) # ys" and k: "kalloc 100 s = Some (e + 12, s1)"
      and b: "unat b = unat e + unat (allocation_size 100)" and inv: "heap_inv True s1 (xs @ (q, e) # (e, b) # ys)"
      and free: "size (free_pages (vm s)) \<le> size (free_pages (vm s1)) + ((unat (100 :: u32) + 15) div 4096 + 2)"
    have sizes: "unat (allocation_size 100) = 112" "unat (allocation_size 50) = 64" by (simp_all add: unat_allocation_size(1))
    have "unat e + unat (allocation_size 50) \<le> start_of ys (heap_end (heap s1))"
      using block_bounds(3) [of "heap s1" xs q e e b ys] inv b sizes by (simp add: heap_inv_def)
    moreover have "unat (allocation_size 50) div 4096 + 2 \<le> size (free_pages (vm s1))" using free s(4) sizes by simp
    ultimately obtain s2 where "krealloc memcpy_i386 (e + 12) 50 s1 = Some (e + 12, s2)"
      using krealloc_resizes_in_place [OF inv, of 50 memcpy_i386] by auto
    then show ?thesis using s(1) k by blast
  qed simp_all
qed
end
