(* ===== verification/Scheduler.thy ===== *)
theory Scheduler
  imports Heap_Properties
begin

text \<open>
  The scheduler of \<open>source/kernel/hardware/devices/cpu/scheduler.c\<close> as one logical processor runs
  it, every call in one piece. Threads, processes and the structures of the processors are
  records, found by the addresses that the allocators of \<open>Kernel_Heap\<close> return for them; stacks,
  the counters of threads in a page directory and the list of pointers to clean are in the kernel's
  memory. The time an operation reads is its argument \<open>now\<close>, what it sends to interrupt
  controllers and timers is appended to \<open>events\<close>. \<open>None\<close> is a panic or a loop that does not end.
\<close>

section \<open>State\<close>

datatype scheduler_state = SCHEDULER_STATE_KERNEL | SCHEDULER_STATE_USER | SCHEDULER_STATE_IDLE

record kernel_thread =
  kt_next :: u32
  kt_id :: u32
  kt_page_directory :: u32
  kt_kernel_stack :: u32
  kt_stack_pointer :: u32
  kt_is_blocked :: bool
  kt_kill_me :: bool
  kt_sleeping :: bool
  kt_time_end_of_sleep :: u32

record kernel_thread_list =
  kl_number_of_running_threads :: u32
  kl_current_thread :: u32
  kl_threads :: u32

record user_thread =
  ut_next :: u32
  ut_page_directory :: u32
  ut_number_of_threads_in_page_directory :: u32
  ut_creation_thread_id :: u32
  ut_id :: u32
  ut_kernel_stack :: u32
  ut_stack_pointer :: u32
  ut_is_blocked :: bool
  ut_delete_me :: bool
  ut_delete_signal_running :: bool
  ut_kill_me :: bool
  ut_sleeping :: bool
  ut_delete_signal_handler :: u32
  ut_time_start_of_running :: u32
  ut_time_of_running :: u32
  ut_time_end_of_sleep :: u32

record user_thread_list =
  ul_number_of_running_threads :: u32
  ul_tid_bitmap :: u32
  ul_current_thread :: u32
  ul_threads :: u32

record process =
  pr_next :: u32
  pr_is_blocked :: bool
  pr_running_executable :: u32
  pr_main_thread :: u32
  pr_number_of_threads :: u32
  pr_thread_lists :: "user_thread_list list"

record interrupt_thread =
  it_page_directory :: u32
  it_kernel_stack :: u32
  it_stack_pointer :: u32
  it_function :: u32

text \<open>A pointer to \<open>interrupt_thread_handlers[n]\<close> is \<open>Some n\<close>.\<close>

record interrupt_thread_handler =
  ih_next :: "nat option"
  ih_interrupt_thread :: u32
  ih_processor_index :: nat

record logical_processor =
  lp_hardware_id :: u32
  lp_esp0 :: u32
  lp_idle_thread_stack :: u32
  lp_scheduler_state :: scheduler_state
  lp_running_thread_state :: scheduler_state
  lp_checking_process :: u32
  lp_current_process :: u32
  lp_current_kernel_thread :: u32
  lp_current_user_thread :: u32
  lp_current_interrupt_thread_handler :: "nat option"
  lp_in_interrupt_thread_handler :: bool
  lp_pointers_to_clean :: u32
  lp_cleaning_thread :: u32

datatype event = Ipi u32 nat | Oneshot nat nat | Eoi | Pic_eoi nat | Software_interrupt nat

record scheduler =
  allocs :: allocators
  kernel_threads :: "kernel_thread_list list"
  processes :: u32
  kernel_tid_map :: "bool list"
  kthreads :: "u32 \<Rightarrow> kernel_thread"
  uthreads :: "u32 \<Rightarrow> user_thread"
  procs :: "u32 \<Rightarrow> process"
  ithreads :: "u32 \<Rightarrow> interrupt_thread"
  interrupt_thread_handlers :: "nat \<Rightarrow> interrupt_thread_handler"
  logical_processors :: "logical_processor list"
  this_processor :: nat
  cr3 :: u32
  events :: "event list"

definition KERNEL_STACK_SIZE :: u32 where "KERNEL_STACK_SIZE = 1024 * 32"
definition MAX_NUMBER_OF_THREADS_PER_PROCESSOR :: nat where "MAX_NUMBER_OF_THREADS_PER_PROCESSOR = 4096"
definition INTERRUPT_PREEMPETIVE_SCHEDULING :: nat where "INTERRUPT_PREEMPETIVE_SCHEDULING = 0xFB"
definition INTERRUPT_VECTOR_SCHEDULER :: nat where "INTERRUPT_VECTOR_SCHEDULER = 0xFD"
definition PM_KERNEL_BASE_PAGE_DIRECTORY :: u32 where "PM_KERNEL_BASE_PAGE_DIRECTORY = 0x4000"
definition SIZEOF_INTERRUPT_THREAD :: u32 where "SIZEOF_INTERRUPT_THREAD = 16"
definition SIZEOF_KERNEL_THREAD :: u32 where "SIZEOF_KERNEL_THREAD = 28"
definition SIZEOF_USER_THREAD :: u32 where "SIZEOF_USER_THREAD = 52"
definition SIZEOF_INTERRUPT_STACK :: u32 where "SIZEOF_INTERRUPT_STACK = 76"
definition SIZEOF_KERNEL_INTERRUPT_STACK :: u32 where "SIZEOF_KERNEL_INTERRUPT_STACK = 68"

abbreviation processor :: "scheduler \<Rightarrow> logical_processor" where
  "processor s \<equiv> logical_processors s ! this_processor s"

definition processor_at :: "nat \<Rightarrow> (logical_processor \<Rightarrow> logical_processor) \<Rightarrow> scheduler \<Rightarrow> scheduler" where
  "processor_at i f s = s\<lparr>logical_processors := (logical_processors s)[i := f (logical_processors s ! i)]\<rparr>"

definition on_processor :: "(logical_processor \<Rightarrow> logical_processor) \<Rightarrow> scheduler \<Rightarrow> scheduler" where
  "on_processor f s = processor_at (this_processor s) f s"

definition on_kernel_thread :: "u32 \<Rightarrow> (kernel_thread \<Rightarrow> kernel_thread) \<Rightarrow> scheduler \<Rightarrow> scheduler" where
  "on_kernel_thread p f s = s\<lparr>kthreads := (kthreads s)(p := f (kthreads s p))\<rparr>"

definition on_user_thread :: "u32 \<Rightarrow> (user_thread \<Rightarrow> user_thread) \<Rightarrow> scheduler \<Rightarrow> scheduler" where
  "on_user_thread p f s = s\<lparr>uthreads := (uthreads s)(p := f (uthreads s p))\<rparr>"

definition on_process :: "u32 \<Rightarrow> (process \<Rightarrow> process) \<Rightarrow> scheduler \<Rightarrow> scheduler" where
  "on_process p f s = s\<lparr>procs := (procs s)(p := f (procs s p))\<rparr>"

definition on_kernel_list :: "nat \<Rightarrow> (kernel_thread_list \<Rightarrow> kernel_thread_list) \<Rightarrow> scheduler \<Rightarrow> scheduler" where
  "on_kernel_list i f s = s\<lparr>kernel_threads := (kernel_threads s)[i := f (kernel_threads s ! i)]\<rparr>"

definition on_user_list :: "u32 \<Rightarrow> nat \<Rightarrow> (user_thread_list \<Rightarrow> user_thread_list) \<Rightarrow> scheduler \<Rightarrow> scheduler" where
  "on_user_list p i f = on_process p (\<lambda>r. r\<lparr>pr_thread_lists := (pr_thread_lists r)[i := f (pr_thread_lists r ! i)]\<rparr>)"

definition in_memory :: "(allocators \<Rightarrow> allocators) \<Rightarrow> scheduler \<Rightarrow> scheduler" where
  "in_memory f s = s\<lparr>allocs := f (allocs s)\<rparr>"

definition allocating :: "(allocators \<Rightarrow> ('a \<times> allocators) option) \<Rightarrow> scheduler \<Rightarrow> ('a \<times> scheduler) option" where
  "allocating f s = map_option (\<lambda>(r, a). (r, s\<lparr>allocs := a\<rparr>)) (f (allocs s))"

definition freeing :: "(allocators \<Rightarrow> allocators option) \<Rightarrow> scheduler \<Rightarrow> scheduler option" where
  "freeing f s = map_option (\<lambda>a. s\<lparr>allocs := a\<rparr>) (f (allocs s))"

definition emit :: "event \<Rightarrow> scheduler \<Rightarrow> scheduler" where
  "emit e s = s\<lparr>events := events s @ [e]\<rparr>"

definition set_in_interrupt :: "bool \<Rightarrow> scheduler \<Rightarrow> scheduler" where
  "set_in_interrupt b = in_memory (\<lambda>a. a\<lparr>cpu := (cpu a)\<lparr>in_interrupt := b\<rparr>\<rparr>)"

definition lock_this_core :: "scheduler \<Rightarrow> scheduler" where
  "lock_this_core = in_memory (\<lambda>a. a\<lparr>cpu := lock_core (cpu a)\<rparr>)"

definition unlock_this_core :: "scheduler \<Rightarrow> scheduler" where
  "unlock_this_core = in_memory (\<lambda>a. a\<lparr>cpu := unlock_core (cpu a)\<rparr>)"

definition lock_checking_process :: "nat \<Rightarrow> scheduler \<Rightarrow> scheduler option" where
  "lock_checking_process i s =
     map_option (\<lambda>lock. processor_at i (\<lambda>p. p\<lparr>lp_checking_process := lock\<rparr>) s)
       (lock_mutex (lp_checking_process (logical_processors s ! i)))"

definition unlock_checking_process :: "nat \<Rightarrow> scheduler \<Rightarrow> scheduler" where
  "unlock_checking_process i = processor_at i (\<lambda>p. p\<lparr>lp_checking_process := unlock_mutex (lp_checking_process p)\<rparr>)"

lemmas sched_updates = on_processor_def processor_at_def on_kernel_thread_def on_user_thread_def on_process_def
  on_kernel_list_def in_memory_def emit_def set_in_interrupt_def

section \<open>Cleaning\<close>

definition unblock_kernel_thread :: "u32 \<Rightarrow> scheduler \<Rightarrow> scheduler" where
  "unblock_kernel_thread thread = on_kernel_thread thread (\<lambda>t. t\<lparr>kt_is_blocked := False\<rparr>)"

definition add_pointer_to_clean :: "u32 \<Rightarrow> scheduler \<Rightarrow> scheduler" where
  "add_pointer_to_clean ptr s =
     (if ptr = 0 then s
      else let s = lock_this_core s;
               s = in_memory (set_word ptr (lp_pointers_to_clean (processor s))) s;
               s = on_processor (\<lambda>p. p\<lparr>lp_pointers_to_clean := ptr\<rparr>) s;
               s = unblock_kernel_thread (lp_cleaning_thread (processor s)) s
        in unlock_this_core s)"

partial_function (option) free_pointers :: "u32 \<Rightarrow> allocators \<Rightarrow> allocators option" where
  "free_pointers ptr a =
     (if ptr = 0 then Some a
      else do {
        let next_ptr = word_at a ptr;
        a \<leftarrow> kfree ptr a;
        free_pointers next_ptr a
      })"

text \<open>One round of \<open>cleaning_thread\<close> up to the call that blocks the thread.\<close>

definition cleaning_round :: "scheduler \<Rightarrow> scheduler option" where
  "cleaning_round s = do {
     let s = lock_this_core s;
     s \<leftarrow> freeing (free_pointers (lp_pointers_to_clean (processor s))) s;
     Some (unlock_this_core (on_processor (\<lambda>p. p\<lparr>lp_pointers_to_clean := 0\<rparr>) s))
   }"

section \<open>Thread identifiers and the choice of a processor\<close>

fun tid_scan :: "nat \<Rightarrow> nat \<Rightarrow> bool list \<Rightarrow> nat option" where
  "tid_scan 0 i tids = None"
| "tid_scan (Suc n) i tids = (if \<not> tids ! i then Some i else tid_scan n (i + 1) tids)"

definition get_unique_kernel_tid :: "nat \<Rightarrow> scheduler \<Rightarrow> u32 \<times> scheduler" where
  "get_unique_kernel_tid target s =
     (case tid_scan MAX_NUMBER_OF_THREADS_PER_PROCESSOR (target * MAX_NUMBER_OF_THREADS_PER_PROCESSOR) (kernel_tid_map s) of
        None \<Rightarrow> (0, s)
      | Some i \<Rightarrow> (of_nat (i + 1), s\<lparr>kernel_tid_map := (kernel_tid_map s)[i := True]\<rparr>))"

definition release_unique_kernel_tid :: "u32 \<Rightarrow> scheduler \<Rightarrow> scheduler" where
  "release_unique_kernel_tid tid s = s\<lparr>kernel_tid_map := (kernel_tid_map s)[unat (tid - 1) := False]\<rparr>"

fun bitmap_scan :: "nat \<Rightarrow> nat \<Rightarrow> u32 \<Rightarrow> nat option" where
  "bitmap_scan 0 i bitmap = None"
| "bitmap_scan (Suc n) i bitmap = (if bitmap AND push_bit i 1 = 0 then Some i else bitmap_scan n (i + 1) bitmap)"

definition get_unique_user_process_tid :: "nat \<Rightarrow> u32 \<Rightarrow> scheduler \<Rightarrow> u32 \<times> scheduler" where
  "get_unique_user_process_tid target program s =
     (case bitmap_scan 32 0 (ul_tid_bitmap (pr_thread_lists (procs s program) ! target)) of
        None \<Rightarrow> (0, s)
      | Some i \<Rightarrow> (of_nat (target * 32 + i + 1),
          on_user_list program target (\<lambda>l. l\<lparr>ul_tid_bitmap := ul_tid_bitmap l OR push_bit i 1\<rparr>) s))"

definition get_index_of_processor_for_new_kernel_thread :: "scheduler \<Rightarrow> nat" where
  "get_index_of_processor_for_new_kernel_thread s =
     fst (fold (\<lambda>i (index, threads).
         let running = kl_number_of_running_threads (kernel_threads s ! i)
         in if running < threads then (i, running) else (index, threads))
       [1..<length (logical_processors s)] (0, kl_number_of_running_threads (kernel_threads s ! 0)))"

partial_function (option) count_running :: "nat \<Rightarrow> (u32 \<Rightarrow> process) \<Rightarrow> u32 \<Rightarrow> u32 \<Rightarrow> u32 option" where
  "count_running i ps process n =
     (if process = 0 then Some n
      else count_running i ps (pr_next (ps process))
        (if 0 < ul_number_of_running_threads (pr_thread_lists (ps process) ! i) then n + 1 else n))"

definition get_number_of_running_processes_on_processor :: "nat \<Rightarrow> scheduler \<Rightarrow> u32 option" where
  "get_number_of_running_processes_on_processor i s = count_running i (procs s) (processes s) 0"

text \<open>
  The processor for a new user thread; \<open>None\<close> in the accumulator is the index \<open>0xFFFFFFFF\<close>. With
  this index the code reads 16 bytes before the thread lists, which is \<open>is_blocked\<close>.
\<close>

fun place_user_thread :: "u32 \<Rightarrow> scheduler \<Rightarrow> nat list \<Rightarrow> nat option \<times> u32 \<Rightarrow> (nat option \<times> u32) option" where
  "place_user_thread process s [] acc = Some acc"
| "place_user_thread process s (i # is) (target, switches) =
     (let pr = procs s process; running = ul_number_of_running_threads (pr_thread_lists pr ! i)
      in if 32 \<le> running then place_user_thread process s is (target, switches)
         else do {
           number \<leftarrow> get_number_of_running_processes_on_processor i s;
           let seen = (case target of None \<Rightarrow> if pr_is_blocked pr then 1 else 0
             | Some t \<Rightarrow> ul_number_of_running_threads (pr_thread_lists pr ! t));
           let number = (if seen = 0 then number + 1 else number);
           let needed = number * (running + 1);
           place_user_thread process s is (if needed < switches then (Some i, needed) else (target, switches))
         })"

section \<open>Creating threads\<close>

definition push_arguments :: "u32 list \<Rightarrow> u32 \<Rightarrow> allocators \<Rightarrow> u32 \<times> allocators" where
  "push_arguments args stack_pointer a =
     fold (\<lambda>w (sp, a). (sp - 4, set_word (sp - 4) w a)) (rev args) (stack_pointer, a)"

text \<open>The stack frame of an interrupted kernel thread, and that of a user thread.\<close>

definition fill_kernel_frame :: "u32 \<Rightarrow> u32 \<Rightarrow> allocators \<Rightarrow> allocators" where
  "fill_kernel_frame sp function a =
     (let a = set_word (sp + 64) 0x202 (set_word (sp + 60) 0x08 (set_word (sp + 56) function a));
          a = set_word (sp + 8) 0x10 (set_word (sp + 12) 0x10 a)
      in set_word sp 0x10 (set_word (sp + 4) 0x10 a))"

definition fill_user_frame :: "u32 \<Rightarrow> u32 \<Rightarrow> u32 \<Rightarrow> allocators \<Rightarrow> allocators" where
  "fill_user_frame sp entry_point user_esp a =
     (let a = set_word (sp + 64) 0x202 (set_word (sp + 60) 0x1B (set_word (sp + 56) entry_point a));
          a = set_word (sp + 8) 0x23 (set_word (sp + 12) 0x23 a);
          a = set_word sp 0x23 (set_word (sp + 4) 0x23 a)
      in set_word (sp + 68) user_esp (set_word (sp + 72) 0x23 a))"

text \<open>\<open>switch\<close> and \<open>close\<close> are the addresses of \<open>switch_to_another_thread\<close> and \<open>close_current_thread\<close>.\<close>

definition create_interrupt_handler_thread :: "u32 \<Rightarrow> u32 \<Rightarrow> u32 \<Rightarrow> scheduler \<Rightarrow> (u32 \<times> scheduler) option" where
  "create_interrupt_handler_thread switch function number_of_arguments s = do {
     (new_thread, s) \<leftarrow> allocating (block_alloc SIZEOF_INTERRUPT_THREAD) s;
     (stack, s) \<leftarrow> allocating (kalloc KERNEL_STACK_SIZE) s;
     let stack_pointer = stack + KERNEL_STACK_SIZE - (number_of_arguments + 1) * 4;
     let s = in_memory (set_word stack_pointer switch) s;
     let stack_pointer = stack_pointer - SIZEOF_KERNEL_INTERRUPT_STACK;
     let s = in_memory (fill_kernel_frame stack_pointer function) s;
     let thread = (ithreads s new_thread)\<lparr>it_page_directory := 0, it_kernel_stack := stack,
       it_function := function, it_stack_pointer := stack_pointer\<rparr>;
     Some (new_thread, s\<lparr>ithreads := (ithreads s)(new_thread := thread)\<rparr>)
   }"

definition reset_interrupt_handler_thread_stack :: "u32 \<Rightarrow> u32 \<Rightarrow> u32 \<Rightarrow> scheduler \<Rightarrow> scheduler" where
  "reset_interrupt_handler_thread_stack switch stack_pointer function =
     in_memory (\<lambda>a. set_word (stack_pointer + SIZEOF_KERNEL_INTERRUPT_STACK) switch (fill_kernel_frame stack_pointer function a))"

definition set_interrupt_handler_thread_arguments :: "u32 \<Rightarrow> u32 list \<Rightarrow> scheduler \<Rightarrow> scheduler" where
  "set_interrupt_handler_thread_arguments thread args s =
     in_memory (\<lambda>a. snd (push_arguments args (kt_kernel_stack (kthreads s thread) + KERNEL_STACK_SIZE) a)) s"

definition create_kernel_thread_with_flags ::
  "u32 \<Rightarrow> u32 \<Rightarrow> nat \<Rightarrow> u32 \<Rightarrow> u32 list \<Rightarrow> u32 \<Rightarrow> bool \<Rightarrow> scheduler \<Rightarrow> (u32 \<times> scheduler) option" where
  "create_kernel_thread_with_flags close now processor_index function args microseconds_to_sleep is_blocked s = do {
     let (tid, s) = get_unique_kernel_tid processor_index s;
     if tid = 0 then Some (ERROR, s)
     else do {
       (new_thread, s) \<leftarrow> allocating (block_alloc SIZEOF_KERNEL_THREAD) s;
       (stack, s) \<leftarrow> allocating (kalloc KERNEL_STACK_SIZE) s;
       let (stack_pointer, a) = push_arguments args (stack + KERNEL_STACK_SIZE) (allocs s);
       let a = set_word (stack_pointer - 4) close a;
       let stack_pointer = stack_pointer - 4 - SIZEOF_KERNEL_INTERRUPT_STACK;
       let s = s\<lparr>allocs := fill_kernel_frame stack_pointer function a\<rparr>;
       let list = kernel_threads s ! processor_index;
       let s = on_kernel_thread new_thread (\<lambda>_. \<lparr>kt_next = kl_threads list, kt_id = tid, kt_page_directory = 0,
         kt_kernel_stack = stack, kt_stack_pointer = stack_pointer, kt_is_blocked = is_blocked, kt_kill_me = False,
         kt_sleeping = (microseconds_to_sleep \<noteq> 0),
         kt_time_end_of_sleep = (if microseconds_to_sleep = 0 then 0 else now + microseconds_to_sleep)\<rparr>) s;
       let s = on_kernel_list processor_index (\<lambda>l. l\<lparr>kl_number_of_running_threads := kl_number_of_running_threads l + 1,
         kl_threads := new_thread\<rparr>) s;
       let s = (if kl_current_thread list = 0
         then emit (Ipi (lp_hardware_id (logical_processors s ! processor_index)) INTERRUPT_PREEMPETIVE_SCHEDULING)
           (on_kernel_list processor_index (\<lambda>l. l\<lparr>kl_current_thread := new_thread\<rparr>) s)
         else s);
       Some (new_thread, s)
     }
   }"

definition create_kernel_thread :: "u32 \<Rightarrow> u32 \<Rightarrow> u32 \<Rightarrow> u32 list \<Rightarrow> scheduler \<Rightarrow> (u32 \<times> scheduler) option" where
  "create_kernel_thread close now function args s =
     create_kernel_thread_with_flags close now (get_index_of_processor_for_new_kernel_thread s) function args 0 False s"

definition create_kernel_thread_on_processor :: "u32 \<Rightarrow> u32 \<Rightarrow> nat \<Rightarrow> u32 \<Rightarrow> u32 list \<Rightarrow> scheduler \<Rightarrow> (u32 \<times> scheduler) option" where
  "create_kernel_thread_on_processor close now i function args =
     create_kernel_thread_with_flags close now i function args 0 False"

definition create_sleeping_kernel_thread :: "u32 \<Rightarrow> u32 \<Rightarrow> u32 \<Rightarrow> u32 list \<Rightarrow> u32 \<Rightarrow> scheduler \<Rightarrow> (u32 \<times> scheduler) option" where
  "create_sleeping_kernel_thread close now function args microseconds s =
     create_kernel_thread_with_flags close now (get_index_of_processor_for_new_kernel_thread s) function args microseconds False s"

definition create_sleeping_kernel_thread_on_processor ::
  "u32 \<Rightarrow> u32 \<Rightarrow> nat \<Rightarrow> u32 \<Rightarrow> u32 list \<Rightarrow> u32 \<Rightarrow> scheduler \<Rightarrow> (u32 \<times> scheduler) option" where
  "create_sleeping_kernel_thread_on_processor close now i function args microseconds =
     create_kernel_thread_with_flags close now i function args microseconds False"

definition create_blocked_kernel_thread :: "u32 \<Rightarrow> u32 \<Rightarrow> u32 \<Rightarrow> u32 list \<Rightarrow> scheduler \<Rightarrow> (u32 \<times> scheduler) option" where
  "create_blocked_kernel_thread close now function args s =
     create_kernel_thread_with_flags close now (get_index_of_processor_for_new_kernel_thread s) function args 0 True s"

definition create_blocked_kernel_thread_on_processor ::
  "u32 \<Rightarrow> u32 \<Rightarrow> nat \<Rightarrow> u32 \<Rightarrow> u32 list \<Rightarrow> scheduler \<Rightarrow> (u32 \<times> scheduler) option" where
  "create_blocked_kernel_thread_on_processor close now i function args =
     create_kernel_thread_with_flags close now i function args 0 True"

text \<open>
  The main thread is the thread that runs already: it has no stack of its own and its stack pointer
  is stored by the first switch. \<open>kt_kernel_stack\<close> and \<open>kt_is_blocked\<close> are not initialized.
\<close>

fun create_cleaning_threads :: "u32 \<Rightarrow> u32 \<Rightarrow> u32 \<Rightarrow> nat list \<Rightarrow> scheduler \<Rightarrow> scheduler option" where
  "create_cleaning_threads close now cleaning_thread [] s = Some s"
| "create_cleaning_threads close now cleaning_thread (i # is) s = do {
     (thread, s) \<leftarrow> create_blocked_kernel_thread_on_processor close now i cleaning_thread [] s;
     create_cleaning_threads close now cleaning_thread is (processor_at i (\<lambda>p. p\<lparr>lp_cleaning_thread := thread\<rparr>) s)
   }"

definition initialize_scheduler :: "u32 \<Rightarrow> u32 \<Rightarrow> u32 \<Rightarrow> u32 \<Rightarrow> scheduler \<Rightarrow> scheduler option" where
  "initialize_scheduler close now cleaning_thread bootstrap_processor_id s = do {
     let number = List.length (logical_processors s);
     (_, s) \<leftarrow> allocating (kalloc (12 * of_nat number)) s;
     (_, s) \<leftarrow> allocating (kalloc (of_nat (MAX_NUMBER_OF_THREADS_PER_PROCESSOR * number))) s;
     let s = s\<lparr>kernel_threads := replicate number \<lparr>kl_number_of_running_threads = 0, kl_current_thread = 0, kl_threads = 0\<rparr>,
       kernel_tid_map := replicate (MAX_NUMBER_OF_THREADS_PER_PROCESSOR * number) False\<rparr>;
     (main, s) \<leftarrow> allocating (block_alloc SIZEOF_KERNEL_THREAD) s;
     let (tid, s) = get_unique_kernel_tid (this_processor s) s;
     let s = on_kernel_thread main (\<lambda>t. t\<lparr>kt_next := 0, kt_id := tid, kt_page_directory := 0, kt_stack_pointer := 0,
       kt_kill_me := False, kt_sleeping := False, kt_time_end_of_sleep := 0\<rparr>) s;
     let s = on_kernel_list (this_processor s) (\<lambda>l. l\<lparr>kl_number_of_running_threads := 1, kl_threads := main,
       kl_current_thread := main\<rparr>) s;
     let s = s\<lparr>logical_processors := map (\<lambda>p. p\<lparr>
       lp_scheduler_state := (if lp_hardware_id p = bootstrap_processor_id then SCHEDULER_STATE_KERNEL else SCHEDULER_STATE_IDLE),
       lp_current_kernel_thread := 0, lp_current_process := 0, lp_current_user_thread := 0\<rparr>) (logical_processors s)\<rparr>;
     let s = on_processor (\<lambda>p. p\<lparr>lp_current_kernel_thread := main\<rparr>) s;
     create_cleaning_threads close now cleaning_thread [0..<number] s
   }"

text \<open>
  What \<open>create_user_thread\<close> and \<open>spawn_user_thread\<close> do alike once they have a page directory and
  its counter of threads.
\<close>

definition add_user_thread :: "u32 \<Rightarrow> nat \<Rightarrow> u32 \<Rightarrow> u32 \<Rightarrow> u32 \<Rightarrow> u32 \<Rightarrow> u32 \<Rightarrow> u32 \<Rightarrow> u32 \<Rightarrow> u32 \<Rightarrow> scheduler \<Rightarrow> scheduler option" where
  "add_user_thread process target tid user_thread page_directory counter creator entry_point user_esp handler s = do {
     (stack, s) \<leftarrow> allocating (kalloc KERNEL_STACK_SIZE) s;
     let stack_pointer = stack + KERNEL_STACK_SIZE - SIZEOF_INTERRUPT_STACK;
     let s = in_memory (fill_user_frame stack_pointer entry_point user_esp) s;
     let list = pr_thread_lists (procs s process) ! target;
     let s = on_user_thread user_thread (\<lambda>t. t\<lparr>ut_next := ul_threads list, ut_page_directory := page_directory,
       ut_number_of_threads_in_page_directory := counter, ut_creation_thread_id := creator, ut_id := tid,
       ut_kernel_stack := stack, ut_stack_pointer := stack_pointer, ut_is_blocked := False, ut_delete_me := False,
       ut_delete_signal_running := False, ut_kill_me := False, ut_sleeping := False,
       ut_delete_signal_handler := handler, ut_time_end_of_sleep := 0\<rparr>) s;
     let s = on_process process (\<lambda>r. r\<lparr>pr_number_of_threads := pr_number_of_threads r + 1\<rparr>) s;
     let s = on_user_list process target (\<lambda>l. l\<lparr>ul_number_of_running_threads := ul_number_of_running_threads l + 1,
       ul_threads := user_thread\<rparr>) s;
     Some (if ul_current_thread list = 0
       then let s = on_user_list process target (\<lambda>l. l\<lparr>ul_current_thread := user_thread\<rparr>) s
         in if target \<noteq> this_processor s
            then emit (Ipi (lp_hardware_id (logical_processors s ! target)) INTERRUPT_PREEMPETIVE_SCHEDULING) s else s
       else s)
   }"

definition create_user_thread :: "u32 \<Rightarrow> u32 \<Rightarrow> u32 \<Rightarrow> u32 \<Rightarrow> scheduler \<Rightarrow> (u32 \<times> scheduler) option" where
  "create_user_thread process entry_point user_esp handler s = do {
     (target, _) \<leftarrow> place_user_thread process s [0..<length (logical_processors s)] (None, 0xFFFFFFFF);
     case target of
       None \<Rightarrow> Some (0, s)
     | Some target \<Rightarrow> do {
         let (tid, s) = get_unique_user_process_tid target process s;
         if tid = 0 then Some (0, s)
         else do {
           let creator = uthreads s (lp_current_user_thread (processor s));
           (user_thread, s) \<leftarrow> allocating (block_alloc SIZEOF_USER_THREAD) s;
           let counter = ut_number_of_threads_in_page_directory creator;
           let s = in_memory (\<lambda>a. set_word counter (word_at a counter + 1) a) s;
           s \<leftarrow> add_user_thread process target tid user_thread (ut_page_directory creator) counter (ut_id creator)
             entry_point user_esp handler s;
           Some (tid, s)
         }
       }
   }"

text \<open>
  \<open>clone_space\<close> stands for the copy of the template's page directory; \<open>template\<close> gives the page
  directory and the user stack of the process's template.
\<close>

definition spawn_user_thread :: "(u32 \<Rightarrow> scheduler \<Rightarrow> (u32 \<times> scheduler) option) \<Rightarrow> (u32 \<Rightarrow> u32 \<times> u32)
    \<Rightarrow> u32 \<Rightarrow> u32 \<Rightarrow> u32 \<Rightarrow> scheduler \<Rightarrow> (u32 \<times> scheduler) option" where
  "spawn_user_thread clone_space template process entry_point handler s = do {
     (target, _) \<leftarrow> place_user_thread process s [0..<length (logical_processors s)] (None, 0xFFFFFFFF);
     case target of
       None \<Rightarrow> Some (0, s)
     | Some target \<Rightarrow> do {
         let (tid, s) = get_unique_user_process_tid target process s;
         if tid = 0 then Some (0, s)
         else do {
           let original_page_directory = cr3 s;
           let (template_directory, user_stack) = template (pr_running_executable (procs s process));
           (new_page_directory, s) \<leftarrow> clone_space template_directory (s\<lparr>cr3 := template_directory\<rparr>);
           (user_thread, s) \<leftarrow> allocating (block_alloc SIZEOF_USER_THREAD) s;
           (counter, s) \<leftarrow> allocating (block_alloc 4) s;
           let s = in_memory (set_word counter 1) s;
           s \<leftarrow> add_user_thread process target tid user_thread new_page_directory counter
             (ut_id (uthreads s (lp_current_user_thread (processor s)))) entry_point user_stack handler s;
           Some (tid, s\<lparr>cr3 := original_page_directory\<rparr>)
         }
       }
   }"

section \<open>Sleeping, blocking and killing\<close>

definition get_current_kernel_thread :: "scheduler \<Rightarrow> u32" where
  "get_current_kernel_thread s = lp_current_kernel_thread (processor s)"

text \<open>What \<open>sleep_for_thread\<close> does before it calls the scheduler.\<close>

definition put_to_sleep :: "u32 \<Rightarrow> u32 \<Rightarrow> u32 \<Rightarrow> scheduler \<Rightarrow> scheduler" where
  "put_to_sleep now stack microseconds s =
     (if lp_running_thread_state (processor s) = SCHEDULER_STATE_KERNEL
      then on_kernel_thread (lp_current_kernel_thread (processor s))
        (\<lambda>t. t\<lparr>kt_stack_pointer := stack, kt_time_end_of_sleep := now + microseconds, kt_sleeping := True\<rparr>) s
      else on_user_thread (lp_current_user_thread (processor s))
        (\<lambda>t. t\<lparr>ut_stack_pointer := stack, ut_time_end_of_sleep := now + microseconds, ut_sleeping := True\<rparr>) s)"

definition update_sleeping_kernel_thread :: "u32 \<Rightarrow> u32 \<Rightarrow> u32 \<Rightarrow> scheduler \<Rightarrow> scheduler" where
  "update_sleeping_kernel_thread now thread microseconds =
     on_kernel_thread thread (\<lambda>t. t\<lparr>kt_time_end_of_sleep := now + microseconds, kt_sleeping := True\<rparr>)"

definition wake_up_kernel_thread :: "u32 \<Rightarrow> scheduler \<Rightarrow> scheduler" where
  "wake_up_kernel_thread thread = on_kernel_thread thread (\<lambda>t. t\<lparr>kt_sleeping := False\<rparr>)"

definition switch_to_another_thread :: "scheduler \<Rightarrow> scheduler" where
  "switch_to_another_thread = emit (Software_interrupt INTERRUPT_VECTOR_SCHEDULER)"

definition block_current_thread_but_keep_going :: "scheduler \<Rightarrow> scheduler" where
  "block_current_thread_but_keep_going s =
     (case lp_running_thread_state (processor s) of
        SCHEDULER_STATE_USER \<Rightarrow> on_user_thread (lp_current_user_thread (processor s)) (\<lambda>t. t\<lparr>ut_is_blocked := True\<rparr>) s
      | SCHEDULER_STATE_KERNEL \<Rightarrow> on_kernel_thread (lp_current_kernel_thread (processor s)) (\<lambda>t. t\<lparr>kt_is_blocked := True\<rparr>) s
      | SCHEDULER_STATE_IDLE \<Rightarrow> s)"

definition block_current_thread :: "scheduler \<Rightarrow> scheduler" where
  "block_current_thread s = switch_to_another_thread (block_current_thread_but_keep_going s)"

definition block_current_thread_with_sequence_causing_block :: "(scheduler \<Rightarrow> scheduler option) \<Rightarrow> scheduler \<Rightarrow> scheduler option" where
  "block_current_thread_with_sequence_causing_block blocking_sequence s =
     map_option switch_to_another_thread (blocking_sequence (block_current_thread_but_keep_going s))"

definition block_kernel_thread :: "u32 \<Rightarrow> scheduler \<Rightarrow> scheduler" where
  "block_kernel_thread thread s =
     (let s = on_kernel_thread thread (\<lambda>t. t\<lparr>kt_is_blocked := True\<rparr>) s
      in if lp_running_thread_state (processor s) = SCHEDULER_STATE_KERNEL \<and> lp_current_kernel_thread (processor s) = thread
         then switch_to_another_thread s else s)"

definition block_user_thread :: "u32 \<Rightarrow> scheduler \<Rightarrow> scheduler" where
  "block_user_thread thread s =
     (let s = on_user_thread thread (\<lambda>t. t\<lparr>ut_is_blocked := True\<rparr>) s
      in if lp_running_thread_state (processor s) = SCHEDULER_STATE_USER \<and> lp_current_user_thread (processor s) = thread
         then switch_to_another_thread s else s)"

definition unblock_user_thread :: "u32 \<Rightarrow> scheduler \<Rightarrow> scheduler" where
  "unblock_user_thread thread = on_user_thread thread (\<lambda>t. t\<lparr>ut_is_blocked := False\<rparr>)"

definition send_closing_signal_to_process :: "u32 \<Rightarrow> scheduler \<Rightarrow> scheduler" where
  "send_closing_signal_to_process process s = on_user_thread (pr_main_thread (procs s process)) (\<lambda>t. t\<lparr>ut_delete_me := True\<rparr>) s"

partial_function (option) mark_list :: "(user_thread \<Rightarrow> user_thread) \<Rightarrow> u32 \<Rightarrow> (u32 \<Rightarrow> user_thread) \<Rightarrow> (u32 \<Rightarrow> user_thread) option" where
  "mark_list mark thread ts =
     (if thread = 0 then Some ts
      else let ts = ts(thread := mark (ts thread)) in mark_list mark (ut_next (ts thread)) ts)"

fun mark_lists :: "(user_thread \<Rightarrow> user_thread) \<Rightarrow> user_thread_list list \<Rightarrow> (u32 \<Rightarrow> user_thread) \<Rightarrow> (u32 \<Rightarrow> user_thread) option" where
  "mark_lists mark [] ts = Some ts"
| "mark_lists mark (l # ls) ts = mark_list mark (ul_threads l) ts \<bind> mark_lists mark ls"

definition mark_threads :: "(user_thread \<Rightarrow> user_thread) \<Rightarrow> u32 \<Rightarrow> scheduler \<Rightarrow> scheduler option" where
  "mark_threads mark process s =
     map_option (\<lambda>ts. s\<lparr>uthreads := ts\<rparr>)
       (mark_lists mark (take (length (logical_processors s)) (pr_thread_lists (procs s process))) (uthreads s))"

definition stop_process :: "u32 \<Rightarrow> scheduler \<Rightarrow> scheduler" where
  "stop_process process s =
     fold (\<lambda>p. if lp_current_process p = process then emit (Ipi (lp_hardware_id p) INTERRUPT_PREEMPETIVE_SCHEDULING) else id)
       (logical_processors s) s"

definition kill_process :: "u32 \<Rightarrow> scheduler \<Rightarrow> scheduler option" where
  "kill_process process s = do {
     let s = stop_process process (on_process process (\<lambda>r. r\<lparr>pr_is_blocked := True\<rparr>) s);
     let s = on_user_thread (pr_main_thread (procs s process)) (\<lambda>t. t\<lparr>ut_kill_me := True\<rparr>) s;
     s \<leftarrow> mark_threads (\<lambda>t. t\<lparr>ut_kill_me := True\<rparr>) process s;
     Some (on_process process (\<lambda>r. r\<lparr>pr_is_blocked := False\<rparr>) s)
   }"

text \<open>What the interrupts that close and kill the current thread do before they call the scheduler.\<close>

definition close_current_thread :: "scheduler \<Rightarrow> scheduler" where
  "close_current_thread s =
     (if lp_running_thread_state (processor s) = SCHEDULER_STATE_KERNEL
      then on_kernel_thread (lp_current_kernel_thread (processor s)) (\<lambda>t. t\<lparr>kt_kill_me := True\<rparr>) s
      else on_user_thread (lp_current_user_thread (processor s))
        (\<lambda>t. t\<lparr>ut_delete_me := True,
           ut_kill_me := (if ut_delete_signal_handler t = 0 \<or> ut_delete_signal_running t then True else ut_kill_me t)\<rparr>) s)"

definition kill_current_thread :: "scheduler \<Rightarrow> scheduler" where
  "kill_current_thread s =
     (if lp_running_thread_state (processor s) = SCHEDULER_STATE_KERNEL
      then on_kernel_thread (lp_current_kernel_thread (processor s)) (\<lambda>t. t\<lparr>kt_kill_me := True\<rparr>) s
      else on_user_thread (lp_current_user_thread (processor s)) (\<lambda>t. t\<lparr>ut_kill_me := True\<rparr>) s)"

definition kill_other_kernel_thread :: "u32 \<Rightarrow> u32 \<Rightarrow> scheduler \<Rightarrow> scheduler" where
  "kill_other_kernel_thread switch thread s =
     (let s = on_kernel_thread thread (\<lambda>t. t\<lparr>kt_kill_me := True\<rparr>) s
      in if in_interrupt (cpu (allocs s)) \<and> lp_running_thread_state (processor s) = SCHEDULER_STATE_KERNEL
            \<and> lp_current_kernel_thread (processor s) = thread
         then in_memory (set_word (kt_stack_pointer (kthreads s thread) + 56) switch) s else s)"

definition return_validated_pointer :: "u32 \<Rightarrow> u32 \<Rightarrow> u32" where
  "return_validated_pointer ptr sz =
     (if ptr < PAGE_SIZE \<or> 0xC0000000 < ptr + sz \<or> ptr + sz < ptr then 0 else ptr)"

definition send_signal_to_current_user_thread :: "u32 \<Rightarrow> u32 \<Rightarrow> scheduler \<Rightarrow> u32 \<times> scheduler" where
  "send_signal_to_current_user_thread stack handler s =
     (let user_stack = word_at (allocs s) (stack + 68) - 4
      in if return_validated_pointer user_stack 4 = 0 then (ERROR, s)
         else (SUCCESS, in_memory (\<lambda>a.
           let a = set_word user_stack (word_at a (stack + 56)) a
           in set_word (stack + 56) handler (set_word (stack + 68) user_stack a)) s))"

section \<open>Switching between threads\<close>

text \<open>The scheduler's functions return the stack pointer of the thread to run, if they found one.\<close>

definition sleeps_on :: "u32 \<Rightarrow> u32 \<Rightarrow> bool" where
  "sleeps_on now end_of_sleep \<longleftrightarrow> \<not> 0 < sint (now - end_of_sleep)"

definition load_page_directory_if :: "u32 \<Rightarrow> scheduler \<Rightarrow> scheduler" where
  "load_page_directory_if directory s = (if directory \<noteq> 0 \<and> directory \<noteq> cr3 s then s\<lparr>cr3 := directory\<rparr> else s)"

subsection \<open>Kernel threads\<close>

partial_function (option) unlink_kernel_thread_after :: "u32 \<Rightarrow> u32 \<Rightarrow> (u32 \<Rightarrow> kernel_thread) \<Rightarrow> (u32 \<Rightarrow> kernel_thread) option" where
  "unlink_kernel_thread_after thread p ts =
     (if p = 0 then Some ts
      else if kt_next (ts p) = thread then Some (ts(p := (ts p)\<lparr>kt_next := kt_next (ts thread)\<rparr>))
      else unlink_kernel_thread_after thread (kt_next (ts p)) ts)"

definition unlink_kernel_thread :: "u32 \<Rightarrow> u32 \<Rightarrow> scheduler \<Rightarrow> scheduler option" where
  "unlink_kernel_thread previous thread s =
     (if previous = 0
      then let start = kl_threads (kernel_threads s ! this_processor s)
        in if start = thread
           then Some (on_kernel_list (this_processor s) (\<lambda>l. l\<lparr>kl_threads := kt_next (kthreads s thread)\<rparr>) s)
           else map_option (\<lambda>ts. on_kernel_list (this_processor s) (\<lambda>l. l\<lparr>kl_threads := start\<rparr>) (s\<lparr>kthreads := ts\<rparr>))
             (unlink_kernel_thread_after thread start (kthreads s))
      else Some (on_kernel_thread previous (\<lambda>t. t\<lparr>kt_next := kt_next (kthreads s thread)\<rparr>) s))"

definition destroy_kernel_thread :: "u32 \<Rightarrow> u32 \<Rightarrow> scheduler \<Rightarrow> scheduler option" where
  "destroy_kernel_thread previous thread s = do {
     let tid = kt_id (kthreads s thread);
     s \<leftarrow> unlink_kernel_thread previous thread s;
     let s = on_kernel_list (this_processor s) (\<lambda>l. l\<lparr>kl_number_of_running_threads := kl_number_of_running_threads l - 1\<rparr>) s;
     let s = release_unique_kernel_tid tid s;
     let s = on_processor (\<lambda>p. if lp_current_kernel_thread p = thread then p\<lparr>lp_current_kernel_thread := 0\<rparr> else p) s;
     let s = on_kernel_list (this_processor s) (\<lambda>l. if kl_current_thread l = thread then l\<lparr>kl_current_thread := 0\<rparr> else l) s;
     let s = add_pointer_to_clean (kt_kernel_stack (kthreads s thread)) s;
     freeing (block_free SIZEOF_KERNEL_THREAD thread) s
   }"

definition run_kernel_thread :: "u32 \<Rightarrow> scheduler \<Rightarrow> scheduler" where
  "run_kernel_thread thread s =
     (let s = on_processor (\<lambda>p. p\<lparr>lp_running_thread_state := SCHEDULER_STATE_KERNEL, lp_current_kernel_thread := thread\<rparr>) s
      in set_in_interrupt False (load_page_directory_if (kt_page_directory (kthreads s thread)) s))"

text \<open>The next element of a list of threads after the current one; after the end comes the start.\<close>

definition next_kernel_thread :: "scheduler \<Rightarrow> u32" where
  "next_kernel_thread s =
     (let l = kernel_threads s ! this_processor s
      in if kl_current_thread l = 0 then kl_threads l else kt_next (kthreads s (kl_current_thread l)))"

partial_function (option) kernel_threads_pass :: "u32 \<Rightarrow> scheduler \<Rightarrow> (u32 option \<times> scheduler) option" where
  "kernel_threads_pass now s =
     (let previous = kl_current_thread (kernel_threads s ! this_processor s);
          current = next_kernel_thread s;
          s = on_kernel_list (this_processor s) (\<lambda>l. l\<lparr>kl_current_thread := current\<rparr>) s;
          thread = kthreads s current
      in if current = 0 then Some (None, on_processor (\<lambda>p. p\<lparr>lp_scheduler_state := SCHEDULER_STATE_USER\<rparr>) s)
         else if kt_kill_me thread then destroy_kernel_thread previous current s \<bind> kernel_threads_pass now
         else if kt_is_blocked thread then kernel_threads_pass now s
         else if kt_sleeping thread \<and> sleeps_on now (kt_time_end_of_sleep thread) then kernel_threads_pass now s
         else Some (Some (kt_stack_pointer thread),
           run_kernel_thread current (on_kernel_thread current (\<lambda>t. t\<lparr>kt_sleeping := False\<rparr>) s)))"

subsection \<open>User threads\<close>

text \<open>A thread that is to be deleted is sent to its signal handler, or killed if it has none.\<close>

definition deliver_delete_signal :: "u32 \<Rightarrow> scheduler \<Rightarrow> scheduler" where
  "deliver_delete_signal thread s =
     (let t = uthreads s thread
      in if ut_delete_me t \<and> \<not> ut_delete_signal_running t
         then let s = (if ut_delete_signal_handler t = 0 then on_user_thread thread (\<lambda>t. t\<lparr>ut_kill_me := True\<rparr>) s
                else in_memory (set_word (ut_stack_pointer t + 56) (ut_delete_signal_handler t)) s)
           in on_user_thread thread (\<lambda>t. t\<lparr>ut_delete_signal_running := True, ut_sleeping := False, ut_is_blocked := False\<rparr>) s
         else s)"

text \<open>
  \<open>release_space\<close> stands for \<open>stop_everything_on_page_directory\<close> and \<open>free_virtual_space\<close>, which
  take the executable and the page directory.
\<close>

definition leave_page_directory :: "(u32 \<Rightarrow> u32 \<Rightarrow> scheduler \<Rightarrow> scheduler option) \<Rightarrow> u32 \<Rightarrow> u32 \<Rightarrow> scheduler \<Rightarrow> scheduler option" where
  "leave_page_directory release_space process thread s = do {
     let counter = ut_number_of_threads_in_page_directory (uthreads s thread);
     let directory = ut_page_directory (uthreads s thread);
     let s = in_memory (\<lambda>a. set_word counter (word_at a counter - 1) a) s;
     if word_at (allocs s) counter = 0
     then do {
       let s = (if directory = cr3 s then s\<lparr>cr3 := PM_KERNEL_BASE_PAGE_DIRECTORY\<rparr> else s);
       s \<leftarrow> release_space (pr_running_executable (procs s process)) directory s;
       freeing (block_free 4 counter) s
     }
     else Some s
   }"

definition destroy_user_thread :: "(u32 \<Rightarrow> u32 \<Rightarrow> scheduler \<Rightarrow> scheduler option) \<Rightarrow> u32 \<Rightarrow> u32 \<Rightarrow> u32 \<Rightarrow> scheduler \<Rightarrow> scheduler option" where
  "destroy_user_thread release_space process previous thread s = do {
     let tid = ut_id (uthreads s thread);
     s \<leftarrow> mark_threads (\<lambda>t. if ut_creation_thread_id t = tid then t\<lparr>ut_delete_me := True\<rparr> else t) process s;
     let s = (if previous = 0 then on_user_list process (this_processor s) (\<lambda>l. l\<lparr>ul_threads := ut_next (uthreads s thread)\<rparr>) s
              else on_user_thread previous (\<lambda>t. t\<lparr>ut_next := ut_next (uthreads s thread)\<rparr>) s);
     let s = on_process process (\<lambda>r. r\<lparr>pr_number_of_threads := pr_number_of_threads r - 1\<rparr>) s;
     let s = on_user_list process (this_processor s) (\<lambda>l.
       l\<lparr>ul_number_of_running_threads := ul_number_of_running_threads l - 1,
         ul_tid_bitmap := ul_tid_bitmap l AND NOT (push_bit (unat ((tid - 1) AND 0x1F)) 1),
         ul_current_thread := (if ul_current_thread l = thread then 0 else ul_current_thread l)\<rparr>) s;
     let s = on_processor (\<lambda>p. if lp_current_user_thread p = thread then p\<lparr>lp_current_user_thread := 0\<rparr> else p) s;
     s \<leftarrow> leave_page_directory release_space process thread s;
     let s = add_pointer_to_clean (ut_kernel_stack (uthreads s thread)) s;
     freeing (block_free SIZEOF_USER_THREAD thread) s
   }"

definition run_user_thread :: "u32 \<Rightarrow> u32 \<Rightarrow> u32 \<Rightarrow> scheduler \<Rightarrow> scheduler" where
  "run_user_thread now process thread s =
     (let s = on_processor (\<lambda>p. p\<lparr>lp_scheduler_state := SCHEDULER_STATE_KERNEL, lp_running_thread_state := SCHEDULER_STATE_USER,
            lp_current_process := process\<rparr>) s;
          s = on_processor (\<lambda>p. p\<lparr>lp_current_user_thread := thread\<rparr>) (unlock_checking_process (this_processor s) s);
          directory = ut_page_directory (uthreads s thread);
          s = (if directory \<noteq> cr3 s then s\<lparr>cr3 := directory\<rparr> else s);
          s = on_user_thread thread (\<lambda>t. t\<lparr>ut_time_start_of_running := now, ut_time_of_running := 0\<rparr>) s;
          s = on_processor (\<lambda>p. p\<lparr>lp_esp0 := ut_kernel_stack (uthreads s thread) + KERNEL_STACK_SIZE\<rparr>) s
      in set_in_interrupt False (emit (Oneshot 10 INTERRUPT_PREEMPETIVE_SCHEDULING) s))"

definition next_user_thread :: "u32 \<Rightarrow> scheduler \<Rightarrow> u32" where
  "next_user_thread process s =
     (let l = pr_thread_lists (procs s process) ! this_processor s
      in if ul_current_thread l = 0 then ul_threads l else ut_next (uthreads s (ul_current_thread l)))"

partial_function (option) user_threads_pass ::
  "(u32 \<Rightarrow> u32 \<Rightarrow> scheduler \<Rightarrow> scheduler option) \<Rightarrow> u32 \<Rightarrow> u32 \<Rightarrow> scheduler \<Rightarrow> (u32 option \<times> scheduler) option" where
  "user_threads_pass release_space now process s =
     (let previous = ul_current_thread (pr_thread_lists (procs s process) ! this_processor s);
          current = next_user_thread process s;
          s = on_user_list process (this_processor s) (\<lambda>l. l\<lparr>ul_current_thread := current\<rparr>) s
      in if current = 0
         then Some (None, on_processor (\<lambda>p. p\<lparr>lp_scheduler_state := SCHEDULER_STATE_KERNEL\<rparr>)
           (unlock_checking_process (this_processor s) s))
         else let s = deliver_delete_signal current s; thread = uthreads s current
           in if ut_kill_me thread
              then destroy_user_thread release_space process previous current s \<bind> user_threads_pass release_space now process
              else if ut_is_blocked thread then user_threads_pass release_space now process s
              else if ut_sleeping thread \<and> sleeps_on now (ut_time_end_of_sleep thread)
              then user_threads_pass release_space now process s
              else Some (Some (ut_stack_pointer thread),
                run_user_thread now process current (on_user_thread current (\<lambda>t. t\<lparr>ut_sleeping := False\<rparr>) s)))"

subsection \<open>Processes\<close>

partial_function (option) unlink_process_after :: "u32 \<Rightarrow> u32 \<Rightarrow> (u32 \<Rightarrow> process) \<Rightarrow> (u32 \<Rightarrow> process) option" where
  "unlink_process_after process p ps =
     (if p = 0 then Some ps
      else if pr_next (ps p) = process then Some (ps(p := (ps p)\<lparr>pr_next := pr_next (ps process)\<rparr>))
      else unlink_process_after process (pr_next (ps p)) ps)"

definition unlink_process :: "u32 \<Rightarrow> u32 \<Rightarrow> scheduler \<Rightarrow> scheduler option" where
  "unlink_process previous process s =
     (if previous = 0
      then if processes s = process then Some (s\<lparr>processes := pr_next (procs s process)\<rparr>)
        else map_option (\<lambda>ps. s\<lparr>procs := ps\<rparr>) (unlink_process_after process (processes s) (procs s))
      else Some (on_process previous (\<lambda>r. r\<lparr>pr_next := pr_next (procs s process)\<rparr>) s))"

fun leave_process :: "u32 \<Rightarrow> nat list \<Rightarrow> scheduler \<Rightarrow> scheduler option" where
  "leave_process process [] s = Some s"
| "leave_process process (i # is) s = do {
     s \<leftarrow> lock_checking_process i s;
     let s = processor_at i (\<lambda>p. if lp_current_process p = process
       then p\<lparr>lp_current_process := pr_next (procs s process)\<rparr> else p) s;
     leave_process process is (unlock_checking_process i s)
   }"

text \<open>\<open>remove_executable\<close> stands for \<open>remove_running_executable\<close>.\<close>

definition remove_process :: "(u32 \<Rightarrow> scheduler \<Rightarrow> scheduler option) \<Rightarrow> u32 \<Rightarrow> u32 \<Rightarrow> scheduler \<Rightarrow> scheduler option" where
  "remove_process remove_executable previous process s = do {
     s \<leftarrow> unlink_process previous process s;
     s \<leftarrow> leave_process process [1..<length (logical_processors s)] s;
     s \<leftarrow> remove_executable (pr_running_executable (procs s process)) s;
     let s = add_pointer_to_clean process (on_processor (\<lambda>p. p\<lparr>lp_current_process := 0\<rparr>) s);
     let s = unlock_checking_process (this_processor s) s;
     Some (on_processor (\<lambda>p. p\<lparr>lp_scheduler_state := SCHEDULER_STATE_KERNEL\<rparr>) s)
   }"

definition process_pass ::
  "(u32 \<Rightarrow> u32 \<Rightarrow> scheduler \<Rightarrow> scheduler option) \<Rightarrow> (u32 \<Rightarrow> scheduler \<Rightarrow> scheduler option) \<Rightarrow> u32 \<Rightarrow> scheduler
    \<Rightarrow> (u32 option \<times> scheduler) option" where
  "process_pass release_space remove_executable now s = do {
     s \<leftarrow> lock_checking_process (this_processor s) s;
     let previous = lp_current_process (processor s);
     let current = (if previous = 0 then processes s else pr_next (procs s previous));
     let s = on_processor (\<lambda>p. p\<lparr>lp_current_process := current\<rparr>) s;
     if current = 0 \<or> pr_is_blocked (procs s current)
     then Some (None, on_processor (\<lambda>p. p\<lparr>lp_scheduler_state := SCHEDULER_STATE_KERNEL\<rparr>)
       (unlock_checking_process (this_processor s) s))
     else if pr_number_of_threads (procs s current) = 0
     then if this_processor s = 0
       then do {
         s \<leftarrow> remove_process remove_executable previous current s;
         Some (None, s)
       }
       else Some (None, unlock_checking_process (this_processor s) s)
     else user_threads_pass release_space now current s
   }"

subsection \<open>The interrupt\<close>

definition save_stack_pointer :: "u32 \<Rightarrow> u32 \<Rightarrow> scheduler \<Rightarrow> scheduler" where
  "save_stack_pointer now stack s =
     (if lp_in_interrupt_thread_handler (processor s) then s
      else case lp_running_thread_state (processor s) of
        SCHEDULER_STATE_USER \<Rightarrow>
          if lp_current_user_thread (processor s) \<noteq> 0
          then on_user_thread (lp_current_user_thread (processor s)) (\<lambda>t. t\<lparr>ut_stack_pointer := stack,
            ut_time_of_running := ut_time_of_running t + (now - ut_time_start_of_running t)\<rparr>) s
          else s
      | SCHEDULER_STATE_KERNEL \<Rightarrow>
          if lp_current_kernel_thread (processor s) \<noteq> 0
          then on_kernel_thread (lp_current_kernel_thread (processor s)) (\<lambda>t. t\<lparr>kt_stack_pointer := stack\<rparr>) s
          else s
      | SCHEDULER_STATE_IDLE \<Rightarrow> on_processor (\<lambda>p. p\<lparr>lp_scheduler_state := SCHEDULER_STATE_USER\<rparr>) s)"

definition run_interrupt_thread :: "u32 \<Rightarrow> nat \<Rightarrow> scheduler \<Rightarrow> u32 \<times> scheduler" where
  "run_interrupt_thread switch handler s =
     (let h = interrupt_thread_handlers s handler;
          s = on_processor (\<lambda>p. p\<lparr>lp_current_interrupt_thread_handler := ih_next h, lp_in_interrupt_thread_handler := True\<rparr>)
            (s\<lparr>interrupt_thread_handlers := (interrupt_thread_handlers s)(handler := h\<lparr>ih_next := None\<rparr>)\<rparr>);
          thread = ithreads s (ih_interrupt_thread h);
          s = reset_interrupt_handler_thread_stack switch (it_stack_pointer thread) (it_function thread) s;
          s = load_page_directory_if (it_page_directory thread) s;
          s = on_processor (\<lambda>p. p\<lparr>lp_esp0 := it_stack_pointer thread + SIZEOF_KERNEL_INTERRUPT_STACK\<rparr>) s
      in (it_stack_pointer thread, set_in_interrupt False s))"

definition go_idle :: "scheduler \<Rightarrow> u32 \<times> scheduler" where
  "go_idle s =
     (let s = on_processor (\<lambda>p. p\<lparr>lp_running_thread_state := SCHEDULER_STATE_IDLE, lp_scheduler_state := SCHEDULER_STATE_IDLE\<rparr>) s;
          s = emit (Oneshot 10 INTERRUPT_PREEMPETIVE_SCHEDULING) s
      in (lp_idle_thread_stack (processor s), set_in_interrupt False (s\<lparr>cr3 := PM_KERNEL_BASE_PAGE_DIRECTORY\<rparr>)))"

fun scheduler_passes ::
  "nat \<Rightarrow> (u32 \<Rightarrow> u32 \<Rightarrow> scheduler \<Rightarrow> scheduler option) \<Rightarrow> (u32 \<Rightarrow> scheduler \<Rightarrow> scheduler option) \<Rightarrow> u32 \<Rightarrow> scheduler
    \<Rightarrow> (u32 \<times> scheduler) option" where
  "scheduler_passes 0 release_space remove_executable now s = Some (go_idle s)"
| "scheduler_passes (Suc n) release_space remove_executable now s =
     (case lp_scheduler_state (processor s) of
        SCHEDULER_STATE_IDLE \<Rightarrow> scheduler_passes n release_space remove_executable now s
      | SCHEDULER_STATE_USER \<Rightarrow> do {
          (found, s) \<leftarrow> process_pass release_space remove_executable now s;
          case found of Some sp \<Rightarrow> Some (sp, s) | None \<Rightarrow> scheduler_passes n release_space remove_executable now s
        }
      | SCHEDULER_STATE_KERNEL \<Rightarrow> do {
          (found, s) \<leftarrow> kernel_threads_pass now s;
          case found of Some sp \<Rightarrow> Some (sp, s) | None \<Rightarrow> scheduler_passes n release_space remove_executable now s
        })"

definition scheduler_interrupt ::
  "u32 \<Rightarrow> (u32 \<Rightarrow> u32 \<Rightarrow> scheduler \<Rightarrow> scheduler option) \<Rightarrow> (u32 \<Rightarrow> scheduler \<Rightarrow> scheduler option) \<Rightarrow> u32 \<Rightarrow> u32 \<Rightarrow> scheduler
    \<Rightarrow> (u32 \<times> scheduler) option" where
  "scheduler_interrupt switch release_space remove_executable now stack s =
     (let s = save_stack_pointer now stack s
      in case lp_current_interrupt_thread_handler (processor s) of
        Some handler \<Rightarrow> Some (run_interrupt_thread switch handler s)
      | None \<Rightarrow> scheduler_passes 3 release_space remove_executable now
          (on_processor (\<lambda>p. p\<lparr>lp_in_interrupt_thread_handler := False\<rparr>) s))"

definition preemptive_scheduling_interrupt ::
  "u32 \<Rightarrow> (u32 \<Rightarrow> u32 \<Rightarrow> scheduler \<Rightarrow> scheduler option) \<Rightarrow> (u32 \<Rightarrow> scheduler \<Rightarrow> scheduler option) \<Rightarrow> u32 \<Rightarrow> u32 \<Rightarrow> scheduler
    \<Rightarrow> (u32 \<times> scheduler) option" where
  "preemptive_scheduling_interrupt switch release_space remove_executable now stack s =
     scheduler_interrupt switch release_space remove_executable now stack (emit Eoi (set_in_interrupt True s))"

text \<open>
  The interrupts a thread raises for itself. \<open>sleep_for_thread\<close> returns to the thread without a
  call of the scheduler if there is nothing to wait for.
\<close>

definition sleep_for_thread ::
  "u32 \<Rightarrow> (u32 \<Rightarrow> u32 \<Rightarrow> scheduler \<Rightarrow> scheduler option) \<Rightarrow> (u32 \<Rightarrow> scheduler \<Rightarrow> scheduler option) \<Rightarrow> u32 \<Rightarrow> u32 \<Rightarrow> u32 \<Rightarrow> scheduler
    \<Rightarrow> (u32 option \<times> scheduler) option" where
  "sleep_for_thread switch release_space remove_executable now stack microseconds s =
     (if microseconds = 0 then Some (None, s)
      else map_option (\<lambda>(sp, s). (Some sp, s))
        (scheduler_interrupt switch release_space remove_executable now stack (put_to_sleep now stack microseconds s)))"

definition close_current_thread_interrupt ::
  "u32 \<Rightarrow> (u32 \<Rightarrow> u32 \<Rightarrow> scheduler \<Rightarrow> scheduler option) \<Rightarrow> (u32 \<Rightarrow> scheduler \<Rightarrow> scheduler option) \<Rightarrow> u32 \<Rightarrow> u32 \<Rightarrow> scheduler
    \<Rightarrow> (u32 \<times> scheduler) option" where
  "close_current_thread_interrupt switch release_space remove_executable now stack s =
     scheduler_interrupt switch release_space remove_executable now stack (close_current_thread s)"

definition kill_current_thread_interrupt ::
  "u32 \<Rightarrow> (u32 \<Rightarrow> u32 \<Rightarrow> scheduler \<Rightarrow> scheduler option) \<Rightarrow> (u32 \<Rightarrow> scheduler \<Rightarrow> scheduler option) \<Rightarrow> u32 \<Rightarrow> u32 \<Rightarrow> scheduler
    \<Rightarrow> (u32 \<times> scheduler) option" where
  "kill_current_thread_interrupt switch release_space remove_executable now stack s =
     scheduler_interrupt switch release_space remove_executable now stack (kill_current_thread s)"

end
