(* ===== verification/Queue_Interface.thy ===== *)
theory Queue_Interface
  imports Prelude
begin

text \<open>
  The contract of a bounded first-in first-out queue, which the queue of interrupt threads and the
  ring of input events both provide.
\<close>

fun enqueue_all :: "('a \<Rightarrow> 's \<Rightarrow> 's option) \<Rightarrow> 'a list \<Rightarrow> 's \<Rightarrow> 's option" where
  "enqueue_all enq [] s = Some s"
| "enqueue_all enq (x # xs) s = enq x s \<bind> enqueue_all enq xs"

fun dequeue_all :: "('s \<Rightarrow> ('a \<times> 's) option) \<Rightarrow> nat \<Rightarrow> 's \<Rightarrow> ('a list \<times> 's) option" where
  "dequeue_all deq 0 s = Some ([], s)"
| "dequeue_all deq (Suc n) s = do {
     (x, s) \<leftarrow> deq s;
     (xs, s) \<leftarrow> dequeue_all deq n s;
     Some (x # xs, s)
   }"

fun fit_all :: "('a list \<Rightarrow> 'a \<Rightarrow> bool) \<Rightarrow> 'a list \<Rightarrow> 'a list \<Rightarrow> bool" where
  "fit_all fits xs [] = True"
| "fit_all fits xs (y # ys) = (fits xs y \<and> fit_all fits (xs @ [y]) ys)"

locale fifo =
  fixes rep :: "'s \<Rightarrow> 'a list \<Rightarrow> bool"
    and fits :: "'a list \<Rightarrow> 'a \<Rightarrow> bool"
    and enq :: "'a \<Rightarrow> 's \<Rightarrow> 's option"
    and deq :: "'s \<Rightarrow> ('a \<times> 's) option"
  assumes enq_appends: "rep s xs \<Longrightarrow> fits xs x \<Longrightarrow> \<exists>s'. enq x s = Some s' \<and> rep s' (xs @ [x])"
    and deq_takes: "rep s (x # xs) \<Longrightarrow> \<exists>s'. deq s = Some (x, s') \<and> rep s' xs"
begin

lemma enqueue_all_appends:
  "rep s xs \<Longrightarrow> fit_all fits xs ys \<Longrightarrow> \<exists>s'. enqueue_all enq ys s = Some s' \<and> rep s' (xs @ ys)"
proof (induction ys arbitrary: s xs)
  case (Cons y ys)
  then obtain t where t: "enq y s = Some t" "rep t (xs @ [y])" using enq_appends [of s xs y] by auto
  then show ?case using Cons.IH [OF t(2)] Cons.prems(2) by simp
qed simp

lemma dequeue_all_takes: "rep s (xs @ ys) \<Longrightarrow> \<exists>s'. dequeue_all deq (length xs) s = Some (xs, s') \<and> rep s' ys"
proof (induction xs arbitrary: s)
  case (Cons x xs)
  then obtain t where t: "deq s = Some (x, t)" "rep t (xs @ ys)" using deq_takes [of s x "xs @ ys"] by auto
  then show ?case using Cons.IH [OF t(2)] by auto
qed simp

lemma first_in_first_out:
  assumes "rep s xs" "fit_all fits xs ys"
  shows "\<exists>s' s''. enqueue_all enq ys s = Some s' \<and> dequeue_all deq (length (xs @ ys)) s' = Some (xs @ ys, s'') \<and> rep s'' []"
proof -
  obtain s' where s': "enqueue_all enq ys s = Some s'" "rep s' (xs @ ys)" using enqueue_all_appends [OF assms] by blast
  then show ?thesis using dequeue_all_takes [of s' "xs @ ys" "[]"] by simp
qed

end

end
