(* ===== verification/Interrupts.thy ===== *)
theory Interrupts
  imports Scheduler Queue_Interface
begin

text \<open>
  The interrupt handling of \<open>source/kernel/hardware/devices/cpu/interrupt.c\<close>: what happens at an
  interrupt, and the queue of interrupt handlers that run in threads of their own, of which every
  processor has one. The queue is linked through the static handlers, and \<open>run_interrupt_thread\<close>
  of the scheduler takes its first element.
\<close>

section \<open>Handling an interrupt\<close>

datatype interrupt_mode = INTERRUPTS_THROUGH_PIC | INTERRUPTS_THROUGH_APIC

partial_function (option) queue_last :: "(nat \<Rightarrow> interrupt_thread_handler) \<Rightarrow> nat \<Rightarrow> nat option" where
  "queue_last hs h = (case ih_next (hs h) of None \<Rightarrow> Some h | Some n \<Rightarrow> queue_last hs n)"

definition queue_handler :: "nat \<Rightarrow> scheduler \<Rightarrow> scheduler option" where
  "queue_handler n s = do {
     let i = ih_processor_index (interrupt_thread_handlers s n);
     let hs = (interrupt_thread_handlers s)(n := (interrupt_thread_handlers s n)\<lparr>ih_next := None\<rparr>);
     case lp_current_interrupt_thread_handler (logical_processors s ! i) of
       None \<Rightarrow> Some (processor_at i (\<lambda>p. p\<lparr>lp_current_interrupt_thread_handler := Some n\<rparr>) (s\<lparr>interrupt_thread_handlers := hs\<rparr>))
     | Some h \<Rightarrow> do {
         l \<leftarrow> queue_last hs h;
         Some (s\<lparr>interrupt_thread_handlers := hs(l := (hs l)\<lparr>ih_next := Some n\<rparr>)\<rparr>)
       }
   }"

definition send_eoi :: "interrupt_mode \<Rightarrow> nat \<Rightarrow> scheduler \<Rightarrow> scheduler" where
  "send_eoi mode n s =
     (if mode = INTERRUPTS_THROUGH_PIC \<and> 0x20 \<le> n \<and> n \<le> 0x2F then emit (Pic_eoi (n - 0x20)) s
      else if mode = INTERRUPTS_THROUGH_APIC \<and> (0x20 \<le> n \<and> n \<le> 0x80 \<or> n = 0xD0) then emit Eoi s
      else s)"

text \<open>
  \<open>isr n\<close> is the registered handler of interrupt \<open>n\<close>. The result is the stack pointer of the thread
  to run if the scheduler is called, which does not come back.
\<close>

definition global_interrupt_handler ::
  "u32 \<Rightarrow> (u32 \<Rightarrow> u32 \<Rightarrow> scheduler \<Rightarrow> scheduler option) \<Rightarrow> (u32 \<Rightarrow> scheduler \<Rightarrow> scheduler option)
    \<Rightarrow> (nat \<Rightarrow> (u32 \<Rightarrow> scheduler \<Rightarrow> scheduler option) option) \<Rightarrow> interrupt_mode \<Rightarrow> u32 \<Rightarrow> nat \<Rightarrow> u32 \<Rightarrow> scheduler
    \<Rightarrow> (u32 option \<times> scheduler) option" where
  "global_interrupt_handler switch release_space remove_executable isr mode now n stack s = do {
     let s = set_in_interrupt True s;
     s \<leftarrow> (case isr n of None \<Rightarrow> Some s | Some handler \<Rightarrow> handler stack s);
     let s = send_eoi mode n s;
     if ih_interrupt_thread (interrupt_thread_handlers s n) \<noteq> 0
     then do {
       s \<leftarrow> queue_handler n s;
       (sp, s) \<leftarrow> scheduler_interrupt switch release_space remove_executable now stack s;
       Some (Some sp, s)
     }
     else Some (None, set_in_interrupt False s)
   }"

section \<open>The queue\<close>

fun queue_of :: "(nat \<Rightarrow> interrupt_thread_handler) \<Rightarrow> nat option \<Rightarrow> nat list \<Rightarrow> bool" where
  "queue_of hs p [] = (p = None)"
| "queue_of hs p (n # ns) = (p = Some n \<and> queue_of hs (ih_next (hs n)) ns)"

lemma queue_of_outside: "n \<notin> set ns \<Longrightarrow> queue_of (hs(n := h)) p ns = queue_of hs p ns"
  by (induction ns arbitrary: p) auto

lemma queue_last_end: "queue_of hs p ns \<Longrightarrow> p = Some h \<Longrightarrow> queue_last hs h = Some (last ns)"
proof (induction ns arbitrary: p h)
  case (Cons n ns)
  then show ?case by (cases ns) (auto simp: queue_last.simps [of hs n])
qed simp

lemma queue_of_snoc:
  "queue_of hs p ns \<Longrightarrow> distinct ns \<Longrightarrow> ns \<noteq> [] \<Longrightarrow> n \<notin> set ns \<Longrightarrow> ih_next (hs n) = None \<Longrightarrow>
    queue_of (hs(last ns := (hs (last ns))\<lparr>ih_next := Some n\<rparr>)) p (ns @ [n])"
proof (induction ns arbitrary: p)
  case (Cons k ns)
  show ?case
  proof (cases ns)
    case Nil
    then show ?thesis using Cons.prems by auto
  next
    case (Cons j js)
    then have "last (k # ns) = last ns" "last ns \<noteq> k" using Cons.prems(2) last_in_set [of ns] by auto
    then show ?thesis using Cons.IH [of "ih_next (hs k)"] Cons.prems Cons by auto
  qed
qed simp

section \<open>Properties\<close>

definition processor_queue :: "scheduler \<Rightarrow> nat \<Rightarrow> nat list \<Rightarrow> bool" where
  "processor_queue s i ns \<longleftrightarrow> i < length (logical_processors s) \<and> distinct ns
     \<and> (\<forall>n \<in> set ns. ih_processor_index (interrupt_thread_handlers s n) = i)
     \<and> queue_of (interrupt_thread_handlers s) (lp_current_interrupt_thread_handler (logical_processors s ! i)) ns"

lemma queue_handler_new:
  assumes q: "processor_queue s i ns" and n: "n \<notin> set ns" "ih_processor_index (interrupt_thread_handlers s n) = i"
  obtains s' where "queue_handler n s = Some s'" "processor_queue s' i (ns @ [n])"
    "\<And>j ms. j \<noteq> i \<Longrightarrow> processor_queue s j ms \<Longrightarrow> processor_queue s' j ms"
proof -
  let ?hs = "interrupt_thread_handlers s" and ?p = "lp_current_interrupt_thread_handler (logical_processors s ! i)"
  let ?hs' = "?hs(n := (?hs n)\<lparr>ih_next := None\<rparr>)"
  have i: "i < length (logical_processors s)" "distinct ns" "queue_of ?hs ?p ns" using q by (simp_all add: processor_queue_def)
  have q': "queue_of ?hs' ?p ns" using queue_of_outside [OF n(1)] i(3) by blast
  have other: "n \<notin> set ms" "set ns \<inter> set ms = {}" if "j \<noteq> i" "processor_queue s j ms" for j ms
    using that q n(2) by (auto simp: processor_queue_def)
  show thesis
  proof (cases ns)
    case Nil
    then have none: "?p = None" using i(3) by simp
    define s' where "s' = processor_at i (\<lambda>p. p\<lparr>lp_current_interrupt_thread_handler := Some n\<rparr>) (s\<lparr>interrupt_thread_handlers := ?hs'\<rparr>)"
    have s': "interrupt_thread_handlers s' = ?hs'" "length (logical_processors s') = length (logical_processors s)"
      "lp_current_interrupt_thread_handler (logical_processors s' ! i) = Some n"
      "\<And>j. j \<noteq> i \<Longrightarrow> logical_processors s' ! j = logical_processors s ! j"
      using i(1) by (simp_all add: s'_def processor_at_def)
    show thesis
    proof (rule that)
      show "queue_handler n s = Some s'" using none n(2) by (simp add: queue_handler_def s'_def)
      show "processor_queue s' i (ns @ [n])" using s'(1-3) i(1) n(2) Nil by (simp add: processor_queue_def)
      show "processor_queue s' j ms" if "j \<noteq> i" "processor_queue s j ms" for j ms
        using that other(1) [OF that] s'(1,2) s'(4) [OF that(1)] by (simp add: processor_queue_def queue_of_outside)
    qed
  next
    case (Cons h hs)
    then have some: "?p = Some h" using i(3) by simp
    have l: "queue_last ?hs' h = Some (last ns)" using queue_last_end [OF q' some] .
    have nl: "last ns \<in> set ns" using Cons by simp
    let ?hs2 = "?hs'(last ns := (?hs' (last ns))\<lparr>ih_next := Some n\<rparr>)"
    have "queue_of ?hs2 ?p (ns @ [n])" using queue_of_snoc [OF q' i(2) _ n(1)] Cons by simp
    then have "processor_queue (s\<lparr>interrupt_thread_handlers := ?hs2\<rparr>) i (ns @ [n])"
      using q n by (auto simp: processor_queue_def)
    moreover have "queue_handler n s = Some (s\<lparr>interrupt_thread_handlers := ?hs2\<rparr>)"
      using some l n(2) by (simp add: queue_handler_def Let_def)
    moreover have "processor_queue (s\<lparr>interrupt_thread_handlers := ?hs2\<rparr>) j ms" if "j \<noteq> i" "processor_queue s j ms" for j ms
    proof -
      have "last ns \<notin> set ms" using other(2) [OF that] nl by auto
      then show ?thesis using that other(1) [OF that] by (auto simp: processor_queue_def queue_of_outside)
    qed
    ultimately show thesis using that by blast
  qed
qed

lemma run_interrupt_thread_takes:
  assumes "processor_queue s (this_processor s) (h # hs)"
  shows "processor_queue (snd (run_interrupt_thread switch h s)) (this_processor s) hs"
    "this_processor (snd (run_interrupt_thread switch h s)) = this_processor s"
    "ih_processor_index (interrupt_thread_handlers (snd (run_interrupt_thread switch h s)) n)
       = ih_processor_index (interrupt_thread_handlers s n)"
    "fst (run_interrupt_thread switch h s) = it_stack_pointer (ithreads s (ih_interrupt_thread (interrupt_thread_handlers s h)))"
  using assms
  by (auto simp: processor_queue_def run_interrupt_thread_def Let_def sched_updates reset_interrupt_handler_thread_stack_def
      load_page_directory_if_def queue_of_outside)

lemma queue_handler_frame:
  "queue_handler n s = Some s' \<Longrightarrow> this_processor s' = this_processor s
    \<and> ih_processor_index (interrupt_thread_handlers s' k) = ih_processor_index (interrupt_thread_handlers s k)"
  by (auto simp: queue_handler_def Let_def processor_at_def split: option.splits bind_splits)

text \<open>
  What the scheduler does with the queue of its processor: it takes the head and runs its thread.
  The handlers \<open>D\<close> are those whose threads belong to this processor.
\<close>

definition take_handler :: "u32 \<Rightarrow> scheduler \<Rightarrow> (nat \<times> scheduler) option" where
  "take_handler switch s = (case lp_current_interrupt_thread_handler (processor s) of
     None \<Rightarrow> None | Some h \<Rightarrow> Some (h, snd (run_interrupt_thread switch h s)))"

definition handler_queue :: "nat set \<Rightarrow> scheduler \<Rightarrow> nat list \<Rightarrow> bool" where
  "handler_queue D s ns \<longleftrightarrow> processor_queue s (this_processor s) ns
     \<and> (\<forall>n \<in> D. ih_processor_index (interrupt_thread_handlers s n) = this_processor s)"

lemma queue_handler_appends:
  assumes "handler_queue D s ns" "n \<in> D \<and> n \<notin> set ns"
  shows "\<exists>s'. queue_handler n s = Some s' \<and> handler_queue D s' (ns @ [n])"
proof -
  have "ih_processor_index (interrupt_thread_handlers s n) = this_processor s" "processor_queue s (this_processor s) ns"
    using assms by (auto simp: handler_queue_def)
  then obtain s' where s': "queue_handler n s = Some s'" "processor_queue s' (this_processor s) (ns @ [n])"
    using queue_handler_new [of s "this_processor s" ns n] assms(2) by metis
  then show ?thesis using assms(1) queue_handler_frame [OF s'(1)] by (auto simp: handler_queue_def)
qed

lemma take_handler_takes:
  assumes "handler_queue D s (n # ns)"
  shows "\<exists>s'. take_handler switch s = Some (n, s') \<and> handler_queue D s' ns"
proof -
  have q: "processor_queue s (this_processor s) (n # ns)" using assms by (simp add: handler_queue_def)
  then have "lp_current_interrupt_thread_handler (processor s) = Some n" by (simp add: processor_queue_def)
  then show ?thesis using run_interrupt_thread_takes [OF q, of switch] assms
    by (auto simp: take_handler_def handler_queue_def)
qed

interpretation handlers: fifo "handler_queue D" "\<lambda>ns n. n \<in> D \<and> n \<notin> set ns" queue_handler "take_handler switch"
  for D switch
  by unfold_locales (simp_all add: queue_handler_appends take_handler_takes)

text \<open>
  The threads of interrupts wait in one FIFO queue per processor: an interrupt whose thread is
  not waiting puts it behind all the others, the queues of other processors are left alone, and
  the scheduler runs the thread at the head and takes exactly it from the queue.
\<close>

theorem interrupt_queue_fifo:
  assumes "processor_queue s i ns" "n \<notin> set ns" "ih_processor_index (interrupt_thread_handlers s n) = i"
  shows "\<exists>s'. queue_handler n s = Some s' \<and> processor_queue s' i (ns @ [n])
    \<and> (\<forall>j ms. j \<noteq> i \<longrightarrow> processor_queue s j ms \<longrightarrow> processor_queue s' j ms)
    \<and> (\<forall>h hs. ns @ [n] = h # hs \<and> this_processor s' = i \<longrightarrow>
        processor_queue (snd (run_interrupt_thread switch h s')) i hs
        \<and> fst (run_interrupt_thread switch h s') = it_stack_pointer (ithreads s' (ih_interrupt_thread (interrupt_thread_handlers s' h))))"
proof -
  obtain s' where s': "queue_handler n s = Some s'" "processor_queue s' i (ns @ [n])"
    "\<And>j ms. j \<noteq> i \<Longrightarrow> processor_queue s j ms \<Longrightarrow> processor_queue s' j ms"
    using queue_handler_new [OF assms] by metis
  have "processor_queue (snd (run_interrupt_thread switch h s')) i hs
      \<and> fst (run_interrupt_thread switch h s') = it_stack_pointer (ithreads s' (ih_interrupt_thread (interrupt_thread_handlers s' h)))"
    if "ns @ [n] = h # hs" and "this_processor s' = i" for h hs
    using run_interrupt_thread_takes [of s' h hs switch] s'(2) that by auto
  then show ?thesis using s' by blast
qed

text \<open>
  C24. An interrupt that comes while the thread of an earlier interrupt is running loses that
  thread. The interrupted thread runs with interrupts enabled, but its registers are saved nowhere:
  if the interrupt has a thread of its own, the interrupt handler resets the frame of the new thread
  and leaves to it with one and the same state, whatever the stack pointer of the interrupted
  thread was; threads and queue are as before, so nothing leads back to the interrupted thread. The
  timer interrupt of the scheduler forgets the interrupted thread in the same way. The routine that
  is registered for the interrupt does not look at the stack of the interrupted thread here, and
  the new thread belongs to the processor of the interrupt.
\<close>

theorem interrupted_interrupt_thread_lost:
  assumes "this_processor t < length (logical_processors t)" "lp_in_interrupt_thread_handler (processor t)"
    "lp_current_interrupt_thread_handler (processor t) = None"
    "ih_processor_index (interrupt_thread_handlers t n) = this_processor t"
    "ih_interrupt_thread (interrupt_thread_handlers t n) = thread" "thread \<noteq> 0"
    "\<And>stack. (case isr n of None \<Rightarrow> Some (set_in_interrupt True s) | Some handler \<Rightarrow> handler stack (set_in_interrupt True s)) = Some t"
  shows "\<exists>s'. (\<forall>stack. global_interrupt_handler switch release_space remove_executable isr mode now n stack s
        = Some (Some (it_stack_pointer (ithreads t thread)), s'))
    \<and> kthreads s' = kthreads t \<and> uthreads s' = uthreads t \<and> ithreads s' = ithreads t
    \<and> allocs s' = (let a = set_word (it_stack_pointer (ithreads t thread) + SIZEOF_KERNEL_INTERRUPT_STACK) switch
        (fill_kernel_frame (it_stack_pointer (ithreads t thread)) (it_function (ithreads t thread)) (allocs t))
        in a\<lparr>cpu := (cpu a)\<lparr>in_interrupt := False\<rparr>\<rparr>)
    \<and> lp_current_interrupt_thread_handler (processor s') = None \<and> lp_in_interrupt_thread_handler (processor s')
    \<and> preemptive_scheduling_interrupt switch release_space remove_executable now stack t
        = preemptive_scheduling_interrupt switch release_space remove_executable now stack' t"
proof -
  let ?t = "send_eoi mode n t"
  have t: "processor ?t = processor t" "this_processor ?t = this_processor t"
    "length (logical_processors ?t) = length (logical_processors t)"
    "interrupt_thread_handlers ?t = interrupt_thread_handlers t" "ithreads ?t = ithreads t" "kthreads ?t = kthreads t"
    "uthreads ?t = uthreads t" "allocs ?t = allocs t"
    by (simp_all add: send_eoi_def emit_def)
  define hs where "hs = (interrupt_thread_handlers t)(n := (interrupt_thread_handlers t n)\<lparr>ih_next := None\<rparr>)"
  define u where "u = on_processor (\<lambda>p. p\<lparr>lp_current_interrupt_thread_handler := Some n\<rparr>) (?t\<lparr>interrupt_thread_handlers := hs\<rparr>)"
  have q: "queue_handler n ?t = Some u" using assms(3,4) t by (simp add: queue_handler_def u_def hs_def on_processor_def)
  have u: "lp_current_interrupt_thread_handler (processor u) = Some n" "lp_in_interrupt_thread_handler (processor u)"
    "interrupt_thread_handlers u = hs" "this_processor u < length (logical_processors u)" "this_processor u = this_processor t"
    "ithreads u = ithreads t" "kthreads u = kthreads t" "uthreads u = uthreads t" "allocs u = allocs t"
    using assms(1,2) t by (simp_all add: u_def sched_updates)
  have "scheduler_interrupt switch release_space remove_executable now stack u = Some (run_interrupt_thread switch n u)" for stack
    using u(1,2) by (simp add: scheduler_interrupt_def save_stack_pointer_def)
  then have "global_interrupt_handler switch release_space remove_executable isr mode now n stack s
      = Some (Some (fst (run_interrupt_thread switch n u)), snd (run_interrupt_thread switch n u))" for stack
    using assms(5,6,7) t(4) q by (simp add: global_interrupt_handler_def split_beta)
  moreover have "preemptive_scheduling_interrupt switch release_space remove_executable now stack t
        = preemptive_scheduling_interrupt switch release_space remove_executable now stack' t"
    using assms(1,2) by (simp add: preemptive_scheduling_interrupt_def scheduler_interrupt_def save_stack_pointer_def
      set_in_interrupt_def emit_def sched_updates)
  ultimately show ?thesis using u assms(5)
    by (intro exI [of _ "snd (run_interrupt_thread switch n u)"])
      (simp add: run_interrupt_thread_def Let_def sched_updates reset_interrupt_handler_thread_stack_def load_page_directory_if_def hs_def)
qed

text \<open>
  C9. Interrupts with different handlers on one processor have their threads run in the order in
  which they came, behind those that were waiting before, and then none is waiting.
\<close>

theorem interrupt_threads_run_in_order:
  assumes "handler_queue D s ns" "distinct (ns @ ms)" "set ms \<subseteq> D"
  shows "\<exists>s' s''. enqueue_all queue_handler ms s = Some s'
    \<and> dequeue_all (take_handler switch) (length (ns @ ms)) s' = Some (ns @ ms, s'') \<and> handler_queue D s'' []"
proof -
  have "fit_all (\<lambda>ns n. n \<in> D \<and> n \<notin> set ns) ns ms"
    using assms(2,3) by (induction ms arbitrary: ns) auto
  then show ?thesis by (rule handlers.first_in_first_out [OF assms(1)])
qed

text \<open>One processor with the handler of interrupt 33 waiting; 34 has a thread too.\<close>

definition one_waiting :: scheduler where
  "one_waiting = \<lparr>allocs = booted, kernel_threads = [], processes = 0, kernel_tid_map = [],
     kthreads = (\<lambda>_. \<lparr>kt_next = 0, kt_id = 0, kt_page_directory = 0, kt_kernel_stack = 0, kt_stack_pointer = 0,
       kt_is_blocked = False, kt_kill_me = False, kt_sleeping = False, kt_time_end_of_sleep = 0\<rparr>),
     uthreads = (\<lambda>_. \<lparr>ut_next = 0, ut_page_directory = 0, ut_number_of_threads_in_page_directory = 0,
       ut_creation_thread_id = 0, ut_id = 0, ut_kernel_stack = 0, ut_stack_pointer = 0, ut_is_blocked = False,
       ut_delete_me = False, ut_delete_signal_running = False, ut_kill_me = False, ut_sleeping = False,
       ut_delete_signal_handler = 0, ut_time_start_of_running = 0, ut_time_of_running = 0, ut_time_end_of_sleep = 0\<rparr>),
     procs = (\<lambda>_. \<lparr>pr_next = 0, pr_is_blocked = False, pr_running_executable = 0, pr_main_thread = 0,
       pr_number_of_threads = 0, pr_thread_lists = []\<rparr>),
     ithreads = (\<lambda>p. \<lparr>it_page_directory = 0, it_kernel_stack = 0, it_stack_pointer = p + 100, it_function = 0\<rparr>),
     interrupt_thread_handlers = (\<lambda>n. \<lparr>ih_next = None, ih_interrupt_thread = of_nat n, ih_processor_index = 0\<rparr>),
     logical_processors = [\<lparr>lp_hardware_id = 0, lp_esp0 = 0, lp_idle_thread_stack = 0, lp_scheduler_state = SCHEDULER_STATE_USER,
       lp_running_thread_state = SCHEDULER_STATE_IDLE, lp_checking_process = 0, lp_current_process = 0,
       lp_current_kernel_thread = 0, lp_current_user_thread = 0, lp_current_interrupt_thread_handler = Some 33,
       lp_in_interrupt_thread_handler = False, lp_pointers_to_clean = 0, lp_cleaning_thread = 0\<rparr>],
     this_processor = 0, cr3 = 0, events = []\<rparr>"

lemma one_waiting_queue: "processor_queue one_waiting 0 [33]"
  by (simp add: processor_queue_def one_waiting_def)

theorem interrupt_threads_run_in_order_witness:
  "\<exists>s' s''. enqueue_all queue_handler [34, 35] one_waiting = Some s'
    \<and> dequeue_all (take_handler 0) 3 s' = Some ([33, 34, 35], s'')"
proof -
  have "handler_queue {34, 35} one_waiting [33]" using one_waiting_queue by (simp add: handler_queue_def one_waiting_def)
  from interrupt_threads_run_in_order [OF this, of "[34, 35]" 0] show ?thesis by (auto simp: numeral_3_eq_3)
qed

theorem interrupt_queue_fifo_witness:
  "\<exists>s'. queue_handler 34 one_waiting = Some s' \<and> processor_queue s' 0 [33, 34]"
  using interrupt_queue_fifo [OF one_waiting_queue, of 34] by (simp add: one_waiting_def) blast

text \<open>The same processor while the thread of interrupt 33 is running; interrupt 34 has a routine that changes nothing here.\<close>

definition one_running :: scheduler where
  "one_running = set_in_interrupt True (on_processor (\<lambda>p. p\<lparr>lp_current_interrupt_thread_handler := None,
     lp_in_interrupt_thread_handler := True\<rparr>) one_waiting)"

theorem interrupted_interrupt_thread_lost_witness:
  "\<exists>s'. \<forall>stack. global_interrupt_handler 0 (\<lambda>_ _. Some) (\<lambda>_. Some) (\<lambda>_. Some (\<lambda>_. Some)) INTERRUPTS_THROUGH_APIC 7 34 stack one_running
     = Some (Some 134, s')"
proof -
  let ?t = "set_in_interrupt True one_running"
  have t: "this_processor ?t < length (logical_processors ?t)" "lp_in_interrupt_thread_handler (processor ?t)"
    "lp_current_interrupt_thread_handler (processor ?t) = None"
    "ih_processor_index (interrupt_thread_handlers ?t 34) = this_processor ?t"
    "ih_interrupt_thread (interrupt_thread_handlers ?t 34) = 34" "(34 :: u32) \<noteq> 0"
    "it_stack_pointer (ithreads ?t 34) = 134"
    by (simp_all add: one_running_def one_waiting_def sched_updates)
  have isr: "(case (\<lambda>_. Some (\<lambda>_. Some)) 34 of None \<Rightarrow> Some ?t | Some handler \<Rightarrow> handler stack ?t) = Some ?t" for stack :: u32
    by simp
  show ?thesis
    using interrupted_interrupt_thread_lost [where isr = "\<lambda>_. Some (\<lambda>_. Some)" and s = one_running, OF t(1-6) isr] t(7) by metis
qed

end
