(* ===== verification/Scheduler_Properties.thy ===== *)
theory Scheduler_Properties
  imports Interrupts
begin

text \<open>
  What the scheduler does with the kernel threads of a processor: which thread it takes, when it
  goes idle, and that identifiers of threads are unique.
\<close>

section \<open>Lists of kernel threads\<close>

fun thread_list :: "(u32 \<Rightarrow> kernel_thread) \<Rightarrow> u32 \<Rightarrow> u32 list \<Rightarrow> bool" where
  "thread_list ts p [] = (p = 0)"
| "thread_list ts p (x # xs) = (p = x \<and> x \<noteq> 0 \<and> thread_list ts (kt_next (ts x)) xs)"

definition runnable :: "u32 \<Rightarrow> kernel_thread \<Rightarrow> bool" where
  "runnable now t \<longleftrightarrow> \<not> kt_is_blocked t \<and> \<not> (kt_sleeping t \<and> sleeps_on now (kt_time_end_of_sleep t))"

definition at_thread :: "u32 \<Rightarrow> scheduler \<Rightarrow> scheduler" where
  "at_thread p s = on_kernel_list (this_processor s) (\<lambda>l. l\<lparr>kl_current_thread := p\<rparr>) s"

definition own_lists :: "scheduler \<Rightarrow> bool" where
  "own_lists s \<longleftrightarrow> this_processor s < length (kernel_threads s) \<and> this_processor s < length (logical_processors s)"

lemma at_thread_simps [simp]:
  "this_processor (at_thread p s) = this_processor s" "kthreads (at_thread p s) = kthreads s"
  "logical_processors (at_thread p s) = logical_processors s" "own_lists (at_thread p s) = own_lists s"
  "at_thread p (at_thread q s) = at_thread p s" "processes (at_thread p s) = processes s" "procs (at_thread p s) = procs s"
  "uthreads (at_thread p s) = uthreads s"
  by (simp_all add: at_thread_def on_kernel_list_def own_lists_def)
    (cases "this_processor s < length (kernel_threads s)", simp_all add: not_less list_update_beyond)

lemma next_after_at_thread:
  "own_lists s \<Longrightarrow> p \<noteq> 0 \<Longrightarrow> next_kernel_thread (at_thread p s) = kt_next (kthreads s p)"
  by (simp add: next_kernel_thread_def at_thread_def on_kernel_list_def own_lists_def)

lemma next_at_start:
  "own_lists s \<Longrightarrow> next_kernel_thread (at_thread 0 s) = kl_threads (kernel_threads s ! this_processor s)"
  by (simp add: next_kernel_thread_def at_thread_def on_kernel_list_def own_lists_def)

lemma kernel_threads_pass_step:
  "kernel_threads_pass now s =
     (let current = next_kernel_thread s; thread = kthreads s current
      in if current = 0 then Some (None, on_processor (\<lambda>p. p\<lparr>lp_scheduler_state := SCHEDULER_STATE_USER\<rparr>) (at_thread 0 s))
         else if kt_kill_me thread
         then destroy_kernel_thread (kl_current_thread (kernel_threads s ! this_processor s)) current (at_thread current s)
           \<bind> kernel_threads_pass now
         else if \<not> runnable now thread then kernel_threads_pass now (at_thread current s)
         else Some (Some (kt_stack_pointer thread),
           run_kernel_thread current (on_kernel_thread current (\<lambda>t. t\<lparr>kt_sleeping := False\<rparr>) (at_thread current s))))"
  by (subst kernel_threads_pass.simps) (auto simp: Let_def at_thread_def runnable_def on_kernel_list_def)

text \<open>A pass over threads none of which is to be killed.\<close>

lemma kernel_threads_pass_skips:
  assumes "thread_list (kthreads s) (next_kernel_thread s) (xs @ ys)" "own_lists s"
    "\<forall>x \<in> set xs. \<not> kt_kill_me (kthreads s x) \<and> \<not> runnable now (kthreads s x)" "xs \<noteq> []"
  shows "kernel_threads_pass now s = kernel_threads_pass now (at_thread (last xs) s)
    \<and> thread_list (kthreads s) (next_kernel_thread (at_thread (last xs) s)) ys"
  using assms
proof (induction xs arbitrary: s)
  case (Cons x xs)
  have x: "next_kernel_thread s = x" "x \<noteq> 0" "thread_list (kthreads s) (kt_next (kthreads s x)) (xs @ ys)"
    using Cons.prems(1) by simp_all
  have step: "kernel_threads_pass now s = kernel_threads_pass now (at_thread x s)"
    using x Cons.prems(3) by (subst kernel_threads_pass_step) (simp add: Let_def)
  have rest: "thread_list (kthreads (at_thread x s)) (next_kernel_thread (at_thread x s)) (xs @ ys)"
    using x Cons.prems(2) by (simp add: next_after_at_thread)
  show ?case
  proof (cases "xs = []")
    case True
    then show ?thesis using step rest by simp
  next
    case False
    then show ?thesis using Cons.IH [OF rest] Cons.prems(2,3) step by simp
  qed
qed simp

lemma kernel_threads_pass_none:
  assumes "thread_list (kthreads s) (next_kernel_thread s) xs" "own_lists s"
    "\<forall>x \<in> set xs. \<not> kt_kill_me (kthreads s x) \<and> \<not> runnable now (kthreads s x)"
  shows "kernel_threads_pass now s = Some (None, on_processor (\<lambda>p. p\<lparr>lp_scheduler_state := SCHEDULER_STATE_USER\<rparr>) (at_thread 0 s))"
proof (cases "xs = []")
  case True
  then show ?thesis using assms(1) by (subst kernel_threads_pass_step) simp
next
  case False
  have "thread_list (kthreads s) (next_kernel_thread s) (xs @ [])" using assms(1) by simp
  from kernel_threads_pass_skips [OF this assms(2,3) False]
  show ?thesis by (subst (asm) kernel_threads_pass_step [of now "at_thread (last xs) s"]) simp
qed

lemma kernel_threads_pass_first:
  assumes "thread_list (kthreads s) (next_kernel_thread s) (xs @ y # ys)" "own_lists s"
    "\<forall>x \<in> set xs. \<not> kt_kill_me (kthreads s x) \<and> \<not> runnable now (kthreads s x)"
    "\<not> kt_kill_me (kthreads s y)" "runnable now (kthreads s y)"
  shows "kernel_threads_pass now s = Some (Some (kt_stack_pointer (kthreads s y)),
    run_kernel_thread y (on_kernel_thread y (\<lambda>t. t\<lparr>kt_sleeping := False\<rparr>) (at_thread y s)))"
proof (cases "xs = []")
  case True
  then show ?thesis using assms by (subst kernel_threads_pass_step) (simp add: Let_def)
next
  case False
  from kernel_threads_pass_skips [OF assms(1-3) False]
  show ?thesis using assms(4,5) by (subst (asm) kernel_threads_pass_step [of now "at_thread (last xs) s"]) (simp add: Let_def)
qed

section \<open>The three passes\<close>

definition in_state :: "scheduler_state \<Rightarrow> scheduler \<Rightarrow> scheduler" where
  "in_state st = on_processor (\<lambda>p. p\<lparr>lp_scheduler_state := st\<rparr>)"

lemma in_state_simps [simp]:
  "this_processor (in_state st s) = this_processor s" "kthreads (in_state st s) = kthreads s"
  "kernel_threads (in_state st s) = kernel_threads s" "own_lists (in_state st s) = own_lists s"
  "next_kernel_thread (in_state st s) = next_kernel_thread s" "processes (in_state st s) = processes s"
  "procs (in_state st s) = procs s" "uthreads (in_state st s) = uthreads s" "at_thread p (in_state st s) = in_state st (at_thread p s)"
  by (simp_all add: in_state_def on_processor_def processor_at_def own_lists_def next_kernel_thread_def at_thread_def
      on_kernel_list_def Let_def split: if_split)

lemma processor_in_state [simp]:
  "own_lists s \<Longrightarrow> i = this_processor s \<Longrightarrow> logical_processors (in_state st s) ! i = (processor s)\<lparr>lp_scheduler_state := st\<rparr>"
  "own_lists s \<Longrightarrow> in_state st (in_state st' s) = in_state st s"
  by (simp_all add: in_state_def on_processor_def processor_at_def own_lists_def)

text \<open>No process exists, and none is being looked at.\<close>

definition no_process :: "scheduler \<Rightarrow> bool" where
  "no_process s \<longleftrightarrow> processes s = 0 \<and> lp_current_process (processor s) = 0 \<and> lp_checking_process (processor s) = 0"

lemma no_process_simps [simp]:
  "no_process (at_thread p s) = no_process s" "own_lists s \<Longrightarrow> no_process (in_state st s) = no_process s"
  by (simp_all add: no_process_def)

lemma processor_same: "own_lists s \<Longrightarrow> f (processor s) = processor s \<Longrightarrow> on_processor f s = s"
  by (simp add: on_processor_def processor_at_def own_lists_def)

lemma process_pass_none:
  assumes "no_process s" "own_lists s"
  shows "process_pass release_space remove_executable now s = Some (None, in_state SCHEDULER_STATE_KERNEL s)"
proof -
  let ?i = "this_processor s" and ?s1 = "processor_at (this_processor s) (\<lambda>p. p\<lparr>lp_checking_process := 1\<rparr>) s"
  have "lock_checking_process ?i s = Some ?s1"
    using assms by (simp add: lock_checking_process_def no_process_def lock_mutex_free)
  moreover have s1: "own_lists ?s1" "this_processor ?s1 = ?i" "processes ?s1 = 0" "lp_current_process (processor ?s1) = 0"
    using assms by (simp_all add: own_lists_def processor_at_def no_process_def)
  moreover have "on_processor (\<lambda>p. p\<lparr>lp_current_process := 0\<rparr>) ?s1 = ?s1"
    using s1(1,4) by (intro processor_same) simp_all
  moreover have eq: "(processor s)\<lparr>lp_checking_process := 0\<rparr> = processor s" using assms(1) by (cases "processor s") (simp add: no_process_def)
  have "unlock_checking_process ?i ?s1 = s"
    using assms by (simp add: unlock_checking_process_def processor_at_def own_lists_def no_process_def unlock_mutex_eq eq)
  ultimately show ?thesis by (simp add: process_pass_def Let_def in_state_def)
qed

definition taken :: "u32 \<Rightarrow> scheduler \<Rightarrow> scheduler" where
  "taken y s = run_kernel_thread y (on_kernel_thread y (\<lambda>t. t\<lparr>kt_sleeping := False\<rparr>) (at_thread y s))"

lemma find_append: "find P (xs @ ys) = (case find P xs of None \<Rightarrow> find P ys | Some x \<Rightarrow> Some x)"
  by (induction xs) simp_all

lemma find_split:
  assumes "find P xs = Some y"
  obtains as bs where "xs = as @ y # bs" "P y" "\<forall>a \<in> set as. \<not> P a"
proof -
  obtain i where i: "i < length xs" "P y" "y = xs ! i" "\<forall>j < i. \<not> P (xs ! j)" using assms by (auto simp: find_Some_iff)
  have "xs = take i xs @ y # drop (Suc i) xs" using id_take_nth_drop [OF i(1)] i(3) by simp
  moreover have "\<forall>a \<in> set (take i xs). \<not> P a" using i(1,4) by (auto simp: in_set_conv_nth)
  ultimately show thesis using that i(2) by blast
qed

lemma kernel_threads_pass_find:
  assumes "thread_list (kthreads s) (next_kernel_thread s) xs" "own_lists s" "\<forall>x \<in> set xs. \<not> kt_kill_me (kthreads s x)"
  shows "kernel_threads_pass now s = (case find (\<lambda>x. runnable now (kthreads s x)) xs of
      None \<Rightarrow> Some (None, in_state SCHEDULER_STATE_USER (at_thread 0 s))
    | Some y \<Rightarrow> Some (Some (kt_stack_pointer (kthreads s y)), taken y s))"
proof (cases "find (\<lambda>x. runnable now (kthreads s x)) xs")
  case None
  then have "\<forall>x \<in> set xs. \<not> runnable now (kthreads s x)" by (auto simp: find_None_iff)
  then show ?thesis using kernel_threads_pass_none [OF assms(1,2)] assms(3) None by (simp add: in_state_def)
next
  case (Some y)
  then obtain as bs where "xs = as @ y # bs" "runnable now (kthreads s y)" "\<forall>a \<in> set as. \<not> runnable now (kthreads s a)"
    by (rule find_split)
  then show ?thesis using kernel_threads_pass_first [OF _ assms(2), of as y bs now] assms(1,3) Some by (simp add: taken_def)
qed

section \<open>The threads of a process\<close>

fun user_list :: "(u32 \<Rightarrow> user_thread) \<Rightarrow> u32 \<Rightarrow> u32 list \<Rightarrow> bool" where
  "user_list ts p [] = (p = 0)"
| "user_list ts p (x # xs) = (p = x \<and> x \<noteq> 0 \<and> user_list ts (ut_next (ts x)) xs)"

definition user_runnable :: "u32 \<Rightarrow> user_thread \<Rightarrow> bool" where
  "user_runnable now t \<longleftrightarrow> \<not> ut_is_blocked t \<and> \<not> (ut_sleeping t \<and> sleeps_on now (ut_time_end_of_sleep t))"

text \<open>A thread that is neither killed nor to be sent to its signal handler for deletion.\<close>

definition stays :: "user_thread \<Rightarrow> bool" where
  "stays t \<longleftrightarrow> \<not> ut_kill_me t \<and> \<not> (ut_delete_me t \<and> \<not> ut_delete_signal_running t)"

definition at_user_thread :: "u32 \<Rightarrow> u32 \<Rightarrow> scheduler \<Rightarrow> scheduler" where
  "at_user_thread c p s = on_user_list c (this_processor s) (\<lambda>l. l\<lparr>ul_current_thread := p\<rparr>) s"

definition own_user_list :: "u32 \<Rightarrow> scheduler \<Rightarrow> bool" where
  "own_user_list c s \<longleftrightarrow> this_processor s < length (pr_thread_lists (procs s c))"

lemma at_user_thread_simps [simp]:
  "this_processor (at_user_thread c p s) = this_processor s" "uthreads (at_user_thread c p s) = uthreads s"
  "kthreads (at_user_thread c p s) = kthreads s" "kernel_threads (at_user_thread c p s) = kernel_threads s"
  "logical_processors (at_user_thread c p s) = logical_processors s" "own_lists (at_user_thread c p s) = own_lists s"
  "own_user_list c (at_user_thread c p s) = own_user_list c s"
  "own_user_list c s \<Longrightarrow> at_user_thread c p (at_user_thread c q s) = at_user_thread c p s"
  "own_user_list c s \<Longrightarrow> next_user_thread c (at_user_thread c p s)
    = (if p = 0 then ul_threads (pr_thread_lists (procs s c) ! this_processor s) else ut_next (uthreads s p))"
  by (simp_all add: at_user_thread_def on_user_list_def on_process_def own_lists_def own_user_list_def next_user_thread_def)

lemma user_threads_pass_step:
  assumes "stays (uthreads s (next_user_thread c s))"
  shows "user_threads_pass release_space now c s =
     (let current = next_user_thread c s; thread = uthreads s current
      in if current = 0 then Some (None, in_state SCHEDULER_STATE_KERNEL (unlock_checking_process (this_processor s) (at_user_thread c 0 s)))
         else if \<not> user_runnable now thread then user_threads_pass release_space now c (at_user_thread c current s)
         else Some (Some (ut_stack_pointer thread),
           run_user_thread now c current (on_user_thread current (\<lambda>t. t\<lparr>ut_sleeping := False\<rparr>) (at_user_thread c current s))))"
  using assms by (subst user_threads_pass.simps)
    (auto simp: Let_def at_user_thread_def user_runnable_def stays_def deliver_delete_signal_def on_user_list_def on_process_def in_state_def)

lemma user_threads_pass_end:
  assumes "next_user_thread c s = 0"
  shows "user_threads_pass release_space now c s
    = Some (None, in_state SCHEDULER_STATE_KERNEL (unlock_checking_process (this_processor s) (at_user_thread c 0 s)))"
  using assms by (subst user_threads_pass.simps) (simp add: Let_def at_user_thread_def on_user_list_def on_process_def in_state_def)

lemma user_threads_pass_find:
  assumes "user_list (uthreads s) (next_user_thread c s) xs" "own_user_list c s" "\<forall>x \<in> set xs. stays (uthreads s x)"
  shows "user_threads_pass release_space now c s = (case find (\<lambda>x. user_runnable now (uthreads s x)) xs of
      None \<Rightarrow> Some (None, in_state SCHEDULER_STATE_KERNEL (unlock_checking_process (this_processor s) (at_user_thread c 0 s)))
    | Some y \<Rightarrow> Some (Some (ut_stack_pointer (uthreads s y)),
        run_user_thread now c y (on_user_thread y (\<lambda>t. t\<lparr>ut_sleeping := False\<rparr>) (at_user_thread c y s))))"
  using assms
proof (induction xs arbitrary: s)
  case Nil
  then show ?case by (simp add: user_threads_pass_end)
next
  case (Cons x xs)
  have x: "next_user_thread c s = x" "x \<noteq> 0" "stays (uthreads s (next_user_thread c s))" using Cons.prems by simp_all
  show ?case
  proof (cases "user_runnable now (uthreads s x)")
    case True
    then show ?thesis using x by (simp add: user_threads_pass_step Let_def)
  next
    case False
    have "user_list (uthreads (at_user_thread c x s)) (next_user_thread c (at_user_thread c x s)) xs"
      using Cons.prems(1,2) x(2) by simp
    from Cons.IH [OF this] show ?thesis using Cons.prems(2,3) x False
      by (simp add: user_threads_pass_step Let_def cong: option.case_cong)
  qed
qed

text \<open>
  The process whose turn it is, the threads it offers, and the state after a pass over them: with
  no thread to run, and with thread \<open>u\<close> running.
\<close>

definition next_process :: "scheduler \<Rightarrow> u32" where
  "next_process s = (if lp_current_process (processor s) = 0 then processes s else pr_next (procs s (lp_current_process (processor s))))"

definition skipped_process :: "scheduler \<Rightarrow> bool" where
  "skipped_process s \<longleftrightarrow> next_process s = 0 \<or> pr_is_blocked (procs s (next_process s))"

definition offered :: "scheduler \<Rightarrow> u32 list \<Rightarrow> bool" where
  "offered s us \<longleftrightarrow> lp_checking_process (processor s) = 0
     \<and> (if skipped_process s then us = []
        else pr_number_of_threads (procs s (next_process s)) \<noteq> 0 \<and> own_user_list (next_process s) s
          \<and> user_list (uthreads s) (next_user_thread (next_process s) s) us \<and> (\<forall>u \<in> set us. stays (uthreads s u)))"

lemma offered_simps [simp]:
  "offered (at_thread p s) us = offered s us" "own_lists s \<Longrightarrow> offered (in_state st s) us = offered s us"
  by (simp_all add: offered_def skipped_process_def next_process_def own_user_list_def next_user_thread_def Let_def)

definition process_passed :: "scheduler \<Rightarrow> scheduler" where
  "process_passed s = in_state SCHEDULER_STATE_KERNEL (on_processor (\<lambda>p. p\<lparr>lp_current_process := next_process s\<rparr>)
     (if skipped_process s then s else at_user_thread (next_process s) 0 s))"

definition user_taken :: "u32 \<Rightarrow> u32 \<Rightarrow> scheduler \<Rightarrow> scheduler" where
  "user_taken now u s = run_user_thread now (next_process s) u
     (on_user_thread u (\<lambda>t. t\<lparr>ut_sleeping := False\<rparr>) (at_user_thread (next_process s) u s))"

lemma process_pass_find:
  assumes "own_lists s" "offered s us"
  shows "process_pass release_space remove_executable now s = (case find (\<lambda>x. user_runnable now (uthreads s x)) us of
      None \<Rightarrow> Some (None, process_passed s)
    | Some u \<Rightarrow> Some (Some (ut_stack_pointer (uthreads s u)), user_taken now u s))"
proof -
  let ?i = "this_processor s" and ?c = "next_process s"
  let ?s1 = "processor_at ?i (\<lambda>p. p\<lparr>lp_checking_process := 1\<rparr>) s"
  let ?s2 = "on_processor (\<lambda>p. p\<lparr>lp_current_process := ?c\<rparr>) ?s1"
  have free: "lp_checking_process (processor s) = 0" using assms(2) by (simp add: offered_def)
  have eq: "p\<lparr>lp_checking_process := 0\<rparr> = p" if "lp_checking_process p = 0" for p :: logical_processor using that by (cases p) simp
  have lock: "lock_checking_process ?i s = Some ?s1" using free by (simp add: lock_checking_process_def)
  have c: "(let previous = lp_current_process (processor ?s1) in if previous = 0 then processes ?s1 else pr_next (procs ?s1 previous)) = ?c"
    using assms(1) by (simp add: next_process_def processor_at_def own_lists_def)
  have unlock: "unlock_checking_process ?i ?s2 = on_processor (\<lambda>p. p\<lparr>lp_current_process := ?c\<rparr>) s"
    using assms(1) free by (simp add: unlock_checking_process_def sched_updates own_lists_def eq)
  have s2: "this_processor ?s2 = ?i" "procs ?s2 = procs s" "uthreads ?s2 = uthreads s"
    "own_user_list ?c ?s2 = own_user_list ?c s" "next_user_thread ?c ?s2 = next_user_thread ?c s"
    by (simp_all add: sched_updates own_user_list_def next_user_thread_def Let_def)
  have pass: "process_pass release_space remove_executable now s =
      (if skipped_process s then Some (None, in_state SCHEDULER_STATE_KERNEL (unlock_checking_process ?i ?s2))
       else user_threads_pass release_space now ?c ?s2)"
    using assms(2) c s2(1,2) lock
    by (simp add: process_pass_def Let_def skipped_process_def offered_def in_state_def split: if_splits)
  show ?thesis
  proof (cases "skipped_process s")
    case True
    then show ?thesis using assms(2) pass unlock by (simp add: offered_def process_passed_def)
  next
    case False
    then have u: "user_list (uthreads ?s2) (next_user_thread ?c ?s2) us" "own_user_list ?c ?s2" "\<forall>x \<in> set us. stays (uthreads ?s2 x)"
      using assms(2) s2 by (simp_all add: offered_def)
    have none: "unlock_checking_process ?i (at_user_thread ?c 0 ?s2) = on_processor (\<lambda>p. p\<lparr>lp_current_process := ?c\<rparr>) (at_user_thread ?c 0 s)"
      using assms(1) free by (simp add: unlock_checking_process_def sched_updates at_user_thread_def on_user_list_def own_lists_def eq)
    have run: "run_user_thread now ?c y (on_user_thread y (\<lambda>t. t\<lparr>ut_sleeping := False\<rparr>) (at_user_thread ?c y ?s2)) = user_taken now y s" for y
      using assms(1) free
      by (simp add: user_taken_def run_user_thread_def Let_def unlock_checking_process_def sched_updates at_user_thread_def
          on_user_list_def own_lists_def eq)
    show ?thesis using pass False user_threads_pass_find [OF u, of release_space now] none run
      by (simp add: s2(1,3) process_passed_def cong: option.case_cong)
  qed
qed

lemma process_passed_simps [simp]:
  "own_lists (process_passed s) = own_lists s" "this_processor (process_passed s) = this_processor s"
  "kthreads (process_passed s) = kthreads s" "kernel_threads (process_passed s) = kernel_threads s"
  "next_kernel_thread (process_passed s) = next_kernel_thread s"
  "own_lists s \<Longrightarrow> i = this_processor s \<Longrightarrow> lp_scheduler_state (logical_processors (process_passed s) ! i) = SCHEDULER_STATE_KERNEL"
  by (simp_all add: process_passed_def in_state_def sched_updates at_user_thread_def on_user_list_def next_kernel_thread_def own_lists_def
      Let_def)

section \<open>Properties\<close>

text \<open>
  C5. A pass over the kernel threads of a processor, none of which is to be killed, ends; it takes
  the first runnable thread behind the current one, wakes it if its time has come and runs it on
  its own stack; if there is none, it ends at the end of the list and hands over to the processes.
\<close>

theorem kernel_threads_taken_in_turn:
  assumes "thread_list (kthreads s) (next_kernel_thread s) xs" "own_lists s" "\<forall>x \<in> set xs. \<not> kt_kill_me (kthreads s x)"
  shows "kernel_threads_pass now s = (case find (\<lambda>x. runnable now (kthreads s x)) xs of
      None \<Rightarrow> Some (None, in_state SCHEDULER_STATE_USER (at_thread 0 s))
    | Some y \<Rightarrow> Some (Some (kt_stack_pointer (kthreads s y)), taken y s))"
  by (rule kernel_threads_pass_find [OF assms])

lemma kernel_pass_none:
  assumes "thread_list (kthreads s) (next_kernel_thread s) xs" "own_lists s"
    "\<forall>x \<in> set xs. \<not> kt_kill_me (kthreads s x) \<and> \<not> runnable now (kthreads s x)"
  shows "kernel_threads_pass now s = Some (None, in_state SCHEDULER_STATE_USER (at_thread 0 s))"
  using kernel_threads_pass_none [OF assms] by (simp add: in_state_def)

text \<open>
  C23. If the scheduler starts with the processes, of which there is none, and no kernel thread
  behind the current one is runnable, it goes idle whatever the threads before the current one
  are: its three passes look at the end of the list only, although the comment in the code says
  that they have checked everything at least once.
\<close>

theorem three_passes_miss_threads:
  assumes "own_lists s" "no_process s" "lp_scheduler_state (processor s) = SCHEDULER_STATE_USER"
    "thread_list (kthreads s) (next_kernel_thread s) ys"
    "\<forall>y \<in> set ys. \<not> kt_kill_me (kthreads s y) \<and> \<not> runnable now (kthreads s y)"
  shows "scheduler_passes 3 release_space remove_executable now s = Some (go_idle (in_state SCHEDULER_STATE_KERNEL (at_thread 0 s)))"
proof -
  let ?s1 = "in_state SCHEDULER_STATE_KERNEL s" and ?s2 = "in_state SCHEDULER_STATE_USER (at_thread 0 s)"
  have p1: "process_pass release_space remove_executable now s = Some (None, ?s1)" by (rule process_pass_none [OF assms(2,1)])
  have p2: "kernel_threads_pass now ?s1 = Some (None, ?s2)"
    using kernel_pass_none [of ?s1 ys now] assms by simp
  have p3: "process_pass release_space remove_executable now ?s2 = Some (None, in_state SCHEDULER_STATE_KERNEL (at_thread 0 s))"
    using process_pass_none [of ?s2] assms(1,2) by simp
  show ?thesis using assms(1,3) p1 p2 p3 by (simp add: numeral_3_eq_3)
qed

text \<open>
  C16. What the three passes check if the scheduler starts with the kernel threads: first the kernel
  threads behind the current one, then the threads of one process, the one whose turn it is, unless
  it is blocked, and then all kernel threads from the start of the list. The first runnable thread
  in this order is run; the processor goes idle if and only if there is none, so every kernel
  thread has been checked, but of the processes only the one. The threads that are looked at are
  not to be deleted, the process has threads, and no other processor is checking it.
\<close>

theorem kernel_threads_all_checked:
  assumes "own_lists s" "lp_scheduler_state (processor s) = SCHEDULER_STATE_KERNEL"
    "thread_list (kthreads s) (next_kernel_thread s) ys"
    "thread_list (kthreads s) (kl_threads (kernel_threads s ! this_processor s)) (xs @ ys)"
    "\<forall>x \<in> set (xs @ ys). \<not> kt_kill_me (kthreads s x)" "offered s us"
    "t = process_passed (in_state SCHEDULER_STATE_USER (at_thread 0 s))"
  shows "scheduler_passes 3 release_space remove_executable now s =
    (case find (\<lambda>x. runnable now (kthreads s x)) ys of
       Some y \<Rightarrow> Some (kt_stack_pointer (kthreads s y), taken y s)
     | None \<Rightarrow> (case find (\<lambda>u. user_runnable now (uthreads s u)) us of
         Some u \<Rightarrow> Some (ut_stack_pointer (uthreads s u), user_taken now u (in_state SCHEDULER_STATE_USER (at_thread 0 s)))
       | None \<Rightarrow> (case find (\<lambda>x. runnable now (kthreads s x)) xs of
           Some x \<Rightarrow> Some (kt_stack_pointer (kthreads s x), taken x t)
         | None \<Rightarrow> Some (go_idle (in_state SCHEDULER_STATE_USER (at_thread 0 t))))))"
proof -
  let ?s1 = "in_state SCHEDULER_STATE_USER (at_thread 0 s)"
  have p1: "kernel_threads_pass now s = (case find (\<lambda>x. runnable now (kthreads s x)) ys of
      None \<Rightarrow> Some (None, ?s1) | Some y \<Rightarrow> Some (Some (kt_stack_pointer (kthreads s y)), taken y s))"
    using kernel_threads_pass_find [OF assms(3,1)] assms(5) by simp
  have s1: "own_lists ?s1" "offered ?s1 us" "uthreads ?s1 = uthreads s" "lp_scheduler_state (processor ?s1) = SCHEDULER_STATE_USER"
    using assms(1,6) by simp_all
  have p2: "process_pass release_space remove_executable now ?s1 = (case find (\<lambda>u. user_runnable now (uthreads s u)) us of
      None \<Rightarrow> Some (None, t) | Some u \<Rightarrow> Some (Some (ut_stack_pointer (uthreads s u)), user_taken now u ?s1))"
    using process_pass_find [OF s1(1,2), of release_space remove_executable now] s1(3) assms(7) by (simp cong: option.case_cong)
  have t: "own_lists t" "lp_scheduler_state (processor t) = SCHEDULER_STATE_KERNEL" "kthreads t = kthreads s"
    "thread_list (kthreads t) (next_kernel_thread t) (xs @ ys)"
    using assms(1,4,7) by (simp_all add: next_at_start)
  have p3: "kernel_threads_pass now t = (case find (\<lambda>x. runnable now (kthreads s x)) (xs @ ys) of
      None \<Rightarrow> Some (None, in_state SCHEDULER_STATE_USER (at_thread 0 t))
    | Some x \<Rightarrow> Some (Some (kt_stack_pointer (kthreads s x)), taken x t))"
    using kernel_threads_pass_find [OF t(4,1)] assms(5) t(3) by (simp cong: option.case_cong)
  show ?thesis using assms(2) s1(4) t(2) p1 p2 p3
    by (cases "find (\<lambda>x. runnable now (kthreads s x)) ys"; cases "find (\<lambda>u. user_runnable now (uthreads s u)) us";
        cases "find (\<lambda>x. runnable now (kthreads s x)) xs") (simp_all add: numeral_3_eq_3 find_append)
qed

section \<open>Two kernel threads on one processor\<close>

definition two_threads :: "u32 \<Rightarrow> scheduler_state \<Rightarrow> scheduler" where
  "two_threads current st = one_waiting\<lparr>
     kernel_threads := [\<lparr>kl_number_of_running_threads = 2, kl_current_thread = current, kl_threads = 100\<rparr>],
     kthreads := (kthreads one_waiting)(100 := (kthreads one_waiting 100)\<lparr>kt_next := 200, kt_stack_pointer := 0x5000\<rparr>,
       200 := (kthreads one_waiting 200)\<lparr>kt_is_blocked := True\<rparr>),
     logical_processors := map (\<lambda>p. p\<lparr>lp_scheduler_state := st\<rparr>) (logical_processors one_waiting)\<rparr>"

lemma two_threads:
  "own_lists (two_threads p st)" "no_process (two_threads p st)" "this_processor (two_threads p st) = 0"
  "lp_scheduler_state (logical_processors (two_threads p st) ! 0) = st"
  "kt_next (kthreads (two_threads p st) 100) = 200" "kt_next (kthreads (two_threads p st) 200) = 0"
  "next_kernel_thread (two_threads 0 st) = 100" "next_kernel_thread (two_threads 200 st) = 0"
  "kl_threads (kernel_threads (two_threads p st) ! 0) = 100"
  "thread_list (kthreads (two_threads p st)) 100 [100, 200]"
  "\<not> kt_kill_me (kthreads (two_threads p st) x)" "kt_stack_pointer (kthreads (two_threads p st) 100) = 0x5000"
  "runnable now (kthreads (two_threads p st) 100)" "\<not> runnable now (kthreads (two_threads p st) 200)"
  by (simp_all add: two_threads_def one_waiting_def own_lists_def no_process_def next_kernel_thread_def
      runnable_def)

theorem kernel_threads_taken_in_turn_witness:
  "kernel_threads_pass 0 (two_threads 0 SCHEDULER_STATE_KERNEL)
     = Some (Some 0x5000, taken 100 (two_threads 0 SCHEDULER_STATE_KERNEL))"
  using kernel_threads_taken_in_turn [of "two_threads 0 SCHEDULER_STATE_KERNEL" "[100, 200]" 0] by (simp add: two_threads)

theorem three_passes_miss_threads_witness:
  "scheduler_passes 3 (\<lambda>_ _ s. Some s) (\<lambda>_ s. Some s) 0 (two_threads 200 SCHEDULER_STATE_USER)
     = Some (go_idle (in_state SCHEDULER_STATE_KERNEL (at_thread 0 (two_threads 200 SCHEDULER_STATE_USER))))
   \<and> runnable 0 (kthreads (two_threads 200 SCHEDULER_STATE_USER) 100)"
  using three_passes_miss_threads [of "two_threads 200 SCHEDULER_STATE_USER" "[]"] by (simp add: two_threads)

text \<open>The same kernel threads, the second one of which was run last, and a process with one thread.\<close>

definition one_process :: "bool \<Rightarrow> scheduler" where
  "one_process blocked = (two_threads 200 SCHEDULER_STATE_KERNEL)\<lparr>processes := 300,
     procs := (procs one_waiting)(300 := (procs one_waiting 300)\<lparr>pr_number_of_threads := 1,
       pr_thread_lists := [\<lparr>ul_number_of_running_threads = 1, ul_tid_bitmap = 1, ul_current_thread = 0, ul_threads = 400\<rparr>]\<rparr>),
     uthreads := (uthreads one_waiting)(400 := (uthreads one_waiting 400)\<lparr>ut_stack_pointer := 0x6000, ut_is_blocked := blocked\<rparr>)\<rparr>"

lemma one_process:
  "own_lists (one_process b)" "lp_scheduler_state (logical_processors (one_process b) ! 0) = SCHEDULER_STATE_KERNEL"
  "this_processor (one_process b) = 0" "kernel_threads (one_process b) = kernel_threads (two_threads 200 SCHEDULER_STATE_KERNEL)"
  "kthreads (one_process b) = kthreads (two_threads 200 SCHEDULER_STATE_KERNEL)" "next_kernel_thread (one_process b) = 0"
  "offered (one_process b) [400]" "user_runnable now (uthreads (one_process b) 400) \<longleftrightarrow> \<not> b"
  "ut_stack_pointer (uthreads (one_process b) 400) = 0x6000"
  by (simp_all add: one_process_def two_threads_def one_waiting_def own_lists_def next_kernel_thread_def offered_def
      skipped_process_def next_process_def own_user_list_def next_user_thread_def stays_def user_runnable_def)

theorem kernel_threads_all_checked_witness:
  "scheduler_passes 3 (\<lambda>_ _ s. Some s) (\<lambda>_ s. Some s) 0 (one_process False)
     = Some (0x6000, user_taken 0 400 (in_state SCHEDULER_STATE_USER (at_thread 0 (one_process False))))
   \<and> scheduler_passes 3 (\<lambda>_ _ s. Some s) (\<lambda>_ s. Some s) 0 (one_process True)
     = Some (0x5000, taken 100 (process_passed (in_state SCHEDULER_STATE_USER (at_thread 0 (one_process True)))))"
  using kernel_threads_all_checked [of "one_process False" "[]" "[100, 200]" "[400]", OF _ _ _ _ _ _ refl]
    kernel_threads_all_checked [of "one_process True" "[]" "[100, 200]" "[400]", OF _ _ _ _ _ _ refl]
  by (simp add: one_process two_threads)

section \<open>Identifiers of kernel threads\<close>

lemma tid_scan_Some: "tid_scan n i tids = Some j \<Longrightarrow> i \<le> j \<and> j < i + n \<and> \<not> tids ! j \<and> (\<forall>k. i \<le> k \<longrightarrow> k < j \<longrightarrow> tids ! k)"
proof (induction n arbitrary: i)
  case (Suc n)
  show ?case
  proof (cases "tids ! i")
    case True
    then have "i + 1 \<le> j \<and> j < i + 1 + n \<and> \<not> tids ! j \<and> (\<forall>k. i + 1 \<le> k \<longrightarrow> k < j \<longrightarrow> tids ! k)"
      using Suc.IH [of "i + 1"] Suc.prems by simp
    then show ?thesis using True by (auto simp: Suc_le_eq le_less) (metis Suc_lessI)
  next
    case False
    then show ?thesis using Suc.prems by simp
  qed
qed simp

lemma tid_scan_None: "tid_scan n i tids = None \<longleftrightarrow> (\<forall>j. i \<le> j \<longrightarrow> j < i + n \<longrightarrow> tids ! j)"
proof (induction n arbitrary: i)
  case (Suc n)
  show ?case
  proof (cases "tids ! i")
    case True
    then have "(\<forall>j. i \<le> j \<longrightarrow> j < i + Suc n \<longrightarrow> tids ! j) \<longleftrightarrow> (\<forall>j. i + 1 \<le> j \<longrightarrow> j < i + 1 + n \<longrightarrow> tids ! j)"
      by (metis Suc_eq_plus1 add_Suc_right add_Suc le_eq_less_or_eq less_eq_Suc_le)
    then show ?thesis using True Suc.IH by simp
  next
    case False
    then show ?thesis by auto
  qed
qed auto

text \<open>
  The identifier that a new kernel thread gets was free, belongs to the processor that it was
  asked for and is taken afterwards, and releasing it gives the map of before back; zero is
  returned if and only if all identifiers of the processor are taken, and then nothing changes.
\<close>

theorem kernel_tid_round_trip:
  assumes "length (kernel_tid_map s) = processors * MAX_NUMBER_OF_THREADS_PER_PROCESSOR" "target < processors"
    "processors \<le> 2 ^ 15" "get_unique_kernel_tid target s = (tid, s')"
  shows "if tid = 0
    then s' = s \<and> (\<forall>k < MAX_NUMBER_OF_THREADS_PER_PROCESSOR. kernel_tid_map s ! (target * MAX_NUMBER_OF_THREADS_PER_PROCESSOR + k))
    else (\<exists>k < MAX_NUMBER_OF_THREADS_PER_PROCESSOR. unat (tid - 1) = target * MAX_NUMBER_OF_THREADS_PER_PROCESSOR + k)
      \<and> \<not> kernel_tid_map s ! unat (tid - 1) \<and> kernel_tid_map s' ! unat (tid - 1) \<and> release_unique_kernel_tid tid s' = s"
proof (cases "tid_scan MAX_NUMBER_OF_THREADS_PER_PROCESSOR (target * MAX_NUMBER_OF_THREADS_PER_PROCESSOR) (kernel_tid_map s)")
  case None
  then have "tid = 0" "s' = s" using assms(4) by (simp_all add: get_unique_kernel_tid_def)
  then show ?thesis using None by (simp add: tid_scan_None)
next
  case (Some i)
  let ?n = "MAX_NUMBER_OF_THREADS_PER_PROCESSOR"
  have i: "target * ?n \<le> i" "i < target * ?n + ?n" "\<not> kernel_tid_map s ! i" using tid_scan_Some [OF Some] by simp_all
  have s': "tid = of_nat (i + 1)" "s' = s\<lparr>kernel_tid_map := (kernel_tid_map s)[i := True]\<rparr>"
    using assms(4) Some by (simp_all add: get_unique_kernel_tid_def)
  have "(target + 1) * ?n \<le> processors * ?n" using assms(2) by (intro mult_le_mono1) simp
  then have "i < processors * ?n" using i(2) by simp
  then have len: "i < length (kernel_tid_map s)" using assms(1) by simp
  have "processors * ?n \<le> 2 ^ 15 * ?n" by (rule mult_le_mono1 [OF assms(3)])
  then have "i < 2 ^ 27" using \<open>i < processors * ?n\<close> by (simp add: MAX_NUMBER_OF_THREADS_PER_PROCESSOR_def)
  then have u: "unat tid = i + 1" by (simp add: s' unat_of_nat take_bit_nat_eq_self del: of_nat_Suc of_nat_add)
  then have "tid \<noteq> 0" by auto
  then have "1 \<le> tid" by (simp add: word_le_nat_alt u)
  then have t: "unat (tid - 1) = i" using u by (simp add: unat_sub)
  have "\<exists>k < ?n. i = target * ?n + k" using i(1,2) by (intro exI [of _ "i - target * ?n"]) simp
  then show ?thesis using \<open>tid \<noteq> 0\<close> i(3) len
    by (simp add: t s'(2) release_unique_kernel_tid_def list_update_same_conv)
qed

definition fresh_tids :: scheduler where
  "fresh_tids = one_waiting\<lparr>kernel_tid_map := True # replicate 4095 False\<rparr>"

theorem kernel_tid_round_trip_witness:
  "release_unique_kernel_tid 2 (fresh_tids\<lparr>kernel_tid_map := True # True # replicate 4094 False\<rparr>) = fresh_tids"
proof -
  have "replicate 4095 False = False # replicate 4094 False" by (simp flip: replicate_Suc)
  moreover have "tid_scan 4096 0 (True # False # replicate 4094 False) = Some 1" by (simp add: numeral_eq_Suc)
  ultimately have "get_unique_kernel_tid 0 fresh_tids = (2, fresh_tids\<lparr>kernel_tid_map := True # True # replicate 4094 False\<rparr>)"
    by (simp add: get_unique_kernel_tid_def fresh_tids_def MAX_NUMBER_OF_THREADS_PER_PROCESSOR_def)
  from kernel_tid_round_trip [OF _ _ _ this, of 1] show ?thesis
    by (simp add: fresh_tids_def MAX_NUMBER_OF_THREADS_PER_PROCESSOR_def)
qed

end
