(* ===== verification/Keyboard_Layout.thy ===== *)
theory Keyboard_Layout
  imports Prelude
begin

text \<open>
  The keys of \<open>groups/human_input/human_input.h\<close> and the layouts of
  \<open>groups/human_input/keyboard_layout.c\<close>: tables from keys to unicode characters, zero for a key
  without a character.
\<close>

section \<open>Keys\<close>

definition KEY_A :: nat where "KEY_A = 1"
definition KEY_B :: nat where "KEY_B = 2"
definition KEY_C :: nat where "KEY_C = 3"
definition KEY_D :: nat where "KEY_D = 4"
definition KEY_E :: nat where "KEY_E = 5"
definition KEY_F :: nat where "KEY_F = 6"
definition KEY_G :: nat where "KEY_G = 7"
definition KEY_H :: nat where "KEY_H = 8"
definition KEY_I :: nat where "KEY_I = 9"
definition KEY_J :: nat where "KEY_J = 10"
definition KEY_K :: nat where "KEY_K = 11"
definition KEY_L :: nat where "KEY_L = 12"
definition KEY_M :: nat where "KEY_M = 13"
definition KEY_N :: nat where "KEY_N = 14"
definition KEY_O :: nat where "KEY_O = 15"
definition KEY_P :: nat where "KEY_P = 16"
definition KEY_Q :: nat where "KEY_Q = 17"
definition KEY_R :: nat where "KEY_R = 18"
definition KEY_S :: nat where "KEY_S = 19"
definition KEY_T :: nat where "KEY_T = 20"
definition KEY_U :: nat where "KEY_U = 21"
definition KEY_V :: nat where "KEY_V = 22"
definition KEY_W :: nat where "KEY_W = 23"
definition KEY_X :: nat where "KEY_X = 24"
definition KEY_Y :: nat where "KEY_Y = 25"
definition KEY_Z :: nat where "KEY_Z = 26"
definition KEY_0 :: nat where "KEY_0 = 27"
definition KEY_1 :: nat where "KEY_1 = 28"
definition KEY_2 :: nat where "KEY_2 = 29"
definition KEY_3 :: nat where "KEY_3 = 30"
definition KEY_4 :: nat where "KEY_4 = 31"
definition KEY_5 :: nat where "KEY_5 = 32"
definition KEY_6 :: nat where "KEY_6 = 33"
definition KEY_7 :: nat where "KEY_7 = 34"
definition KEY_8 :: nat where "KEY_8 = 35"
definition KEY_9 :: nat where "KEY_9 = 36"
definition KEY_LEFT_CTRL :: nat where "KEY_LEFT_CTRL = 37"
definition KEY_LEFT_SHIFT :: nat where "KEY_LEFT_SHIFT = 38"
definition KEY_LEFT_ALT :: nat where "KEY_LEFT_ALT = 39"
definition KEY_LEFT_GUI :: nat where "KEY_LEFT_GUI = 40"
definition KEY_RIGHT_CTRL :: nat where "KEY_RIGHT_CTRL = 41"
definition KEY_RIGHT_SHIFT :: nat where "KEY_RIGHT_SHIFT = 42"
definition KEY_RIGHT_ALT :: nat where "KEY_RIGHT_ALT = 43"
definition KEY_RIGHT_GUI :: nat where "KEY_RIGHT_GUI = 44"
definition KEY_CAPS_LOCK :: nat where "KEY_CAPS_LOCK = 45"
definition KEY_NUM_LOCK :: nat where "KEY_NUM_LOCK = 46"
definition KEY_SCROLL_LOCK :: nat where "KEY_SCROLL_LOCK = 47"
definition KEY_ESCAPE :: nat where "KEY_ESCAPE = 48"
definition KEY_F1 :: nat where "KEY_F1 = 49"
definition KEY_F2 :: nat where "KEY_F2 = 50"
definition KEY_F3 :: nat where "KEY_F3 = 51"
definition KEY_F4 :: nat where "KEY_F4 = 52"
definition KEY_F5 :: nat where "KEY_F5 = 53"
definition KEY_F6 :: nat where "KEY_F6 = 54"
definition KEY_F7 :: nat where "KEY_F7 = 55"
definition KEY_F8 :: nat where "KEY_F8 = 56"
definition KEY_F9 :: nat where "KEY_F9 = 57"
definition KEY_F10 :: nat where "KEY_F10 = 58"
definition KEY_F11 :: nat where "KEY_F11 = 59"
definition KEY_F12 :: nat where "KEY_F12 = 60"
definition KEY_PRINT_SCREEN :: nat where "KEY_PRINT_SCREEN = 73"
definition KEY_PAUSE :: nat where "KEY_PAUSE = 74"
definition KEY_INSERT :: nat where "KEY_INSERT = 75"
definition KEY_DELETE :: nat where "KEY_DELETE = 76"
definition KEY_HOME :: nat where "KEY_HOME = 77"
definition KEY_END :: nat where "KEY_END = 78"
definition KEY_PAGE_UP :: nat where "KEY_PAGE_UP = 79"
definition KEY_PAGE_DOWN :: nat where "KEY_PAGE_DOWN = 80"
definition KEY_UP_ARROW :: nat where "KEY_UP_ARROW = 81"
definition KEY_DOWN_ARROW :: nat where "KEY_DOWN_ARROW = 82"
definition KEY_LEFT_ARROW :: nat where "KEY_LEFT_ARROW = 83"
definition KEY_RIGHT_ARROW :: nat where "KEY_RIGHT_ARROW = 84"
definition KEY_GRAVE :: nat where "KEY_GRAVE = 85"
definition KEY_MINUS :: nat where "KEY_MINUS = 86"
definition KEY_EQUAL :: nat where "KEY_EQUAL = 87"
definition KEY_BACKSPACE :: nat where "KEY_BACKSPACE = 88"
definition KEY_TAB :: nat where "KEY_TAB = 89"
definition KEY_LEFT_BRACKET :: nat where "KEY_LEFT_BRACKET = 90"
definition KEY_RIGHT_BRACKET :: nat where "KEY_RIGHT_BRACKET = 91"
definition KEY_BACKSLASH :: nat where "KEY_BACKSLASH = 92"
definition KEY_SEMICOLON :: nat where "KEY_SEMICOLON = 93"
definition KEY_APOSTROPHE :: nat where "KEY_APOSTROPHE = 94"
definition KEY_COMMA :: nat where "KEY_COMMA = 95"
definition KEY_PERIOD :: nat where "KEY_PERIOD = 96"
definition KEY_SLASH :: nat where "KEY_SLASH = 97"
definition KEY_SPACE :: nat where "KEY_SPACE = 98"
definition KEY_ENTER :: nat where "KEY_ENTER = 99"
definition KEY_NUMPAD_0 :: nat where "KEY_NUMPAD_0 = 100"
definition KEY_NUMPAD_1 :: nat where "KEY_NUMPAD_1 = 101"
definition KEY_NUMPAD_2 :: nat where "KEY_NUMPAD_2 = 102"
definition KEY_NUMPAD_3 :: nat where "KEY_NUMPAD_3 = 103"
definition KEY_NUMPAD_4 :: nat where "KEY_NUMPAD_4 = 104"
definition KEY_NUMPAD_5 :: nat where "KEY_NUMPAD_5 = 105"
definition KEY_NUMPAD_6 :: nat where "KEY_NUMPAD_6 = 106"
definition KEY_NUMPAD_7 :: nat where "KEY_NUMPAD_7 = 107"
definition KEY_NUMPAD_8 :: nat where "KEY_NUMPAD_8 = 108"
definition KEY_NUMPAD_9 :: nat where "KEY_NUMPAD_9 = 109"
definition KEY_NUMPAD_DOT :: nat where "KEY_NUMPAD_DOT = 110"
definition KEY_NUMPAD_ENTER :: nat where "KEY_NUMPAD_ENTER = 111"
definition KEY_NUMPAD_PLUS :: nat where "KEY_NUMPAD_PLUS = 112"
definition KEY_NUMPAD_MINUS :: nat where "KEY_NUMPAD_MINUS = 113"
definition KEY_NUMPAD_ASTERISK :: nat where "KEY_NUMPAD_ASTERISK = 114"
definition KEY_NUMPAD_SLASH :: nat where "KEY_NUMPAD_SLASH = 115"
definition KEY_VOLUME_MUTE :: nat where "KEY_VOLUME_MUTE = 116"
definition KEY_VOLUME_DOWN :: nat where "KEY_VOLUME_DOWN = 117"
definition KEY_VOLUME_UP :: nat where "KEY_VOLUME_UP = 118"
definition KEY_MEDIA_NEXT :: nat where "KEY_MEDIA_NEXT = 119"
definition KEY_MEDIA_PREV :: nat where "KEY_MEDIA_PREV = 120"
definition KEY_MEDIA_STOP :: nat where "KEY_MEDIA_STOP = 121"
definition KEY_MEDIA_PLAY_PAUSE :: nat where "KEY_MEDIA_PLAY_PAUSE = 122"
definition KEY_MEDIA_SELECT :: nat where "KEY_MEDIA_SELECT = 123"
definition KEY_LAUNCH_MAIL :: nat where "KEY_LAUNCH_MAIL = 124"
definition KEY_LAUNCH_BROWSER :: nat where "KEY_LAUNCH_BROWSER = 125"
definition KEY_LAUNCH_CALCULATOR :: nat where "KEY_LAUNCH_CALCULATOR = 126"
definition KEY_LAUNCH_APPS :: nat where "KEY_LAUNCH_APPS = 127"
definition KEY_LAUNCH_MY_COMPUTER :: nat where "KEY_LAUNCH_MY_COMPUTER = 129"
definition KEY_POWER :: nat where "KEY_POWER = 130"
definition KEY_SLEEP :: nat where "KEY_SLEEP = 131"
definition KEY_WAKE :: nat where "KEY_WAKE = 132"
definition KEY_WWW_FAVOURITES :: nat where "KEY_WWW_FAVOURITES = 133"
definition KEY_WWW_REFRESH :: nat where "KEY_WWW_REFRESH = 134"
definition KEY_WWW_STOP :: nat where "KEY_WWW_STOP = 135"
definition KEY_WWW_FORWARD :: nat where "KEY_WWW_FORWARD = 136"
definition KEY_WWW_BACK :: nat where "KEY_WWW_BACK = 137"
definition KEY_WWW_HOME :: nat where "KEY_WWW_HOME = 138"
definition KEY_WWW_SEARCH :: nat where "KEY_WWW_SEARCH = 139"
definition INPUT_KEY_COUNT :: nat where "INPUT_KEY_COUNT = 149"

section \<open>Tables\<close>

text \<open>An array with designated initializers.\<close>

definition key_table :: "(nat \<times> u32) list \<Rightarrow> nat \<Rightarrow> u32" where
  "key_table entries = fold (\<lambda>(k, c) t. t(k := c)) entries (\<lambda>_. 0)"

definition en_keyboard_no_shift_to_unicode :: "nat \<Rightarrow> u32" where
  "en_keyboard_no_shift_to_unicode = key_table [(KEY_A, 0x61), (KEY_B, 0x62), (KEY_C, 0x63), (KEY_D, 0x64), (KEY_E, 0x65), (KEY_F, 0x66),
     (KEY_G, 0x67), (KEY_H, 0x68), (KEY_I, 0x69), (KEY_J, 0x6a), (KEY_K, 0x6b), (KEY_L, 0x6c),
     (KEY_M, 0x6d), (KEY_N, 0x6e), (KEY_O, 0x6f), (KEY_P, 0x70), (KEY_Q, 0x71), (KEY_R, 0x72),
     (KEY_S, 0x73), (KEY_T, 0x74), (KEY_U, 0x75), (KEY_V, 0x76), (KEY_W, 0x77), (KEY_X, 0x78),
     (KEY_Y, 0x79), (KEY_Z, 0x7a), (KEY_0, 0x30), (KEY_1, 0x31), (KEY_2, 0x32), (KEY_3, 0x33),
     (KEY_4, 0x34), (KEY_5, 0x35), (KEY_6, 0x36), (KEY_7, 0x37), (KEY_8, 0x38), (KEY_9, 0x39),
     (KEY_GRAVE, 0x60), (KEY_MINUS, 0x2d), (KEY_EQUAL, 0x3d), (KEY_LEFT_BRACKET, 0x5b), (KEY_RIGHT_BRACKET, 0x5d), (KEY_BACKSLASH, 0x5c),
     (KEY_SEMICOLON, 0x3b), (KEY_APOSTROPHE, 0x27), (KEY_COMMA, 0x2c), (KEY_PERIOD, 0x2e), (KEY_SLASH, 0x2f), (KEY_SPACE, 0x20),
     (KEY_TAB, 0x9), (KEY_ENTER, 0xa), (KEY_NUMPAD_0, 0x30), (KEY_NUMPAD_1, 0x31), (KEY_NUMPAD_2, 0x32), (KEY_NUMPAD_3, 0x33),
     (KEY_NUMPAD_4, 0x34), (KEY_NUMPAD_5, 0x35), (KEY_NUMPAD_6, 0x36), (KEY_NUMPAD_7, 0x37), (KEY_NUMPAD_8, 0x38), (KEY_NUMPAD_9, 0x39),
     (KEY_NUMPAD_DOT, 0x2e), (KEY_NUMPAD_PLUS, 0x2b), (KEY_NUMPAD_MINUS, 0x2d), (KEY_NUMPAD_ASTERISK, 0x2a), (KEY_NUMPAD_SLASH, 0x2f)]"

definition en_keyboard_with_shift_to_unicode :: "nat \<Rightarrow> u32" where
  "en_keyboard_with_shift_to_unicode = key_table [(KEY_A, 0x41), (KEY_B, 0x42), (KEY_C, 0x43), (KEY_D, 0x44), (KEY_E, 0x45), (KEY_F, 0x46),
     (KEY_G, 0x47), (KEY_H, 0x48), (KEY_I, 0x49), (KEY_J, 0x4a), (KEY_K, 0x4b), (KEY_L, 0x4c),
     (KEY_M, 0x4d), (KEY_N, 0x4e), (KEY_O, 0x4f), (KEY_P, 0x50), (KEY_Q, 0x51), (KEY_R, 0x52),
     (KEY_S, 0x53), (KEY_T, 0x54), (KEY_U, 0x55), (KEY_V, 0x56), (KEY_W, 0x57), (KEY_X, 0x58),
     (KEY_Y, 0x59), (KEY_Z, 0x5a), (KEY_0, 0x29), (KEY_1, 0x21), (KEY_2, 0x40), (KEY_3, 0x23),
     (KEY_4, 0x24), (KEY_5, 0x25), (KEY_6, 0x5e), (KEY_7, 0x26), (KEY_8, 0x2a), (KEY_9, 0x28),
     (KEY_GRAVE, 0x7e), (KEY_MINUS, 0x5f), (KEY_EQUAL, 0x2b), (KEY_LEFT_BRACKET, 0x7b), (KEY_RIGHT_BRACKET, 0x7d), (KEY_BACKSLASH, 0x7c),
     (KEY_SEMICOLON, 0x3a), (KEY_APOSTROPHE, 0x22), (KEY_COMMA, 0x3c), (KEY_PERIOD, 0x3e), (KEY_SLASH, 0x3f), (KEY_SPACE, 0x20),
     (KEY_TAB, 0x9), (KEY_ENTER, 0xa), (KEY_NUMPAD_0, 0x30), (KEY_NUMPAD_1, 0x31), (KEY_NUMPAD_2, 0x32), (KEY_NUMPAD_3, 0x33),
     (KEY_NUMPAD_4, 0x34), (KEY_NUMPAD_5, 0x35), (KEY_NUMPAD_6, 0x36), (KEY_NUMPAD_7, 0x37), (KEY_NUMPAD_8, 0x38), (KEY_NUMPAD_9, 0x39),
     (KEY_NUMPAD_DOT, 0x2e), (KEY_NUMPAD_PLUS, 0x2b), (KEY_NUMPAD_MINUS, 0x2d), (KEY_NUMPAD_ASTERISK, 0x2a), (KEY_NUMPAD_SLASH, 0x2f)]"

definition sk_keyboard_no_shift_to_unicode :: "nat \<Rightarrow> u32" where
  "sk_keyboard_no_shift_to_unicode = key_table [(KEY_A, 0x61), (KEY_B, 0x62), (KEY_C, 0x63), (KEY_D, 0x64), (KEY_E, 0x65), (KEY_F, 0x66),
     (KEY_G, 0x67), (KEY_H, 0x68), (KEY_I, 0x69), (KEY_J, 0x6a), (KEY_K, 0x6b), (KEY_L, 0x6c),
     (KEY_M, 0x6d), (KEY_N, 0x6e), (KEY_O, 0x6f), (KEY_P, 0x70), (KEY_Q, 0x71), (KEY_R, 0x72),
     (KEY_S, 0x73), (KEY_T, 0x74), (KEY_U, 0x75), (KEY_V, 0x76), (KEY_W, 0x77), (KEY_X, 0x78),
     (KEY_Y, 0x7a), (KEY_Z, 0x79), (KEY_1, 0x2b), (KEY_2, 0x13e), (KEY_3, 0x161), (KEY_4, 0x10d),
     (KEY_5, 0x165), (KEY_6, 0x17e), (KEY_7, 0xfd), (KEY_8, 0xe1), (KEY_9, 0xed), (KEY_0, 0xe9),
     (KEY_GRAVE, 0x3b), (KEY_MINUS, 0xb4), (KEY_EQUAL, 0x2c7), (KEY_LEFT_BRACKET, 0xfa), (KEY_RIGHT_BRACKET, 0xe4), (KEY_BACKSLASH, 0x148),
     (KEY_SEMICOLON, 0xf4), (KEY_APOSTROPHE, 0xa7), (KEY_COMMA, 0x2c), (KEY_PERIOD, 0x2e), (KEY_SLASH, 0x2d), (KEY_SPACE, 0x20),
     (KEY_TAB, 0x9), (KEY_ENTER, 0xa), (KEY_NUMPAD_0, 0x30), (KEY_NUMPAD_1, 0x31), (KEY_NUMPAD_2, 0x32), (KEY_NUMPAD_3, 0x33),
     (KEY_NUMPAD_4, 0x34), (KEY_NUMPAD_5, 0x35), (KEY_NUMPAD_6, 0x36), (KEY_NUMPAD_7, 0x37), (KEY_NUMPAD_8, 0x38), (KEY_NUMPAD_9, 0x39),
     (KEY_NUMPAD_DOT, 0x2c), (KEY_NUMPAD_PLUS, 0x2b), (KEY_NUMPAD_MINUS, 0x2d), (KEY_NUMPAD_ASTERISK, 0x2a), (KEY_NUMPAD_SLASH, 0x2f)]"

definition sk_keyboard_with_shift_to_unicode :: "nat \<Rightarrow> u32" where
  "sk_keyboard_with_shift_to_unicode = key_table [(KEY_A, 0x41), (KEY_B, 0x42), (KEY_C, 0x43), (KEY_D, 0x44), (KEY_E, 0x45), (KEY_F, 0x46),
     (KEY_G, 0x47), (KEY_H, 0x48), (KEY_I, 0x49), (KEY_J, 0x4a), (KEY_K, 0x4b), (KEY_L, 0x4c),
     (KEY_M, 0x4d), (KEY_N, 0x4e), (KEY_O, 0x4f), (KEY_P, 0x50), (KEY_Q, 0x51), (KEY_R, 0x52),
     (KEY_S, 0x53), (KEY_T, 0x54), (KEY_U, 0x55), (KEY_V, 0x56), (KEY_W, 0x57), (KEY_X, 0x58),
     (KEY_Y, 0x5a), (KEY_Z, 0x59), (KEY_1, 0x31), (KEY_2, 0x32), (KEY_3, 0x33), (KEY_4, 0x34),
     (KEY_5, 0x35), (KEY_6, 0x36), (KEY_7, 0x37), (KEY_8, 0x38), (KEY_9, 0x39), (KEY_0, 0x30),
     (KEY_GRAVE, 0xb0), (KEY_MINUS, 0x76), (KEY_EQUAL, 0xb0), (KEY_LEFT_BRACKET, 0x2f), (KEY_RIGHT_BRACKET, 0x28), (KEY_BACKSLASH, 0x29),
     (KEY_SEMICOLON, 0x22), (KEY_APOSTROPHE, 0x21), (KEY_COMMA, 0x3f), (KEY_PERIOD, 0x3a), (KEY_SLASH, 0x5f), (KEY_SPACE, 0x20),
     (KEY_TAB, 0x9), (KEY_ENTER, 0xa), (KEY_NUMPAD_0, 0x30), (KEY_NUMPAD_1, 0x31), (KEY_NUMPAD_2, 0x32), (KEY_NUMPAD_3, 0x33),
     (KEY_NUMPAD_4, 0x34), (KEY_NUMPAD_5, 0x35), (KEY_NUMPAD_6, 0x36), (KEY_NUMPAD_7, 0x37), (KEY_NUMPAD_8, 0x38), (KEY_NUMPAD_9, 0x39),
     (KEY_NUMPAD_DOT, 0x2c), (KEY_NUMPAD_PLUS, 0x2b), (KEY_NUMPAD_MINUS, 0x2d), (KEY_NUMPAD_ASTERISK, 0x2a), (KEY_NUMPAD_SLASH, 0x2f)]"

end
