(* ===== verification/Human_Input.thy ===== *)
theory Human_Input
  imports Keyboard_Layout Cpu_Lock Queue_Interface
begin

text \<open>
  Keyboards and mice: \<open>groups/human_input/human_input.c\<close>, the choice of a character in
  \<open>keyboard_layout.c\<close>, and the ring of events between them and the screen subsystem
  (\<open>subsystems/screen/screen.c\<close>). A device is an address; its state is what its \<open>get_state\<close>
  returns. The clock does not advance while one report of a device is processed. Indices of keys,
  buttons and slots are natural numbers; an index outside its array is \<open>None\<close>.
\<close>

section \<open>State\<close>

type_synonym u8s = "u8 list"

definition KEY_RELEASED :: u8 where "KEY_RELEASED = 0"
definition KEY_PRESSED :: u8 where "KEY_PRESSED = 1"
definition INPUT_BUTTONS_COUNT :: nat where "INPUT_BUTTONS_COUNT = 6"
definition BUTTON_RELEASED :: u8 where "BUTTON_RELEASED = 0"
definition BUTTON_PRESSED :: u8 where "BUTTON_PRESSED = 1"
definition BUTTON_DRAGGED :: u8 where "BUTTON_DRAGGED = 2"
definition INPUT_MOVEMENTS_COUNT :: nat where "INPUT_MOVEMENTS_COUNT = 5"
definition NO_MOVEMENT_CHANGE :: u8 where "NO_MOVEMENT_CHANGE = 0"
definition NEW_MOVEMENT_CHANGE :: u8 where "NEW_MOVEMENT_CHANGE = 1"
definition MAX_NUMBER_OF_HUMAN_INPUT_EVENTS :: nat where "MAX_NUMBER_OF_HUMAN_INPUT_EVENTS = 16"
definition MAX_NUMBER_OF_HUMAN_INPUT_DEVICES :: nat where "MAX_NUMBER_OF_HUMAN_INPUT_DEVICES = 8"

record leds =
  capslock :: bool
  scrollock :: bool
  numlock :: bool

record device_state =
  dev_key_state :: u8s
  dev_leds :: leds
  dev_button_state :: u8s
  dev_movement_state :: u8
  dev_movement_value :: "u32 list"

record global_state =
  key_state :: u8s
  key_state_timestamp :: "u32 list"
  global_leds :: leds
  button_state :: u8s
  button_state_timestamp :: "u32 list"
  movement_value :: "u32 list"
  last_pressed_key :: nat
  last_pressed_key_unicode_value :: u32
  last_pressed_key_event_count :: u32

datatype event_type = EVENT_KEY_PRESSED | EVENT_KEY_RELEASED | EVENT_MOUSE_BUTTON_PRESSED
  | EVENT_MOUSE_BUTTON_RELEASED | EVENT_MOUSE_MOVEMENT

record input_event =
  ev_state :: global_state
  ev_type :: event_type
  ev_value :: nat

record event_list =
  stack :: "input_event list"
  producer :: nat
  consumer :: nat

text \<open>A device of the group is its address and whether it has a \<open>keyboard_set_leds\<close>.\<close>

record human_input =
  devices :: "(u32 \<times> bool) list"
  device_states :: "u32 \<Rightarrow> device_state"
  global :: global_state
  global_event_mutex :: u32
  no_shift_to_unicode :: "nat \<Rightarrow> u32"
  with_shift_to_unicode :: "nat \<Rightarrow> u32"
  layout_name :: string
  is_there_screen_subsystem :: bool
  events :: event_list
  event_loop_blocked :: bool

section \<open>Layouts\<close>

definition set_keyboard_layout :: "string \<Rightarrow> human_input \<Rightarrow> human_input" where
  "set_keyboard_layout layout s =
     (if layout = ''EN'' then s\<lparr>no_shift_to_unicode := en_keyboard_no_shift_to_unicode,
        with_shift_to_unicode := en_keyboard_with_shift_to_unicode, layout_name := layout\<rparr>
      else if layout = ''SK'' then s\<lparr>no_shift_to_unicode := sk_keyboard_no_shift_to_unicode,
        with_shift_to_unicode := sk_keyboard_with_shift_to_unicode, layout_name := layout\<rparr>
      else s)"

definition get_key_unicode_value :: "nat \<Rightarrow> human_input \<Rightarrow> u32" where
  "get_key_unicode_value key s =
     (let caps = capslock (global_leds (global s));
          left = key_state (global s) ! KEY_LEFT_SHIFT;
          right = key_state (global s) ! KEY_RIGHT_SHIFT
      in if \<not> caps \<and> (left = KEY_PRESSED \<or> right = KEY_PRESSED)
           \<or> caps \<and> (left = KEY_RELEASED \<and> right = KEY_RELEASED)
         then with_shift_to_unicode s key else no_shift_to_unicode s key)"

section \<open>The ring of events\<close>

definition add_event :: "input_event \<Rightarrow> event_list \<Rightarrow> event_list option" where
  "add_event e l =
     (let next_slot = (producer l + 1) mod MAX_NUMBER_OF_HUMAN_INPUT_EVENTS
      in if next_slot = consumer l then None
         else Some (l\<lparr>stack := (stack l)[producer l := e], producer := next_slot\<rparr>))"

definition add_event_to_screen_subsystem_list :: "event_type \<Rightarrow> nat \<Rightarrow> human_input \<Rightarrow> human_input" where
  "add_event_to_screen_subsystem_list type value s =
     (if \<not> is_there_screen_subsystem s then s
      else case add_event \<lparr>ev_state = global s, ev_type = type, ev_value = value\<rparr> (events s) of
        None \<Rightarrow> s
      | Some l \<Rightarrow> s\<lparr>events := l, event_loop_blocked := False\<rparr>)"

text \<open>
  What a round of \<open>screen_subsystem_event_loop\<close> does to the ring: it blocks its thread if there is
  nothing to process; otherwise it processes the event of the slot at \<open>consumer\<close> and leaves the slot.
\<close>

definition nothing_to_process :: "event_list \<Rightarrow> bool" where
  "nothing_to_process l \<longleftrightarrow> consumer l = producer l"

definition block_event_loop :: "human_input \<Rightarrow> human_input" where
  "block_event_loop s = s\<lparr>event_loop_blocked := True\<rparr>"

definition take_event :: "event_list \<Rightarrow> (input_event \<times> event_list) option" where
  "take_event l =
     (if nothing_to_process l then None
      else Some (stack l ! consumer l, l\<lparr>consumer := (consumer l + 1) mod MAX_NUMBER_OF_HUMAN_INPUT_EVENTS\<rparr>))"

section \<open>Devices\<close>

definition add_human_input_device :: "u32 \<Rightarrow> bool \<Rightarrow> human_input \<Rightarrow> human_input" where
  "add_human_input_device device has_leds s =
     (if MAX_NUMBER_OF_HUMAN_INPUT_DEVICES \<le> length (devices s) then s
      else s\<lparr>devices := devices s @ [(device, has_leds)]\<rparr>)"

fun remove_device :: "u32 \<Rightarrow> (u32 \<times> bool) list \<Rightarrow> (u32 \<times> bool) list" where
  "remove_device device [] = []"
| "remove_device device (d # ds) = (if fst d = device then ds else d # remove_device device ds)"

definition remove_human_input_device :: "u32 \<Rightarrow> human_input \<Rightarrow> human_input" where
  "remove_human_input_device device s = s\<lparr>devices := remove_device device (devices s)\<rparr>"

definition hid_reset_state_before_new_events :: "device_state \<Rightarrow> device_state" where
  "hid_reset_state_before_new_events st = st\<lparr>dev_movement_state := NO_MOVEMENT_CHANGE\<rparr>"

definition hid_local_event_key :: "nat \<Rightarrow> u8 \<Rightarrow> device_state \<Rightarrow> device_state option" where
  "hid_local_event_key key value st =
     (if key < length (dev_key_state st) then Some (st\<lparr>dev_key_state := (dev_key_state st)[key := value]\<rparr>) else None)"

definition hid_local_event_button :: "nat \<Rightarrow> u8 \<Rightarrow> device_state \<Rightarrow> device_state option" where
  "hid_local_event_button button value st =
     (if button < length (dev_button_state st)
      then Some (st\<lparr>dev_button_state := (dev_button_state st)[button := value]\<rparr>) else None)"

definition hid_local_event_movement :: "nat \<Rightarrow> u32 \<Rightarrow> device_state \<Rightarrow> device_state option" where
  "hid_local_event_movement movement value st =
     (if movement < length (dev_movement_value st)
      then Some (st\<lparr>dev_movement_value := (dev_movement_value st)[movement := value],
        dev_movement_state := NEW_MOVEMENT_CHANGE\<rparr>) else None)"

section \<open>Changes of the global state\<close>

definition on_global :: "(global_state \<Rightarrow> global_state) \<Rightarrow> human_input \<Rightarrow> human_input" where
  "on_global f s = s\<lparr>global := f (global s)\<rparr>"

definition merged :: "(device_state \<Rightarrow> u8s) \<Rightarrow> nat \<Rightarrow> human_input \<Rightarrow> u8s" where
  "merged part n s = fold (\<lambda>d acc. map2 (OR) acc (part (device_states s (fst d)))) (devices s) (replicate n 0)"

definition update_key :: "u32 \<Rightarrow> u8s \<Rightarrow> nat \<Rightarrow> human_input \<Rightarrow> human_input" where
  "update_key now actual i s =
     (if key_state (global s) ! i = actual ! i then s
      else let s = on_global (\<lambda>g. g\<lparr>key_state := (key_state g)[i := actual ! i],
             key_state_timestamp := (key_state_timestamp g)[i := now]\<rparr>) s;
           unicode_value = get_key_unicode_value i s;
           s = (if last_pressed_key (global s) = i \<and> key_state (global s) ! i = KEY_RELEASED
                then on_global (\<lambda>g. g\<lparr>last_pressed_key := 0, last_pressed_key_event_count := 0\<rparr>) s else s);
           s = (if key_state (global s) ! i = KEY_PRESSED
                then if i = KEY_CAPS_LOCK
                  then on_global (\<lambda>g. g\<lparr>global_leds := (global_leds g)\<lparr>capslock := \<not> capslock (global_leds g)\<rparr>\<rparr>) s
                  else on_global (\<lambda>g. g\<lparr>last_pressed_key := i, last_pressed_key_unicode_value := unicode_value,
                    last_pressed_key_event_count := 0\<rparr>) s
                else s);
           event_type = (if key_state (global s) ! i = KEY_PRESSED then EVENT_KEY_PRESSED else EVENT_KEY_RELEASED)
      in add_event_to_screen_subsystem_list event_type i s)"

definition drag_buttons :: "u8s \<Rightarrow> u8s" where
  "drag_buttons = map (\<lambda>b. if b = BUTTON_PRESSED then BUTTON_DRAGGED else b)"

definition update_movement :: "device_state \<Rightarrow> human_input \<Rightarrow> human_input" where
  "update_movement st s =
     (if dev_movement_state st = NEW_MOVEMENT_CHANGE
      then add_event_to_screen_subsystem_list EVENT_MOUSE_MOVEMENT 0
        (on_global (\<lambda>g. g\<lparr>button_state := drag_buttons (button_state g), movement_value := dev_movement_value st\<rparr>) s)
      else s)"

definition set_button :: "u32 \<Rightarrow> nat \<Rightarrow> u8 \<Rightarrow> human_input \<Rightarrow> human_input" where
  "set_button now i value = on_global (\<lambda>g. g\<lparr>button_state := (button_state g)[i := value],
     button_state_timestamp := (button_state_timestamp g)[i := now]\<rparr>)"

definition update_button :: "u32 \<Rightarrow> u8s \<Rightarrow> nat \<Rightarrow> human_input \<Rightarrow> human_input" where
  "update_button now actual i s =
     (let b = button_state (global s) ! i
      in if b = BUTTON_RELEASED then
           if actual ! i = BUTTON_RELEASED then s
           else add_event_to_screen_subsystem_list EVENT_MOUSE_BUTTON_PRESSED i (set_button now i BUTTON_PRESSED s)
         else if b = BUTTON_PRESSED \<or> b = BUTTON_DRAGGED then
           if actual ! i = BUTTON_PRESSED then s
           else add_event_to_screen_subsystem_list EVENT_MOUSE_BUTTON_RELEASED i (set_button now i BUTTON_RELEASED s)
         else s)"

definition hid_process_changes_of_local_state :: "u32 \<Rightarrow> u32 \<Rightarrow> human_input \<Rightarrow> human_input option" where
  "hid_process_changes_of_local_state now device s = do {
     lock \<leftarrow> lock_mutex (global_event_mutex s);
     let s = s\<lparr>global_event_mutex := lock\<rparr>;
     let keys = merged dev_key_state INPUT_KEY_COUNT s;
     let buttons = merged dev_button_state INPUT_BUTTONS_COUNT s;
     let s = fold (update_key now keys) [0..<INPUT_KEY_COUNT] s;
     let s = update_movement (device_states s device) s;
     let s = fold (update_button now buttons) [0..<INPUT_BUTTONS_COUNT] s;
     Some (s\<lparr>global_event_mutex := unlock_mutex (global_event_mutex s)\<rparr>)
   }"

section \<open>Repeated keys\<close>

definition microseconds_to_repeat_key_first_time :: u32 where "microseconds_to_repeat_key_first_time = 300000"
definition microseconds_to_repeat_key_next_time :: u32 where "microseconds_to_repeat_key_next_time = 50000"

definition no_last_key :: "human_input \<Rightarrow> human_input" where
  "no_last_key = on_global (\<lambda>g. g\<lparr>last_pressed_key := 0, last_pressed_key_event_count := 0\<rparr>)"

definition update_leds :: "(u32 \<Rightarrow> leds \<Rightarrow> human_input \<Rightarrow> human_input) \<Rightarrow> human_input \<Rightarrow> human_input" where
  "update_leds set_leds s =
     fold (\<lambda>(device, has_leds) s.
       if has_leds \<and> global_leds (global s) \<noteq> dev_leds (device_states s device)
       then set_leds device (global_leds (global s)) s else s) (devices s) s"

definition check_human_input_state :: "(u32 \<Rightarrow> leds \<Rightarrow> human_input \<Rightarrow> human_input) \<Rightarrow> u32 \<Rightarrow> human_input \<Rightarrow> human_input" where
  "check_human_input_state set_leds now s =
     (let s = update_leds set_leds s;
          key = last_pressed_key (global s);
          state = key_state (global s) ! key;
          diff = now - key_state_timestamp (global s) ! key;
          count = last_pressed_key_event_count (global s)
      in if key = 0 then s
         else if state = KEY_RELEASED then no_last_key s
         else if diff < microseconds_to_repeat_key_first_time then s
         else let repeats = (diff - microseconds_to_repeat_key_first_time) div microseconds_to_repeat_key_next_time;
                s = (if count < repeats
                  then add_event_to_screen_subsystem_list
                    (if state = KEY_PRESSED then EVENT_KEY_PRESSED else EVENT_KEY_RELEASED) key
                    (on_global (\<lambda>g. g\<lparr>last_pressed_key_event_count := repeats\<rparr>) s)
                  else s)
           in if key_state (global s) ! key = KEY_RELEASED then no_last_key s else s)"

definition is_key_pressed :: "nat \<Rightarrow> human_input \<Rightarrow> bool" where
  "is_key_pressed key s \<longleftrightarrow> key_state (global s) ! key = KEY_PRESSED"

section \<open>The ring is a queue\<close>

definition ring_rep :: "event_list \<Rightarrow> input_event list \<Rightarrow> bool" where
  "ring_rep l es \<longleftrightarrow> length (stack l) = 16 \<and> consumer l < 16 \<and> length es \<le> 15
     \<and> producer l = (consumer l + length es) mod 16
     \<and> (\<forall>i < length es. stack l ! ((consumer l + i) mod 16) = es ! i)"

lemma slots_differ:
  fixes c i k :: nat
  assumes "i < k" "k < 16"
  shows "(c + i) mod 16 \<noteq> (c + k) mod 16"
proof
  assume "(c + i) mod 16 = (c + k) mod 16"
  then have "16 dvd (c + k) - (c + i)" using assms(1) by (metis mod_eq_dvd_iff_nat add_le_cancel_left less_imp_le)
  then show False using assms by (auto dest: dvd_imp_le)
qed

lemma slot_next:
  fixes c n :: nat
  assumes "c < 16" "n \<le> 15"
  shows "Suc (c + n) mod 16 = c \<longleftrightarrow> n = 15"
proof (cases "n = 15")
  case False
  then show ?thesis using slots_differ [of 0 "Suc n" c] assms by simp
qed (use assms in simp)

lemma add_event_appends:
  assumes "ring_rep l es" "length es < 15"
  shows "\<exists>l'. add_event e l = Some l' \<and> ring_rep l' (es @ [e])"
proof -
  let ?c = "consumer l" and ?n = "length es"
  let ?l = "l\<lparr>stack := (stack l)[producer l := e], producer := (producer l + 1) mod 16\<rparr>"
  have p: "producer l = (?c + ?n) mod 16" "?c < 16" using assms(1) by (simp_all add: ring_rep_def)
  have "(producer l + 1) mod 16 \<noteq> ?c" using slot_next [OF p(2), of ?n] assms(2) p(1) by (simp add: mod_simps)
  then have "add_event e l = Some ?l" by (simp add: add_event_def MAX_NUMBER_OF_HUMAN_INPUT_EVENTS_def)
  moreover have "stack ?l ! ((?c + i) mod 16) = (es @ [e]) ! i" if "i < Suc ?n" for i
  proof (cases "i = ?n")
    case True
    then show ?thesis using assms p by (simp add: ring_rep_def)
  next
    case False
    then have "i < ?n" using that by simp
    then show ?thesis using assms p slots_differ [of i ?n ?c] by (simp add: ring_rep_def nth_append)
  qed
  ultimately show ?thesis using assms p by (auto simp: ring_rep_def mod_Suc_eq)
qed

lemma add_event_full: "ring_rep l es \<Longrightarrow> length es = 15 \<Longrightarrow> add_event e l = None"
  using slot_next [of "consumer l" 15] by (simp add: mod_simps ring_rep_def add_event_def MAX_NUMBER_OF_HUMAN_INPUT_EVENTS_def)

text \<open>An event that is taken moves the producer.\<close>

lemma added_event_differs:
  assumes "add_event e l = Some l'" "ring_rep l es"
  shows "producer l' \<noteq> producer l"
proof -
  have "producer l < 16" using assms(2) by (simp add: ring_rep_def)
  then have "(producer l + 1) mod 16 \<noteq> producer l" by (cases "producer l = 15") auto
  then show ?thesis using assms(1) by (auto simp: add_event_def Let_def MAX_NUMBER_OF_HUMAN_INPUT_EVENTS_def split: if_splits)
qed

lemma take_event_takes:
  assumes "ring_rep l (e # es)"
  shows "\<exists>l'. take_event l = Some (e, l') \<and> ring_rep l' es"
proof -
  let ?c = "consumer l"
  have r: "length (stack l) = 16" "?c < 16" "Suc (length es) \<le> 15" "producer l = (?c + Suc (length es)) mod 16"
    and slots: "\<And>i. i < Suc (length es) \<Longrightarrow> stack l ! ((?c + i) mod 16) = (e # es) ! i"
    using assms by (simp_all add: ring_rep_def)
  have "?c \<noteq> producer l" using slots_differ [of 0 "Suc (length es)" ?c] r by simp
  moreover have "stack l ! ?c = e" using slots [of 0] r(2) by simp
  ultimately have "take_event l = Some (e, l\<lparr>consumer := (?c + 1) mod 16\<rparr>)"
    by (simp add: take_event_def nothing_to_process_def MAX_NUMBER_OF_HUMAN_INPUT_EVENTS_def)
  moreover have "stack l ! (((?c + 1) mod 16 + i) mod 16) = es ! i" if "i < length es" for i
    using slots [of "Suc i"] that by (simp add: mod_simps)
  moreover have "producer l = ((?c + 1) mod 16 + length es) mod 16" using r(4) by (simp add: mod_simps)
  ultimately have "take_event l = Some (e, l\<lparr>consumer := (?c + 1) mod 16\<rparr>)" "ring_rep (l\<lparr>consumer := (?c + 1) mod 16\<rparr>) es"
    using r(1,3) unfolding ring_rep_def by simp_all
  then show ?thesis by blast
qed

lemma take_event_empty: "ring_rep l [] \<Longrightarrow> take_event l = None"
  by (simp add: ring_rep_def take_event_def nothing_to_process_def)

interpretation ring: fifo ring_rep "\<lambda>es e. length es < 15" add_event take_event
  by unfold_locales (simp_all add: add_event_appends take_event_takes)

section \<open>What a report changes\<close>

definition kind :: "input_event \<Rightarrow> event_type \<times> nat" where
  "kind e = (ev_type e, ev_value e)"

definition waiting :: "human_input \<Rightarrow> (event_type \<times> nat) list \<Rightarrow> bool" where
  "waiting s ks \<longleftrightarrow> is_there_screen_subsystem s \<and> (\<exists>es. ring_rep (events s) es \<and> map kind es = ks)"

definition same_devices :: "human_input \<Rightarrow> human_input \<Rightarrow> bool" where
  "same_devices s s' \<longleftrightarrow> devices s' = devices s \<and> device_states s' = device_states s
     \<and> global_event_mutex s' = global_event_mutex s \<and> no_shift_to_unicode s' = no_shift_to_unicode s
     \<and> with_shift_to_unicode s' = with_shift_to_unicode s"

lemma same_devices_trans: "same_devices s t \<Longrightarrow> same_devices t u \<Longrightarrow> same_devices s u"
  by (simp add: same_devices_def)

lemma waiting_add_event:
  assumes "waiting s ks"
  shows "waiting (add_event_to_screen_subsystem_list ty v s) (take 15 (ks @ [(ty, v)]))"
proof -
  obtain es where es: "ring_rep (events s) es" "map kind es = ks" using assms by (auto simp: waiting_def)
  then have len: "length es \<le> 15" "length ks = length es" by (auto simp: ring_rep_def)
  let ?e = "\<lparr>ev_state = global s, ev_type = ty, ev_value = v\<rparr>"
  show ?thesis
  proof (cases "length es = 15")
    case True
    then show ?thesis using assms es len add_event_full [OF es(1) True]
      by (simp add: waiting_def add_event_to_screen_subsystem_list_def)
  next
    case False
    then obtain l' where "add_event ?e (events s) = Some l'" "ring_rep l' (es @ [?e])"
      using add_event_appends [OF es(1)] len(1) by (metis le_neq_implies_less)
    then show ?thesis using assms es len False
      by (auto simp: waiting_def add_event_to_screen_subsystem_list_def kind_def intro!: exI [of _ "es @ [?e]"])
  qed
qed

lemma add_event_frame [simp]:
  "global (add_event_to_screen_subsystem_list ty v s) = global s"
  "same_devices s (add_event_to_screen_subsystem_list ty v s)"
  by (simp_all add: add_event_to_screen_subsystem_list_def same_devices_def split: option.split)

lemma on_global_frame [simp]:
  "global (on_global f s) = f (global s)" "same_devices s (on_global f s)" "waiting (on_global f s) = waiting s"
  by (simp_all add: on_global_def same_devices_def waiting_def fun_eq_iff)

definition key_changes :: "u8s \<Rightarrow> u8s \<Rightarrow> nat \<Rightarrow> (event_type \<times> nat) list" where
  "key_changes old new n = map (\<lambda>i. (if new ! i = KEY_PRESSED then EVENT_KEY_PRESSED else EVENT_KEY_RELEASED, i))
     (filter (\<lambda>i. old ! i \<noteq> new ! i) [0..<n])"

definition pushed :: "u8 \<Rightarrow> bool" where
  "pushed b \<longleftrightarrow> b \<noteq> BUTTON_RELEASED"

definition button_changes :: "u8s \<Rightarrow> u8s \<Rightarrow> nat \<Rightarrow> (event_type \<times> nat) list" where
  "button_changes old new n = map (\<lambda>i. (if pushed (new ! i) then EVENT_MOUSE_BUTTON_PRESSED else EVENT_MOUSE_BUTTON_RELEASED, i))
     (filter (\<lambda>i. pushed (old ! i) \<noteq> pushed (new ! i)) [0..<n])"

definition key_state_known :: "human_input \<Rightarrow> bool" where
  "key_state_known s \<longleftrightarrow> length (key_state (global s)) = INPUT_KEY_COUNT \<and> length (button_state (global s)) = INPUT_BUTTONS_COUNT
     \<and> set (button_state (global s)) \<subseteq> {BUTTON_RELEASED, BUTTON_PRESSED, BUTTON_DRAGGED}"

lemma take_15_again [simp]: "take 15 (take 15 xs @ ys) = take 15 (xs @ ys)"
  by (cases "length xs < 15") simp_all

lemma update_key_same: "key_state (global s) ! i = actual ! i \<Longrightarrow> update_key now actual i s = s"
  by (simp add: update_key_def)

lemma on_global_twice: "on_global g (on_global f s) = on_global (\<lambda>x. g (f x)) s"
  by (simp add: on_global_def)

lemma update_key_form:
  assumes "key_state (global s) ! i \<noteq> actual ! i" "i < length (key_state (global s))"
  shows "\<exists>f. update_key now actual i s = add_event_to_screen_subsystem_list
      (if actual ! i = KEY_PRESSED then EVENT_KEY_PRESSED else EVENT_KEY_RELEASED) i (on_global f s)
    \<and> key_state (f (global s)) = (key_state (global s))[i := actual ! i]
    \<and> button_state (f (global s)) = button_state (global s)"
proof -
  let ?f1 = "\<lambda>g. g\<lparr>key_state := (key_state g)[i := actual ! i], key_state_timestamp := (key_state_timestamp g)[i := now]\<rparr>"
  let ?f2 = "\<lambda>g. if last_pressed_key (global s) = i \<and> actual ! i = KEY_RELEASED
    then g\<lparr>last_pressed_key := 0, last_pressed_key_event_count := 0\<rparr> else g"
  let ?f3 = "\<lambda>g. if actual ! i \<noteq> KEY_PRESSED then g
    else if i = KEY_CAPS_LOCK then g\<lparr>global_leds := (global_leds g)\<lparr>capslock := \<not> capslock (global_leds g)\<rparr>\<rparr>
    else g\<lparr>last_pressed_key := i, last_pressed_key_unicode_value := get_key_unicode_value i (on_global ?f1 s),
      last_pressed_key_event_count := 0\<rparr>"
  have "update_key now actual i s = add_event_to_screen_subsystem_list
      (if actual ! i = KEY_PRESSED then EVENT_KEY_PRESSED else EVENT_KEY_RELEASED) i (on_global (\<lambda>g. ?f3 (?f2 (?f1 g))) s)"
    using assms by (auto simp: update_key_def Let_def on_global_def)
  then show ?thesis by (intro exI [of _ "\<lambda>g. ?f3 (?f2 (?f1 g))"]) simp
qed

lemma update_key_changed:
  assumes "key_state (global s) ! i \<noteq> actual ! i" "i < length (key_state (global s))" "waiting s ks"
  shows "key_state (global (update_key now actual i s)) = (key_state (global s))[i := actual ! i]"
    "button_state (global (update_key now actual i s)) = button_state (global s)"
    "same_devices s (update_key now actual i s)"
    "waiting (update_key now actual i s)
       (take 15 (ks @ [(if actual ! i = KEY_PRESSED then EVENT_KEY_PRESSED else EVENT_KEY_RELEASED, i)]))"
proof -
  obtain f where f: "update_key now actual i s = add_event_to_screen_subsystem_list
      (if actual ! i = KEY_PRESSED then EVENT_KEY_PRESSED else EVENT_KEY_RELEASED) i (on_global f s)"
    "key_state (f (global s)) = (key_state (global s))[i := actual ! i]" "button_state (f (global s)) = button_state (global s)"
    using update_key_form [OF assms(1,2)] by blast
  show "key_state (global (update_key now actual i s)) = (key_state (global s))[i := actual ! i]"
    "button_state (global (update_key now actual i s)) = button_state (global s)" by (simp_all add: f)
  show "same_devices s (update_key now actual i s)"
    unfolding f(1) by (rule same_devices_trans [OF on_global_frame(2) add_event_frame(2)])
  show "waiting (update_key now actual i s)
       (take 15 (ks @ [(if actual ! i = KEY_PRESSED then EVENT_KEY_PRESSED else EVENT_KEY_RELEASED, i)]))"
    unfolding f(1) by (rule waiting_add_event) (simp add: assms(3))
qed

lemma update_keys:
  assumes "n \<le> length (key_state (global s))" "n \<le> length actual" "waiting s ks"
  shows "let s' = fold (update_key now actual) [0..<n] s
    in key_state (global s') = take n actual @ drop n (key_state (global s)) \<and> button_state (global s') = button_state (global s)
      \<and> same_devices s s' \<and> waiting s' (take 15 (ks @ key_changes (key_state (global s)) actual n))"
  using assms
proof (induction n)
  case 0
  then have "length ks \<le> 15" by (auto simp: waiting_def ring_rep_def)
  then show ?case using 0 by (simp add: key_changes_def same_devices_def)
next
  case (Suc n)
  let ?s = "fold (update_key now actual) [0..<n] s"
  have IH: "key_state (global ?s) = take n actual @ drop n (key_state (global s))" "button_state (global ?s) = button_state (global s)"
    "same_devices s ?s" "waiting ?s (take 15 (ks @ key_changes (key_state (global s)) actual n))"
    using Suc by (simp_all add: Let_def)
  have nth: "key_state (global ?s) ! n = key_state (global s) ! n" using IH(1) Suc.prems by (simp add: nth_append)
  have longer: "(take n actual @ drop n (key_state (global s)))[n := actual ! n]
      = take (Suc n) actual @ drop (Suc n) (key_state (global s))"
    using Suc.prems by (simp add: list_update_append take_Suc_conv_app_nth Cons_nth_drop_Suc [symmetric])
  show ?case
  proof (cases "key_state (global s) ! n = actual ! n")
    case True
    then have "take n actual @ drop n (key_state (global s)) = take (Suc n) actual @ drop (Suc n) (key_state (global s))"
      using Suc.prems by (simp add: take_Suc_conv_app_nth Cons_nth_drop_Suc [symmetric])
    then show ?thesis using IH True nth by (simp add: update_key_same key_changes_def)
  next
    case False
    then have changed: "key_state (global ?s) ! n \<noteq> actual ! n" "n < length (key_state (global ?s))"
      using nth Suc.prems IH(1) by simp_all
    have more: "key_changes (key_state (global s)) actual (Suc n) = key_changes (key_state (global s)) actual n
        @ [(if actual ! n = KEY_PRESSED then EVENT_KEY_PRESSED else EVENT_KEY_RELEASED, n)]"
      using False by (simp add: key_changes_def)
    from update_key_changed [OF changed IH(4), of now] show ?thesis
      using IH longer by (simp add: Let_def more same_devices_trans [OF IH(3)] del: take_append)
  qed
qed

lemma pushed_simps [simp]: "\<not> pushed BUTTON_RELEASED" "pushed BUTTON_PRESSED" "pushed BUTTON_DRAGGED"
  by (simp_all add: pushed_def BUTTON_RELEASED_def BUTTON_PRESSED_def BUTTON_DRAGGED_def)

lemma update_button_form:
  assumes "button_state (global s) ! i \<in> {BUTTON_RELEASED, BUTTON_PRESSED, BUTTON_DRAGGED}"
    "actual ! i \<in> {BUTTON_RELEASED, BUTTON_PRESSED}"
  shows "update_button now actual i s =
    (if pushed (button_state (global s) ! i) = pushed (actual ! i) then s
     else add_event_to_screen_subsystem_list
       (if pushed (actual ! i) then EVENT_MOUSE_BUTTON_PRESSED else EVENT_MOUSE_BUTTON_RELEASED) i
       (set_button now i (actual ! i) s))"
  using assms by (auto simp: update_button_def BUTTON_RELEASED_def BUTTON_PRESSED_def BUTTON_DRAGGED_def pushed_def)

lemma set_button_frame [simp]:
  "global (set_button now i v s) = (global s)\<lparr>button_state := (button_state (global s))[i := v],
     button_state_timestamp := (button_state_timestamp (global s))[i := now]\<rparr>"
  "same_devices s (set_button now i v s)" "waiting (set_button now i v s) = waiting s"
  by (simp_all add: set_button_def)

lemma update_buttons:
  assumes "n \<le> length (button_state (global s))" "length (button_state (global s)) \<le> length actual" "waiting s ks"
    "set (button_state (global s)) \<subseteq> {BUTTON_RELEASED, BUTTON_PRESSED, BUTTON_DRAGGED}"
    "set actual \<subseteq> {BUTTON_RELEASED, BUTTON_PRESSED}"
  shows "let s' = fold (update_button now actual) [0..<n] s
    in key_state (global s') = key_state (global s) \<and> length (button_state (global s')) = length (button_state (global s))
      \<and> set (button_state (global s')) \<subseteq> {BUTTON_RELEASED, BUTTON_PRESSED, BUTTON_DRAGGED}
      \<and> (\<forall>i < n. pushed (button_state (global s') ! i) = pushed (actual ! i))
      \<and> (\<forall>i \<ge> n. button_state (global s') ! i = button_state (global s) ! i)
      \<and> same_devices s s' \<and> waiting s' (take 15 (ks @ button_changes (button_state (global s)) actual n))"
  using assms(1)
proof (induction n)
  case 0
  have "length ks \<le> 15" using assms(3) by (auto simp: waiting_def ring_rep_def)
  then show ?case using assms by (simp add: button_changes_def same_devices_def)
next
  case (Suc n)
  let ?s = "fold (update_button now actual) [0..<n] s" and ?old = "button_state (global s)"
  have IH: "key_state (global ?s) = key_state (global s)" "length (button_state (global ?s)) = length ?old"
    "set (button_state (global ?s)) \<subseteq> {BUTTON_RELEASED, BUTTON_PRESSED, BUTTON_DRAGGED}"
    "\<forall>i < n. pushed (button_state (global ?s) ! i) = pushed (actual ! i)"
    "\<forall>i \<ge> n. button_state (global ?s) ! i = ?old ! i"
    "same_devices s ?s" "waiting ?s (take 15 (ks @ button_changes ?old actual n))"
    using Suc by (simp_all add: Let_def)
  have "n < length (button_state (global ?s))" "n < length actual" using IH(2) assms(2) Suc.prems by simp_all
  then have here: "button_state (global ?s) ! n \<in> {BUTTON_RELEASED, BUTTON_PRESSED, BUTTON_DRAGGED}"
    "actual ! n \<in> {BUTTON_RELEASED, BUTTON_PRESSED}"
    using subsetD [OF IH(3)] subsetD [OF assms(5)] by (simp_all only: nth_mem)
  note form = update_button_form [where s = ?s, OF here, of now]
  show ?case
  proof (cases "pushed (?old ! n) = pushed (actual ! n)")
    case True
    then have "update_button now actual n ?s = ?s" using form IH(5) by simp
    moreover have "button_changes ?old actual (Suc n) = button_changes ?old actual n" using True by (simp add: button_changes_def)
    ultimately show ?thesis using IH True by (simp add: Let_def less_Suc_eq)
  next
    case False
    let ?ty = "if pushed (actual ! n) then EVENT_MOUSE_BUTTON_PRESSED else EVENT_MOUSE_BUTTON_RELEASED"
    let ?t = "set_button now n (actual ! n) ?s"
    have t: "update_button now actual n ?s = add_event_to_screen_subsystem_list ?ty n ?t" using form IH(5) False by simp
    have more: "button_changes ?old actual (Suc n) = button_changes ?old actual n @ [(?ty, n)]"
      using False by (simp add: button_changes_def)
    have "waiting ?t (take 15 (ks @ button_changes ?old actual n))" using IH(7) by simp
    from waiting_add_event [OF this, of ?ty n]
    have "waiting (update_button now actual n ?s) (take 15 (ks @ button_changes ?old actual (Suc n)))"
      unfolding t more by (simp del: take_append)
    moreover have "same_devices s (update_button now actual n ?s)"
      unfolding t by (rule same_devices_trans [OF IH(6) same_devices_trans [OF set_button_frame(2) add_event_frame(2)]])
    moreover have "set ((button_state (global ?s))[n := actual ! n]) \<subseteq> {BUTTON_RELEASED, BUTTON_PRESSED, BUTTON_DRAGGED}"
      using IH(3) here(2) set_update_subset_insert [of "button_state (global ?s)" n "actual ! n"] by blast
    ultimately show ?thesis using IH Suc.prems by (auto simp: Let_def t nth_list_update less_Suc_eq)
  qed
qed

lemma length_merged: "\<forall>d \<in> set (devices s). length (part (device_states s (fst d))) = n \<Longrightarrow> length (merged part n s) = n"
proof -
  have "\<forall>d \<in> set ds. length (part (device_states s (fst d))) = n
    \<Longrightarrow> length (fold (\<lambda>d acc. map2 (OR) acc (part (device_states s (fst d)))) ds (replicate n 0)) = n" for ds
    by (induction ds rule: rev_induct) simp_all
  then show "\<forall>d \<in> set (devices s). length (part (device_states s (fst d))) = n \<Longrightarrow> length (merged part n s) = n"
    by (simp add: merged_def)
qed

lemma merged_released_or_pressed:
  assumes "\<forall>d \<in> set (devices s). set (part (device_states s (fst d))) \<subseteq> {BUTTON_RELEASED, BUTTON_PRESSED}"
  shows "set (merged part n s) \<subseteq> {BUTTON_RELEASED, BUTTON_PRESSED}"
proof -
  have "\<forall>d \<in> set ds. set (part (device_states s (fst d))) \<subseteq> {BUTTON_RELEASED, BUTTON_PRESSED}
    \<Longrightarrow> set (fold (\<lambda>d acc. map2 (OR) acc (part (device_states s (fst d)))) ds (replicate n 0)) \<subseteq> {BUTTON_RELEASED, BUTTON_PRESSED}" for ds
  proof (induction ds rule: rev_induct)
    case (snoc d ds)
    then show ?case by (fastforce simp: BUTTON_RELEASED_def BUTTON_PRESSED_def dest: set_zip_leftD set_zip_rightD)
  qed (auto simp: BUTTON_RELEASED_def)
  then show ?thesis using assms by (simp add: merged_def)
qed

lemma drag_buttons_pushed: "i < length bs \<Longrightarrow> pushed (drag_buttons bs ! i) = pushed (bs ! i)"
  by (simp add: drag_buttons_def)

lemma button_changes_drag: "n \<le> length old \<Longrightarrow> button_changes (drag_buttons old) new n = button_changes old new n"
  by (auto simp: button_changes_def drag_buttons_pushed intro!: arg_cong2 [where f = map] filter_cong)

lemma update_movement_effect:
  assumes "waiting s ks" "set (button_state (global s)) \<subseteq> {BUTTON_RELEASED, BUTTON_PRESSED, BUTTON_DRAGGED}"
  shows "key_state (global (update_movement st s)) = key_state (global s)"
    "button_state (global (update_movement st s)) = (if dev_movement_state st = NEW_MOVEMENT_CHANGE
      then drag_buttons (button_state (global s)) else button_state (global s))"
    "set (button_state (global (update_movement st s))) \<subseteq> {BUTTON_RELEASED, BUTTON_PRESSED, BUTTON_DRAGGED}"
    "same_devices s (update_movement st s)"
    "waiting (update_movement st s) (take 15 (ks @
      (if dev_movement_state st = NEW_MOVEMENT_CHANGE then [(EVENT_MOUSE_MOVEMENT, 0)] else [])))"
proof -
  have "length ks \<le> 15" using assms(1) by (auto simp: waiting_def ring_rep_def)
  then show "key_state (global (update_movement st s)) = key_state (global s)"
    "button_state (global (update_movement st s)) = (if dev_movement_state st = NEW_MOVEMENT_CHANGE
      then drag_buttons (button_state (global s)) else button_state (global s))"
    "set (button_state (global (update_movement st s))) \<subseteq> {BUTTON_RELEASED, BUTTON_PRESSED, BUTTON_DRAGGED}"
    using assms by (auto simp: update_movement_def drag_buttons_def)
  show "waiting (update_movement st s) (take 15 (ks @
      (if dev_movement_state st = NEW_MOVEMENT_CHANGE then [(EVENT_MOUSE_MOVEMENT, 0)] else [])))"
    using assms(1) \<open>length ks \<le> 15\<close> by (simp add: update_movement_def waiting_add_event del: take_append)
  show "same_devices s (update_movement st s)"
    using same_devices_trans [OF on_global_frame(2) add_event_frame(2)] by (simp add: update_movement_def same_devices_def)
qed

section \<open>Properties\<close>

definition devices_known :: "human_input \<Rightarrow> bool" where
  "devices_known s \<longleftrightarrow> (\<forall>d \<in> set (devices s).
     length (dev_key_state (device_states s (fst d))) = INPUT_KEY_COUNT
     \<and> length (dev_button_state (device_states s (fst d))) = INPUT_BUTTONS_COUNT
     \<and> set (dev_button_state (device_states s (fst d))) \<subseteq> {BUTTON_RELEASED, BUTTON_PRESSED})"

lemma report_effect:
  assumes "key_state_known s" "devices_known s" "global_event_mutex s = 0" "waiting s ks"
  shows "\<exists>s'. hid_process_changes_of_local_state now device s = Some s'
    \<and> key_state (global s') = merged dev_key_state INPUT_KEY_COUNT s
    \<and> (\<forall>i < INPUT_BUTTONS_COUNT. pushed (button_state (global s') ! i)
        = pushed (merged dev_button_state INPUT_BUTTONS_COUNT s ! i))
    \<and> key_state_known s' \<and> devices_known s' \<and> global_event_mutex s' = 0
    \<and> device_states s' = device_states s \<and> waiting s' (take 15 (ks
        @ key_changes (key_state (global s)) (merged dev_key_state INPUT_KEY_COUNT s) INPUT_KEY_COUNT
        @ (if dev_movement_state (device_states s device) = NEW_MOVEMENT_CHANGE then [(EVENT_MOUSE_MOVEMENT, 0)] else [])
        @ button_changes (button_state (global s)) (merged dev_button_state INPUT_BUTTONS_COUNT s) INPUT_BUTTONS_COUNT))"
proof -
  let ?keys = "merged dev_key_state INPUT_KEY_COUNT s" and ?buttons = "merged dev_button_state INPUT_BUTTONS_COUNT s"
  define s1 where "s1 = s\<lparr>global_event_mutex := 1\<rparr>"
  define s2 where "s2 = fold (update_key now ?keys) [0..<INPUT_KEY_COUNT] s1"
  define s3 where "s3 = update_movement (device_states s device) s2"
  define s4 where "s4 = fold (update_button now ?buttons) [0..<INPUT_BUTTONS_COUNT] s3"
  have keys: "length ?keys = INPUT_KEY_COUNT" using assms(2) by (intro length_merged) (simp add: devices_known_def)
  have buttons: "length ?buttons = INPUT_BUTTONS_COUNT" using assms(2) by (intro length_merged) (simp add: devices_known_def)
  have pressed: "set ?buttons \<subseteq> {BUTTON_RELEASED, BUTTON_PRESSED}"
    using assms(2) by (intro merged_released_or_pressed) (simp add: devices_known_def)
  have s1: "global s1 = global s" "waiting s1 ks" "device_states s1 = device_states s" "devices s1 = devices s"
    using assms(4) by (simp_all add: s1_def waiting_def)
  have s2: "key_state (global s2) = ?keys" "button_state (global s2) = button_state (global s)" "same_devices s1 s2"
    "waiting s2 (take 15 (ks @ key_changes (key_state (global s)) ?keys INPUT_KEY_COUNT))"
    using update_keys [of INPUT_KEY_COUNT s1 ?keys ks now] assms(1) keys s1
    by (simp_all add: s2_def Let_def key_state_known_def del: take_append)
  have "set (button_state (global s2)) \<subseteq> {BUTTON_RELEASED, BUTTON_PRESSED, BUTTON_DRAGGED}"
    using assms(1) s2(2) by (simp add: key_state_known_def)
  note s3 = update_movement_effect [OF s2(4) this, of "device_states s device", folded s3_def]
  have len: "length (button_state (global s3)) = INPUT_BUTTONS_COUNT"
    using assms(1) s2(2) s3(2) by (simp add: key_state_known_def drag_buttons_def)
  have changes: "button_changes (button_state (global s3)) ?buttons INPUT_BUTTONS_COUNT
      = button_changes (button_state (global s)) ?buttons INPUT_BUTTONS_COUNT"
    using assms(1) s2(2) s3(2) by (simp add: key_state_known_def button_changes_drag)
  have s4: "key_state (global s4) = key_state (global s3)" "length (button_state (global s4)) = INPUT_BUTTONS_COUNT"
    "set (button_state (global s4)) \<subseteq> {BUTTON_RELEASED, BUTTON_PRESSED, BUTTON_DRAGGED}"
    "\<forall>i < INPUT_BUTTONS_COUNT. pushed (button_state (global s4) ! i) = pushed (?buttons ! i)" "same_devices s3 s4"
    using update_buttons [of INPUT_BUTTONS_COUNT s3 ?buttons, OF _ _ s3(5) s3(3) pressed, of now] len buttons
    by (simp_all add: s4_def Let_def del: take_append)
  have "waiting s4 (take 15 (take 15 (take 15 (ks @ key_changes (key_state (global s)) ?keys INPUT_KEY_COUNT)
      @ (if dev_movement_state (device_states s device) = NEW_MOVEMENT_CHANGE then [(EVENT_MOUSE_MOVEMENT, 0)] else []))
      @ button_changes (button_state (global s)) ?buttons INPUT_BUTTONS_COUNT))"
    using update_buttons [of INPUT_BUTTONS_COUNT s3 ?buttons, OF _ _ s3(5) s3(3) pressed, of now] len buttons changes
    by (simp add: s4_def Let_def del: take_append)
  then have waits: "waiting s4 (take 15 (ks @ key_changes (key_state (global s)) ?keys INPUT_KEY_COUNT
      @ (if dev_movement_state (device_states s device) = NEW_MOVEMENT_CHANGE then [(EVENT_MOUSE_MOVEMENT, 0)] else [])
      @ button_changes (button_state (global s)) ?buttons INPUT_BUTTONS_COUNT))"
    by (simp del: take_append)
  have same: "same_devices s1 s4" using same_devices_trans [OF same_devices_trans [OF s2(3) s3(4)] s4(5)] .
  let ?s' = "s4\<lparr>global_event_mutex := 0\<rparr>"
  have "hid_process_changes_of_local_state now device s = Some ?s'"
    using assms(3) same s2(3) s1 by (simp add: hid_process_changes_of_local_state_def Let_def s4_def s3_def s2_def s1_def
      merged_def same_devices_def)
  moreover have "key_state_known ?s'" using s4 s3(1) s2(1) keys by (simp add: key_state_known_def)
  moreover have "devices_known ?s'" using assms(2) same s1 by (simp add: devices_known_def same_devices_def)
  moreover have "device_states ?s' = device_states s" using same s1 by (simp add: same_devices_def)
  ultimately show ?thesis using s4(1,4) s3(1) s2(1) waits
    by (intro exI [of _ ?s']) (simp add: waiting_def)
qed

text \<open>
  C11. A report of a device ends with every key in the state that the devices together give it and
  every button pushed exactly if a device has it pressed; the events for the keys that changed, for
  the movement and for the buttons that were pushed or let go are put into the ring in this order,
  and what does not fit any more is dropped.
\<close>

theorem report_updates_global_state:
  assumes "key_state_known s" "devices_known s" "global_event_mutex s = 0" "waiting s ks"
  shows "\<exists>s'. hid_process_changes_of_local_state now device s = Some s'
    \<and> key_state (global s') = merged dev_key_state INPUT_KEY_COUNT s
    \<and> (\<forall>i < INPUT_BUTTONS_COUNT. pushed (button_state (global s') ! i)
        = pushed (merged dev_button_state INPUT_BUTTONS_COUNT s ! i))
    \<and> key_state_known s' \<and> devices_known s' \<and> global_event_mutex s' = 0
    \<and> waiting s' (take 15 (ks
        @ key_changes (key_state (global s)) (merged dev_key_state INPUT_KEY_COUNT s) INPUT_KEY_COUNT
        @ (if dev_movement_state (device_states s device) = NEW_MOVEMENT_CHANGE then [(EVENT_MOUSE_MOVEMENT, 0)] else [])
        @ button_changes (button_state (global s)) (merged dev_button_state INPUT_BUTTONS_COUNT s) INPUT_BUTTONS_COUNT))"
  using report_effect [OF assms, of now device] by blast

definition quiet :: global_state where
  "quiet = \<lparr>key_state = replicate INPUT_KEY_COUNT 0, key_state_timestamp = replicate INPUT_KEY_COUNT 0,
     global_leds = \<lparr>capslock = False, scrollock = False, numlock = False\<rparr>,
     button_state = replicate INPUT_BUTTONS_COUNT 0, button_state_timestamp = replicate INPUT_BUTTONS_COUNT 0,
     movement_value = replicate INPUT_MOVEMENTS_COUNT 0, last_pressed_key = 0, last_pressed_key_unicode_value = 0,
     last_pressed_key_event_count = 0\<rparr>"

definition plugged :: human_input where
  "plugged = \<lparr>devices = [(1, True)],
     device_states = (\<lambda>_. \<lparr>dev_key_state = (replicate INPUT_KEY_COUNT 0)[KEY_A := KEY_PRESSED],
       dev_leds = \<lparr>capslock = False, scrollock = False, numlock = False\<rparr>,
       dev_button_state = [0, 1, 0, 0, 0, 0], dev_movement_state = NEW_MOVEMENT_CHANGE,
       dev_movement_value = [0, 3, 4, 0, 0]\<rparr>),
     global = quiet, global_event_mutex = 0, no_shift_to_unicode = en_keyboard_no_shift_to_unicode,
     with_shift_to_unicode = en_keyboard_with_shift_to_unicode, layout_name = ''EN'', is_there_screen_subsystem = True,
     events = \<lparr>stack = replicate 16 \<lparr>ev_state = quiet, ev_type = EVENT_MOUSE_MOVEMENT, ev_value = 0\<rparr>, producer = 0, consumer = 0\<rparr>,
     event_loop_blocked = True\<rparr>"

lemma plugged:
  "key_state_known plugged" "devices_known plugged" "global_event_mutex plugged = 0" "waiting plugged []"
  "ring_rep (events plugged) []" "is_there_screen_subsystem plugged"
  by (simp_all add: plugged_def quiet_def key_state_known_def devices_known_def waiting_def ring_rep_def
      INPUT_BUTTONS_COUNT_def BUTTON_RELEASED_def BUTTON_PRESSED_def)

theorem report_updates_global_state_witness:
  "\<exists>s'. hid_process_changes_of_local_state 7 1 plugged = Some s'
    \<and> key_state (global s') = merged dev_key_state INPUT_KEY_COUNT plugged \<and> key_state_known s'"
  using report_updates_global_state [OF plugged(1-4), of 7 1] by blast

text \<open>
  C27. The ring of input events is a first-in first-out queue of fifteen places: events that fit are
  taken out later in the order in which they were added, behind those that were there before. A
  further event is refused exactly if fifteen are waiting, and then it is dropped: the group and
  its ring stay as they are.
\<close>

theorem event_ring_fifo:
  assumes "ring_rep l es" "length es + length xs \<le> 15"
  shows "\<exists>l' l''. enqueue_all add_event xs l = Some l'
    \<and> dequeue_all take_event (length (es @ xs)) l' = Some (es @ xs, l'') \<and> nothing_to_process l''
    \<and> (\<forall>e. add_event e l' = None \<longleftrightarrow> length (es @ xs) = 15)
    \<and> (\<forall>s ty v. events s = l' \<longrightarrow> is_there_screen_subsystem s \<longrightarrow>
        (add_event_to_screen_subsystem_list ty v s = s \<longleftrightarrow> length (es @ xs) = 15))"
proof -
  have "fit_all (\<lambda>es e. length es < 15) es xs" using assms(2) by (induction xs arbitrary: es) simp_all
  from ring.enqueue_all_appends [OF assms(1) this] obtain l' where
    l': "enqueue_all add_event xs l = Some l'" "ring_rep l' (es @ xs)" by blast
  obtain l'' where l'': "dequeue_all take_event (length (es @ xs)) l' = Some (es @ xs, l'')" "ring_rep l'' []"
    using ring.dequeue_all_takes [of l' "es @ xs" "[]"] l'(2) by auto
  have full: "add_event e l' = None \<longleftrightarrow> length (es @ xs) = 15" for e
    using add_event_full [OF l'(2), of e] add_event_appends [OF l'(2), of e] assms(2)
    by (cases "length (es @ xs) = 15") auto
  have "add_event_to_screen_subsystem_list ty v s = s \<longleftrightarrow> length (es @ xs) = 15"
    if s: "events s = l'" "is_there_screen_subsystem s" for s ty v
  proof (cases "add_event \<lparr>ev_state = global s, ev_type = ty, ev_value = v\<rparr> l'")
    case None
    then show ?thesis using full s by (simp add: add_event_to_screen_subsystem_list_def)
  next
    case (Some a)
    have "producer (events (add_event_to_screen_subsystem_list ty v s)) \<noteq> producer (events s)"
      using Some s added_event_differs [OF Some l'(2)] by (simp add: add_event_to_screen_subsystem_list_def)
    then show ?thesis using full Some by force
  qed
  then show ?thesis using l'(1) l''(1) full l''(2) by (auto simp: ring_rep_def nothing_to_process_def)
qed

theorem event_ring_fifo_witness:
  "let e = \<lparr>ev_state = quiet, ev_type = EVENT_KEY_PRESSED, ev_value = KEY_A\<rparr> in
     \<exists>l' l''. enqueue_all add_event (replicate 15 e) (events plugged) = Some l'
       \<and> dequeue_all take_event 15 l' = Some (replicate 15 e, l'') \<and> add_event e l' = None"
  using event_ring_fifo [OF plugged(5), of "replicate 15 \<lparr>ev_state = quiet, ev_type = EVENT_KEY_PRESSED, ev_value = KEY_A\<rparr>"]
  by (auto simp: Let_def)

text \<open>
  The event loop tests the ring and blocks its thread in two steps. An event that is added
  between them unblocks a thread that is not blocked yet, and the thread blocks with the event in
  the ring.
\<close>

theorem wakeup_of_event_loop_lost:
  assumes "ring_rep (events s) []" "is_there_screen_subsystem s"
  shows "nothing_to_process (events s)
    \<and> (let s' = block_event_loop (add_event_to_screen_subsystem_list ty v s)
       in event_loop_blocked s' \<and> \<not> nothing_to_process (events s'))"
proof -
  let ?e = "\<lparr>ev_state = global s, ev_type = ty, ev_value = v\<rparr>"
  obtain l' where l': "add_event ?e (events s) = Some l'" "ring_rep l' [?e]"
    using add_event_appends [OF assms(1), of ?e] by auto
  have "\<not> nothing_to_process l'" using take_event_takes [OF l'(2)] by (auto simp: take_event_def split: if_splits)
  then show ?thesis using assms l'(1)
    by (simp add: block_event_loop_def add_event_to_screen_subsystem_list_def ring_rep_def nothing_to_process_def)
qed

theorem wakeup_of_event_loop_lost_witness:
  "event_loop_blocked (block_event_loop (add_event_to_screen_subsystem_list EVENT_KEY_PRESSED KEY_A plugged))"
  using wakeup_of_event_loop_lost [OF plugged(5,6), of EVENT_KEY_PRESSED KEY_A] by (simp add: Let_def)

section \<open>Letters\<close>

lemma letters_en:
  "\<forall>k \<in> set [KEY_A..<KEY_Z + 1]. en_keyboard_with_shift_to_unicode k = en_keyboard_no_shift_to_unicode k - 0x20
     \<and> 0x61 \<le> en_keyboard_no_shift_to_unicode k \<and> en_keyboard_no_shift_to_unicode k \<le> 0x7A"
  by code_simp

lemma letters_sk:
  "\<forall>k \<in> set [KEY_A..<KEY_Z + 1]. sk_keyboard_with_shift_to_unicode k = sk_keyboard_no_shift_to_unicode k - 0x20
     \<and> 0x61 \<le> sk_keyboard_no_shift_to_unicode k \<and> sk_keyboard_no_shift_to_unicode k \<le> 0x7A"
  by code_simp

text \<open>
  In both layouts a key of a letter gives a lower case letter, and the upper case letter of it
  exactly if either caps lock is on or a shift key is pressed, but not both.
\<close>

theorem letters_follow_shift_and_caps:
  assumes "layout \<in> {''EN'', ''SK''}" "KEY_A \<le> key" "key \<le> KEY_Z"
    "key_state (global s) ! KEY_LEFT_SHIFT \<in> {KEY_RELEASED, KEY_PRESSED}"
    "key_state (global s) ! KEY_RIGHT_SHIFT \<in> {KEY_RELEASED, KEY_PRESSED}"
  shows "\<exists>letter. 0x61 \<le> letter \<and> letter \<le> 0x7A
    \<and> get_key_unicode_value key (set_keyboard_layout layout s)
      = (if capslock (global_leds (global s)) = (is_key_pressed KEY_LEFT_SHIFT s \<or> is_key_pressed KEY_RIGHT_SHIFT s)
         then letter else letter - 0x20)"
proof -
  have key: "key \<in> set [KEY_A..<KEY_Z + 1]" using assms(2,3) by (auto simp: le_less)
  have "KEY_PRESSED \<noteq> KEY_RELEASED" by (simp add: KEY_PRESSED_def KEY_RELEASED_def)
  then show ?thesis using assms(1,4,5) bspec [OF letters_en key] bspec [OF letters_sk key]
    by (intro exI [of _ "no_shift_to_unicode (set_keyboard_layout layout s) key"])
      (auto simp: get_key_unicode_value_def set_keyboard_layout_def is_key_pressed_def Let_def)
qed

theorem letters_follow_shift_and_caps_witness:
  "get_key_unicode_value KEY_A (set_keyboard_layout ''SK'' plugged) \<ge> 0x61"
  using letters_follow_shift_and_caps [of "''SK''" KEY_A plugged] by (auto simp: plugged_def quiet_def is_key_pressed_def
      KEY_LEFT_SHIFT_def KEY_RIGHT_SHIFT_def KEY_A_def KEY_Z_def INPUT_KEY_COUNT_def KEY_PRESSED_def KEY_RELEASED_def)

end
