(* ===== verification/Ps2_Keyboard.thy ===== *)
theory Ps2_Keyboard
  imports Human_Input
begin

text \<open>
  The PS/2 keyboard of \<open>devices/human_input/ps2_keyboard.c\<close>: the tables of its three sets of scan
  codes, the automata that parse them, and the events that they put into the group of
  \<open>Human_Input\<close>. The parsing maps, arrays of five words per rule, are lists of rules, with the table
  in the place of its address; the rules that no map uses are left out. An access behind the end of
  a table is \<open>None\<close>.
\<close>

section \<open>Tables\<close>

text \<open>An array of keys with designated initializers; it ends with the largest index.\<close>

definition code_table :: "(nat \<times> nat) list \<Rightarrow> nat list" where
  "code_table es = fold (\<lambda>(c, k) t. t[c := k]) es (replicate (Suc (fold max (map fst es) 0)) 0)"

definition ps2_keyboard_scancode_set1_map :: "nat list" where
  "ps2_keyboard_scancode_set1_map = code_table [(0x01, KEY_ESCAPE), (0x02, KEY_1), (0x03, KEY_2), (0x04, KEY_3), (0x05, KEY_4),
     (0x06, KEY_5), (0x07, KEY_6), (0x08, KEY_7), (0x09, KEY_8), (0x0A, KEY_9),
     (0x0B, KEY_0), (0x0C, KEY_MINUS), (0x0D, KEY_EQUAL), (0x0E, KEY_BACKSPACE), (0x0F, KEY_TAB),
     (0x10, KEY_Q), (0x11, KEY_W), (0x12, KEY_E), (0x13, KEY_R), (0x14, KEY_T),
     (0x15, KEY_Y), (0x16, KEY_U), (0x17, KEY_I), (0x18, KEY_O), (0x19, KEY_P),
     (0x1A, KEY_LEFT_BRACKET), (0x1B, KEY_RIGHT_BRACKET), (0x1C, KEY_ENTER), (0x1D, KEY_LEFT_CTRL), (0x1E, KEY_A),
     (0x1F, KEY_S), (0x20, KEY_D), (0x21, KEY_F), (0x22, KEY_G), (0x23, KEY_H),
     (0x24, KEY_J), (0x25, KEY_K), (0x26, KEY_L), (0x27, KEY_SEMICOLON), (0x28, KEY_APOSTROPHE),
     (0x29, KEY_GRAVE), (0x2A, KEY_LEFT_SHIFT), (0x2B, KEY_BACKSLASH), (0x2C, KEY_Z), (0x2D, KEY_X),
     (0x2E, KEY_C), (0x2F, KEY_V), (0x30, KEY_B), (0x31, KEY_N), (0x32, KEY_M),
     (0x33, KEY_COMMA), (0x34, KEY_PERIOD), (0x35, KEY_SLASH), (0x36, KEY_RIGHT_SHIFT), (0x37, KEY_NUMPAD_ASTERISK),
     (0x38, KEY_LEFT_ALT), (0x39, KEY_SPACE), (0x3A, KEY_CAPS_LOCK), (0x3B, KEY_F1), (0x3C, KEY_F2),
     (0x3D, KEY_F3), (0x3E, KEY_F4), (0x3F, KEY_F5), (0x40, KEY_F6), (0x41, KEY_F7),
     (0x42, KEY_F8), (0x43, KEY_F9), (0x44, KEY_F10), (0x45, KEY_NUM_LOCK), (0x46, KEY_SCROLL_LOCK),
     (0x47, KEY_NUMPAD_7), (0x48, KEY_NUMPAD_8), (0x49, KEY_NUMPAD_9), (0x4A, KEY_NUMPAD_MINUS), (0x4B, KEY_NUMPAD_4),
     (0x4C, KEY_NUMPAD_5), (0x4D, KEY_NUMPAD_6), (0x4E, KEY_NUMPAD_PLUS), (0x4F, KEY_NUMPAD_1), (0x50, KEY_NUMPAD_2),
     (0x51, KEY_NUMPAD_3), (0x52, KEY_NUMPAD_0), (0x53, KEY_NUMPAD_DOT), (0x57, KEY_F11), (0x58, KEY_F12)]"

definition ps2_keyboard_scancode_set1_e0_map :: "nat list" where
  "ps2_keyboard_scancode_set1_e0_map = code_table [(0x10, KEY_MEDIA_PREV), (0x19, KEY_MEDIA_NEXT), (0x1C, KEY_NUMPAD_ENTER), (0x1D, KEY_RIGHT_CTRL), (0x20, KEY_VOLUME_MUTE),
     (0x21, KEY_LAUNCH_CALCULATOR), (0x22, KEY_MEDIA_PLAY_PAUSE), (0x24, KEY_MEDIA_STOP), (0x2E, KEY_VOLUME_DOWN), (0x30, KEY_VOLUME_UP),
     (0x32, KEY_WWW_HOME), (0x35, KEY_NUMPAD_SLASH), (0x38, KEY_RIGHT_ALT), (0x47, KEY_HOME), (0x48, KEY_UP_ARROW),
     (0x49, KEY_PAGE_UP), (0x4B, KEY_LEFT_ARROW), (0x4D, KEY_RIGHT_ARROW), (0x4F, KEY_END), (0x50, KEY_DOWN_ARROW),
     (0x51, KEY_PAGE_DOWN), (0x52, KEY_INSERT), (0x53, KEY_DELETE), (0x5B, KEY_LEFT_GUI), (0x5C, KEY_RIGHT_GUI),
     (0x5D, KEY_LAUNCH_APPS), (0x5E, KEY_POWER), (0x5F, KEY_SLEEP), (0x63, KEY_WAKE), (0x65, KEY_WWW_SEARCH),
     (0x66, KEY_WWW_FAVOURITES), (0x67, KEY_WWW_REFRESH), (0x68, KEY_WWW_STOP), (0x69, KEY_WWW_FORWARD), (0x6A, KEY_WWW_BACK),
     (0x6B, KEY_LAUNCH_MY_COMPUTER), (0x6C, KEY_LAUNCH_MAIL), (0x6D, KEY_MEDIA_SELECT)]"

definition ps2_keyboard_scancode_set2_map :: "nat list" where
  "ps2_keyboard_scancode_set2_map = code_table [(0x01, KEY_F9), (0x03, KEY_F5), (0x04, KEY_F3), (0x05, KEY_F1), (0x06, KEY_F2),
     (0x07, KEY_F12), (0x09, KEY_F10), (0x0A, KEY_F8), (0x0B, KEY_F6), (0x0C, KEY_F4),
     (0x0D, KEY_TAB), (0x0E, KEY_GRAVE), (0x11, KEY_LEFT_ALT), (0x12, KEY_LEFT_SHIFT), (0x14, KEY_LEFT_CTRL),
     (0x15, KEY_Q), (0x16, KEY_1), (0x1A, KEY_Z), (0x1B, KEY_S), (0x1C, KEY_A),
     (0x1D, KEY_W), (0x1E, KEY_2), (0x21, KEY_C), (0x22, KEY_X), (0x23, KEY_D),
     (0x24, KEY_E), (0x25, KEY_4), (0x26, KEY_3), (0x29, KEY_SPACE), (0x2A, KEY_V),
     (0x2B, KEY_F), (0x2C, KEY_T), (0x2D, KEY_R), (0x2E, KEY_5), (0x31, KEY_N),
     (0x32, KEY_B), (0x33, KEY_H), (0x34, KEY_G), (0x35, KEY_Y), (0x36, KEY_6),
     (0x3A, KEY_M), (0x3B, KEY_J), (0x3C, KEY_U), (0x3D, KEY_7), (0x3E, KEY_8),
     (0x41, KEY_COMMA), (0x42, KEY_K), (0x43, KEY_I), (0x44, KEY_O), (0x45, KEY_0),
     (0x46, KEY_9), (0x49, KEY_PERIOD), (0x4A, KEY_SLASH), (0x4B, KEY_L), (0x4C, KEY_SEMICOLON),
     (0x4D, KEY_P), (0x4E, KEY_MINUS), (0x52, KEY_APOSTROPHE), (0x54, KEY_LEFT_BRACKET), (0x55, KEY_EQUAL),
     (0x58, KEY_CAPS_LOCK), (0x59, KEY_RIGHT_SHIFT), (0x5A, KEY_ENTER), (0x5B, KEY_RIGHT_BRACKET), (0x5D, KEY_BACKSLASH),
     (0x66, KEY_BACKSPACE), (0x69, KEY_NUMPAD_1), (0x6B, KEY_NUMPAD_4), (0x6C, KEY_NUMPAD_7), (0x70, KEY_NUMPAD_0),
     (0x71, KEY_NUMPAD_DOT), (0x72, KEY_NUMPAD_2), (0x73, KEY_NUMPAD_5), (0x74, KEY_NUMPAD_6), (0x75, KEY_NUMPAD_8),
     (0x76, KEY_ESCAPE), (0x77, KEY_NUM_LOCK), (0x78, KEY_F11), (0x79, KEY_NUMPAD_PLUS), (0x7A, KEY_NUMPAD_3),
     (0x7B, KEY_NUMPAD_MINUS), (0x7C, KEY_NUMPAD_ASTERISK), (0x7D, KEY_NUMPAD_9), (0x7E, KEY_SCROLL_LOCK), (0x83, KEY_F7)]"

definition ps2_keyboard_scancode_set2_e0_map :: "nat list" where
  "ps2_keyboard_scancode_set2_e0_map = code_table [(0x10, KEY_LAUNCH_BROWSER), (0x11, KEY_RIGHT_ALT), (0x14, KEY_RIGHT_CTRL), (0x15, KEY_MEDIA_PREV), (0x18, KEY_WWW_FAVOURITES),
     (0x1F, KEY_LEFT_GUI), (0x20, KEY_WWW_REFRESH), (0x21, KEY_VOLUME_DOWN), (0x23, KEY_VOLUME_MUTE), (0x27, KEY_RIGHT_GUI),
     (0x28, KEY_WWW_STOP), (0x2B, KEY_LAUNCH_CALCULATOR), (0x2F, KEY_LAUNCH_APPS), (0x30, KEY_WWW_FORWARD), (0x32, KEY_VOLUME_UP),
     (0x34, KEY_MEDIA_PLAY_PAUSE), (0x37, KEY_POWER), (0x38, KEY_WWW_BACK), (0x3A, KEY_WWW_HOME), (0x3B, KEY_MEDIA_STOP),
     (0x3F, KEY_SLEEP), (0x40, KEY_LAUNCH_MY_COMPUTER), (0x48, KEY_LAUNCH_MAIL), (0x4A, KEY_NUMPAD_SLASH), (0x4D, KEY_MEDIA_NEXT),
     (0x50, KEY_MEDIA_SELECT), (0x5A, KEY_NUMPAD_ENTER), (0x5E, KEY_WAKE), (0x69, KEY_END), (0x6B, KEY_LEFT_ARROW),
     (0x6C, KEY_HOME), (0x70, KEY_INSERT), (0x71, KEY_DELETE), (0x72, KEY_DOWN_ARROW), (0x74, KEY_RIGHT_ARROW),
     (0x75, KEY_UP_ARROW), (0x7A, KEY_PAGE_DOWN), (0x7D, KEY_PAGE_UP)]"

definition ps2_keyboard_scancode_set3_map :: "nat list" where
  "ps2_keyboard_scancode_set3_map = code_table [(0x1C, KEY_A), (0x32, KEY_B), (0x21, KEY_C), (0x23, KEY_D), (0x24, KEY_E),
     (0x2B, KEY_F), (0x34, KEY_G), (0x33, KEY_H), (0x43, KEY_I), (0x3B, KEY_J),
     (0x42, KEY_K), (0x4B, KEY_L), (0x3A, KEY_M), (0x31, KEY_N), (0x44, KEY_O),
     (0x4D, KEY_P), (0x15, KEY_Q), (0x2D, KEY_R), (0x1B, KEY_S), (0x2C, KEY_T),
     (0x3C, KEY_U), (0x2A, KEY_V), (0x1D, KEY_W), (0x22, KEY_X), (0x35, KEY_Y),
     (0x1A, KEY_Z), (0x45, KEY_0), (0x16, KEY_1), (0x1E, KEY_2), (0x26, KEY_3),
     (0x25, KEY_4), (0x2E, KEY_5), (0x36, KEY_6), (0x3D, KEY_7), (0x3E, KEY_8),
     (0x46, KEY_9), (0x0E, KEY_GRAVE), (0x4E, KEY_MINUS), (0x55, KEY_EQUAL), (0x5C, KEY_BACKSLASH),
     (0x66, KEY_BACKSPACE), (0x29, KEY_SPACE), (0x0D, KEY_TAB), (0x14, KEY_CAPS_LOCK), (0x12, KEY_LEFT_SHIFT),
     (0x11, KEY_LEFT_CTRL), (0x8B, KEY_LEFT_GUI), (0x19, KEY_LEFT_ALT), (0x59, KEY_RIGHT_SHIFT), (0x58, KEY_RIGHT_CTRL),
     (0x8C, KEY_RIGHT_GUI), (0x39, KEY_RIGHT_ALT), (0x8D, KEY_LAUNCH_APPS), (0x5A, KEY_ENTER), (0x08, KEY_ESCAPE),
     (0x07, KEY_F1), (0x0F, KEY_F2), (0x17, KEY_F3), (0x1F, KEY_F4), (0x27, KEY_F5),
     (0x2F, KEY_F6), (0x37, KEY_F7), (0x3F, KEY_F8), (0x47, KEY_F9), (0x4F, KEY_F10),
     (0x56, KEY_F11), (0x5E, KEY_F12), (0x57, KEY_PRINT_SCREEN), (0x5F, KEY_SCROLL_LOCK), (0x62, KEY_PAUSE),
     (0x54, KEY_LEFT_BRACKET), (0x67, KEY_INSERT), (0x6E, KEY_HOME), (0x6F, KEY_PAGE_UP), (0x64, KEY_DELETE),
     (0x65, KEY_END), (0x6D, KEY_PAGE_DOWN), (0x63, KEY_UP_ARROW), (0x61, KEY_LEFT_ARROW), (0x60, KEY_DOWN_ARROW),
     (0x6A, KEY_RIGHT_ARROW), (0x76, KEY_NUM_LOCK), (0x4A, KEY_NUMPAD_SLASH), (0x7E, KEY_NUMPAD_ASTERISK), (0x4E, KEY_NUMPAD_MINUS),
     (0x7C, KEY_NUMPAD_PLUS), (0x79, KEY_NUMPAD_ENTER), (0x71, KEY_NUMPAD_DOT), (0x70, KEY_NUMPAD_0), (0x69, KEY_NUMPAD_1),
     (0x72, KEY_NUMPAD_2), (0x7A, KEY_NUMPAD_3), (0x6B, KEY_NUMPAD_4), (0x73, KEY_NUMPAD_5), (0x74, KEY_NUMPAD_6),
     (0x6C, KEY_NUMPAD_7), (0x75, KEY_NUMPAD_8), (0x7D, KEY_NUMPAD_9), (0x5B, KEY_RIGHT_BRACKET), (0x4C, KEY_SEMICOLON),
     (0x52, KEY_APOSTROPHE), (0x41, KEY_COMMA), (0x49, KEY_PERIOD), (0x4A, KEY_SLASH)]"

section \<open>Automata\<close>

datatype parse_action = NEW_STATE u32 | PRINT_SCREEN_PRESSED | PRINT_SCREEN_RELEASED | PAUSE_PRESSED

datatype parse_rule = STATE_IF u32 u8 parse_action | PRESSED_BY_ARRAY u32 "nat list"
  | RELEASED_BY_ARRAY u32 "nat list" | PRESSED_OR_RELEASED_BY_ARRAY u32 "nat list"

definition PARSING_STATE_START :: u32 where "PARSING_STATE_START = 0x01"

definition ps2_keyboard_scancode_set1_parsing_map :: "parse_rule list" where
  "ps2_keyboard_scancode_set1_parsing_map = [
     STATE_IF PARSING_STATE_START 0xE1 (NEW_STATE 0xE1), STATE_IF 0xE1 0x1D (NEW_STATE (0xE1 + 1)),
     STATE_IF (0xE1 + 1) 0x45 (NEW_STATE (0xE1 + 2)), STATE_IF (0xE1 + 2) 0xE1 (NEW_STATE (0xE1 + 3)),
     STATE_IF (0xE1 + 3) 0x9D (NEW_STATE (0xE1 + 4)), STATE_IF (0xE1 + 4) 0xC5 PAUSE_PRESSED,
     STATE_IF PARSING_STATE_START 0xE0 (NEW_STATE 0xE0), STATE_IF 0xE0 0x2A (NEW_STATE 0xE02A),
     STATE_IF 0xE02A 0xE0 (NEW_STATE 0xE02AE0), STATE_IF 0xE02AE0 0x37 PRINT_SCREEN_PRESSED,
     STATE_IF 0xE0 0xB7 (NEW_STATE 0xE0B7), STATE_IF 0xE0B7 0xE0 (NEW_STATE 0xE0B7E0),
     STATE_IF 0xE0B7E0 0xAA PRINT_SCREEN_RELEASED,
     PRESSED_OR_RELEASED_BY_ARRAY 0xE0 ps2_keyboard_scancode_set1_e0_map,
     PRESSED_OR_RELEASED_BY_ARRAY PARSING_STATE_START ps2_keyboard_scancode_set1_map]"

definition ps2_keyboard_scancode_set2_parsing_map :: "parse_rule list" where
  "ps2_keyboard_scancode_set2_parsing_map = [
     STATE_IF PARSING_STATE_START 0xE1 (NEW_STATE 0xE1), STATE_IF 0xE1 0x14 (NEW_STATE (0xE1 + 1)),
     STATE_IF (0xE1 + 1) 0x77 (NEW_STATE (0xE1 + 2)), STATE_IF (0xE1 + 2) 0xE1 (NEW_STATE (0xE1 + 3)),
     STATE_IF (0xE1 + 3) 0xF0 (NEW_STATE (0xE1 + 4)), STATE_IF (0xE1 + 4) 0x14 (NEW_STATE (0xE1 + 5)),
     STATE_IF (0xE1 + 5) 0xF0 (NEW_STATE (0xE1 + 6)), STATE_IF (0xE1 + 6) 0x77 PAUSE_PRESSED,
     STATE_IF PARSING_STATE_START 0xE0 (NEW_STATE 0xE0), STATE_IF 0xE0 0x12 (NEW_STATE 0xE012),
     STATE_IF 0xE012 0xE0 (NEW_STATE 0xE012E0), STATE_IF 0xE012E0 0x7C PRINT_SCREEN_PRESSED,
     STATE_IF 0xE0 0xF0 (NEW_STATE 0xE0F0), STATE_IF 0xE0F0 0x7C (NEW_STATE 0xE0F07C),
     STATE_IF 0xE0F07C 0xE0 (NEW_STATE 0xE0F07CE0), STATE_IF 0xE0F07CE0 0xF0 (NEW_STATE 0xE0F07CE1),
     STATE_IF 0xE0F07CE1 0x12 PRINT_SCREEN_RELEASED,
     RELEASED_BY_ARRAY 0xE0F0 ps2_keyboard_scancode_set2_e0_map,
     PRESSED_BY_ARRAY 0xE0 ps2_keyboard_scancode_set2_e0_map,
     STATE_IF PARSING_STATE_START 0xF0 (NEW_STATE 0xF0), RELEASED_BY_ARRAY 0xF0 ps2_keyboard_scancode_set2_map,
     PRESSED_BY_ARRAY PARSING_STATE_START ps2_keyboard_scancode_set2_map]"

definition ps2_keyboard_scancode_set3_parsing_map :: "parse_rule list" where
  "ps2_keyboard_scancode_set3_parsing_map = [
     STATE_IF PARSING_STATE_START 0xF0 (NEW_STATE 0xF0), RELEASED_BY_ARRAY 0xF0 ps2_keyboard_scancode_set3_map,
     PRESSED_BY_ARRAY PARSING_STATE_START ps2_keyboard_scancode_set3_map]"

section \<open>Receiving\<close>

record ps2_keyboard =
  scancode_set :: u32
  parse_map :: "parse_rule list"
  parsing_state :: u32

definition ps2_keyboard_put_event :: "u32 \<Rightarrow> u32 \<Rightarrow> nat \<Rightarrow> u32 \<Rightarrow> human_input \<Rightarrow> human_input option" where
  "ps2_keyboard_put_event now device key value s = do {
     let st = hid_reset_state_before_new_events (device_states s device);
     st \<leftarrow> (if value = 0 then hid_local_event_key key KEY_RELEASED st
           else if value = 1 then hid_local_event_key key KEY_PRESSED st else Some st);
     hid_process_changes_of_local_state now device (s\<lparr>device_states := (device_states s)(device := st)\<rparr>)
   }"

definition put_code :: "u32 \<Rightarrow> u32 \<Rightarrow> nat list \<Rightarrow> nat \<Rightarrow> u32 \<Rightarrow> human_input \<Rightarrow> human_input option" where
  "put_code now device codes code value s =
     (if code < length codes then ps2_keyboard_put_event now device (codes ! code) value s else None)"

definition take_action :: "u32 \<Rightarrow> u32 \<Rightarrow> parse_action \<Rightarrow> human_input \<Rightarrow> (u32 \<times> human_input) option" where
  "take_action now device action s =
     (case action of
        NEW_STATE n \<Rightarrow> Some (n, s)
      | PRINT_SCREEN_PRESSED \<Rightarrow> do {
          s \<leftarrow> ps2_keyboard_put_event now device KEY_PRINT_SCREEN 1 s;
          Some (PARSING_STATE_START, s)
        }
      | PRINT_SCREEN_RELEASED \<Rightarrow> do {
          s \<leftarrow> ps2_keyboard_put_event now device KEY_PRINT_SCREEN 0 s;
          Some (PARSING_STATE_START, s)
        }
      | PAUSE_PRESSED \<Rightarrow> do {
          s \<leftarrow> ps2_keyboard_put_event now device KEY_PAUSE 1 s;
          s \<leftarrow> ps2_keyboard_put_event now device KEY_PAUSE 0 s;
          Some (PARSING_STATE_START, s)
        })"

text \<open>One byte: the first rule that applies decides; without one the automaton starts again.\<close>

fun parse_byte :: "u32 \<Rightarrow> u32 \<Rightarrow> parse_rule list \<Rightarrow> u32 \<Rightarrow> u8 \<Rightarrow> human_input \<Rightarrow> (u32 \<times> human_input) option" where
  "parse_byte now device [] state byte s = Some (PARSING_STATE_START, s)"
| "parse_byte now device (STATE_IF st b action # rules) state byte s =
     (if state = st \<and> byte = b then take_action now device action s else parse_byte now device rules state byte s)"
| "parse_byte now device (PRESSED_BY_ARRAY st codes # rules) state byte s =
     (if state = st then map_option (Pair PARSING_STATE_START) (put_code now device codes (unat byte) 1 s)
      else parse_byte now device rules state byte s)"
| "parse_byte now device (RELEASED_BY_ARRAY st codes # rules) state byte s =
     (if state = st then map_option (Pair PARSING_STATE_START) (put_code now device codes (unat byte) 0 s)
      else parse_byte now device rules state byte s)"
| "parse_byte now device (PRESSED_OR_RELEASED_BY_ARRAY st codes # rules) state byte s =
     (if state = st then map_option (Pair PARSING_STATE_START)
        (if byte < 0x80 then put_code now device codes (unat byte) 1 s
         else put_code now device codes (unat (byte - 0x80)) 0 s)
      else parse_byte now device rules state byte s)"

fun ps2_keyboard_receive :: "u32 \<Rightarrow> u32 \<Rightarrow> u8 list \<Rightarrow> ps2_keyboard \<Rightarrow> human_input \<Rightarrow> (ps2_keyboard \<times> human_input) option" where
  "ps2_keyboard_receive now device [] kb s = Some (kb, s)"
| "ps2_keyboard_receive now device (byte # bytes) kb s = do {
     (state, s) \<leftarrow> parse_byte now device (parse_map kb) (parsing_state kb) byte s;
     ps2_keyboard_receive now device bytes (kb\<lparr>parsing_state := state\<rparr>) s
   }"

text \<open>
  The keyboard talks to its controller through functions that it gets from it; \<open>'c\<close> is the state of
  the controller. Both return what the controller answers; a failed command is \<open>False\<close> or \<open>None\<close>.
\<close>

record 'c communication_functions =
  send_command :: "u8 \<Rightarrow> 'c \<Rightarrow> bool \<times> 'c"
  send_command_with_payload :: "u8 \<Rightarrow> u8 \<Rightarrow> 'c \<Rightarrow> bool \<times> 'c"
  send_command_with_return :: "u8 \<Rightarrow> 'c \<Rightarrow> u32 option \<times> 'c"
  send_command_with_payload_and_return :: "u8 \<Rightarrow> u8 \<Rightarrow> 'c \<Rightarrow> u32 option \<times> 'c"

definition parsing_map_of :: "u32 \<Rightarrow> parse_rule list" where
  "parsing_map_of n =
     (if n = 1 then ps2_keyboard_scancode_set1_parsing_map
      else if n = 2 then ps2_keyboard_scancode_set2_parsing_map
      else ps2_keyboard_scancode_set3_parsing_map)"

definition choose_scancode_set :: "'c communication_functions \<Rightarrow> 'c \<Rightarrow> u32 option \<times> 'c" where
  "choose_scancode_set fs c =
     (let (answer, c) = send_command_with_payload_and_return fs 0xF0 0 c
      in case answer of None \<Rightarrow> (None, c)
         | Some n \<Rightarrow> if n < 1 \<or> 3 < n
             then (let (ok, c) = send_command_with_payload fs 0xF0 1 c in (if ok then Some 1 else None, c))
             else (Some n, c))"

definition initialize_ps2_keyboard ::
  "'c communication_functions \<Rightarrow> u32 \<Rightarrow> 'c \<Rightarrow> human_input \<Rightarrow> ps2_keyboard option \<times> 'c \<times> human_input" where
  "initialize_ps2_keyboard fs device c s =
     (let (ok, c) = send_command_with_payload fs 0xF3 0x20 c
      in if \<not> ok then (None, c, s)
         else let (answer, c) = choose_scancode_set fs c
           in case answer of None \<Rightarrow> (None, c, s)
              | Some n \<Rightarrow>
                let (ok, c) = send_command fs 0xF4 c
                in if \<not> ok then (None, c, s)
                   else (Some \<lparr>scancode_set = n, parse_map = parsing_map_of n, parsing_state = PARSING_STATE_START\<rparr>,
                     c, add_human_input_device device True s))"

definition ps2_keyboard_set_leds :: "'c communication_functions \<Rightarrow> u32 \<Rightarrow> leds \<Rightarrow> 'c \<Rightarrow> human_input \<Rightarrow> 'c \<times> human_input" where
  "ps2_keyboard_set_leds fs device l c s =
     (let payload = (if scrollock l then 0x01 else 0) OR (if numlock l then 0x02 else 0) OR (if capslock l then 0x04 else 0);
          c = snd (send_command_with_payload fs 0xED payload c)
      in (c, s\<lparr>device_states := (device_states s)(device := (device_states s device)\<lparr>dev_leds := l\<rparr>)\<rparr>))"

section \<open>What the automata do\<close>

lemmas parsing_maps = ps2_keyboard_scancode_set1_parsing_map_def ps2_keyboard_scancode_set2_parsing_map_def
  ps2_keyboard_scancode_set3_parsing_map_def PARSING_STATE_START_def

lemma length_codes:
  "length ps2_keyboard_scancode_set1_map = 0x59" "length ps2_keyboard_scancode_set1_e0_map = 0x6E"
  "length ps2_keyboard_scancode_set2_map = 0x84" "length ps2_keyboard_scancode_set2_e0_map = 0x7E"
  "length ps2_keyboard_scancode_set3_map = 0x8E"
  by code_simp+

lemma same_keyboard: "parsing_state kb = st \<Longrightarrow> kb\<lparr>parsing_state := st\<rparr> = kb"
  by (cases kb) simp

lemma byte_below: "unat c < n \<Longrightarrow> n \<le> unat b \<Longrightarrow> c \<noteq> b" for b c :: u8
  by auto

lemma receive_end:
  "parsing_state kb = st \<Longrightarrow> map_option (Pair st) x \<bind>
     (\<lambda>(state, y). ps2_keyboard_receive now device [] (kb\<lparr>parsing_state := state\<rparr>) y) = map_option (Pair kb) x"
  by (cases x) (simp_all add: same_keyboard)

text \<open>
  What the automaton does apart from the reports: its next state, and whether the code of a key lies
  inside the table of the rule that applies.
\<close>

fun state_after :: "parse_rule list \<Rightarrow> u32 \<Rightarrow> u8 \<Rightarrow> u32" where
  "state_after (STATE_IF st b action # rules) state byte =
     (if state = st \<and> byte = b then (case action of NEW_STATE n \<Rightarrow> n | _ \<Rightarrow> PARSING_STATE_START)
      else state_after rules state byte)"
| "state_after (PRESSED_BY_ARRAY st codes # rules) state byte =
     (if state = st then PARSING_STATE_START else state_after rules state byte)"
| "state_after (RELEASED_BY_ARRAY st codes # rules) state byte =
     (if state = st then PARSING_STATE_START else state_after rules state byte)"
| "state_after (PRESSED_OR_RELEASED_BY_ARRAY st codes # rules) state byte =
     (if state = st then PARSING_STATE_START else state_after rules state byte)"
| "state_after [] state byte = PARSING_STATE_START"

fun inside_table :: "parse_rule list \<Rightarrow> u32 \<Rightarrow> u8 \<Rightarrow> bool" where
  "inside_table (STATE_IF st b action # rules) state byte = (state = st \<and> byte = b \<or> inside_table rules state byte)"
| "inside_table (PRESSED_BY_ARRAY st codes # rules) state byte =
     (if state = st then unat byte < length codes else inside_table rules state byte)"
| "inside_table (RELEASED_BY_ARRAY st codes # rules) state byte =
     (if state = st then unat byte < length codes else inside_table rules state byte)"
| "inside_table (PRESSED_OR_RELEASED_BY_ARRAY st codes # rules) state byte =
     (if state = st then unat (if byte < 0x80 then byte else byte - 0x80) < length codes else inside_table rules state byte)"
| "inside_table [] state byte = True"

fun inside_tables :: "parse_rule list \<Rightarrow> u32 \<Rightarrow> u8 list \<Rightarrow> bool" where
  "inside_tables rules state [] = True"
| "inside_tables rules state (byte # bytes) =
     (inside_table rules state byte \<and> inside_tables rules (state_after rules state byte) bytes)"

fun keys_of_rule :: "parse_rule \<Rightarrow> nat list" where
  "keys_of_rule (STATE_IF st b action) = []"
| "keys_of_rule (PRESSED_BY_ARRAY st codes) = codes"
| "keys_of_rule (RELEASED_BY_ARRAY st codes) = codes"
| "keys_of_rule (PRESSED_OR_RELEASED_BY_ARRAY st codes) = codes"

lemma keys_of_maps_known: "list_all (\<lambda>r. list_all (\<lambda>k. k < INPUT_KEY_COUNT) (keys_of_rule r)) (parsing_map_of n)"
proof -
  have "list_all (\<lambda>k. k < INPUT_KEY_COUNT) ps2_keyboard_scancode_set1_map"
    "list_all (\<lambda>k. k < INPUT_KEY_COUNT) ps2_keyboard_scancode_set1_e0_map"
    "list_all (\<lambda>k. k < INPUT_KEY_COUNT) ps2_keyboard_scancode_set2_map"
    "list_all (\<lambda>k. k < INPUT_KEY_COUNT) ps2_keyboard_scancode_set2_e0_map"
    "list_all (\<lambda>k. k < INPUT_KEY_COUNT) ps2_keyboard_scancode_set3_map"
    by code_simp+
  then show ?thesis by (simp add: parsing_map_of_def parsing_maps)
qed

section \<open>Properties\<close>

text \<open>
  C12. In each of the three sets, the make code of a key puts the press of exactly the key that the
  table gives, its break code the release of it, and the automaton is back at its start.
\<close>

theorem make_and_break_codes:
  assumes "parsing_state kb = PARSING_STATE_START" "unat c < length codes"
    "(codes, parse_map kb, break) \<in> {(ps2_keyboard_scancode_set1_map, ps2_keyboard_scancode_set1_parsing_map, [c + 0x80]),
       (ps2_keyboard_scancode_set2_map, ps2_keyboard_scancode_set2_parsing_map, [0xF0, c]),
       (ps2_keyboard_scancode_set3_map, ps2_keyboard_scancode_set3_parsing_map, [0xF0, c])}"
  shows "ps2_keyboard_receive now device [c] kb s
      = map_option (Pair kb) (ps2_keyboard_put_event now device (codes ! unat c) 1 s)
    \<and> ps2_keyboard_receive now device break kb s
      = map_option (Pair kb) (ps2_keyboard_put_event now device (codes ! unat c) 0 s)"
proof -
  consider "codes = ps2_keyboard_scancode_set1_map" "parse_map kb = ps2_keyboard_scancode_set1_parsing_map" "break = [c + 0x80]"
    | "codes = ps2_keyboard_scancode_set2_map" "parse_map kb = ps2_keyboard_scancode_set2_parsing_map" "break = [0xF0, c]"
    | "codes = ps2_keyboard_scancode_set3_map" "parse_map kb = ps2_keyboard_scancode_set3_parsing_map" "break = [0xF0, c]"
    using assms(3) by blast
  then show ?thesis
  proof cases
    case 1
    then have c: "unat c < 0x59" using assms(2) length_codes by simp
    then have "unat (c + 0x80) = unat c + 0x80" by (simp add: unat_word_ariths)
    then have "c + 0x80 \<noteq> 0xE0" "c + 0x80 \<noteq> 0xE1" "\<not> c + 0x80 < 0x80" using c by (auto simp: word_less_nat_alt)
    moreover have "c < 0x80" "c \<noteq> 0xE0" "c \<noteq> 0xE1" using c by (auto simp: word_less_nat_alt)
    ultimately show ?thesis using assms(1,2) 1 by (simp add: parsing_maps put_code_def receive_end)
  next
    case 2
    then have "unat c < 0x84" using assms(2) length_codes by simp
    then have "c \<noteq> 0xE0" "c \<noteq> 0xE1" "c \<noteq> 0xF0" by auto
    then show ?thesis using assms(1,2) 2 by (simp add: parsing_maps put_code_def take_action_def receive_end)
  next
    case 3
    then have "unat c < 0x8E" using assms(2) length_codes by simp
    then have "c \<noteq> 0xF0" by auto
    then show ?thesis using assms(1,2) 3 by (simp add: parsing_maps put_code_def take_action_def receive_end)
  qed
qed

definition keyboard_of :: "u32 \<Rightarrow> ps2_keyboard" where
  "keyboard_of n = \<lparr>scancode_set = n, parse_map = parsing_map_of n, parsing_state = PARSING_STATE_START\<rparr>"

theorem make_and_break_codes_witness:
  "ps2_keyboard_receive 7 1 [0xF0, 0x1C] (keyboard_of 2) plugged
     = map_option (Pair (keyboard_of 2)) (ps2_keyboard_put_event 7 1 (ps2_keyboard_scancode_set2_map ! 0x1C) 0 plugged)"
  using make_and_break_codes [of "keyboard_of 2" "0x1C" ps2_keyboard_scancode_set2_map "[0xF0, 0x1C]" 7 1 plugged]
  by (simp add: keyboard_of_def parsing_map_of_def length_codes)

text \<open>
  A byte behind the end of the table is read from behind the array: in set 1 every byte from
  0x59 to 0x7F, in set 2 every byte from 0x84 on but the three prefixes, among them 0xAA, which a
  keyboard sends when it has been plugged in.
\<close>

theorem codes_outside_table:
  assumes "parsing_state kb = PARSING_STATE_START"
    "parse_map kb = ps2_keyboard_scancode_set1_parsing_map \<and> 0x59 \<le> c \<and> c < 0x80
     \<or> parse_map kb = ps2_keyboard_scancode_set2_parsing_map \<and> 0x84 \<le> c \<and> c \<notin> {0xE0, 0xE1, 0xF0}"
  shows "ps2_keyboard_receive now device [c] kb s = None"
  using assms(2)
proof
  assume c: "parse_map kb = ps2_keyboard_scancode_set1_parsing_map \<and> 0x59 \<le> c \<and> c < 0x80"
  then have "\<not> unat c < 0x59" "c \<noteq> 0xE0" "c \<noteq> 0xE1" by (auto simp: word_le_nat_alt)
  then show ?thesis using assms(1) c by (simp add: parsing_maps put_code_def length_codes)
next
  assume c: "parse_map kb = ps2_keyboard_scancode_set2_parsing_map \<and> 0x84 \<le> c \<and> c \<notin> {0xE0, 0xE1, 0xF0}"
  then have "\<not> unat c < 0x84" by (simp add: word_le_nat_alt)
  then show ?thesis using assms(1) c by (simp add: parsing_maps put_code_def length_codes)
qed

theorem codes_outside_table_witness: "ps2_keyboard_receive 7 1 [0xAA] (keyboard_of 2) plugged = None"
  using codes_outside_table [of "keyboard_of 2" "0xAA"] by (simp add: keyboard_of_def parsing_map_of_def)

text \<open>The sequences of print screen and pause, and the codes of set 3 that no key has.\<close>

lemma print_screen_and_pause_set1:
  "parsing_state kb = PARSING_STATE_START \<Longrightarrow> parse_map kb = ps2_keyboard_scancode_set1_parsing_map \<Longrightarrow>
   ps2_keyboard_receive now device [0xE0, 0x2A, 0xE0, 0x37] kb s
     = map_option (Pair kb) (ps2_keyboard_put_event now device KEY_PRINT_SCREEN 1 s)
   \<and> ps2_keyboard_receive now device [0xE0, 0xB7, 0xE0, 0xAA] kb s
     = map_option (Pair kb) (ps2_keyboard_put_event now device KEY_PRINT_SCREEN 0 s)
   \<and> ps2_keyboard_receive now device [0xE1, 0x1D, 0x45, 0xE1, 0x9D, 0xC5] kb s
     = map_option (Pair kb) (ps2_keyboard_put_event now device KEY_PAUSE 1 s \<bind> ps2_keyboard_put_event now device KEY_PAUSE 0)"
  by (simp add: parsing_maps take_action_def same_keyboard map_conv_bind_option comp_def)

lemma print_screen_and_pause_set2:
  "parsing_state kb = PARSING_STATE_START \<Longrightarrow> parse_map kb = ps2_keyboard_scancode_set2_parsing_map \<Longrightarrow>
   ps2_keyboard_receive now device [0xE0, 0x12, 0xE0, 0x7C] kb s
     = map_option (Pair kb) (ps2_keyboard_put_event now device KEY_PRINT_SCREEN 1 s)
   \<and> ps2_keyboard_receive now device [0xE0, 0xF0, 0x7C, 0xE0, 0xF0, 0x12] kb s
     = map_option (Pair kb) (ps2_keyboard_put_event now device KEY_PRINT_SCREEN 0 s)"
  by (simp add: parsing_maps take_action_def same_keyboard map_conv_bind_option comp_def)

text \<open>
  With the fake shift that keyboards send before the keys of the cursor block, the key is lost: the
  automaton takes the shift for the start of print screen.
\<close>

lemma fake_shift_loses_key:
  "parsing_state kb = PARSING_STATE_START \<Longrightarrow> parse_map kb = ps2_keyboard_scancode_set1_parsing_map \<Longrightarrow>
   ps2_keyboard_receive now device [0xE0, 0x2A, 0xE0, 0x47] kb s = Some (kb, s)"
  by (simp add: parsing_maps take_action_def same_keyboard)

lemma set3_lacks_two_keys:
  "KEY_MINUS \<notin> set ps2_keyboard_scancode_set3_map" "KEY_NUMPAD_SLASH \<notin> set ps2_keyboard_scancode_set3_map"
  by code_simp+

end
