(* ===== verification/Ps2_Mouse.thy ===== *)
theory Ps2_Mouse
  imports Ps2_Keyboard
begin

text \<open>
  The PS/2 mouse of \<open>devices/human_input/ps2_mouse.c\<close>: the choice of its protocol, and the packets it
  sends.
\<close>

section \<open>The driver\<close>

datatype mouse_status = PS2_MOUSE_DEFAULT | PS2_MOUSE_WHEEL_ACTIVATED | PS2_MOUSE_EXTRA_BUTTONS_ACTIVATED

record ps2_mouse =
  status :: mouse_status
  bytes_per_packet :: nat
  packet_ptr :: nat
  packet :: "u8 list"

definition BUTTON_LEFT :: nat where "BUTTON_LEFT = 1"
definition BUTTON_MIDDLE :: nat where "BUTTON_MIDDLE = 2"
definition BUTTON_RIGHT :: nat where "BUTTON_RIGHT = 3"
definition BUTTON_4 :: nat where "BUTTON_4 = 4"
definition BUTTON_5 :: nat where "BUTTON_5 = 5"
definition X_MOVEMENT :: nat where "X_MOVEMENT = 1"
definition Y_MOVEMENT :: nat where "Y_MOVEMENT = 2"
definition WHEEL_VERTICAL_MOVEMENT :: nat where "WHEEL_VERTICAL_MOVEMENT = 3"
definition WHEEL_HORIZONTAL_MOVEMENT :: nat where "WHEEL_HORIZONTAL_MOVEMENT = 4"

fun set_sample_rates :: "'c communication_functions \<Rightarrow> u8 list \<Rightarrow> 'c \<Rightarrow> bool \<times> 'c" where
  "set_sample_rates fs [] c = (True, c)"
| "set_sample_rates fs (r # rs) c =
     (let (ok, c) = send_command_with_payload fs 0xF3 r c in if ok then set_sample_rates fs rs c else (False, c))"

definition protocol_of :: "u32 \<Rightarrow> (nat \<times> mouse_status) option" where
  "protocol_of mouse_id =
     (if mouse_id = 0 then Some (3, PS2_MOUSE_DEFAULT)
      else if mouse_id = 3 then Some (4, PS2_MOUSE_WHEEL_ACTIVATED)
      else if mouse_id = 4 then Some (4, PS2_MOUSE_EXTRA_BUTTONS_ACTIVATED) else None)"

definition activate_extensions :: "'c communication_functions \<Rightarrow> 'c \<Rightarrow> u32 option \<times> 'c" where
  "activate_extensions fs c =
     (let (ok, c) = set_sample_rates fs [200, 100, 80] c
      in if \<not> ok then (None, c)
         else let (answer, c) = send_command_with_return fs 0xF2 c
           in case answer of None \<Rightarrow> (None, c)
              | Some mouse_id \<Rightarrow>
                let (ok, c) = (if mouse_id = 3 then set_sample_rates fs [200, 200, 80] c else (True, c))
                in if ok then send_command_with_return fs 0xF2 c else (None, c))"

definition initialize_ps2_mouse ::
  "'c communication_functions \<Rightarrow> u32 \<Rightarrow> 'c \<Rightarrow> human_input \<Rightarrow> ps2_mouse option \<times> 'c \<times> human_input" where
  "initialize_ps2_mouse fs device c s =
     (let (answer, c) = activate_extensions fs c
      in case answer \<bind> protocol_of of None \<Rightarrow> (None, c, s)
         | Some (n, st) \<Rightarrow>
           let (ok, c) = send_command fs 0xF4 c
           in if \<not> ok then (None, c, s)
              else (Some \<lparr>status = st, bytes_per_packet = n, packet_ptr = 0, packet = [0, 0, 0, 0]\<rparr>, c,
                add_human_input_device device False s))"

record mouse_event =
  left_button :: u8
  right_button :: u8
  middle_button :: u8
  button_4 :: u8
  button_5 :: u8
  x_movement :: u32
  y_movement :: u32
  wheel_vertical_movement :: u32
  wheel_horizontal_movement :: u32

definition x_of :: "u8 list \<Rightarrow> u32" where
  "x_of p = (if p ! 0 AND 0x10 = 0x10 then ucast (p ! 1) OR 0xFFFFFF00 else ucast (p ! 1))"

definition y_of :: "u8 list \<Rightarrow> u32" where
  "y_of p =
     (if p ! 2 = 0 then 0
      else let y = (ucast (p ! 2) * - 1) AND 0xFF in if p ! 0 AND 0x20 = 0 then y OR 0xFFFFFF00 else y)"

definition wheel_of :: "mouse_status \<Rightarrow> u8 list \<Rightarrow> u32 \<times> u32" where
  "wheel_of st p =
     (case st of
        PS2_MOUSE_DEFAULT \<Rightarrow> (0, 0)
      | PS2_MOUSE_WHEEL_ACTIVATED \<Rightarrow>
          (if p ! 3 = 0 then 0
           else let w = ucast (p ! 3) in if w AND 0x80 = 0x80 then w OR 0xFFFFFF00 else w, 0)
      | PS2_MOUSE_EXTRA_BUTTONS_ACTIVATED \<Rightarrow>
          (let w = p ! 3 AND 0x0F
           in if w = 0x01 then (1, 0) else if w = 0x0F then (0xFFFFFFFF, 0)
              else if w = 0x02 then (0, 1) else if w = 0x0E then (0, 0xFFFFFFFF) else (0, 0)))"

definition decode_packet :: "mouse_status \<Rightarrow> u8 list \<Rightarrow> mouse_event" where
  "decode_packet st p =
     (let extra = st = PS2_MOUSE_EXTRA_BUTTONS_ACTIVATED
      in \<lparr>left_button = p ! 0 AND 1, right_button = drop_bit 1 (p ! 0) AND 1, middle_button = drop_bit 2 (p ! 0) AND 1,
        button_4 = (if extra then drop_bit 4 (p ! 3) AND 1 else 0), button_5 = (if extra then drop_bit 5 (p ! 3) AND 1 else 0),
        x_movement = x_of p, y_movement = y_of p, wheel_vertical_movement = fst (wheel_of st p),
        wheel_horizontal_movement = snd (wheel_of st p)\<rparr>)"

definition put_buttons :: "mouse_event \<Rightarrow> device_state \<Rightarrow> device_state option" where
  "put_buttons e st = do {
     st \<leftarrow> hid_local_event_button BUTTON_LEFT (left_button e) st;
     st \<leftarrow> hid_local_event_button BUTTON_MIDDLE (middle_button e) st;
     st \<leftarrow> hid_local_event_button BUTTON_RIGHT (right_button e) st;
     st \<leftarrow> hid_local_event_button BUTTON_4 (button_4 e) st;
     hid_local_event_button BUTTON_5 (button_5 e) st
   }"

definition put_movement :: "mouse_event \<Rightarrow> device_state \<Rightarrow> device_state option" where
  "put_movement e st =
     (if x_movement e \<noteq> 0 \<or> y_movement e \<noteq> 0 \<or> wheel_vertical_movement e \<noteq> 0 \<or> wheel_horizontal_movement e \<noteq> 0
      then do {
        st \<leftarrow> hid_local_event_movement X_MOVEMENT (x_movement e) st;
        st \<leftarrow> hid_local_event_movement Y_MOVEMENT (y_movement e) st;
        st \<leftarrow> hid_local_event_movement WHEEL_VERTICAL_MOVEMENT (wheel_vertical_movement e) st;
        hid_local_event_movement WHEEL_HORIZONTAL_MOVEMENT (wheel_horizontal_movement e) st
      } else Some st)"

definition process_packet :: "u32 \<Rightarrow> u32 \<Rightarrow> mouse_status \<Rightarrow> u8 list \<Rightarrow> human_input \<Rightarrow> human_input option" where
  "process_packet now device st p s = do {
     let e = decode_packet st p;
     let d = hid_reset_state_before_new_events (device_states s device);
     d \<leftarrow> put_buttons e d;
     d \<leftarrow> put_movement e d;
     hid_process_changes_of_local_state now device (s\<lparr>device_states := (device_states s)(device := d)\<rparr>)
   }"

fun ps2_mouse_receive :: "u32 \<Rightarrow> u32 \<Rightarrow> u8 list \<Rightarrow> ps2_mouse \<Rightarrow> human_input \<Rightarrow> (ps2_mouse \<times> human_input) option" where
  "ps2_mouse_receive now device [] mouse s = Some (mouse, s)"
| "ps2_mouse_receive now device (byte # bytes) mouse s =
     (let p = (packet mouse)[packet_ptr mouse := byte]; ptr = packet_ptr mouse + 1
      in if ptr < bytes_per_packet mouse
         then ps2_mouse_receive now device bytes (mouse\<lparr>packet := p, packet_ptr := ptr\<rparr>) s
         else if p ! 0 AND 0xC0 \<noteq> 0
         then ps2_mouse_receive now device bytes (mouse\<lparr>packet := p, packet_ptr := 0\<rparr>) s
         else process_packet now device (status mouse) p s \<bind>
           ps2_mouse_receive now device bytes (mouse\<lparr>packet := p, packet_ptr := 0\<rparr>))"

section \<open>Packets\<close>

lemma sint_of_small: "- 2147483648 \<le> i \<Longrightarrow> i < 2147483648 \<Longrightarrow> sint (word_of_int i :: u32) = i"
  by (simp add: signed_of_int signed_take_bit_int_eq_self)

lemma negative_byte:
  assumes "w AND 0xFF = (w :: u32)"
  shows "w OR 0xFFFFFF00 = w - 256"
proof -
  have "w AND 0xFFFFFF00 = (w AND 0xFF) AND 0xFFFFFF00" by (simp only: assms)
  also have "\<dots> = w AND (0xFF AND 0xFFFFFF00)" by (rule and.assoc)
  finally have "w AND 0xFFFFFF00 = 0" by simp
  then have "w OR 0xFFFFFF00 = w + 0xFFFFFF00" by (rule disjunctive_add_eq_or [symmetric])
  moreover have "w + 0xFFFFFF00 = w - 256" by (simp add: diff_conv_add_uminus del: add_uminus_conv_diff)
  ultimately show ?thesis by (rule trans)
qed

lemma uint_byte: "0 \<le> uint (b :: u8)" "uint (b :: u8) < 256"
  using uint_lt2p [of b] by simp_all

lemma low_byte: "(w :: u32) AND 0xFF = word_of_int (uint w mod 256)"
proof -
  have "w AND 0xFF = take_bit 8 w" by (simp add: take_bit_eq_mask mask_eq_exp_minus_1)
  then have "uint (w AND 0xFF) = uint w mod 256" by (simp only: unsigned_take_bit_eq) (simp add: take_bit_eq_mod)
  then show ?thesis by (metis word_of_int_uint)
qed

lemma movement_byte:
  fixes b :: u8
  shows "sint (ucast b :: u32) = uint b" "sint (ucast b OR 0xFFFFFF00 :: u32) = uint b - 256"
    "b \<noteq> 0 \<Longrightarrow> sint ((- ucast b AND 0xFF) :: u32) = 256 - uint b"
    "b \<noteq> 0 \<Longrightarrow> sint ((- ucast b AND 0xFF) OR 0xFFFFFF00 :: u32) = - uint b"
proof -
  have w: "(ucast b :: u32) = word_of_int (uint b)" by simp
  show "sint (ucast b :: u32) = uint b" unfolding w by (rule sint_of_small) (use uint_byte [of b] in linarith)+
  have u: "uint (ucast b :: u32) = uint b" using uint_byte [of b] by (simp add: unsigned_ucast_eq take_bit_int_eq_self)
  have "(ucast b :: u32) AND 0xFF = ucast b" using u uint_byte [of b] by (simp add: low_byte)
  from negative_byte [OF this] have "(ucast b OR 0xFFFFFF00 :: u32) = word_of_int (uint b - 256)" by simp
  moreover have "sint (word_of_int (uint b - 256) :: u32) = uint b - 256"
    by (rule sint_of_small) (use uint_byte [of b] in linarith)+
  ultimately show "sint (ucast b OR 0xFFFFFF00 :: u32) = uint b - 256" by (simp only:)
  assume "b \<noteq> 0"
  then have pos: "0 < uint b" using uint_byte(1) [of b] by (simp add: less_le unsigned_eq_0_iff)
  have "uint (- ucast b :: u32) = (- uint b) mod 4294967296" by (simp add: uint_word_ariths u)
  then have "uint (- ucast b :: u32) mod 256 = (- uint b) mod 256" by (simp add: mod_mod_cancel)
  also have "\<dots> = 256 - uint b" using pos uint_byte(2) [of b] by (simp add: zmod_zminus1_eq_if)
  finally have y: "(- ucast b AND 0xFF :: u32) = word_of_int (256 - uint b)" by (simp add: low_byte)
  show "sint ((- ucast b AND 0xFF) :: u32) = 256 - uint b"
    unfolding y by (rule sint_of_small) (use uint_byte [of b] pos in linarith)+
  have "(- ucast b AND 0xFF) AND 0xFF = (- ucast b AND 0xFF :: u32)" by (simp add: and.assoc)
  from negative_byte [OF this] have "((- ucast b AND 0xFF) OR 0xFFFFFF00 :: u32) = word_of_int (- uint b)"
    unfolding y by simp
  moreover have "sint (word_of_int (- uint b) :: u32) = - uint b"
    by (rule sint_of_small) (use uint_byte [of b] in linarith)+
  ultimately show "sint ((- ucast b AND 0xFF) OR 0xFFFFFF00 :: u32) = - uint b" by (simp only:)
qed

fun process_packets :: "u32 \<Rightarrow> u32 \<Rightarrow> mouse_status \<Rightarrow> u8 list \<Rightarrow> u8 list list \<Rightarrow> human_input \<Rightarrow> human_input option" where
  "process_packets now device st rest [] s = Some s"
| "process_packets now device st rest (p # ps) s =
     (if p ! 0 AND 0xC0 \<noteq> 0 then process_packets now device st rest ps s
      else process_packet now device st (p @ rest) s \<bind> process_packets now device st rest ps)"

lemma receive_packet:
  assumes "packet_ptr mouse = 0" "packet mouse = old @ rest" "length old = n" "bytes_per_packet mouse = n"
    "n = 3 \<or> n = 4" "length p = n"
  shows "ps2_mouse_receive now device (p @ bytes) mouse s =
    (if p ! 0 AND 0xC0 \<noteq> 0 then ps2_mouse_receive now device bytes (mouse\<lparr>packet := p @ rest\<rparr>) s
     else process_packet now device (status mouse) (p @ rest) s \<bind>
       ps2_mouse_receive now device bytes (mouse\<lparr>packet := p @ rest\<rparr>))"
proof -
  have ptr: "mouse\<lparr>packet := q, packet_ptr := 0\<rparr> = mouse\<lparr>packet := q\<rparr>" for q
    using assms(1) by (cases mouse) simp
  show ?thesis using assms(5)
  proof
    assume "n = 3"
    then obtain a b c x y z where "p = [a, b, c]" "old = [x, y, z]"
      using assms(3,6) by (auto simp: length_Suc_conv numeral_3_eq_3)
    then show ?thesis using assms \<open>n = 3\<close> by (simp add: Let_def ptr)
  next
    assume "n = 4"
    then obtain a b c d x y z w where "p = [a, b, c, d]" "old = [x, y, z, w]"
      using assms(3,6) by (auto simp: length_Suc_conv eval_nat_numeral)
    then show ?thesis using assms \<open>n = 4\<close> by (simp add: Let_def ptr)
  qed
qed

section \<open>Properties\<close>

text \<open>
  A stream of whole packets is processed packet by packet in its order: those with an overflow
  bit are dropped, the others are decoded and reported.
\<close>

theorem mouse_stream_of_packets:
  assumes "packet_ptr mouse = 0" "packet mouse = old @ rest" "length old = n" "bytes_per_packet mouse = n"
    "n = 3 \<or> n = 4" "\<forall>p \<in> set ps. length p = n"
  shows "map_option snd (ps2_mouse_receive now device (concat ps) mouse s)
    = process_packets now device (status mouse) rest ps s"
  using assms
proof (induction ps arbitrary: mouse old s)
  case (Cons p ps)
  let ?m = "mouse\<lparr>packet := p @ rest\<rparr>"
  have IH: "map_option snd (ps2_mouse_receive now device (concat ps) ?m s) = process_packets now device (status mouse) rest ps s" for s
    using Cons.IH [of ?m p s] Cons.prems by simp
  have "length p = n" using Cons.prems(6) by simp
  note step = receive_packet [OF Cons.prems(1-5) this, of now device "concat ps" s]
  show ?case
  proof (cases "process_packet now device (status mouse) (p @ rest) s")
    case None
    then show ?thesis using step IH by simp
  next
    case (Some t)
    then show ?thesis using step IH by simp
  qed
qed simp

text \<open>
  The horizontal movement of a packet is its nine-bit two's complement number, and the vertical
  one the negative of it, except that a vertical movement of -256 is taken for none.
\<close>

theorem mouse_movement_decoded:
  "sint (x_movement (decode_packet st p)) = uint (p ! 1) - (if p ! 0 AND 0x10 = 0x10 then 256 else 0)
   \<and> sint (y_movement (decode_packet st p))
     = (if p ! 2 = 0 then 0 else (if p ! 0 AND 0x20 = 0 then 0 else 256) - uint (p ! 2))"
  by (simp add: decode_packet_def Let_def x_of_def y_of_def movement_byte)

theorem mouse_stream_of_packets_witness:
  "map_option snd (ps2_mouse_receive 7 1 [0x08, 5, 0, 0xC8, 1, 1]
      \<lparr>status = PS2_MOUSE_DEFAULT, bytes_per_packet = 3, packet_ptr = 0, packet = [0, 0, 0, 0]\<rparr> plugged)
    = process_packet 7 1 PS2_MOUSE_DEFAULT [0x08, 5, 0, 0] plugged"
  using mouse_stream_of_packets [of "\<lparr>status = PS2_MOUSE_DEFAULT, bytes_per_packet = 3, packet_ptr = 0, packet = [0, 0, 0, 0]\<rparr>"
      "[0, 0, 0]" "[0]" 3 "[[0x08, 5, 0], [0xC8, 1, 1]]" 7 1 plugged]
  by (cases "process_packet 7 1 PS2_MOUSE_DEFAULT [0x08, 5, 0, 0] plugged") (simp_all del: ps2_mouse_receive.simps)

section \<open>Well-formed input\<close>

text \<open>
  The arrays of the group and of every device have their length, and buttons have one of their
  states. The operations of the group and of the two drivers keep this.
\<close>

definition device_typed :: "device_state \<Rightarrow> bool" where
  "device_typed d \<longleftrightarrow> length (dev_key_state d) = INPUT_KEY_COUNT \<and> length (dev_button_state d) = INPUT_BUTTONS_COUNT
     \<and> set (dev_button_state d) \<subseteq> {BUTTON_RELEASED, BUTTON_PRESSED} \<and> length (dev_movement_value d) = INPUT_MOVEMENTS_COUNT"

definition input_typed :: "human_input \<Rightarrow> bool" where
  "input_typed s \<longleftrightarrow> key_state_known s \<and> (\<forall>a. device_typed (device_states s a)) \<and> global_event_mutex s = 0 \<and> (\<exists>ks. waiting s ks)"

lemma report_typed:
  assumes "input_typed s" "device_typed d"
  shows "\<exists>s'. hid_process_changes_of_local_state now a (s\<lparr>device_states := (device_states s)(a := d)\<rparr>) = Some s' \<and> input_typed s'"
proof -
  let ?s = "s\<lparr>device_states := (device_states s)(a := d)\<rparr>"
  obtain ks where ks: "waiting s ks" using assms(1) by (auto simp: input_typed_def)
  have d: "\<forall>b. device_typed (device_states ?s b)" using assms by (simp add: input_typed_def)
  have pre: "key_state_known ?s" "devices_known ?s" "global_event_mutex ?s = 0" "waiting ?s ks"
    using assms(1) d ks unfolding input_typed_def key_state_known_def devices_known_def device_typed_def waiting_def by simp_all
  obtain s' where s': "hid_process_changes_of_local_state now a ?s = Some s'" "key_state_known s'" "global_event_mutex s' = 0"
    "device_states s' = device_states ?s" "\<exists>ks'. waiting s' ks'"
    using report_effect [OF pre, of now a] by blast
  then have "input_typed s'" using d unfolding input_typed_def by simp
  then show ?thesis using s'(1) by blast
qed

lemma key_event_typed:
  "device_typed d \<Longrightarrow> key < INPUT_KEY_COUNT \<Longrightarrow> \<exists>d'. hid_local_event_key key v d = Some d' \<and> device_typed d'"
  by (simp add: hid_local_event_key_def device_typed_def)

lemma button_event_typed:
  assumes "device_typed d" "b < INPUT_BUTTONS_COUNT" "v \<in> {BUTTON_RELEASED, BUTTON_PRESSED}"
  shows "\<exists>d'. hid_local_event_button b v d = Some d' \<and> device_typed d'"
proof -
  have "set ((dev_button_state d)[b := v]) \<subseteq> insert v (set (dev_button_state d))" by (rule set_update_subset_insert)
  then show ?thesis using assms by (auto simp: hid_local_event_button_def device_typed_def)
qed

lemma movement_event_typed:
  "device_typed d \<Longrightarrow> m < INPUT_MOVEMENTS_COUNT \<Longrightarrow> \<exists>d'. hid_local_event_movement m v d = Some d' \<and> device_typed d'"
  by (simp add: hid_local_event_movement_def device_typed_def)

lemma reset_typed: "device_typed d \<Longrightarrow> device_typed (hid_reset_state_before_new_events d)"
  by (simp add: hid_reset_state_before_new_events_def device_typed_def)

lemma low_bit: "(w :: u8) AND 1 \<in> {BUTTON_RELEASED, BUTTON_PRESSED}"
  by (cases "even w") (auto simp: and_one_eq mod2_eq_if BUTTON_RELEASED_def BUTTON_PRESSED_def)

lemma put_buttons_typed:
  assumes "device_typed d"
  shows "\<exists>d'. put_buttons (decode_packet st p) d = Some d' \<and> device_typed d'"
proof -
  have b: "BUTTON_LEFT < INPUT_BUTTONS_COUNT" "BUTTON_MIDDLE < INPUT_BUTTONS_COUNT" "BUTTON_RIGHT < INPUT_BUTTONS_COUNT"
    "BUTTON_4 < INPUT_BUTTONS_COUNT" "BUTTON_5 < INPUT_BUTTONS_COUNT"
    by (simp_all add: BUTTON_LEFT_def BUTTON_MIDDLE_def BUTTON_RIGHT_def BUTTON_4_def BUTTON_5_def INPUT_BUTTONS_COUNT_def)
  let ?e = "decode_packet st p"
  have v: "left_button ?e \<in> {BUTTON_RELEASED, BUTTON_PRESSED}" "middle_button ?e \<in> {BUTTON_RELEASED, BUTTON_PRESSED}"
    "right_button ?e \<in> {BUTTON_RELEASED, BUTTON_PRESSED}" "button_4 ?e \<in> {BUTTON_RELEASED, BUTTON_PRESSED}"
    "button_5 ?e \<in> {BUTTON_RELEASED, BUTTON_PRESSED}"
    using low_bit by (auto simp: decode_packet_def Let_def BUTTON_RELEASED_def)
  obtain d1 where d1: "hid_local_event_button BUTTON_LEFT (left_button ?e) d = Some d1" "device_typed d1"
    using button_event_typed [OF assms b(1) v(1)] by blast
  obtain d2 where d2: "hid_local_event_button BUTTON_MIDDLE (middle_button ?e) d1 = Some d2" "device_typed d2"
    using button_event_typed [OF d1(2) b(2) v(2)] by blast
  obtain d3 where d3: "hid_local_event_button BUTTON_RIGHT (right_button ?e) d2 = Some d3" "device_typed d3"
    using button_event_typed [OF d2(2) b(3) v(3)] by blast
  obtain d4 where d4: "hid_local_event_button BUTTON_4 (button_4 ?e) d3 = Some d4" "device_typed d4"
    using button_event_typed [OF d3(2) b(4) v(4)] by blast
  show ?thesis using button_event_typed [OF d4(2) b(5) v(5)] d1 d2 d3 d4 by (simp add: put_buttons_def)
qed

lemma put_movement_typed:
  assumes "device_typed d"
  shows "\<exists>d'. put_movement e d = Some d' \<and> device_typed d'"
proof -
  have m: "X_MOVEMENT < INPUT_MOVEMENTS_COUNT" "Y_MOVEMENT < INPUT_MOVEMENTS_COUNT" "WHEEL_VERTICAL_MOVEMENT < INPUT_MOVEMENTS_COUNT"
    "WHEEL_HORIZONTAL_MOVEMENT < INPUT_MOVEMENTS_COUNT"
    by (simp_all add: X_MOVEMENT_def Y_MOVEMENT_def WHEEL_VERTICAL_MOVEMENT_def WHEEL_HORIZONTAL_MOVEMENT_def INPUT_MOVEMENTS_COUNT_def)
  obtain d1 where d1: "hid_local_event_movement X_MOVEMENT (x_movement e) d = Some d1" "device_typed d1"
    using movement_event_typed [OF assms m(1)] by blast
  obtain d2 where d2: "hid_local_event_movement Y_MOVEMENT (y_movement e) d1 = Some d2" "device_typed d2"
    using movement_event_typed [OF d1(2) m(2)] by blast
  obtain d3 where d3: "hid_local_event_movement WHEEL_VERTICAL_MOVEMENT (wheel_vertical_movement e) d2 = Some d3" "device_typed d3"
    using movement_event_typed [OF d2(2) m(3)] by blast
  show ?thesis using movement_event_typed [OF d3(2) m(4)] assms d1 d2 d3 by (simp add: put_movement_def)
qed

lemma process_packet_typed:
  assumes "input_typed s"
  shows "\<exists>s'. process_packet now a st p s = Some s' \<and> input_typed s'"
proof -
  have "device_typed (hid_reset_state_before_new_events (device_states s a))"
    using assms by (simp add: input_typed_def reset_typed)
  then obtain d where d: "put_buttons (decode_packet st p) (hid_reset_state_before_new_events (device_states s a)) = Some d" "device_typed d"
    using put_buttons_typed by blast
  obtain d' where d': "put_movement (decode_packet st p) d = Some d'" "device_typed d'"
    using put_movement_typed [OF d(2)] by blast
  show ?thesis using report_typed [OF assms d'(2), of now a] d(1) d'(1) by (simp add: process_packet_def Let_def)
qed

lemma put_key_typed:
  assumes "input_typed s" "key < INPUT_KEY_COUNT"
  shows "\<exists>s'. ps2_keyboard_put_event now a key v s = Some s' \<and> input_typed s'"
proof -
  have r: "device_typed (hid_reset_state_before_new_events (device_states s a))"
    using assms(1) by (simp add: input_typed_def reset_typed)
  have "\<exists>d. (if v = 0 then hid_local_event_key key KEY_RELEASED (hid_reset_state_before_new_events (device_states s a))
      else if v = 1 then hid_local_event_key key KEY_PRESSED (hid_reset_state_before_new_events (device_states s a))
      else Some (hid_reset_state_before_new_events (device_states s a))) = Some d \<and> device_typed d"
    using key_event_typed [OF r assms(2)] r by auto
  then obtain d where "(if v = 0 then hid_local_event_key key KEY_RELEASED (hid_reset_state_before_new_events (device_states s a))
      else if v = 1 then hid_local_event_key key KEY_PRESSED (hid_reset_state_before_new_events (device_states s a))
      else Some (hid_reset_state_before_new_events (device_states s a))) = Some d" "device_typed d" by blast
  then show ?thesis using report_typed [OF assms(1), of d now a] by (simp add: ps2_keyboard_put_event_def Let_def)
qed

lemma parse_byte_typed:
  assumes "input_typed s" "list_all (\<lambda>r. list_all (\<lambda>k. k < INPUT_KEY_COUNT) (keys_of_rule r)) rules"
  shows "if inside_table rules state byte
    then \<exists>s'. parse_byte now a rules state byte s = Some (state_after rules state byte, s') \<and> input_typed s'
    else parse_byte now a rules state byte s = None"
proof -
  have code: "if c < length codes then \<exists>s'. put_code now a codes c v s = Some s' \<and> input_typed s' else put_code now a codes c v s = None"
    if "list_all (\<lambda>k. k < INPUT_KEY_COUNT) codes" for c codes v
    using put_key_typed [OF assms(1), of "codes ! c" now a v] that by (simp add: put_code_def list_all_length)
  have keys: "KEY_PRINT_SCREEN < INPUT_KEY_COUNT" "KEY_PAUSE < INPUT_KEY_COUNT"
    by (simp_all add: KEY_PRINT_SCREEN_def KEY_PAUSE_def INPUT_KEY_COUNT_def)
  have action: "\<exists>s'. take_action now a x s = Some (case x of NEW_STATE n \<Rightarrow> n | _ \<Rightarrow> PARSING_STATE_START, s') \<and> input_typed s'" for x
  proof (cases x)
    case PAUSE_PRESSED
    obtain t where t: "ps2_keyboard_put_event now a KEY_PAUSE 1 s = Some t" "input_typed t"
      using put_key_typed [OF assms(1) keys(2)] by blast
    show ?thesis using put_key_typed [OF t(2) keys(2), of now a 0] t(1) PAUSE_PRESSED by (auto simp: take_action_def)
  qed (use assms(1) put_key_typed [OF assms(1) keys(1), of now a 0] put_key_typed [OF assms(1) keys(1), of now a 1]
      in \<open>auto simp: take_action_def\<close>)
  show ?thesis using assms(2)
  proof (induction rules)
    case Nil
    then show ?case using assms(1) by simp
  next
    case (Cons r rules)
    then have IH: "if inside_table rules state byte
      then \<exists>s'. parse_byte now a rules state byte s = Some (state_after rules state byte, s') \<and> input_typed s'
      else parse_byte now a rules state byte s = None" by simp
    have codes: "list_all (\<lambda>k. k < INPUT_KEY_COUNT) (keys_of_rule r)" using Cons.prems by simp
    show ?case
    proof (cases r)
      case (STATE_IF st b x)
      then show ?thesis using IH action [of x] by auto
    next
      case (PRESSED_BY_ARRAY st cs)
      then show ?thesis using IH code [of cs "unat byte" 1] codes by (auto split: if_splits)
    next
      case (RELEASED_BY_ARRAY st cs)
      then show ?thesis using IH code [of cs "unat byte" 0] codes by (auto split: if_splits)
    next
      case (PRESSED_OR_RELEASED_BY_ARRAY st cs)
      then show ?thesis using IH code [of cs "unat byte" 1] code [of cs "unat (byte - 0x80)" 0] codes by (auto split: if_splits)
    qed
  qed
qed

lemma keyboard_receive_typed:
  assumes "input_typed s" "parse_map kb = parsing_map_of n"
  shows "if inside_tables (parse_map kb) (parsing_state kb) bytes
    then \<exists>kb' s'. ps2_keyboard_receive now a bytes kb s = Some (kb', s') \<and> input_typed s'
    else ps2_keyboard_receive now a bytes kb s = None"
  using assms
proof (induction bytes arbitrary: kb s)
  case (Cons byte bytes)
  note step = parse_byte_typed [OF Cons.prems(1) keys_of_maps_known [of n], of "parsing_state kb" byte now a]
  show ?case
  proof (cases "inside_table (parse_map kb) (parsing_state kb) byte")
    case True
    let ?kb = "kb\<lparr>parsing_state := state_after (parse_map kb) (parsing_state kb) byte\<rparr>"
    obtain t where t: "parse_byte now a (parse_map kb) (parsing_state kb) byte s
        = Some (state_after (parse_map kb) (parsing_state kb) byte, t)" "input_typed t"
      using step True Cons.prems(2) by auto
    then show ?thesis using Cons.IH [OF t(2), of ?kb] Cons.prems(2) True by (simp split: if_splits)
  next
    case False
    then show ?thesis using step Cons.prems(2) by simp
  qed
qed simp

definition mouse_typed :: "ps2_mouse \<Rightarrow> bool" where
  "mouse_typed m \<longleftrightarrow> length (packet m) = 4 \<and> packet_ptr m < bytes_per_packet m \<and> bytes_per_packet m \<le> 4"

lemma mouse_receive_typed:
  assumes "input_typed s" "mouse_typed m"
  shows "\<exists>m' s'. ps2_mouse_receive now a bytes m s = Some (m', s') \<and> input_typed s' \<and> mouse_typed m'"
  using assms
proof (induction bytes arbitrary: m s)
  case (Cons byte bytes)
  let ?p = "(packet m)[packet_ptr m := byte]"
  have next_byte: "mouse_typed (m\<lparr>packet := ?p, packet_ptr := packet_ptr m + 1\<rparr>)" if "packet_ptr m + 1 < bytes_per_packet m"
    using that Cons.prems(2) by (simp add: mouse_typed_def)
  have whole: "mouse_typed (m\<lparr>packet := ?p, packet_ptr := 0\<rparr>)" using Cons.prems(2) by (auto simp: mouse_typed_def)
  obtain t where t: "process_packet now a (status m) ?p s = Some t" "input_typed t"
    using process_packet_typed [OF Cons.prems(1)] by blast
  show ?case using Cons.IH [OF Cons.prems(1) next_byte] Cons.IH [OF Cons.prems(1) whole] Cons.IH [OF t(2) whole] t(1)
    by (simp add: Let_def)
qed simp

lemma typed_frame:
  assumes "input_typed s" "same_devices s s'" "key_state (global s') = key_state (global s)"
    "button_state (global s') = button_state (global s)" "\<exists>ks. waiting s' ks"
  shows "input_typed s'"
  using assms unfolding input_typed_def same_devices_def key_state_known_def by simp

lemma set_leds_typed: "input_typed s \<Longrightarrow> input_typed (snd (ps2_keyboard_set_leds fs device l c s))"
  by (simp add: ps2_keyboard_set_leds_def Let_def input_typed_def device_typed_def key_state_known_def waiting_def)

lemma update_leds_typed:
  assumes "\<And>d l s. input_typed s \<Longrightarrow> input_typed (set_leds d l s)" "input_typed s"
  shows "input_typed (update_leds set_leds s)"
  unfolding update_leds_def
  by (rule fold_invariant [where Q = "\<lambda>_. True"]) (use assms in \<open>auto split: prod.split\<close>)

lemma on_global_typed:
  assumes "input_typed s" "key_state (f (global s)) = key_state (global s)" "button_state (f (global s)) = button_state (global s)"
  shows "input_typed (on_global f s)"
  by (rule typed_frame [OF assms(1)]) (use assms in \<open>simp_all add: input_typed_def\<close>)

lemma add_event_typed: "input_typed s \<Longrightarrow> input_typed (add_event_to_screen_subsystem_list ty v s)"
  by (rule typed_frame) (auto simp: input_typed_def intro: waiting_add_event)

lemma check_typed:
  assumes "\<And>d l s. input_typed s \<Longrightarrow> input_typed (set_leds d l s)" "input_typed s"
  shows "input_typed (check_human_input_state set_leds now s)"
  using update_leds_typed [OF assms]
  by (simp add: check_human_input_state_def Let_def no_last_key_def on_global_typed add_event_typed)

lemma group_typed:
  assumes "input_typed s"
  shows "input_typed (set_keyboard_layout layout s)" "input_typed (add_human_input_device device has_leds s)"
    "input_typed (remove_human_input_device device s)"
  using assms by (simp_all add: set_keyboard_layout_def add_human_input_device_def remove_human_input_device_def
      input_typed_def key_state_known_def waiting_def)

text \<open>
  C28. The state of the input devices stays well formed: the arrays of the group and of every device
  keep their length, buttons have one of their states, the mutex is free and the queue of events
  is intact after a change of the layout, the registration and the removal of a device, the
  periodic check with the leds of the keyboard, and whatever bytes the two drivers receive. The
  mouse takes any bytes and keeps its place inside the packet. The keyboard with the tables of its
  set takes exactly the bytes whose codes lie inside the table that applies; otherwise the driver
  reads behind the table, which is a fault of the code.
\<close>

theorem input_stays_well_formed:
  assumes "input_typed s" "parse_map kb = parsing_map_of n" "mouse_typed mouse"
  shows "input_typed (set_keyboard_layout layout s) \<and> input_typed (add_human_input_device device has_leds s)
    \<and> input_typed (remove_human_input_device device s)
    \<and> input_typed (check_human_input_state (\<lambda>d l s. snd (ps2_keyboard_set_leds fs d l c s)) now s)
    \<and> (\<exists>mouse' s'. ps2_mouse_receive now device bytes mouse s = Some (mouse', s') \<and> input_typed s' \<and> mouse_typed mouse')
    \<and> (if inside_tables (parse_map kb) (parsing_state kb) codes
       then \<exists>kb' s'. ps2_keyboard_receive now device codes kb s = Some (kb', s') \<and> input_typed s'
       else ps2_keyboard_receive now device codes kb s = None)"
  using assms by (intro conjI group_typed check_typed set_leds_typed mouse_receive_typed keyboard_receive_typed)

lemma input_typed_plugged: "input_typed plugged"
  using plugged(1-4) unfolding input_typed_def
  by (auto simp: plugged_def device_typed_def BUTTON_RELEASED_def BUTTON_PRESSED_def INPUT_BUTTONS_COUNT_def INPUT_MOVEMENTS_COUNT_def)

theorem input_stays_well_formed_witness:
  "(\<exists>kb' s'. ps2_keyboard_receive 7 1 [0x1C, 0xF0, 0x1C, 0xE0, 0x75, 0xE0, 0xF0, 0x75] (keyboard_of 2) plugged = Some (kb', s')
      \<and> input_typed s')
   \<and> (\<exists>mouse' s'. ps2_mouse_receive 7 1 [0x08, 5, 0, 0x1F, 0x08]
      \<lparr>status = PS2_MOUSE_EXTRA_BUTTONS_ACTIVATED, bytes_per_packet = 4, packet_ptr = 0, packet = [0, 0, 0, 0]\<rparr> plugged = Some (mouse', s')
      \<and> input_typed s')"
proof -
  let ?mouse = "\<lparr>status = PS2_MOUSE_EXTRA_BUTTONS_ACTIVATED, bytes_per_packet = 4, packet_ptr = 0, packet = [0, 0, 0, 0]\<rparr>"
  let ?codes = "[0x1C, 0xF0, 0x1C, 0xE0, 0x75, 0xE0, 0xF0, 0x75]"
  have "parse_map (keyboard_of 2) = parsing_map_of 2" "mouse_typed ?mouse" by (simp_all add: keyboard_of_def mouse_typed_def)
  note i = input_stays_well_formed [OF input_typed_plugged this]
  have "inside_tables (parse_map (keyboard_of 2)) (parsing_state (keyboard_of 2)) ?codes"
    by (simp add: keyboard_of_def parsing_map_of_def parsing_maps length_codes)
  then have "\<exists>kb' s'. ps2_keyboard_receive 7 1 ?codes (keyboard_of 2) plugged = Some (kb', s') \<and> input_typed s'"
    using i [where codes = ?codes and now = 7 and device = 1] by presburger
  moreover have "\<exists>mouse' s'. ps2_mouse_receive 7 1 [0x08, 5, 0, 0x1F, 0x08] ?mouse plugged = Some (mouse', s') \<and> input_typed s'"
    using i [where bytes = "[0x08, 5, 0, 0x1F, 0x08]" and now = 7 and device = 1,
      THEN conjunct2, THEN conjunct2, THEN conjunct2, THEN conjunct2, THEN conjunct1] by blast
  ultimately show ?thesis ..
qed

end
