(* ===== verification/Ramdisk.thy ===== *)
theory Ramdisk
  imports Libc_Text
begin

text \<open>
  The searches in the files the kernel carries (\<open>source/kernel/software\<close>): the directory of the
  ramdisk (\<open>ramdisk.c\<close>), the choice and the titles of its programs, and the symbols of an ELF file
  (\<open>get_elf_symbol_addr\<close> of \<open>elf_loader.c\<close>). All of them read bytes of the file in memory. Entries of
  the directory have no fixed length: the next one begins behind the name. The lemmas say that on a
  well formed directory or symbol table each search is a look-up in an association list.
\<close>

section \<open>The directory\<close>

definition VM_RAMDISK :: u32 where "VM_RAMDISK = 0xC0000000"
definition INVALID :: u32 where "INVALID = 0xFFFFFFFF"

abbreviation entry_offset :: "mem \<Rightarrow> u32 \<Rightarrow> u32" where "entry_offset m e \<equiv> load32 m e"
abbreviation entry_size :: "mem \<Rightarrow> u32 \<Rightarrow> u32" where "entry_size m e \<equiv> load32 m (e + 4)"
abbreviation entry_name :: "u32 \<Rightarrow> u32" where "entry_name e \<equiv> e + 8"

definition next_entry :: "mem \<Rightarrow> u32 \<Rightarrow> u32 option" where
  "next_entry m e = do { len \<leftarrow> strlen m (entry_name e); Some (e + 8 + len + 1) }"

partial_function (option) file_ptr_from :: "mem \<Rightarrow> u32 \<Rightarrow> u32 \<Rightarrow> u32 option" where
  "file_ptr_from m file e =
     (if entry_offset m e \<noteq> 0 then do {
        c \<leftarrow> strcmp m (entry_name e) file;
        if c = 0 then Some (VM_RAMDISK + entry_offset m e)
        else do { e \<leftarrow> next_entry m e; file_ptr_from m file e }
      } else Some INVALID)"

definition get_ramdisk_file_ptr :: "mem \<Rightarrow> u32 \<Rightarrow> u32 option" where
  "get_ramdisk_file_ptr m file = file_ptr_from m file (VM_RAMDISK + 4)"

partial_function (option) file_size_from :: "mem \<Rightarrow> u32 \<Rightarrow> u32 \<Rightarrow> u32 option" where
  "file_size_from m file e =
     (if entry_offset m e \<noteq> 0 then do {
        c \<leftarrow> strcmp m (entry_name e) file;
        if c = 0 then Some (entry_size m e)
        else do { e \<leftarrow> next_entry m e; file_size_from m file e }
      } else Some INVALID)"

definition get_ramdisk_file_size :: "mem \<Rightarrow> u32 \<Rightarrow> u32 option" where
  "get_ramdisk_file_size m file = file_size_from m file (VM_RAMDISK + 4)"

section \<open>Programs\<close>

text \<open>
  The string literals of the code are strings somewhere in memory; the definitions take their
  addresses. \<open>is_program\<close> is the test of \<open>get_ramdisk_elf_program_list\<close>; \<open>program_title\<close> is its loop
  over the \<open>size_of_name\<close> bytes copied to \<open>name\<close>.
\<close>

definition is_program :: "mem \<Rightarrow> u32 \<Rightarrow> u32 \<Rightarrow> u32 \<Rightarrow> bool option" where
  "is_program m userspace_library dot_elf name = do {
     extension \<leftarrow> strchr m name 46;
     if extension = 0 then Some False
     else do {
       c \<leftarrow> strcmp m name userspace_library;
       if c = 0 then Some False
       else do { c \<leftarrow> strcmp m extension dot_elf; Some (c = 0) }
     }
   }"

definition title_step :: "u32 \<Rightarrow> nat \<Rightarrow> mem \<times> bool \<Rightarrow> mem \<times> bool" where
  "title_step name i s =
     (let (m, in_word) = s; a = name + of_nat i
      in if m a = 95 \<or> m a = 45 \<or> m a = 32 then (m(a := 32), False)
         else if \<not> in_word then (m(a := word_of_int (toupper (uint (m a)))), True)
         else s)"

definition program_title :: "mem \<Rightarrow> u32 \<Rightarrow> nat \<Rightarrow> mem" where
  "program_title m name size_of_name =
     (fst (fold (title_step name) [0..<size_of_name] (m, False)))(name + of_nat size_of_name := 0)"

partial_function (option) program_entries :: "mem \<Rightarrow> u32 \<Rightarrow> u32 \<Rightarrow> u32 \<Rightarrow> u32 list option" where
  "program_entries m userspace_library dot_elf e =
     (if entry_offset m e \<noteq> 0 then do {
        p \<leftarrow> is_program m userspace_library dot_elf (entry_name e);
        e' \<leftarrow> next_entry m e;
        es \<leftarrow> program_entries m userspace_library dot_elf e';
        Some (if p then e # es else es)
      } else Some [])"

section \<open>Symbols of an ELF file\<close>

definition SHT_SYMTAB :: u32 where "SHT_SYMTAB = 2"

abbreviation e_shoff :: "mem \<Rightarrow> u32 \<Rightarrow> u32" where "e_shoff m header \<equiv> load32 m (header + 32)"
abbreviation e_shnum :: "mem \<Rightarrow> u32 \<Rightarrow> u16" where "e_shnum m header \<equiv> load16 m (header + 48)"
abbreviation sh_type :: "mem \<Rightarrow> u32 \<Rightarrow> u32" where "sh_type m section \<equiv> load32 m (section + 4)"
abbreviation sh_offset :: "mem \<Rightarrow> u32 \<Rightarrow> u32" where "sh_offset m section \<equiv> load32 m (section + 16)"
abbreviation sh_size :: "mem \<Rightarrow> u32 \<Rightarrow> u32" where "sh_size m section \<equiv> load32 m (section + 20)"
abbreviation sh_link :: "mem \<Rightarrow> u32 \<Rightarrow> u32" where "sh_link m section \<equiv> load32 m (section + 24)"
abbreviation st_name :: "mem \<Rightarrow> u32 \<Rightarrow> u32" where "st_name m y \<equiv> load32 m y"
abbreviation st_value :: "mem \<Rightarrow> u32 \<Rightarrow> u32" where "st_value m y \<equiv> load32 m (y + 4)"

text \<open>Sections are 40 bytes, symbols 16. The result is the address of the symbols, of the names and the number of symbols.\<close>

definition find_symtab :: "mem \<Rightarrow> u32 \<Rightarrow> u32 \<times> u32 \<times> u32" where
  "find_symtab m elf =
     (let sections = elf + e_shoff m elf
      in case find (\<lambda>i. sh_type m (sections + of_nat i * 40) = SHT_SYMTAB) [0..<unat (e_shnum m elf)] of
           None \<Rightarrow> (0, 0, 0)
         | Some i \<Rightarrow> (let s = sections + of_nat i * 40
             in (elf + sh_offset m s, elf + sh_offset m (sections + sh_link m s * 40), sh_size m s div 16)))"

partial_function (option) find_symbol :: "mem \<Rightarrow> u32 \<Rightarrow> u32 \<Rightarrow> u32 \<Rightarrow> u32 \<Rightarrow> u32 \<Rightarrow> u32 option" where
  "find_symbol m symtab strtab symbol_count symbol_name i =
     (if i < symbol_count then do {
        c \<leftarrow> strcmp m (strtab + st_name m (symtab + i * 16)) symbol_name;
        if c = 0 then Some (st_value m (symtab + i * 16))
        else find_symbol m symtab strtab symbol_count symbol_name (i + 1)
      } else Some 0)"

definition get_elf_symbol_addr :: "mem \<Rightarrow> u32 \<Rightarrow> u32 \<Rightarrow> u32 option" where
  "get_elf_symbol_addr m elf symbol_name =
     (let (symtab, strtab, symbol_count) = find_symtab m elf
      in if symtab = 0 \<or> strtab = 0 then Some 0
         else find_symbol m symtab strtab symbol_count symbol_name 0)"

section \<open>Well formed directories\<close>

record ramdisk_file =
  file_offset :: u32
  file_size :: u32
  file_name :: "u8 list"

fun directory :: "mem \<Rightarrow> u32 \<Rightarrow> ramdisk_file list \<Rightarrow> bool" where
  "directory m e [] = (entry_offset m e = 0)"
| "directory m e (f # fs) = (entry_offset m e = file_offset f \<and> file_offset f \<noteq> 0
     \<and> unat e + 8 + length (file_name f) < 4294967296 \<and> entry_size m e = file_size f
     \<and> cstr m (entry_name e) (file_name f) \<and> directory m (e + 8 + of_nat (length (file_name f)) + 1) fs)"

definition files :: "ramdisk_file list \<Rightarrow> u8 list \<Rightarrow> ramdisk_file option" where
  "files fs = map_of (map (\<lambda>f. (file_name f, f)) fs)"

lemma cstr_nonzero: "cstr m p xs \<Longrightarrow> 0 \<notin> set xs"
  by (simp add: cstr_iff)

lemma strcmp_equal: "cstr m p xs \<Longrightarrow> cstr m q ys \<Longrightarrow> \<exists>c. strcmp m p q = Some c \<and> (c = 0 \<longleftrightarrow> xs = ys)"
  using byte_order_zero [OF cstr_nonzero cstr_nonzero] by (simp add: strcmp_cstr)

lemma next_entry_cstr: "cstr m (entry_name e) xs \<Longrightarrow> next_entry m e = Some (e + 8 + of_nat (length xs) + 1)"
  by (simp add: next_entry_def strlen_cstr)

lemma file_ptr_from_directory:
  "directory m e fs \<Longrightarrow> cstr m file name \<Longrightarrow>
   file_ptr_from m file e = Some (case files fs name of None \<Rightarrow> INVALID | Some f \<Rightarrow> VM_RAMDISK + file_offset f)"
proof (induction fs arbitrary: e)
  case (Cons f fs)
  from Cons.prems obtain c where "strcmp m (entry_name e) file = Some c" "c = 0 \<longleftrightarrow> file_name f = name"
    using strcmp_equal by fastforce
  with Cons show ?case by (subst file_ptr_from.simps) (auto simp: files_def next_entry_cstr)
qed (subst file_ptr_from.simps, simp add: files_def)

lemma file_size_from_directory:
  "directory m e fs \<Longrightarrow> cstr m file name \<Longrightarrow>
   file_size_from m file e = Some (case files fs name of None \<Rightarrow> INVALID | Some f \<Rightarrow> file_size f)"
proof (induction fs arbitrary: e)
  case (Cons f fs)
  from Cons.prems obtain c where "strcmp m (entry_name e) file = Some c" "c = 0 \<longleftrightarrow> file_name f = name"
    using strcmp_equal by fastforce
  with Cons show ?case by (subst file_size_from.simps) (auto simp: files_def next_entry_cstr)
qed (subst file_size_from.simps, simp add: files_def)

lemma is_program_cstr:
  assumes "cstr m lib lib_name" "cstr m elf elf_name" "cstr m name xs" "name \<noteq> 0" "unat name + length xs < 4294967296"
  shows "is_program m lib elf name = Some (46 \<in> set xs \<and> xs \<noteq> lib_name \<and> dropWhile (\<lambda>x. x \<noteq> 46) xs = elf_name)"
proof -
  let ?d = "takeWhile (\<lambda>x. x \<noteq> 46) xs" and ?e = "dropWhile (\<lambda>x. x \<noteq> 46) xs"
  have dot: "sint x = 46 \<longleftrightarrow> x = 46" for x :: u8
    using signed_word_eqI [of x 46] by auto
  have ext: "cstr m (name + of_nat (length ?d)) ?e"
    using assms(3) by (subst (asm) takeWhile_dropWhile_id [symmetric, of _ "\<lambda>x. x \<noteq> 46"]) (simp add: cstr_iff bytes_at_append add.assoc del: takeWhile_dropWhile_id)
  obtain c d where "strcmp m name lib = Some c" "c = 0 \<longleftrightarrow> xs = lib_name"
    "strcmp m (name + of_nat (length ?d)) elf = Some d" "d = 0 \<longleftrightarrow> ?e = elf_name"
    using strcmp_equal [OF assms(3,1)] strcmp_equal [OF ext assms(2)] by blast
  moreover have "name + of_nat (length ?d) \<noteq> 0"
  proof -
    have "length ?d \<le> length xs" by (rule length_takeWhile_le)
    then have "unat (name + of_nat (length ?d)) = unat name + length ?d"
      using assms(5) by (simp add: unat_add_small unat_of_nat32)
    then show ?thesis using assms(4) by (metis add_is_0 unat_0 unat_eq_zero)
  qed
  ultimately show ?thesis by (simp add: is_program_def strchr_cstr [OF assms(3)] dot)
qed

lemma program_entries_directory:
  assumes "cstr m lib lib_name" "cstr m elf elf_name"
  shows "directory m e fs \<Longrightarrow> \<exists>es. program_entries m lib elf e = Some es
    \<and> length es = length (filter (\<lambda>f. 46 \<in> set (file_name f) \<and> file_name f \<noteq> lib_name
        \<and> dropWhile (\<lambda>x. x \<noteq> 46) (file_name f) = elf_name) fs)"
proof (induction fs arbitrary: e)
  case Nil
  then show ?case by (subst program_entries.simps) simp
next
  case (Cons f fs)
  let ?name = "entry_name e" and ?xs = "file_name f"
  let ?program = "46 \<in> set ?xs \<and> ?xs \<noteq> lib_name \<and> dropWhile (\<lambda>x. x \<noteq> 46) ?xs = elf_name"
  have name: "cstr m ?name ?xs" using Cons.prems by simp
  have "is_program m lib elf ?name = Some ?program"
    by (rule is_program_cstr [OF assms name]) (use Cons.prems in \<open>auto simp: unat_add_small unat_eq_zero dest!: arg_cong [of "e + 8" 0 unat]\<close>)
  moreover obtain es where "program_entries m lib elf (e + 8 + of_nat (length ?xs) + 1) = Some es"
    "length es = length (filter (\<lambda>f. 46 \<in> set (file_name f) \<and> file_name f \<noteq> lib_name
        \<and> dropWhile (\<lambda>x. x \<noteq> 46) (file_name f) = elf_name) fs)"
    using Cons by auto
  ultimately show ?case using Cons.prems next_entry_cstr [OF name]
    by (subst program_entries.simps) auto
qed

section \<open>Titles\<close>

definition separator :: "u8 \<Rightarrow> bool" where
  "separator x \<longleftrightarrow> x = 95 \<or> x = 45 \<or> x = 32"

definition upper :: "u8 \<Rightarrow> u8" where
  "upper x = (if 97 \<le> x \<and> x \<le> 122 then x - 32 else x)"

definition title_byte :: "u8 list \<Rightarrow> nat \<Rightarrow> u8" where
  "title_byte xs i = (if separator (xs ! i) then 32
     else if i = 0 \<or> separator (xs ! (i - 1)) then upper (xs ! i) else xs ! i)"

definition title :: "u8 list \<Rightarrow> u8 list" where
  "title xs = map (title_byte xs) [0..<length xs]"

lemma toupper_upper: "word_of_int (toupper (uint x)) = upper x"
proof -
  have "uint x - 32 = uint (x - 32)" if "97 \<le> uint x"
    using that by (simp add: uint_sub_if')
  then show ?thesis by (auto simp: toupper_def islower_def upper_def word_le_def)
qed

lemma title_steps:
  assumes "bytes_at m p xs" "length xs < 4294967296" "n \<le> length xs"
  shows "fold (title_step p) [0..<n] (m, False)
    = (\<lambda>a. if unat (a - p) < n then title_byte xs (unat (a - p)) else m a, 0 < n \<and> \<not> separator (xs ! (n - 1)))"
  using assms(3)
proof (induction n)
  case (Suc n)
  have u: "unat (of_nat n :: u32) = n" using Suc.prems assms(2) by (simp add: unat_of_nat32)
  have byte: "m (p + of_nat n) = xs ! n" using assms(1) Suc.prems by (simp add: bytes_at_nth)
  have at: "unat (a - p) < Suc n \<longleftrightarrow> unat (a - p) < n \<or> a = p + of_nat n" for a
    using u eq_offset_iff [of n a p] Suc.prems assms(2) by (auto simp: less_Suc_eq)
  show ?case using Suc u byte
    by (auto simp: title_step_def title_byte_def separator_def Let_def toupper_upper at fun_eq_iff)
qed simp

lemma program_title_cstr:
  assumes "bytes_at m p xs" "0 \<notin> set xs" "length xs < 4294967296"
  shows "cstr (program_title m p (length xs)) p (title xs)"
proof -
  have "upper x \<noteq> 0" if "x \<noteq> 0" for x :: u8
    using that by (auto simp: upper_def)
  then have nonzero: "0 \<notin> set (title xs)"
    using assms(2) by (fastforce simp: title_def title_byte_def in_set_conv_nth)
  have "program_title m p (length xs) (p + of_nat i) = title_byte xs i" if "i < length xs" for i
    using that assms(3) eq_offset_iff [of "length xs" "p + of_nat i" p]
    by (simp add: program_title_def title_steps [OF assms(1,3)] unat_of_nat32)
  then show ?thesis using nonzero assms(3)
    by (simp add: cstr_iff bytes_at_nth title_def) (simp add: program_title_def)
qed

section \<open>Symbols\<close>

fun symbols :: "mem \<Rightarrow> u32 \<Rightarrow> u32 \<Rightarrow> u32 \<Rightarrow> (u8 list \<times> u32) list \<Rightarrow> bool" where
  "symbols m symtab strtab i [] = True"
| "symbols m symtab strtab i ((name, v) # syms) = (cstr m (strtab + st_name m (symtab + i * 16)) name
     \<and> st_value m (symtab + i * 16) = v \<and> symbols m symtab strtab (i + 1) syms)"

lemma find_symbol_symbols:
  assumes "cstr m p name"
  shows "symbols m symtab strtab i syms \<Longrightarrow> unat i + length syms = unat n \<Longrightarrow>
    find_symbol m symtab strtab n p i = Some (case map_of syms name of None \<Rightarrow> 0 | Some v \<Rightarrow> v)"
proof (induction syms arbitrary: i)
  case Nil
  then show ?case by (subst find_symbol.simps) (simp add: word_less_nat_alt)
next
  case (Cons s syms)
  obtain xs v where s: "s = (xs, v)" by force
  have less: "unat i < unat n" using Cons.prems(2) by simp
  then have later: "unat (i + 1) = Suc (unat i)" by (simp add: unat_Suc_less word_less_nat_alt)
  obtain c where "strcmp m (strtab + st_name m (symtab + i * 16)) p = Some c" "c = 0 \<longleftrightarrow> xs = name"
    using strcmp_equal [OF _ assms] Cons.prems(1) s by fastforce
  then show ?case using Cons s less later
    by (subst find_symbol.simps) (auto simp: word_less_nat_alt)
qed

section \<open>Properties\<close>

text \<open>
  On a well formed directory of the ramdisk the searches for a file are look-ups by name: they end,
  the address and the size are those of the first entry with the name of the file, and both are
  \<open>INVALID\<close> exactly when no entry has that name.
\<close>

theorem ramdisk_lookup_by_name:
  assumes "directory m (VM_RAMDISK + 4) fs" "cstr m file name"
  shows "get_ramdisk_file_ptr m file = Some (case files fs name of None \<Rightarrow> INVALID | Some f \<Rightarrow> VM_RAMDISK + file_offset f)
    \<and> get_ramdisk_file_size m file = Some (case files fs name of None \<Rightarrow> INVALID | Some f \<Rightarrow> file_size f)"
  using assms by (simp add: get_ramdisk_file_ptr_def get_ramdisk_file_size_def file_ptr_from_directory file_size_from_directory)

definition small_ramdisk :: mem where
  "small_ramdisk = (\<lambda>_. 0)(0xC0000004 := 0x30, 0xC0000008 := 5, 0xC000000C := 97, 0xC000000D := 46, 0xC000000E := 101,
     0xC000000F := 108, 0xC0000010 := 102, 0xC0000012 := 0x40, 0xC0000016 := 7, 0xC000001A := 98, 0x100 := 98)"

theorem ramdisk_lookup_by_name_witness:
  "get_ramdisk_file_ptr small_ramdisk 0x100 = Some 0xC0000040 \<and> get_ramdisk_file_size small_ramdisk 0x100 = Some 7"
proof -
  let ?fs = "[\<lparr>file_offset = 0x30, file_size = 5, file_name = [97, 46, 101, 108, 102]\<rparr>,
    \<lparr>file_offset = 0x40, file_size = 7, file_name = [98]\<rparr>]"
  have "directory small_ramdisk (VM_RAMDISK + 4) ?fs" "cstr small_ramdisk 0x100 [98]"
    by (simp_all add: small_ramdisk_def VM_RAMDISK_def load32_def)
  from ramdisk_lookup_by_name [OF this] show ?thesis by (simp add: files_def VM_RAMDISK_def)
qed

text \<open>
  The address of a symbol in an ELF file is found by its name: the first symbol table is searched, the
  names are taken from the string table that it links to, the value of the first symbol with the name is
  returned, and NULL when there is none.
\<close>

theorem elf_symbol_by_name:
  assumes "k < unat (e_shnum m elf)" "sh_type m (elf + e_shoff m elf + of_nat k * 40) = SHT_SYMTAB"
    "\<forall>j < k. sh_type m (elf + e_shoff m elf + of_nat j * 40) \<noteq> SHT_SYMTAB"
    "symtab = elf + sh_offset m (elf + e_shoff m elf + of_nat k * 40)" "symtab \<noteq> 0"
    "strtab = elf + sh_offset m (elf + e_shoff m elf + sh_link m (elf + e_shoff m elf + of_nat k * 40) * 40)" "strtab \<noteq> 0"
    "symbols m symtab strtab 0 syms" "length syms = unat (sh_size m (elf + e_shoff m elf + of_nat k * 40)) div 16"
    "cstr m symbol name"
  shows "get_elf_symbol_addr m elf symbol = Some (case map_of syms name of None \<Rightarrow> 0 | Some v \<Rightarrow> v)"
proof -
  let ?P = "\<lambda>i. sh_type m (elf + e_shoff m elf + of_nat i * 40) = SHT_SYMTAB"
  have "find ?P [0..<unat (e_shnum m elf)] = Some k"
    using assms(1-3) by (subst find_Some_iff) (auto intro!: exI [of _ k])
  then show ?thesis using assms(4-7) find_symbol_symbols [OF assms(10,8)] assms(9)
    by (simp add: get_elf_symbol_addr_def find_symtab_def Let_def unat_div)
qed

definition small_elf :: mem where
  "small_elf = (\<lambda>_. 0)(0x1020 := 52, 0x1030 := 2, 0x1038 := 3, 0x1044 := 164, 0x1060 := 2, 0x106C := 132, 0x1070 := 32,
     0x1084 := 1, 0x1088 := 0x11, 0x1094 := 3, 0x1098 := 0x22, 0x10A5 := 97, 0x10A7 := 98, 0x200 := 98)"

theorem elf_symbol_by_name_witness: "get_elf_symbol_addr small_elf 0x1000 0x200 = Some 0x22"
proof -
  note [simp] = small_elf_def load32_def load16_def SHT_SYMTAB_def
  have "1 < unat (e_shnum small_elf 0x1000)" "sh_type small_elf (0x1000 + e_shoff small_elf 0x1000 + of_nat 1 * 40) = SHT_SYMTAB"
    "\<forall>j < 1. sh_type small_elf (0x1000 + e_shoff small_elf 0x1000 + of_nat j * 40) \<noteq> SHT_SYMTAB"
    "0x1084 = 0x1000 + sh_offset small_elf (0x1000 + e_shoff small_elf 0x1000 + of_nat 1 * 40)" "(0x1084 :: u32) \<noteq> 0"
    "0x10A4 = 0x1000 + sh_offset small_elf (0x1000 + e_shoff small_elf 0x1000
       + sh_link small_elf (0x1000 + e_shoff small_elf 0x1000 + of_nat 1 * 40) * 40)" "(0x10A4 :: u32) \<noteq> 0"
    "symbols small_elf 0x1084 0x10A4 0 [([97], 0x11), ([98], 0x22)]"
    "length [([97 :: u8], 0x11 :: u32), ([98], 0x22)] = unat (sh_size small_elf (0x1000 + e_shoff small_elf 0x1000 + of_nat 1 * 40)) div 16"
    "cstr small_elf 0x200 [98]"
    by simp_all
  from elf_symbol_by_name [OF this] show ?thesis by (simp del: small_elf_def)
qed

end
