(* ===== verification/Cmos.thy ===== *)
theory Cmos
  imports Prelude
begin

text \<open>
  The reading of the clock (\<open>source/kernel/firmware/cmos/cmos.c\<close>). The registers of the clock are
  behind two ports; \<open>regs\<close> gives their contents while the time is read. The two format flags are
  those that \<open>read_cmos\<close> takes from status register B. The clock is described by \<open>clock_shows\<close>: the
  contents of its registers for a time of the day, in each of the formats.
\<close>

record datetime =
  year :: u32
  month :: u32
  weekday :: u32
  day :: u32
  hour :: u32
  minute :: u32
  second :: u32

definition CONVERT_BCD_TO_DECIMAL :: "u8 \<Rightarrow> u8" where
  "CONVERT_BCD_TO_DECIMAL x = (x AND 0xF) + drop_bit 4 x * 10"

definition cmos_time_format_24_hours :: "(u8 \<Rightarrow> u8) \<Rightarrow> u8" where
  "cmos_time_format_24_hours regs = drop_bit 1 (regs 0x0B) AND 1"

definition cmos_time_format_binary :: "(u8 \<Rightarrow> u8) \<Rightarrow> u8" where
  "cmos_time_format_binary regs = drop_bit 2 (regs 0x0B) AND 1"

definition cmos_read_time_register :: "(u8 \<Rightarrow> u8) \<Rightarrow> u8 \<Rightarrow> u8" where
  "cmos_read_time_register regs reg =
     (let v = regs reg in if cmos_time_format_binary regs = 1 then v else CONVERT_BCD_TO_DECIMAL v)"

definition real_year :: "u32 \<Rightarrow> u32" where
  "real_year y = (if y < 80 then y + 2000 else y + 1900)"

definition read_hour :: "(u8 \<Rightarrow> u8) \<Rightarrow> u8" where
  "read_hour regs =
     (if cmos_time_format_24_hours regs = 1 then cmos_read_time_register regs 0x04
      else let hour_reg_value = regs 0x04;
               hour = hour_reg_value AND 0x7F;
               pm_bit = hour_reg_value AND 0x80;
               hour = (if cmos_time_format_binary regs = 0 then CONVERT_BCD_TO_DECIMAL hour else hour)
           in if pm_bit = 0x80 then if hour = 12 then 0 else hour + 12 else hour)"

definition read_time :: "(u8 \<Rightarrow> u8) \<Rightarrow> datetime" where
  "read_time regs =
     \<lparr>year = real_year (ucast (cmos_read_time_register regs 0x09)), month = ucast (cmos_read_time_register regs 0x08),
      weekday = ucast (cmos_read_time_register regs 0x06), day = ucast (cmos_read_time_register regs 0x07),
      hour = ucast (read_hour regs), minute = ucast (cmos_read_time_register regs 0x02),
      second = ucast (cmos_read_time_register regs 0x00)\<rparr>"

section \<open>The registers of a clock\<close>

definition shown :: "bool \<Rightarrow> nat \<Rightarrow> u8" where
  "shown binary n = (if binary then of_nat n else of_nat (n div 10 * 16 + n mod 10))"

definition shown_hour :: "bool \<Rightarrow> bool \<Rightarrow> nat \<Rightarrow> u8" where
  "shown_hour hours_24 binary h =
     (if hours_24 then shown binary h
      else shown binary (if h mod 12 = 0 then 12 else h mod 12) OR (if 12 \<le> h then 0x80 else 0))"

definition clock_shows :: "(u8 \<Rightarrow> u8) \<Rightarrow> bool \<Rightarrow> bool \<Rightarrow> nat \<Rightarrow> nat \<Rightarrow> nat \<Rightarrow> nat \<Rightarrow> nat \<Rightarrow> nat \<Rightarrow> bool" where
  "clock_shows regs hours_24 binary y mo d h mi s \<longleftrightarrow>
     bit (regs 0x0B) 1 = hours_24 \<and> bit (regs 0x0B) 2 = binary \<and> regs 0x09 = shown binary (y mod 100) \<and> regs 0x08 = shown binary mo
     \<and> regs 0x07 = shown binary d \<and> regs 0x04 = shown_hour hours_24 binary h
     \<and> regs 0x02 = shown binary mi \<and> regs 0x00 = shown binary s"

lemma flag: "drop_bit n (w :: u8) AND 1 = (if bit w n then 1 else 0)"
  by (auto simp: and_one_eq bit_iff_odd_drop_bit mod2_eq_if)

lemma bcd_all: "\<forall>n \<in> set [0..<100]. CONVERT_BCD_TO_DECIMAL (shown False n) = of_nat n"
  unfolding CONVERT_BCD_TO_DECIMAL_def shown_def by code_simp

lemma hours_all:
  "\<forall>h \<in> set [0..<24]. \<forall>b \<in> {True, False}.
     (let r = shown_hour False b h; x = (if b then r AND 0x7F else CONVERT_BCD_TO_DECIMAL (r AND 0x7F))
      in (if r AND 0x80 = 0x80 then if x = 12 then 0 else x + 12 else x)
        = of_nat (if h = 0 then 12 else if h = 12 then 0 else h))"
  by code_simp

lemma read_register:
  assumes "bit (regs 0x0B) 2 = binary" "regs r = shown binary n" "n < 100"
  shows "cmos_read_time_register regs r = of_nat n"
  using assms bcd_all by (auto simp: cmos_read_time_register_def cmos_time_format_binary_def flag shown_def Let_def)

lemma read_shown_hour:
  assumes "bit (regs 0x0B) 1 = hours_24" "bit (regs 0x0B) 2 = binary" "regs 0x04 = shown_hour hours_24 binary h" "h < 24"
  shows "read_hour regs = of_nat (if hours_24 then h else if h = 0 then 12 else if h = 12 then 0 else h)"
proof (cases hours_24)
  case True
  then show ?thesis using assms read_register [of regs binary 4 h]
    by (simp add: read_hour_def cmos_time_format_24_hours_def flag shown_hour_def)
next
  case False
  have "h \<in> set [0..<24]" using assms(4) by simp
  with hours_all have "let r = shown_hour False binary h; x = (if binary then r AND 0x7F else CONVERT_BCD_TO_DECIMAL (r AND 0x7F))
      in (if r AND 0x80 = 0x80 then if x = 12 then 0 else x + 12 else x) = of_nat (if h = 0 then 12 else if h = 12 then 0 else h)"
    by blast
  then show ?thesis using False assms
    by (simp add: read_hour_def cmos_time_format_24_hours_def cmos_time_format_binary_def flag Let_def split: if_splits)
qed

lemma century:
  assumes "(y :: nat) = 100 * c + r" "r < 100" "1980 \<le> y" "y < 2080"
  shows "80 \<le> r \<and> y = 1900 + r \<or> r < 80 \<and> y = 2000 + r"
proof -
  have "c = 19 \<or> c = 20" using assms by linarith
  then show ?thesis using assms by auto
qed

text \<open>
  C31. The time is read as the clock shows it, in both number formats and for the years 1980 to 2079, except
  for two hours of the format with twelve hours: an hour after midnight (12 AM) is read as noon, and noon
  (12 PM) as midnight.
\<close>

theorem read_time_swaps_noon_and_midnight:
  assumes "clock_shows regs hours_24 binary y mo d h mi s" "1980 \<le> y" "y < 2080"
    "mo < 100" "d < 100" "h < 24" "mi < 60" "s < 60"
  shows "year (read_time regs) = of_nat y \<and> month (read_time regs) = of_nat mo \<and> day (read_time regs) = of_nat d
    \<and> minute (read_time regs) = of_nat mi \<and> second (read_time regs) = of_nat s
    \<and> hour (read_time regs) = of_nat (if hours_24 then h else if h = 0 then 12 else if h = 12 then 0 else h)"
proof -
  let ?h = "if hours_24 then h else if h = 0 then 12 else if h = 12 then 0 else h"
  have fits: "ucast (of_nat n :: u8) = (of_nat n :: u32)" if "n < 100" for n
    using that by (simp add: unsigned_of_nat take_bit_nat_eq_self)
  note r = read_register [of regs binary]
  have "cmos_read_time_register regs 0x09 = of_nat (y mod 100)" "cmos_read_time_register regs 0x08 = of_nat mo"
    "cmos_read_time_register regs 0x07 = of_nat d" "cmos_read_time_register regs 0x02 = of_nat mi"
    "cmos_read_time_register regs 0x00 = of_nat s"
    using assms by (auto simp: clock_shows_def intro!: r)
  moreover have "read_hour regs = of_nat ?h"
    using assms by (intro read_shown_hour) (auto simp: clock_shows_def)
  moreover have "real_year (of_nat (y mod 100)) = of_nat y"
  proof -
    define r where "r = y mod 100"
    have "r < 100" "y = 100 * (y div 100) + r" unfolding r_def by simp_all
    then have "r < 100" "80 \<le> r \<and> y = 1900 + r \<or> r < 80 \<and> y = 2000 + r"
      using assms(2,3) century [of y "y div 100" r] by blast+
    then show ?thesis unfolding r_def [symmetric]
      by (auto simp: real_year_def word_less_nat_alt unat_of_nat32)
  qed
  moreover have "?h < 100" using assms(6) by simp
  ultimately show ?thesis using assms(4-8) by (simp add: read_time_def fits)
qed

definition midnight :: "u8 \<Rightarrow> u8" where
  "midnight = (\<lambda>_. 0)(0x0B := 0, 0x09 := 0x26, 0x08 := 0x03, 0x07 := 0x14, 0x04 := 0x12, 0x02 := 0x59, 0x00 := 0x07)"

theorem read_time_swaps_noon_and_midnight_witness:
  "hour (read_time midnight) = 12 \<and> minute (read_time midnight) = 59 \<and> year (read_time midnight) = 2026"
proof -
  have "clock_shows midnight False False 2026 3 14 0 59 7"
    by (simp add: clock_shows_def midnight_def shown_hour_def shown_def)
  from read_time_swaps_noon_and_midnight [OF this] show ?thesis by simp
qed

end
