(* ===== verification/Mp_Tables.thy ===== *)
theory Mp_Tables
  imports Libc_Text
begin

text \<open>
  The MultiProcessor tables of the firmware (\<open>source/kernel/firmware/mp_tables/mp_tables.c\<close>): the
  search for the floating pointer, the checksum of tables (\<open>firmware/main.c\<close>), and the readers of the
  configuration table. Each reader walks the same entries, whose length depends on their type;
  \<open>walk_entries\<close> is this loop, with what the reader does to an entry as its argument. A step gives
  the new state and whether the function returns there; \<open>None\<close> is a write behind an array.
\<close>

section \<open>The search for the floating pointer\<close>

definition firmware_table_checksum_validation :: "mem \<Rightarrow> u32 \<Rightarrow> u32 \<Rightarrow> bool" where
  "firmware_table_checksum_validation m ptr sz \<longleftrightarrow> fold (\<lambda>i sum. sum + m (ptr + of_nat i)) [0..<unat sz] 0 = 0"

abbreviation mpfp_size :: u32 where "mpfp_size \<equiv> 16"
abbreviation mpfp_signature :: "mem \<Rightarrow> u32 \<Rightarrow> u32" where "mpfp_signature m mpfp \<equiv> load32 m mpfp"
abbreviation mpfp_length :: "mem \<Rightarrow> u32 \<Rightarrow> u8" where "mpfp_length m mpfp \<equiv> m (mpfp + 8)"

definition refused :: "mem \<Rightarrow> u32 \<Rightarrow> u32 \<Rightarrow> u32 \<Rightarrow> bool" where
  "refused m start sz offset \<longleftrightarrow> mpfp_signature m (start + offset) \<noteq> 0x5F504D5F \<or> offset + mpfp_size > sz
     \<or> mpfp_length m (start + offset) \<noteq> 1 \<or> \<not> firmware_table_checksum_validation m (start + offset) mpfp_size"

partial_function (option) mp_search_from :: "mem \<Rightarrow> u32 \<Rightarrow> u32 \<Rightarrow> u32 \<Rightarrow> u32 option" where
  "mp_search_from m start sz offset =
     (if offset < sz - mpfp_size then
        if refused m start sz offset then mp_search_from m start sz (offset + 16) else Some (start + offset)
      else Some 0)"

definition search_for_mp_floating_pointer_table_in_memory :: "mem \<Rightarrow> u32 \<Rightarrow> u32 \<Rightarrow> u32 option" where
  "search_for_mp_floating_pointer_table_in_memory m start sz = mp_search_from m start sz 0"

text \<open>Where \<open>search_for_mp_floating_pointer_table\<close> looks, from the mapped areas of \<open>firmware_info\<close>.\<close>

definition search_for_mp_floating_pointer_table :: "mem \<Rightarrow> u32 \<Rightarrow> u32 \<Rightarrow> u32 \<Rightarrow> u32 option" where
  "search_for_mp_floating_pointer_table m ebda last_kb_of_conventional_memory bios_code = do {
     mpfp \<leftarrow> (if ebda \<noteq> 0 then search_for_mp_floating_pointer_table_in_memory m ebda 0x400
              else search_for_mp_floating_pointer_table_in_memory m last_kb_of_conventional_memory 0x400);
     if mpfp = 0 then search_for_mp_floating_pointer_table_in_memory m bios_code 0x20000 else Some mpfp
   }"

section \<open>The entries of the configuration table\<close>

definition mpct_header_size :: u32 where "mpct_header_size = 44"
abbreviation base_table_length :: "mem \<Rightarrow> u32 \<Rightarrow> u16" where "base_table_length m mpct \<equiv> load16 m (mpct + 4)"
abbreviation entry_count :: "mem \<Rightarrow> u32 \<Rightarrow> u16" where "entry_count m mpct \<equiv> load16 m (mpct + 34)"

text \<open>The lengths of processor, bus, I/O APIC and the two interrupt entries; other types end the walk.\<close>

definition entry_length :: "u8 \<Rightarrow> u32 option" where
  "entry_length ty = (if ty = 0 then Some 20 else if ty = 1 \<or> ty = 2 \<or> ty = 3 \<or> ty = 4 then Some 8 else None)"

fun walk_entries :: "mem \<Rightarrow> u32 \<Rightarrow> (u32 \<Rightarrow> 's \<Rightarrow> ('s \<times> bool) option) \<Rightarrow> nat \<Rightarrow> u32 \<Rightarrow> 's \<Rightarrow> 's option" where
  "walk_entries m mpct_end step 0 entry_ptr s = Some s"
| "walk_entries m mpct_end step (Suc n) entry_ptr s =
     (if mpct_end \<le> entry_ptr then Some s
      else do {
        (s, return) \<leftarrow> step entry_ptr s;
        if return then Some s
        else case entry_length (m entry_ptr) of
            None \<Rightarrow> Some s
          | Some len \<Rightarrow> walk_entries m mpct_end step n (entry_ptr + len) s
      })"

definition walk_table :: "mem \<Rightarrow> u32 \<Rightarrow> (u32 \<Rightarrow> 's \<Rightarrow> ('s \<times> bool) option) \<Rightarrow> 's \<Rightarrow> 's option" where
  "walk_table m mpct step s =
     walk_entries m (mpct + ucast (base_table_length m mpct)) step (unat (entry_count m mpct)) (mpct + mpct_header_size) s"

section \<open>Buses\<close>

record buses =
  isa_bus_id :: u32
  is_bus_pci :: "bool list"

definition no_bus :: u32 where "no_bus = 0xFFFFFFFF"

definition bus_step :: "mem \<Rightarrow> u32 \<Rightarrow> u32 \<Rightarrow> u32 \<Rightarrow> buses \<Rightarrow> (buses \<times> bool) option" where
  "bus_step m isa pci e b =
     (if m e = 1 then
        if strncmp m (e + 2) isa 6 = 0 then
          Some (if isa_bus_id b = no_bus then b\<lparr>isa_bus_id := ucast (m (e + 1))\<rparr> else b, False)
        else if strncmp m (e + 2) pci 6 = 0 then
          Some (b\<lparr>is_bus_pci := (is_bus_pci b)[unat (m (e + 1)) := True]\<rparr>, False)
        else Some (b, False)
      else Some (b, False))"

definition read_buses :: "mem \<Rightarrow> u32 \<Rightarrow> u32 \<Rightarrow> u32 \<Rightarrow> buses option" where
  "read_buses m isa pci mpct = walk_table m mpct (bus_step m isa pci) \<lparr>isa_bus_id = no_bus, is_bus_pci = replicate 256 False\<rparr>"

section \<open>I/O APICs and processors\<close>

record io_apic_info =
  apic_id :: u8
  mmio_address :: u32
  base_gsi :: u32

definition MAX_NUMBER_OF_IOAPICS_ON_SYSTEM :: nat where "MAX_NUMBER_OF_IOAPICS_ON_SYSTEM = 256"

definition io_apic_step :: "mem \<Rightarrow> u32 \<Rightarrow> io_apic_info list \<times> u32 \<Rightarrow> ((io_apic_info list \<times> u32) \<times> bool) option" where
  "io_apic_step m e s =
     (let (io_apics, base) = s
      in if m e = 2 \<and> m (e + 3) AND 1 = 1 then
           if length io_apics < MAX_NUMBER_OF_IOAPICS_ON_SYSTEM
           then Some ((io_apics @ [\<lparr>apic_id = m (e + 1), mmio_address = load32 m (e + 4), base_gsi = base\<rparr>], base + 256), False)
           else None
         else Some (s, False))"

definition mp_tables_read_all_io_apics :: "mem \<Rightarrow> u32 \<Rightarrow> io_apic_info list option" where
  "mp_tables_read_all_io_apics m mpct =
     (if mpct = 0 then Some [] else map_option fst (walk_table m mpct (io_apic_step m) ([], 0)))"

definition MAX_NUMBER_OF_LOGICAL_PROCESSORS_ON_SYSTEM :: nat where "MAX_NUMBER_OF_LOGICAL_PROCESSORS_ON_SYSTEM = 256"

definition processor_step :: "mem \<Rightarrow> u32 \<Rightarrow> u32 list \<Rightarrow> (u32 list \<times> bool) option" where
  "processor_step m e ps =
     (if m e = 0 \<and> m (e + 3) AND 1 = 1 then
        let ps = ps @ [ucast (m (e + 1))] in Some (ps, MAX_NUMBER_OF_LOGICAL_PROCESSORS_ON_SYSTEM \<le> length ps)
      else Some (ps, False))"

definition mp_tables_read_info_about_logical_processors :: "mem \<Rightarrow> u32 \<Rightarrow> u32 list option" where
  "mp_tables_read_info_about_logical_processors m mpct =
     (if mpct = 0 then Some [] else walk_table m mpct (processor_step m) [])"

section \<open>Interrupts\<close>

definition POLARITY_HIGH :: u32 where "POLARITY_HIGH = 0"
definition POLARITY_LOW :: u32 where "POLARITY_LOW = 1"
definition TRIGGER_MODE_EDGE :: u32 where "TRIGGER_MODE_EDGE = 0"
definition TRIGGER_MODE_LEVEL :: u32 where "TRIGGER_MODE_LEVEL = 1"

record isa_irq_override =
  is_overridden :: bool
  override_gsi :: u32
  override_polarity :: u32
  override_trigger_mode :: u32

record pci_irq_routing =
  routing_bus :: u8
  routing_device :: u8
  routing_pin :: u8
  routing_gsi :: u32
  routing_polarity :: u32
  routing_trigger_mode :: u32

abbreviation interrupt_polarity :: "mem \<Rightarrow> u32 \<Rightarrow> u16" where "interrupt_polarity m e \<equiv> load16 m (e + 2) AND 3"
abbreviation interrupt_trigger_mode :: "mem \<Rightarrow> u32 \<Rightarrow> u16" where "interrupt_trigger_mode m e \<equiv> drop_bit 2 (load16 m (e + 2)) AND 3"
abbreviation source_bus_id :: "mem \<Rightarrow> u32 \<Rightarrow> u8" where "source_bus_id m e \<equiv> m (e + 4)"
abbreviation source_bus_irq :: "mem \<Rightarrow> u32 \<Rightarrow> u8" where "source_bus_irq m e \<equiv> m (e + 5)"
abbreviation destination_io_apic_id :: "mem \<Rightarrow> u32 \<Rightarrow> u8" where "destination_io_apic_id m e \<equiv> m (e + 6)"
abbreviation destination_io_apic_intin :: "mem \<Rightarrow> u32 \<Rightarrow> u8" where "destination_io_apic_intin m e \<equiv> m (e + 7)"

definition gsi_of :: "mem \<Rightarrow> io_apic_info list \<Rightarrow> u32 \<Rightarrow> u32" where
  "gsi_of m io_apics e =
     (case find (\<lambda>a. apic_id a = destination_io_apic_id m e) io_apics of
        None \<Rightarrow> no_bus
      | Some a \<Rightarrow> base_gsi a + ucast (destination_io_apic_intin m e))"

definition isa_step :: "mem \<Rightarrow> io_apic_info list \<Rightarrow> u32 \<Rightarrow> u32 \<Rightarrow> isa_irq_override list \<Rightarrow> (isa_irq_override list \<times> bool) option" where
  "isa_step m io_apics isa_bus e overrides =
     (if m e = 3 \<and> ucast (source_bus_id m e) = isa_bus \<and> source_bus_irq m e < 16 then
        let irq = unat (source_bus_irq m e); gsi = gsi_of m io_apics e; old = overrides ! irq
        in Some (overrides[irq :=
             if gsi = no_bus then old\<lparr>is_overridden := False, override_gsi := gsi\<rparr>
             else old\<lparr>is_overridden := True, override_gsi := gsi,
               override_polarity := (if interrupt_polarity m e = 3 then POLARITY_LOW else POLARITY_HIGH),
               override_trigger_mode := (if interrupt_trigger_mode m e = 3 then TRIGGER_MODE_LEVEL else TRIGGER_MODE_EDGE)\<rparr>],
             False)
      else Some (overrides, False))"

definition no_override :: isa_irq_override where
  "no_override = \<lparr>is_overridden = False, override_gsi = 0, override_polarity = 0, override_trigger_mode = 0\<rparr>"

definition mp_tables_read_isa_irq_overrides :: "mem \<Rightarrow> io_apic_info list \<Rightarrow> u32 \<Rightarrow> u32 \<Rightarrow> isa_irq_override list option" where
  "mp_tables_read_isa_irq_overrides m io_apics isa_bus mpct =
     (if mpct = 0 \<or> isa_bus = no_bus then Some (replicate 16 no_override)
      else walk_table m mpct (isa_step m io_apics isa_bus) (replicate 16 no_override))"

definition pci_step :: "mem \<Rightarrow> io_apic_info list \<Rightarrow> bool list \<Rightarrow> u32 \<Rightarrow> pci_irq_routing list \<Rightarrow> (pci_irq_routing list \<times> bool) option" where
  "pci_step m io_apics is_pci e routing =
     (if m e = 3 \<and> is_pci ! unat (source_bus_id m e) \<and> gsi_of m io_apics e \<noteq> no_bus then
        Some (routing @ [\<lparr>routing_bus = source_bus_id m e,
          routing_device = drop_bit 2 (source_bus_irq m e) AND 0x1F,
          routing_pin = (source_bus_irq m e AND 3) + 1,
          routing_gsi = gsi_of m io_apics e,
          routing_polarity = (if interrupt_polarity m e = 1 then POLARITY_HIGH else POLARITY_LOW),
          routing_trigger_mode = (if interrupt_trigger_mode m e = 1 then TRIGGER_MODE_EDGE else TRIGGER_MODE_LEVEL)\<rparr>], False)
      else Some (routing, False))"

definition mp_tables_read_pci_irq_routing :: "mem \<Rightarrow> io_apic_info list \<Rightarrow> bool list \<Rightarrow> u32 \<Rightarrow> pci_irq_routing list option" where
  "mp_tables_read_pci_irq_routing m io_apics is_pci mpct =
     (if mpct = 0 then Some [] else walk_table m mpct (pci_step m io_apics is_pci) [])"

section \<open>The entries a reader visits\<close>

fun entry_ptrs :: "mem \<Rightarrow> u32 \<Rightarrow> nat \<Rightarrow> u32 \<Rightarrow> u32 list" where
  "entry_ptrs m mpct_end 0 p = []"
| "entry_ptrs m mpct_end (Suc n) p =
     (if mpct_end \<le> p then []
      else p # (case entry_length (m p) of None \<Rightarrow> [] | Some len \<Rightarrow> entry_ptrs m mpct_end n (p + len)))"

definition table_entries :: "mem \<Rightarrow> u32 \<Rightarrow> u32 list" where
  "table_entries m mpct =
     entry_ptrs m (mpct + ucast (base_table_length m mpct)) (unat (entry_count m mpct)) (mpct + mpct_header_size)"

definition usable_io_apic :: "mem \<Rightarrow> u32 \<Rightarrow> bool" where
  "usable_io_apic m e \<longleftrightarrow> m e = 2 \<and> m (e + 3) AND 1 = 1"

definition enabled_processor :: "mem \<Rightarrow> u32 \<Rightarrow> bool" where
  "enabled_processor m e \<longleftrightarrow> m e = 0 \<and> m (e + 3) AND 1 = 1"

definition io_apic_at :: "mem \<Rightarrow> nat \<times> u32 \<Rightarrow> io_apic_info" where
  "io_apic_at m = (\<lambda>(i, e). \<lparr>apic_id = m (e + 1), mmio_address = load32 m (e + 4), base_gsi = of_nat (256 * i)\<rparr>)"

text \<open>A reader whose steps never return and never fail folds its step over the entries.\<close>

lemma walk_entries_fold:
  assumes "\<And>e s. step e s = Some (f e s, False)"
  shows "walk_entries m mpct_end step n p s = Some (fold f (entry_ptrs m mpct_end n p) s)"
  by (induction n arbitrary: p s) (simp_all add: assms split: option.split)

lemma io_apics_walk:
  "length as + length (filter (usable_io_apic m) (entry_ptrs m mpct_end n p)) \<le> MAX_NUMBER_OF_IOAPICS_ON_SYSTEM \<Longrightarrow>
   \<exists>base. walk_entries m mpct_end (io_apic_step m) n p (as, of_nat (256 * length as))
     = Some (as @ map (io_apic_at m) (enumerate (length as) (filter (usable_io_apic m) (entry_ptrs m mpct_end n p))), base)"
proof (induction n arbitrary: p as)
  case (Suc n)
  show ?case
  proof (cases "mpct_end \<le> p")
    case False
    let ?as = "if usable_io_apic m p then as @ [io_apic_at m (length as, p)] else as"
    have step: "io_apic_step m p (as, of_nat (256 * length as)) = Some ((?as, of_nat (256 * length ?as)), False)"
      using Suc.prems False by (auto simp: io_apic_step_def usable_io_apic_def io_apic_at_def algebra_simps)
    show ?thesis
    proof (cases "entry_length (m p)")
      case None
      then show ?thesis using False step by simp
    next
      case (Some len)
      have "length ?as + length (filter (usable_io_apic m) (entry_ptrs m mpct_end n (p + len))) \<le> MAX_NUMBER_OF_IOAPICS_ON_SYSTEM"
        using Suc.prems False Some by (auto split: if_splits)
      from Suc.IH [OF this] show ?thesis using False Some step by auto
    qed
  qed simp
qed simp

lemma processors_walk:
  "length ps < MAX_NUMBER_OF_LOGICAL_PROCESSORS_ON_SYSTEM \<Longrightarrow>
   walk_entries m mpct_end (processor_step m) n p ps = Some (take MAX_NUMBER_OF_LOGICAL_PROCESSORS_ON_SYSTEM
     (ps @ map (\<lambda>e. ucast (m (e + 1))) (filter (enabled_processor m) (entry_ptrs m mpct_end n p))))"
proof (induction n arbitrary: p ps)
  case (Suc n)
  show ?case
  proof (cases "mpct_end \<le> p \<or> \<not> enabled_processor m p")
    case True
    then show ?thesis using Suc
      by (auto simp: processor_step_def enabled_processor_def split: option.split)
  next
    case False
    let ?ps = "ps @ [ucast (m (p + 1))]"
    have step: "processor_step m p ps = Some (?ps, MAX_NUMBER_OF_LOGICAL_PROCESSORS_ON_SYSTEM \<le> length ?ps)"
      using False by (simp add: processor_step_def enabled_processor_def Let_def)
    show ?thesis
    proof (cases "MAX_NUMBER_OF_LOGICAL_PROCESSORS_ON_SYSTEM \<le> length ?ps")
      case True
      with Suc.prems have "MAX_NUMBER_OF_LOGICAL_PROCESSORS_ON_SYSTEM - length ps = Suc 0" by simp
      then show ?thesis using False step True by simp
    next
      case less: False
      then show ?thesis using Suc.IH [of ?ps] False step Suc.prems by (auto split: option.split)
    qed
  qed
qed simp

lemma entries_inside_table: "e \<in> set (entry_ptrs m mpct_end n p) \<Longrightarrow> e < mpct_end"
  by (induction n arbitrary: p) (auto split: if_splits option.splits)

section \<open>Properties\<close>

text \<open>
  C29. The readers of the configuration table list what the table holds, in its order: the usable I/O
  APICs, each with the next 256 interrupts, and the enabled processors, of which at most as many are
  taken as the system supports.
\<close>

theorem mp_tables_readers_list_entries:
  assumes "mpct \<noteq> 0" "length (filter (usable_io_apic m) (table_entries m mpct)) \<le> MAX_NUMBER_OF_IOAPICS_ON_SYSTEM"
  shows "mp_tables_read_all_io_apics m mpct
      = Some (map (io_apic_at m) (enumerate 0 (filter (usable_io_apic m) (table_entries m mpct))))
    \<and> mp_tables_read_info_about_logical_processors m mpct
      = Some (take MAX_NUMBER_OF_LOGICAL_PROCESSORS_ON_SYSTEM
          (map (\<lambda>e. ucast (m (e + 1))) (filter (enabled_processor m) (table_entries m mpct))))"
proof
  show "mp_tables_read_all_io_apics m mpct
      = Some (map (io_apic_at m) (enumerate 0 (filter (usable_io_apic m) (table_entries m mpct))))"
    using assms io_apics_walk [of "[]" m] unfolding mp_tables_read_all_io_apics_def walk_table_def table_entries_def
    by fastforce
  show "mp_tables_read_info_about_logical_processors m mpct
      = Some (take MAX_NUMBER_OF_LOGICAL_PROCESSORS_ON_SYSTEM
          (map (\<lambda>e. ucast (m (e + 1))) (filter (enabled_processor m) (table_entries m mpct))))"
    using assms(1) processors_walk [of "[]" m]
    by (simp add: mp_tables_read_info_about_logical_processors_def walk_table_def table_entries_def
        MAX_NUMBER_OF_LOGICAL_PROCESSORS_ON_SYSTEM_def)
qed

text \<open>One processor, an unusable and two usable I/O APICs.\<close>

definition small_table :: mem where
  "small_table = (\<lambda>_. 0)(0x1004 := 88, 0x1022 := 4, 0x102D := 7, 0x102F := 1,
     0x1040 := 2, 0x1041 := 8, 0x1048 := 2, 0x1049 := 9, 0x104B := 1, 0x104F := 0xFE,
     0x1050 := 2, 0x1051 := 10, 0x1053 := 1, 0x1057 := 0xFF)"

lemma small_table_entries: "table_entries small_table 0x1000 = [0x102C, 0x1040, 0x1048, 0x1050]"
proof -
  have "unat (entry_count small_table 0x1000) = Suc (Suc (Suc (Suc 0)))"
    "0x1000 + ucast (base_table_length small_table 0x1000) = (0x1058 :: u32)" "0x1000 + mpct_header_size = 0x102C"
    by (simp_all add: small_table_def load16_def mpct_header_size_def)
  moreover have "entry_length (small_table 0x102C) = Some 20" "entry_length (small_table 0x1040) = Some 8"
    "entry_length (small_table 0x1048) = Some 8" "entry_length (small_table 0x1050) = Some 8"
    by (simp_all add: small_table_def entry_length_def)
  ultimately show ?thesis unfolding table_entries_def by (simp add: mpct_header_size_def)
qed

theorem mp_tables_readers_list_entries_witness:
  "mp_tables_read_info_about_logical_processors small_table 0x1000 = Some [7]
    \<and> map_option (map apic_id) (mp_tables_read_all_io_apics small_table 0x1000) = Some [9, 10]"
proof -
  have usable: "filter (usable_io_apic small_table) (table_entries small_table 0x1000) = [0x1048, 0x1050]"
    "filter (enabled_processor small_table) (table_entries small_table 0x1000) = [0x102C]"
    unfolding small_table_entries by (simp_all add: usable_io_apic_def enabled_processor_def small_table_def)
  then have "(0x1000 :: u32) \<noteq> 0"
    "length (filter (usable_io_apic small_table) (table_entries small_table 0x1000)) \<le> MAX_NUMBER_OF_IOAPICS_ON_SYSTEM"
    by (simp_all add: MAX_NUMBER_OF_IOAPICS_ON_SYSTEM_def)
  from mp_tables_readers_list_entries [OF this] show ?thesis unfolding usable
    by (simp add: io_apic_at_def MAX_NUMBER_OF_LOGICAL_PROCESSORS_ON_SYSTEM_def small_table_def)
qed

definition candidates :: "u32 \<Rightarrow> nat" where
  "candidates sz = (unat sz - 1) div 16"

lemma mp_search_from_find:
  assumes "16 \<le> sz" "sz \<le> 0xFFFFFFF0"
  shows "k \<le> candidates sz \<Longrightarrow> mp_search_from m start sz (of_nat (16 * k))
    = Some (case find (\<lambda>k. \<not> refused m start sz (of_nat (16 * k))) [k..<candidates sz] of
        None \<Rightarrow> 0 | Some k \<Rightarrow> start + of_nat (16 * k))"
proof (induction "candidates sz - k" arbitrary: k)
  case 0
  have "unat sz - 16 \<le> 16 * k" using 0 by (simp add: candidates_def)
  moreover have "16 * k < 4294967296" using 0 assms(2) by (simp add: candidates_def word_le_nat_alt)
  ultimately have "\<not> of_nat (16 * k) < sz - mpfp_size"
    using assms(1) by (simp add: word_less_nat_alt unat_sub_small word_le_nat_alt unat_of_nat32 del: of_nat_mult)
  then show ?case using 0 by (subst mp_search_from.simps) simp
next
  case (Suc n)
  then have k: "k < candidates sz" by simp
  then have "16 * k < unat sz - 16" by (simp add: candidates_def less_eq_Suc_le div_le_mono)
  moreover have "16 * k < 4294967296" using calculation unat_le_4G [of sz] by simp
  ultimately have "of_nat (16 * k) < sz - mpfp_size"
    using assms(1) by (simp add: word_less_nat_alt unat_sub_small word_le_nat_alt unat_of_nat32 del: of_nat_mult)
  moreover have "mp_search_from m start sz (of_nat (16 * k) + 16)
    = Some (case find (\<lambda>k. \<not> refused m start sz (of_nat (16 * k))) [Suc k..<candidates sz] of
        None \<Rightarrow> 0 | Some k \<Rightarrow> start + of_nat (16 * k))"
    using Suc.hyps(1) [of "Suc k"] Suc.hyps(2) k by (simp add: add.commute)
  ultimately show ?case using k by (subst mp_search_from.simps) (simp add: upt_conv_Cons)
qed

text \<open>
  The search for the floating pointer ends, and finds the first acceptable paragraph of the area
  except for its last one: the bound of the loop is the size of the area less the size of the table,
  and the offset must stay below it. A table that fills the last 16 bytes of the EBDA or of the
  conventional memory is not found, although the check of the end of the table would accept it.
\<close>

theorem mp_search_misses_last_paragraph:
  assumes "16 \<le> sz" "sz \<le> 0xFFFFFFF0"
  shows "search_for_mp_floating_pointer_table_in_memory m start sz
      = Some (case find (\<lambda>k. \<not> refused m start sz (of_nat (16 * k))) [0..<(unat sz - 1) div 16] of
          None \<Rightarrow> 0 | Some k \<Rightarrow> start + of_nat (16 * k))"
  using mp_search_from_find [OF assms, of 0] by (simp add: search_for_mp_floating_pointer_table_in_memory_def candidates_def)

definition table_at_end :: mem where
  "table_at_end = (\<lambda>_. 0)(0x1030 := 0x5F, 0x1031 := 0x4D, 0x1032 := 0x50, 0x1033 := 0x5F, 0x1038 := 1, 0x103A := 0xA4)"

theorem mp_search_misses_last_paragraph_witness:
  "\<not> refused table_at_end 0x1000 0x40 0x30
    \<and> search_for_mp_floating_pointer_table_in_memory table_at_end 0x1000 0x40 = Some 0
    \<and> search_for_mp_floating_pointer_table_in_memory table_at_end 0x1000 0x50 = Some 0x1030"
proof -
  have bad: "refused table_at_end 0x1000 sz 0" "refused table_at_end 0x1000 sz 0x10" "refused table_at_end 0x1000 sz 0x20" for sz
    by (simp_all add: refused_def table_at_end_def load32_def)
  have sum: "firmware_table_checksum_validation table_at_end 0x1030 16"
    by (simp add: firmware_table_checksum_validation_def table_at_end_def upt_rec)
  then have good: "\<not> refused table_at_end 0x1000 0x40 0x30" "\<not> refused table_at_end 0x1000 0x50 0x30"
    by (simp_all add: refused_def) (simp_all add: table_at_end_def load32_def)
  have "(16 :: u32) \<le> 0x40" "(0x40 :: u32) \<le> 0xFFFFFFF0" "(16 :: u32) \<le> 0x50" "(0x50 :: u32) \<le> 0xFFFFFFF0" by simp_all
  from mp_search_misses_last_paragraph [OF this(1,2), where m = table_at_end and start = "0x1000"]
    mp_search_misses_last_paragraph [OF this(3,4), where m = table_at_end and start = "0x1000"]
  show ?thesis using good bad by (simp add: upt_rec)
qed

end
