(* ===== verification/Acpi_Tables.thy ===== *)
theory Acpi_Tables
  imports Mp_Tables
begin

text \<open>
  The ACPI tables of the firmware (\<open>source/kernel/firmware/acpi/acpi.c\<close>, \<open>madt.c\<close>): the search for the root
  pointer, what is kept of a table by its signature, and the readers of the interrupt table (MADT). The
  entries of the MADT give their own length, so that the loops over them are \<open>partial_function\<close>s:
  an entry of length zero is read for ever.
\<close>

section \<open>The root pointer\<close>

record acpi_sdp_table_ptr =
  rsdt_pm :: u32
  xsdt_pm :: u32

abbreviation no_sdp :: acpi_sdp_table_ptr where "no_sdp \<equiv> \<lparr>rsdt_pm = 0, xsdt_pm = 0\<rparr>"

definition rsdp_size :: u32 where "rsdp_size = 20"
definition xsdp_size :: u32 where "xsdp_size = 36"

abbreviation rsdp_revision :: "mem \<Rightarrow> u32 \<Rightarrow> u8" where "rsdp_revision m p \<equiv> m (p + 15)"
abbreviation rsdt_address :: "mem \<Rightarrow> u32 \<Rightarrow> u32" where "rsdt_address m p \<equiv> load32 m (p + 16)"
abbreviation xsdt_address_low :: "mem \<Rightarrow> u32 \<Rightarrow> u32" where "xsdt_address_low m p \<equiv> load32 m (p + 24)"
abbreviation xsdt_address_high :: "mem \<Rightarrow> u32 \<Rightarrow> u32" where "xsdt_address_high m p \<equiv> load32 m (p + 28)"

text \<open>The signature \<open>RSD PTR\<close> with its space, as two words.\<close>

definition rsdp_refused :: "mem \<Rightarrow> u32 \<Rightarrow> u32 \<Rightarrow> u32 \<Rightarrow> bool" where
  "rsdp_refused m start sz offset \<longleftrightarrow>
     \<not> (load32 m (start + offset) = 0x20445352 \<and> load32 m (start + offset + 4) = 0x20525450)
     \<or> offset + rsdp_size > sz \<or> \<not> firmware_table_checksum_validation m (start + offset) rsdp_size"

definition xsdp_refused :: "mem \<Rightarrow> u32 \<Rightarrow> u32 \<Rightarrow> u32 \<Rightarrow> bool" where
  "xsdp_refused m start sz offset \<longleftrightarrow>
     offset + xsdp_size > sz \<or> \<not> firmware_table_checksum_validation m (start + offset) xsdp_size"

partial_function (option) sdp_search_from :: "mem \<Rightarrow> u32 \<Rightarrow> u32 \<Rightarrow> u32 \<Rightarrow> acpi_sdp_table_ptr option" where
  "sdp_search_from m start sz offset =
     (if offset < sz - rsdp_size then
        if rsdp_refused m start sz offset then sdp_search_from m start sz (offset + 16)
        else if rsdp_revision m (start + offset) < 2 then Some (no_sdp\<lparr>rsdt_pm := rsdt_address m (start + offset)\<rparr>)
        else if xsdp_refused m start sz offset then sdp_search_from m start sz (offset + 16)
        else if xsdt_address_high m (start + offset) = 0
          then Some (no_sdp\<lparr>xsdt_pm := xsdt_address_low m (start + offset)\<rparr>) else Some no_sdp
      else Some no_sdp)"

definition search_for_sdb_table_in_memory :: "mem \<Rightarrow> u32 \<Rightarrow> u32 \<Rightarrow> acpi_sdp_table_ptr option" where
  "search_for_sdb_table_in_memory m start sz = sdp_search_from m start sz 0"

text \<open>
  The start of \<open>search_for_acpi_tables\<close>: \<open>None\<close> inside is the return without tables.
\<close>

definition find_sdp :: "mem \<Rightarrow> u32 \<Rightarrow> u32 \<Rightarrow> acpi_sdp_table_ptr option option" where
  "find_sdp m bios_code ebda = do {
     sdp \<leftarrow> search_for_sdb_table_in_memory m bios_code 0x20000;
     if rsdt_pm sdp = 0 \<and> xsdt_pm sdp = 0 then do {
       _ \<leftarrow> (if ebda \<noteq> 0 then search_for_sdb_table_in_memory m ebda 0x400 else Some no_sdp);
       if rsdt_pm sdp = 0 \<and> xsdt_pm sdp = 0 then Some None else Some (Some sdp)
     } else Some (Some sdp)
   }"

section \<open>Lists of tables\<close>

definition acpi_header_size :: u32 where "acpi_header_size = 36"
abbreviation table_length :: "mem \<Rightarrow> u32 \<Rightarrow> u32" where "table_length m t \<equiv> load32 m (t + 4)"

definition ascii4 :: "u8 \<Rightarrow> u8 \<Rightarrow> u8 \<Rightarrow> u8 \<Rightarrow> u32" where
  "ascii4 a b c d = ucast a OR push_bit 8 (ucast b) OR push_bit 16 (ucast c) OR push_bit 24 (ucast d)"

definition RSDT :: u32 where "RSDT = ascii4 82 83 68 84"
definition XSDT :: u32 where "XSDT = ascii4 88 83 68 84"
definition FACP :: u32 where "FACP = ascii4 70 65 67 80"
definition APIC :: u32 where "APIC = ascii4 65 80 73 67"
definition MCFG :: u32 where "MCFG = ascii4 77 67 70 71"
definition HPET :: u32 where "HPET = ascii4 72 80 69 84"

text \<open>
  The tables of a mapped RSDT or XSDT that are checked, in order; \<open>None\<close> is the refusal of the list. An
  XSDT has addresses of 64 bits; those above 4 GB are left out.
\<close>

definition rsdt_tables :: "mem \<Rightarrow> u32 \<Rightarrow> u32 list option" where
  "rsdt_tables m rsdt =
     (if load32 m rsdt \<noteq> RSDT \<or> \<not> firmware_table_checksum_validation m rsdt (table_length m rsdt) then None
      else Some (map (\<lambda>i. load32 m (rsdt + acpi_header_size + of_nat i * 4))
        [0..<unat ((table_length m rsdt - acpi_header_size) div 4)]))"

definition xsdt_tables :: "mem \<Rightarrow> u32 \<Rightarrow> u32 list option" where
  "xsdt_tables m xsdt =
     (if load32 m xsdt \<noteq> XSDT \<or> \<not> firmware_table_checksum_validation m xsdt (table_length m xsdt) then None
      else Some (map (\<lambda>i. load32 m (xsdt + acpi_header_size + of_nat i * 8))
        (filter (\<lambda>i. load32 m (xsdt + acpi_header_size + of_nat i * 8 + 4) = 0)
          [0..<unat ((table_length m xsdt - acpi_header_size) div 8)])))"

record acpi_info =
  facp :: u32
  madt :: u32
  mcfg :: u32
  size_of_mcfg :: u32
  hpet :: u32

text \<open>The table is at \<open>table\<close> in virtual memory.\<close>

definition check_acpi_table :: "mem \<Rightarrow> u32 \<Rightarrow> acpi_info \<Rightarrow> acpi_info" where
  "check_acpi_table m table info =
     (let signature = load32 m table
      in if signature \<noteq> FACP \<and> signature \<noteq> APIC \<and> signature \<noteq> MCFG \<and> signature \<noteq> HPET then info
         else if \<not> firmware_table_checksum_validation m table (table_length m table) then info
         else if signature = FACP then info\<lparr>facp := table\<rparr>
         else if signature = APIC then info\<lparr>madt := table\<rparr>
         else if signature = MCFG then info\<lparr>mcfg := table, size_of_mcfg := table_length m table\<rparr>
         else info\<lparr>hpet := table\<rparr>)"

section \<open>The interrupt table\<close>

definition madt_size :: u32 where "madt_size = 44"
definition MADT_TYPE_LOCAL_APIC :: u8 where "MADT_TYPE_LOCAL_APIC = 0"
definition MADT_TYPE_IO_APIC :: u8 where "MADT_TYPE_IO_APIC = 1"
definition MADT_TYPE_INTERRUPT_OVERRIDE :: u8 where "MADT_TYPE_INTERRUPT_OVERRIDE = 2"

partial_function (option) madt_walk :: "mem \<Rightarrow> u32 \<Rightarrow> (u32 \<Rightarrow> 's \<Rightarrow> ('s \<times> bool) option) \<Rightarrow> u32 \<Rightarrow> 's \<Rightarrow> 's option" where
  "madt_walk m t step offset s =
     (if offset < table_length m t then do {
        (s, return) \<leftarrow> step offset s;
        if return then Some s else madt_walk m t step (offset + ucast (m (t + offset + 1))) s
      } else Some s)"

definition entry_of :: "mem \<Rightarrow> u32 \<Rightarrow> u8 \<Rightarrow> u32 \<Rightarrow> u32 \<Rightarrow> bool" where
  "entry_of m t ty len offset \<longleftrightarrow> m (t + offset) = ty \<and> offset + len \<le> table_length m t"

definition madt_io_apic_step :: "mem \<Rightarrow> u32 \<Rightarrow> u32 \<Rightarrow> io_apic_info list \<Rightarrow> (io_apic_info list \<times> bool) option" where
  "madt_io_apic_step m t offset io_apics =
     (if entry_of m t MADT_TYPE_IO_APIC 12 offset then
        if length io_apics < MAX_NUMBER_OF_IOAPICS_ON_SYSTEM
        then Some (io_apics @ [\<lparr>apic_id = m (t + offset + 2), mmio_address = load32 m (t + offset + 4),
          base_gsi = load32 m (t + offset + 8)\<rparr>], False)
        else None
      else Some (io_apics, False))"

definition madt_read_all_io_apics :: "mem \<Rightarrow> u32 \<Rightarrow> io_apic_info list option" where
  "madt_read_all_io_apics m t = (if t = 0 then Some [] else madt_walk m t (madt_io_apic_step m t) madt_size [])"

definition madt_override_step :: "mem \<Rightarrow> u32 \<Rightarrow> u32 \<Rightarrow> isa_irq_override list \<Rightarrow> (isa_irq_override list \<times> bool) option" where
  "madt_override_step m t offset overrides =
     (let irq = m (t + offset + 3); flags = load16 m (t + offset + 8)
      in if entry_of m t MADT_TYPE_INTERRUPT_OVERRIDE 10 offset \<and> irq < 16 then
           Some (overrides[unat irq := \<lparr>is_overridden = True, override_gsi = load32 m (t + offset + 4),
             override_polarity = ucast (drop_bit 1 flags AND 1), override_trigger_mode = ucast (drop_bit 3 flags AND 1)\<rparr>], False)
         else Some (overrides, False))"

definition identity_override :: "nat \<Rightarrow> isa_irq_override" where
  "identity_override i = \<lparr>is_overridden = True, override_gsi = of_nat i, override_polarity = 0, override_trigger_mode = 0\<rparr>"

definition fill_overrides :: "isa_irq_override list \<Rightarrow> isa_irq_override list" where
  "fill_overrides overrides = fold (\<lambda>i os. if is_overridden (os ! i) then os else os[i := identity_override i]) [0..<16] overrides"

definition madt_read_isa_irq_overrides :: "mem \<Rightarrow> u32 \<Rightarrow> isa_irq_override list option" where
  "madt_read_isa_irq_overrides m t =
     (if t = 0 then Some (replicate 16 no_override)
      else map_option fill_overrides (madt_walk m t (madt_override_step m t) madt_size (replicate 16 no_override)))"

definition madt_processor_step :: "mem \<Rightarrow> u32 \<Rightarrow> u32 \<Rightarrow> u32 list \<Rightarrow> (u32 list \<times> bool) option" where
  "madt_processor_step m t offset ps =
     (if entry_of m t MADT_TYPE_LOCAL_APIC 8 offset \<and> (bit (m (t + offset + 4)) 0 \<or> bit (m (t + offset + 4)) 1) then
        let ps = ps @ [ucast (m (t + offset + 3))] in Some (ps, MAX_NUMBER_OF_LOGICAL_PROCESSORS_ON_SYSTEM \<le> length ps)
      else Some (ps, False))"

definition madt_read_info_about_logical_processors :: "mem \<Rightarrow> u32 \<Rightarrow> u32 list option" where
  "madt_read_info_about_logical_processors m t = (if t = 0 then Some [] else madt_walk m t (madt_processor_step m t) madt_size [])"

section \<open>Entries of the table\<close>

text \<open>\<open>madt_entries m t offset es\<close>: \<open>es\<close> are the offsets of the entries from \<open>offset\<close> to the end, none of length zero.\<close>

fun madt_entries :: "mem \<Rightarrow> u32 \<Rightarrow> u32 \<Rightarrow> u32 list \<Rightarrow> bool" where
  "madt_entries m t offset [] \<longleftrightarrow> table_length m t \<le> offset"
| "madt_entries m t offset (e # es) \<longleftrightarrow>
     e = offset \<and> offset < table_length m t \<and> madt_entries m t (offset + ucast (m (t + offset + 1))) es"

lemma madt_walk_fold:
  assumes "\<And>e s. step e s = Some (f e s, False)"
  shows "madt_entries m t offset es \<Longrightarrow> madt_walk m t step offset s = Some (fold f es s)"
proof (induction es arbitrary: offset s)
  case Nil
  then show ?case by (subst madt_walk.simps) (auto dest: leD)
next
  case (Cons e es)
  then show ?case by (subst madt_walk.simps) (simp add: assms [of offset s] Cons.IH)
qed

definition stuck_entry :: "mem \<Rightarrow> u32 \<Rightarrow> (u32 \<Rightarrow> 's \<Rightarrow> ('s \<times> bool) option) \<Rightarrow> u32 \<Rightarrow> bool" where
  "stuck_entry m t step offset \<longleftrightarrow> offset < table_length m t \<and> m (t + offset + 1) = 0
     \<and> (\<forall>s s' r. step offset s = Some (s', r) \<longrightarrow> \<not> r)"

lemma madt_walk_stuck:
  assumes "stuck_entry m t step offset"
  shows "madt_walk m t step offset s = None"
proof -
  have "madt_walk m t step offset s = Some y \<Longrightarrow> \<not> stuck_entry m t step offset" for y
  proof (erule madt_walk.raw_induct [where P = "\<lambda>m t step offset s y. \<not> stuck_entry m t step offset", rotated])
    fix f m t and step :: "u32 \<Rightarrow> 's \<Rightarrow> ('s \<times> bool) option" and offset s y
    assume IH: "\<And>m t step offset s y. f m t step offset s = Some y \<Longrightarrow> \<not> stuck_entry m t step offset"
      and step: "(if offset < table_length m t then do {
        (s, return) \<leftarrow> step offset s;
        if return then Some s else f m t step (offset + ucast (m (t + offset + 1))) s
      } else Some s) = Some y"
    show "\<not> stuck_entry m t step offset"
    proof
      assume stuck: "stuck_entry m t step offset"
      with step obtain s' r where "step offset s = Some (s', r)"
        by (auto simp: stuck_entry_def bind_eq_Some_conv)
      moreover from this stuck have "\<not> r" unfolding stuck_entry_def by blast
      ultimately have "f m t step offset s' = Some y" using stuck step by (simp add: stuck_entry_def)
      then show False using IH stuck by blast
    qed
  qed
  then show ?thesis using assms by (cases "madt_walk m t step offset s") auto
qed

text \<open>The entries \<open>es\<close> lie before the entry at offset \<open>e\<close>.\<close>

fun madt_before :: "mem \<Rightarrow> u32 \<Rightarrow> u32 \<Rightarrow> u32 list \<Rightarrow> u32 \<Rightarrow> bool" where
  "madt_before m t offset [] e \<longleftrightarrow> offset = e"
| "madt_before m t offset (x # xs) e \<longleftrightarrow>
     x = offset \<and> offset < table_length m t \<and> madt_before m t (offset + ucast (m (t + offset + 1))) xs e"

lemma madt_walk_before:
  assumes "\<And>e s. step e s = Some (f e s, False)"
  shows "madt_before m t offset xs e \<Longrightarrow> madt_walk m t step offset s = madt_walk m t step e (fold f xs s)"
proof (induction xs arbitrary: offset s)
  case (Cons x xs)
  then show ?case by (subst madt_walk.simps) (simp add: assms [of offset s] Cons.IH)
qed simp

section \<open>Properties\<close>

definition overrides_irq :: "mem \<Rightarrow> u32 \<Rightarrow> nat \<Rightarrow> u32 \<Rightarrow> bool" where
  "overrides_irq m t i e \<longleftrightarrow> entry_of m t MADT_TYPE_INTERRUPT_OVERRIDE 10 e \<and> unat (m (t + e + 3)) = i"

definition override_at :: "mem \<Rightarrow> u32 \<Rightarrow> u32 \<Rightarrow> isa_irq_override" where
  "override_at m t e = \<lparr>is_overridden = True, override_gsi = load32 m (t + e + 4),
     override_polarity = ucast (drop_bit 1 (load16 m (t + e + 8)) AND 1),
     override_trigger_mode = ucast (drop_bit 3 (load16 m (t + e + 8)) AND 1)\<rparr>"

definition put_override :: "mem \<Rightarrow> u32 \<Rightarrow> u32 \<Rightarrow> isa_irq_override list \<Rightarrow> isa_irq_override list" where
  "put_override m t e os = (if entry_of m t MADT_TYPE_INTERRUPT_OVERRIDE 10 e \<and> m (t + e + 3) < 16
     then os[unat (m (t + e + 3)) := override_at m t e] else os)"

lemma madt_override_step_put: "madt_override_step m t e os = Some (put_override m t e os, False)"
  by (simp add: madt_override_step_def put_override_def override_at_def Let_def)

lemma fold_put_override:
  assumes "length os = 16" "i < 16"
  shows "length (fold (put_override m t) es os) = 16 \<and> fold (put_override m t) es os ! i
    = (case find (overrides_irq m t i) (rev es) of None \<Rightarrow> os ! i | Some e \<Rightarrow> override_at m t e)"
proof (induction es rule: rev_induct)
  case (snoc e es)
  have "m (t + e + 3) < 16 \<longleftrightarrow> unat (m (t + e + 3)) < 16" by (simp add: word_less_nat_alt)
  then show ?case using snoc assms(2)
    by (auto simp: put_override_def overrides_irq_def nth_list_update)
qed (simp add: assms)

lemma fill_overrides_nth:
  assumes "length os = 16" "i < 16"
  shows "fill_overrides os ! i = (if is_overridden (os ! i) then os ! i else identity_override i)"
proof -
  have "n \<le> 16 \<Longrightarrow> length (fold (\<lambda>i os. if is_overridden (os ! i) then os else os[i := identity_override i]) [0..<n] os) = 16
    \<and> fold (\<lambda>i os. if is_overridden (os ! i) then os else os[i := identity_override i]) [0..<n] os ! i
      = (if i < n \<and> \<not> is_overridden (os ! i) then identity_override i else os ! i)
    \<and> (\<forall>k. n \<le> k \<longrightarrow> k < 16 \<longrightarrow> fold (\<lambda>i os. if is_overridden (os ! i) then os else os[i := identity_override i]) [0..<n] os ! k = os ! k)" for n
  proof (induction n)
    case (Suc n)
    then show ?case using assms by (auto simp: nth_list_update less_Suc_eq)
  qed (use assms in simp)
  from this [of 16] show ?thesis using assms by (simp add: fill_overrides_def)
qed

text \<open>
  C30. Every interrupt of the ISA bus gets a route from the MADT: the last override of the table for it, or
  its own number, active high and edge triggered, when there is none.
\<close>

theorem madt_routes_every_isa_interrupt:
  assumes "t \<noteq> 0" "madt_entries m t madt_size es" "i < 16"
  shows "\<exists>os. madt_read_isa_irq_overrides m t = Some os \<and> is_overridden (os ! i)
    \<and> os ! i = (case find (overrides_irq m t i) (rev es) of None \<Rightarrow> identity_override i | Some e \<Rightarrow> override_at m t e)"
proof -
  let ?os = "fold (put_override m t) es (replicate 16 no_override)"
  have "madt_walk m t (madt_override_step m t) madt_size (replicate 16 no_override) = Some ?os"
    by (rule madt_walk_fold [OF _ assms(2)]) (rule madt_override_step_put)
  moreover have "length ?os = 16" "?os ! i = (case find (overrides_irq m t i) (rev es) of None \<Rightarrow> no_override | Some e \<Rightarrow> override_at m t e)"
    using fold_put_override [of "replicate 16 no_override" i m t es] assms(3) by (auto split: option.splits)
  ultimately show ?thesis using assms(1,3)
    by (auto simp: madt_read_isa_irq_overrides_def fill_overrides_nth no_override_def override_at_def identity_override_def
        split: option.splits)
qed

definition small_madt :: mem where
  "small_madt = (\<lambda>_. 0)(0x1004 := 64, 0x102C := 2, 0x102D := 10, 0x1030 := 2, 0x1034 := 0x0D,
     0x1036 := 2, 0x1037 := 10, 0x1039 := 9, 0x103A := 20)"

lemma small_madt_entries: "madt_entries small_madt 0x1000 madt_size [44, 54]"
  by (simp add: small_madt_def madt_size_def load32_def)

theorem madt_routes_every_isa_interrupt_witness:
  "\<exists>os. madt_read_isa_irq_overrides small_madt 0x1000 = Some os \<and> override_gsi (os ! 0) = 2 \<and> override_trigger_mode (os ! 0) = 1"
proof -
  have "(0x1000 :: u32) \<noteq> 0" "(0 :: nat) < 16" by simp_all
  from madt_routes_every_isa_interrupt [OF this(1) small_madt_entries this(2)]
  obtain os where "madt_read_isa_irq_overrides small_madt 0x1000 = Some os"
    "os ! 0 = (case find (overrides_irq small_madt 0x1000 0) (rev [44, 54]) of None \<Rightarrow> identity_override 0 | Some e \<Rightarrow> override_at small_madt 0x1000 e)"
    by blast
  then show ?thesis
    by (simp add: overrides_irq_def entry_of_def override_at_def) (simp add: small_madt_def MADT_TYPE_INTERRUPT_OVERRIDE_def load32_def load16_def)
qed

text \<open>
  An entry of length zero inside the MADT hangs the reader of the overrides, whatever entries come before
  it: no reader checks the length, and the offset stays where it is.
\<close>

theorem madt_entry_of_length_zero_hangs:
  assumes "t \<noteq> 0" "madt_before m t madt_size es e" "e < table_length m t" "m (t + e + 1) = 0"
  shows "madt_read_isa_irq_overrides m t = None"
proof -
  have "stuck_entry m t (madt_override_step m t) e"
    using assms(3,4) by (simp add: stuck_entry_def madt_override_step_put)
  then show ?thesis using assms(1) madt_walk_before [OF madt_override_step_put assms(2)]
    by (simp add: madt_read_isa_irq_overrides_def madt_walk_stuck)
qed

theorem madt_entry_of_length_zero_hangs_witness:
  "madt_read_isa_irq_overrides (small_madt(0x1037 := 0)) 0x1000 = None"
proof -
  have "(0x1000 :: u32) \<noteq> 0" "madt_before (small_madt(0x1037 := 0)) 0x1000 madt_size [44] 54"
    "54 < table_length (small_madt(0x1037 := 0)) 0x1000" "(small_madt(0x1037 := 0)) (0x1000 + 54 + 1) = 0"
    by (simp_all add: small_madt_def madt_size_def load32_def)
  then show ?thesis by (rule madt_entry_of_length_zero_hangs)
qed

section \<open>The EBDA\<close>

lemma sdp_search_none:
  assumes "rsdp_size \<le> sz" "sz \<le> 0xFFFFFFF0" "\<And>k. 16 * k < unat sz \<Longrightarrow> rsdp_refused m start sz (of_nat (16 * k))"
  shows "16 * k < unat sz + 16 \<Longrightarrow> sdp_search_from m start sz (of_nat (16 * k)) = Some no_sdp"
proof (induction "unat sz + 16 - 16 * k" arbitrary: k rule: less_induct)
  case less
  show ?case
  proof (cases "of_nat (16 * k) < sz - rsdp_size")
    case False
    then show ?thesis by (subst sdp_search_from.simps) simp
  next
    case True
    have u: "unat (of_nat (16 * k) :: u32) = 16 * k"
      using less.prems assms(2) by (simp add: word_le_nat_alt unat_of_nat32 del: of_nat_mult)
    have k: "16 * k < unat sz"
      using True assms(1) by (simp add: word_less_nat_alt word_le_nat_alt unat_sub_small u del: of_nat_mult)
    have "sdp_search_from m start sz (of_nat (16 * Suc k)) = Some no_sdp"
      using k by (intro less.hyps) auto
    moreover have "(of_nat (16 * Suc k) :: u32) = of_nat (16 * k) + 16" by (simp add: add.commute)
    ultimately show ?thesis using True assms(3) [OF k] by (subst sdp_search_from.simps) (simp add: add.commute del: of_nat_mult)
  qed
qed

text \<open>
  A root pointer that is only in the EBDA is never used: when the BIOS area has none, no table is taken,
  whatever the search of the EBDA finds, because its result is not stored.
\<close>

theorem ebda_root_pointer_is_ignored:
  assumes "\<forall>k. 16 * k < 0x20000 \<longrightarrow> rsdp_refused m bios_code 0x20000 (of_nat (16 * k))"
    "search_for_sdb_table_in_memory m ebda 0x400 = Some sdp"
  shows "find_sdp m bios_code ebda = Some None"
proof -
  have "search_for_sdb_table_in_memory m bios_code 0x20000 = Some no_sdp"
    using sdp_search_none [of "0x20000" m bios_code 0] assms(1)
    by (simp add: search_for_sdb_table_in_memory_def rsdp_size_def)
  then show ?thesis using assms(2) by (simp add: find_sdp_def)
qed

text \<open>A root pointer in the first paragraph of the EBDA at 0x9FC00, with an RSDT at 0x1234.\<close>

definition ebda_only :: mem where
  "ebda_only = (\<lambda>_. 0)(0x9FC00 := 0x52, 0x9FC01 := 0x53, 0x9FC02 := 0x44, 0x9FC03 := 0x20, 0x9FC04 := 0x50, 0x9FC05 := 0x54,
     0x9FC06 := 0x52, 0x9FC07 := 0x20, 0x9FC08 := 0x9B, 0x9FC10 := 0x34, 0x9FC11 := 0x12)"

lemma ebda_only_low: "0xA0000 \<le> unat a \<Longrightarrow> ebda_only a = 0"
  by (auto simp: ebda_only_def)

theorem ebda_root_pointer_is_ignored_witness:
  "search_for_sdb_table_in_memory ebda_only 0x9FC00 0x400 = Some \<lparr>rsdt_pm = 0x1234, xsdt_pm = 0\<rparr>
    \<and> find_sdp ebda_only 0xE0000 0x9FC00 = Some None"
proof
  have "\<not> rsdp_refused ebda_only 0x9FC00 0x400 0"
    by (simp add: rsdp_refused_def rsdp_size_def firmware_table_checksum_validation_def ebda_only_def load32_def upt_rec)
  then show found: "search_for_sdb_table_in_memory ebda_only 0x9FC00 0x400 = Some \<lparr>rsdt_pm = 0x1234, xsdt_pm = 0\<rparr>"
    unfolding search_for_sdb_table_in_memory_def
    by (subst sdp_search_from.simps) (simp add: rsdp_size_def, simp add: ebda_only_def load32_def)
  have "rsdp_refused ebda_only 0xE0000 0x20000 (of_nat (16 * k))" if "16 * k < 0x20000" for k
  proof -
    have "unat (0xE0000 + of_nat (16 * k) :: u32) = 0xE0000 + 16 * k"
      using that by (subst unat_add_small) (simp_all add: unat_of_nat32 del: of_nat_mult)
    then have "ebda_only (0xE0000 + of_nat (16 * k)) = 0"
      by (intro ebda_only_low) simp
    then have "\<not> bit (load32 ebda_only (0xE0000 + of_nat (16 * k))) 1"
      by (simp add: load32_def bit_simps)
    moreover have "bit (0x20445352 :: u32) 1" by simp
    ultimately show ?thesis unfolding rsdp_refused_def by metis
  qed
  then show "find_sdp ebda_only 0xE0000 0x9FC00 = Some None"
    using ebda_root_pointer_is_ignored [OF _ found] by blast
qed

end
