(* ===== verification/Storage.thy ===== *)
theory Storage
  imports Libc_String "HOL-Library.Monad_Syntax"
begin

text \<open>
  The group of storage devices (\<open>source/kernel/hardware/groups/storage/storage.c\<close>): slots for transfers,
  the reading and writing of any range of bytes by whole sectors, and packets of transfers; and the loops
  of the hard disk driver that split a request (\<open>parallel_ata.c\<close>). A device is its functions: they take
  the first sector, the number of sectors and the buffer, and change the status, the memory and the
  contents \<open>'d\<close> of the device.
\<close>

section \<open>Devices and status\<close>

definition STORAGE_TRANSFER_WAITING :: u32 where "STORAGE_TRANSFER_WAITING = 0"
definition STORAGE_TRANSFER_RUNNING :: u32 where "STORAGE_TRANSFER_RUNNING = 1"
definition STORAGE_TRANSFER_ERROR :: u32 where "STORAGE_TRANSFER_ERROR = 2"
definition STORAGE_TRANSFER_FINISHED :: u32 where "STORAGE_TRANSFER_FINISHED = 3"

lemmas storage_status_defs = STORAGE_TRANSFER_WAITING_def STORAGE_TRANSFER_RUNNING_def STORAGE_TRANSFER_ERROR_def
  STORAGE_TRANSFER_FINISHED_def

text \<open>A status is the list of itself and of those above it (the field \<open>up\<close>).\<close>

record transfer_status =
  status :: u32
  slot :: nat
  transferred_bytes :: u32

type_synonym 'd io = "transfer_status list \<times> mem \<times> 'd"
type_synonym 'd sector_function = "u64 \<Rightarrow> u32 \<Rightarrow> u32 \<Rightarrow> 'd io \<Rightarrow> 'd io option"

record storage_device =
  size_of_sector :: u32
  number_of_sectors :: u64
  first_nonacessible_byte :: u64
  is_transfer_slot_taken :: "bool list"
  slot_two_sectors_buffer :: "u32 list"

definition storage_device_of :: "u32 \<Rightarrow> u64 \<Rightarrow> u32 list \<Rightarrow> storage_device" where
  "storage_device_of ss sectors buffers =
     \<lparr>size_of_sector = ss, number_of_sectors = sectors, first_nonacessible_byte = sectors * ucast ss,
      is_transfer_slot_taken = replicate (length buffers) False, slot_two_sectors_buffer = buffers\<rparr>"

definition set_storage_transfer_status :: "u32 \<Rightarrow> u32 \<Rightarrow> transfer_status list \<Rightarrow> transfer_status list" where
  "set_storage_transfer_status new_status increase =
     map (\<lambda>s. s\<lparr>status := new_status, transferred_bytes := transferred_bytes s + increase\<rparr>)"

fun set_own_status :: "u32 \<Rightarrow> transfer_status list \<Rightarrow> transfer_status list" where
  "set_own_status new_status [] = []"
| "set_own_status new_status (s # up) = s\<lparr>status := new_status\<rparr> # up"

text \<open>The first slot that is free is taken; \<open>None\<close> is the null pointer when all are taken.\<close>

definition storage_prepare_transfer :: "storage_device \<Rightarrow> (storage_device \<times> transfer_status) option" where
  "storage_prepare_transfer dev =
     (case find (\<lambda>i. \<not> is_transfer_slot_taken dev ! i) [0..<length (is_transfer_slot_taken dev)] of
        None \<Rightarrow> None
      | Some i \<Rightarrow> Some (dev\<lparr>is_transfer_slot_taken := (is_transfer_slot_taken dev)[i := True]\<rparr>,
          \<lparr>status = STORAGE_TRANSFER_WAITING, slot = i, transferred_bytes = 0\<rparr>))"

section \<open>A request in sectors\<close>

definition first_sector_of :: "u32 \<Rightarrow> u64 \<Rightarrow> u64" where
  "first_sector_of ss offset = offset div ucast ss"

definition skip_bytes_of :: "u32 \<Rightarrow> u64 \<Rightarrow> u32" where
  "skip_bytes_of ss offset = ucast (offset - first_sector_of ss offset * ucast ss)"

definition last_sector_of :: "u32 \<Rightarrow> u64 \<Rightarrow> u32 \<Rightarrow> u64" where
  "last_sector_of ss offset sz = (offset + ucast sz - 1) div ucast ss"

definition last_bytes_of :: "u32 \<Rightarrow> u64 \<Rightarrow> u32 \<Rightarrow> u32" where
  "last_bytes_of ss offset sz = ucast ((offset + ucast sz) - last_sector_of ss offset sz * ucast ss)"

definition sectors_of :: "u32 \<Rightarrow> u64 \<Rightarrow> u32 \<Rightarrow> u32" where
  "sectors_of ss offset sz = ucast (last_sector_of ss offset sz - first_sector_of ss offset + 1)"

text \<open>The sectors in the middle, which go directly to or from the buffer.\<close>

definition aligned_part :: "u32 \<Rightarrow> u64 \<Rightarrow> u32 \<Rightarrow> u32 \<Rightarrow> u64 \<times> u32 \<times> u32" where
  "aligned_part ss offset sz buffer =
     (let first_aligned_sector = first_sector_of ss offset + 1;
          aligned_buffer = buffer - skip_bytes_of ss offset + ss;
          number_of_aligned_sectors = sectors_of ss offset sz - 2;
          (first_aligned_sector, number_of_aligned_sectors, aligned_buffer) =
            (if skip_bytes_of ss offset = 0 then (first_aligned_sector - 1, number_of_aligned_sectors + 1, aligned_buffer - ss)
             else (first_aligned_sector, number_of_aligned_sectors, aligned_buffer));
          number_of_aligned_sectors =
            (if last_bytes_of ss offset sz = ss then number_of_aligned_sectors + 1 else number_of_aligned_sectors)
      in (first_aligned_sector, number_of_aligned_sectors, aligned_buffer))"

definition refused_range :: "storage_device \<Rightarrow> u64 \<Rightarrow> u32 \<Rightarrow> bool" where
  "refused_range dev offset sz \<longleftrightarrow>
     (let end_of = offset + ucast sz
      in offset \<ge> first_nonacessible_byte dev \<or> end_of > first_nonacessible_byte dev \<or> end_of < offset)"

definition memcpy_io :: "u32 \<Rightarrow> u32 \<Rightarrow> u32 \<Rightarrow> 'd io \<Rightarrow> 'd io" where
  "memcpy_io dst src n = (\<lambda>(st, m, d). (st, mem_copy m dst src n, d))"

section \<open>Reading\<close>

definition read_sectors :: "'d sector_function \<Rightarrow> u32 \<Rightarrow> u32 \<Rightarrow> u64 \<Rightarrow> u32 \<Rightarrow> u32 \<Rightarrow> 'd io \<Rightarrow> 'd io option" where
  "read_sectors read ss two offset sz buffer io =
     (let first = first_sector_of ss offset; skip = skip_bytes_of ss offset; last = last_sector_of ss offset sz;
          bytes_in_last = last_bytes_of ss offset sz; n = sectors_of ss offset sz
      in if n = 1 then
           if skip = 0 \<and> sz = ss then read first 1 buffer io
           else map_option (memcpy_io buffer (two + skip) sz) (read first 1 two io)
         else if n = 2 then
           if skip = 0 \<and> bytes_in_last = ss then read first 2 buffer io
           else map_option (memcpy_io buffer (two + skip) sz) (read first 2 two io)
         else do {
           io \<leftarrow> (if skip > 0 then map_option (memcpy_io buffer (two + skip) sz) (read first 1 two io) else Some io);
           let (first_aligned_sector, number_of_aligned_sectors, aligned_buffer) = aligned_part ss offset sz buffer;
           io \<leftarrow> read first_aligned_sector number_of_aligned_sectors aligned_buffer io;
           if bytes_in_last < ss then
             map_option (memcpy_io (buffer + sz - bytes_in_last) two bytes_in_last) (read last 1 two io)
           else Some io
         })"

definition storage_read :: "'d sector_function \<Rightarrow> storage_device \<Rightarrow> u64 \<Rightarrow> u32 \<Rightarrow> u32 \<Rightarrow> 'd io \<Rightarrow> (storage_device \<times> 'd io) option" where
  "storage_read read dev offset sz buffer io =
     (let (st, m, d) = io
      in if st = [] then None
         else if refused_range dev offset sz then Some (dev, set_own_status STORAGE_TRANSFER_ERROR st, m, d)
         else if size_of_sector dev = 0 \<or> length (slot_two_sectors_buffer dev) \<le> slot (hd st) then None
         else do {
           io \<leftarrow> read_sectors read (size_of_sector dev) (slot_two_sectors_buffer dev ! slot (hd st)) offset sz buffer
             (set_own_status STORAGE_TRANSFER_RUNNING st, m, d);
           Some (dev\<lparr>is_transfer_slot_taken := (is_transfer_slot_taken dev)[slot (hd st) := False]\<rparr>, io)
         })"

section \<open>Writing\<close>

definition write_sectors :: "'d sector_function \<Rightarrow> 'd sector_function \<Rightarrow> u32 \<Rightarrow> u32 \<Rightarrow> u64 \<Rightarrow> u32 \<Rightarrow> u32 \<Rightarrow> 'd io \<Rightarrow> 'd io option" where
  "write_sectors read write ss two offset sz buffer io =
     (let first = first_sector_of ss offset; skip = skip_bytes_of ss offset; last = last_sector_of ss offset sz;
          bytes_in_last = last_bytes_of ss offset sz; n = sectors_of ss offset sz
      in if n = 1 then
           if skip = 0 \<and> sz = ss then write first 1 buffer io
           else do { io \<leftarrow> read first 1 two io; write first 1 two (memcpy_io (two + skip) buffer sz io) }
         else if n = 2 then
           if skip = 0 \<and> bytes_in_last = ss then write first 2 buffer io
           else do { io \<leftarrow> read first 2 two io; write first 2 two (memcpy_io (two + skip) buffer sz io) }
         else do {
           io \<leftarrow> (if skip > 0 then do { io \<leftarrow> read first 1 two io; write first 1 two (memcpy_io (two + skip) buffer sz io) }
                  else Some io);
           let (first_aligned_sector, number_of_aligned_sectors, aligned_buffer) = aligned_part ss offset sz buffer;
           io \<leftarrow> write first_aligned_sector number_of_aligned_sectors aligned_buffer io;
           if bytes_in_last < ss then do {
             io \<leftarrow> read last 1 two io;
             write last 1 two (memcpy_io (buffer + sz - bytes_in_last) two bytes_in_last io)
           } else Some io
         })"

definition storage_write :: "'d sector_function \<Rightarrow> 'd sector_function \<Rightarrow> storage_device \<Rightarrow> u64 \<Rightarrow> u32 \<Rightarrow> u32 \<Rightarrow> 'd io
    \<Rightarrow> (storage_device \<times> 'd io) option" where
  "storage_write read write dev offset sz buffer io =
     (let (st, m, d) = io
      in if st = [] then None
         else if refused_range dev offset sz then Some (dev, set_own_status STORAGE_TRANSFER_ERROR st, m, d)
         else if size_of_sector dev = 0 \<or> length (slot_two_sectors_buffer dev) \<le> slot (hd st) then None
         else do {
           io \<leftarrow> write_sectors read write (size_of_sector dev) (slot_two_sectors_buffer dev ! slot (hd st)) offset sz buffer
             (set_own_status STORAGE_TRANSFER_RUNNING st, m, d);
           Some (dev\<lparr>is_transfer_slot_taken := (is_transfer_slot_taken dev)[slot (hd st) := False]\<rparr>, io)
         })"

text \<open>The simple transfers return whether they succeeded.\<close>

definition storage_simple_read :: "'d sector_function \<Rightarrow> storage_device \<Rightarrow> u64 \<Rightarrow> u32 \<Rightarrow> u32 \<Rightarrow> mem \<times> 'd
    \<Rightarrow> (bool \<times> storage_device \<times> mem \<times> 'd) option" where
  "storage_simple_read read dev offset sz buffer md =
     (case storage_prepare_transfer dev of
        None \<Rightarrow> Some (False, dev, md)
      | Some (dev, st) \<Rightarrow> map_option (\<lambda>(dev, st, md). (status (hd st) = STORAGE_TRANSFER_FINISHED, dev, md))
          (storage_read read dev offset sz buffer ([st], md)))"

definition storage_simple_write :: "'d sector_function \<Rightarrow> 'd sector_function \<Rightarrow> storage_device \<Rightarrow> u64 \<Rightarrow> u32 \<Rightarrow> u32 \<Rightarrow> mem \<times> 'd
    \<Rightarrow> (bool \<times> storage_device \<times> mem \<times> 'd) option" where
  "storage_simple_write read write dev offset sz buffer md =
     (case storage_prepare_transfer dev of
        None \<Rightarrow> Some (False, dev, md)
      | Some (dev, st) \<Rightarrow> map_option (\<lambda>(dev, st, md). (status (hd st) = STORAGE_TRANSFER_FINISHED, dev, md))
          (storage_write read write dev offset sz buffer ([st], md)))"

section \<open>Packets of transfers\<close>

record transfer_packet =
  packet_status :: transfer_status
  packet_buffer :: u32
  packet_size :: u32
  entries :: "(u64 \<times> u32 \<times> u32) list"

definition create_transfer_packet :: "u32 \<Rightarrow> transfer_packet" where
  "create_transfer_packet buffer = \<lparr>packet_status = \<lparr>status = STORAGE_TRANSFER_WAITING, slot = 0, transferred_bytes = 0\<rparr>,
     packet_buffer = buffer, packet_size = 0, entries = []\<rparr>"

definition add_transfer_to_packet :: "u64 \<Rightarrow> u32 \<Rightarrow> transfer_packet \<Rightarrow> transfer_packet" where
  "add_transfer_to_packet offset sz p =
     (let es = (if entries p = [] then [(offset, sz, packet_buffer p)]
        else let (last_offset, last_size, last_buffer) = last (entries p)
          in if last_offset + ucast last_size = offset then butlast (entries p) @ [(last_offset, last_size + sz, last_buffer)]
             else entries p @ [(offset, sz, packet_buffer p)])
      in p\<lparr>entries := es, packet_buffer := packet_buffer p + sz, packet_size := packet_size p + sz\<rparr>)"

text \<open>
  The loop over the entries: the second component of the status list is the status of the packet. A null
  status, when no slot is free, is dereferenced: \<open>None\<close>.
\<close>

fun packet_loop :: "(storage_device \<Rightarrow> u64 \<Rightarrow> u32 \<Rightarrow> u32 \<Rightarrow> 'd io \<Rightarrow> (storage_device \<times> 'd io) option)
    \<Rightarrow> (u64 \<times> u32 \<times> u32) list \<Rightarrow> storage_device \<Rightarrow> transfer_status \<Rightarrow> mem \<times> 'd \<Rightarrow> (storage_device \<times> transfer_status \<times> mem \<times> 'd) option" where
  "packet_loop transfer [] dev pst md = Some (dev, pst, md)"
| "packet_loop transfer ((offset, sz, buffer) # es) dev pst md = do {
     (dev, st) \<leftarrow> storage_prepare_transfer dev;
     (dev, sts, md) \<leftarrow> transfer dev offset sz buffer ([st, pst], md);
     let pst = sts ! 1;
     if status pst = STORAGE_TRANSFER_ERROR then Some (dev, pst, md)
     else packet_loop transfer es dev pst md
   }"

definition read_transfer_packet :: "'d sector_function \<Rightarrow> storage_device \<Rightarrow> transfer_packet \<Rightarrow> mem \<times> 'd
    \<Rightarrow> (storage_device \<times> transfer_packet \<times> mem \<times> 'd) option" where
  "read_transfer_packet read dev p md = do {
     (dev, pst, md) \<leftarrow> packet_loop (storage_read read) (entries p) dev (packet_status p) md;
     Some (dev, p\<lparr>packet_status := pst\<rparr>, md) }"

definition write_transfer_packet :: "'d sector_function \<Rightarrow> 'd sector_function \<Rightarrow> storage_device \<Rightarrow> transfer_packet \<Rightarrow> mem \<times> 'd
    \<Rightarrow> (storage_device \<times> transfer_packet \<times> mem \<times> 'd) option" where
  "write_transfer_packet read write dev p md = do {
     (dev, pst, md) \<leftarrow> packet_loop (storage_write read write) (entries p) dev (packet_status p) md;
     Some (dev, p\<lparr>packet_status := pst\<rparr>, md) }"

section \<open>The hard disk driver\<close>

text \<open>
  \<open>transfer\<close> sends one command for a number of sectors and tells whether it succeeded; the wrappers for
  reading and writing are this loop, which sends at most \<open>limit\<close> sectors at a time.
\<close>

partial_function (option) pata_wrapper :: "(u64 \<Rightarrow> u32 \<Rightarrow> u32 \<Rightarrow> 'd io \<Rightarrow> (bool \<times> 'd io) option) \<Rightarrow> u32 \<Rightarrow> u32
    \<Rightarrow> u64 \<Rightarrow> u32 \<Rightarrow> u32 \<Rightarrow> 'd io \<Rightarrow> 'd io option" where
  "pata_wrapper transfer limit ss lba n buffer io =
     (if n > 0 then do {
        let k = (if limit > n then n else limit);
        (ok, st, md) \<leftarrow> transfer lba k buffer io;
        if ok then pata_wrapper transfer limit ss (lba + ucast k) (n - k) (buffer + k * ss) (st, md)
        else Some (set_storage_transfer_status STORAGE_TRANSFER_ERROR 0 st, md)
      } else Some (set_storage_transfer_status STORAGE_TRANSFER_FINISHED 0 (fst io), snd io))"

definition pata_convert_lba_to_offset :: "storage_device \<Rightarrow> u64 \<Rightarrow> u64" where
  "pata_convert_lba_to_offset dev lba =
     (if lba \<ge> number_of_sectors dev then - 1 else lba * ucast (size_of_sector dev))"

end
