(* ===== verification/Parallel_Ata.thy ===== *)
theory Parallel_Ata
  imports Storage Cpu_Lock
begin

text \<open>
  Reading from a parallel ATA hard disk by the processor: the commands of
  \<open>source/kernel/hardware/devices/hard_disk/parallel_ata.c\<close>, and the waiting for the interrupts of the
  sectors in \<open>source/kernel/hardware/controllers/ide/ide.c\<close>. The hardware is its state \<open>'h\<close> and what the
  ports do with it.
\<close>

section \<open>Ports\<close>

text \<open>
  \<open>next_interrupt\<close> is the state when the controller raises its next interrupt, or \<open>None\<close> if it does not
  do so before the timeout.
\<close>

record 'h ports =
  outb :: "u16 \<Rightarrow> u8 \<Rightarrow> 'h \<Rightarrow> 'h"
  inb :: "u16 \<Rightarrow> 'h \<Rightarrow> u8 \<times> 'h"
  inw :: "u16 \<Rightarrow> 'h \<Rightarrow> u16 \<times> 'h"
  get_time :: "'h \<Rightarrow> u64 \<times> 'h"
  next_interrupt :: "'h \<Rightarrow> 'h option"

fun write_ports :: "'h ports \<Rightarrow> u16 \<Rightarrow> (u16 \<times> u8) list \<Rightarrow> 'h \<Rightarrow> 'h" where
  "write_ports p base [] h = h"
| "write_ports p base ((r, v) # ws) h = write_ports p base ws (outb p (base + r) v h)"

section \<open>Commands\<close>

record pio_arguments =
  pio_base :: u16
  pio_sector :: u64
  pio_number_of_sectors :: u16
  pio_words_of_sector :: u16
  pio_buffer :: u32

definition lba28_registers :: "u64 \<Rightarrow> u16 \<Rightarrow> u8 \<Rightarrow> (u16 \<times> u8) list" where
  "lba28_registers sector n command =
     [(2, ucast n), (3, ucast (sector AND 0xFF)), (4, ucast (drop_bit 8 sector AND 0xFF)),
      (5, ucast (drop_bit 16 sector AND 0xFF)), (7, command)]"

definition lba48_registers :: "u64 \<Rightarrow> u16 \<Rightarrow> u8 \<Rightarrow> (u16 \<times> u8) list" where
  "lba48_registers sector n command =
     [(2, ucast (drop_bit 8 n AND 0xFF)), (3, ucast (drop_bit 24 sector AND 0xFF)), (4, ucast (drop_bit 32 sector AND 0xFF)),
      (5, ucast (drop_bit 36 sector AND 0xFF)), (2, ucast n), (3, ucast (sector AND 0xFF)),
      (4, ucast (drop_bit 8 sector AND 0xFF)), (5, ucast (drop_bit 16 sector AND 0xFF)), (7, command)]"

definition ata_send_pio_read_command :: "'h ports \<Rightarrow> pio_arguments \<Rightarrow> 'h \<Rightarrow> 'h" where
  "ata_send_pio_read_command p args =
     (if pio_sector args < 0x01000000 \<and> pio_number_of_sectors args < 256
      then write_ports p (pio_base args) (lba28_registers (pio_sector args) (pio_number_of_sectors args) 0x20)
      else write_ports p (pio_base args) (lba48_registers (pio_sector args) (pio_number_of_sectors args) 0x24))"

definition ata_send_pio_write_command :: "'h ports \<Rightarrow> pio_arguments \<Rightarrow> 'h \<Rightarrow> 'h" where
  "ata_send_pio_write_command p args =
     (if pio_sector args < 0x01000000 \<and> pio_number_of_sectors args < 256
      then write_ports p (pio_base args) (lba28_registers (pio_sector args) (pio_number_of_sectors args) 0x30)
      else write_ports p (pio_base args) (lba48_registers (pio_sector args) (pio_number_of_sectors args) 0x34))"

datatype dma_direction = IDE_DMA_READ | IDE_DMA_WRITE

definition ata_send_dma_command :: "'h ports \<Rightarrow> u16 \<Rightarrow> u64 \<Rightarrow> u16 \<Rightarrow> dma_direction \<Rightarrow> 'h \<Rightarrow> 'h" where
  "ata_send_dma_command p base sector n direction =
     (if sector < 0x01000000
      then write_ports p base (lba28_registers sector n (if direction = IDE_DMA_READ then 0xC8 else 0xCA))
      else write_ports p base (lba48_registers sector n (if direction = IDE_DMA_READ then 0x25 else 0x35)))"

definition ata_send_lba28_flush_command :: "'h ports \<Rightarrow> u16 \<Rightarrow> 'h \<Rightarrow> 'h" where
  "ata_send_lba28_flush_command p base = write_ports p base [(2, 0), (3, 0), (4, 0), (5, 0), (7, 0xE7)]"

definition ata_send_lba48_flush_command :: "'h ports \<Rightarrow> u16 \<Rightarrow> 'h \<Rightarrow> 'h" where
  "ata_send_lba48_flush_command p base = write_ports p base [(2, 0), (3, 0), (4, 0), (5, 0), (7, 0xEA)]"

definition ide_send_identify_command :: "'h ports \<Rightarrow> u16 \<Rightarrow> 'h \<Rightarrow> 'h" where
  "ide_send_identify_command p base = write_ports p base [(2, 0), (3, 0), (4, 0), (5, 0), (7, 0xEC)]"

section \<open>The controller\<close>

datatype ide_status = IDE_DATA_READY | IDE_ERROR | IDE_TIMEOUT | IDE_COMMAND_COMPLETED

text \<open>\<open>timeout_thread\<close>: there is one; \<open>waiting_thread_blocked\<close>: the thread that sent the command is blocked.\<close>

record ide_controller =
  ide_base :: u16
  ide_control :: u16
  ide_dma :: u16
  ide_mutex :: u32
  interrupt_expected :: bool
  timeout_thread :: bool
  waiting_thread_blocked :: bool
  ide_transfer_status :: ide_status
  number_of_iht_function_calls :: u32
  number_of_expected_iht_function_calls :: u32
  max_number_of_expected_iht_function_calls :: u32

record 'h transfer =
  tr_controller :: ide_controller
  tr_arguments :: pio_arguments
  tr_statuses :: "transfer_status list"
  tr_memory :: mem
  tr_hardware :: 'h

definition on_controller :: "(ide_controller \<Rightarrow> ide_controller) \<Rightarrow> 'h transfer \<Rightarrow> 'h transfer" where
  "on_controller f x = x\<lparr>tr_controller := f (tr_controller x)\<rparr>"

text \<open>Reading a port, with the hardware as the state of a transfer.\<close>

definition read_port :: "'h ports \<Rightarrow> u16 \<Rightarrow> 'h transfer \<Rightarrow> u8 \<times> 'h transfer" where
  "read_port p port x = (let (v, h) = inb p port (tr_hardware x) in (v, x\<lparr>tr_hardware := h\<rparr>))"

definition status_of_register :: "u8 \<Rightarrow> ide_status" where
  "status_of_register r =
     (if r AND 0x08 = 0x08 then IDE_DATA_READY else if r AND 0x01 = 0x01 then IDE_ERROR else IDE_COMMAND_COMPLETED)"

definition ide_interrupt_accepted :: "u8 \<Rightarrow> 'h transfer \<Rightarrow> 'h transfer" where
  "ide_interrupt_accepted r = on_controller (\<lambda>c.
     let c = (if status_of_register r = IDE_ERROR
              then c\<lparr>number_of_iht_function_calls := 0, number_of_expected_iht_function_calls := 0,
                max_number_of_expected_iht_function_calls := 0\<rparr> else c);
         c = c\<lparr>ide_transfer_status := status_of_register r, timeout_thread := False, interrupt_expected := False,
           number_of_expected_iht_function_calls :=
             (if number_of_expected_iht_function_calls c < max_number_of_expected_iht_function_calls c
              then number_of_expected_iht_function_calls c + 1 else number_of_expected_iht_function_calls c)\<rparr>
     in if max_number_of_expected_iht_function_calls c = 0 then c\<lparr>waiting_thread_blocked := False\<rparr> else c)"

definition ide_interrupt_handler :: "'h ports \<Rightarrow> 'h transfer \<Rightarrow> 'h transfer" where
  "ide_interrupt_handler p x =
     (let c = tr_controller x; (r, x) = read_port p (ide_control c) x
      in if r AND 0x80 = 0x80 then x
         else let (r, x) = read_port p (ide_base c + 7) x
           in if \<not> interrupt_expected c then x
              else if ide_dma c \<noteq> 0
              then let (fired, x) = read_port p (ide_dma c + 2) x
                in if fired AND 4 = 0 then x else ide_interrupt_accepted r x
              else ide_interrupt_accepted r x)"

partial_function (option) ide_interrupt_handler_thread :: "('h transfer \<Rightarrow> 'h transfer) \<Rightarrow> 'h transfer \<Rightarrow> 'h transfer option" where
  "ide_interrupt_handler_thread iht x =
     (if number_of_iht_function_calls (tr_controller x) < number_of_expected_iht_function_calls (tr_controller x)
      then let x = on_controller (\<lambda>c. c\<lparr>number_of_iht_function_calls := number_of_iht_function_calls c + 1\<rparr>) x
        in if number_of_iht_function_calls (tr_controller x) = max_number_of_expected_iht_function_calls (tr_controller x)
           then ide_interrupt_handler_thread iht
             (on_controller (\<lambda>c. c\<lparr>ide_transfer_status := IDE_COMMAND_COMPLETED, waiting_thread_blocked := False\<rparr>) (iht x))
           else ide_interrupt_handler_thread iht
             (iht (on_controller (\<lambda>c. c\<lparr>interrupt_expected := True, timeout_thread := True\<rparr>) x))
      else Some x)"

definition ide_timeout :: "'h transfer \<Rightarrow> 'h transfer" where
  "ide_timeout = on_controller (\<lambda>c. c\<lparr>interrupt_expected := False, ide_transfer_status := IDE_TIMEOUT, waiting_thread_blocked := False\<rparr>)"

text \<open>
  What happens while the thread that sent the command is blocked: interrupts, after each of which
  the thread of the interrupt runs, and the timeout.
\<close>

partial_function (option) ide_wait_for_end :: "'h ports \<Rightarrow> ('h transfer \<Rightarrow> 'h transfer) \<Rightarrow> 'h transfer \<Rightarrow> 'h transfer option" where
  "ide_wait_for_end p iht x =
     (if \<not> waiting_thread_blocked (tr_controller x) then Some x
      else case next_interrupt p (tr_hardware x) of
        None \<Rightarrow> if timeout_thread (tr_controller x) then ide_wait_for_end p iht (ide_timeout x) else None
      | Some h \<Rightarrow> ide_interrupt_handler_thread iht (ide_interrupt_handler p (x\<lparr>tr_hardware := h\<rparr>)) \<bind> ide_wait_for_end p iht)"

partial_function (option) ide_wait_drive_not_busy :: "'h ports \<Rightarrow> u16 \<Rightarrow> u64 \<Rightarrow> 'h \<Rightarrow> (bool \<times> 'h) option" where
  "ide_wait_drive_not_busy p base timeout h =
     (let (now, h) = get_time p h
      in if 0 < sint (ucast (timeout - now) :: u32)
         then let (r, h) = inb p (base + 7) h in if r AND 0x80 = 0 then Some (True, h) else ide_wait_drive_not_busy p base timeout h
         else Some (False, h))"

definition ide_select_drive :: "'h ports \<Rightarrow> u16 \<Rightarrow> u8 \<Rightarrow> 'h \<Rightarrow> 'h option" where
  "ide_select_drive p base drive h =
     (let (r, h) = inb p (base + 6) h
      in if r = drive then Some h
         else do {
           let (now, h) = get_time p h;
           (_, h) \<leftarrow> ide_wait_drive_not_busy p base (now + 100000) h;
           Some (outb p (base + 6) drive h)
         })"

definition ide_send_read_command :: "'h ports \<Rightarrow> u8 \<Rightarrow> ('h \<Rightarrow> 'h) \<Rightarrow> ('h transfer \<Rightarrow> 'h transfer) \<Rightarrow> u32 \<Rightarrow> 'h transfer \<Rightarrow> 'h transfer option" where
  "ide_send_read_command p drive send_command iht expected_irqs x = do {
     lock \<leftarrow> lock_mutex (ide_mutex (tr_controller x));
     h \<leftarrow> ide_select_drive p (ide_base (tr_controller x)) drive (tr_hardware x);
     let x = on_controller (\<lambda>c. c\<lparr>ide_mutex := lock, interrupt_expected := True, number_of_iht_function_calls := 0,
       number_of_expected_iht_function_calls := 0, max_number_of_expected_iht_function_calls := expected_irqs,
       waiting_thread_blocked := True, timeout_thread := True\<rparr>) x;
     ide_wait_for_end p iht (x\<lparr>tr_hardware := send_command h\<rparr>)
   }"

definition ide_command_processed :: "ide_controller \<Rightarrow> ide_controller" where
  "ide_command_processed c = c\<lparr>ide_mutex := unlock_mutex (ide_mutex c)\<rparr>"

definition ide_dump_status :: "'h ports \<Rightarrow> u16 \<Rightarrow> 'h \<Rightarrow> 'h" where
  "ide_dump_status p base h = (let (r, h) = inb p (base + 7) h in if r AND 0x01 = 0x01 then snd (inb p (base + 1) h) else h)"

section \<open>The hard disk\<close>

record pata =
  pata_size_of_sector :: u32
  max_number_of_sectors_per_one_request :: u32
  pata_dma :: u16
  pata_drive :: u8

fun read_words :: "'h ports \<Rightarrow> u16 \<Rightarrow> nat \<Rightarrow> u32 \<Rightarrow> mem \<Rightarrow> 'h \<Rightarrow> u32 \<times> mem \<times> 'h" where
  "read_words p base 0 buffer m h = (buffer, m, h)"
| "read_words p base (Suc n) buffer m h =
     (let (v, h) = inw p base h
      in read_words p base n (buffer + 2) (m(buffer := ucast (v AND 0xFF), buffer + 1 := ucast (drop_bit 8 v AND 0xFF))) h)"

definition pata_read_sector :: "'h ports \<Rightarrow> 'h transfer \<Rightarrow> 'h transfer" where
  "pata_read_sector p x =
     (let args = tr_arguments x;
          (buffer, m, h) = read_words p (pio_base args) (unat (pio_words_of_sector args)) (pio_buffer args) (tr_memory x) (tr_hardware x)
      in x\<lparr>tr_arguments := args\<lparr>pio_buffer := buffer\<rparr>, tr_memory := m, tr_hardware := h,
        tr_statuses := set_storage_transfer_status STORAGE_TRANSFER_RUNNING (ucast (pio_words_of_sector args) * 2) (tr_statuses x)\<rparr>)"

definition pata_pio_read :: "'h ports \<Rightarrow> pata \<Rightarrow> u64 \<Rightarrow> u32 \<Rightarrow> u32 \<Rightarrow> (ide_controller \<times> 'h) io
    \<Rightarrow> (bool \<times> (ide_controller \<times> 'h) io) option" where
  "pata_pio_read p disk lba n buffer = (\<lambda>(st, m, c, h). do {
     let args = \<lparr>pio_base = ide_base c, pio_sector = lba,
       pio_number_of_sectors = (if n = max_number_of_sectors_per_one_request disk then 0 else ucast n),
       pio_words_of_sector = ucast (pata_size_of_sector disk div 2), pio_buffer = buffer\<rparr>;
     x \<leftarrow> ide_send_read_command p (pata_drive disk) (ata_send_pio_read_command p args) (pata_read_sector p) n
       \<lparr>tr_controller = c, tr_arguments = args, tr_statuses = st, tr_memory = m, tr_hardware = h\<rparr>;
     let c = tr_controller x;
     let end_with = (\<lambda>ok c h. Some (ok, tr_statuses x, tr_memory x, c, h));
     case ide_transfer_status c of
       IDE_COMMAND_COMPLETED \<Rightarrow> end_with True (ide_command_processed c) (tr_hardware x)
     | IDE_TIMEOUT \<Rightarrow> end_with False (ide_command_processed c) (tr_hardware x)
     | IDE_ERROR \<Rightarrow> end_with False (ide_command_processed c) (ide_dump_status p (ide_base c) (tr_hardware x))
     | IDE_DATA_READY \<Rightarrow> end_with False c (tr_hardware x)
   })"

text \<open>\<open>dma_read\<close> stands for \<open>pata_dma_transfer\<close>, which a disk with DMA uses.\<close>

definition pata_read_wrapper :: "(u64 \<Rightarrow> u32 \<Rightarrow> u32 \<Rightarrow> (ide_controller \<times> 'h) io \<Rightarrow> (bool \<times> (ide_controller \<times> 'h) io) option)
    \<Rightarrow> 'h ports \<Rightarrow> pata \<Rightarrow> (ide_controller \<times> 'h) sector_function" where
  "pata_read_wrapper dma_read p disk =
     pata_wrapper (if pata_dma disk = 0 then pata_pio_read p disk else dma_read)
       (max_number_of_sectors_per_one_request disk) (pata_size_of_sector disk)"

end
