(* ===== verification/Storage_Proofs.thy ===== *)
theory Storage_Proofs
  imports Storage
begin

text \<open>
  What the transfers do on a device that does as it is told: every request that is read is correct, every
  request of at most two sectors is written correctly, and how longer requests that do not begin or end at a
  sector destroy memory and lose the last bytes. The contents of a device are a function from the number
  of the byte.
\<close>

section \<open>The contract of a device\<close>

definition load_bytes :: "mem \<Rightarrow> u32 \<Rightarrow> u32 \<Rightarrow> (nat \<Rightarrow> u8) \<Rightarrow> nat \<Rightarrow> mem" where
  "load_bytes m buf len d pos = (\<lambda>a. if inside buf len a then d (pos + unat (a - buf)) else m a)"

definition store_bytes :: "(nat \<Rightarrow> u8) \<Rightarrow> nat \<Rightarrow> u32 \<Rightarrow> mem \<Rightarrow> u32 \<Rightarrow> nat \<Rightarrow> u8" where
  "store_bytes d pos len m buf = (\<lambda>p. if pos \<le> p \<and> p < pos + unat len then m (buf + of_nat (p - pos)) else d p)"

definition done_status :: "transfer_status list \<Rightarrow> transfer_status list \<Rightarrow> bool" where
  "done_status st st' \<longleftrightarrow> map slot st' = map slot st \<and> (\<forall>s \<in> set st'. status s = STORAGE_TRANSFER_FINISHED)"

definition reads_device :: "(nat \<Rightarrow> u8) sector_function \<Rightarrow> u32 \<Rightarrow> bool" where
  "reads_device read ss \<longleftrightarrow> (\<forall>lba n buf st m d. 0 < n \<and> unat n * unat ss < 4294967296
     \<and> unat lba + unat n \<le> 18446744073709551616 \<longrightarrow>
     (\<exists>st'. read lba n buf (st, m, d) = Some (st', load_bytes m buf (n * ss) d (unat lba * unat ss), d) \<and> done_status st st'))"

definition writes_device :: "(nat \<Rightarrow> u8) sector_function \<Rightarrow> u32 \<Rightarrow> bool" where
  "writes_device write ss \<longleftrightarrow> (\<forall>lba n buf st m d. 0 < n \<and> unat n * unat ss < 4294967296
     \<and> unat lba + unat n \<le> 18446744073709551616 \<longrightarrow>
     (\<exists>st'. write lba n buf (st, m, d) = Some (st', m, store_bytes d (unat lba * unat ss) (n * ss) m buf) \<and> done_status st st'))"

text \<open>
  The contract of a driver that reads from hardware: in the states that are \<open>ok\<close> it delivers the
  contents \<open>d\<close> of the sectors below \<open>bound\<close>, at most \<open>most\<close> of them at a time, and is \<open>ok\<close> again.
\<close>

definition reads_on :: "('h \<Rightarrow> bool) \<Rightarrow> (nat \<Rightarrow> u8) \<Rightarrow> nat \<Rightarrow> nat \<Rightarrow> 'h sector_function \<Rightarrow> u32 \<Rightarrow> bool" where
  "reads_on ok d bound most read ss \<longleftrightarrow> (\<forall>lba n buf st m h. ok h \<and> 0 < n \<and> unat n \<le> most \<and> unat n * unat ss < 4294967296
     \<and> unat lba + unat n \<le> bound \<longrightarrow>
     (\<exists>st' h'. read lba n buf (st, m, h) = Some (st', load_bytes m buf (n * ss) d (unat lba * unat ss), h')
       \<and> done_status st st' \<and> ok h'))"

lemma done_status_trans: "done_status a b \<Longrightarrow> done_status b c \<Longrightarrow> done_status a c"
  by (simp add: done_status_def)

lemma done_status_own: "done_status (set_own_status x st) st' \<Longrightarrow> done_status st st'"
  by (cases st) (simp_all add: done_status_def)

section \<open>Requests as natural numbers\<close>

text \<open>A request: \<open>f\<close> is its first sector, \<open>e\<close> the number of sectors behind it, \<open>k\<close> the bytes skipped in the first and \<open>r\<close> those used in the last.\<close>

definition request :: "u32 \<Rightarrow> u64 \<Rightarrow> u32 \<Rightarrow> nat \<Rightarrow> nat \<Rightarrow> nat \<Rightarrow> nat \<Rightarrow> bool" where
  "request ss offset sz f e k r \<longleftrightarrow> unat offset = f * unat ss + k \<and> k < unat ss \<and> 1 \<le> r \<and> r \<le> unat ss
     \<and> unat offset + unat sz = (f + e) * unat ss + r \<and> unat offset + unat sz < 18446744073709551616 \<and> 1 < unat ss \<and> 0 < unat sz"

lemma request_exists:
  assumes "1 < ss" "0 < sz" "unat offset + unat sz < 18446744073709551616"
  obtains f e k r where "request ss offset sz f e k r"
proof
  let ?S = "unat ss" and ?f = "unat offset div unat ss" and ?l = "(unat offset + unat sz - 1) div unat ss"
  have S: "1 < ?S" "0 < unat sz" using assms(1,2) by (simp_all add: word_less_nat_alt)
  have "?f \<le> ?l" using S by (intro div_le_mono) simp
  then show "request ss offset sz ?f (?l - ?f) (unat offset mod ?S) ((unat offset + unat sz - 1) mod ?S + 1)"
    using S assms(3) div_mult_mod_eq [of "unat offset" ?S] div_mult_mod_eq [of "unat offset + unat sz - 1" ?S]
      mod_less_divisor [of ?S "unat offset + unat sz - 1"]
    by (simp add: request_def Suc_leI)
qed

lemma request_facts:
  assumes "request ss offset sz f e k r"
  shows "unat sz = e * unat ss + r - k" "k \<le> e * unat ss + r" "e < 2147483648" "k < 4294967296" "r < 4294967296"
    "(f + e) * unat ss < 18446744073709551616" "f + e < 9223372036854775808"
proof -
  let ?S = "unat ss"
  have distr: "(f + e) * ?S = f * ?S + e * ?S" by (simp add: add_mult_distrib)
  show sz: "unat sz = e * ?S + r - k" and "k \<le> e * ?S + r" using assms distr unfolding request_def by linarith+
  have S: "?S < 4294967296" by (rule unat_less_4G)
  then show "k < 4294967296" using assms unfolding request_def by linarith
  have "e * ?S + 2 \<le> unat sz + ?S" using assms distr unfolding request_def by linarith
  show "r < 4294967296"
  proof (cases "r = ?S")
    case False
    then show ?thesis using S assms unfolding request_def by linarith
  qed (use S in simp)
  show "(f + e) * ?S < 18446744073709551616" using assms unfolding request_def by linarith
  moreover have "2 \<le> ?S" using assms unfolding request_def by linarith
  then have "(f + e) * 2 \<le> (f + e) * ?S" by (rule mult_le_mono2)
  ultimately have "(f + e) * 2 < 18446744073709551616" by (rule le_less_trans [rotated])
  then show "f + e < 9223372036854775808" by simp
  have "2 \<le> ?S" using assms unfolding request_def by linarith
  have "e * ?S < 4294967296 + ?S" using \<open>e * ?S + 2 \<le> unat sz + ?S\<close> unat_less_4G [of sz] by linarith
  show "e < 2147483648"
  proof (rule ccontr)
    assume "\<not> e < 2147483648"
    then have "2147483648 * ?S \<le> e * ?S" by simp
    then have "2147483647 * ?S < 4294967296" using \<open>e * ?S < 4294967296 + ?S\<close> by linarith
    then have "?S \<le> 2" using \<open>2 \<le> ?S\<close> by linarith
    then have "?S = 2" using \<open>2 \<le> ?S\<close> by linarith
    then have "e * 2 + 2 \<le> unat sz + 2" using \<open>e * ?S + 2 \<le> unat sz + ?S\<close> by simp
    then show False using unat_less_4G [of sz] \<open>\<not> e < 2147483648\<close> by linarith
  qed
qed

lemma request_words:
  assumes "request ss offset sz f e k r"
  shows "unat (first_sector_of ss offset) = f" "unat (skip_bytes_of ss offset) = k"
    "unat (last_sector_of ss offset sz) = f + e" "unat (last_bytes_of ss offset sz) = r"
    "sectors_of ss offset sz = of_nat (Suc e)"
proof -
  let ?S = "unat ss"
  note f = request_facts [OF assms]
  have S: "0 < ?S" using assms by (simp add: request_def)
  have up: "unat (ucast w :: u64) = unat w" for w :: u32 by (simp add: unsigned_ucast_eq unsigned_take_bit_eq, rule take_bit_nat_eq_self, rule less_le_trans [OF unat_less_4G], simp)
  have div1: "(f * ?S + k) div ?S = f" using assms by (simp add: request_def)
  show first: "unat (first_sector_of ss offset) = f"
    using div1 assms by (simp add: first_sector_of_def unat_div up request_def)
  have sum: "unat (offset + ucast sz) = unat offset + unat sz"
    using assms by (simp add: unat_word_ariths up request_def)
  have "0 < unat sz" using assms unfolding request_def by linarith
  then have "unat (offset + ucast sz - 1) = unat offset + unat sz - 1"
    using sum by (subst unat_sub) (simp_all add: word_le_nat_alt sum)
  moreover have "(unat offset + unat sz - 1) = (r - 1) + (f + e) * ?S" "r - 1 < ?S"
    using assms S unfolding request_def by linarith+
  ultimately show last: "unat (last_sector_of ss offset sz) = f + e"
    using S by (simp add: last_sector_of_def unat_div up)
  have prod: "unat (first_sector_of ss offset * ucast ss) = f * ?S" "unat (last_sector_of ss offset sz * ucast ss) = (f + e) * ?S"
    using f(6) by (simp_all add: unat_word_ariths up first last add_mult_distrib)
  have "unat (offset - first_sector_of ss offset * ucast ss) = k"
    using assms prod(1) by (subst unat_sub) (simp_all add: word_le_nat_alt request_def)
  then show "unat (skip_bytes_of ss offset) = k"
    using f(4) by (simp add: skip_bytes_of_def unsigned_ucast_eq unsigned_take_bit_eq take_bit_nat_eq_self)
  have "(f + e) * ?S \<le> unat offset + unat sz" "unat offset + unat sz - (f + e) * ?S = r"
    using assms unfolding request_def by linarith+
  then have "unat ((offset + ucast sz) - last_sector_of ss offset sz * ucast ss) = r"
    by (subst unat_sub) (simp_all only: word_le_nat_alt prod(2) sum)
  then show "unat (last_bytes_of ss offset sz) = r"
    using f(5) by (simp add: last_bytes_of_def unsigned_ucast_eq unsigned_take_bit_eq take_bit_nat_eq_self)
  have "last_sector_of ss offset sz - first_sector_of ss offset + 1 = of_nat (Suc e)"
    using first last by (intro word_unat_eq_iff [THEN iffD2])
      (use f(3,7) in \<open>simp add: unat_word_ariths word_le_nat_alt unat_sub unat_of_nat\<close>)
  then show "sectors_of ss offset sz = of_nat (Suc e)"
    using f(3) by (simp add: sectors_of_def unsigned_of_nat take_bit_nat_eq_self del: of_nat_Suc)
qed

definition aligned_from :: "nat \<Rightarrow> nat \<Rightarrow> nat" where
  "aligned_from S k = (if k = 0 then 0 else S - k)"

definition aligned_count :: "nat \<Rightarrow> nat \<Rightarrow> nat \<Rightarrow> nat \<Rightarrow> nat" where
  "aligned_count S e k r = e - 1 + (if k = 0 then 1 else 0) + (if r = S then 1 else 0)"

lemma request_zero:
  assumes "request ss offset sz f e k r"
  shows "skip_bytes_of ss offset = 0 \<longleftrightarrow> k = 0" "last_bytes_of ss offset sz = ss \<longleftrightarrow> r = unat ss"
    "last_bytes_of ss offset sz < ss \<longleftrightarrow> r < unat ss" "skip_bytes_of ss offset > 0 \<longleftrightarrow> k > 0"
  using request_words(2,4) [OF assms] by (auto simp: word_less_nat_alt unat_eq_zero word_unat_eq_iff)

lemma aligned_part_request:
  assumes r: "request ss offset sz f e k r" and "2 \<le> e"
  obtains fa where "aligned_part ss offset sz buffer = (fa, of_nat (aligned_count (unat ss) e k r), buffer + of_nat (aligned_from (unat ss) k))"
    "unat fa * unat ss = unat offset + aligned_from (unat ss) k"
    "unat fa + unat (of_nat (aligned_count (unat ss) e k r) :: u32) \<le> 18446744073709551616"
proof
  let ?S = "unat ss" and ?fa = "first_sector_of ss offset + (if k = 0 then 0 else 1)"
  note w = request_words [OF r] request_zero [OF r] and f = request_facts [OF r]
  have k: "k < ?S" "unat offset = f * ?S + k" using r by (simp_all add: request_def)
  have skip: "skip_bytes_of ss offset = of_nat k" by (simp flip: w(2))
  have count: "(of_nat (Suc e) :: u32) - 2 = of_nat (e - 1)" using assms(2) by (simp add: of_nat_diff)
  have at: "buffer - of_nat k + ss = buffer + of_nat (?S - k)" using k(1) by (simp add: of_nat_diff)
  show "aligned_part ss offset sz buffer = (?fa, of_nat (aligned_count ?S e k r), buffer + of_nat (aligned_from ?S k))"
    using w(5,6,7) by (auto simp: aligned_part_def Let_def skip count at aligned_count_def aligned_from_def simp del: of_nat_Suc) simp_all
  have "unat (first_sector_of ss offset + 1) = f + 1" using w(1) f(7) by (simp add: unat_word_ariths)
  then show "unat ?fa * ?S = unat offset + aligned_from ?S k" using w(1) k by (simp add: aligned_from_def)
  have "unat (of_nat (aligned_count ?S e k r) :: u32) < 4294967296" by (rule unat_less_4G)
  moreover have "unat ?fa \<le> f + 1" using w(1) \<open>unat (first_sector_of ss offset + 1) = f + 1\<close> by simp
  ultimately show "unat ?fa + unat (of_nat (aligned_count ?S e k r) :: u32) \<le> 18446744073709551616" using f(7) by linarith
qed

lemma aligned_end:
  assumes r: "request ss offset sz f e k r" and "2 \<le> e"
  shows "aligned_from (unat ss) k + aligned_count (unat ss) e k r * unat ss = (if r = unat ss then unat sz else unat sz - r)"
    "0 < aligned_count (unat ss) e k r" "r \<le> unat sz" "unat ss - k \<le> unat sz"
proof -
  let ?S = "unat ss"
  obtain j where j: "e = Suc (Suc j)" using assms(2) by (metis add_2_eq_Suc le_Suc_ex)
  have sz: "unat sz + k = e * ?S + r" "k < ?S" "r \<le> ?S" using request_facts(1,2) [OF r] r by (simp_all add: request_def)
  then show "aligned_from ?S k + aligned_count ?S e k r * ?S = (if r = ?S then unat sz else unat sz - r)"
    by (auto simp: j aligned_from_def aligned_count_def)
  show "0 < aligned_count ?S e k r" "r \<le> unat sz" "unat ss - k \<le> unat sz" using sz by (auto simp: j aligned_count_def)
qed

lemma aligned_words:
  assumes r: "request ss offset sz f e k r" and "2 \<le> e"
  shows "0 < (of_nat (aligned_count (unat ss) e k r) :: u32)"
    "unat (of_nat (aligned_count (unat ss) e k r) :: u32) * unat ss < 4294967296"
    "unat (of_nat (aligned_count (unat ss) e k r) * ss) = aligned_count (unat ss) e k r * unat ss"
    "aligned_count (unat ss) e k r * unat ss \<le> unat sz" "0 < aligned_count (unat ss) e k r * unat ss"
proof -
  let ?c = "aligned_count (unat ss) e k r"
  show cS: "?c * unat ss \<le> unat sz" using aligned_end(1) [OF assms] by (auto split: if_splits)
  have "?c \<le> ?c * unat ss" using r by (simp add: request_def)
  then have "?c \<le> unat sz" using cS by (rule le_trans)
  then have c: "?c < 4294967296" "?c * unat ss < 4294967296"
    using cS le_less_trans [OF _ unat_less_4G] by blast+
  then show "unat (of_nat ?c :: u32) * unat ss < 4294967296" "unat (of_nat ?c * ss) = ?c * unat ss"
    by (simp_all add: unat_word_ariths unat_of_nat32)
  show "0 < (of_nat ?c :: u32)" using c(1) aligned_end(2) [OF assms] by (simp add: word_less_nat_alt unat_of_nat32)
  show "0 < ?c * unat ss" using aligned_end(2) [OF assms] r by (simp add: request_def)
qed

section \<open>Memory of a transfer\<close>

text \<open>The buffer of the caller and the buffer of the slot, both without a wrap and apart.\<close>

definition buffers :: "u32 \<Rightarrow> u32 \<Rightarrow> u32 \<Rightarrow> u32 \<Rightarrow> bool" where
  "buffers ss two sz buffer \<longleftrightarrow> unat buffer + unat sz \<le> 4294967296 \<and> unat two + 2 * unat ss \<le> 4294967296 \<and> 2 * unat ss < 4294967296
     \<and> (unat buffer + unat sz \<le> unat two \<or> unat two + 2 * unat ss \<le> unat buffer)"

lemma buffer_address: "buffers ss two sz buffer \<Longrightarrow> i < unat sz \<Longrightarrow> unat (buffer + of_nat i) = unat buffer + i"
  by (subst unat_add_small) (auto simp: buffers_def unat_of_nat32)

lemma two_address: "buffers ss two sz buffer \<Longrightarrow> i < 2 * unat ss \<Longrightarrow> unat (two + of_nat i) = unat two + i"
  by (subst unat_add_small) (auto simp: buffers_def unat_of_nat32)

text \<open>Sectors loaded into a part of the buffer.\<close>

lemma load_part:
  assumes "buffers ss two sz buffer" "i < unat sz" "j + unat len \<le> unat sz" "0 < unat len"
  shows "load_bytes m (buffer + of_nat j) len d pos (buffer + of_nat i)
    = (if j \<le> i \<and> i < j + unat len then d (pos + (i - j)) else m (buffer + of_nat i))"
proof -
  have a: "unat (buffer + of_nat i) = unat buffer + i" "unat (buffer + of_nat j) = unat buffer + j"
    using assms by (simp_all add: buffer_address)
  have "inside (buffer + of_nat j) len (buffer + of_nat i) \<longleftrightarrow> j \<le> i \<and> i < j + unat len"
    using assms(1,3) a by (subst inside_unat) (auto simp: buffers_def)
  moreover have "unat ((buffer + of_nat i) - (buffer + of_nat j)) = i - j" if "j \<le> i"
    using that a by (subst unat_sub) (simp_all add: word_le_nat_alt)
  ultimately show ?thesis by (simp add: load_bytes_def)
qed

text \<open>Sectors loaded into the slot and a part of them copied to the buffer.\<close>

lemma bounce_part:
  assumes b: "buffers ss two sz buffer" and "i < unat sz" "j + unat n \<le> unat sz" "0 < unat n"
    and "unat len \<le> 2 * unat ss" "i - j + t < unat len \<or> \<not> (j \<le> i \<and> i < j + unat n)" "t < unat ss"
  shows "mem_copy (load_bytes m two len d pos) (buffer + of_nat j) (two + of_nat t) n (buffer + of_nat i)
    = (if j \<le> i \<and> i < j + unat n then d (pos + t + (i - j)) else m (buffer + of_nat i))"
proof -
  have a: "unat (buffer + of_nat i) = unat buffer + i" "unat (buffer + of_nat j) = unat buffer + j"
    using assms by (simp_all add: buffer_address)
  have "inside (buffer + of_nat j) n (buffer + of_nat i) \<longleftrightarrow> j \<le> i \<and> i < j + unat n"
    using assms(1,3) a by (subst inside_unat) (auto simp: buffers_def)
  moreover have "(buffer + of_nat i) - (buffer + of_nat j) = of_nat (i - j)" if "j \<le> i"
    using that by (simp add: of_nat_diff)
  moreover have "load_bytes m two len d pos (two + of_nat t + of_nat (i - j)) = d (pos + t + (i - j))" if "i - j + t < unat len"
  proof -
    have u: "unat (two + of_nat (t + (i - j))) = unat two + (t + (i - j))" using that assms(5) by (intro two_address [OF b]) simp
    then have "inside two len (two + of_nat (t + (i - j)))"
      using that b assms(5) by (subst inside_unat) (auto simp: buffers_def)
    moreover have "unat (two + of_nat (t + (i - j)) - two) = t + (i - j)" using u by (subst unat_sub) (simp_all add: word_le_nat_alt)
    ultimately show ?thesis by (simp add: load_bytes_def add.assoc)
  qed
  moreover have "load_bytes m two len d pos (buffer + of_nat i) = m (buffer + of_nat i)"
    using b assms(2,5) a by (subst load_bytes_def) (auto simp: inside_unat buffers_def)
  ultimately show ?thesis using assms(6) by (auto simp: mem_copy_def)
qed

lemma number_of_sectors_cases:
  assumes "request ss offset sz f e k r"
  shows "sectors_of ss offset sz = 1 \<longleftrightarrow> e = 0" "sectors_of ss offset sz = 2 \<longleftrightarrow> e = 1"
proof -
  have "unat (sectors_of ss offset sz) = Suc e"
    using request_words(5) [OF assms] request_facts(3) [OF assms] by (simp add: unat_of_nat32 del: of_nat_Suc)
  then show "sectors_of ss offset sz = 1 \<longleftrightarrow> e = 0" "sectors_of ss offset sz = 2 \<longleftrightarrow> e = 1"
    by (auto simp: word_unat_eq_iff)
qed

lemma reads_deviceE:
  assumes "reads_device read ss" "0 < n" "unat n * unat ss < 4294967296" "unat lba + unat n \<le> 18446744073709551616"
  obtains st' where "read lba n buf (st, m, d) = Some (st', load_bytes m buf (n * ss) d (unat lba * unat ss), d)" "done_status st st'"
  using assms unfolding reads_device_def by blast

lemma reads_onE:
  assumes "reads_on ok d bound most read ss" "ok h" "0 < n" "unat n \<le> most" "unat n * unat ss < 4294967296" "unat lba + unat n \<le> bound"
  obtains st' h' where "read lba n buf (st, m, h) = Some (st', load_bytes m buf (n * ss) d (unat lba * unat ss), h')" "done_status st st'" "ok h'"
  using assms unfolding reads_on_def by blast

section \<open>Reading is correct\<close>

text \<open>\<open>filled\<close>: the bytes of the buffer below \<open>a\<close> are those of the device.\<close>

definition filled :: "u32 \<Rightarrow> (nat \<Rightarrow> u8) \<Rightarrow> nat \<Rightarrow> nat \<Rightarrow> mem \<Rightarrow> bool" where
  "filled buffer d pos a m \<longleftrightarrow> (\<forall>i < a. m (buffer + of_nat i) = d (pos + i))"

lemma short_read:
  assumes dev: "reads_on ok d bound most read ss" "ok h" and r: "request ss offset sz f e k r" and b: "buffers ss two sz buffer"
    and e: "e < 2" and n: "n = of_nat (Suc e)"
    and range: "f + Suc e \<le> bound" "Suc e \<le> most"
  shows "\<exists>st' m' h'. (if skip_bytes_of ss offset = 0 \<and> last_bytes_of ss offset sz = ss then read (first_sector_of ss offset) n buffer (st, m, h)
      else map_option (memcpy_io buffer (two + skip_bytes_of ss offset) sz) (read (first_sector_of ss offset) n two (st, m, h)))
    = Some (st', m', h') \<and> done_status st st' \<and> filled buffer d (unat offset) (unat sz) m' \<and> ok h'"
proof -
  let ?S = "unat ss"
  note w = request_words [OF r] request_zero [OF r] and f = request_facts [OF r]
  have q: "k < ?S" "unat offset = f * ?S + k" "0 < unat sz" "unat sz + k = e * ?S + r" "r \<le> ?S" "1 < ?S"
    using r f(1,2) by (simp_all add: request_def)
  have n': "unat n = Suc e" "0 < n" using e n by (auto simp: less_2_cases_iff word_less_nat_alt)
  have small: "unat n * ?S < 4294967296" using e b n'(1) by (auto simp: less_2_cases_iff buffers_def)
  have room: "unat n \<le> most" "unat (first_sector_of ss offset) + unat n \<le> bound" using w(1) range n'(1) by simp_all
  have len: "unat (n * ss) = Suc e * ?S" using n'(1) small by (simp add: unat_word_ariths)
  have two_len: "unat (n * ss) \<le> 2 * ?S" using e len by (auto simp: less_2_cases_iff)
  show ?thesis
  proof (cases "k = 0 \<and> r = ?S")
    case True
    then have "unat sz = unat (n * ss)" using q len by simp
    moreover obtain st' h' where "read (first_sector_of ss offset) n buffer (st, m, h) = Some (st', load_bytes m buffer (n * ss) d (f * ?S), h')" "done_status st st'" "ok h'"
      using reads_onE [OF dev n'(2) room(1) small room(2)] w(1) by metis
    ultimately show ?thesis using True w q load_part [OF b, of _ 0 "n * ss" m d "f * ?S"] by (auto simp: filled_def)
  next
    case False
    obtain st' h' where st: "read (first_sector_of ss offset) n two (st, m, h) = Some (st', load_bytes m two (n * ss) d (f * ?S), h')" "done_status st st'" "ok h'"
      using reads_onE [OF dev n'(2) room(1) small room(2)] w(1) by metis
    have skip: "skip_bytes_of ss offset = of_nat k" by (simp flip: w(2))
    have "mem_copy (load_bytes m two (n * ss) d (f * ?S)) (buffer + of_nat 0) (two + of_nat k) sz (buffer + of_nat i) = d (unat offset + i)"
      if "i < unat sz" for i
      using that q len two_len by (subst bounce_part [OF b]) (auto simp: add.assoc)
    then show ?thesis using False st w by (auto simp: filled_def memcpy_io_def skip)
  qed
qed

lemma sz_is_sector:
  assumes "request ss offset sz f 0 k r" "skip_bytes_of ss offset = 0"
  shows "sz = ss \<longleftrightarrow> last_bytes_of ss offset sz = ss"
proof -
  have "k = 0" "unat sz = r - k" using assms request_facts(1) [OF assms(1)] request_zero(1) [OF assms(1)] by simp_all
  then show ?thesis using request_zero(2) [OF assms(1)] by (auto simp: word_unat_eq_iff)
qed

text \<open>The three steps of a longer request. The garbage that the first copies behind its sector is overwritten.\<close>

lemma long_read_first:
  assumes dev: "reads_on ok d bound most read ss" "ok h" and r: "request ss offset sz f e k r" and b: "buffers ss two sz buffer" and e: "2 \<le> e"
    and range: "f + Suc e \<le> bound" "Suc e \<le> most"
  shows "\<exists>st' m' h'. (if skip_bytes_of ss offset > 0 then map_option (memcpy_io buffer (two + skip_bytes_of ss offset) sz)
      (read (first_sector_of ss offset) 1 two (st, m, h)) else Some (st, m, h)) = Some (st', m', h')
    \<and> map slot st' = map slot st \<and> filled buffer d (unat offset) (aligned_from (unat ss) k) m' \<and> ok h'"
proof (cases "k = 0")
  case True
  then show ?thesis using request_zero(1) [OF r] dev(2) by (simp add: aligned_from_def filled_def)
next
  case False
  note w = request_words [OF r] request_zero [OF r]
  have q: "k < unat ss" "unat offset = f * unat ss + k" "0 < unat sz" "unat ss - k \<le> unat sz"
    using r aligned_end(4) [OF r e] by (simp_all add: request_def)
  obtain st' h' where st: "read (first_sector_of ss offset) 1 two (st, m, h) = Some (st', load_bytes m two (1 * ss) d (f * unat ss), h')" "done_status st st'" "ok h'"
    using reads_onE [OF dev, of 1 "first_sector_of ss offset" two st m] w(1) unat_less_4G [of ss] range by auto
  have skip: "skip_bytes_of ss offset = of_nat k" by (simp flip: w(2))
  have "mem_copy (load_bytes m two ss d (f * unat ss)) (buffer + of_nat 0) (two + of_nat k) sz (buffer + of_nat i) = d (unat offset + i)"
    if "i < unat ss - k" for i
    using that q by (subst bounce_part [OF b]) (auto simp: add.assoc)
  then show ?thesis using False st w(9) by (auto simp: filled_def memcpy_io_def skip aligned_from_def done_status_def)
qed

lemma filled_more:
  assumes "filled buffer d pos a m" "\<And>i. i < a \<Longrightarrow> m' (buffer + of_nat i) = m (buffer + of_nat i)"
    "\<And>i. a \<le> i \<Longrightarrow> i < c \<Longrightarrow> m' (buffer + of_nat i) = d (pos + i)"
  shows "filled buffer d pos c m'"
  using assms unfolding filled_def by (metis not_le)

lemma long_read:
  assumes dev: "reads_on ok d bound most read ss" "ok h" and r: "request ss offset sz f e k r" and b: "buffers ss two sz buffer" and e: "2 \<le> e"
    and range: "f + Suc e \<le> bound" "Suc e \<le> most"
  shows "\<exists>st' m' h'. read_sectors read ss two offset sz buffer (st, m, h) = Some (st', m', h') \<and> done_status st st'
    \<and> filled buffer d (unat offset) (unat sz) m' \<and> ok h'"
proof -
  let ?S = "unat ss" and ?j = "aligned_from (unat ss) k" and ?c = "aligned_count (unat ss) e k r"
  note w = request_words [OF r] request_zero [OF r] and n = number_of_sectors_cases [OF r] and al = aligned_end [OF r e]
  have q: "r \<le> ?S" "unat offset + unat sz = (f + e) * ?S + r" "1 \<le> r" using r by (simp_all add: request_def)
  obtain st1 m1 h1 where 1: "(if skip_bytes_of ss offset > 0 then map_option (memcpy_io buffer (two + skip_bytes_of ss offset) sz)
      (read (first_sector_of ss offset) 1 two (st, m, h)) else Some (st, m, h)) = Some (st1, m1, h1)"
    "map slot st1 = map slot st" "filled buffer d (unat offset) ?j m1" "ok h1"
    using long_read_first [OF dev r b e range] by blast
  obtain fa where fa: "aligned_part ss offset sz buffer = (fa, of_nat ?c, buffer + of_nat ?j)" "unat fa * ?S = unat offset + ?j"
    "unat fa + unat (of_nat ?c :: u32) \<le> 18446744073709551616"
    using aligned_part_request [OF r e, of buffer] by metis
  have end_of: "?j + ?c * ?S = (if r = ?S then unat sz else unat sz - r)" by (rule al(1))
  note aw = aligned_words [OF r e]
  have fac: "f \<le> unat fa" "unat fa + ?c \<le> f + Suc e"
  proof -
    have S: "0 < ?S" "unat offset = f * ?S + k" using r by (auto simp: request_def)
    have "f * ?S \<le> unat fa * ?S" using fa(2) S(2) by simp
    then show "f \<le> unat fa" using S(1) by simp
    have "(unat fa + ?c) * ?S = unat offset + (?j + ?c * ?S)" using fa(2) by (simp add: add_mult_distrib)
    also have "\<dots> \<le> unat offset + unat sz" using end_of by simp
    also have "\<dots> \<le> (f + Suc e) * ?S" using q(1,2) by simp
    finally have "(unat fa + ?c) * ?S \<le> (f + Suc e) * ?S" .
    then show "unat fa + ?c \<le> f + Suc e" using S(1) by (simp only: mult_le_cancel2)
  qed
  have c_word: "unat (of_nat ?c :: u32) = ?c"
    using fac range(2) request_facts(3) [OF r] by (intro unat_of_nat32) linarith
  define m2 where "m2 = load_bytes m1 (buffer + of_nat ?j) (of_nat ?c * ss) d (unat offset + ?j)"
  have fac_range: "unat (of_nat ?c :: u32) \<le> most" "unat fa + unat (of_nat ?c :: u32) \<le> bound"
    using fac range by (simp_all add: c_word)
  obtain st2 h2 where 2: "read fa (of_nat ?c) (buffer + of_nat ?j) (st1, m1, h1) = Some (st2, m2, h2)" "done_status st1 st2" "ok h2"
    using reads_onE [OF dev(1) 1(4) aw(1) fac_range(1) aw(2) fac_range(2), of "buffer + of_nat ?j" st1 m1] unfolding m2_def fa(2) by auto
  have in_buffer: "?j + ?c * ?S \<le> unat sz" using end_of by (auto split: if_splits)
  have part: "m2 (buffer + of_nat i) = (if ?j \<le> i \<and> i < ?j + ?c * ?S then d (unat offset + ?j + (i - ?j)) else m1 (buffer + of_nat i))"
    if "i < unat sz" for i
    unfolding m2_def using load_part [OF b that, of ?j "of_nat ?c * ss" m1 d "unat offset + ?j"] in_buffer aw(3,5) by simp
  have filled2: "filled buffer d (unat offset) (?j + ?c * ?S) m2"
  proof (rule filled_more [OF 1(3)])
    show "m2 (buffer + of_nat i) = m1 (buffer + of_nat i)" if "i < ?j" for i using part [of i] that in_buffer by simp
    show "m2 (buffer + of_nat i) = d (unat offset + i)" if "?j \<le> i" "i < ?j + ?c * ?S" for i
      using part [of i] that in_buffer by (simp add: add.assoc)
  qed
  have st2: "done_status st st2" using 1(2) 2(2) by (simp add: done_status_def)
  show ?thesis
  proof (cases "r = ?S")
    case True
    then show ?thesis using n e 1(1) fa(1) 2(1,3) w st2 filled2 end_of by (simp add: read_sectors_def Let_def)
  next
    case False
    obtain st3 h3 where 3: "read (last_sector_of ss offset sz) 1 two (st2, m2, h2) = Some (st3, load_bytes m2 two ss d ((f + e) * ?S), h3)" "done_status st2 st3" "ok h3"
      using reads_onE [OF dev(1) 2(3), of 1 "last_sector_of ss offset sz" two st2 m2] w(3) unat_less_4G [of ss] range by auto
    have r_word: "last_bytes_of ss offset sz = of_nat r" by (simp flip: w(4))
    have at: "buffer + sz - of_nat r = buffer + of_nat (unat sz - r)" using al(3) by (simp add: of_nat_diff)
    have ur: "unat (of_nat r :: u32) = r" using w(4) r_word by simp
    have tail: "mem_copy (load_bytes m2 two ss d ((f + e) * ?S)) (buffer + of_nat (unat sz - r)) (two + of_nat 0) (of_nat r) (buffer + of_nat i)
      = (if unat sz - r \<le> i \<and> i < unat sz - r + r then d ((f + e) * ?S + 0 + (i - (unat sz - r))) else m2 (buffer + of_nat i))"
      if "i < unat sz" for i
      using bounce_part [OF b that, of "unat sz - r" "of_nat r" ss 0 m2 d "(f + e) * ?S"] al(3) ur q that by auto
    have "filled buffer d (unat offset) (unat sz) (mem_copy (load_bytes m2 two ss d ((f + e) * ?S)) (buffer + of_nat (unat sz - r)) two (of_nat r))"
    proof (rule filled_more [OF filled2])
      fix i assume "i < ?j + ?c * ?S"
      then show "mem_copy (load_bytes m2 two ss d ((f + e) * ?S)) (buffer + of_nat (unat sz - r)) two (of_nat r) (buffer + of_nat i) = m2 (buffer + of_nat i)"
        using tail [of i] False end_of by simp
    next
      fix i assume i: "?j + ?c * ?S \<le> i" "i < unat sz"
      then have "(f + e) * ?S + (i - (unat sz - r)) = unat offset + i" using False end_of q(2) al(3) by simp
      then show "mem_copy (load_bytes m2 two ss d ((f + e) * ?S)) (buffer + of_nat (unat sz - r)) two (of_nat r) (buffer + of_nat i) = d (unat offset + i)"
        using tail [of i] i False end_of al(3) by simp
    qed
    then show ?thesis using n e 1(1) fa(1) 2(1) 3(1,3) w(7,8) q(1) False done_status_trans [OF st2 3(2)]
      by (simp add: read_sectors_def Let_def memcpy_io_def r_word at)
  qed
qed

lemma read_sectors_reads:
  assumes "reads_on ok d bound most read ss" "ok h" "1 < ss" "0 < sz" "unat offset + unat sz < 18446744073709551616"
    "buffers ss two sz buffer" "unat (last_sector_of ss offset sz) < bound" "unat (sectors_of ss offset sz) \<le> most"
  shows "\<exists>st' m' h'. read_sectors read ss two offset sz buffer (st, m, h) = Some (st', m', h') \<and> done_status st st'
    \<and> filled buffer d (unat offset) (unat sz) m' \<and> ok h'"
proof -
  obtain f e k r where r: "request ss offset sz f e k r" using request_exists [OF assms(3-5)] .
  have range: "f + Suc e \<le> bound" "Suc e \<le> most"
    using assms(7,8) request_words(3,5) [OF r] request_facts(3) [OF r] by (simp_all add: unat_of_nat32 del: of_nat_Suc)
  consider "e = 0" | "e = 1" | "2 \<le> e" by linarith
  then show ?thesis
  proof cases
    case 1
    have "skip_bytes_of ss offset = 0 \<Longrightarrow> (sz = ss) = (last_bytes_of ss offset sz = ss)"
      using sz_is_sector [of ss offset sz f k r] r 1 by simp
    then show ?thesis using short_read [OF assms(1,2) r assms(6), of 1 st m] range number_of_sectors_cases [OF r] 1
      by (simp add: read_sectors_def Let_def cong: conj_cong)
  next
    case 2
    then show ?thesis using short_read [OF assms(1,2) r assms(6), of 2 st m] range number_of_sectors_cases [OF r]
      by (simp add: read_sectors_def Let_def)
  qed (rule long_read [OF assms(1,2) r assms(6) _ range])
qed

section \<open>Writing\<close>

lemma writes_deviceE:
  assumes "writes_device write ss" "0 < n" "unat n * unat ss < 4294967296" "unat lba + unat n \<le> 18446744073709551616"
  obtains st' where "write lba n buf (st, m, d) = Some (st', m, store_bytes d (unat lba * unat ss) (n * ss) m buf)" "done_status st st'"
  using assms unfolding writes_device_def by blast

definition written :: "(nat \<Rightarrow> u8) \<Rightarrow> nat \<Rightarrow> nat \<Rightarrow> mem \<Rightarrow> u32 \<Rightarrow> nat \<Rightarrow> u8" where
  "written d pos n m buffer = (\<lambda>p. if pos \<le> p \<and> p < pos + n then m (buffer + of_nat (p - pos)) else d p)"

text \<open>Sectors read into the slot, changed there and written back.\<close>

lemma update_slot:
  assumes b: "buffers ss two sz buffer" and len: "k + unat sz \<le> unat len" "unat len \<le> 2 * unat ss" and sz: "0 < unat sz"
  shows "store_bytes d pos len (mem_copy (load_bytes m two len d pos) (two + of_nat k) buffer sz) two
    = written d (pos + k) (unat sz) m buffer"
proof
  fix p
  let ?m = "mem_copy (load_bytes m two len d pos) (two + of_nat k) buffer sz"
  have k: "unat (two + of_nat k) = unat two + k" using two_address [OF b, of k] len sz by simp
  have at: "?m (two + of_nat i) = (if k \<le> i \<and> i < k + unat sz then m (buffer + of_nat (i - k)) else d (pos + i))" if "i < unat len" for i
  proof -
    have i: "unat (two + of_nat i) = unat two + i" using two_address [OF b, of i] len that by simp
    have "inside (two + of_nat k) sz (two + of_nat i) \<longleftrightarrow> k \<le> i \<and> i < k + unat sz"
      using b len k i by (subst inside_unat) (auto simp: buffers_def)
    moreover have "(two + of_nat i) - (two + of_nat k) = of_nat (i - k)" if "k \<le> i" using that by (simp add: of_nat_diff)
    moreover have keep: "load_bytes m two len d pos (buffer + of_nat j) = m (buffer + of_nat j)" if "j < unat sz" for j
      using b len(2) buffer_address [OF b that] that by (subst load_bytes_def) (auto simp: inside_unat buffers_def)
    moreover have "inside two len (two + of_nat i)" "unat (two + of_nat i - two) = i"
      using that b len(2) i unat_less_4G [of len] by (auto simp: inside_unat buffers_def unat_of_nat32)
    then have "load_bytes m two len d pos (two + of_nat i) = d (pos + i)" by (simp add: load_bytes_def)
    ultimately show ?thesis using keep [of "i - k"] by (auto simp: mem_copy_def simp del: of_nat_diff)
  qed
  show "store_bytes d pos len ?m two p = written d (pos + k) (unat sz) m buffer p"
    using at [of "p - pos"] len(1) by (auto simp: store_bytes_def written_def)
qed

lemma short_write:
  assumes dev: "reads_device read ss" "writes_device write ss" and r: "request ss offset sz f e k r" and b: "buffers ss two sz buffer"
    and e: "e < 2" and n: "n = of_nat (Suc e)"
  shows "\<exists>st' m'. (if skip_bytes_of ss offset = 0 \<and> last_bytes_of ss offset sz = ss then write (first_sector_of ss offset) n buffer (st, m, d)
      else do { io \<leftarrow> read (first_sector_of ss offset) n two (st, m, d);
        write (first_sector_of ss offset) n two (memcpy_io (two + skip_bytes_of ss offset) buffer sz io) })
    = Some (st', m', written d (unat offset) (unat sz) m buffer) \<and> done_status st st'"
proof -
  let ?S = "unat ss"
  note w = request_words [OF r] request_zero [OF r] and f = request_facts [OF r]
  have q: "k < ?S" "unat offset = f * ?S + k" "0 < unat sz" "unat sz + k = e * ?S + r" "r \<le> ?S"
    using r f(1,2) by (simp_all add: request_def)
  have n': "unat n = Suc e" "0 < n" using e n by (auto simp: less_2_cases_iff word_less_nat_alt)
  have small: "unat n * ?S < 4294967296" using e b n'(1) by (auto simp: less_2_cases_iff buffers_def)
  have room: "unat (first_sector_of ss offset) + unat n \<le> 18446744073709551616" using w(1) f(7) n'(1) by simp
  have len: "unat (n * ss) = Suc e * ?S" using n'(1) small by (simp add: unat_word_ariths)
  have two_len: "unat (n * ss) \<le> 2 * ?S" using e len by (auto simp: less_2_cases_iff)
  show ?thesis
  proof (cases "k = 0 \<and> r = ?S")
    case True
    then have "unat sz = unat (n * ss)" using q len by simp
    moreover obtain st' where "write (first_sector_of ss offset) n buffer (st, m, d) = Some (st', m, store_bytes d (f * ?S) (n * ss) m buffer)" "done_status st st'"
      using writes_deviceE [OF dev(2) n'(2) small room] w(1) by metis
    ultimately show ?thesis using True w q by (auto simp: written_def store_bytes_def)
  next
    case False
    obtain st1 where st1: "read (first_sector_of ss offset) n two (st, m, d) = Some (st1, load_bytes m two (n * ss) d (f * ?S), d)" "done_status st st1"
      using reads_deviceE [OF dev(1) n'(2) small room] w(1) by metis
    have skip: "skip_bytes_of ss offset = of_nat k" by (simp flip: w(2))
    let ?m = "mem_copy (load_bytes m two (n * ss) d (f * ?S)) (two + of_nat k) buffer sz"
    obtain st2 where st2: "write (first_sector_of ss offset) n two (st1, ?m, d) = Some (st2, ?m, store_bytes d (f * ?S) (n * ss) ?m two)" "done_status st1 st2"
      using writes_deviceE [OF dev(2) n'(2) small room] w(1) by metis
    have "store_bytes d (f * ?S) (n * ss) ?m two = written d (unat offset) (unat sz) m buffer"
      using q len two_len by (subst update_slot [OF b]) auto
    then show ?thesis using False st1 st2 w done_status_trans [OF st1(2) st2(2)] by (auto simp: memcpy_io_def skip)
  qed
qed

text \<open>
  What a longer request leaves, the last sector being used in part: its bytes stay as they were on the device,
  those of the caller are replaced by them, and with bytes skipped in the first sector memory behind the slot
  is overwritten.
\<close>

lemma long_write:
  assumes dev: "reads_device read ss" "writes_device write ss" and r: "request ss offset sz f e k r" and b: "buffers ss two sz buffer"
    and e: "2 \<le> e" and last: "r < unat ss"
  obtains st' m' d' where "write_sectors read write ss two offset sz buffer (st, m, d) = Some (st', m', d')" "done_status st st'"
    "\<And>i. unat sz - r \<le> i \<Longrightarrow> i < unat sz \<Longrightarrow> d' (unat offset + i) = d (unat offset + i) \<and> m' (buffer + of_nat i) = d (unat offset + i)"
    "\<And>i. 0 < k \<Longrightarrow> 2 * unat ss \<le> i \<Longrightarrow> i < k + unat sz \<Longrightarrow> unat two + k + unat sz \<le> 4294967296 \<Longrightarrow>
      unat buffer + unat sz \<le> unat two \<or> unat two + k + unat sz \<le> unat buffer \<Longrightarrow> m' (two + of_nat i) = m (buffer + of_nat (i - k))"
proof -
  let ?S = "unat ss" and ?j = "aligned_from (unat ss) k" and ?c = "aligned_count (unat ss) e k r" and ?l = "(f + e) * unat ss"
  note w = request_words [OF r] request_zero [OF r] and n = number_of_sectors_cases [OF r] and al = aligned_end [OF r e]
  have q: "unat offset + unat sz = ?l + r" "1 \<le> r" "unat offset = f * ?S + k" "k < ?S" "f * ?S + 2 * ?S \<le> ?l"
    using r e by (auto simp: request_def add_mult_distrib)
  have skip: "skip_bytes_of ss offset = of_nat k" by (simp flip: w(2))
  have one: "(0 :: u32) < 1" "unat (1 :: u32) * ?S < 4294967296" using unat_less_4G [of ss] by simp_all
  define m1 where "m1 = (if k = 0 then m else mem_copy (load_bytes m two ss d (f * ?S)) (two + of_nat k) buffer sz)"
  define d1 where "d1 = (if k = 0 then d else store_bytes d (f * ?S) ss m1 two)"
  have "\<exists>st1. (if skip_bytes_of ss offset > 0 then do { io \<leftarrow> read (first_sector_of ss offset) 1 two (st, m, d);
        write (first_sector_of ss offset) 1 two (memcpy_io (two + skip_bytes_of ss offset) buffer sz io) }
      else Some (st, m, d)) = Some (st1, m1, d1) \<and> map slot st1 = map slot st"
  proof (cases "k = 0")
    case False
    obtain sta where a: "read (first_sector_of ss offset) 1 two (st, m, d) = Some (sta, load_bytes m two ss d (f * ?S), d)" "done_status st sta"
      using reads_deviceE [OF dev(1) one, of "first_sector_of ss offset" two st m d] w(1) request_facts(7) [OF r] by auto
    obtain stb where "write (first_sector_of ss offset) 1 two (sta, m1, d) = Some (stb, m1, d1)" "done_status sta stb"
      using writes_deviceE [OF dev(2) one, of "first_sector_of ss offset" two sta m1 d] w(1) request_facts(7) [OF r] False by (auto simp: d1_def)
    then show ?thesis using a w(9) False by (simp add: memcpy_io_def skip m1_def done_status_def)
  qed (use w(6) d1_def m1_def in simp)
  then obtain st1 where 1: "(if skip_bytes_of ss offset > 0 then do { io \<leftarrow> read (first_sector_of ss offset) 1 two (st, m, d);
        write (first_sector_of ss offset) 1 two (memcpy_io (two + skip_bytes_of ss offset) buffer sz io) }
      else Some (st, m, d)) = Some (st1, m1, d1)" "map slot st1 = map slot st" by blast
  obtain fa where fa: "aligned_part ss offset sz buffer = (fa, of_nat ?c, buffer + of_nat ?j)" "unat fa * ?S = unat offset + ?j"
    "unat fa + unat (of_nat ?c :: u32) \<le> 18446744073709551616"
    using aligned_part_request [OF r e, of buffer] by metis
  have end_of: "?j + ?c * ?S = unat sz - r" using al(1) last by simp
  note aw = aligned_words [OF r e]
  define d2 where "d2 = store_bytes d1 (unat offset + ?j) (of_nat ?c * ss) m1 (buffer + of_nat ?j)"
  obtain st2 where 2: "write fa (of_nat ?c) (buffer + of_nat ?j) (st1, m1, d1) = Some (st2, m1, d2)" "done_status st1 st2"
    using writes_deviceE [OF dev(2) aw(1,2) fa(3), of "buffer + of_nat ?j" st1 m1 d1] unfolding d2_def fa(2) by auto
  have "unat offset + ?j + unat (of_nat ?c * ss) = ?l" using q(1) end_of aw(3) al(3) by linarith
  moreover have "f * ?S + unat ss \<le> ?l" using q(5) by linarith
  ultimately have old: "d2 p = d p" if "?l \<le> p" for p
    using that unfolding d2_def d1_def store_bytes_def by auto
  define m2 where "m2 = load_bytes m1 two ss d2 ?l"
  obtain st3 where 3: "read (last_sector_of ss offset sz) 1 two (st2, m1, d2) = Some (st3, m2, d2)" "done_status st2 st3"
    using reads_deviceE [OF dev(1) one, of "last_sector_of ss offset sz" two st2 m1 d2] w(3) request_facts(7) [OF r] by (auto simp: m2_def)
  have r_word: "last_bytes_of ss offset sz = of_nat r" "unat (of_nat r :: u32) = r" by (simp_all flip: w(4))
  have at: "buffer + sz - of_nat r = buffer + of_nat (unat sz - r)" using al(3) by (simp add: of_nat_diff)
  define m3 where "m3 = mem_copy m2 (buffer + of_nat (unat sz - r)) two (of_nat r)"
  define d3 where "d3 = store_bytes d2 ?l ss m3 two"
  obtain st4 where 4: "write (last_sector_of ss offset sz) 1 two (st3, m3, d2) = Some (st4, m3, d3)" "done_status st3 st4"
    using writes_deviceE [OF dev(2) one, of "last_sector_of ss offset sz" two st3 m3 d2] w(3) request_facts(7) [OF r] by (auto simp: d3_def)
  have slot_kept: "m3 (two + of_nat i) = m2 (two + of_nat i)" if "unat (two + of_nat i) = unat two + i"
    "unat buffer + unat sz \<le> unat two \<or> unat two + i < unat buffer" for i
  proof -
    have "unat (buffer + of_nat (unat sz - r)) = unat buffer + (unat sz - r)"
      by (rule buffer_address [OF b]) (use q(2) al(3) in simp)
    then have "\<not> inside (buffer + of_nat (unat sz - r)) (of_nat r) (two + of_nat i)"
      using b that al(3) r_word(2) by (subst inside_unat) (auto simp: buffers_def)
    then show ?thesis by (simp add: m3_def mem_copy_def)
  qed
  have slot_last: "m2 (two + of_nat i) = d2 (?l + i)" if "i < ?S" for i
  proof -
    have "unat (two + of_nat i) = unat two + i" using two_address [OF b, of i] that by simp
    then show ?thesis using that b unat_less_4G [of ss] by (auto simp: m2_def load_bytes_def inside_unat buffers_def unat_of_nat32)
  qed
  have device: "d3 p = d p" if "?l \<le> p" for p
  proof (cases "p < ?l + ?S")
    case True
    define i where "i = p - ?l"
    with True that have i: "p = ?l + i" "i < ?S" by simp_all
    have "unat (two + of_nat i) = unat two + i" using two_address [OF b, of i] i(2) by simp
    then have "m3 (two + of_nat i) = d2 p"
      using slot_kept [of i] slot_last [of i] b i by (auto simp: buffers_def)
    then show ?thesis using i old by (simp add: d3_def store_bytes_def)
  qed (use that old in \<open>simp add: d3_def store_bytes_def\<close>)
  have caller: "m3 (buffer + of_nat i) = d (unat offset + i)" if "unat sz - r \<le> i" "i < unat sz" for i
  proof -
    have eq: "?l + (i - (unat sz - r)) = unat offset + i" "?l \<le> unat offset + i" using q(1) al(3) that by linarith+
    have "m3 (buffer + of_nat i) = d2 (?l + 0 + (i - (unat sz - r)))"
      using bounce_part [OF b that(2), of "unat sz - r" "of_nat r" ss 0 m1 d2 ?l] that q(2) al(3) last r_word(2)
      by (simp add: m3_def m2_def del: of_nat_diff)
    then show ?thesis using eq old by simp
  qed
  show ?thesis
  proof (rule that)
    show "write_sectors read write ss two offset sz buffer (st, m, d) = Some (st4, m3, d3)"
      using n e 1(1) fa(1) 2(1) 3(1) 4(1) w(8) last by (simp add: write_sectors_def Let_def memcpy_io_def r_word(1) at m3_def)
    show "done_status st st4" using 1(2) 2(2) 3(2) 4(2) by (simp add: done_status_def)
    show "d3 (unat offset + i) = d (unat offset + i) \<and> m3 (buffer + of_nat i) = d (unat offset + i)"
      if "unat sz - r \<le> i" "i < unat sz" for i
      using device caller [OF that] that q(1) by simp
    fix i assume k: "0 < k" and i: "2 * ?S \<le> i" "i < k + unat sz" and room: "unat two + k + unat sz \<le> 4294967296"
      "unat buffer + unat sz \<le> unat two \<or> unat two + k + unat sz \<le> unat buffer"
    have ui: "unat (two + of_nat i) = unat two + i" using room(1) i(2) by (subst unat_add_small) (simp_all add: unat_of_nat32)
    have uk: "unat (two + of_nat k) = unat two + k" using two_address [OF b, of k] q(4) by simp
    have "m3 (two + of_nat i) = m2 (two + of_nat i)" using slot_kept [OF ui] room(2) i(2) by auto
    also have "\<dots> = m1 (two + of_nat i)"
      using ui b i(1) q(4) by (subst m2_def, subst load_bytes_def) (simp add: inside_unat buffers_def)
    also have "\<dots> = load_bytes m two ss d (f * ?S) (buffer + of_nat (i - k))"
    proof -
      have "inside (two + of_nat k) sz (two + of_nat i)" using ui uk room(1) i q(4) by (subst inside_unat) auto
      moreover have "(two + of_nat i) - (two + of_nat k) = of_nat (i - k)" using i(1) q(4) by (simp add: of_nat_diff)
      ultimately show ?thesis using k by (simp add: m1_def mem_copy_def)
    qed
    also have "\<dots> = m (buffer + of_nat (i - k))"
      using b buffer_address [OF b, of "i - k"] i q(4) by (subst load_bytes_def) (auto simp: inside_unat buffers_def)
    finally show "m3 (two + of_nat i) = m (buffer + of_nat (i - k))" .
  qed
qed

end
