(* ===== verification/Parallel_Ata_Proofs.thy ===== *)
theory Parallel_Ata_Proofs
  imports Parallel_Ata Storage_Proofs
begin

text \<open>
  What the driver of the hard disk does on a drive that follows the ATA protocol: the registers name the
  sectors that are wanted, within the limits of the driver, and the interrupts bring their words.
\<close>

section \<open>The protocol of a drive\<close>

text \<open>
  The documented behaviour of a drive with \<open>sectors\<close> sectors of \<open>bytes\<close> bytes and the contents \<open>d\<close>. When it
  is \<open>idle\<close>, it is selected and takes the commands READ SECTORS (20h) and, with 48-bit addresses, READ
  SECTORS EXT (24h), whose counts of zero mean 256 and 65536. While it is \<open>reading\<close> \<open>k\<close> sectors from \<open>s\<close> on, it raises an interrupt
  for each of them, with BSY clear and DRQ set, and then it is \<open>holding\<close> the words of the sector for the
  data register.
\<close>

definition stays_selected :: "'h ports \<Rightarrow> u16 \<Rightarrow> u8 \<Rightarrow> ('h \<Rightarrow> bool) \<Rightarrow> bool" where
  "stays_selected p base drive idle \<longleftrightarrow> (\<forall>h. idle h \<longrightarrow> (\<exists>h'. inb p (base + 6) h = (drive, h') \<and> idle h'))"

definition takes_read_sectors :: "'h ports \<Rightarrow> u16 \<Rightarrow> nat \<Rightarrow> ('h \<Rightarrow> bool) \<Rightarrow> (nat \<Rightarrow> nat \<Rightarrow> 'h \<Rightarrow> bool) \<Rightarrow> bool" where
  "takes_read_sectors p base sectors idle reading \<longleftrightarrow> (\<forall>h n l0 l1 l2 s k. idle h \<longrightarrow>
     s = unat l0 + 256 * unat l1 + 65536 * unat l2 \<longrightarrow> k = (if n = 0 then 256 else unat n) \<longrightarrow> s + k \<le> sectors \<longrightarrow>
     reading s k (write_ports p base [(2, n), (3, l0), (4, l1), (5, l2), (7, 0x20)] h))"

definition takes_read_sectors_ext :: "'h ports \<Rightarrow> u16 \<Rightarrow> nat \<Rightarrow> ('h \<Rightarrow> bool) \<Rightarrow> (nat \<Rightarrow> nat \<Rightarrow> 'h \<Rightarrow> bool) \<Rightarrow> bool" where
  "takes_read_sectors_ext p base sectors idle reading \<longleftrightarrow> (\<forall>h n0 n1 l0 l1 l2 l3 l4 l5 s k. idle h \<longrightarrow>
     s = unat l0 + 256 * unat l1 + 65536 * unat l2 + 16777216 * unat l3 + 4294967296 * unat l4 + 1099511627776 * unat l5 \<longrightarrow>
     k = (if n0 = 0 \<and> n1 = 0 then 65536 else unat n0 + 256 * unat n1) \<longrightarrow> s + k \<le> sectors \<longrightarrow>
     reading s k (write_ports p base [(2, n1), (3, l3), (4, l4), (5, l5), (2, n0), (3, l0), (4, l1), (5, l2), (7, 0x24)] h))"

definition raises_interrupts :: "'h ports \<Rightarrow> u16 \<Rightarrow> u16 \<Rightarrow> (nat \<Rightarrow> nat \<Rightarrow> 'h \<Rightarrow> bool) \<Rightarrow> (nat \<Rightarrow> nat \<Rightarrow> nat \<Rightarrow> 'h \<Rightarrow> bool) \<Rightarrow> bool" where
  "raises_interrupts p base control reading holding \<longleftrightarrow> (\<forall>h s k. reading s (Suc k) h \<longrightarrow> (\<exists>h1 h2 h3 r r'.
     next_interrupt p h = Some h1 \<and> inb p control h1 = (r, h2) \<and> r AND 0x80 = 0
     \<and> inb p (base + 7) h2 = (r', h3) \<and> r' AND 0x08 = 0x08 \<and> holding s k 0 h3))"

definition delivers_words :: "'h ports \<Rightarrow> u16 \<Rightarrow> nat \<Rightarrow> (nat \<Rightarrow> u8) \<Rightarrow> ('h \<Rightarrow> bool) \<Rightarrow> (nat \<Rightarrow> nat \<Rightarrow> 'h \<Rightarrow> bool)
    \<Rightarrow> (nat \<Rightarrow> nat \<Rightarrow> nat \<Rightarrow> 'h \<Rightarrow> bool) \<Rightarrow> bool" where
  "delivers_words p base bytes d idle reading holding \<longleftrightarrow> (\<forall>h s k i. holding s k i h \<longrightarrow> 2 * i < bytes \<longrightarrow> (\<exists>v h'.
     inw p base h = (v, h') \<and> ucast v = d (s * bytes + 2 * i) \<and> ucast (drop_bit 8 v) = d (s * bytes + 2 * i + 1)
     \<and> (if 2 * (i + 1) < bytes then holding s k (i + 1) h' else if k = 0 then idle h' else reading (s + 1) k h')))"

definition ata_drive :: "u32 \<Rightarrow> 'h ports \<Rightarrow> u16 \<Rightarrow> u16 \<Rightarrow> u8 \<Rightarrow> nat \<Rightarrow> nat \<Rightarrow> (nat \<Rightarrow> u8) \<Rightarrow> ('h \<Rightarrow> bool) \<Rightarrow> (nat \<Rightarrow> nat \<Rightarrow> 'h \<Rightarrow> bool)
    \<Rightarrow> (nat \<Rightarrow> nat \<Rightarrow> nat \<Rightarrow> 'h \<Rightarrow> bool) \<Rightarrow> bool" where
  "ata_drive maximum p base control drive bytes sectors d idle reading holding \<longleftrightarrow>
     stays_selected p base drive idle \<and> takes_read_sectors p base sectors idle reading
     \<and> (maximum = 65536 \<longrightarrow> takes_read_sectors_ext p base sectors idle reading) \<and> raises_interrupts p base control reading holding
     \<and> delivers_words p base bytes d idle reading holding"

section \<open>The registers\<close>

lemma byte_of: "ucast (w AND 0xFF) = (ucast w :: u8)" for w :: "'a::len word"
proof -
  have "w AND 0xFF = take_bit 8 w" by (simp add: take_bit_eq_mask mask_eq_exp_minus_1)
  then show ?thesis by (auto intro: bit_eqI simp: bit_simps)
qed

lemma unat_byte: "unat (ucast (drop_bit k w) :: u8) = unat w div 2 ^ k mod 256" for w :: "'a::len word"
proof -
  have "unat (drop_bit k w) = unat w div 2 ^ k" by (simp only: unat_drop_bit_eq drop_bit_eq_div [of k "unat w"])
  then show ?thesis by (simp only: unsigned_ucast_eq take_bit_eq_mod) simp
qed

lemma unat_low_byte: "unat (ucast w :: u8) = unat w mod 256" for w :: "'a::len word"
  using unat_byte [of 0 w] by simp

lemma bytes_of:
  "x mod 65536 = x mod 256 + 256 * (x div 256 mod 256)"
  "x mod 16777216 = x mod 65536 + 65536 * (x div 65536 mod 256)"
  "x mod 4294967296 = x mod 16777216 + 16777216 * (x div 16777216 mod 256)"
  "x mod 1099511627776 = x mod 4294967296 + 4294967296 * (x div 4294967296 mod 256)" for x :: nat
  using mod_mult2_eq [of x 256 256] mod_mult2_eq [of x 65536 256] mod_mult2_eq [of x 16777216 256] mod_mult2_eq [of x 4294967296 256]
  by simp_all

text \<open>
  The command of the driver names the sectors that are wanted, if the number is below 256 or it is the
  maximum of a disk without 48-bit addresses and the sectors are below \<open>2^24\<close>, or if it is below the
  maximum of a disk with 48-bit addresses and the sectors are below \<open>2^36\<close>.
\<close>

definition nameable :: "u32 \<Rightarrow> nat \<Rightarrow> nat \<Rightarrow> bool" where
  "nameable maximum lba n \<longleftrightarrow> 0 < n \<and> (maximum = 256 \<and> n \<le> 256 \<and> lba + n \<le> 16777216 \<or> maximum = 65536 \<and> n < 65536 \<and> lba + n \<le> 68719476736)"

lemma command_names_sectors:
  assumes drive: "takes_read_sectors p base sectors idle reading" "maximum = 65536 \<longrightarrow> takes_read_sectors_ext p base sectors idle reading"
    and h: "idle h" "unat lba + unat n \<le> sectors" and ok: "nameable maximum (unat lba) (unat n)"
    and args: "pio_base args = base" "pio_sector args = lba" "pio_number_of_sectors args = (if n = maximum then 0 else ucast n)"
  shows "reading (unat lba) (unat n) (ata_send_pio_read_command p args h)"
proof (cases "lba < 0x01000000 \<and> pio_number_of_sectors args < 256")
  case True
  let ?c = "pio_number_of_sectors args"
  have lba: "unat lba < 16777216" using True by (simp add: word_less_nat_alt)
  have cn: "unat ?c = (if n = maximum then 0 else unat n mod 65536)"
    by (simp add: args(3) unsigned_ucast_eq take_bit_eq_mod)
  have "unat n = (if (ucast ?c :: u8) = 0 then 256 else unat (ucast ?c :: u8))"
  proof -
    have small: "unat ?c < 256" using True by (simp add: word_less_nat_alt)
    then have c8: "unat (ucast ?c :: u8) = unat ?c" by (simp add: unat_low_byte)
    have zero: "(ucast ?c :: u8) = 0 \<longleftrightarrow> unat ?c = 0" using c8 by (simp add: word_unat_eq_iff)
    show ?thesis using ok cn small c8 zero unfolding nameable_def by (auto split: if_splits)
  qed
  moreover have "unat lba = unat (ucast lba :: u8) + 256 * unat (ucast (drop_bit 8 lba) :: u8) + 65536 * unat (ucast (drop_bit 16 lba) :: u8)"
    using lba bytes_of(1,2) [of "unat lba"] by (simp add: unat_byte unat_low_byte [of lba])
  ultimately have "reading (unat lba) (unat n) (write_ports p base [(2, ucast ?c), (3, ucast lba), (4, ucast (drop_bit 8 lba)),
      (5, ucast (drop_bit 16 lba)), (7, 0x20)] h)"
    using drive(1) h unfolding takes_read_sectors_def by blast
  then show ?thesis using True args by (simp add: ata_send_pio_read_command_def lba28_registers_def byte_of del: write_ports.simps)
next
  case False
  let ?c = "pio_number_of_sectors args" and ?b = "\<lambda>k. unat (ucast (drop_bit k lba) :: u8)"
  have cn: "unat ?c = (if n = maximum then 0 else unat n mod 65536)"
    by (simp add: args(3) unsigned_ucast_eq take_bit_eq_mod)
  have whole: "unat n = 256 \<Longrightarrow> n = 256" by (simp add: word_unat_eq_iff)
  have lba48: "maximum = 65536" "unat n < 65536" "unat lba < 68719476736"
    using ok False cn whole unfolding nameable_def by (auto simp: word_less_nat_alt split: if_splits)
  have parts: "unat (ucast ?c :: u8) + 256 * unat (ucast (drop_bit 8 ?c) :: u8) = unat n"
    using cn lba48 bytes_of(1) [of "unat n"] by (auto simp: unat_byte unat_low_byte [of ?c])
  have "unat n = (if (ucast ?c :: u8) = 0 \<and> (ucast (drop_bit 8 ?c) :: u8) = 0 then 65536
      else unat (ucast ?c :: u8) + 256 * unat (ucast (drop_bit 8 ?c) :: u8))"
    using parts ok by (auto simp: nameable_def)
  moreover have "unat lba = unat (ucast lba :: u8) + 256 * ?b 8 + 65536 * ?b 16 + 16777216 * ?b 24 + 4294967296 * ?b 32
      + 1099511627776 * ?b 36"
    using lba48(3) bytes_of [of "unat lba"] by (simp add: unat_byte unat_low_byte [of lba])
  ultimately have "reading (unat lba) (unat n) (write_ports p base [(2, ucast (drop_bit 8 ?c)), (3, ucast (drop_bit 24 lba)),
      (4, ucast (drop_bit 32 lba)), (5, ucast (drop_bit 36 lba)), (2, ucast ?c), (3, ucast lba), (4, ucast (drop_bit 8 lba)),
      (5, ucast (drop_bit 16 lba)), (7, 0x24)] h)"
    using drive(2) lba48(1) h unfolding takes_read_sectors_ext_def by blast
  then show ?thesis unfolding ata_send_pio_read_command_def args(2) if_not_P [OF False]
    by (simp add: args(1,2) lba48_registers_def byte_of del: write_ports.simps)
qed

text \<open>
  Where this fails: a request of the maximum of 65536 sectors below \<open>2^24\<close> is sent as a READ SECTORS with
  count zero, which means 256 sectors, and a DMA command below \<open>2^24\<close> has room for eight bits of its count.
\<close>

lemma maximum_request_names_256_sectors:
  assumes "takes_read_sectors p base sectors idle reading" "idle h" "unat lba + 256 \<le> sectors" "lba < 0x01000000"
    "pio_base args = base" "pio_sector args = lba" "pio_number_of_sectors args = (if 65536 = (65536 :: u32) then 0 else ucast (65536 :: u32))"
  shows "reading (unat lba) 256 (ata_send_pio_read_command p args h)"
proof -
  have "unat lba = unat (ucast lba :: u8) + 256 * unat (ucast (drop_bit 8 lba) :: u8) + 65536 * unat (ucast (drop_bit 16 lba) :: u8)"
    using assms(4) bytes_of(1,2) [of "unat lba"] by (simp add: unat_byte unat_low_byte [of lba] word_less_nat_alt)
  moreover have "256 = (if (0 :: u8) = 0 then 256 else unat (0 :: u8))" by simp
  ultimately have "reading (unat lba) 256 (write_ports p base [(2, 0), (3, ucast lba), (4, ucast (drop_bit 8 lba)), (5, ucast (drop_bit 16 lba)), (7, 0x20)] h)"
    using assms(1-3) unfolding takes_read_sectors_def by blast
  then show ?thesis using assms(4-7) by (simp add: ata_send_pio_read_command_def lba28_registers_def byte_of del: write_ports.simps)
qed

lemma dma_command_truncates_count:
  "sector < 0x01000000 \<Longrightarrow> ata_send_dma_command p base sector n direction = ata_send_dma_command p base sector (n AND 0xFF) direction"
proof -
  have "(ucast (n AND 0xFF) :: u8) = ucast n" by (rule byte_of)
  moreover assume "sector < 0x01000000"
  ultimately show ?thesis by (simp add: ata_send_dma_command_def lba28_registers_def fun_eq_iff)
qed

section \<open>A sector\<close>

lemma load_bytes_append:
  assumes "unat a + unat b < 4294967296"
  shows "load_bytes (load_bytes m buf a d pos) (buf + a) b d (pos + unat a) = load_bytes m buf (a + b) d pos"
proof
  fix x
  have ab: "unat (a + b) = unat a + unat b" using assms by (rule unat_add_small)
  have "unat (x - (buf + a)) = (if unat a \<le> unat (x - buf) then unat (x - buf) - unat a else 4294967296 + unat (x - buf) - unat a)"
    using unat_sub_wrap [of "x - buf" a] by (simp add: diff_diff_eq word_le_nat_alt add.commute)
  then show "load_bytes (load_bytes m buf a d pos) (buf + a) b d (pos + unat a) x = load_bytes m buf (a + b) d pos x"
    using ab assms unat_less_4G [of a] unat_less_4G [of "x - buf"]
    by (auto simp: load_bytes_def inside_def word_less_nat_alt split: if_splits)
qed

lemma load_bytes_0 [simp]: "load_bytes m buf 0 d pos = m"
  by (simp add: load_bytes_def)

lemma load_two_bytes: "m(buf := d pos, buf + 1 := d (pos + 1)) = load_bytes m buf 2 d pos"
proof
  fix a
  show "(m(buf := d pos, buf + 1 := d (pos + 1))) a = load_bytes m buf 2 d pos a"
  proof (cases "a = buf \<or> a = buf + 1")
    case True
    then show ?thesis by (auto simp: load_bytes_def inside_def)
  next
    case False
    have "a - buf \<noteq> 0" "a - buf \<noteq> 1" using False by (auto simp: algebra_simps)
    then have "\<not> a - buf < 2" by (auto simp: word_less_nat_alt word_unat_eq_iff)
    then show ?thesis using False by (simp add: load_bytes_def inside_def)
  qed
qed

lemma read_words_loads:
  assumes "delivers_words p base bytes d idle reading holding" "even bytes" "bytes < 4294967296"
  shows "holding s k i h \<Longrightarrow> 2 * (i + n) = bytes \<Longrightarrow> 0 < n \<Longrightarrow>
    \<exists>h'. read_words p base n buf m h = (buf + of_nat (2 * n), load_bytes m buf (of_nat (2 * n)) d (s * bytes + 2 * i), h')
      \<and> (if k = 0 then idle h' else reading (s + 1) k h')"
proof (induction n arbitrary: i buf m h)
  case (Suc n)
  obtain v h1 where v: "inw p base h = (v, h1)" "ucast v = d (s * bytes + 2 * i)" "ucast (drop_bit 8 v) = d (s * bytes + 2 * i + 1)"
    "if 2 * (i + 1) < bytes then holding s k (i + 1) h1 else if k = 0 then idle h1 else reading (s + 1) k h1"
    using assms(1) Suc.prems(1,2) unfolding delivers_words_def by force
  have step: "read_words p base (Suc n) buf m h = read_words p base n (buf + 2) (load_bytes m buf 2 d (s * bytes + 2 * i)) h1"
    using v(1-3) by (simp add: byte_of flip: load_two_bytes)
  show ?case
  proof (cases "n = 0")
    case True
    then show ?thesis using step v(4) Suc.prems(2) by simp
  next
    case False
    then have "holding s k (i + 1) h1" using v(4) Suc.prems(2) by simp
    then obtain h' where h': "read_words p base n (buf + 2) (load_bytes m buf 2 d (s * bytes + 2 * i)) h1
        = (buf + 2 + of_nat (2 * n), load_bytes (load_bytes m buf 2 d (s * bytes + 2 * i)) (buf + 2) (of_nat (2 * n)) d (s * bytes + 2 * (i + 1)), h')"
      "if k = 0 then idle h' else reading (s + 1) k h'"
      using Suc.IH [of "i + 1" h1 "buf + 2"] Suc.prems(2) False by auto
    have "unat (of_nat (2 * n) :: u32) = 2 * n" using Suc.prems(2) assms(3) by (intro unat_of_nat32) simp
    then have "load_bytes (load_bytes m buf 2 d (s * bytes + 2 * i)) (buf + 2) (of_nat (2 * n)) d (s * bytes + 2 * i + unat (2 :: u32))
        = load_bytes m buf (2 + of_nat (2 * n)) d (s * bytes + 2 * i)"
      using Suc.prems(2) assms(3) by (intro load_bytes_append) simp
    moreover have "buf + 2 + of_nat (2 * n) = buf + of_nat (2 * Suc n)" "2 + of_nat (2 * n) = (of_nat (2 * Suc n) :: u32)" by simp_all
    ultimately show ?thesis using step h' by simp
  qed
qed simp

lemma set_status_slots [simp]: "map slot (set_storage_transfer_status v n st) = map slot st"
  by (simp add: set_storage_transfer_status_def comp_def)

lemma read_sector_loads:
  assumes "delivers_words p base bytes d idle reading holding" "even bytes" "0 < bytes" "bytes < 131072"
    "holding s k 0 (tr_hardware x)" "pio_base (tr_arguments x) = base" "unat (pio_words_of_sector (tr_arguments x)) = bytes div 2"
  shows "\<exists>x'. pata_read_sector p x = x' \<and> tr_controller x' = tr_controller x
    \<and> tr_arguments x' = (tr_arguments x)\<lparr>pio_buffer := pio_buffer (tr_arguments x) + of_nat bytes\<rparr>
    \<and> map slot (tr_statuses x') = map slot (tr_statuses x)
    \<and> tr_memory x' = load_bytes (tr_memory x) (pio_buffer (tr_arguments x)) (of_nat bytes) d (s * bytes)
    \<and> (if k = 0 then idle (tr_hardware x') else reading (s + 1) k (tr_hardware x'))"
proof -
  have b: "2 * (0 + bytes div 2) = bytes" "0 < bytes div 2" using assms(2,3) by (auto elim: evenE)
  have w: "(2 * of_nat (bytes div 2) :: u32) = of_nat bytes" using arg_cong [OF b(1), of of_nat] by simp
  obtain h' where h': "read_words p base (bytes div 2) (pio_buffer (tr_arguments x)) (tr_memory x) (tr_hardware x)
      = (pio_buffer (tr_arguments x) + of_nat bytes, load_bytes (tr_memory x) (pio_buffer (tr_arguments x)) (of_nat bytes) d (s * bytes), h')"
    "if k = 0 then idle h' else reading (s + 1) k h'"
    using read_words_loads [OF assms(1,2) _ assms(5) b, of "pio_buffer (tr_arguments x)" "tr_memory x"] assms(4) by (auto simp: w)
  then show ?thesis using assms(6,7) by (auto simp add: pata_read_sector_def Let_def)
qed

section \<open>The interrupts of a request\<close>

definition same_controller :: "ide_controller \<Rightarrow> ide_controller \<Rightarrow> bool" where
  "same_controller c0 c \<longleftrightarrow> ide_base c = ide_base c0 \<and> ide_control c = ide_control c0 \<and> ide_dma c = ide_dma c0 \<and> ide_mutex c = ide_mutex c0"

text \<open>The thread of the command waits for the sector \<open>i\<close> of \<open>n\<close>.\<close>

definition awaits :: "ide_controller \<Rightarrow> nat \<Rightarrow> nat \<Rightarrow> ide_controller \<Rightarrow> bool" where
  "awaits c0 n i c \<longleftrightarrow> same_controller c0 c \<and> interrupt_expected c \<and> waiting_thread_blocked c \<and> number_of_iht_function_calls c = of_nat i
     \<and> number_of_expected_iht_function_calls c = of_nat i \<and> max_number_of_expected_iht_function_calls c = of_nat n"

definition has_completed :: "ide_controller \<Rightarrow> ide_controller \<Rightarrow> bool" where
  "has_completed c0 c \<longleftrightarrow> same_controller c0 c \<and> \<not> waiting_thread_blocked c \<and> ide_transfer_status c = IDE_COMMAND_COMPLETED"

lemma handler_thread_runs_once:
  assumes "number_of_iht_function_calls (tr_controller x) = of_nat i" "number_of_expected_iht_function_calls (tr_controller x) = of_nat (Suc i)"
    "Suc i \<le> n" "n < 4294967296" "max_number_of_expected_iht_function_calls (tr_controller x) = of_nat n"
    and iht: "\<And>y. tr_controller (iht y) = tr_controller y"
  shows "ide_interrupt_handler_thread iht x =
    (if Suc i = n
     then Some (on_controller (\<lambda>c. c\<lparr>ide_transfer_status := IDE_COMMAND_COMPLETED, waiting_thread_blocked := False\<rparr>)
       (iht (on_controller (\<lambda>c. c\<lparr>number_of_iht_function_calls := of_nat (Suc i)\<rparr>) x)))
     else Some (iht (on_controller (\<lambda>c. c\<lparr>number_of_iht_function_calls := of_nat (Suc i), interrupt_expected := True, timeout_thread := True\<rparr>) x)))"
proof -
  have less: "(of_nat i :: u32) < of_nat (Suc i)"
    using assms(3,4) by (simp add: word_less_nat_alt unat_of_nat32 del: of_nat_Suc)
  have eq: "(of_nat (Suc i) :: u32) = of_nat n \<longleftrightarrow> Suc i = n"
    using assms(3,4) by (simp add: word_unat_eq_iff unat_of_nat32 del: of_nat_Suc)
  have suc: "(of_nat i :: u32) + 1 = of_nat (Suc i)" by simp
  show ?thesis
    by (subst ide_interrupt_handler_thread.simps, simp add: assms(1,2,5) less suc eq iht on_controller_def Let_def del: of_nat_Suc)
      (intro impI conjI; subst ide_interrupt_handler_thread.simps, simp add: assms(1,2,5) iht on_controller_def del: of_nat_Suc)
qed

definition loads_sectors :: "nat \<Rightarrow> (nat \<Rightarrow> u8) \<Rightarrow> nat \<Rightarrow> nat \<Rightarrow> 'h transfer \<Rightarrow> 'h transfer \<Rightarrow> bool" where
  "loads_sectors bytes d s k x x' \<longleftrightarrow> tr_arguments x' = (tr_arguments x)\<lparr>pio_buffer := pio_buffer (tr_arguments x) + of_nat (k * bytes)\<rparr>
    \<and> map slot (tr_statuses x') = map slot (tr_statuses x)
    \<and> tr_memory x' = load_bytes (tr_memory x) (pio_buffer (tr_arguments x)) (of_nat (k * bytes)) d (s * bytes)"

lemma one_interrupt:
  assumes drive: "raises_interrupts p base control reading holding" "delivers_words p base bytes d idle reading holding"
    and bytes: "even bytes" "0 < bytes" "bytes < 131072"
    and c0: "ide_base c0 = base" "ide_control c0 = control" "ide_dma c0 = 0"
    and x: "awaits c0 n i (tr_controller x)" "i + Suc k = n" "n < 4294967296" "reading s (Suc k) (tr_hardware x)"
      "pio_base (tr_arguments x) = base" "unat (pio_words_of_sector (tr_arguments x)) = bytes div 2"
  shows "\<exists>h x'. next_interrupt p (tr_hardware x) = Some h
    \<and> ide_interrupt_handler_thread (pata_read_sector p) (ide_interrupt_handler p (x\<lparr>tr_hardware := h\<rparr>)) = Some x'
    \<and> loads_sectors bytes d s 1 x x'
    \<and> (if k = 0 then has_completed c0 (tr_controller x') \<and> idle (tr_hardware x')
       else awaits c0 n (Suc i) (tr_controller x') \<and> reading (Suc s) k (tr_hardware x'))"
proof -
  let ?iht = "pata_read_sector p"
  obtain h1 h2 h3 r r' where h: "next_interrupt p (tr_hardware x) = Some h1" "inb p control h1 = (r, h2)" "r AND 0x80 = 0"
    "inb p (base + 7) h2 = (r', h3)" "r' AND 0x08 = 0x08" "holding s k 0 h3"
    using drive(1) x(4) unfolding raises_interrupts_def by blast
  have c: "ide_base (tr_controller x) = base" "ide_control (tr_controller x) = control" "ide_dma (tr_controller x) = 0"
    "interrupt_expected (tr_controller x)"
    "number_of_expected_iht_function_calls (tr_controller x) = of_nat i"
    "number_of_iht_function_calls (tr_controller x) = of_nat i" "max_number_of_expected_iht_function_calls (tr_controller x) = of_nat n"
    using x(1) c0 by (simp_all add: awaits_def same_controller_def)
  define y where "y = on_controller (\<lambda>c. c\<lparr>ide_transfer_status := IDE_DATA_READY, timeout_thread := False, interrupt_expected := False,
    number_of_expected_iht_function_calls := of_nat (Suc i)\<rparr>) (x\<lparr>tr_hardware := h3\<rparr>)"
  have less: "(of_nat i :: u32) < of_nat n" "(of_nat n :: u32) \<noteq> 0"
    using x(2,3) by (simp_all add: word_less_nat_alt word_unat_eq_iff unat_of_nat32)
  have handled: "ide_interrupt_handler p (x\<lparr>tr_hardware := h1\<rparr>) = y"
    using h(2-5) c less by (simp add: ide_interrupt_handler_def read_port_def ide_interrupt_accepted_def status_of_register_def
        on_controller_def y_def Let_def)
  have keeps: "\<And>y. tr_controller (pata_read_sector p y) = tr_controller y"
    by (simp add: pata_read_sector_def Let_def split: prod.split)
  have thread: "ide_interrupt_handler_thread ?iht y =
    (if Suc i = n
     then Some (on_controller (\<lambda>c. c\<lparr>ide_transfer_status := IDE_COMMAND_COMPLETED, waiting_thread_blocked := False\<rparr>)
       (?iht (on_controller (\<lambda>c. c\<lparr>number_of_iht_function_calls := of_nat (Suc i)\<rparr>) y)))
     else Some (?iht (on_controller (\<lambda>c. c\<lparr>number_of_iht_function_calls := of_nat (Suc i), interrupt_expected := True, timeout_thread := True\<rparr>) y)))"
    using c x(2,3) by (intro handler_thread_runs_once keeps) (simp_all add: y_def on_controller_def)
  have y: "tr_hardware y = h3" "tr_arguments y = tr_arguments x" "tr_statuses y = tr_statuses x" "tr_memory y = tr_memory x"
    by (simp_all add: y_def on_controller_def)
  have sector: "\<exists>z. ?iht (on_controller f y) = z \<and> tr_controller z = f (tr_controller y) \<and> loads_sectors bytes d s 1 x z
    \<and> (if k = 0 then idle (tr_hardware z) else reading (Suc s) k (tr_hardware z))" for f
    using read_sector_loads [OF drive(2) bytes, of s k "on_controller f y"] h(6) x(5,6) y
    by (auto simp add: on_controller_def loads_sectors_def)
  show ?thesis
  proof (cases "k = 0")
    case True
    then show ?thesis using h(1) handled thread x(1,2) sector [of "\<lambda>c. c\<lparr>number_of_iht_function_calls := of_nat (Suc i)\<rparr>"]
      by (auto simp: on_controller_def loads_sectors_def has_completed_def awaits_def same_controller_def y_def)
  next
    case False
    then show ?thesis using h(1) handled thread x(1,2)
        sector [of "\<lambda>c. c\<lparr>number_of_iht_function_calls := of_nat (Suc i), interrupt_expected := True, timeout_thread := True\<rparr>"] c(7)
      by (auto simp: on_controller_def awaits_def same_controller_def y_def)
  qed
qed

lemma load_sectors_append:
  assumes "loads_sectors bytes d s 1 x y" "loads_sectors bytes d (Suc s) k y z" "Suc k * bytes < 4294967296"
  shows "loads_sectors bytes d s (Suc k) x z"
proof -
  have u: "unat (of_nat bytes :: u32) = bytes" "unat (of_nat (k * bytes) :: u32) = k * bytes" "bytes + k * bytes < 4294967296"
    using assms(3) unat_of_nat32 [of bytes] unat_of_nat32 [of "k * bytes"] by simp_all
  have "load_bytes (load_bytes (tr_memory x) (pio_buffer (tr_arguments x)) (of_nat bytes) d (s * bytes))
      (pio_buffer (tr_arguments x) + of_nat bytes) (of_nat (k * bytes)) d (s * bytes + unat (of_nat bytes :: u32))
    = load_bytes (tr_memory x) (pio_buffer (tr_arguments x)) (of_nat bytes + of_nat (k * bytes)) d (s * bytes)"
    using u by (intro load_bytes_append) simp
  then show ?thesis using assms(1,2) u(1) by (auto simp: loads_sectors_def algebra_simps)
qed

lemma wait_for_end_loads:
  assumes drive: "raises_interrupts p base control reading holding" "delivers_words p base bytes d idle reading holding"
    and bytes: "even bytes" "0 < bytes" "bytes < 131072"
    and c0: "ide_base c0 = base" "ide_control c0 = control" "ide_dma c0 = 0" and n: "n < 4294967296"
  shows "awaits c0 n i (tr_controller x) \<Longrightarrow> i + Suc k = n \<Longrightarrow> reading s (Suc k) (tr_hardware x) \<Longrightarrow> pio_base (tr_arguments x) = base
    \<Longrightarrow> unat (pio_words_of_sector (tr_arguments x)) = bytes div 2 \<Longrightarrow> Suc k * bytes < 4294967296 \<Longrightarrow>
    \<exists>x'. ide_wait_for_end p (pata_read_sector p) x = Some x' \<and> loads_sectors bytes d s (Suc k) x x'
      \<and> has_completed c0 (tr_controller x') \<and> idle (tr_hardware x')"
proof (induction k arbitrary: i s x)
  case (0 i s x)
  obtain h y where y: "next_interrupt p (tr_hardware x) = Some h"
    "ide_interrupt_handler_thread (pata_read_sector p) (ide_interrupt_handler p (x\<lparr>tr_hardware := h\<rparr>)) = Some y"
    "loads_sectors bytes d s 1 x y" "has_completed c0 (tr_controller y)" "idle (tr_hardware y)"
    using one_interrupt [OF drive bytes c0 0(1,2) n 0(3-5)] by auto
  have "ide_wait_for_end p (pata_read_sector p) x = ide_wait_for_end p (pata_read_sector p) y"
    using 0(1) y(1,2) by (subst ide_wait_for_end.simps) (simp add: awaits_def)
  also have "\<dots> = Some y" using y(4) by (subst ide_wait_for_end.simps) (simp add: has_completed_def)
  finally show ?case using y by simp
next
  case (Suc k i s x)
  obtain h y where y: "next_interrupt p (tr_hardware x) = Some h"
    "ide_interrupt_handler_thread (pata_read_sector p) (ide_interrupt_handler p (x\<lparr>tr_hardware := h\<rparr>)) = Some y"
    "loads_sectors bytes d s 1 x y" "awaits c0 n (Suc i) (tr_controller y)" "reading (Suc s) (Suc k) (tr_hardware y)"
    using one_interrupt [OF drive bytes c0 Suc.prems(1,2) n Suc.prems(3-5)] by auto
  have rest: "\<exists>x'. ide_wait_for_end p (pata_read_sector p) y = Some x' \<and> loads_sectors bytes d (Suc s) (Suc k) y x'
      \<and> has_completed c0 (tr_controller x') \<and> idle (tr_hardware x')"
    using y(3) Suc.prems(2,4-6) by (intro Suc.IH [OF y(4) _ y(5)]) (simp_all add: loads_sectors_def)
  have "ide_wait_for_end p (pata_read_sector p) x = ide_wait_for_end p (pata_read_sector p) y"
    using Suc.prems(1) y(1,2) by (subst ide_wait_for_end.simps) (simp add: awaits_def)
  then show ?case using rest load_sectors_append [OF y(3) _ Suc.prems(6)] by auto
qed

section \<open>A request\<close>

text \<open>The controller is free for the next command: nobody holds its mutex and the drive is idle.\<close>

definition controller_free :: "u16 \<Rightarrow> u16 \<Rightarrow> ('h \<Rightarrow> bool) \<Rightarrow> ide_controller \<times> 'h \<Rightarrow> bool" where
  "controller_free base control idle = (\<lambda>(c, h). ide_base c = base \<and> ide_control c = control \<and> ide_dma c = 0 \<and> ide_mutex c = 0 \<and> idle h)"

lemma pio_read_loads:
  assumes drive: "ata_drive (max_number_of_sectors_per_one_request disk) p base control (pata_drive disk) bytes sectors d idle reading holding"
    and bytes: "even bytes" "0 < bytes" "bytes < 131072" "unat (pata_size_of_sector disk) = bytes"
    and free: "controller_free base control idle (c, h)"
    and n: "nameable (max_number_of_sectors_per_one_request disk) (unat lba) (unat n)" "unat lba + unat n \<le> sectors"
      "unat n * bytes < 4294967296"
  shows "\<exists>st' c' h'. pata_pio_read p disk lba n buf (st, m, c, h)
      = Some (True, st', load_bytes m buf (n * pata_size_of_sector disk) d (unat lba * bytes), c', h')
    \<and> map slot st' = map slot st \<and> controller_free base control idle (c', h')"
proof -
  define args where "args = \<lparr>pio_base = ide_base c, pio_sector = lba,
    pio_number_of_sectors = (if n = max_number_of_sectors_per_one_request disk then 0 else ucast n),
    pio_words_of_sector = ucast (pata_size_of_sector disk div 2), pio_buffer = buf\<rparr>"
  have c: "ide_base c = base" "ide_control c = control" "ide_dma c = 0" "ide_mutex c = 0" "idle h"
    using free by (simp_all add: controller_free_def)
  obtain h1 where h1: "inb p (base + 6) h = (pata_drive disk, h1)" "idle h1"
    using drive c(5) unfolding ata_drive_def stays_selected_def by blast
  have selected: "ide_select_drive p base (pata_drive disk) h = Some h1" using h1(1) by (simp add: ide_select_drive_def)
  have takes: "takes_read_sectors p base sectors idle reading"
    "max_number_of_sectors_per_one_request disk = 65536 \<longrightarrow> takes_read_sectors_ext p base sectors idle reading"
    using drive unfolding ata_drive_def by blast+
  have command: "reading (unat lba) (unat n) (ata_send_pio_read_command p args h1)"
    by (rule command_names_sectors [OF takes h1(2) n(2,1)]) (simp_all add: args_def c(1))
  obtain k where k: "unat n = Suc k" using n(1) unfolding nameable_def by (cases "unat n") auto
  define c1 where "c1 = c\<lparr>ide_mutex := 1, interrupt_expected := True, number_of_iht_function_calls := 0,
    number_of_expected_iht_function_calls := 0, max_number_of_expected_iht_function_calls := n,
    waiting_thread_blocked := True, timeout_thread := True\<rparr>"
  define x where "x = \<lparr>tr_controller = c1, tr_arguments = args, tr_statuses = st, tr_memory = m,
    tr_hardware = ata_send_pio_read_command p args h1\<rparr>"
  have words: "unat (ucast (pata_size_of_sector disk div 2) :: u16) = bytes div 2"
    using bytes(3,4) by (simp add: unsigned_ucast_eq take_bit_eq_mod unat_div)
  have "\<exists>x'. ide_wait_for_end p (pata_read_sector p) x = Some x' \<and> loads_sectors bytes d (unat lba) (Suc k) x x'
      \<and> has_completed c1 (tr_controller x') \<and> idle (tr_hardware x')"
  proof (rule wait_for_end_loads [where base = base and control = control and n = "unat n" and i = 0 and reading = reading and holding = holding])
    show "awaits c1 (unat n) 0 (tr_controller x)" by (simp add: awaits_def same_controller_def x_def c1_def)
  qed (use drive bytes c n command k words unat_less_4G [of n] in \<open>simp_all add: ata_drive_def x_def c1_def args_def\<close>)
  then obtain x' where x': "ide_wait_for_end p (pata_read_sector p) x = Some x'" "loads_sectors bytes d (unat lba) (Suc k) x x'"
    "has_completed c1 (tr_controller x')" "idle (tr_hardware x')" by blast
  have sent: "ide_send_read_command p (pata_drive disk) (ata_send_pio_read_command p args) (pata_read_sector p) n
      \<lparr>tr_controller = c, tr_arguments = args, tr_statuses = st, tr_memory = m, tr_hardware = h\<rparr> = Some x'"
    using x'(1) c selected by (simp add: ide_send_read_command_def on_controller_def x_def c1_def Let_def)
  have "of_nat (Suc k * bytes) = (of_nat (unat n) * of_nat (unat (pata_size_of_sector disk)) :: u32)"
    by (simp only: k bytes(4) of_nat_mult)
  then have "of_nat (Suc k * bytes) = n * pata_size_of_sector disk" by simp
  then show ?thesis using sent x' c by (auto simp: pata_pio_read_def Let_def simp flip: args_def
    simp: has_completed_def loads_sectors_def x_def args_def c1_def same_controller_def ide_command_processed_def unlock_mutex_def controller_free_def)
qed

section \<open>Any number of sectors\<close>

text \<open>The sectors the driver reaches, and how many of them it is asked for at a time.\<close>

definition reach :: "u32 \<Rightarrow> nat \<Rightarrow> nat" where
  "reach maximum sectors = min sectors (if maximum = 256 then 16777216 else 68719476736)"

definition most :: "u32 \<Rightarrow> nat" where
  "most maximum = (if maximum = 256 then 4294967295 else 65535)"

definition transfers_sectors :: "('h \<Rightarrow> bool) \<Rightarrow> (nat \<Rightarrow> u8) \<Rightarrow> nat \<Rightarrow> (u64 \<Rightarrow> u32 \<Rightarrow> u32 \<Rightarrow> 'h io \<Rightarrow> (bool \<times> 'h io) option)
    \<Rightarrow> u32 \<Rightarrow> u32 \<Rightarrow> bool" where
  "transfers_sectors ok d bound transfer limit ss \<longleftrightarrow> (\<forall>lba n buf st m h. ok h \<and> 0 < n \<and> n \<le> limit \<and> unat n \<le> most limit
     \<and> unat n * unat ss < 4294967296 \<and> unat lba + unat n \<le> bound \<longrightarrow>
     (\<exists>st' h'. transfer lba n buf (st, m, h) = Some (True, st', load_bytes m buf (n * ss) d (unat lba * unat ss), h')
       \<and> map slot st' = map slot st \<and> ok h'))"

lemma pata_wrapper_loads:
  assumes tr: "transfers_sectors ok d bound transfer limit ss" and limit: "0 < limit" and bound: "bound \<le> 18446744073709551616"
  shows "ok h \<Longrightarrow> unat n \<le> most limit \<Longrightarrow> unat n * unat ss < 4294967296 \<Longrightarrow> unat lba + unat n \<le> bound \<Longrightarrow>
    \<exists>st' h'. pata_wrapper transfer limit ss lba n buf (st, m, h) = Some (st', load_bytes m buf (n * ss) d (unat lba * unat ss), h')
      \<and> done_status st st' \<and> ok h'"
proof (induction "unat n" arbitrary: n lba buf st m h rule: less_induct)
  case less
  show ?case
  proof (cases "n = 0")
    case True
    then show ?thesis using less.prems(1)
      by (subst pata_wrapper.simps) (auto simp: set_storage_transfer_status_def done_status_def)
  next
    case False
    define kk where "kk = (if limit > n then n else limit)"
    have k: "0 < kk" "kk \<le> limit" "kk \<le> n" using False limit by (auto simp: kk_def word_neq_0_conv)
    then have kn: "unat kk \<le> unat n" "0 < unat kk" by (simp_all add: word_le_nat_alt word_less_nat_alt)
    have k_small: "unat kk * unat ss \<le> unat n * unat ss" using kn(1) by (rule mult_le_mono1)
    obtain st1 h1 where 1: "transfer lba kk buf (st, m, h) = Some (True, st1, load_bytes m buf (kk * ss) d (unat lba * unat ss), h1)"
      "map slot st1 = map slot st" "ok h1"
      using tr k(1,2) le_less_trans [OF k_small less.prems(3)] less.prems(1,2,4) kn unfolding transfers_sectors_def by (meson add_le_mono order_refl order_trans)
    have rest: "unat (n - kk) = unat n - unat kk" using k(3) by (simp add: unat_sub)
    have "(unat n - unat kk) * unat ss \<le> unat n * unat ss" by (intro mult_le_mono1) simp
    then have rest_small: "unat (n - kk) * unat ss < 4294967296" using less.prems(3) rest by (simp only: le_less_trans)
    have prods: "unat (kk * ss) = unat kk * unat ss" "unat ((n - kk) * ss) = (unat n - unat kk) * unat ss"
      using le_less_trans [OF k_small less.prems(3)] rest_small rest by (simp_all add: unat_mult_small)
    have prods3: "unat (kk * ss) + unat ((n - kk) * ss) < 4294967296"
      unfolding prods using less.prems(3) k_small by (simp add: diff_mult_distrib)
    have step: "pata_wrapper transfer limit ss lba n buf (st, m, h)
        = pata_wrapper transfer limit ss (lba + ucast kk) (n - kk) (buf + kk * ss) (st1, load_bytes m buf (kk * ss) d (unat lba * unat ss), h1)"
      using 1(1) False by (subst pata_wrapper.simps) (simp add: Let_def word_neq_0_conv flip: kk_def)
    show ?thesis
    proof (cases "n = kk")
      case True
      have zero: "n - kk = 0" using True by simp
      have "pata_wrapper transfer limit ss lba n buf (st, m, h)
          = pata_wrapper transfer limit ss (lba + ucast kk) 0 (buf + kk * ss) (st1, load_bytes m buf (kk * ss) d (unat lba * unat ss), h1)"
        using step by (simp only: zero)
      also have "\<dots> = Some (set_storage_transfer_status STORAGE_TRANSFER_FINISHED 0 st1, load_bytes m buf (kk * ss) d (unat lba * unat ss), h1)"
        by (subst pata_wrapper.simps) simp
      finally show ?thesis using 1(2,3) True by (auto simp: set_storage_transfer_status_def done_status_def comp_def)
    next
      case more: False
      then have less_n: "unat kk < unat n" using kn(1) by (simp add: word_unat_eq_iff)
      have uk: "unat (ucast kk :: u64) = unat kk"
        by (simp only: unsigned_ucast_eq unsigned_take_bit_eq, rule take_bit_nat_eq_self, rule less_le_trans [OF unat_less_4G], simp)
      have lba: "unat (lba + ucast kk) = unat lba + unat kk"
        using less.prems(4) bound less_n uk by (subst unat_add_lem [THEN iffD1]) auto
      have "unat (n - kk) < unat n" using rest kn less_n by simp
      then obtain st2 h2 where 2: "pata_wrapper transfer limit ss (lba + ucast kk) (n - kk) (buf + kk * ss)
          (st1, load_bytes m buf (kk * ss) d (unat lba * unat ss), h1)
        = Some (st2, load_bytes (load_bytes m buf (kk * ss) d (unat lba * unat ss)) (buf + kk * ss) ((n - kk) * ss) d (unat (lba + ucast kk) * unat ss), h2)"
        "done_status st1 st2" "ok h2"
        using less.hyps [of "n - kk" h1 "lba + ucast kk" "buf + kk * ss" st1 "load_bytes m buf (kk * ss) d (unat lba * unat ss)", OF _ 1(3) _ rest_small]
          less.prems(2,4) rest lba less_n by auto
      have "load_bytes (load_bytes m buf (kk * ss) d (unat lba * unat ss)) (buf + kk * ss) ((n - kk) * ss) d (unat (lba + ucast kk) * unat ss)
        = load_bytes m buf (n * ss) d (unat lba * unat ss)"
      proof -
        have "unat (lba + ucast kk) * unat ss = unat lba * unat ss + unat (kk * ss)" using lba prods(1) by (simp add: add_mult_distrib)
        moreover have "kk * ss + (n - kk) * ss = n * ss" by (simp add: algebra_simps)
        ultimately show ?thesis using load_bytes_append [OF prods3, of m buf d "unat lba * unat ss"] by simp
      qed
      moreover have "done_status st st2" using 1(2) 2(2) by (simp add: done_status_def)
      ultimately show ?thesis using 2(1,3) step by simp
    qed
  qed
qed

lemma read_wrapper_reads:
  assumes drive: "ata_drive (max_number_of_sectors_per_one_request disk) p base control (pata_drive disk) bytes sectors d idle reading holding"
    and bytes: "even bytes" "0 < bytes" "bytes < 131072" "unat (pata_size_of_sector disk) = bytes"
    and disk: "pata_dma disk = 0" "max_number_of_sectors_per_one_request disk \<in> {256, 65536}"
  shows "reads_on (controller_free base control idle) d (reach (max_number_of_sectors_per_one_request disk) sectors)
    (most (max_number_of_sectors_per_one_request disk)) (pata_read_wrapper dma_read p disk) (pata_size_of_sector disk)"
proof -
  let ?max = "max_number_of_sectors_per_one_request disk"
  have "transfers_sectors (controller_free base control idle) d (reach ?max sectors) (pata_pio_read p disk) ?max (pata_size_of_sector disk)"
    unfolding transfers_sectors_def
  proof (intro allI impI, elim conjE)
    fix lba :: u64 and n buf st m and h :: "ide_controller \<times> 'a"
    assume n: "controller_free base control idle h" "0 < n" "n \<le> ?max" "unat n \<le> most ?max"
      "unat n * unat (pata_size_of_sector disk) < 4294967296" "unat lba + unat n \<le> reach ?max sectors"
    have "nameable ?max (unat lba) (unat n)" "unat lba + unat n \<le> sectors"
      using n(2-4,6) disk(2) by (auto simp: nameable_def reach_def most_def word_le_nat_alt word_less_nat_alt)
    then show "\<exists>st' h'. pata_pio_read p disk lba n buf (st, m, h) = Some (True, st',
        load_bytes m buf (n * pata_size_of_sector disk) d (unat lba * unat (pata_size_of_sector disk)), h')
      \<and> map slot st' = map slot st \<and> controller_free base control idle h'"
      using pio_read_loads [OF drive bytes, of "fst h" "snd h" lba n buf st m] n(1,5) bytes(4) by auto
  qed
  moreover have "0 < ?max" "reach ?max sectors \<le> 18446744073709551616" using disk(2) by (auto simp: reach_def)
  ultimately show ?thesis unfolding reads_on_def pata_read_wrapper_def if_P [OF disk(1)]
    by (intro allI impI, elim conjE) (rule pata_wrapper_loads)
qed

end
