(* ===== verification/Storage_Properties.thy ===== *)
theory Storage_Properties
  imports Parallel_Ata_Proofs
begin

text \<open>
  The properties of the storage group: reading is correct from the bytes of the request down to the ports of
  the hard disk, short requests are written correctly, and the ways in which longer
  unaligned requests, refused requests and packets go wrong. A packet of transfers is a plan of bytes.
\<close>

section \<open>A device that is told what to do and does it\<close>

definition ideal_read :: "u32 \<Rightarrow> (nat \<Rightarrow> u8) sector_function" where
  "ideal_read ss lba n buf = (\<lambda>(st, m, d). Some (set_storage_transfer_status STORAGE_TRANSFER_FINISHED 0 st,
     load_bytes m buf (n * ss) d (unat lba * unat ss), d))"

definition ideal_write :: "u32 \<Rightarrow> (nat \<Rightarrow> u8) sector_function" where
  "ideal_write ss lba n buf = (\<lambda>(st, m, d). Some (set_storage_transfer_status STORAGE_TRANSFER_FINISHED 0 st,
     m, store_bytes d (unat lba * unat ss) (n * ss) m buf))"

lemma ideal_device: "reads_device (ideal_read ss) ss" "writes_device (ideal_write ss) ss"
  by (simp_all add: reads_device_def writes_device_def ideal_read_def ideal_write_def done_status_def
      set_storage_transfer_status_def comp_def)

section \<open>Properties\<close>

definition ready :: "storage_device \<Rightarrow> transfer_status list \<Rightarrow> u64 \<Rightarrow> u32 \<Rightarrow> u32 \<Rightarrow> bool" where
  "ready dev st offset sz buffer \<longleftrightarrow> st \<noteq> [] \<and> 1 < size_of_sector dev \<and> 0 < sz \<and> \<not> refused_range dev offset sz
     \<and> slot (hd st) < length (slot_two_sectors_buffer dev)
     \<and> buffers (size_of_sector dev) (slot_two_sectors_buffer dev ! slot (hd st)) sz buffer"

definition release_slot :: "transfer_status list \<Rightarrow> storage_device \<Rightarrow> storage_device" where
  "release_slot st dev = dev\<lparr>is_transfer_slot_taken := (is_transfer_slot_taken dev)[slot (hd st) := False]\<rparr>"

lemma not_refused: "\<not> refused_range dev offset sz \<Longrightarrow> unat offset + unat sz < 18446744073709551616"
proof -
  have "unat (ucast sz :: u64) = unat sz"
    by (simp only: unsigned_ucast_eq unsigned_take_bit_eq, rule take_bit_nat_eq_self, rule less_le_trans [OF unat_less_4G], simp)
  moreover assume "\<not> refused_range dev offset sz"
  then have "\<not> offset + ucast sz < offset" by (simp add: refused_range_def Let_def)
  ultimately show ?thesis
    using no_olen_add_nat [of offset "ucast sz"] by (simp add: not_less)
qed

text \<open>
  C10. Reading a range of a hard disk without DMA into a buffer of its size ends with the bytes of the disk in
  the buffer, the slot free again, the transfer finished and the controller free, for every length: from the
  request in bytes over its parts in whole sectors, the commands that the driver writes to the registers
  and the interrupts of the sectors to the words of the data register. The hypothesis is the documented
  behaviour of an ATA drive (\<open>ata_drive\<close>). The sectors are below \<open>2^24\<close> on a disk without 48-bit addresses; on one
  with them they are below \<open>2^36\<close> and fewer than 65536, where the driver names them correctly. Requests of
  one or two sectors may begin anywhere; longer ones begin at a sector, because otherwise the code copies
  the length of the whole request out of the buffer of two sectors.
\<close>

theorem storage_read_fills_buffer:
  fixes disk :: pata and dev :: storage_device
  assumes "ata_drive (max_number_of_sectors_per_one_request disk) p base control (pata_drive disk)
      (unat (size_of_sector dev)) (unat (number_of_sectors dev)) d idle reading holding"
    "pata_size_of_sector disk = size_of_sector dev" "even (unat (size_of_sector dev))" "unat (size_of_sector dev) < 131072"
    "pata_dma disk = 0" "max_number_of_sectors_per_one_request disk \<in> {256, 65536}"
    "controller_free base control idle hw" "ready dev st offset sz buffer"
    "unat (last_sector_of (size_of_sector dev) offset sz) < reach (max_number_of_sectors_per_one_request disk) (unat (number_of_sectors dev))"
    "unat (sectors_of (size_of_sector dev) offset sz) \<le> most (max_number_of_sectors_per_one_request disk)"
    "unat (sectors_of (size_of_sector dev) offset sz) \<le> 2 \<or> skip_bytes_of (size_of_sector dev) offset = 0"
  shows "\<exists>st' m' hw'. storage_read (pata_read_wrapper dma_read p disk) dev offset sz buffer (st, m, hw) = Some (release_slot st dev, st', m', hw')
    \<and> done_status st st' \<and> (\<forall>i < unat sz. m' (buffer + of_nat i) = d (unat offset + i)) \<and> controller_free base control idle hw'"
proof -
  let ?max = "max_number_of_sectors_per_one_request disk"
  have ss: "0 < unat (size_of_sector dev)" "size_of_sector dev \<noteq> 0" using assms(8) by (auto simp: ready_def word_less_nat_alt)
  have reads: "reads_on (controller_free base control idle) d (reach ?max (unat (number_of_sectors dev))) (most ?max)
      (pata_read_wrapper dma_read p disk) (size_of_sector dev)"
    using read_wrapper_reads [OF assms(1,3) ss(1) assms(4) _ assms(5,6)] assms(2) by simp
  have request: "1 < size_of_sector dev" "0 < sz" "unat offset + unat sz < 18446744073709551616"
    "buffers (size_of_sector dev) (slot_two_sectors_buffer dev ! slot (hd st)) sz buffer"
    using assms(8) not_refused by (auto simp: ready_def)
  obtain st' m' hw' where "read_sectors (pata_read_wrapper dma_read p disk) (size_of_sector dev)
      (slot_two_sectors_buffer dev ! slot (hd st)) offset sz buffer (set_own_status STORAGE_TRANSFER_RUNNING st, m, hw) = Some (st', m', hw')"
    "done_status (set_own_status STORAGE_TRANSFER_RUNNING st) st'" "filled buffer d (unat offset) (unat sz) m'" "controller_free base control idle hw'"
    using read_sectors_reads [OF reads assms(7) request assms(9,10)] by blast
  then show ?thesis using assms(8) ss(2) done_status_own
    by (auto simp: storage_read_def ready_def release_slot_def filled_def not_le)
qed

text \<open>A disk of 64 sectors with one slot.\<close>

definition small_disk :: storage_device where
  "small_disk = storage_device_of 512 64 [0x10000]"

definition first_slot :: "transfer_status list" where
  "first_slot = [\<lparr>status = STORAGE_TRANSFER_WAITING, slot = 0, transferred_bytes = 0\<rparr>]"

lemma ready_small_disk:
  "ready small_disk first_slot 700 2000 0x20000" "ready small_disk first_slot 700 100 0x20000"
  "ready small_disk first_slot 1024 2000 0x20000"
  by (simp_all add: ready_def small_disk_def first_slot_def storage_device_of_def refused_range_def buffers_def Let_def)

text \<open>
  A drive: the registers of the sector count and of the 28-bit address, and whether it is idle, has sectors
  to read or holds a sector. Its contents count up.
\<close>

datatype drive_mode = Idle_Drive | Reading_Sectors nat nat | Holding_Sector nat nat nat

record counting_drive =
  mode :: drive_mode
  count_register :: u8
  low_register :: u8
  mid_register :: u8
  high_register :: u8

definition counting_word :: "nat \<Rightarrow> u16" where
  "counting_word i = ucast (of_nat i :: u8) OR push_bit 8 (ucast (of_nat (i + 1) :: u8))"

definition counting_ports :: "counting_drive ports" where
  "counting_ports =
     \<lparr>outb = (\<lambda>port v h.
        if port = 0x1F2 then h\<lparr>count_register := v\<rparr> else if port = 0x1F3 then h\<lparr>low_register := v\<rparr>
        else if port = 0x1F4 then h\<lparr>mid_register := v\<rparr> else if port = 0x1F5 then h\<lparr>high_register := v\<rparr>
        else if port = 0x1F7 \<and> v = 0x20
        then h\<lparr>mode := Reading_Sectors (unat (low_register h) + 256 * unat (mid_register h) + 65536 * unat (high_register h))
          (if count_register h = 0 then 256 else unat (count_register h))\<rparr>
        else h),
      inb = (\<lambda>port h. (if port = 0x1F6 then 0xE0 else if mode h = Idle_Drive then 0x50 else 0x58, h)),
      inw = (\<lambda>port h. case mode h of
        Holding_Sector s k i \<Rightarrow> (counting_word (s * 512 + 2 * i),
          h\<lparr>mode := if 2 * (i + 1) < 512 then Holding_Sector s k (i + 1) else if k = 0 then Idle_Drive else Reading_Sectors (s + 1) k\<rparr>)
      | _ \<Rightarrow> (0, h)),
      get_time = (\<lambda>h. (0, h)),
      next_interrupt = (\<lambda>h. case mode h of Reading_Sectors s (Suc k) \<Rightarrow> Some (h\<lparr>mode := Holding_Sector s k 0\<rparr>) | _ \<Rightarrow> None)\<rparr>"

lemma counting_word_bytes: "ucast (counting_word i) = (of_nat i :: u8)" "ucast (drop_bit 8 (counting_word i)) = (of_nat (i + 1) :: u8)"
  unfolding counting_word_def by (rule bit_eqI, auto simp: bit_simps)+

lemma counting_drive:
  "ata_drive 256 counting_ports 0x1F0 0x3F6 0xE0 512 64 of_nat (\<lambda>h. mode h = Idle_Drive) (\<lambda>s k h. mode h = Reading_Sectors s k)
     (\<lambda>s k i h. mode h = Holding_Sector s k i)"
  unfolding ata_drive_def
proof (intro conjI)
  show "takes_read_sectors counting_ports 0x1F0 64 (\<lambda>h. mode h = Idle_Drive) (\<lambda>s k h. mode h = Reading_Sectors s k)"
    unfolding takes_read_sectors_def by (simp add: counting_ports_def)
  show "delivers_words counting_ports 0x1F0 512 of_nat (\<lambda>h. mode h = Idle_Drive) (\<lambda>s k h. mode h = Reading_Sectors s k)
      (\<lambda>s k i h. mode h = Holding_Sector s k i)"
    unfolding delivers_words_def using counting_word_bytes by (simp add: counting_ports_def)
qed (simp_all add: stays_selected_def raises_interrupts_def counting_ports_def)

definition small_pata :: pata where
  "small_pata = \<lparr>pata_size_of_sector = 512, max_number_of_sectors_per_one_request = 256, pata_dma = 0, pata_drive = 0xE0\<rparr>"

definition counting_hardware :: "ide_controller \<times> counting_drive" where
  "counting_hardware =
     (\<lparr>ide_base = 0x1F0, ide_control = 0x3F6, ide_dma = 0, ide_mutex = 0, interrupt_expected = False, timeout_thread = False,
       waiting_thread_blocked = False, ide_transfer_status = IDE_COMMAND_COMPLETED, number_of_iht_function_calls = 0,
       number_of_expected_iht_function_calls = 0, max_number_of_expected_iht_function_calls = 0\<rparr>,
      \<lparr>mode = Idle_Drive, count_register = 0, low_register = 0, mid_register = 0, high_register = 0\<rparr>)"

theorem storage_read_fills_buffer_witness:
  "\<exists>st' m' hw'. storage_read (pata_read_wrapper (\<lambda>_ _ _ _. None) counting_ports small_pata) small_disk 1024 2000 0x20000
      (first_slot, \<lambda>_. 0, counting_hardware) = Some (release_slot first_slot small_disk, st', m', hw') \<and> m' 0x20001 = 1"
proof -
  let ?read = "pata_read_wrapper (\<lambda>_ _ _ _. None) counting_ports small_pata"
  have ss: "size_of_sector small_disk = 512" "number_of_sectors small_disk = 64" by (simp_all add: small_disk_def storage_device_of_def)
  have pata: "max_number_of_sectors_per_one_request small_pata = 256" "pata_drive small_pata = 0xE0" "pata_size_of_sector small_pata = 512"
    "pata_dma small_pata = 0" by (simp_all add: small_pata_def)
  have free: "controller_free 0x1F0 0x3F6 (\<lambda>h. mode h = Idle_Drive) counting_hardware"
    by (simp add: controller_free_def counting_hardware_def)
  have request: "unat (last_sector_of 512 1024 2000) < reach 256 64" "unat (sectors_of 512 1024 2000) \<le> most 256" "skip_bytes_of 512 1024 = 0"
    by (simp_all add: last_sector_of_def sectors_of_def first_sector_of_def skip_bytes_of_def reach_def most_def)
  obtain st' m' hw' where r: "storage_read ?read small_disk 1024 2000 0x20000 (first_slot, \<lambda>_. 0, counting_hardware)
      = Some (release_slot first_slot small_disk, st', m', hw')"
    and bytes: "\<forall>i < unat (2000 :: u32). m' (0x20000 + of_nat i) = of_nat (unat (1024 :: u64) + i)"
    using storage_read_fills_buffer [of small_pata counting_ports "0x1F0" "0x3F6" small_disk of_nat "\<lambda>h. mode h = Idle_Drive"
        "\<lambda>s k h. mode h = Reading_Sectors s k" "\<lambda>s k i h. mode h = Holding_Sector s k i" counting_hardware first_slot 1024 2000 "0x20000"
        "\<lambda>_ _ _ _. None" "\<lambda>_. 0"] counting_drive ready_small_disk(3) free request by (auto simp: ss pata)
  have "m' 0x20001 = 1" using bytes [rule_format, of 1] by simp
  then show ?thesis using r by blast
qed

text \<open>
  A request of one or two sectors is written correctly: exactly the bytes of the range change on the
  device and are those of the caller, whatever the alignment.
\<close>

theorem short_requests_are_written:
  assumes "reads_device read (size_of_sector dev)" "writes_device write (size_of_sector dev)" "ready dev st offset sz buffer"
    "unat (sectors_of (size_of_sector dev) offset sz) \<le> 2"
  shows "\<exists>st' m'. storage_write read write dev offset sz buffer (st, m, d)
      = Some (release_slot st dev, st', m', written d (unat offset) (unat sz) m buffer) \<and> done_status st st'"
proof -
  let ?ss = "size_of_sector dev" and ?two = "slot_two_sectors_buffer dev ! slot (hd st)"
  have b: "buffers ?ss ?two sz buffer" and ss: "?ss \<noteq> 0" using assms(3) by (auto simp: ready_def)
  obtain f e k r where r: "request ?ss offset sz f e k r"
    using request_exists [of ?ss sz offset] assms(3) not_refused unfolding ready_def by blast
  have "unat (sectors_of ?ss offset sz) = Suc e"
    using request_words(5) [OF r] request_facts(3) [OF r] by (simp add: unat_of_nat32 del: of_nat_Suc)
  then consider "e = 0" | "e = 1" using assms(4) by linarith
  then have "\<exists>st' m'. write_sectors read write ?ss ?two offset sz buffer (set_own_status STORAGE_TRANSFER_RUNNING st, m, d)
      = Some (st', m', written d (unat offset) (unat sz) m buffer) \<and> done_status (set_own_status STORAGE_TRANSFER_RUNNING st) st'"
  proof cases
    case 1
    have "skip_bytes_of ?ss offset = 0 \<Longrightarrow> (sz = ?ss) = (last_bytes_of ?ss offset sz = ?ss)"
      using sz_is_sector [of ?ss offset sz f k r] r 1 by simp
    then show ?thesis
      using short_write [OF assms(1,2) r b, of 1 "set_own_status STORAGE_TRANSFER_RUNNING st" m d] number_of_sectors_cases [OF r] 1
      by (simp add: write_sectors_def Let_def cong: conj_cong)
  next
    case 2
    then show ?thesis
      using short_write [OF assms(1,2) r b, of 2 "set_own_status STORAGE_TRANSFER_RUNNING st" m d] number_of_sectors_cases [OF r]
      by (simp add: write_sectors_def Let_def)
  qed
  then show ?thesis using assms(3) ss done_status_own
    by (auto simp: storage_write_def ready_def release_slot_def not_le)
qed

theorem short_requests_are_written_witness:
  "\<exists>st' m'. storage_write (ideal_read 512) (ideal_write 512) small_disk 700 100 0x20000 (first_slot, \<lambda>_. 7, of_nat)
      = Some (release_slot first_slot small_disk, st', m', written of_nat 700 100 (\<lambda>_. 7) 0x20000)"
proof -
  have ss: "size_of_sector small_disk = 512" by (simp add: small_disk_def storage_device_of_def)
  have "reads_device (ideal_read 512) (size_of_sector small_disk)" "writes_device (ideal_write 512) (size_of_sector small_disk)"
    unfolding ss by (rule ideal_device)+
  moreover have "unat (sectors_of (size_of_sector small_disk) 700 100) \<le> 2"
    unfolding ss by (simp add: sectors_of_def last_sector_of_def first_sector_of_def)
  ultimately show ?thesis
    using short_requests_are_written [OF _ _ ready_small_disk(2), of "ideal_read 512" "ideal_write 512" "\<lambda>_. 7" of_nat] by auto
qed

text \<open>
  C32. A request of three or more sectors whose last sector is used in part reports success, but its last bytes
  are not written: the device keeps its old ones, and the buffer of the caller is overwritten with them,
  because the last copy has source and destination exchanged.
\<close>

theorem long_write_loses_last_bytes:
  assumes "reads_device read (size_of_sector dev)" "writes_device write (size_of_sector dev)" "ready dev st offset sz buffer"
    "2 < unat (sectors_of (size_of_sector dev) offset sz)" "last_bytes_of (size_of_sector dev) offset sz < size_of_sector dev"
  shows "\<exists>st' m' d'. storage_write read write dev offset sz buffer (st, m, d) = Some (release_slot st dev, st', m', d') \<and> done_status st st'
    \<and> (\<forall>i. unat sz - unat (last_bytes_of (size_of_sector dev) offset sz) \<le> i \<and> i < unat sz
        \<longrightarrow> d' (unat offset + i) = d (unat offset + i) \<and> m' (buffer + of_nat i) = d (unat offset + i))"
proof -
  let ?ss = "size_of_sector dev" and ?two = "slot_two_sectors_buffer dev ! slot (hd st)"
  have b: "buffers ?ss ?two sz buffer" and ss: "?ss \<noteq> 0" using assms(3) by (auto simp: ready_def)
  obtain f e k r where r: "request ?ss offset sz f e k r"
    using request_exists [of ?ss sz offset] assms(3) not_refused unfolding ready_def by blast
  have "unat (sectors_of ?ss offset sz) = Suc e"
    using request_words(5) [OF r] request_facts(3) [OF r] by (simp add: unat_of_nat32 del: of_nat_Suc)
  then have e: "2 \<le> e" using assms(4) by linarith
  obtain st' m' d' where "write_sectors read write ?ss ?two offset sz buffer (set_own_status STORAGE_TRANSFER_RUNNING st, m, d) = Some (st', m', d')"
    "done_status (set_own_status STORAGE_TRANSFER_RUNNING st) st'"
    "\<And>i. unat sz - r \<le> i \<Longrightarrow> i < unat sz \<Longrightarrow> d' (unat offset + i) = d (unat offset + i) \<and> m' (buffer + of_nat i) = d (unat offset + i)"
    by (rule long_write [OF assms(1,2) r b e assms(5) [THEN request_zero(3) [OF r, THEN iffD1]],
        where st = "set_own_status STORAGE_TRANSFER_RUNNING st" and m = m and d = d]) (rule that, assumption+)
  then show ?thesis using assms(3) ss done_status_own request_words(4) [OF r]
    by (auto simp: storage_write_def ready_def release_slot_def not_le)
qed

theorem long_write_loses_last_bytes_witness:
  "\<exists>st' m' d'. storage_write (ideal_read 512) (ideal_write 512) small_disk 700 2000 0x20000 (first_slot, \<lambda>_. 7, \<lambda>_. 1)
      = Some (release_slot first_slot small_disk, st', m', d') \<and> d' 2699 = 1 \<and> m' 0x207CF = 1"
proof -
  have ss: "size_of_sector small_disk = 512" by (simp add: small_disk_def storage_device_of_def)
  have "reads_device (ideal_read 512) (size_of_sector small_disk)" "writes_device (ideal_write 512) (size_of_sector small_disk)"
    unfolding ss by (rule ideal_device)+
  moreover have last: "last_bytes_of (size_of_sector small_disk) 700 2000 = 140" "2 < unat (sectors_of (size_of_sector small_disk) 700 2000)"
    unfolding ss by (simp_all add: last_bytes_of_def sectors_of_def last_sector_of_def first_sector_of_def)
  moreover have "last_bytes_of (size_of_sector small_disk) 700 2000 < size_of_sector small_disk" unfolding last(1) unfolding ss by simp
  ultimately obtain st' m' d' where "storage_write (ideal_read 512) (ideal_write 512) small_disk 700 2000 0x20000 (first_slot, \<lambda>_. 7, \<lambda>_. 1)
      = Some (release_slot first_slot small_disk, st', m', d')"
    "\<forall>i. unat (2000 :: u32) - unat (140 :: u32) \<le> i \<and> i < unat (2000 :: u32) \<longrightarrow> d' (unat (700 :: u64) + i) = 1 \<and> m' (0x20000 + of_nat i) = 1"
    using long_write_loses_last_bytes [OF _ _ ready_small_disk(1), of "ideal_read 512" "ideal_write 512" "\<lambda>_. 7" "\<lambda>_. 1"]
    unfolding last(1) by blast
  then show ?thesis by (auto dest!: spec [of _ 1999])
qed

text \<open>
  C33. The same request, when it also begins inside a sector, destroys memory behind the buffer of the slot: the
  first copy takes the length of the whole request instead of the rest of the sector, so that the bytes of
  the caller are written behind the two sectors that the buffer has.
\<close>

theorem long_write_overruns_slot_buffer:
  assumes "reads_device read (size_of_sector dev)" "writes_device write (size_of_sector dev)" "ready dev st offset sz buffer"
    "2 < unat (sectors_of (size_of_sector dev) offset sz)" "last_bytes_of (size_of_sector dev) offset sz < size_of_sector dev"
    "skip = skip_bytes_of (size_of_sector dev) offset" "0 < skip" "two = slot_two_sectors_buffer dev ! slot (hd st)"
    "unat two + unat skip + unat sz \<le> 4294967296"
    "unat buffer + unat sz \<le> unat two \<or> unat two + unat skip + unat sz \<le> unat buffer"
    "2 * unat (size_of_sector dev) \<le> i" "i < unat skip + unat sz"
  shows "\<exists>st' m' d'. storage_write read write dev offset sz buffer (st, m, d) = Some (release_slot st dev, st', m', d')
    \<and> m' (two + of_nat i) = m (buffer + of_nat (i - unat skip))"
proof -
  let ?ss = "size_of_sector dev"
  have b: "buffers ?ss two sz buffer" and ss: "?ss \<noteq> 0" using assms(3,8) by (auto simp: ready_def)
  obtain f e k r where r: "request ?ss offset sz f e k r"
    using request_exists [of ?ss sz offset] assms(3) not_refused unfolding ready_def by blast
  have "unat (sectors_of ?ss offset sz) = Suc e"
    using request_words(5) [OF r] request_facts(3) [OF r] by (simp add: unat_of_nat32 del: of_nat_Suc)
  then have e: "2 \<le> e" using assms(4) by linarith
  have k: "unat skip = k" "0 < k" using request_words(2) [OF r] assms(6,7) by (simp_all add: word_less_nat_alt)
  obtain st' m' d' where w: "write_sectors read write ?ss two offset sz buffer (set_own_status STORAGE_TRANSFER_RUNNING st, m, d) = Some (st', m', d')"
    and over: "\<And>i. 0 < k \<Longrightarrow> 2 * unat ?ss \<le> i \<Longrightarrow> i < k + unat sz \<Longrightarrow> unat two + k + unat sz \<le> 4294967296 \<Longrightarrow>
      unat buffer + unat sz \<le> unat two \<or> unat two + k + unat sz \<le> unat buffer \<Longrightarrow> m' (two + of_nat i) = m (buffer + of_nat (i - k))"
    by (rule long_write [OF assms(1,2) r b e assms(5) [THEN request_zero(3) [OF r, THEN iffD1]],
        where st = "set_own_status STORAGE_TRANSFER_RUNNING st" and m = m and d = d]) (rule that, assumption+)
  have "m' (two + of_nat i) = m (buffer + of_nat (i - k))"
    using assms(9-12) k by (intro over) simp_all
  then show ?thesis using assms(3,8) ss w k(1)
    by (auto simp: storage_write_def ready_def release_slot_def not_le)
qed

theorem long_write_overruns_slot_buffer_witness:
  "\<exists>st' m' d'. storage_write (ideal_read 512) (ideal_write 512) small_disk 700 2000 0x20000 (first_slot, \<lambda>_. 7, \<lambda>_. 1)
      = Some (release_slot first_slot small_disk, st', m', d') \<and> m' 0x10400 = 7"
proof -
  have ss: "size_of_sector small_disk = 512" by (simp add: small_disk_def storage_device_of_def)
  have two: "slot_two_sectors_buffer small_disk ! slot (hd first_slot) = 0x10000" by (simp add: small_disk_def storage_device_of_def first_slot_def)
  have skip: "skip_bytes_of 512 700 = 188" by (simp add: skip_bytes_of_def first_sector_of_def)
  have "last_bytes_of 512 700 2000 < 512" "2 < unat (sectors_of 512 700 2000)"
    by (simp_all add: last_bytes_of_def sectors_of_def last_sector_of_def first_sector_of_def)
  then show ?thesis
    using long_write_overruns_slot_buffer [of "ideal_read 512" small_disk "ideal_write 512" first_slot 700 2000 "0x20000" 188 "0x10000" 1024 "\<lambda>_. 7" "\<lambda>_. 1"]
      ready_small_disk(1) ideal_device [of 512] unfolding ss two skip by simp
qed

text \<open>
  C34. A request that is refused because it does not lie on the device keeps its slot for ever: afterwards a
  device with one slot, as the hard disk driver has, refuses every transfer.
\<close>

theorem refused_request_leaks_slot:
  assumes "refused_range dev offset sz" "is_transfer_slot_taken dev = [False]"
  shows "\<exists>dev'. storage_simple_read read dev offset sz buffer md = Some (False, dev', md)
    \<and> storage_simple_read read' dev' offset' sz' buffer' md' = Some (False, dev', md')
    \<and> storage_simple_write read' write' dev' offset' sz' buffer' md' = Some (False, dev', md')"
proof -
  let ?dev = "dev\<lparr>is_transfer_slot_taken := [True]\<rparr>"
  have "storage_prepare_transfer dev = Some (?dev, \<lparr>status = STORAGE_TRANSFER_WAITING, slot = 0, transferred_bytes = 0\<rparr>)"
    using assms(2) by (simp add: storage_prepare_transfer_def)
  moreover have "refused_range ?dev offset sz" using assms(1) by (simp add: refused_range_def)
  ultimately have "storage_simple_read read dev offset sz buffer md = Some (False, ?dev, md)"
    by (simp add: storage_simple_read_def storage_read_def storage_status_defs split: prod.split)
  moreover have "storage_prepare_transfer ?dev = None" by (simp add: storage_prepare_transfer_def)
  ultimately show ?thesis by (simp add: storage_simple_read_def storage_simple_write_def)
qed

theorem refused_request_leaks_slot_witness:
  "\<exists>dev'. storage_simple_read (ideal_read 512) small_disk 0x8000 1 0x20000 (\<lambda>_. 0, of_nat) = Some (False, dev', \<lambda>_. 0, of_nat)
    \<and> storage_simple_read (ideal_read 512) dev' 0 1 0x20000 (\<lambda>_. 0, of_nat) = Some (False, dev', \<lambda>_. 0, of_nat)"
proof -
  have "refused_range small_disk 0x8000 1" "is_transfer_slot_taken small_disk = [False]"
    by (simp_all add: refused_range_def small_disk_def storage_device_of_def Let_def)
  from refused_request_leaks_slot [OF this] show ?thesis by blast
qed

section \<open>Packets\<close>

text \<open>The plan of a packet: which byte of memory each byte of the device belongs to, in order.\<close>

definition plan_of :: "u64 \<times> u32 \<times> u32 \<Rightarrow> (u64 \<times> u32) list" where
  "plan_of = (\<lambda>(offset, sz, buffer). map (\<lambda>i. (offset + of_nat i, buffer + of_nat i)) [0..<unat sz])"

definition packet_plan :: "transfer_packet \<Rightarrow> (u64 \<times> u32) list" where
  "packet_plan p = concat (map plan_of (entries p))"

definition packet_ok :: "transfer_packet \<Rightarrow> bool" where
  "packet_ok p \<longleftrightarrow> length (packet_plan p) = unat (packet_size p)
     \<and> (entries p \<noteq> [] \<longrightarrow> (let (_, sz, buffer) = last (entries p) in buffer + sz = packet_buffer p))"

lemma plan_of_append:
  assumes "unat a + unat b < 4294967296"
  shows "plan_of (offset, a + b, buffer) = plan_of (offset, a, buffer) @ plan_of (offset + ucast a, b, buffer + a)"
proof -
  have split: "[0..<unat (a + b)] = [0..<unat a] @ map (\<lambda>i. i + unat a) [0..<unat b]"
    unfolding unat_add_small [OF assms] map_add_upt using upt_add_eq_append [of 0 "unat a" "unat b"] by (simp only: add.commute le0)
  have "map (\<lambda>i. (offset + of_nat i, buffer + of_nat i)) (map (\<lambda>i. i + unat a) [0..<unat b])
    = map (\<lambda>i. (offset + ucast a + of_nat i, buffer + a + of_nat i)) [0..<unat b]"
    by (simp add: add.assoc add.commute [of "of_nat _" "ucast a"] add.commute [of "of_nat _" a])
  then show ?thesis unfolding plan_of_def prod.case split map_append by simp
qed

text \<open>
  Adding a transfer to a packet appends exactly its bytes to the plan of the packet, at the place of the
  buffer where the packet ended, whether it is joined with the last entry or gets its own; the size of
  the packet is the number of bytes of the plan. Sizes below 4 GB together are assumed.
\<close>

theorem add_transfer_appends_to_plan:
  assumes "packet_ok p" "unat (packet_size p) + unat sz < 4294967296"
  shows "packet_ok (add_transfer_to_packet offset sz p)
    \<and> packet_plan (add_transfer_to_packet offset sz p) = packet_plan p @ plan_of (offset, sz, packet_buffer p)"
proof -
  have len: "length (plan_of e) = unat (fst (snd e))" for e by (simp add: plan_of_def split: prod.split)
  have size: "unat (packet_size p + sz) = unat (packet_size p) + unat sz" using assms(2) by (rule unat_add_small)
  have plan: "packet_plan (add_transfer_to_packet offset sz p) = packet_plan p @ plan_of (offset, sz, packet_buffer p)
    \<and> (let (_, n, buffer) = last (entries (add_transfer_to_packet offset sz p)) in buffer + n = packet_buffer p + sz)"
  proof (cases "entries p" rule: rev_cases)
    case Nil
    then show ?thesis by (simp add: add_transfer_to_packet_def packet_plan_def)
  next
    case (snoc es e)
    obtain o' n b where e: "e = (o', n, b)" by (cases e)
    have b: "b + n = packet_buffer p" using assms(1) snoc e by (simp add: packet_ok_def)
    show ?thesis
    proof (cases "o' + ucast n = offset")
      case True
      have "unat n \<le> unat (packet_size p)" using assms(1) snoc e len [of e] by (simp add: packet_ok_def packet_plan_def)
      then have "unat n + unat sz < 4294967296" using assms(2) by linarith
      then show ?thesis using True snoc e b plan_of_append [of n sz o' b]
        by (simp add: add_transfer_to_packet_def packet_plan_def Let_def algebra_simps)
    next
      case False
      then show ?thesis using snoc e by (simp add: add_transfer_to_packet_def packet_plan_def Let_def)
    qed
  qed
  moreover have "packet_size (add_transfer_to_packet offset sz p) = packet_size p + sz"
    "packet_buffer (add_transfer_to_packet offset sz p) = packet_buffer p + sz"
    by (simp_all add: add_transfer_to_packet_def Let_def)
  ultimately show ?thesis using assms(1) size by (simp add: packet_ok_def len)
qed

theorem add_transfer_appends_to_plan_witness:
  "packet_ok (add_transfer_to_packet 512 512 (create_transfer_packet 0x1000))
    \<and> entries (add_transfer_to_packet 1024 512 (add_transfer_to_packet 512 512 (create_transfer_packet 0x1000))) = [(512, 1024, 0x1000)]"
proof -
  have "packet_ok (create_transfer_packet 0x1000)" "unat (packet_size (create_transfer_packet 0x1000)) + unat (512 :: u32) < 4294967296"
    by (simp_all add: packet_ok_def packet_plan_def create_transfer_packet_def)
  from add_transfer_appends_to_plan [OF this] show ?thesis
    by (simp add: add_transfer_to_packet_def create_transfer_packet_def)
qed

end
