(* ===== verification/Draw.thy ===== *)
theory Draw
  imports Prelude
begin

text \<open>
  Drawing on a screen (\<open>source/kernel/hardware/subsystems/screen/draw.c\<close>): the clipping of a rectangle to a
  part of the screen, squares with and without transparency, bitmaps, and the buffers that save what lies
  under a region. A screen is its pixels in memory, four bytes each, line after line; the C type \<open>int\<close> is
  \<open>int\<close> with the wrap of 32 bits written out where a sum could leave its range.
\<close>

section \<open>Clipping\<close>

record screen_part =
  part_x :: u32
  part_y :: u32
  part_width :: u32
  part_height :: u32

record calculated_area =
  area_top :: int
  area_bottom :: int
  area_left :: int
  area_right :: int
  first_line :: int
  first_column :: int
  last_line :: int
  last_column :: int
  area_width :: int
  area_height :: int

definition int32 :: "int \<Rightarrow> int" where
  "int32 z = signed_take_bit 31 z"

text \<open>
  One direction of the clipping: where the visible piece starts and ends in the part, and which lines (or
  columns) of the rectangle it shows; \<open>None\<close> when nothing is visible (\<open>drawable\<close> stays false).
\<close>

definition clip_axis :: "int \<Rightarrow> int \<Rightarrow> int \<Rightarrow> (int \<times> int \<times> int \<times> int) option" where
  "clip_axis limit pos size_of =
     (if pos \<ge> limit then None
      else let end_of = int32 (pos + size_of)
      in if end_of \<le> 0 then None
      else let (first, start) = (if pos < 0 then (int32 (pos * - 1), 0) else (0, pos));
               (last, end_of) = (if end_of \<ge> limit then (int32 (size_of - (end_of - limit)), limit) else (size_of, end_of))
      in Some (start, end_of, first, last))"

definition calculate_area :: "int \<Rightarrow> int \<Rightarrow> int \<Rightarrow> int \<Rightarrow> int \<Rightarrow> int \<Rightarrow> calculated_area option" where
  "calculate_area limit_width limit_height x y width height =
     (case clip_axis limit_height y height of None \<Rightarrow> None
      | Some (t, b, fl, ll) \<Rightarrow>
        (case clip_axis limit_width x width of None \<Rightarrow> None
         | Some (left, right, fc, lc) \<Rightarrow>
           Some \<lparr>area_top = t, area_bottom = b, area_left = left, area_right = right, first_line = fl,
             first_column = fc, last_line = ll, last_column = lc, area_width = int32 (lc - fc), area_height = int32 (ll - fl)\<rparr>))"

definition calculate_area_in_part :: "screen_part \<Rightarrow> int \<Rightarrow> int \<Rightarrow> int \<Rightarrow> int \<Rightarrow> calculated_area option" where
  "calculate_area_in_part part x y width height =
     calculate_area (sint (part_width part)) (sint (part_height part)) x y width height"

section \<open>Squares\<close>

text \<open>The byte of a colour over a byte of the screen: the division by 255 without dividing.\<close>

definition blend :: "u8 \<Rightarrow> u8 \<Rightarrow> u8 \<Rightarrow> u8" where
  "blend color alpha old =
     (let alpha_inverted = 255 - alpha;
          temp = (ucast color * ucast alpha) + (ucast old * ucast alpha_inverted) :: u32
      in ucast (drop_bit 8 (temp + 1 + drop_bit 8 temp)))"

definition blend_pixel :: "u32 \<Rightarrow> u32 \<Rightarrow> mem \<Rightarrow> mem" where
  "blend_pixel color line_dst m =
     (let alpha = ucast (drop_bit 24 color);
          red = ucast (drop_bit 16 color); green = ucast (drop_bit 8 color); blue = ucast color;
          m = m(line_dst + 2 := blend red alpha (m (line_dst + 2)));
          m = m(line_dst + 1 := blend green alpha (m (line_dst + 1)))
      in m(line_dst := blend blue alpha (m line_dst)))"

definition draw_square :: "u32 \<Rightarrow> u32 \<Rightarrow> u32 \<Rightarrow> u32 \<Rightarrow> u32 \<Rightarrow> u32 \<Rightarrow> u32 \<Rightarrow> mem \<Rightarrow> mem" where
  "draw_square screen output_width x y width height color m =
     (let dst = screen + (y * output_width * 4) + (x * 4)
      in if color AND 0xFF000000 = 0xFF000000 then
           fold (\<lambda>i. fold (\<lambda>j m. store32 m (dst + of_nat i * (output_width * 4) + of_nat j * 4) color) [0..<unat width])
             [0..<unat height] m
         else
           fold (\<lambda>i. fold (\<lambda>j. blend_pixel color (dst + of_nat i * (output_width * 4) + of_nat j * 4)) [0..<unat width])
             [0..<unat height] m)"

definition draw_square_in_part :: "u32 \<Rightarrow> u32 \<Rightarrow> screen_part \<Rightarrow> int \<Rightarrow> int \<Rightarrow> int \<Rightarrow> int \<Rightarrow> u32 \<Rightarrow> mem \<Rightarrow> mem" where
  "draw_square_in_part screen output_width part x y width height color m =
     (case calculate_area_in_part part x y width height of None \<Rightarrow> m
      | Some area \<Rightarrow> draw_square screen output_width (part_x part + word_of_int (area_left area))
          (part_y part + word_of_int (area_top area)) (word_of_int (area_width area)) (word_of_int (area_height area)) color m)"

section \<open>Bitmaps\<close>

text \<open>A pixel of a bitmap is copied unless its alpha is zero.\<close>

definition draw_bitmap_pixel :: "u32 \<Rightarrow> u32 \<Rightarrow> mem \<Rightarrow> mem" where
  "draw_bitmap_pixel line_dst line_src m =
     (if load32 m line_src AND 0xFF000000 = 0 then m else store32 m line_dst (load32 m line_src))"

definition draw_bitmap_lines :: "u32 \<Rightarrow> u32 \<Rightarrow> u32 \<Rightarrow> u32 \<Rightarrow> u32 \<Rightarrow> u32 \<Rightarrow> mem \<Rightarrow> mem" where
  "draw_bitmap_lines dst view_width src width showed_width showed_height =
     fold (\<lambda>i. fold (\<lambda>j. draw_bitmap_pixel (dst + of_nat i * (view_width * 4) + of_nat j * 4)
         (src + of_nat i * (width * 4) + of_nat j * 4)) [0..<unat showed_width]) [0..<unat showed_height]"

definition draw_bitmap :: "u32 \<Rightarrow> u32 \<Rightarrow> u32 \<Rightarrow> u32 \<Rightarrow> u32 \<Rightarrow> u32 \<Rightarrow> u32 \<Rightarrow> u32 \<Rightarrow> u32 \<Rightarrow> mem \<Rightarrow> mem" where
  "draw_bitmap output_width output_height buffer view_width x y data width height m =
     (case calculate_area (sint output_width) (sint output_height) (sint x) (sint y) (sint width) (sint height) of None \<Rightarrow> m
      | Some area \<Rightarrow>
        let t = word_of_int (area_top area); left = word_of_int (area_left area);
            fl = word_of_int (first_line area); fc = word_of_int (first_column area)
        in draw_bitmap_lines (buffer + ((t * view_width) + left) * 4) view_width (data + ((fl * width) + fc) * 4) width
             (word_of_int (area_width area)) (word_of_int (area_height area)) m)"

definition draw_bitmap_in_part :: "u32 \<Rightarrow> u32 \<Rightarrow> screen_part \<Rightarrow> u32 \<Rightarrow> u32 \<Rightarrow> u32 \<Rightarrow> u32 \<Rightarrow> u32 \<Rightarrow> mem \<Rightarrow> mem" where
  "draw_bitmap_in_part buffer view_width part x y data width height m =
     (case calculate_area_in_part part (sint x) (sint y) (sint width) (sint height) of None \<Rightarrow> m
      | Some area \<Rightarrow>
        let t = word_of_int (area_top area) + part_y part; left = word_of_int (area_left area) + part_x part;
            fl = word_of_int (first_line area); fc = word_of_int (first_column area)
        in draw_bitmap_lines (buffer + ((t * view_width) + left) * 4) view_width (data + ((fl * width) + fc) * 4) width
             (word_of_int (area_width area)) (word_of_int (area_height area)) m)"

section \<open>Buffers that save a region\<close>

record screen_part_buffer =
  screen :: u32
  screen_ptr :: u32
  screen_width :: u32
  buffer_x :: u32
  buffer_y :: u32
  buffer_width :: u32
  buffer_height :: u32
  buffer_pixels :: u32

text \<open>\<open>buffer_pixels\<close> is the address of the flexible array behind the structure.\<close>

definition alloc_screen_part_buffer :: "u32 \<Rightarrow> u32 \<Rightarrow> u32 \<Rightarrow> u32 \<Rightarrow> u32 \<Rightarrow> u32 \<Rightarrow> u32 \<Rightarrow> screen_part_buffer" where
  "alloc_screen_part_buffer buffer scr scr_width x y width height =
     \<lparr>screen = scr, screen_ptr = scr + (y * scr_width * 4) + (x * 4), screen_width = scr_width, buffer_x = x, buffer_y = y,
       buffer_width = width, buffer_height = height, buffer_pixels = buffer + 28\<rparr>"

definition move_screen_part_buffer :: "(u32 \<Rightarrow> u32) \<Rightarrow> u32 \<Rightarrow> u32 \<Rightarrow> u32 \<Rightarrow> u32 \<Rightarrow> screen_part_buffer \<Rightarrow> screen_part_buffer" where
  "move_screen_part_buffer krealloc x y width height b =
     (let b = (if width * height \<noteq> buffer_width b * buffer_height b
               then b\<lparr>buffer_pixels := krealloc (28 + (width * height * 4)) + 28\<rparr> else b)
      in b\<lparr>screen_ptr := screen b + (y * screen_width b * 4) + (x * 4), buffer_x := x, buffer_y := y,
           buffer_width := width, buffer_height := height\<rparr>)"

text \<open>The pointer into the buffer runs on from line to line; that into the screen skips the rest of a line.\<close>

definition copy_from_screen_to_buffer :: "screen_part_buffer \<Rightarrow> mem \<Rightarrow> mem" where
  "copy_from_screen_to_buffer b =
     fold (\<lambda>i. fold (\<lambda>j m. store32 m (buffer_pixels b + (of_nat i * buffer_width b + of_nat j) * 4)
         (load32 m (screen_ptr b + of_nat i * (screen_width b * 4) + of_nat j * 4))) [0..<unat (buffer_width b)])
       [0..<unat (buffer_height b)]"

definition copy_from_buffer_to_screen :: "screen_part_buffer \<Rightarrow> mem \<Rightarrow> mem" where
  "copy_from_buffer_to_screen b =
     fold (\<lambda>i. fold (\<lambda>j m. store32 m (screen_ptr b + of_nat i * (screen_width b * 4) + of_nat j * 4)
         (load32 m (buffer_pixels b + (of_nat i * buffer_width b + of_nat j) * 4))) [0..<unat (buffer_width b)])
       [0..<unat (buffer_height b)]"

section \<open>Loops over pixels\<close>

lemma fold_product:
  "fold (\<lambda>i. fold (f i) ys) xs m = fold (\<lambda>(i, j). f i j) (List.product xs ys) m"
  by (induction xs arbitrary: m) (simp_all add: fold_map comp_def)

text \<open>
  Steps that each change a cell of their own, and read nothing another step changes: the cell holds what
  its step writes there, and the rest of the memory is as before.
\<close>

lemma fold_cells:
  fixes f :: "'p \<Rightarrow> mem \<Rightarrow> mem"
  assumes "distinct ps"
    and outside: "\<And>p m a. p \<in> set ps \<Longrightarrow> \<not> cell p a \<Longrightarrow> f p m a = m a"
    and disjoint: "\<And>p q a. p \<in> set ps \<Longrightarrow> q \<in> set ps \<Longrightarrow> cell p a \<Longrightarrow> cell q a \<Longrightarrow> p = q"
    and local: "\<And>p m m' a. p \<in> set ps \<Longrightarrow> cell p a \<Longrightarrow>
      (\<And>b. (\<forall>q \<in> set ps. cell q b \<longrightarrow> q = p) \<Longrightarrow> m' b = m b) \<Longrightarrow> f p m' a = f p m a"
  shows "(\<forall>p \<in> set ps. \<forall>a. cell p a \<longrightarrow> fold f ps m a = f p m a)
    \<and> (\<forall>a. (\<forall>p \<in> set ps. \<not> cell p a) \<longrightarrow> fold f ps m a = m a)"
proof -
  have "set qs \<subseteq> set ps \<Longrightarrow> distinct qs \<Longrightarrow>
      (\<forall>p \<in> set qs. \<forall>a. cell p a \<longrightarrow> fold f qs m a = f p m a)
    \<and> (\<forall>a. (\<forall>p \<in> set qs. \<not> cell p a) \<longrightarrow> fold f qs m a = m a)" for qs
  proof (induction qs rule: rev_induct)
    case (snoc q qs)
    then have q: "q \<in> set ps" "q \<notin> set qs" and sub: "set qs \<subseteq> set ps"
      and IH: "\<And>p a. p \<in> set qs \<Longrightarrow> cell p a \<Longrightarrow> fold f qs m a = f p m a"
        "\<And>a. (\<forall>p \<in> set qs. \<not> cell p a) \<Longrightarrow> fold f qs m a = m a" by auto
    have own: "f q (fold f qs m) a = f q m a" if "cell q a" for a
    proof (rule local [OF q(1) that])
      fix b assume "\<forall>p \<in> set ps. cell p b \<longrightarrow> p = q"
      then show "fold f qs m b = m b" using q sub by (intro IH(2)) blast
    qed
    have other: "f q (fold f qs m) a = f p m a" if "p \<in> set qs" "cell p a" for p a
    proof -
      have "\<not> cell q a" using that q sub disjoint [of p q a] by blast
      then show ?thesis using outside [OF q(1)] IH(1) [OF that] by simp
    qed
    have rest: "f q (fold f qs m) a = m a" if "\<forall>p \<in> set (qs @ [q]). \<not> cell p a" for a
      using that outside [OF q(1)] IH(2) by simp
    show ?case using own other rest by (auto simp: ball_Un)
  qed simp
  from this [of ps] assms(1) show ?thesis by blast
qed

lemma fold_grid:
  fixes f :: "nat \<Rightarrow> nat \<Rightarrow> mem \<Rightarrow> mem"
  assumes outside: "\<And>i j m a. i < h \<Longrightarrow> j < w \<Longrightarrow> \<not> cell i j a \<Longrightarrow> f i j m a = m a"
    and disjoint: "\<And>i j i' j' a. i < h \<Longrightarrow> j < w \<Longrightarrow> i' < h \<Longrightarrow> j' < w \<Longrightarrow> cell i j a \<Longrightarrow> cell i' j' a \<Longrightarrow> i = i' \<and> j = j'"
    and local: "\<And>i j m m' a. i < h \<Longrightarrow> j < w \<Longrightarrow> cell i j a \<Longrightarrow>
      (\<And>b. (\<forall>i' < h. \<forall>j' < w. cell i' j' b \<longrightarrow> i' = i \<and> j' = j) \<Longrightarrow> m' b = m b) \<Longrightarrow> f i j m' a = f i j m a"
  shows "i < h \<Longrightarrow> j < w \<Longrightarrow> cell i j a \<Longrightarrow> fold (\<lambda>i. fold (f i) [0..<w]) [0..<h] m a = f i j m a"
    and "(\<And>i j. i < h \<Longrightarrow> j < w \<Longrightarrow> \<not> cell i j a) \<Longrightarrow> fold (\<lambda>i. fold (f i) [0..<w]) [0..<h] m a = m a"
proof -
  let ?ps = "List.product [0..<h] [0..<w]"
  have *: "(\<forall>p \<in> set ?ps. \<forall>a. case_prod cell p a \<longrightarrow> fold (\<lambda>(i, j). f i j) ?ps m a = (\<lambda>(i, j). f i j) p m a)
    \<and> (\<forall>a. (\<forall>p \<in> set ?ps. \<not> case_prod cell p a) \<longrightarrow> fold (\<lambda>(i, j). f i j) ?ps m a = m a)"
  proof (rule fold_cells)
    show "distinct ?ps" by (simp add: distinct_product)
  next
    fix p m a assume "p \<in> set ?ps" "\<not> case_prod cell p a"
    then show "(\<lambda>(i, j). f i j) p m a = m a" using outside [of "fst p" "snd p"] by (simp add: split_def mem_Times_iff)
  next
    fix p q a assume "p \<in> set ?ps" "q \<in> set ?ps" "case_prod cell p a" "case_prod cell q a"
    then show "p = q" using disjoint [of "fst p" "snd p" "fst q" "snd q"] by (simp add: split_def mem_Times_iff prod_eq_iff)
  next
    fix p :: "nat \<times> nat" and m m' :: mem and a
    assume p: "p \<in> set ?ps" "case_prod cell p a"
      and same: "\<And>b. (\<forall>q \<in> set ?ps. case_prod cell q b \<longrightarrow> q = p) \<Longrightarrow> m' b = m b"
    have p': "fst p < h" "snd p < w" "cell (fst p) (snd p) a" using p by (simp_all add: split_def mem_Times_iff)
    have "f (fst p) (snd p) m' a = f (fst p) (snd p) m a"
    proof (rule local [OF p'])
      fix b assume b: "\<forall>i' < h. \<forall>j' < w. cell i' j' b \<longrightarrow> i' = fst p \<and> j' = snd p"
      show "m' b = m b"
      proof (rule same, intro ballI impI)
        fix q assume "q \<in> set ?ps" "case_prod cell q b"
        then show "q = p" using b by (auto simp: split_def mem_Times_iff prod_eq_iff)
      qed
    qed
    then show "(\<lambda>(i, j). f i j) p m' a = (\<lambda>(i, j). f i j) p m a" by (simp add: split_def)
  qed
  show "i < h \<Longrightarrow> j < w \<Longrightarrow> cell i j a \<Longrightarrow> fold (\<lambda>i. fold (f i) [0..<w]) [0..<h] m a = f i j m a"
    using * by (simp add: fold_product)
  show "(\<And>i j. i < h \<Longrightarrow> j < w \<Longrightarrow> \<not> cell i j a) \<Longrightarrow> fold (\<lambda>i. fold (f i) [0..<w]) [0..<h] m a = m a"
    using * by (auto simp: fold_product)
qed

end
