(* ===== verification/Draw_Properties.thy ===== *)
theory Draw_Properties
  imports Draw
begin

text \<open>
  What the drawing of \<open>Draw\<close> does to the pixels of a screen: every shape is cut to the part it is drawn in,
  transparency is exact, and a saved region is restored.
\<close>

section \<open>Pixels of a screen\<close>

definition pixel_address :: "u32 \<Rightarrow> nat \<Rightarrow> nat \<Rightarrow> nat \<Rightarrow> u32" where
  "pixel_address base w x y = base + of_nat (4 * (y * w + x))"

definition pixel :: "mem \<Rightarrow> u32 \<Rightarrow> nat \<Rightarrow> nat \<Rightarrow> nat \<Rightarrow> u32" where
  "pixel m base w x y = load32 m (pixel_address base w x y)"

lemma inside_cell:
  assumes "4 * n + 4 \<le> 4294967296"
  shows "inside (base + of_nat (4 * n)) 4 a \<longleftrightarrow> unat (a - base) div 4 = n"
proof -
  have "a - (base + of_nat (4 * n)) = (a - base) - of_nat (4 * n)" by simp
  moreover have "unat (of_nat (4 * n) :: u32) = 4 * n" using assms by (intro unat_of_nat32) simp
  ultimately have "unat (a - (base + of_nat (4 * n))) =
      (if 4 * n \<le> unat (a - base) then unat (a - base) - 4 * n else unat (a - base) + 4294967296 - 4 * n)"
    by (simp only: unat_sub_wrap word_le_nat_alt)
  then have "inside (base + of_nat (4 * n)) 4 a \<longleftrightarrow> 4 * n \<le> unat (a - base) \<and> unat (a - base) - 4 * n < 4"
    using assms unat_less_4G [of "a - base"] by (auto simp: inside_def word_less_nat_alt)
  also have "\<dots> \<longleftrightarrow> unat (a - base) div 4 = n" by auto
  finally show ?thesis .
qed

lemma cell_le: "n + 1 \<le> k \<Longrightarrow> 4 * n + 4 \<le> 4 * (k :: nat)"
  by simp

lemma cell_less: "4 * n + 4 \<le> 4 * k \<Longrightarrow> n < (k :: nat)"
  by simp

lemma cell_fits:
  fixes x y w h :: nat
  assumes "x < w" "y < h" "4 * (h * w) \<le> 4294967296"
  shows "4 * (y * w + x) + 4 \<le> 4294967296"
proof -
  have "y * w + x + 1 \<le> y * w + w" using assms by simp
  also have "\<dots> = Suc y * w" by simp
  also have "\<dots> \<le> h * w" using assms by (intro mult_le_mono1) simp
  finally show ?thesis by (rule le_trans [OF cell_le assms(3)])
qed

lemma cell_unique: "x < w \<Longrightarrow> x' < w \<Longrightarrow> y * w + x = y' * w + x' \<longleftrightarrow> x = x' \<and> y = (y' :: nat)"
proof
  assume *: "x < w" "x' < w" "y * w + x = y' * w + x'"
  then have "w \<noteq> 0" by auto
  with *(1,2) have "(y * w + x) div w = y" "(y' * w + x') div w = y'" "(y * w + x) mod w = x" "(y' * w + x') mod w = x'" by simp_all
  with *(3) show "x = x' \<and> y = y'" by metis
qed simp

lemma inside_pixel:
  "x < w \<Longrightarrow> y < h \<Longrightarrow> 4 * (h * w) \<le> 4294967296 \<Longrightarrow>
    inside (pixel_address base w x y) 4 a \<longleftrightarrow> unat (a - base) div 4 = y * w + x"
  unfolding pixel_address_def by (rule inside_cell [OF cell_fits])

lemma inside_screen:
  assumes "4 * n < 4294967296"
  shows "inside base (of_nat (4 * n)) a \<longleftrightarrow> unat (a - base) div 4 < n"
proof -
  have "unat (of_nat (4 * n) :: u32) = 4 * n" using assms by (rule unat_of_nat32)
  then show ?thesis unfolding inside_def word_less_nat_alt by auto
qed

lemma inside_own_screen:
  assumes "inside (pixel_address base w x y) 4 a" "x < w" "y < h" "4 * (h * w) < 4294967296"
  shows "inside base (of_nat (4 * (h * w))) a"
proof -
  have "unat (a - base) div 4 = y * w + x" using assms by (subst (asm) inside_pixel) auto
  moreover have "4 * (y * w + x) + 4 \<le> 4 * (h * w)"
  proof -
    have "y * w + x + 1 \<le> Suc y * w" using \<open>x < w\<close> by simp
    also have "\<dots> \<le> h * w" using \<open>y < h\<close> by (intro mult_le_mono1) simp
    finally show ?thesis by (rule cell_le)
  qed
  ultimately show ?thesis by (subst inside_screen [OF assms(4)]) (simp only: cell_less)
qed

text \<open>A loop over the pixels of a region, each step of which changes its own pixel.\<close>

lemma fold_region:
  fixes f :: "nat \<Rightarrow> nat \<Rightarrow> mem \<Rightarrow> mem" and base :: u32 and w x y rw rh :: nat
  defines "P \<equiv> \<lambda>i j. pixel_address base w (x + j) (y + i)"
  defines "region \<equiv> \<lambda>b. \<exists>i < rh. \<exists>j < rw. inside (P i j) 4 b"
  assumes fits: "x + rw \<le> w" "y + rh \<le> h" "4 * (h * w) \<le> 4294967296"
    and outside: "\<And>i j m a. i < rh \<Longrightarrow> j < rw \<Longrightarrow> \<not> inside (P i j) 4 a \<Longrightarrow> f i j m a = m a"
    and local: "\<And>i j m m' a. i < rh \<Longrightarrow> j < rw \<Longrightarrow> inside (P i j) 4 a \<Longrightarrow>
      (\<And>b. inside (P i j) 4 b \<or> \<not> region b \<Longrightarrow> m' b = m b) \<Longrightarrow> f i j m' a = f i j m a"
  shows "i < rh \<Longrightarrow> j < rw \<Longrightarrow> inside (P i j) 4 a \<Longrightarrow> fold (\<lambda>i. fold (f i) [0..<rw]) [0..<rh] m a = f i j m a"
    and "\<not> region a \<Longrightarrow> fold (\<lambda>i. fold (f i) [0..<rw]) [0..<rh] m a = m a"
proof -
  have cell: "inside (P i j) 4 a \<longleftrightarrow> unat (a - base) div 4 = (y + i) * w + (x + j)" if "i < rh" "j < rw" for i j a
    unfolding P_def using that fits by (intro inside_pixel) auto
  have uniq: "i = i' \<and> j = j'" if "i < rh" "j < rw" "i' < rh" "j' < rw" "inside (P i j) 4 a" "inside (P i' j') 4 a" for i j i' j' a
    using that fits cell_unique [of "x + j" w "x + j'" "y + i" "y + i'"] by (simp add: cell)
  have loc: "f i j m' a = f i j m a"
    if *: "i < rh" "j < rw" "inside (P i j) 4 a" "\<And>b. \<forall>i' < rh. \<forall>j' < rw. inside (P i' j') 4 b \<longrightarrow> i' = i \<and> j' = j \<Longrightarrow> m' b = m b"
    for i j m m' a
  proof (rule local [OF *(1-3)])
    fix b assume b: "inside (P i j) 4 b \<or> \<not> region b"
    show "m' b = m b"
    proof (rule *(4), intro allI impI)
      fix i' j' assume "i' < rh" "j' < rw" "inside (P i' j') 4 b"
      then show "i' = i \<and> j' = j" using b uniq [OF _ _ *(1,2)] unfolding region_def by blast
    qed
  qed
  show "i < rh \<Longrightarrow> j < rw \<Longrightarrow> inside (P i j) 4 a \<Longrightarrow> fold (\<lambda>i. fold (f i) [0..<rw]) [0..<rh] m a = f i j m a"
    by (rule fold_grid(1) [where cell = "\<lambda>i j. inside (P i j) 4" and f = f and h = rh and w = rw, OF outside uniq loc])
  show "\<not> region a \<Longrightarrow> fold (\<lambda>i. fold (f i) [0..<rw]) [0..<rh] m a = m a"
    by (rule fold_grid(2) [where cell = "\<lambda>i j. inside (P i j) 4" and f = f and h = rh and w = rw, OF outside uniq loc]) (unfold region_def, assumption+, blast)
qed

text \<open>The same in terms of the pixels of the whole screen.\<close>

lemma region_pixels:
  fixes f :: "nat \<Rightarrow> nat \<Rightarrow> mem \<Rightarrow> mem"
  assumes fits: "x + rw \<le> w" "y + rh \<le> h" "4 * (h * w) < 4294967296"
    and outside: "\<And>i j m a. i < rh \<Longrightarrow> j < rw \<Longrightarrow> \<not> inside (pixel_address base w (x + j) (y + i)) 4 a \<Longrightarrow> f i j m a = m a"
    and local: "\<And>i j m m' a. i < rh \<Longrightarrow> j < rw \<Longrightarrow> inside (pixel_address base w (x + j) (y + i)) 4 a \<Longrightarrow>
      (\<And>b. inside (pixel_address base w (x + j) (y + i)) 4 b \<or> \<not> inside base (of_nat (4 * (h * w))) b \<Longrightarrow> m' b = m b) \<Longrightarrow>
      f i j m' a = f i j m a"
  shows "X < w \<Longrightarrow> Y < h \<Longrightarrow> pixel (fold (\<lambda>i. fold (f i) [0..<rw]) [0..<rh] m) base w X Y =
      (if x \<le> X \<and> X < x + rw \<and> y \<le> Y \<and> Y < y + rh then pixel (f (Y - y) (X - x) m) base w X Y else pixel m base w X Y)"
    and "\<not> inside base (of_nat (4 * (h * w))) a \<Longrightarrow> fold (\<lambda>i. fold (f i) [0..<rw]) [0..<rh] m a = m a"
proof -
  let ?P = "\<lambda>i j. pixel_address base w (x + j) (y + i)"
  have in_screen: "inside base (of_nat (4 * (h * w))) b" if "i < rh" "j < rw" "inside (?P i j) 4 b" for i j b
    using that fits by (intro inside_own_screen [where x = "x + j" and y = "y + i" and h = h]) auto
  have loc: "f i j m' a = f i j m a" if *: "i < rh" "j < rw" "inside (?P i j) 4 a"
      "\<And>b. inside (?P i j) 4 b \<or> \<not> (\<exists>i < rh. \<exists>j < rw. inside (?P i j) 4 b) \<Longrightarrow> m' b = m b" for i j m m' a
    by (rule local [OF *(1-3)]) (use *(4) in_screen in blast)
  note step = fold_region [where f = f and base = base and w = w and x = x and y = y and rw = rw and rh = rh and h = h, OF fits(1,2) less_imp_le [OF fits(3)] outside loc]
  show "\<not> inside base (of_nat (4 * (h * w))) a \<Longrightarrow> fold (\<lambda>i. fold (f i) [0..<rw]) [0..<rh] m a = m a"
    by (rule step(2)) (use in_screen in blast)+
  show "pixel (fold (\<lambda>i. fold (f i) [0..<rw]) [0..<rh] m) base w X Y =
      (if x \<le> X \<and> X < x + rw \<and> y \<le> Y \<and> Y < y + rh then pixel (f (Y - y) (X - x) m) base w X Y else pixel m base w X Y)"
    if XY: "X < w" "Y < h"
  proof (cases "x \<le> X \<and> X < x + rw \<and> y \<le> Y \<and> Y < y + rh")
    case True
    then have "Y - y < rh" "X - x < rw" "pixel_address base w X Y = ?P (Y - y) (X - x)" by auto
    then show ?thesis unfolding pixel_def using True by (auto intro!: load32_cong step(1))
  next
    case False
    have "\<not> (\<exists>i < rh. \<exists>j < rw. inside (?P i j) 4 b)" if "inside (pixel_address base w X Y) 4 b" for b
    proof clarify
      fix i j assume *: "i < rh" "j < rw" "inside (?P i j) 4 b"
      have "(y + i) * w + (x + j) = Y * w + X"
        using * that XY fits by (subst (asm) (1 2) inside_pixel [where h = h]) auto
      then have "x + j = X \<and> y + i = Y" using * XY fits by (subst (asm) cell_unique) auto
      with * False show False by auto
    qed
    with False show ?thesis unfolding pixel_def by (auto intro!: load32_cong step(2))
  qed
qed

section \<open>Clipping\<close>

lemma int32_small: "- 2147483648 \<le> z \<Longrightarrow> z < 2147483648 \<Longrightarrow> int32 z = z"
  by (simp add: int32_def signed_take_bit_int_eq_self)

lemma clip_axis_spec:
  assumes "0 \<le> limit" "limit \<le> 1073741824" "- 1073741824 \<le> pos" "pos \<le> 1073741824" "0 \<le> n" "n \<le> 1073741824"
  shows "case clip_axis limit pos n of
      None \<Rightarrow> \<forall>v. \<not> (0 \<le> v \<and> v < limit \<and> pos \<le> v \<and> v < pos + n)
    | Some (start, end_of, first, lst) \<Rightarrow> 0 \<le> start \<and> start \<le> end_of \<and> end_of \<le> limit \<and> 0 \<le> first
        \<and> first = start - pos \<and> lst = end_of - pos \<and> lst \<le> n \<and> (0 \<le> pos \<longrightarrow> first = 0)
        \<and> (\<forall>v. start \<le> v \<and> v < end_of \<longleftrightarrow> 0 \<le> v \<and> v < limit \<and> pos \<le> v \<and> v < pos + n)"
  using assms by (auto simp: clip_axis_def int32_small Let_def)

lemma calculate_area_spec:
  assumes "0 \<le> lw" "lw \<le> 1073741824" "0 \<le> lh" "lh \<le> 1073741824" "\<bar>x\<bar> \<le> 1073741824" "\<bar>y\<bar> \<le> 1073741824"
    "0 \<le> w" "w \<le> 1073741824" "0 \<le> h" "h \<le> 1073741824"
  shows "case calculate_area lw lh x y w h of
      None \<Rightarrow> \<forall>u v. \<not> ((0 \<le> u \<and> u < lw \<and> x \<le> u \<and> u < x + w) \<and> (0 \<le> v \<and> v < lh \<and> y \<le> v \<and> v < y + h))
    | Some a \<Rightarrow> 0 \<le> area_left a \<and> area_left a + area_width a \<le> lw \<and> 0 \<le> area_width a \<and> 0 \<le> first_column a
        \<and> first_column a = area_left a - x \<and> 0 \<le> area_top a \<and> area_top a + area_height a \<le> lh \<and> 0 \<le> area_height a
        \<and> 0 \<le> first_line a \<and> first_line a = area_top a - y
        \<and> last_line a = first_line a + area_height a \<and> last_column a = first_column a + area_width a
        \<and> last_line a \<le> h \<and> last_column a \<le> w \<and> (0 \<le> x \<longrightarrow> first_column a = 0) \<and> (0 \<le> y \<longrightarrow> first_line a = 0)
        \<and> (\<forall>u. area_left a \<le> u \<and> u < area_left a + area_width a \<longleftrightarrow> 0 \<le> u \<and> u < lw \<and> x \<le> u \<and> u < x + w)
        \<and> (\<forall>v. area_top a \<le> v \<and> v < area_top a + area_height a \<longleftrightarrow> 0 \<le> v \<and> v < lh \<and> y \<le> v \<and> v < y + h)"
proof -
  have x: "- 1073741824 \<le> x" "x \<le> 1073741824" and y: "- 1073741824 \<le> y" "y \<le> 1073741824" using assms by auto
  note cx = clip_axis_spec [OF assms(1,2) x assms(7,8)] and cy = clip_axis_spec [OF assms(3,4) y assms(9,10)]
  show ?thesis
  proof (cases "clip_axis lh y h")
    case None
    then show ?thesis using cy by (auto simp: calculate_area_def)
  next
    case yy: (Some ty)
    show ?thesis
    proof (cases "clip_axis lw x w")
      case None
      then show ?thesis using cx yy by (auto simp: calculate_area_def split: prod.splits)
    next
      case xx: (Some tx)
      obtain t b fl ll l r fc lc where ty: "ty = (t, b, fl, ll)" and tx: "tx = (l, r, fc, lc)" by (cases ty; cases tx)
      have X: "0 \<le> l" "l \<le> r" "r \<le> lw" "0 \<le> fc" "fc = l - x" "lc = r - x" "r - x \<le> w" "0 \<le> x \<longrightarrow> fc = 0"
        "\<And>u. l \<le> u \<and> u < r \<longleftrightarrow> 0 \<le> u \<and> u < lw \<and> x \<le> u \<and> u < x + w" using cx unfolding xx tx option.case prod.case by blast+
      have Y: "0 \<le> t" "t \<le> b" "b \<le> lh" "0 \<le> fl" "fl = t - y" "ll = b - y" "b - y \<le> h" "0 \<le> y \<longrightarrow> fl = 0"
        "\<And>v. t \<le> v \<and> v < b \<longleftrightarrow> 0 \<le> v \<and> v < lh \<and> y \<le> v \<and> v < y + h" using cy unfolding yy ty option.case prod.case by blast+
      have "int32 (r - l) = r - l" "int32 (b - t) = b - t"
        using X(1-3) Y(1-3) assms(2,4) by (intro int32_small; linarith)+
      then have "calculate_area lw lh x y w h = Some \<lparr>area_top = t, area_bottom = b, area_left = l, area_right = r, first_line = fl,
          first_column = fc, last_line = ll, last_column = lc, area_width = r - l, area_height = b - t\<rparr>"
        by (simp add: calculate_area_def xx yy tx ty X(5,6) Y(5,6))
      then show ?thesis using X Y by simp
    qed
  qed
qed

section \<open>Transparency\<close>

lemma unat_le_255: "unat (b :: u8) \<le> 255"
proof -
  have "unat b < 2 ^ LENGTH(8)" by (rule unsigned_less)
  then show ?thesis by simp
qed

lemma div_255: "t \<le> 65025 \<Longrightarrow> (t + 1 + t div 256) div 256 = t div (255 :: nat)"
proof -
  assume t: "t \<le> 65025"
  define q r where "q = t div 255" and "r = t mod 255"
  have qr: "t = 255 * q + r" "r < 255" by (simp_all add: q_def r_def)
  then have q: "q \<le> 255" using t by linarith
  show ?thesis
  proof (cases "q \<le> r")
    case True
    then have "t = 256 * q + (r - q)" "r - q < 256" using qr by linarith+
    then have "t div 256 = q" by simp
    then have "t + 1 + t div 256 = 256 * q + (r + 1)" "r + 1 < 256" using qr by linarith+
    then show ?thesis unfolding q_def [symmetric] by simp
  next
    case False
    then have "t = 256 * (q - 1) + (256 + r - q)" "256 + r - q < 256" using qr q by linarith+
    then have "t div 256 = q - 1" by simp
    then have "t + 1 + t div 256 = 256 * q + r" "r < 256" using qr False by linarith+
    then show ?thesis unfolding q_def [symmetric] by simp
  qed
qed

text \<open>
  C36. The blending of a colour with the screen divides by 255 exactly although it only shifts and adds: the new
  byte is the rounded-down mean of the two, weighted with the alpha; 255 gives the colour, 0 the old byte.
\<close>

theorem blend_is_weighted_mean:
  "unat (blend color alpha old) = (unat color * unat alpha + unat old * (255 - unat alpha)) div 255"
proof -
  define t where "t = unat color * unat alpha + unat old * (255 - unat alpha)"
  have b: "unat color \<le> 255" "unat alpha \<le> 255" "unat old \<le> 255"
    by (simp_all only: unat_le_255)
  have "t \<le> 255 * unat alpha + 255 * (255 - unat alpha)" unfolding t_def using b by (intro add_mono mult_le_mono1)
  also have "\<dots> = 65025" using b by simp
  finally have t: "t \<le> 65025" .
  have inv: "unat (255 - alpha) = 255 - unat alpha"
    using b by (subst unat_sub) (simp_all add: word_le_nat_alt)
  define temp :: u32 where "temp = (ucast color * ucast alpha) + (ucast old * ucast (255 - alpha))"
  have "temp = of_nat t" unfolding temp_def t_def by (simp add: inv [symmetric])
  then have temp: "unat temp = t" using t by (simp add: unat_of_nat32)
  have sum: "unat (temp + 1 + drop_bit 8 temp) = t + 1 + t div 256"
    using t temp by (simp add: unat_word_ariths unat_drop_bit_eq drop_bit_eq_div [where 'a = nat])
  have "(t + 1 + t div 256) div 256 < 256" using t by simp
  then have "unat (blend color alpha old) = (t + 1 + t div 256) div 256"
    unfolding blend_def Let_def temp_def [symmetric]
    by (simp add: unsigned_ucast_eq take_bit_eq_mod unat_drop_bit_eq drop_bit_eq_div [where 'a = nat] sum)
  then show ?thesis by (simp only: div_255 [OF t]) (simp only: t_def)
qed

section \<open>Squares\<close>

lemma pixel_address_step:
  "base + (of_nat y * w * 4) + (of_nat x * 4) + of_nat i * (w * 4) + of_nat j * 4 = pixel_address base (unat w) (x + j) (y + i)"
  by (simp add: pixel_address_def algebra_simps)

lemma blend_pixel_outside: "\<not> inside p 4 a \<Longrightarrow> blend_pixel color p m a = m a"
  by (auto simp: blend_pixel_def Let_def inside_4)

lemma blend_pixel_local: "inside p 4 a \<Longrightarrow> (\<And>b. inside p 4 b \<Longrightarrow> m' b = m b) \<Longrightarrow> blend_pixel color p m' a = blend_pixel color p m a"
  by (auto simp: blend_pixel_def Let_def inside_4)

lemma store32_local: "inside p 4 a \<Longrightarrow> store32 m' p v a = store32 m p v a"
  by (auto simp: store32_def inside_4)

definition over :: "u32 \<Rightarrow> mem \<Rightarrow> u32 \<Rightarrow> u32" where
  "over color m p = (if color AND 0xFF000000 = 0xFF000000 then color else load32 (blend_pixel color p m) p)"

lemma draw_square_pixels:
  assumes fits: "x + unat width \<le> unat w" "y + unat height \<le> h" "4 * (h * unat w) < 4294967296"
  shows "X < unat w \<Longrightarrow> Y < h \<Longrightarrow> pixel (draw_square base w (of_nat x) (of_nat y) width height color m) base (unat w) X Y =
      (if x \<le> X \<and> X < x + unat width \<and> y \<le> Y \<and> Y < y + unat height then over color m (pixel_address base (unat w) X Y)
       else pixel m base (unat w) X Y)"
    and "\<not> inside base (of_nat (4 * (h * unat w))) a \<Longrightarrow> draw_square base w (of_nat x) (of_nat y) width height color m a = m a"
proof -
  define f where "f = (\<lambda>i j m. if color AND 0xFF000000 = 0xFF000000 then store32 m (pixel_address base (unat w) (x + j) (y + i)) color
    else blend_pixel color (pixel_address base (unat w) (x + j) (y + i)) m)"
  have eq: "draw_square base w (of_nat x) (of_nat y) width height color m = fold (\<lambda>i. fold (f i) [0..<unat width]) [0..<unat height] m"
    unfolding draw_square_def Let_def pixel_address_step f_def by simp
  have out: "i < unat height \<Longrightarrow> j < unat width \<Longrightarrow> \<not> inside (pixel_address base (unat w) (x + j) (y + i)) 4 a \<Longrightarrow> f i j m a = m a" for i j m a
    by (simp add: f_def store32_outside blend_pixel_outside)
  have loc: "f i j m' a = f i j m a" 
    if "i < unat height" "j < unat width" "inside (pixel_address base (unat w) (x + j) (y + i)) 4 a"
      "\<And>b. inside (pixel_address base (unat w) (x + j) (y + i)) 4 b \<or> \<not> inside base (of_nat (4 * (h * unat w))) b \<Longrightarrow> m' b = m b" for i j m m' a
    using that(3) by (simp add: f_def store32_local blend_pixel_local [OF that(3,4)])
  note region = region_pixels [where f = f and x = x and y = y and base = base and rw = "unat width" and rh = "unat height", OF fits out loc]
  show "pixel (draw_square base w (of_nat x) (of_nat y) width height color m) base (unat w) X Y =
      (if x \<le> X \<and> X < x + unat width \<and> y \<le> Y \<and> Y < y + unat height then over color m (pixel_address base (unat w) X Y)
       else pixel m base (unat w) X Y)" if "X < unat w" "Y < h"
  proof -
    have "pixel (fold (\<lambda>i. fold (f i) [0..<unat width]) [0..<unat height] m) base (unat w) X Y =
        (if x \<le> X \<and> X < x + unat width \<and> y \<le> Y \<and> Y < y + unat height then pixel (f (Y - y) (X - x) m) base (unat w) X Y
         else pixel m base (unat w) X Y)"
      by (rule region(1)) (use that in auto)
    then show ?thesis unfolding eq by (simp add: f_def pixel_def over_def load32_store32)
  qed
  show "\<not> inside base (of_nat (4 * (h * unat w))) a \<Longrightarrow> draw_square base w (of_nat x) (of_nat y) width height color m a = m a"
    unfolding eq by (rule region(2))
qed

section \<open>Parts of the screen\<close>

text \<open>A part lies in a screen of \<open>w\<close> times \<open>h\<close> pixels, and the numbers are far from the limits of \<open>int\<close>.\<close>

definition part_on_screen :: "screen_part \<Rightarrow> u32 \<Rightarrow> nat \<Rightarrow> bool" where
  "part_on_screen part w h \<longleftrightarrow> unat (part_x part) + unat (part_width part) \<le> unat w
     \<and> unat (part_y part) + unat (part_height part) \<le> h \<and> unat w \<le> 1073741824 \<and> h \<le> 1073741824 \<and> 4 * (h * unat w) < 4294967296"

definition usual_size :: "int \<Rightarrow> int \<Rightarrow> int \<Rightarrow> int \<Rightarrow> bool" where
  "usual_size x y width height \<longleftrightarrow> \<bar>x\<bar> \<le> 1073741824 \<and> \<bar>y\<bar> \<le> 1073741824
     \<and> 0 \<le> width \<and> width \<le> 1073741824 \<and> 0 \<le> height \<and> height \<le> 1073741824"

text \<open>Whether a pixel of the screen shows a rectangle placed at \<open>x\<close>, \<open>y\<close> in the part.\<close>

definition shows_rectangle :: "screen_part \<Rightarrow> int \<Rightarrow> int \<Rightarrow> int \<Rightarrow> int \<Rightarrow> nat \<Rightarrow> nat \<Rightarrow> bool" where
  "shows_rectangle part x y width height X Y \<longleftrightarrow>
     unat (part_x part) \<le> X \<and> X < unat (part_x part) + unat (part_width part)
     \<and> unat (part_y part) \<le> Y \<and> Y < unat (part_y part) + unat (part_height part)
     \<and> (let dx = int X - int (unat (part_x part)) - x; dy = int Y - int (unat (part_y part)) - y
        in 0 \<le> dx \<and> dx < width \<and> 0 \<le> dy \<and> dy < height)"

text \<open>The visible area of a rectangle as a region of the screen.\<close>

lemma area_in_part:
  assumes part: "part_on_screen part w h" and size: "usual_size x y width height"
  obtains "calculate_area_in_part part x y width height = None" "\<And>X Y. \<not> shows_rectangle part x y width height X Y"
  | a l t rw rh fc fl where "calculate_area_in_part part x y width height = Some a"
      "area_left a = int l" "area_top a = int t" "area_width a = int rw" "area_height a = int rh"
      "first_column a = int fc" "first_line a = int fl" "int fc = int l - x" "int fl = int t - y"
      "unat (part_x part) + l + rw \<le> unat w" "unat (part_y part) + t + rh \<le> h" "int (fc + rw) \<le> width" "int (fl + rh) \<le> height"
      "last_column a = int (fc + rw)" "last_line a = int (fl + rh)" "0 \<le> x \<Longrightarrow> fc = 0" "0 \<le> y \<Longrightarrow> fl = 0"
      "\<And>X Y. shows_rectangle part x y width height X Y \<longleftrightarrow> unat (part_x part) + l \<le> X \<and> X < unat (part_x part) + l + rw
        \<and> unat (part_y part) + t \<le> Y \<and> Y < unat (part_y part) + t + rh"
proof -
  let ?lw = "int (unat (part_width part))" and ?lh = "int (unat (part_height part))"
  have "unat (part_width part) \<le> 1073741824" "unat (part_height part) \<le> 1073741824" using part by (auto simp: part_on_screen_def)
  note dims = this
  then have lim: "?lw \<le> 1073741824" "?lh \<le> 1073741824" by linarith+
  from dims have signed: "sint (part_width part) = ?lw" "sint (part_height part) = ?lh" by (intro sint_small32; simp)+
  note spec = calculate_area_spec [of ?lw ?lh x y width height]
  have rect: "shows_rectangle part x y width height X Y \<longleftrightarrow> (let u = int X - int (unat (part_x part)); v = int Y - int (unat (part_y part))
      in (0 \<le> u \<and> u < ?lw \<and> x \<le> u \<and> u < x + width) \<and> (0 \<le> v \<and> v < ?lh \<and> y \<le> v \<and> v < y + height))" for X Y
    unfolding shows_rectangle_def Let_def by (rule iffI; elim conjE; intro conjI; linarith)
  show ?thesis
  proof (cases "calculate_area ?lw ?lh x y width height")
    case None
    then have "\<not> shows_rectangle part x y width height X Y" for X Y
      using spec lim size by (simp add: rect usual_size_def Let_def)
    with None show ?thesis by (intro that(1)) (simp_all add: calculate_area_in_part_def signed)
  next
    case (Some a)
    have S: "0 \<le> area_left a" "area_left a + area_width a \<le> ?lw" "0 \<le> area_width a" "0 \<le> first_column a"
        "first_column a = area_left a - x" "0 \<le> area_top a" "area_top a + area_height a \<le> ?lh" "0 \<le> area_height a"
        "0 \<le> first_line a" "first_line a = area_top a - y" "first_line a + area_height a \<le> height" "first_column a + area_width a \<le> width"
        "last_column a = first_column a + area_width a" "last_line a = first_line a + area_height a"
        "0 \<le> x \<Longrightarrow> first_column a = 0" "0 \<le> y \<Longrightarrow> first_line a = 0"
      and U: "\<And>u. area_left a \<le> u \<and> u < area_left a + area_width a \<longleftrightarrow> 0 \<le> u \<and> u < ?lw \<and> x \<le> u \<and> u < x + width"
      and V: "\<And>v. area_top a \<le> v \<and> v < area_top a + area_height a \<longleftrightarrow> 0 \<le> v \<and> v < ?lh \<and> y \<le> v \<and> v < y + height"
      using spec lim size unfolding Some by (simp_all add: usual_size_def)
    obtain l t rw rh fc fl where nat: "area_left a = int l" "area_top a = int t" "area_width a = int rw" "area_height a = int rh"
      "first_column a = int fc" "first_line a = int fl"
      using S by (metis nonneg_int_cases)
    have shown: "shows_rectangle part x y width height X Y \<longleftrightarrow> unat (part_x part) + l \<le> X \<and> X < unat (part_x part) + l + rw
        \<and> unat (part_y part) + t \<le> Y \<and> Y < unat (part_y part) + t + rh" for X Y
      unfolding rect Let_def U [symmetric] V [symmetric] nat by (rule iffI; elim conjE; intro conjI; linarith)
    have fit: "unat (part_x part) + l + rw \<le> unat w" "unat (part_y part) + t + rh \<le> h"
      using S(2,7) part unfolding part_on_screen_def nat by linarith+
    show ?thesis
      by (rule that(2) [OF _ nat _ _ fit _ _ _ _ _ _ shown])
        (use S Some part nat in \<open>auto simp: calculate_area_in_part_def signed part_on_screen_def\<close>)
  qed
qed

text \<open>
  C0. A square drawn in a part changes exactly the pixels of the part that it covers: an opaque colour replaces
  them, another one is blended over each of them; nothing outside the part or behind the screen is written,
  wherever the square is placed.
\<close>

theorem draw_square_in_part_clips:
  assumes part: "part_on_screen part w h" and size: "usual_size x y width height"
  shows "(\<forall>X Y. X < unat w \<longrightarrow> Y < h \<longrightarrow> pixel (draw_square_in_part base w part x y width height color m) base (unat w) X Y =
      (if shows_rectangle part x y width height X Y then over color m (pixel_address base (unat w) X Y) else pixel m base (unat w) X Y))
    \<and> (\<forall>a. \<not> inside base (of_nat (4 * (h * unat w))) a \<longrightarrow> draw_square_in_part base w part x y width height color m a = m a)"
  using part size
proof (cases rule: area_in_part)
  case 1
  then show ?thesis by (simp add: draw_square_in_part_def)
next
  case (2 a l t rw rh fc fl)
  have "rw < 4294967296" "rh < 4294967296" using 2 part by (auto simp: part_on_screen_def)
  then have size: "unat (of_nat rw :: u32) = rw" "unat (of_nat rh :: u32) = rh" by (auto intro: unat_of_nat32)
  have eq: "draw_square_in_part base w part x y width height color m =
      draw_square base w (of_nat (unat (part_x part) + l)) (of_nat (unat (part_y part) + t)) (of_nat rw) (of_nat rh) color m"
    by (simp add: draw_square_in_part_def 2)
  have fits: "unat (part_x part) + l + unat (of_nat rw :: u32) \<le> unat w" "unat (part_y part) + t + unat (of_nat rh :: u32) \<le> h"
    "4 * (h * unat w) < 4294967296" using 2 part unfolding size by (auto simp: part_on_screen_def)
  show ?thesis unfolding eq using draw_square_pixels [OF fits] 2 by (simp add: size)
qed

text \<open>A part of four times three pixels at (2, 1) of a screen of eight times eight, and shapes that stick out.\<close>

definition example_part :: screen_part where
  "example_part = \<lparr>part_x = 2, part_y = 1, part_width = 4, part_height = 3\<rparr>"

definition example_memory :: mem where
  "example_memory a = (if a < 0x2000 then 0 else 0xFF)"

lemma example_part_on_screen: "part_on_screen example_part 8 8"
  by (simp add: part_on_screen_def example_part_def)

theorem draw_square_in_part_clips_witness:
  "pixel (draw_square_in_part 0x1000 8 example_part (- 1) 1 3 9 0xFF00FF00 example_memory) 0x1000 8 3 3 = 0xFF00FF00
    \<and> pixel (draw_square_in_part 0x1000 8 example_part (- 1) 1 3 9 0xFF00FF00 example_memory) 0x1000 8 4 3 = 0"
proof -
  have "usual_size (- 1) 1 3 9" by (simp add: usual_size_def)
  note * = conjunct1 [OF draw_square_in_part_clips [OF example_part_on_screen this, where base = "0x1000" and color = "0xFF00FF00" and m = example_memory]]
  show ?thesis
    using * [rule_format, of 3 3] * [rule_format, of 4 3]
    by (simp add: shows_rectangle_def example_part_def over_def pixel_def load32_def pixel_address_def example_memory_def)
qed

section \<open>Bitmaps\<close>

lemma draw_bitmap_lines_pixels:
  fixes m :: mem and base data w sw rw rh :: u32 and x y sx sy :: nat
  assumes fits: "x + unat rw \<le> unat w" "y + unat rh \<le> h" "4 * (h * unat w) < 4294967296"
    and source: "sx + unat rw \<le> unat sw" "sy + unat rh \<le> sh" "4 * (sh * unat sw) < 4294967296"
    and apart: "apart base (of_nat (4 * (h * unat w))) data (of_nat (4 * (sh * unat sw)))"
  defines "result \<equiv> draw_bitmap_lines (base + ((of_nat y * w) + of_nat x) * 4) w (data + ((of_nat sy * sw) + of_nat sx) * 4) sw rw rh m"
  shows "X < unat w \<Longrightarrow> Y < h \<Longrightarrow> pixel result base (unat w) X Y =
      (if (x \<le> X \<and> X < x + unat rw \<and> y \<le> Y \<and> Y < y + unat rh)
          \<and> pixel m data (unat sw) (sx + (X - x)) (sy + (Y - y)) AND 0xFF000000 \<noteq> 0
       then pixel m data (unat sw) (sx + (X - x)) (sy + (Y - y)) else pixel m base (unat w) X Y)"
    and "\<not> inside base (of_nat (4 * (h * unat w))) a \<Longrightarrow> result a = m a"
proof -
  let ?D = "\<lambda>i j. pixel_address base (unat w) (x + j) (y + i)" and ?S = "\<lambda>i j. pixel_address data (unat sw) (sx + j) (sy + i)"
  define f where "f = (\<lambda>i j. draw_bitmap_pixel (?D i j) (?S i j))"
  have eq: "result = fold (\<lambda>i. fold (f i) [0..<unat rw]) [0..<unat rh] m"
    unfolding result_def draw_bitmap_lines_def f_def by (simp add: pixel_address_def algebra_simps)
  have away: "\<not> inside base (of_nat (4 * (h * unat w))) b" if "i < unat rh" "j < unat rw" "inside (?S i j) 4 b" for i j b
    using that source by (intro apartD [OF apart] inside_own_screen [where x = "sx + j" and y = "sy + i" and h = sh]) auto
  have out: "i < unat rh \<Longrightarrow> j < unat rw \<Longrightarrow> \<not> inside (?D i j) 4 a \<Longrightarrow> f i j m a = m a" for i j m a
    by (simp add: f_def draw_bitmap_pixel_def store32_outside)
  have loc: "f i j m' a = f i j m a" if "i < unat rh" "j < unat rw" "inside (?D i j) 4 a"
      "\<And>b. inside (?D i j) 4 b \<or> \<not> inside base (of_nat (4 * (h * unat w))) b \<Longrightarrow> m' b = m b" for i j m m' a
  proof -
    have "load32 m' (?S i j) = load32 m (?S i j)" using that(4) away [OF that(1,2)] by (intro load32_cong) blast
    moreover have "m' a = m a" using that(3,4) by blast
    ultimately show ?thesis using that(3) by (simp add: f_def draw_bitmap_pixel_def store32_local)
  qed
  note region = region_pixels [where f = f and x = x and y = y and base = base, OF fits out loc]
  show "\<not> inside base (of_nat (4 * (h * unat w))) a \<Longrightarrow> result a = m a"
    unfolding eq by (rule region(2))
  show "pixel result base (unat w) X Y =
      (if (x \<le> X \<and> X < x + unat rw \<and> y \<le> Y \<and> Y < y + unat rh)
          \<and> pixel m data (unat sw) (sx + (X - x)) (sy + (Y - y)) AND 0xFF000000 \<noteq> 0
       then pixel m data (unat sw) (sx + (X - x)) (sy + (Y - y)) else pixel m base (unat w) X Y)"
    if "X < unat w" "Y < h"
  proof -
    define v where "v = pixel m data (unat sw) (sx + (X - x)) (sy + (Y - y))"
    have "pixel result base (unat w) X Y = (if x \<le> X \<and> X < x + unat rw \<and> y \<le> Y \<and> Y < y + unat rh
        then pixel (f (Y - y) (X - x) m) base (unat w) X Y else pixel m base (unat w) X Y)"
      unfolding eq by (rule region(1)) (use that in auto)
    moreover have "pixel (f (Y - y) (X - x) m) base (unat w) X Y =
        (if v AND 0xFF000000 = 0 then pixel m base (unat w) X Y else v)"
      if "x \<le> X" "y \<le> Y"
      unfolding v_def f_def draw_bitmap_pixel_def pixel_def le_add_diff_inverse [OF that(1)] le_add_diff_inverse [OF that(2)]
      by (simp add: load32_store32)
    ultimately show ?thesis unfolding v_def [symmetric] by simp
  qed
qed

text \<open>The pixel of a bitmap that a pixel of the screen shows.\<close>

definition bitmap_pixel :: "mem \<Rightarrow> u32 \<Rightarrow> nat \<Rightarrow> screen_part \<Rightarrow> int \<Rightarrow> int \<Rightarrow> nat \<Rightarrow> nat \<Rightarrow> u32" where
  "bitmap_pixel m data width part x y X Y =
     pixel m data width (nat (int X - int (unat (part_x part)) - x)) (nat (int Y - int (unat (part_y part)) - y))"

text \<open>
  C14. A bitmap drawn in a part shows, at every pixel of the part it covers, the pixel of the bitmap that belongs
  there, unless this is transparent; all other pixels stay, and nothing is written outside the screen, although
  the bitmap may be placed partly or wholly outside the part.
\<close>

theorem draw_bitmap_in_part_clips:
  assumes part: "part_on_screen part w h" and size: "usual_size (sint x) (sint y) (int (unat width)) (int (unat height))"
    and data: "4 * (unat height * unat width) < 4294967296"
    and apart: "apart base (of_nat (4 * (h * unat w))) data (of_nat (4 * (unat height * unat width)))"
  shows "(\<forall>X Y. X < unat w \<longrightarrow> Y < h \<longrightarrow>
      pixel (draw_bitmap_in_part base w part x y data width height m) base (unat w) X Y =
      (if shows_rectangle part (sint x) (sint y) (int (unat width)) (int (unat height)) X Y
          \<and> bitmap_pixel m data (unat width) part (sint x) (sint y) X Y AND 0xFF000000 \<noteq> 0
       then bitmap_pixel m data (unat width) part (sint x) (sint y) X Y else pixel m base (unat w) X Y))
    \<and> (\<forall>a. \<not> inside base (of_nat (4 * (h * unat w))) a \<longrightarrow> draw_bitmap_in_part base w part x y data width height m a = m a)"
proof -
  have "unat width < 2147483648" "unat height < 2147483648" using size unfolding usual_size_def by linarith+
  then have signed: "sint width = int (unat width)" "sint height = int (unat height)" by (intro sint_small32; simp)+
  from part size show ?thesis
  proof (cases rule: area_in_part)
    case 1
    then show ?thesis by (simp add: draw_bitmap_in_part_def signed)
  next
    case (2 a l t rw rh fc fl)
    have "rw < 4294967296" "rh < 4294967296" using 2 part by (auto simp: part_on_screen_def)
    then have size: "unat (of_nat rw :: u32) = rw" "unat (of_nat rh :: u32) = rh" by (auto intro: unat_of_nat32)
    have eq: "draw_bitmap_in_part base w part x y data width height m =
        draw_bitmap_lines (base + ((of_nat (unat (part_y part) + t) * w) + of_nat (unat (part_x part) + l)) * 4) w
          (data + ((of_nat fl * width) + of_nat fc) * 4) width (of_nat rw) (of_nat rh) m"
      using 2(1) by (simp add: draw_bitmap_in_part_def signed 2(2-7) algebra_simps)
    have fits: "unat (part_x part) + l + unat (of_nat rw :: u32) \<le> unat w" "unat (part_y part) + t + unat (of_nat rh :: u32) \<le> h"
      "4 * (h * unat w) < 4294967296" using 2 part unfolding size by (auto simp: part_on_screen_def)
    have source: "fc + unat (of_nat rw :: u32) \<le> unat width" "fl + unat (of_nat rh :: u32) \<le> unat height"
      using 2 unfolding size by linarith+
    note lines = draw_bitmap_lines_pixels [OF fits source data apart, where m = m, unfolded size]
    have shown: "bitmap_pixel m data (unat width) part (sint x) (sint y) X Y =
        pixel m data (unat width) (fc + (X - (unat (part_x part) + l))) (fl + (Y - (unat (part_y part) + t)))"
      if "unat (part_x part) + l \<le> X" "unat (part_y part) + t \<le> Y" for X Y
    proof -
      have "nat (int X - int (unat (part_x part)) - sint x) = fc + (X - (unat (part_x part) + l))"
        "nat (int Y - int (unat (part_y part)) - sint y) = fl + (Y - (unat (part_y part) + t))"
        using that 2(8,9) by linarith+
      then show ?thesis unfolding bitmap_pixel_def by simp
    qed
    show ?thesis
    proof (intro conjI allI impI)
      fix X Y assume XY: "X < unat w" "Y < h"
      show "pixel (draw_bitmap_in_part base w part x y data width height m) base (unat w) X Y =
          (if shows_rectangle part (sint x) (sint y) (int (unat width)) (int (unat height)) X Y
              \<and> bitmap_pixel m data (unat width) part (sint x) (sint y) X Y AND 0xFF000000 \<noteq> 0
           then bitmap_pixel m data (unat width) part (sint x) (sint y) X Y else pixel m base (unat w) X Y)"
      proof (cases "unat (part_x part) + l \<le> X \<and> unat (part_y part) + t \<le> Y")
        case True
        then show ?thesis unfolding eq lines(1) [OF XY] 2(18) using shown by simp
      next
        case False
        then show ?thesis unfolding eq lines(1) [OF XY] 2(18) by auto
      qed
    next
      fix a assume "\<not> inside base (of_nat (4 * (h * unat w))) a"
      then show "draw_bitmap_in_part base w part x y data width height m a = m a" unfolding eq by (rule lines(2))
    qed
  qed
qed

theorem draw_bitmap_in_part_clips_witness:
  "pixel (draw_bitmap_in_part 0x1000 8 example_part (- 1) 1 0x2000 3 9 example_memory) 0x1000 8 3 3 = 0xFFFFFFFF
    \<and> pixel (draw_bitmap_in_part 0x1000 8 example_part (- 1) 1 0x2000 3 9 example_memory) 0x1000 8 4 3 = 0"
proof -
  have size: "usual_size (sint (- 1 :: u32)) (sint (1 :: u32)) (int (unat (3 :: u32))) (int (unat (9 :: u32)))"
    by (simp add: usual_size_def)
  have data: "4 * (unat (9 :: u32) * unat (3 :: u32)) < 4294967296" by simp
  have "apart 0x1000 (of_nat (4 * (8 * unat (8 :: u32)))) 0x2000 (of_nat (4 * (unat (9 :: u32) * unat (3 :: u32))))"
    by (rule apart_belowI) simp_all
  note * = conjunct1 [OF draw_bitmap_in_part_clips [OF example_part_on_screen size data this, where m = example_memory]]
  show ?thesis
    using * [rule_format, of 3 3] * [rule_format, of 4 3]
    by (simp add: shows_rectangle_def example_part_def bitmap_pixel_def pixel_def load32_def pixel_address_def example_memory_def)
qed

section \<open>Saved regions\<close>

text \<open>A buffer whose region lies on a screen of \<open>h\<close> lines, and whose pixels lie elsewhere.\<close>

definition buffer_of_region :: "screen_part_buffer \<Rightarrow> nat \<Rightarrow> bool" where
  "buffer_of_region b h \<longleftrightarrow> unat (buffer_x b) + unat (buffer_width b) \<le> unat (screen_width b)
     \<and> unat (buffer_y b) + unat (buffer_height b) \<le> h \<and> 4 * (h * unat (screen_width b)) < 4294967296
     \<and> screen_ptr b = screen b + (buffer_y b * screen_width b * 4) + (buffer_x b * 4)
     \<and> 4 * (unat (buffer_height b) * unat (buffer_width b)) < 4294967296
     \<and> apart (screen b) (of_nat (4 * (h * unat (screen_width b)))) (buffer_pixels b)
         (of_nat (4 * (unat (buffer_height b) * unat (buffer_width b))))"

lemma buffer_pixel_address: "p + (of_nat i * w + of_nat j) * 4 = pixel_address p (unat w) j i"
  by (simp add: pixel_address_def algebra_simps)

lemma screen_ptr_address:
  "buffer_of_region b h \<Longrightarrow> screen_ptr b + of_nat i * (screen_width b * 4) + of_nat j * 4
    = pixel_address (screen b) (unat (screen_width b)) (unat (buffer_x b) + j) (unat (buffer_y b) + i)"
  by (simp add: buffer_of_region_def pixel_address_def algebra_simps)

lemma copy_grid:
  fixes m :: mem and S :: "nat \<Rightarrow> nat \<Rightarrow> u32" and x y rw rh w h :: nat and base :: u32
  assumes fits: "x + rw \<le> w" "y + rh \<le> h" "4 * (h * w) < 4294967296"
    and away: "\<And>i j b. i < rh \<Longrightarrow> j < rw \<Longrightarrow> inside (S i j) 4 b \<Longrightarrow> \<not> inside base (of_nat (4 * (h * w))) b"
  defines "result \<equiv> fold (\<lambda>i. fold (\<lambda>j m. store32 m (pixel_address base w (x + j) (y + i)) (load32 m (S i j))) [0..<rw]) [0..<rh] m"
  shows "X < w \<Longrightarrow> Y < h \<Longrightarrow> pixel result base w X Y =
      (if x \<le> X \<and> X < x + rw \<and> y \<le> Y \<and> Y < y + rh then load32 m (S (Y - y) (X - x)) else pixel m base w X Y)"
    and "\<not> inside base (of_nat (4 * (h * w))) a \<Longrightarrow> result a = m a"
proof -
  define f where "f = (\<lambda>i j m. store32 m (pixel_address base w (x + j) (y + i)) (load32 m (S i j)))"
  have eq: "result = fold (\<lambda>i. fold (f i) [0..<rw]) [0..<rh] m" unfolding result_def f_def ..
  have out: "i < rh \<Longrightarrow> j < rw \<Longrightarrow> \<not> inside (pixel_address base w (x + j) (y + i)) 4 a \<Longrightarrow> f i j m a = m a" for i j m a
    by (simp add: f_def store32_outside)
  have loc: "f i j m' a = f i j m a" if "i < rh" "j < rw" "inside (pixel_address base w (x + j) (y + i)) 4 a"
      "\<And>b. inside (pixel_address base w (x + j) (y + i)) 4 b \<or> \<not> inside base (of_nat (4 * (h * w))) b \<Longrightarrow> m' b = m b" for i j m m' a
  proof -
    have "load32 m' (S i j) = load32 m (S i j)" using that(4) away [OF that(1,2)] by (intro load32_cong) blast
    with that(3) show ?thesis by (simp add: f_def store32_local)
  qed
  note region = region_pixels [where f = f and x = x and y = y and base = base, OF fits out loc]
  show "\<not> inside base (of_nat (4 * (h * w))) a \<Longrightarrow> result a = m a" unfolding eq by (rule region(2))
  show "pixel result base w X Y =
      (if x \<le> X \<and> X < x + rw \<and> y \<le> Y \<and> Y < y + rh then load32 m (S (Y - y) (X - x)) else pixel m base w X Y)"
    if "X < w" "Y < h"
  proof -
    define v where "v = load32 m (S (Y - y) (X - x))"
    have "pixel result base w X Y = (if x \<le> X \<and> X < x + rw \<and> y \<le> Y \<and> Y < y + rh
        then pixel (f (Y - y) (X - x) m) base w X Y else pixel m base w X Y)"
      unfolding eq by (rule region(1)) (use that in auto)
    moreover have "pixel (f (Y - y) (X - x) m) base w X Y = v" if "x \<le> X" "y \<le> Y"
      unfolding v_def f_def pixel_def le_add_diff_inverse [OF that(1)] le_add_diff_inverse [OF that(2)] by (rule load32_store32)
    ultimately show ?thesis unfolding v_def [symmetric] by simp
  qed
qed

text \<open>
  C35. What a buffer has saved comes back: after the region has been saved, whatever is drawn on the screen, the
  copy back restores every pixel of the region and leaves the rest of the screen as it was drawn.
\<close>

theorem saved_region_is_restored:
  assumes b: "buffer_of_region b h"
    and kept: "\<And>a. inside (buffer_pixels b) (of_nat (4 * (unat (buffer_height b) * unat (buffer_width b)))) a \<Longrightarrow>
      drawn a = copy_from_screen_to_buffer b m a"
    and XY: "X < unat (screen_width b)" "Y < h"
  shows "pixel (copy_from_buffer_to_screen b drawn) (screen b) (unat (screen_width b)) X Y =
    (if unat (buffer_x b) \<le> X \<and> X < unat (buffer_x b) + unat (buffer_width b)
        \<and> unat (buffer_y b) \<le> Y \<and> Y < unat (buffer_y b) + unat (buffer_height b)
     then pixel m (screen b) (unat (screen_width b)) X Y else pixel drawn (screen b) (unat (screen_width b)) X Y)"
proof -
  let ?w = "unat (screen_width b)" and ?bw = "unat (buffer_width b)" and ?bh = "unat (buffer_height b)"
  let ?B = "\<lambda>i j. pixel_address (buffer_pixels b) ?bw j i" and ?S = "\<lambda>i j. pixel_address (screen b) ?w (unat (buffer_x b) + j) (unat (buffer_y b) + i)"
  have fits: "unat (buffer_x b) + ?bw \<le> ?w" "unat (buffer_y b) + ?bh \<le> h" "4 * (h * ?w) < 4294967296"
    and size: "4 * (?bh * ?bw) < 4294967296"
    and apart: "apart (screen b) (of_nat (4 * (h * ?w))) (buffer_pixels b) (of_nat (4 * (?bh * ?bw)))"
    using b unfolding buffer_of_region_def by blast+
  have in_buffer: "inside (buffer_pixels b) (of_nat (4 * (?bh * ?bw))) c" if "i < ?bh" "j < ?bw" "inside (?B i j) 4 c" for i j c
    using that size by (intro inside_own_screen [where x = j and y = i]) auto
  have in_screen: "inside (screen b) (of_nat (4 * (h * ?w))) c" if "i < ?bh" "j < ?bw" "inside (?S i j) 4 c" for i j c
    using that fits by (intro inside_own_screen [where x = "unat (buffer_x b) + j" and y = "unat (buffer_y b) + i" and h = h]) auto
  have saved: "pixel (copy_from_screen_to_buffer b m) (buffer_pixels b) ?bw j i = load32 m (?S i j)" if "i < ?bh" "j < ?bw" for i j
  proof -
    have "\<not> inside (buffer_pixels b) (of_nat (4 * (?bh * ?bw))) c" if "i < ?bh" "j < ?bw" "inside (?S i j) 4 c" for i j c
      using apartD [OF apart_sym [OF apart] in_screen [OF that]] .
    then show ?thesis
      using that copy_grid(1) [OF _ _ size, of 0 ?bw 0 ?bh ?S "buffer_pixels b" j i m]
      unfolding copy_from_screen_to_buffer_def buffer_pixel_address screen_ptr_address [OF b] by simp
  qed
  have from_buffer: "\<not> inside (screen b) (of_nat (4 * (h * ?w))) c" if "i < ?bh" "j < ?bw" "inside (?B i j) 4 c" for i j c
    using apartD [OF apart in_buffer [OF that]] .
  have "load32 drawn (?B i j) = load32 m (?S i j)" if "i < ?bh" "j < ?bw" for i j
    using load32_cong [of "?B i j" drawn "copy_from_screen_to_buffer b m"] kept in_buffer [OF that] saved [OF that]
    by (simp add: pixel_def)
  note load = this
  have copied: "pixel (copy_from_buffer_to_screen b drawn) (screen b) ?w X Y =
    (if unat (buffer_x b) \<le> X \<and> X < unat (buffer_x b) + ?bw \<and> unat (buffer_y b) \<le> Y \<and> Y < unat (buffer_y b) + ?bh
     then load32 drawn (?B (Y - unat (buffer_y b)) (X - unat (buffer_x b))) else pixel drawn (screen b) ?w X Y)"
    unfolding copy_from_buffer_to_screen_def buffer_pixel_address screen_ptr_address [OF b]
    by (rule copy_grid(1) [OF fits _ XY, where S = ?B]) (rule from_buffer)
  show ?thesis
  proof (cases "unat (buffer_x b) \<le> X \<and> X < unat (buffer_x b) + ?bw \<and> unat (buffer_y b) \<le> Y \<and> Y < unat (buffer_y b) + ?bh")
    case True
    then have "load32 drawn (?B (Y - unat (buffer_y b)) (X - unat (buffer_x b))) = pixel m (screen b) ?w X Y"
      by (subst load) (auto simp: pixel_def)
    then show ?thesis unfolding copied by simp
  next
    case False
    then show ?thesis unfolding copied by (simp only: if_False)
  qed
qed

definition example_buffer :: screen_part_buffer where
  "example_buffer = alloc_screen_part_buffer 0x1FE4 0x1000 8 2 1 3 2"

theorem saved_region_is_restored_witness:
  "pixel (copy_from_buffer_to_screen example_buffer (copy_from_screen_to_buffer example_buffer example_memory)) 0x1000 8 3 2 = 0"
proof -
  have b: "buffer_of_region example_buffer 8"
    by (auto simp: buffer_of_region_def example_buffer_def alloc_screen_part_buffer_def intro: apart_belowI)
  have fields: "screen example_buffer = 0x1000" "screen_width example_buffer = 8" "buffer_x example_buffer = 2"
    "buffer_y example_buffer = 1" "buffer_width example_buffer = 3" "buffer_height example_buffer = 2"
    by (simp_all add: example_buffer_def alloc_screen_part_buffer_def)
  show ?thesis
    using saved_region_is_restored [OF b, of "copy_from_screen_to_buffer example_buffer example_memory" example_memory 3 2]
    by (simp add: fields pixel_def load32_def pixel_address_def example_memory_def)
qed

end
