(* ===== verification/Font.thy ===== *)
theory Font
  imports Draw_Properties
begin

text \<open>
  Bitmap fonts (\<open>source/kernel/hardware/subsystems/screen/font.c\<close>): the loading of PSF fonts with their
  Unicode tables, the drawing of characters and of UTF-8 strings. The allocator is a parameter: the address
  it gave for the glyphs of the font, in memory that it has cleared.
\<close>

section \<open>Loading\<close>

record bitmap_font =
  font_data :: u32
  number_of_characters :: u32
  bytes_per_character :: u32
  character_width :: u32
  character_height :: u32

definition PSF1_FONT_MAGIC :: u16 where "PSF1_FONT_MAGIC = 0x0436"
definition PSF2_FONT_MAGIC :: u32 where "PSF2_FONT_MAGIC = 0x864AB572"

text \<open>The bytes of a glyph are added to those of a character with \<open>OR\<close>.\<close>

definition add_glyph :: "u32 \<Rightarrow> u32 \<Rightarrow> u32 \<Rightarrow> mem \<Rightarrow> mem" where
  "add_glyph dst src n = fold (\<lambda>i m. m(dst + of_nat i := m (dst + of_nat i) OR m (src + of_nat i))) [0..<unat n]"

text \<open>
  The Unicode table lists for every glyph the codes it is used for, up to \<open>0xFFFF\<close>: the loop ends when the
  table has ended as many lists as there are glyphs.
\<close>

partial_function (option) unicode_table_loop :: "u32 \<Rightarrow> u32 \<Rightarrow> u32 \<Rightarrow> u32 \<Rightarrow> u32 \<Rightarrow> u32 \<Rightarrow> bool list \<Rightarrow> mem
    \<Rightarrow> (bool list \<times> mem) option" where
  "unicode_table_loop fdata glyphs number bpc table copied present m =
     (if copied < number then
        let unicode_code = load16 m table; table = table + 2
        in if unicode_code = 0xFFFF then unicode_table_loop fdata glyphs number bpc table (copied + 1) present m
           else if ucast unicode_code \<ge> number then unicode_table_loop fdata glyphs number bpc table copied present m
           else unicode_table_loop fdata glyphs number bpc table copied (present[unat unicode_code := True])
             (add_glyph (fdata + ucast unicode_code * bpc) (glyphs + copied * bpc) bpc m)
      else Some (present, m))"

definition fill_missing_characters :: "u32 \<Rightarrow> u32 \<Rightarrow> bool list \<Rightarrow> mem \<Rightarrow> mem" where
  "fill_missing_characters fdata bpc present =
     fold (\<lambda>i m. if present ! i then m else mem_fill m (fdata + of_nat i * bpc) 0xFF bpc) [0..<512]"

definition load_psf1_font :: "u32 \<Rightarrow> u32 \<Rightarrow> mem \<Rightarrow> (bitmap_font \<times> mem) option" where
  "load_psf1_font fdata file m =
     (let font_mode = m (file + 2); bpc = ucast (m (file + 3));
          number = (if font_mode AND 1 \<noteq> 0 then 512 else 256);
          font = \<lparr>font_data = fdata, number_of_characters = number, bytes_per_character = bpc,
            character_width = 8, character_height = bpc\<rparr>
      in if font_mode AND 2 = 0 then Some (font, mem_copy m fdata (file + 4) (number * bpc))
         else do {
           (present, m) \<leftarrow> unicode_table_loop fdata (file + 4) number bpc (file + 4 + number * bpc) 0 (replicate 512 False) m;
           Some (font, fill_missing_characters fdata bpc present m)
         })"

definition load_psf2_font :: "u32 \<Rightarrow> u32 \<Rightarrow> mem \<Rightarrow> bitmap_font \<times> mem" where
  "load_psf2_font fdata file m =
     (let number = load32 m (file + 16); bpc = load32 m (file + 20)
      in (\<lparr>font_data = fdata, number_of_characters = number, bytes_per_character = bpc,
            character_width = load32 m (file + 28), character_height = load32 m (file + 24)\<rparr>,
          mem_copy m fdata (file + 32) (number * bpc)))"

text \<open>A file with neither magic leaves the font of the system as it was.\<close>

definition load_system_bitmap_font :: "u32 \<Rightarrow> u32 \<Rightarrow> bitmap_font option \<Rightarrow> mem \<Rightarrow> (bitmap_font option \<times> mem) option" where
  "load_system_bitmap_font fdata file system_font m = do {
     (font, m) \<leftarrow> (if load16 m file = PSF1_FONT_MAGIC then map_option (map_prod Some id) (load_psf1_font fdata file m)
                   else Some (system_font, m));
     Some (if load32 m file = PSF2_FONT_MAGIC then map_prod Some id (load_psf2_font fdata file m) else (font, m))
   }"

section \<open>Drawing characters\<close>

text \<open>One byte of a line of a character: its first \<open>n\<close> bits, or eight pixels skipped when it is zero.\<close>

definition draw_char_byte :: "u32 \<Rightarrow> nat \<Rightarrow> u32 \<Rightarrow> u32 \<times> mem \<Rightarrow> u32 \<times> mem" where
  "draw_char_byte color n src dm =
     (if snd dm src \<noteq> 0 then
        fold (\<lambda>t (d, m). (d + 4, if bit (m src) (7 - t) then store32 m d color else m)) [0..<n] dm
      else (fst dm + 8 * 4, snd dm))"

definition draw_char_line :: "u32 \<Rightarrow> nat \<Rightarrow> nat \<Rightarrow> nat \<Rightarrow> u32 \<Rightarrow> u32 \<Rightarrow> mem \<Rightarrow> mem" where
  "draw_char_line color first_byte end_byte n src dst m =
     snd (fold (\<lambda>j. draw_char_byte color n (src + of_nat j)) [first_byte..<end_byte] (dst, m))"

definition draw_bitmap_char :: "bitmap_font \<Rightarrow> u32 \<Rightarrow> u32 \<Rightarrow> screen_part \<Rightarrow> int \<Rightarrow> int \<Rightarrow> u32 \<Rightarrow> u32 \<Rightarrow> mem \<Rightarrow> mem" where
  "draw_bitmap_char font buffer view_width part x y character color m =
     (let character = (if character \<ge> number_of_characters font then 0x3F else character)
      in case calculate_area_in_part part x y (sint (character_width font)) (sint (character_height font)) of None \<Rightarrow> m
      | Some area \<Rightarrow>
        let t = word_of_int (area_top area) + part_y part; left = word_of_int (area_left area) + part_x part;
            showed_width = word_of_int (area_width area) :: u32; fl = word_of_int (first_line area) :: u32; ll = word_of_int (last_line area) :: u32;
            fc = word_of_int (first_column area) :: u32; lc = word_of_int (last_column area) :: u32;
            dst = buffer + (t * view_width + left) * 4;
            src = font_data font + character * bytes_per_character font + fl * ((character_width font + 7) div 8)
        in fold (\<lambda>i. draw_char_line color (unat fc) (unat ((lc + 7) div 8)) (unat ((lc + 7) mod 8) + 1)
               (src + of_nat i * ((showed_width + 7) div 8)) (dst + of_nat i * (view_width * 4)))
             [0..<unat ll - unat fl] m)"

section \<open>Drawing strings\<close>

text \<open>A character of type \<open>char\<close> is signed; the four forms of UTF-8, and the address
  behind each. A tabulator in a font of width zero is a division by zero: \<open>None\<close>.\<close>

definition signed_char_at :: "mem \<Rightarrow> u32 \<Rightarrow> u32" where
  "signed_char_at m a = scast (m a)"

definition utf8_character :: "mem \<Rightarrow> u32 \<Rightarrow> u32 \<times> u32" where
  "utf8_character m p =
     (let character = signed_char_at m p
      in if character AND 0xF8 = 0xF0 then
           (push_bit 18 (character AND 0x7) OR push_bit 12 (signed_char_at m (p + 1) AND 0x3F) OR push_bit 6 (signed_char_at m (p + 2) AND 0x3F)
              OR (signed_char_at m (p + 3) AND 0x3F), p + 4)
         else if character AND 0xF0 = 0xE0 then
           (push_bit 12 (character AND 0xF) OR push_bit 6 (signed_char_at m (p + 1) AND 0x3F) OR (signed_char_at m (p + 2) AND 0x3F), p + 3)
         else if character AND 0xE0 = 0xC0 then
           (push_bit 6 (character AND 0x1F) OR (signed_char_at m (p + 1) AND 0x3F), p + 2)
         else (character AND 0x7F, p + 1))"

definition handle_character :: "bitmap_font \<Rightarrow> u32 \<Rightarrow> u32 \<Rightarrow> screen_part \<Rightarrow> u32 \<Rightarrow> u32 \<Rightarrow> u32 \<Rightarrow> u32 \<times> u32 \<times> mem
    \<Rightarrow> (u32 \<times> u32 \<times> mem) option" where
  "handle_character font buffer view_width part original_x color character = (\<lambda>(x, y, m).
     let size_of_tabulator = character_width font * 4
     in if character = 10 then Some (original_x, y + character_height font, m)
        else if character = 13 then Some (original_x, y, m)
        else if character = 9 then
          if size_of_tabulator = 0 then None
          else Some (x + (size_of_tabulator - ((x - original_x) mod size_of_tabulator)), y, m)
        else Some (x + character_width font, y, draw_bitmap_char font buffer view_width part (sint x) (sint y) character color m))"

partial_function (option) draw_bitmap_string_loop :: "bitmap_font \<Rightarrow> u32 \<Rightarrow> u32 \<Rightarrow> screen_part \<Rightarrow> u32 \<Rightarrow> u32 \<Rightarrow> u32
    \<Rightarrow> u32 \<times> u32 \<times> mem \<Rightarrow> (u32 \<times> u32 \<times> mem) option" where
  "draw_bitmap_string_loop font buffer view_width part original_x color p xym =
     (let m = snd (snd xym)
      in if m p = 0 then Some xym
         else let (character, p) = utf8_character m p
           in do {
             xym \<leftarrow> handle_character font buffer view_width part original_x color character xym;
             draw_bitmap_string_loop font buffer view_width part original_x color p xym
           })"

definition draw_bitmap_string :: "bitmap_font \<Rightarrow> u32 \<Rightarrow> u32 \<Rightarrow> screen_part \<Rightarrow> u32 \<Rightarrow> u32 \<Rightarrow> u32 \<Rightarrow> u32 \<Rightarrow> mem \<Rightarrow> mem option" where
  "draw_bitmap_string font buffer view_width part x y string color m =
     (if string = 0 then Some m
      else map_option (snd \<circ> snd) (draw_bitmap_string_loop font buffer view_width part x color string (x, y, m)))"

end
