(* ===== verification/Font_Properties.thy ===== *)
theory Font_Properties
  imports Font
begin

text \<open>
  What the text of a screen looks like: characters of fonts whose glyphs are eight pixels wide, the decoding of
  UTF-8, and what the loader of fonts leaves in the memory of the font.
\<close>

section \<open>Characters\<close>

lemma char_bits:
  "fold (\<lambda>t (d, m). (d + 4, if bit (m src) (7 - t) then store32 m d color else m)) [0..<n] (d, m) =
    (d + of_nat n * 4, fold (\<lambda>t m. if bit (m src) (7 - t) then store32 m (d + of_nat t * 4) color else m) [0..<n] m)"
  by (induction n) (simp_all add: algebra_simps)

lemma char_line:
  assumes "n \<le> 8"
  shows "draw_char_line color 0 1 n src dst m =
    fold (\<lambda>t m. if bit (m src) (7 - t) then store32 m (dst + of_nat t * 4) color else m) [0..<n] m"
proof -
  have "fold (\<lambda>t m. if bit (m src) (7 - t) then store32 m (dst + of_nat t * 4) color else m) [0..<k] m = m" if "m src = 0" for k
    using that by (induction k) simp_all
  then show ?thesis by (simp add: draw_char_line_def draw_char_byte_def char_bits)
qed

lemma fold_no_change: "(\<And>i m. f i m = m) \<Longrightarrow> fold f xs m = m"
  by (induction xs arbitrary: m) simp_all

lemma one_byte:
  assumes "0 < n" "n \<le> 8"
  shows "(n + 7) div 8 = 1" "(n + 7) mod 8 + 1 = n" "((of_nat n + 7) div 8 :: u32) = 1"
proof -
  have "n = 1 \<or> n = 2 \<or> n = 3 \<or> n = 4 \<or> n = 5 \<or> n = 6 \<or> n = 7 \<or> n = 8" using assms by linarith
  then show "(n + 7) div 8 = 1" "(n + 7) mod 8 + 1 = n" "((of_nat n + 7) div 8 :: u32) = 1"
    by (elim disjE; simp add: word_div_def)+
qed

text \<open>The byte that holds line \<open>i\<close> of a character, in a font eight pixels wide.\<close>

definition glyph_line :: "mem \<Rightarrow> bitmap_font \<Rightarrow> u32 \<Rightarrow> nat \<Rightarrow> u8" where
  "glyph_line m font character i =
     m (font_data font + (if character \<ge> number_of_characters font then 0x3F else character) * bytes_per_character font + of_nat i)"

definition glyphs_apart :: "bitmap_font \<Rightarrow> u32 \<Rightarrow> u32 \<Rightarrow> nat \<Rightarrow> bool" where
  "glyphs_apart font character base n \<longleftrightarrow>
     (\<forall>i < unat (character_height font). \<not> inside base (of_nat n)
       (font_data font + (if character \<ge> number_of_characters font then 0x3F else character) * bytes_per_character font + of_nat i))"

lemma lines_address:
  "base + ((of_nat y * w) + of_nat x) * 4 + of_nat i * (w * 4) + of_nat j * 4 = pixel_address base (unat w) (x + j) (y + i)"
  by (simp add: pixel_address_def algebra_simps)

lemma char_lines_pixels:
  fixes m :: mem and base src w color :: u32 and x y rw rh h :: nat
  assumes fits: "x + rw \<le> unat w" "y + rh \<le> h" "4 * (h * unat w) < 4294967296" and rw: "rw \<le> 8"
    and away: "\<And>i. i < rh \<Longrightarrow> \<not> inside base (of_nat (4 * (h * unat w))) (src + of_nat i)"
  defines "result \<equiv> fold (\<lambda>i. draw_char_line color 0 1 rw (src + of_nat i) (base + ((of_nat y * w) + of_nat x) * 4 + of_nat i * (w * 4)))
    [0..<rh] m"
  shows "X < unat w \<Longrightarrow> Y < h \<Longrightarrow> pixel result base (unat w) X Y =
      (if (x \<le> X \<and> X < x + rw \<and> y \<le> Y \<and> Y < y + rh) \<and> bit (m (src + of_nat (Y - y))) (7 - (X - x)) then color
       else pixel m base (unat w) X Y)"
    and "\<not> inside base (of_nat (4 * (h * unat w))) a \<Longrightarrow> result a = m a"
proof -
  let ?D = "\<lambda>i j. pixel_address base (unat w) (x + j) (y + i)"
  define f where "f = (\<lambda>i j m. if bit (m (src + of_nat i)) (7 - j) then store32 m (?D i j) color else m)"
  have eq: "result = fold (\<lambda>i. fold (f i) [0..<rw]) [0..<rh] m"
    unfolding result_def f_def char_line [OF rw] lines_address ..
  have out: "i < rh \<Longrightarrow> j < rw \<Longrightarrow> \<not> inside (?D i j) 4 a \<Longrightarrow> f i j m a = m a" for i j m a
    by (simp add: f_def store32_outside)
  have loc: "f i j m' a = f i j m a" if "i < rh" "j < rw" "inside (?D i j) 4 a"
      "\<And>b. inside (?D i j) 4 b \<or> \<not> inside base (of_nat (4 * (h * unat w))) b \<Longrightarrow> m' b = m b" for i j m m' a
  proof -
    have "m' (src + of_nat i) = m (src + of_nat i)" "m' a = m a" using that away by blast+
    then show ?thesis using that(3) by (simp add: f_def store32_local)
  qed
  note region = region_pixels [where f = f and x = x and y = y and base = base, OF fits out loc]
  show "\<not> inside base (of_nat (4 * (h * unat w))) a \<Longrightarrow> result a = m a" unfolding eq by (rule region(2))
  show "pixel result base (unat w) X Y =
      (if (x \<le> X \<and> X < x + rw \<and> y \<le> Y \<and> Y < y + rh) \<and> bit (m (src + of_nat (Y - y))) (7 - (X - x)) then color
       else pixel m base (unat w) X Y)" if "X < unat w" "Y < h"
  proof -
    define v where "v = bit (m (src + of_nat (Y - y))) (7 - (X - x))"
    have "pixel result base (unat w) X Y = (if x \<le> X \<and> X < x + rw \<and> y \<le> Y \<and> Y < y + rh
        then pixel (f (Y - y) (X - x) m) base (unat w) X Y else pixel m base (unat w) X Y)"
      unfolding eq by (rule region(1)) (use that in auto)
    moreover have "pixel (f (Y - y) (X - x) m) base (unat w) X Y = (if v then color else pixel m base (unat w) X Y)"
      if "x \<le> X" "y \<le> Y"
      unfolding v_def f_def pixel_def le_add_diff_inverse [OF that(1)] le_add_diff_inverse [OF that(2)]
      by (simp add: load32_store32)
    ultimately show ?thesis unfolding v_def [symmetric] by simp
  qed
qed

text \<open>Drawing a character as the loop over its visible lines, in the numbers of the clipped area.\<close>

lemma draw_bitmap_char_lines:
  assumes width: "character_width font = 8" and height: "unat (character_height font) < 2147483648"
    and area: "calculate_area_in_part part x y 8 (int (unat (character_height font))) = Some a"
      "area_left a = int l" "area_top a = int t" "area_width a = int rw" "area_height a = int rh" "first_column a = int fc"
      "first_line a = int fl" "last_column a = int (fc + rw)" "last_line a = int (fl + rh)"
    and small: "fc + rw \<le> 8" "fl + rh < 4294967296"
  shows "draw_bitmap_char font base w part x y character color m =
    fold (\<lambda>i. draw_char_line color fc ((fc + rw + 7) div 8) ((fc + rw + 7) mod 8 + 1)
        (font_data font + (if character \<ge> number_of_characters font then 0x3F else character) * bytes_per_character font
          + of_nat fl + of_nat i * ((of_nat rw + 7) div 8))
        (base + ((of_nat (unat (part_y part) + t) * w) + of_nat (unat (part_x part) + l)) * 4 + of_nat i * (w * 4))) [0..<rh] m"
proof -
  have signed: "sint (character_height font) = int (unat (character_height font))" "sint (8 :: u32) = 8"
    using height by (simp_all only: sint_small32) simp
  have words: "unat (of_nat fc :: u32) = fc" "unat (of_nat fl :: u32) = fl" "unat (of_nat (fl + rh) :: u32) = fl + rh"
    "unat ((of_nat (fc + rw) + 7) div 8 :: u32) = (fc + rw + 7) div 8" "unat ((of_nat (fc + rw) + 7) mod 8 :: u32) = (fc + rw + 7) mod 8"
    using small by (simp_all add: unat_of_nat32 unat_div unat_mod unat_word_ariths del: of_nat_add)
  have byte: "((8 :: u32) + 7) div 8 = 1" by (simp add: word_div_def)
  have dst: "base + ((of_nat t + part_y part) * w + (of_nat l + part_x part)) * 4 =
    base + ((of_nat (unat (part_y part) + t) * w) + of_nat (unat (part_x part) + l)) * 4" by (simp add: algebra_simps)
  show ?thesis
    unfolding draw_bitmap_char_def signed area Let_def option.case of_int_of_nat_eq words width byte dst
    by (simp only: diff_add_inverse mult_1_right)
qed

text \<open>
  C37. A character of a font eight pixels wide is drawn with the bits of its glyph, cut to the part at the top,
  the bottom and the right; a character that begins left of the part is not drawn at all, although columns of
  it would be visible.
\<close>

theorem draw_bitmap_char_shows_glyph:
  assumes part: "part_on_screen part w h" and size: "usual_size x y 8 (int (unat (character_height font)))"
    and width: "character_width font = 8"
    and apart: "glyphs_apart font character base (4 * (h * unat w))"
    and XY: "X < unat w" "Y < h"
  shows "pixel (draw_bitmap_char font base w part x y character color m) base (unat w) X Y =
    (if shows_rectangle part x y 8 (int (unat (character_height font))) X Y \<and> 0 \<le> x
        \<and> bit (glyph_line m font character (nat (int Y - int (unat (part_y part)) - y)))
             (7 - nat (int X - int (unat (part_x part)) - x))
     then color else pixel m base (unat w) X Y)"
proof -
  have height: "unat (character_height font) < 2147483648" using size unfolding usual_size_def by linarith
  then have signed: "sint (character_height font) = int (unat (character_height font))" by (rule sint_small32)
  define glyph where "glyph = font_data font
    + (if character \<ge> number_of_characters font then 0x3F else character) * bytes_per_character font"
  from part size show ?thesis
  proof (cases rule: area_in_part)
    case 1
    then show ?thesis by (simp add: draw_bitmap_char_def signed width Let_def)
  next
    case (2 a l t rw rh fc fl)
    have small: "rw \<le> 8" "fc + rw \<le> 8" "fl + rh < 4294967296" using 2(12,13) size by (auto simp: usual_size_def)
    let ?src = "glyph + of_nat fl" and ?dst = "base + ((of_nat (unat (part_y part) + t) * w) + of_nat (unat (part_x part) + l)) * 4"
    have eq: "draw_bitmap_char font base w part x y character color m =
        fold (\<lambda>i. draw_char_line color fc ((fc + rw + 7) div 8) ((fc + rw + 7) mod 8 + 1) (?src + of_nat i * ((of_nat rw + 7) div 8))
          (?dst + of_nat i * (w * 4))) [0..<rh] m"
      unfolding glyph_def by (rule draw_bitmap_char_lines [OF width height 2(1-7,14,15) small(2,3)])
    show ?thesis
    proof (cases "0 \<le> x \<and> 0 < rw")
      case True
      then have "fc = 0" using 2(16) by blast
      have "rw \<le> 8" "0 < rw" using small True by auto
      note line = one_byte [OF this(2,1)]
      have fits: "unat (part_x part) + l + rw \<le> unat w" "unat (part_y part) + t + rh \<le> h" "4 * (h * unat w) < 4294967296"
        using 2(10,11) part by (simp_all add: part_on_screen_def)
      have away: "\<not> inside base (of_nat (4 * (h * unat w))) (?src + of_nat i)" if "i < rh" for i
      proof -
        have "fl + i < unat (character_height font)" using that 2(13) by linarith
        then show ?thesis using apart unfolding glyphs_apart_def glyph_def [symmetric] by (metis add.assoc of_nat_add)
      qed
      let ?shown = "(unat (part_x part) + l \<le> X \<and> X < unat (part_x part) + l + rw
          \<and> unat (part_y part) + t \<le> Y \<and> Y < unat (part_y part) + t + rh)
        \<and> bit (m (?src + of_nat (Y - (unat (part_y part) + t)))) (7 - (X - (unat (part_x part) + l)))"
      have "draw_bitmap_char font base w part x y character color m =
          fold (\<lambda>i. draw_char_line color 0 1 rw (?src + of_nat i) (?dst + of_nat i * (w * 4))) [0..<rh] m"
        unfolding eq \<open>fc = 0\<close> add_0_left line mult_1_right ..
      then have drawn: "pixel (draw_bitmap_char font base w part x y character color m) base (unat w) X Y =
          (if ?shown then color else pixel m base (unat w) X Y)"
        using char_lines_pixels(1) [OF fits \<open>rw \<le> 8\<close> away XY, of color m] by simp
      show ?thesis
      proof (cases "unat (part_x part) + l \<le> X \<and> unat (part_y part) + t \<le> Y")
        case inside: True
        have "nat (int X - int (unat (part_x part)) - x) = X - (unat (part_x part) + l)"
          "nat (int Y - int (unat (part_y part)) - y) = fl + (Y - (unat (part_y part) + t))"
          using inside 2(8,9) \<open>fc = 0\<close> by linarith+
        then have bits: "glyph_line m font character (nat (int Y - int (unat (part_y part)) - y))
            = m (?src + of_nat (Y - (unat (part_y part) + t)))"
          "7 - nat (int X - int (unat (part_x part)) - x) = 7 - (X - (unat (part_x part) + l))"
          by (simp_all only: glyph_line_def glyph_def of_nat_add add.assoc)
        show ?thesis unfolding drawn bits 2(18) using True by (simp only: conj_assoc simp_thms)
      next
        case False
        then show ?thesis unfolding drawn 2(18) by auto
      qed
    next
      case False
      then have "(fc + rw + 7) div 8 \<le> fc"
      proof (cases "rw = 0")
        case False
        with \<open>\<not> (0 \<le> x \<and> 0 < rw)\<close> have "x < 0" by simp
        then have "0 < fc" using 2(8) by linarith
        then show ?thesis using small by linarith
      qed linarith
      then have "draw_bitmap_char font base w part x y character color m = m"
        unfolding eq by (intro fold_no_change) (simp add: draw_char_line_def)
      moreover have "\<not> (shows_rectangle part x y 8 (int (unat (character_height font))) X Y \<and> 0 \<le> x)"
        using False 2(18) [of X Y] by auto
      ultimately show ?thesis by auto
    qed
  qed
qed

text \<open>A font whose glyphs are full squares of eight times four pixels.\<close>

definition example_font :: bitmap_font where
  "example_font = \<lparr>font_data = 0x4000, number_of_characters = 256, bytes_per_character = 4, character_width = 8,
     character_height = 4\<rparr>"

theorem draw_bitmap_char_shows_glyph_witness:
  "pixel (draw_bitmap_char example_font 0x1000 8 example_part 1 (- 1) 65 7 example_memory) 0x1000 8 3 1 = 7
    \<and> pixel (draw_bitmap_char example_font 0x1000 8 example_part (- 1) 0 65 7 example_memory) 0x1000 8 3 1 = 0"
proof -
  have size: "usual_size 1 (- 1) 8 (int (unat (character_height example_font)))"
    "usual_size (- 1) 0 8 (int (unat (character_height example_font)))" by (simp_all add: usual_size_def example_font_def)
  have width: "character_width example_font = 8" by (simp add: example_font_def)
  have apart: "glyphs_apart example_font 65 0x1000 (4 * (8 * unat (8 :: u32)))"
    unfolding glyphs_apart_def
  proof (intro allI impI)
    fix i assume "i < unat (character_height example_font)"
    then have "i = 0 \<or> i = 1 \<or> i = 2 \<or> i = 3" by (simp add: example_font_def) presburger
    then show "\<not> inside 0x1000 (of_nat (4 * (8 * unat (8 :: u32)))) (font_data example_font
        + (if number_of_characters example_font \<le> 65 then 0x3F else 65) * bytes_per_character example_font + of_nat i)"
      by (elim disjE) (simp_all add: example_font_def inside_def)
  qed
  note * = draw_bitmap_char_shows_glyph [OF example_part_on_screen _ width apart]
  show ?thesis
    using * [OF size(1), of 3 1 7 example_memory] * [OF size(2), of 3 1 7 example_memory]
    by (simp add: shows_rectangle_def example_part_def example_font_def glyph_line_def pixel_def load32_def
        pixel_address_def example_memory_def)
qed

section \<open>UTF-8\<close>

text \<open>The standard encoding of a character.\<close>

definition utf8 :: "u32 \<Rightarrow> u8 list" where
  "utf8 c = (if c < 0x80 then [ucast c]
     else if c < 0x800 then [ucast (0xC0 OR drop_bit 6 c), ucast (0x80 OR (c AND 0x3F))]
     else if c < 0x10000 then [ucast (0xE0 OR drop_bit 12 c), ucast (0x80 OR (drop_bit 6 c AND 0x3F)), ucast (0x80 OR (c AND 0x3F))]
     else [ucast (0xF0 OR drop_bit 18 c), ucast (0x80 OR (drop_bit 12 c AND 0x3F)), ucast (0x80 OR (drop_bit 6 c AND 0x3F)),
       ucast (0x80 OR (c AND 0x3F))])"

lemma bits_32:
  "(a :: u32) = b \<longleftrightarrow> (\<forall>n \<in> {0, 1, 2, 3, 4, 5, 6, 7, 8, 9, 10, 11, 12, 13, 14, 15, 16, 17, 18, 19, 20, 21, 22, 23,
    24, 25, 26, 27, 28, 29, 30, 31}. bit a n = bit b n)"
proof
  assume *: "\<forall>n \<in> {0, 1, 2, 3, 4, 5, 6, 7, 8, 9, 10, 11, 12, 13, 14, 15, 16, 17, 18, 19, 20, 21, 22, 23,
    24, 25, 26, 27, 28, 29, 30, 31}. bit a n = bit b n"
  show "a = b"
  proof (rule bit_word_eqI)
    fix n assume "n < LENGTH(32)"
    then have "n \<in> {0, 1, 2, 3, 4, 5, 6, 7, 8, 9, 10, 11, 12, 13, 14, 15, 16, 17, 18, 19, 20, 21, 22, 23,
      24, 25, 26, 27, 28, 29, 30, 31}" by (simp, presburger)
    with * show "bit a n = bit b n" by blast
  qed
qed simp

lemma bit_bound: "unat (c :: u32) < 2 ^ k \<Longrightarrow> k \<le> n \<Longrightarrow> \<not> bit c n"
proof
  assume c: "unat c < 2 ^ k" "k \<le> n" "bit c n"
  then have "unat c < 2 ^ n" using power_increasing [of k n "2 :: nat"] by linarith
  then have "drop_bit n (unat c) = 0" by (simp add: drop_bit_eq_div)
  moreover have "bit (unat c) n" using c(3) by (simp add: bit_unsigned_iff)
  ultimately show False by (metis bit_iff_odd_drop_bit even_zero)
qed

lemmas utf8_bits = utf8_def utf8_character_def signed_char_at_def Let_def bits_32 bit_simps

text \<open>
  C38. Decoding is the inverse of the standard encoding: for every code of Unicode the loop over a string reads
  the character back from its bytes and goes on behind them.
\<close>

theorem utf8_round_trip:
  assumes "c < 0x110000" and bytes: "bytes_at m p (utf8 c)"
  shows "utf8_character m p = (c, p + of_nat (length (utf8 c)))"
proof -
  have "unat c < 2097152" using assms(1) by (simp add: word_less_nat_alt)
  then have hi: "\<And>n. 21 \<le> n \<Longrightarrow> \<not> bit c n" using bit_bound [of c 21] by simp
  consider "c < 0x80" | "\<not> c < 0x80" "c < 0x800" | "\<not> c < 0x80" "\<not> c < 0x800" "c < 0x10000"
    | "\<not> c < 0x80" "\<not> c < 0x800" "\<not> c < 0x10000" by blast
  then show ?thesis
  proof cases
    case 1
    then have "\<And>n. 7 \<le> n \<Longrightarrow> \<not> bit c n" using bit_bound [of c 7] by (simp add: word_less_nat_alt)
    then show ?thesis using 1 bytes by (simp add: utf8_bits)
  next
    case 2
    then have "\<And>n. 11 \<le> n \<Longrightarrow> \<not> bit c n" using bit_bound [of c 11] by (simp add: word_less_nat_alt)
    then show ?thesis using 2 bytes by (simp add: utf8_bits add.assoc)
  next
    case 3
    then have "\<And>n. 16 \<le> n \<Longrightarrow> \<not> bit c n" using bit_bound [of c 16] by (simp add: word_less_nat_alt)
    then show ?thesis using 3 bytes by (simp add: utf8_bits add.assoc)
  next
    case 4
    then show ?thesis using hi bytes by (simp add: utf8_bits add.assoc)
  qed
qed

theorem utf8_round_trip_witness:
  "utf8_character (\<lambda>a. [0xE2, 0x82, 0xAC] ! unat (a - 0x500)) 0x500 = (0x20AC, 0x503)"
  using utf8_round_trip [where c = "0x20AC" and m = "\<lambda>a. [0xE2, 0x82, 0xAC] ! unat (a - 0x500)" and p = "0x500"]
  by (simp add: utf8_def)

end
