(* ===== verification/Font_Loading.thy ===== *)
theory Font_Loading
  imports Font
begin

text \<open>
  The loader of PSF1 fonts with a Unicode table: it ends, the characters get the glyphs that the table assigns
  to them, and a font of 256 characters overwrites the heap behind its glyphs.
\<close>

section \<open>Glyphs\<close>

text \<open>The address of byte \<open>i\<close> of the glyph \<open>g\<close> in an array of glyphs of \<open>n\<close> bytes.\<close>

definition glyph_byte :: "u32 \<Rightarrow> nat \<Rightarrow> nat \<Rightarrow> nat \<Rightarrow> u32" where
  "glyph_byte base n g i = base + of_nat (g * n + i)"

lemma glyph_byte_eq_iff:
  assumes "i < n" "i' < n" "g * n + i < 4294967296" "g' * n + i' < 4294967296"
  shows "glyph_byte base n g i = glyph_byte base n g' i' \<longleftrightarrow> g = g' \<and> i = i'"
proof -
  have "glyph_byte base n g i = glyph_byte base n g' i' \<longleftrightarrow> (of_nat (g * n + i) :: u32) = of_nat (g' * n + i')"
    by (simp add: glyph_byte_def)
  also have "\<dots> \<longleftrightarrow> g * n + i = g' * n + i'"
    by (metis assms(3,4) unat_of_nat32)
  finally show ?thesis using cell_unique [of i n i' g g'] assms(1,2) by auto
qed

lemma glyph_in_range: "g < k \<Longrightarrow> i < n \<Longrightarrow> g * n + i < k * (n :: nat)"
proof -
  assume "g < k" "i < n"
  then have "g * n + i < Suc g * n" by simp
  also have "\<dots> \<le> k * n" using \<open>g < k\<close> by (intro mult_le_mono1) simp
  finally show ?thesis .
qed

lemma add_glyph_spec:
  assumes "unat bpc = n"
    and apart: "\<And>i j. i < n \<Longrightarrow> j < n \<Longrightarrow> glyph_byte dst n 0 i \<noteq> glyph_byte src n 0 j"
  shows "i < n \<Longrightarrow> add_glyph dst src bpc m (glyph_byte dst n 0 i) = m (glyph_byte dst n 0 i) OR m (glyph_byte src n 0 i)"
    and "(\<And>i. i < n \<Longrightarrow> a \<noteq> glyph_byte dst n 0 i) \<Longrightarrow> add_glyph dst src bpc m a = m a"
proof -
  let ?f = "\<lambda>i m. m(dst + of_nat i := m (dst + of_nat i) OR m (src + of_nat i))"
  have "n < 4294967296" using assms(1) unat_less_4G [of bpc] by simp
  have uniq: "i = j" if "i < n" "j < n" "dst + of_nat i = dst + of_nat j" for i j
    using that glyph_byte_eq_iff [of i n j 0 0 dst] \<open>n < 4294967296\<close> by (simp add: glyph_byte_def)
  have "(\<forall>p \<in> set [0..<n]. \<forall>a. a = dst + of_nat p \<longrightarrow> fold ?f [0..<n] m a = ?f p m a)
    \<and> (\<forall>a. (\<forall>p \<in> set [0..<n]. a \<noteq> dst + of_nat p) \<longrightarrow> fold ?f [0..<n] m a = m a)"
  proof (rule fold_cells)
    fix p q a assume "p \<in> set [0..<n]" "q \<in> set [0..<n]" "a = dst + of_nat p" "a = dst + of_nat q"
    then show "p = q" using uniq by simp
  next
    fix p m m' a assume p: "p \<in> set [0..<n]" "a = dst + of_nat p"
      and same: "\<And>b. \<forall>q \<in> set [0..<n]. b = dst + of_nat q \<longrightarrow> q = p \<Longrightarrow> m' b = (m :: mem) b"
    have "m' (dst + of_nat p) = m (dst + of_nat p)" by (rule same) (use p uniq in auto)
    moreover have "m' (src + of_nat p) = m (src + of_nat p)"
    proof (rule same, intro ballI impI)
      fix q assume "q \<in> set [0..<n]" "src + of_nat p = dst + of_nat q"
      then show "q = p" using p apart [of q p] by (simp add: glyph_byte_def)
    qed
    ultimately show "?f p m' a = ?f p m a" using p by simp
  qed simp_all
  then show "i < n \<Longrightarrow> add_glyph dst src bpc m (glyph_byte dst n 0 i) = m (glyph_byte dst n 0 i) OR m (glyph_byte src n 0 i)"
    and "(\<And>i. i < n \<Longrightarrow> a \<noteq> glyph_byte dst n 0 i) \<Longrightarrow> add_glyph dst src bpc m a = m a"
    by (simp_all add: add_glyph_def assms(1) glyph_byte_def)
qed

section \<open>The Unicode table\<close>

text \<open>A table of codes in memory that is not part of \<open>F\<close>, and what it assigns: pairs of a glyph and a code.\<close>

fun table_at :: "(u32 \<Rightarrow> bool) \<Rightarrow> mem \<Rightarrow> u32 \<Rightarrow> u16 list \<Rightarrow> bool" where
  "table_at F m p [] \<longleftrightarrow> True"
| "table_at F m p (c # cs) \<longleftrightarrow> load16 m p = c \<and> \<not> F p \<and> \<not> F (p + 1) \<and> table_at F m (p + 2) cs"

fun assigned :: "nat \<Rightarrow> u16 list \<Rightarrow> (nat \<times> u16) list" where
  "assigned g [] = []"
| "assigned g (c # cs) = (if c = 0xFFFF then assigned (g + 1) cs else (g, c) # assigned g cs)"

text \<open>The table ends the lists of the glyphs from \<open>copied\<close> up to \<open>number\<close>.\<close>

definition table_ends :: "nat \<Rightarrow> u16 list \<Rightarrow> nat \<Rightarrow> bool" where
  "table_ends copied cs number \<longleftrightarrow> copied + count_list cs 0xFFFF = number \<and> (cs = [] \<or> last cs = 0xFFFF)"

lemma table_at_cong: "(\<And>a. \<not> F a \<Longrightarrow> m' a = m a) \<Longrightarrow> table_at F m' p cs = table_at F m p cs"
  by (induction cs arbitrary: p) (auto simp: load16_def)

lemma table_ends_Nil: "table_ends copied [] number \<longleftrightarrow> copied = number"
  by (simp add: table_ends_def)

lemma table_ends_Cons:
  "table_ends copied (c # cs) number \<Longrightarrow> copied < number \<and> table_ends (if c = 0xFFFF then copied + 1 else copied) cs number"
proof -
  assume *: "table_ends copied (c # cs) number"
  then have "0xFFFF \<in> set (c # cs)" by (metis table_ends_def last_in_set list.discI)
  then have "count_list (c # cs) 0xFFFF \<noteq> 0" by (metis count_list_0_iff)
  with * show ?thesis by (auto simp: table_ends_def split: if_splits)
qed

lemma assigned_less: "table_ends copied cs number \<Longrightarrow> (g, c) \<in> set (assigned copied cs) \<Longrightarrow> g < number"
proof (induction cs arbitrary: copied)
  case (Cons c' cs)
  then show ?case using table_ends_Cons [OF Cons.prems(1)] by (auto split: if_splits)
qed simp

text \<open>The bytes of the characters of a font.\<close>

definition font_bytes :: "u32 \<Rightarrow> nat \<Rightarrow> nat \<Rightarrow> u32 \<Rightarrow> bool" where
  "font_bytes fdata n number a \<longleftrightarrow> (\<exists>c < number. \<exists>i < n. a = glyph_byte fdata n c i)"

definition table_result :: "u32 \<Rightarrow> u32 \<Rightarrow> nat \<Rightarrow> nat \<Rightarrow> (nat \<times> u16) list \<Rightarrow> bool list \<Rightarrow> mem \<Rightarrow> bool list \<Rightarrow> mem \<Rightarrow> bool" where
  "table_result fdata glyphs n number as present m present' m' \<longleftrightarrow>
     length present' = length present
     \<and> (\<forall>c < 512. present' ! c \<longleftrightarrow> present ! c \<or> (c < number \<and> (\<exists>g. (g, of_nat c) \<in> set as)))
     \<and> (\<forall>a. \<not> font_bytes fdata n number a \<longrightarrow> m' a = m a)
     \<and> (\<forall>c < number. \<forall>i < n. \<forall>b. bit (m' (glyph_byte fdata n c i)) b \<longleftrightarrow> bit (m (glyph_byte fdata n c i)) b
         \<or> (\<exists>g. (g, of_nat c) \<in> set as \<and> bit (m (glyph_byte glyphs n g i)) b))"

lemma unat_code: "unat (ucast (c :: u16) :: u32) = unat c"
proof -
  have "unat c < 2 ^ LENGTH(16)" by (rule unsigned_less)
  then show ?thesis by (simp add: unsigned_ucast_eq take_bit_nat_eq_self)
qed

lemma same_code: "d < 512 \<Longrightarrow> of_nat d = (c :: u16) \<longleftrightarrow> d = unat c"
  by (auto simp: unsigned_of_nat take_bit_nat_eq_self)

lemma glyph_byte_start:
  "glyph_byte (base + of_nat g * of_nat n) n 0 i = glyph_byte base n g i"
  by (simp add: glyph_byte_def)

text \<open>One more code: the memory \<open>m1\<close> with its glyph added, and what the rest of the table makes of it.\<close>

lemma table_result_step:
  assumes size: "number \<le> 512" "n \<le> 255" and True: "unat c < number"
    and away: "\<And>g i. g < number \<Longrightarrow> i < n \<Longrightarrow> \<not> font_bytes fdata n number (glyph_byte glyphs n g i)"
    and len: "length present = 512" and ends: "table_ends copied cs number"
    and own: "\<And>i. i < n \<Longrightarrow> m1 (glyph_byte fdata n (unat c) i) = m (glyph_byte fdata n (unat c) i) OR m (glyph_byte glyphs n copied i)"
    and other: "\<And>a. (\<And>i. i < n \<Longrightarrow> a \<noteq> glyph_byte fdata n (unat c) i) \<Longrightarrow> m1 a = m a"
    and result: "table_result fdata glyphs n number (assigned copied cs) (present[unat c := True]) m1 present' m'"
  shows "table_result fdata glyphs n number ((copied, c) # assigned copied cs) present m present' m'"
proof -
  have keeps: "m1 a = m a" if "\<not> font_bytes fdata n number a" for a
    using that True by (intro other) (auto simp: font_bytes_def)
  show ?thesis
      unfolding table_result_def
  proof (intro conjI allI impI)
    show "length present' = length present" using result by (simp add: table_result_def)
  next
    fix d :: nat assume d: "d < 512"
    then have "present[unat c := True] ! d \<longleftrightarrow> present ! d \<or> (d < number \<and> of_nat d = c)"
      using len True same_code [of d c] by (auto simp: nth_list_update)
    then show "present' ! d \<longleftrightarrow> present ! d \<or> (d < number \<and> (\<exists>g. (g, of_nat d) \<in> set ((copied, c) # assigned copied cs)))"
      using result d by (auto simp: table_result_def)
  next
    fix a assume "\<not> font_bytes fdata n number a"
    then show "m' a = m a" using result keeps by (simp add: table_result_def)
  next
    fix d i b assume d: "d < number" "i < n"
    have old: "m1 (glyph_byte glyphs n g j) = m (glyph_byte glyphs n g j)" if "g < number" "j < n" for g j
      using keeps away [OF that] by blast
    have new: "bit (m1 (glyph_byte fdata n d i)) b \<longleftrightarrow> bit (m (glyph_byte fdata n d i)) b
        \<or> (of_nat d = c \<and> bit (m (glyph_byte glyphs n copied i)) b)"
    proof (cases "d = unat c")
      case True
      then show ?thesis using own [OF d(2)] by (simp add: bit_or_iff)
    next
      case False
      have small: "d * n + i < 4294967296" "unat c * n + j < 4294967296" if "j < n" for j
        using glyph_in_range [OF d] glyph_in_range [OF \<open>unat c < number\<close> that] mult_le_mono [OF size(1,2)] by linarith+
      have "glyph_byte fdata n d i \<noteq> glyph_byte fdata n (unat c) j" if "j < n" for j
        using glyph_byte_eq_iff [OF d(2) that small [OF that]] False by simp
      then have "m1 (glyph_byte fdata n d i) = m (glyph_byte fdata n d i)" by (rule other)
      then show ?thesis using False same_code [of d c] d(1) size(1) by simp
    qed
    have "bit (m' (glyph_byte fdata n d i)) b \<longleftrightarrow> bit (m1 (glyph_byte fdata n d i)) b
        \<or> (\<exists>g. (g, of_nat d) \<in> set (assigned copied cs) \<and> bit (m1 (glyph_byte glyphs n g i)) b)"
      using result d by (simp add: table_result_def)
    also have "(\<exists>g. (g, of_nat d) \<in> set (assigned copied cs) \<and> bit (m1 (glyph_byte glyphs n g i)) b)
        \<longleftrightarrow> (\<exists>g. (g, of_nat d) \<in> set (assigned copied cs) \<and> bit (m (glyph_byte glyphs n g i)) b)"
      using old [OF _ d(2)] assigned_less [of copied cs number] ends by (intro ex_cong1 conj_cong refl) auto
    finally show "bit (m' (glyph_byte fdata n d i)) b \<longleftrightarrow> bit (m (glyph_byte fdata n d i)) b
        \<or> (\<exists>g. (g, of_nat d) \<in> set ((copied, c) # assigned copied cs) \<and> bit (m (glyph_byte glyphs n g i)) b)"
      unfolding new by auto
  qed
qed

lemma unicode_table_loop_returns:
  assumes size: "number \<le> 512" "n \<le> 255" "unat bpc = n"
    and away: "\<And>g i. g < number \<Longrightarrow> i < n \<Longrightarrow> \<not> font_bytes fdata n number (glyph_byte glyphs n g i)"
  shows "table_at (font_bytes fdata n number) m table cs \<Longrightarrow> table_ends copied cs number \<Longrightarrow> length present = 512 \<Longrightarrow>
    \<exists>present' m'. unicode_table_loop fdata glyphs (of_nat number) bpc table (of_nat copied) present m = Some (present', m')
      \<and> table_result fdata glyphs n number (assigned copied cs) present m present' m'"
proof (induction cs arbitrary: table copied present m)
  case Nil
  then show ?case by (subst unicode_table_loop.simps) (simp add: table_ends_Nil table_result_def)
next
  case (Cons c cs)
  have less: "copied < number" and ends: "table_ends (if c = 0xFFFF then copied + 1 else copied) cs number"
    using table_ends_Cons [OF Cons.prems(2)] by auto
  then have wless: "(of_nat copied :: u32) < of_nat number" using size(1) by (intro of_nat_less_iff32) auto
  have at: "load16 m table = c" "table_at (font_bytes fdata n number) m (table + 2) cs" using Cons.prems(1) by auto
  note loop = unicode_table_loop.simps [of fdata glyphs "of_nat number" bpc table "of_nat copied" present m]
  have bpc: "bpc = of_nat n" using size(3) by (metis of_nat_unat ucast_id)
  have number: "unat (of_nat number :: u32) = number" using size(1) by (intro unat_of_nat32) simp
  have code: "ucast c = (of_nat (unat c) :: u32)" by simp
  show ?case
  proof (cases "c = 0xFFFF")
    case True
    with Cons.IH [OF at(2) _ Cons.prems(3), of "copied + 1"] ends loop wless at(1)
    show ?thesis by (simp add: add.commute)
  next
    case no_end: False
    show ?thesis
    proof (cases "unat c < number")
      case False
      then have "of_nat number \<le> (ucast c :: u32)" by (simp add: word_le_nat_alt number unat_code)
      moreover have "\<not> (\<exists>d < number. of_nat d = c)"
      proof
        assume "\<exists>d < number. of_nat d = c"
        then obtain d where "d < number" "c = of_nat d" by blast
        then have "unat c = d" using size(1) by (simp add: unsigned_of_nat take_bit_nat_eq_self)
        with False \<open>d < number\<close> show False by simp
      qed
      ultimately show ?thesis
        using Cons.IH [OF at(2) _ Cons.prems(3), of copied] ends loop wless at(1) no_end
        by (auto simp: table_result_def)
    next
      case True
      let ?m1 = "add_glyph (fdata + ucast c * bpc) (glyphs + of_nat copied * bpc) bpc m"
      have dst: "glyph_byte (fdata + ucast c * bpc) n 0 i = glyph_byte fdata n (unat c) i"
        and src: "glyph_byte (glyphs + of_nat copied * bpc) n 0 i = glyph_byte glyphs n copied i" for i
        unfolding bpc code by (rule glyph_byte_start)+
      have apart: "glyph_byte fdata n (unat c) i \<noteq> glyph_byte glyphs n copied j" if "i < n" "j < n" for i j
        using away [OF less that(2)] that(1) True unfolding font_bytes_def by metis
      note spec = add_glyph_spec [OF size(3), of "fdata + ucast c * bpc" "glyphs + of_nat copied * bpc", unfolded dst src]
      have glyph: "i < n \<Longrightarrow> ?m1 (glyph_byte fdata n (unat c) i) = m (glyph_byte fdata n (unat c) i) OR m (glyph_byte glyphs n copied i)"
        "(\<And>i. i < n \<Longrightarrow> a \<noteq> glyph_byte fdata n (unat c) i) \<Longrightarrow> ?m1 a = m a" for i a
        using spec(1) [of i] spec(2) [of a] apart by blast+
      have m1: "\<not> font_bytes fdata n number a \<Longrightarrow> ?m1 a = m a" for a
        by (rule glyph(2)) (use True in \<open>auto simp: font_bytes_def\<close>)
      have ends': "table_ends copied cs number" using ends no_end by simp
      have "\<not> of_nat number \<le> (ucast c :: u32)" using True by (simp add: word_le_nat_alt number unat_code)
      moreover obtain present' m' where step:
        "unicode_table_loop fdata glyphs (of_nat number) bpc (table + 2) (of_nat copied) (present[unat c := True]) ?m1 = Some (present', m')"
        "table_result fdata glyphs n number (assigned copied cs) (present[unat c := True]) ?m1 present' m'"
        using Cons.IH [of ?m1 "table + 2" copied "present[unat c := True]"] at(2) ends no_end Cons.prems(3)
          table_at_cong [of "font_bytes fdata n number" ?m1 m] m1 by auto
      moreover have "table_result fdata glyphs n number ((copied, c) # assigned copied cs) present m present' m'"
        by (rule table_result_step [OF size(1,2) True away Cons.prems(3) ends' glyph step(2)])
      ultimately show ?thesis using loop wless at(1) no_end by simp
    qed
  qed
qed

section \<open>Characters without a glyph\<close>

lemma inside_glyph:
  assumes "unat bpc = n"
  shows "inside (base + of_nat g * bpc) bpc a \<longleftrightarrow> (\<exists>i < n. a = glyph_byte base n g i)"
proof
  assume "inside (base + of_nat g * bpc) bpc a"
  then have "unat (a - (base + of_nat g * bpc)) < n" using assms by (simp add: inside_def word_less_nat_alt)
  moreover have "bpc = of_nat n" using assms by (metis of_nat_unat ucast_id)
  then have "a = glyph_byte base n g (unat (a - (base + of_nat g * bpc)))" by (simp add: glyph_byte_def)
  ultimately show "\<exists>i < n. a = glyph_byte base n g i" by blast
next
  assume "\<exists>i < n. a = glyph_byte base n g i"
  then obtain i where i: "i < n" "a = glyph_byte base n g i" by blast
  have "bpc = of_nat n" using assms by (metis of_nat_unat ucast_id)
  moreover have "unat (of_nat i :: u32) = i" using i(1) assms unat_less_4G [of bpc] by (intro unat_of_nat32) simp
  ultimately show "inside (base + of_nat g * bpc) bpc a" using i assms
    by (simp add: inside_def word_less_nat_alt glyph_byte_def)
qed

lemma fill_missing_spec:
  assumes "unat bpc = n" "n \<le> 255" "c < 512" "i < n"
  shows "fill_missing_characters fdata bpc present m (glyph_byte fdata n c i) =
    (if present ! c then m (glyph_byte fdata n c i) else 0xFF)"
proof -
  let ?f = "\<lambda>i m. if present ! i then m else mem_fill m (fdata + of_nat i * bpc) 0xFF bpc"
  let ?cell = "\<lambda>c a. \<exists>i < n. a = glyph_byte fdata n c i"
  have small: "c * n + i < 4294967296" if "c < 512" "i < n" for c i
    using glyph_in_range [OF that] assms(2) by linarith
  have "(\<forall>p \<in> set [0..<512]. \<forall>a. ?cell p a \<longrightarrow> fold ?f [0..<512] m a = ?f p m a)
    \<and> (\<forall>a. (\<forall>p \<in> set [0..<512]. \<not> ?cell p a) \<longrightarrow> fold ?f [0..<512] m a = m a)"
  proof (rule fold_cells)
    show "distinct [0..<512]" by simp
  next
    fix p m a assume "\<not> ?cell p a"
    then show "?f p m a = m a" by (auto simp: mem_fill_def inside_glyph [OF assms(1)])
  next
    fix p q a assume "p \<in> set [0..<512]" "q \<in> set [0..<512]" "?cell p a" "?cell q a"
    then show "p = q" using glyph_byte_eq_iff small by fastforce
  next
    fix p m m' a assume p: "p \<in> set [0..<512]" "?cell p a"
      and same: "\<And>b. \<forall>q \<in> set [0..<512]. ?cell q b \<longrightarrow> q = p \<Longrightarrow> m' b = (m :: mem) b"
    have "m' a = m a"
    proof (rule same, intro ballI impI)
      fix q assume "q \<in> set [0..<512]" "?cell q a"
      then show "q = p" using p glyph_byte_eq_iff small by fastforce
    qed
    then show "?f p m' a = ?f p m a" by (simp add: mem_fill_def)
  qed
  moreover have "?cell c (glyph_byte fdata n c i)" using assms(4) by blast
  ultimately have "fold ?f [0..<512] m (glyph_byte fdata n c i) = ?f c m (glyph_byte fdata n c i)"
    using assms(3) by simp
  also have "\<dots> = (if present ! c then m (glyph_byte fdata n c i) else 0xFF)"
    using assms(4) by (auto simp: mem_fill_def inside_glyph [OF assms(1)])
  finally show ?thesis unfolding fill_missing_characters_def .
qed

lemma fill_missing_outside:
  assumes "unat bpc = n" "\<not> font_bytes fdata n 512 a"
  shows "fill_missing_characters fdata bpc present m a = m a"
proof -
  have "mem_fill m' (fdata + of_nat c * bpc) 0xFF bpc a = m' a" if "c < 512" for c m'
    using assms(2) that by (auto simp: mem_fill_def inside_glyph [OF assms(1)] font_bytes_def)
  then show ?thesis unfolding fill_missing_characters_def
    by (intro fold_invariant [where Q = "\<lambda>c. c < 512" and P = "\<lambda>m'. m' a = m a"]) auto
qed

text \<open>
  A PSF1 file with \<open>number\<close> glyphs of \<open>n\<close> bytes and the table \<open>cs\<close>, apart from the block for the characters.
\<close>

definition psf1_file :: "mem \<Rightarrow> u32 \<Rightarrow> u32 \<Rightarrow> nat \<Rightarrow> nat \<Rightarrow> u16 list \<Rightarrow> bool" where
  "psf1_file m fdata file number n cs \<longleftrightarrow>
     m (file + 2) AND 2 \<noteq> 0 \<and> number = (if m (file + 2) AND 1 \<noteq> 0 then 512 else 256) \<and> n = unat (m (file + 3))
     \<and> table_at (font_bytes fdata n number) m (file + 4 + of_nat (number * n)) cs \<and> table_ends 0 cs number
     \<and> (\<forall>g < number. \<forall>i < n. \<not> font_bytes fdata n number (glyph_byte (file + 4) n g i))"

lemma load_psf1_table:
  assumes psf: "psf1_file m fdata file number n cs"
  shows "\<exists>present m' bpc. unat bpc = n \<and> load_psf1_font fdata file m =
      Some (\<lparr>font_data = fdata, number_of_characters = of_nat number, bytes_per_character = bpc, character_width = 8,
        character_height = bpc\<rparr>, fill_missing_characters fdata bpc present m')
    \<and> table_result fdata (file + 4) n number (assigned 0 cs) (replicate 512 False) m present m' \<and> n \<le> 255 \<and> number \<le> 512"
proof -
  let ?bpc = "ucast (m (file + 3)) :: u32"
  have n: "n \<le> 255" "unat ?bpc = n"
    using psf unat_le_255 [of "m (file + 3)"] by (simp_all add: psf1_file_def unsigned_ucast_eq take_bit_nat_eq_self)
  have number: "number \<le> 512" using psf by (simp add: psf1_file_def split: if_splits)
  have bpc: "?bpc = of_nat n" using n(2) by (metis of_nat_unat ucast_id)
  obtain present m' where loop:
    "unicode_table_loop fdata (file + 4) (of_nat number) ?bpc (file + 4 + of_nat (number * n)) (of_nat 0) (replicate 512 False) m
      = Some (present, m')"
    "table_result fdata (file + 4) n number (assigned 0 cs) (replicate 512 False) m present m'"
    using unicode_table_loop_returns [OF number n(1,2), of fdata "file + 4" m "file + 4 + of_nat (number * n)" cs 0 "replicate 512 False"]
      psf by (auto simp: psf1_file_def)
  have "load_psf1_font fdata file m = Some (\<lparr>font_data = fdata, number_of_characters = of_nat number, bytes_per_character = ?bpc,
      character_width = 8, character_height = ?bpc\<rparr>, fill_missing_characters fdata ?bpc present m')"
  proof -
    have mode: "(m (file + 2) AND 2 = 0) = False" using psf by (simp add: psf1_file_def)
    have words: "(if m (file + 2) AND 1 \<noteq> 0 then 512 else 256) = (of_nat number :: u32)" using psf by (simp add: psf1_file_def)
    have "file + 4 + of_nat number * ?bpc = file + 4 + of_nat (number * n)" by (simp add: bpc)
    then have table: "unicode_table_loop fdata (file + 4) (of_nat number) ?bpc (file + 4 + of_nat number * ?bpc) 0 (replicate 512 False) m
      = Some (present, m')" using loop(1) by (simp add: semiring_1_class.of_nat_0)
    show ?thesis unfolding load_psf1_font_def Let_def mode words if_False table by (simp only: Option.bind.simps prod.case)
  qed
  with loop(2) n number show ?thesis by blast
qed

text \<open>A file of 256 glyphs of one byte, with a table that assigns no code.\<close>

definition example_file :: mem where
  "example_file a = (if a = 0x1002 then 2 else if a = 0x1003 then 1 else if a < 0x2000 then 0xFF else 0)"

lemma table_of_ends:
  "(\<And>i. i < 2 * k \<Longrightarrow> m (p + of_nat i) = 0xFF \<and> \<not> F (p + of_nat i)) \<Longrightarrow> table_at F m p (replicate k 0xFFFF)"
proof (induction k arbitrary: p)
  case (Suc k)
  have "table_at F m (p + 2) (replicate k 0xFFFF)"
    by (rule Suc.IH) (use Suc.prems [of "i + 2" for i] in \<open>simp add: add.assoc\<close>)
  moreover have "load16 m p = 0xFFFF" using Suc.prems [of 0] Suc.prems [of 1] by (simp add: load16_def)
  ultimately show ?case using Suc.prems [of 0] Suc.prems [of 1] by simp
qed simp

lemma count_replicate: "count_list (replicate k x) x = k"
  by (induction k) simp_all

lemma example_file_at: "0x1003 < unat a \<Longrightarrow> example_file a = (if unat a < 0x2000 then 0xFF else 0)"
  by (auto simp: example_file_def word_less_nat_alt)

lemma example_outside:
  assumes "i < 0xFFC" "number \<le> 512"
  shows "\<not> font_bytes 0x2000 1 number (0x1004 + of_nat i)" and "example_file (0x1004 + of_nat i) = 0xFF"
proof -
  have "unat (of_nat i :: u32) = i" using assms by (intro unat_of_nat32) simp
  then have a: "unat (0x1004 + of_nat i :: u32) = 0x1004 + i" using assms by (subst unat_add_small) simp_all
  then show "example_file (0x1004 + of_nat i) = 0xFF" using assms example_file_at [of "0x1004 + of_nat i"] by (simp only:) simp
  show "\<not> font_bytes 0x2000 1 number (0x1004 + of_nat i)"
  proof
    assume "font_bytes 0x2000 1 number (0x1004 + of_nat i)"
    then obtain c where c: "c < number" "0x1004 + of_nat i = (0x2000 + of_nat c :: u32)" by (auto simp: font_bytes_def glyph_byte_def)
    have "unat (of_nat c :: u32) = c" using c(1) assms(2) by (intro unat_of_nat32) simp
    then have "unat (0x2000 + of_nat c :: u32) = 0x2000 + c" using c(1) assms(2) by (subst unat_add_small) simp_all
    with a c(2) assms show False by simp
  qed
qed

lemma example_psf1: "psf1_file example_file 0x2000 0x1000 256 1 (replicate 256 0xFFFF)"
proof -
  have "table_at (font_bytes 0x2000 1 256) example_file (0x1000 + 4 + of_nat (256 * 1)) (replicate 256 0xFFFF)"
    using example_outside [of "256 + i" 256 for i] by (intro table_of_ends) (simp add: add.assoc)
  moreover have "\<not> font_bytes 0x2000 1 256 (glyph_byte (0x1000 + 4) 1 g 0)" if "g < 256" for g
    using example_outside(1) [of g 256] that by (simp add: glyph_byte_def)
  moreover have "table_ends 0 (replicate 256 (0xFFFF :: u16)) 256"
    by (simp add: table_ends_def count_replicate)
  ultimately show ?thesis unfolding psf1_file_def by (simp add: example_file_def)
qed

text \<open>
  C15. The loading of a PSF1 font of 512 characters with a Unicode table ends, and every byte of a
  character is the union of the bytes of all the glyphs that the table assigns to its code; a
  character without a glyph is a full square, and nothing outside the block of the characters is
  written. Fonts of 256 characters are left out, because their loading writes behind the block.
\<close>

theorem psf1_table_assigns_glyphs:
  assumes psf: "psf1_file m fdata file 512 n cs"
    and cleared: "\<forall>c < 512. \<forall>i < n. m (glyph_byte fdata n c i) = 0"
  shows "\<exists>font m'. load_psf1_font fdata file m = Some (font, m') \<and> font_data font = fdata
    \<and> number_of_characters font = 512 \<and> unat (bytes_per_character font) = n
    \<and> (\<forall>a. \<not> font_bytes fdata n 512 a \<longrightarrow> m' a = m a)
    \<and> (\<forall>c < 512. \<forall>i < n. if \<exists>g. (g, of_nat c) \<in> set (assigned 0 cs)
         then \<forall>b. bit (m' (glyph_byte fdata n c i)) b
           \<longleftrightarrow> (\<exists>g. (g, of_nat c) \<in> set (assigned 0 cs) \<and> bit (m (glyph_byte (file + 4) n g i)) b)
         else m' (glyph_byte fdata n c i) = 0xFF)"
proof -
  obtain present m' bpc where load: "unat bpc = n" "load_psf1_font fdata file m =
      Some (\<lparr>font_data = fdata, number_of_characters = of_nat 512, bytes_per_character = bpc, character_width = 8,
        character_height = bpc\<rparr>, fill_missing_characters fdata bpc present m')"
    and result: "table_result fdata (file + 4) n 512 (assigned 0 cs) (replicate 512 False) m present m'"
    and small: "n \<le> 255"
    using load_psf1_table [OF psf] by blast
  have "present ! c \<longleftrightarrow> (\<exists>g. (g, of_nat c) \<in> set (assigned 0 cs))" if "c < 512" for c
    using result that by (simp add: table_result_def)
  moreover have "fill_missing_characters fdata bpc present m' a = m a" if "\<not> font_bytes fdata n 512 a" for a
    using result that fill_missing_outside [OF load(1) that] by (simp add: table_result_def)
  ultimately show ?thesis
    using load result small cleared by (auto simp: fill_missing_spec table_result_def)
qed

text \<open>A file of 512 glyphs of one byte, the first two of which are both assigned to the letter A.\<close>

definition two_glyphs_file :: mem where
  "two_glyphs_file = example_file(0x1002 := 3, 0x1004 := 0x18, 0x1005 := 0x81, 0x1204 := 0x41, 0x1205 := 0,
     0x1208 := 0x41, 0x1209 := 0)"

lemma two_glyphs_above: "0x1209 < unat a \<Longrightarrow> two_glyphs_file a = example_file a"
  by (auto simp: two_glyphs_file_def)

lemma two_glyphs_psf1: "psf1_file two_glyphs_file 0x2000 0x1000 512 1 ([0x41, 0xFFFF, 0x41, 0xFFFF] @ replicate 510 0xFFFF)"
proof -
  have outside: "\<not> font_bytes 0x2000 1 512 (0x1004 + of_nat i)" if "i < 0xFFC" for i
    using example_outside(1) [of i 512] that by simp
  have table: "\<not> font_bytes 0x2000 1 512 (0x1204 + of_nat i)" if "i < 0x800" for i
    using outside [of "512 + i"] that by (simp add: add.assoc)
  have rest: "two_glyphs_file (0x120C + of_nat i) = 0xFF" if "i < 1020" for i
  proof -
    have "unat (of_nat i :: u32) = i" using that by (intro unat_of_nat32) simp
    then have "unat (0x120C + of_nat i :: u32) = 0x120C + i" using that by (subst unat_add_small) simp_all
    moreover have "example_file (0x120C + of_nat i) = 0xFF" using example_outside(2) [of "520 + i" 512] that by (simp add: add.assoc)
    ultimately show ?thesis using two_glyphs_above [of "0x120C + of_nat i"] by (simp only:)
  qed
  have "table_at (font_bytes 0x2000 1 512) two_glyphs_file 0x120C (replicate 510 0xFFFF)"
    using rest table [of "8 + i" for i] by (intro table_of_ends) (simp add: add.assoc)
  moreover have "load16 two_glyphs_file 0x1204 = 0x41" "load16 two_glyphs_file 0x1206 = 0xFFFF"
    "load16 two_glyphs_file 0x1208 = 0x41" "load16 two_glyphs_file 0x120A = 0xFFFF"
    by (simp_all add: load16_def two_glyphs_file_def example_file_def)
  ultimately have "table_at (font_bytes 0x2000 1 512) two_glyphs_file (0x1000 + 4 + of_nat (512 * 1))
      ([0x41, 0xFFFF, 0x41, 0xFFFF] @ replicate 510 0xFFFF)"
    using table [of 0] table [of 1] table [of 2] table [of 3] table [of 4] table [of 5] table [of 6] table [of 7] by simp
  moreover have "\<not> font_bytes 0x2000 1 512 (glyph_byte (0x1000 + 4) 1 g 0)" if "g < 512" for g
    using outside [of g] that by (simp add: glyph_byte_def)
  moreover have "table_ends 0 ([0x41, 0xFFFF, 0x41, 0xFFFF] @ replicate 510 (0xFFFF :: u16)) 512"
    by (simp add: table_ends_def count_replicate)
  ultimately show ?thesis unfolding psf1_file_def by (simp add: two_glyphs_file_def example_file_def)
qed

lemma assigned_ends: "assigned g (replicate k 0xFFFF) = []"
  by (induction k arbitrary: g) simp_all

theorem psf1_table_assigns_glyphs_witness:
  "\<exists>font m'. load_psf1_font 0x2000 0x1000 two_glyphs_file = Some (font, m') \<and> m' 0x2041 = 0x99 \<and> m' 0x2042 = 0xFF
    \<and> number_of_characters font = 512"
proof -
  have "two_glyphs_file (glyph_byte 0x2000 1 c i) = 0" if "c < 512" "i < 1" for c i
  proof -
    have "unat (of_nat c :: u32) = c" using that(1) by (intro unat_of_nat32) simp
    then have u: "unat (0x2000 + of_nat c :: u32) = 0x2000 + c" using that(1) by (subst unat_add_small) simp_all
    then have "example_file (0x2000 + of_nat c) = 0" using example_file_at [of "0x2000 + of_nat c"] by (simp only:) simp
    then have "two_glyphs_file (0x2000 + of_nat c) = 0" using two_glyphs_above [of "0x2000 + of_nat c"] u by (simp only:)
    then show ?thesis using that by (simp add: glyph_byte_def)
  qed
  then have cleared: "\<forall>c < 512. \<forall>i < 1. two_glyphs_file (glyph_byte 0x2000 1 c i) = 0" by blast
  note result = psf1_table_assigns_glyphs [OF two_glyphs_psf1 cleared]
  have as: "assigned 0 ([0x41, 0xFFFF, 0x41, 0xFFFF] @ replicate 510 (0xFFFF :: u16)) = [(0, 0x41), (1, 0x41)]"
    by (simp add: assigned_ends)
  obtain font m' where
    load: "load_psf1_font 0x2000 0x1000 two_glyphs_file = Some (font, m')" "number_of_characters font = 512"
    and all: "\<forall>c < 512. \<forall>i < 1. if \<exists>g. (g, of_nat c) \<in> set [(0 :: nat, 0x41), (1, 0x41 :: u16)]
         then \<forall>b. bit (m' (glyph_byte 0x2000 1 c i)) b
           \<longleftrightarrow> (\<exists>g. (g, of_nat c) \<in> set [(0 :: nat, 0x41), (1, 0x41 :: u16)] \<and> bit (two_glyphs_file (glyph_byte (0x1000 + 4) 1 g i)) b)
         else m' (glyph_byte 0x2000 1 c i) = 0xFF"
    using result unfolding as by (elim exE conjE) (rule that, assumption+)
  note char = all [THEN spec, THEN mp, THEN spec, THEN mp, of _ 0]
  have glyphs: "two_glyphs_file 0x1004 = 0x18" "two_glyphs_file 0x1005 = 0x81" by (simp_all add: two_glyphs_file_def)
  have "\<exists>g. (g, of_nat 0x41) \<in> set [(0 :: nat, 0x41), (1, 0x41 :: u16)]" by auto
  then have "bit (m' 0x2041) b \<longleftrightarrow> (\<exists>g. (g, 0x41) \<in> set [(0 :: nat, 0x41), (1, 0x41 :: u16)]
      \<and> bit (two_glyphs_file (0x1004 + of_nat g)) b)" for b
    using char [of "0x41"] by (simp only: if_True) (simp add: glyph_byte_def)
  then have "bit (m' 0x2041) b \<longleftrightarrow> bit (0x18 OR 0x81 :: u8) b" for b
    unfolding bit_or_iff using glyphs by auto
  then have "m' 0x2041 = 0x18 OR 0x81" by (rule bit_eqI)
  moreover have "m' 0x2042 = 0xFF" using char [of "0x42"] by (simp add: glyph_byte_def)
  ultimately show ?thesis using load by auto
qed

text \<open>
  C39. A font of 256 characters with a Unicode table overwrites the heap: its block has 256 glyphs, but the loop
  over the missing characters runs to 512 and fills as many bytes again behind the block.
\<close>

theorem psf1_font_overruns_its_block:
  assumes psf: "psf1_file m fdata file 256 n cs"
  shows "\<exists>font m'. load_psf1_font fdata file m = Some (font, m') \<and> number_of_characters font = 256
    \<and> (\<forall>k. 256 * n \<le> k \<and> k < 512 * n \<longrightarrow> m' (fdata + of_nat k) = 0xFF)"
proof -
  obtain present m' bpc where load: "unat bpc = n" "load_psf1_font fdata file m =
      Some (\<lparr>font_data = fdata, number_of_characters = of_nat 256, bytes_per_character = bpc, character_width = 8,
        character_height = bpc\<rparr>, fill_missing_characters fdata bpc present m')"
    and result: "table_result fdata (file + 4) n 256 (assigned 0 cs) (replicate 512 False) m present m'"
    and small: "n \<le> 255"
    using load_psf1_table [OF psf] by blast
  have "fill_missing_characters fdata bpc present m' (fdata + of_nat k) = 0xFF" if k: "256 * n \<le> k" "k < 512 * n" for k
  proof -
    have "0 < n" using k by (cases n) auto
    then have "k mod n < n" "k div n < 512" "256 \<le> k div n"
      using k by (simp_all add: div_less_iff_less_mult less_eq_div_iff_mult_less_eq mult.commute)
    moreover have "fdata + of_nat k = glyph_byte fdata n (k div n) (k mod n)" by (simp add: glyph_byte_def)
    moreover have "\<not> present ! (k div n)" using result calculation by (simp add: table_result_def)
    ultimately show ?thesis by (simp only: fill_missing_spec [OF load(1) small]) simp
  qed
  with load(2) show ?thesis by auto
qed

theorem psf1_font_overruns_its_block_witness:
  "\<exists>font m'. load_psf1_font 0x2000 0x1000 example_file = Some (font, m') \<and> number_of_characters font = 256 \<and> m' 0x2100 = 0xFF"
proof -
  obtain font m' where "load_psf1_font 0x2000 0x1000 example_file = Some (font, m')" "number_of_characters font = 256"
    "\<forall>k. 256 * 1 \<le> k \<and> k < 512 * 1 \<longrightarrow> m' (0x2000 + of_nat k) = 0xFF"
    using psf1_font_overruns_its_block [OF example_psf1] by blast
  moreover from this(3) [rule_format, of 256] have "m' 0x2100 = 0xFF" by simp
  ultimately show ?thesis by blast
qed

end
