(* ===== verification/Bleskalloc.thy ===== *)
theory Bleskalloc
  imports Prelude
begin

text \<open>
  The allocator of the userspace library (\<open>source/userspace_library/bleskalloc.c\<close>): a pointer that moves up
  through the 768 MB behind the first 256 MB of virtual memory; nothing is ever given back.
\<close>

section \<open>The allocator\<close>

record bleskalloc =
  bleskalloc_ptr :: u32
  bleskalloc_free_size :: u32

definition initialize_bleskalloc :: bleskalloc where
  "initialize_bleskalloc = \<lparr>bleskalloc_ptr = 1024 * 1024 * 256, bleskalloc_free_size = 1024 * 1024 * 768\<rparr>"

definition round_size :: "u32 \<Rightarrow> u32" where
  "round_size n = (n + 3) div 4 * 4"

definition malloc :: "u32 \<Rightarrow> bleskalloc \<Rightarrow> u32 \<times> bleskalloc" where
  "malloc n s =
     (let n = round_size n
      in if bleskalloc_free_size s < n then (0, s)
         else (bleskalloc_ptr s, s\<lparr>bleskalloc_ptr := bleskalloc_ptr s + n, bleskalloc_free_size := bleskalloc_free_size s - n\<rparr>))"

text \<open>The space up to the alignment stays skipped when the block itself does not fit.\<close>

definition aligned_malloc :: "u32 \<Rightarrow> u32 \<Rightarrow> bleskalloc \<Rightarrow> u32 \<times> bleskalloc" where
  "aligned_malloc alignment n s =
     (let n = round_size n;
          bytes_to_alignment = alignment - (bleskalloc_ptr s AND (alignment - 1))
      in if bytes_to_alignment \<noteq> alignment \<and> bleskalloc_free_size s < bytes_to_alignment then (0, s)
         else let s = (if bytes_to_alignment \<noteq> alignment
             then s\<lparr>bleskalloc_ptr := bleskalloc_ptr s + bytes_to_alignment,
                    bleskalloc_free_size := bleskalloc_free_size s - bytes_to_alignment\<rparr> else s)
         in if bleskalloc_free_size s < n then (0, s)
         else (bleskalloc_ptr s, s\<lparr>bleskalloc_ptr := bleskalloc_ptr s + n, bleskalloc_free_size := bleskalloc_free_size s - n\<rparr>))"

definition calloc :: "u32 \<Rightarrow> u32 \<Rightarrow> bleskalloc \<times> mem \<Rightarrow> u32 \<times> bleskalloc \<times> mem" where
  "calloc count n sm =
     (let (s, m) = sm; (ptr, s) = malloc (count * n) s
      in (ptr, s, if ptr \<noteq> 0 then mem_fill m ptr 0 (count * n) else m))"

definition realloc :: "u32 \<Rightarrow> u32 \<Rightarrow> bleskalloc \<times> mem \<Rightarrow> u32 \<times> bleskalloc \<times> mem" where
  "realloc ptr n sm =
     (let (s, m) = sm; (new_ptr, s) = malloc n s
      in if ptr = 0 then (new_ptr, s, m)
         else if new_ptr = 0 then (0, s, m)
         else (new_ptr, s, mem_copy m new_ptr ptr n))"

section \<open>Blocks\<close>

text \<open>What is free lies between the pointer and the end of the gigabyte.\<close>

definition heap_ok :: "bleskalloc \<Rightarrow> bool" where
  "heap_ok s \<longleftrightarrow> 268435456 \<le> unat (bleskalloc_ptr s) \<and> unat (bleskalloc_ptr s) + unat (bleskalloc_free_size s) = 1073741824"

datatype request = Malloc u32 | Aligned_malloc u32 u32

fun request_size :: "request \<Rightarrow> u32" where
  "request_size (Malloc n) = n"
| "request_size (Aligned_malloc alignment n) = n"

fun allocate :: "request \<Rightarrow> bleskalloc \<Rightarrow> u32 \<times> bleskalloc" where
  "allocate (Malloc n) s = malloc n s"
| "allocate (Aligned_malloc alignment n) s = aligned_malloc alignment n s"

text \<open>The blocks that a sequence of requests gets, in their order; refused requests get none.\<close>

fun blocks :: "request list \<Rightarrow> bleskalloc \<Rightarrow> (u32 \<times> u32) list" where
  "blocks [] s = []"
| "blocks (r # rs) s = (let (ptr, s) = allocate r s in (if ptr = 0 then [] else [(ptr, request_size r)]) @ blocks rs s)"

lemma round_size_covers:
  assumes "n \<le> 0xFFFFFFFC"
  shows "unat n \<le> unat (round_size n)"
proof -
  have n: "unat n \<le> 4294967292" using assms by (simp add: word_le_nat_alt)
  then have "unat (n + 3) = unat n + 3" by (subst unat_add_small) simp_all
  then have "unat ((n + 3) div 4) = (unat n + 3) div 4" by (simp add: unat_div)
  moreover have "(unat n + 3) div 4 * 4 < 4294967296" using n by linarith
  ultimately have "unat (round_size n) = (unat n + 3) div 4 * 4" unfolding round_size_def by (subst unat_mult_small) simp_all
  then show ?thesis by linarith
qed

lemma advance:
  assumes "heap_ok s" "k \<le> bleskalloc_free_size s"
  shows "heap_ok (s\<lparr>bleskalloc_ptr := bleskalloc_ptr s + k, bleskalloc_free_size := bleskalloc_free_size s - k\<rparr>)"
    and "unat (bleskalloc_ptr s + k) = unat (bleskalloc_ptr s) + unat k" and "bleskalloc_ptr s \<noteq> 0"
proof -
  have k: "unat k \<le> unat (bleskalloc_free_size s)" using assms(2) by (simp add: word_le_nat_alt)
  show sum: "unat (bleskalloc_ptr s + k) = unat (bleskalloc_ptr s) + unat k"
    using assms(1) k unfolding heap_ok_def by (intro unat_add_small) linarith
  show "heap_ok (s\<lparr>bleskalloc_ptr := bleskalloc_ptr s + k, bleskalloc_free_size := bleskalloc_free_size s - k\<rparr>)"
    using assms(1) k sum unat_sub_small [OF assms(2)] by (simp add: heap_ok_def)
  show "bleskalloc_ptr s \<noteq> 0" using assms(1) by (auto simp: heap_ok_def)
qed

text \<open>One request: the pointer only moves up, over the block.\<close>

lemma allocate_block:
  assumes "heap_ok s" "request_size r \<le> 0xFFFFFFFC" "allocate r s = (ptr, s')"
  shows "heap_ok s' \<and> unat (bleskalloc_ptr s) \<le> unat (bleskalloc_ptr s')
    \<and> (ptr \<noteq> 0 \<longrightarrow> unat (bleskalloc_ptr s) \<le> unat ptr \<and> unat ptr + unat (request_size r) \<le> unat (bleskalloc_ptr s'))"
proof -
  have one: "heap_ok s' \<and> unat (bleskalloc_ptr s) \<le> unat (bleskalloc_ptr s')
      \<and> (ptr \<noteq> 0 \<longrightarrow> unat (bleskalloc_ptr s) \<le> unat ptr \<and> unat ptr + unat n \<le> unat (bleskalloc_ptr s'))"
    if "heap_ok s" "n \<le> 0xFFFFFFFC" "malloc n s = (ptr, s')" for s n
    using that advance [OF that(1), of "round_size n"] round_size_covers [OF that(2)]
    by (auto simp: malloc_def Let_def not_less split: if_splits)
  show ?thesis
  proof (cases r)
    case (Malloc n)
    then show ?thesis using one [OF assms(1)] assms(2,3) by simp
  next
    case (Aligned_malloc alignment n)
    define k where "k = alignment - (bleskalloc_ptr s AND (alignment - 1))"
    define t where "t = (if k \<noteq> alignment then s\<lparr>bleskalloc_ptr := bleskalloc_ptr s + k,
      bleskalloc_free_size := bleskalloc_free_size s - k\<rparr> else s)"
    show ?thesis
    proof (cases "k \<noteq> alignment \<and> bleskalloc_free_size s < k")
      case True
      then show ?thesis using assms Aligned_malloc by (auto simp: aligned_malloc_def k_def Let_def)
    next
      case False
      then have "heap_ok t \<and> unat (bleskalloc_ptr s) \<le> unat (bleskalloc_ptr t)"
        using advance [OF assms(1), of k] assms(1) by (auto simp: t_def not_less)
      moreover have "malloc n t = (ptr, s')"
        using False assms(3) unfolding Aligned_malloc allocate.simps aligned_malloc_def malloc_def k_def [symmetric] Let_def t_def [symmetric]
        by (simp only: if_False)
      ultimately show ?thesis using one [of t n] assms(2) Aligned_malloc by auto
    qed
  qed
qed

text \<open>
  C40. Whatever sequence of requests a program makes, the blocks it gets lie in the 768 MB of the allocator, each
  with all its bytes behind the ones before it, so that no two of them overlap, unless a size is within three
  bytes of four gigabytes.
\<close>

theorem allocated_blocks_are_disjoint:
  assumes "\<And>r. r \<in> set rs \<Longrightarrow> request_size r \<le> 0xFFFFFFFC"
  shows "sorted_wrt (\<lambda>(p, n) (q, k). unat p + unat n \<le> unat q) (blocks rs initialize_bleskalloc)
    \<and> (\<forall>(p, n) \<in> set (blocks rs initialize_bleskalloc). 268435456 \<le> unat p \<and> unat p + unat n \<le> 1073741824)"
proof -
  have "heap_ok s \<Longrightarrow> \<forall>r \<in> set rs. request_size r \<le> 0xFFFFFFFC \<Longrightarrow>
      sorted_wrt (\<lambda>(p, n) (q, k). unat p + unat n \<le> unat q) (blocks rs s)
    \<and> (\<forall>(p, n) \<in> set (blocks rs s). unat (bleskalloc_ptr s) \<le> unat p \<and> unat p + unat n \<le> 1073741824)" for s rs
  proof (induction rs arbitrary: s)
    case (Cons r rs)
    obtain ptr s' where r: "allocate r s = (ptr, s')" by (cases "allocate r s")
    note block = allocate_block [OF Cons.prems(1) _ r]
    have IH: "sorted_wrt (\<lambda>(p, n) (q, k). unat p + unat n \<le> unat q) (blocks rs s')"
      "\<forall>(p, n) \<in> set (blocks rs s'). unat (bleskalloc_ptr s') \<le> unat p \<and> unat p + unat n \<le> 1073741824"
      using Cons.IH [of s'] block Cons.prems(2) by auto
    have "unat (bleskalloc_ptr s') \<le> 1073741824" using block Cons.prems(2) by (auto simp: heap_ok_def)
    then have up: "unat (bleskalloc_ptr s) \<le> unat (bleskalloc_ptr s')" and block': "ptr \<noteq> 0 \<Longrightarrow>
        unat (bleskalloc_ptr s) \<le> unat ptr \<and> unat ptr + unat (request_size r) \<le> unat (bleskalloc_ptr s')"
        "unat (bleskalloc_ptr s') \<le> 1073741824"
      using block Cons.prems(2) by auto
    show ?case
    proof (cases "ptr = 0")
      case True
      then show ?thesis using IH up by (fastforce simp: r)
    next
      case False
      have later: "unat ptr + unat (request_size r) \<le> unat q" "unat (bleskalloc_ptr s) \<le> unat q" "unat q + unat k \<le> 1073741824"
        if "(q, k) \<in> set (blocks rs s')" for q k
        using IH(2) that block'(1) [OF False] up by fastforce+
      show ?thesis using IH(1) later block'(1) [OF False] block'(2) False by (auto simp: r)
    qed
  qed simp
  from this [of initialize_bleskalloc rs] assms show ?thesis
    by (simp add: heap_ok_def initialize_bleskalloc_def)
qed

theorem allocated_blocks_are_disjoint_witness:
  "sorted_wrt (\<lambda>(p, n) (q, k). unat p + unat n \<le> unat q) (blocks [Malloc 5, Aligned_malloc 4096 100, Malloc 1] initialize_bleskalloc)"
proof -
  have "request_size r \<le> 0xFFFFFFFC" if "r \<in> set [Malloc 5, Aligned_malloc 4096 100, Malloc 1]" for r
    using that by auto
  from allocated_blocks_are_disjoint [OF this] show ?thesis by (rule conjunct1)
qed

text \<open>The excluded sizes wrap to zero: a block is returned that is not there.\<close>

lemma malloc_of_four_gigabytes:
  "malloc 0xFFFFFFFF initialize_bleskalloc = (0x10000000, initialize_bleskalloc)"
  by (simp add: malloc_def round_size_def initialize_bleskalloc_def)

end
