(* ===== verification/Spec2Isabelle.thy ===== *)
theory Spec2Isabelle
  imports Libc_Sprintf Scheduler_Properties Ps2_Mouse Ramdisk Cmos Acpi_Tables Storage_Properties Font_Properties Font_Loading Bleskalloc
begin

text \<open>
  A verification library for the kernel of BleskOS, a multiprocessor kernel for 32-bit x86 written
  in C (\<open>src/source/kernel\<close>). It models the kernel from its lowest layer up.

  \<^bold>\<open>Parts and theories.\<close>

  \<^item> \<open>Prelude\<close>: words of 32 bits, ranges of addresses, memory as a function from addresses to bytes,
    little-endian words and C strings in it, blocks of copied memory; the collections \<open>range_simps\<close>
    and \<open>mem_simps\<close> that carry the proofs about memory.
  \<^item> \<open>libc\<close> (\<open>libc/*.c\<close>, \<open>libc/optimalized_functions.asm\<close>): \<open>Libc_Stdlib\<close> (characters, conversions of
    numbers, 64-bit division), \<open>Libc_String\<close> (copying and filling, with the SSE loops as block copies),
    \<open>Libc_Text\<close> (C strings, endianness), \<open>Libc_Sprintf\<close>. Scans for a terminator are
    \<open>partial_function\<close>s; the lemmas show that they return on strings, and what.
  \<^item> \<open>devices/cpu/mutex.c\<close>: \<open>Cpu_Lock\<close>, spin locks as steps of any number of cores, the mutex owned by
    a core, the nesting of \<open>lock_core\<close>.
  \<^item> \<open>devices/memory\<close>: \<open>Physical_Memory\<close> (the map of free memory, the stack of free pages and the
    stacks of the processors), \<open>Virtual_Memory\<close> (page tables as words of memory, their lock bits,
    mapping, allocation, moving), \<open>Kernel_Heap\<close> (all allocators of \<open>memory_allocators.c\<close>).
    \<open>Heap_Lists\<close> describes the heap by lists of blocks, \<open>Heap_Proofs\<close>, \<open>Heap_Aligned\<close> and
    \<open>Heap_Realloc\<close> carry \<open>kalloc\<close>, \<open>kfree\<close>, \<open>aligned_kalloc\<close> and \<open>krealloc\<close> through this description
    down to the page tables, \<open>Heap_Properties\<close> holds the properties and a booted state in which
    all of them are applied.
  \<^item> \<open>devices/cpu/scheduler.c\<close> and \<open>interrupt.c\<close>: \<open>Scheduler\<close> (threads, processes and processors as
    records, every operation one processor executes on them, the passes of \<open>scheduler_interrupt\<close>),
    \<open>Interrupts\<close> (dispatch and the queues of interrupt threads), \<open>Scheduler_Properties\<close>. A thread
    uses the allocators of \<open>Kernel_Heap\<close> for its stack and its structures.
  \<^item> \<open>groups/human_input\<close> and the ring of events of \<open>subsystems/screen/screen.c\<close>: \<open>Keyboard_Layout\<close>
    and \<open>Human_Input\<close>; \<open>devices/human_input\<close>: \<open>Ps2_Keyboard\<close> (tables of scan codes and the automata
    that parse them) and \<open>Ps2_Mouse\<close> (packets), which put their events into the group.
  \<^item> \<open>software/ramdisk.c\<close> and \<open>elf_loader.c\<close>: \<open>Ramdisk\<close>, the searches for files, programs and symbols.
  \<^item> \<open>firmware\<close>: \<open>Mp_Tables\<close> and \<open>Acpi_Tables\<close>, the search for the tables and their readers,
    \<open>Cmos\<close>, the reading of the clock.
  \<^item> \<open>groups/storage\<close>, \<open>parallel_ata.c\<close> and \<open>controllers/ide/ide.c\<close>: \<open>Storage\<close>, \<open>Storage_Proofs\<close>,
    \<open>Parallel_Ata\<close> (commands, interrupts and words of a transfer by the processor), \<open>Parallel_Ata_Proofs\<close>,
    \<open>Storage_Properties\<close>. The ports are a parameter: \<open>ata_drive\<close> states the documented behaviour of a drive on
    them, under which the driver reads its sectors. For writes, whose transfers are not modelled, the
    hypothesis is that a request moves whole sectors between the buffer and the device.
  \<^item> \<open>subsystems/screen/draw.c\<close> and \<open>font.c\<close>: \<open>Draw\<close>, \<open>Draw_Properties\<close>, \<open>Font\<close>, \<open>Font_Properties\<close>,
    \<open>Font_Loading\<close>, the pixels of a screen in memory: clipping, blending, bitmaps, saved regions, fonts, UTF-8. A loop over pixels is
    a fold, which \<open>fold_cells\<close> resolves into its steps when each of them owns a pixel.
  \<^item> \<open>source/userspace_library/bleskalloc.c\<close>: \<open>Bleskalloc\<close>, the allocator of programs.
  \<^item> \<open>Queue_Interface\<close>: the contract of a first-in first-out queue, a locale that \<open>Interrupts\<close>
    interprets on the linked queue of handlers and \<open>Human_Input\<close> on the ring of events.

  \<^bold>\<open>Conventions.\<close> A C function is a function of the same name from its arguments and the state it
  uses to its result and the new state. \<open>None\<close> is a panic, a loop that does not end, an access outside an
  array that is a list of the model, or a division by zero; a theorem with \<open>Some\<close> therefore says that
  the code returns. Blocks of the heap are not arrays but ranges of one flat memory: a copy that
  leaves its block is modelled as what the processor does, so that C33 and C39 can say which bytes
  it overwrites, and C10 and C15 are restricted to the requests and fonts whose copies stay inside. Unsigned integers
  are words of their width and wrap; indices of arrays that are below a constant are natural
  numbers. Pointers are words; structures of the libc and the memory management are bytes of
  memory, so that aliasing is as in C; threads, processes and devices are typed records that are
  found by their address. No fuel is used: loops are structural, have a measure or are
  \<open>partial_function\<close>s.

  \<^bold>\<open>What the groups of lemmas show.\<close> For the libc: agreement with descriptions by lists and numbers.
  For locks: mutual exclusion and ownership as invariants of the steps. For memory: pages are
  conserved and never shared, ranges are mapped with clear frames of their own, and the heap keeps
  its invariant (blocks are disjoint, mapped, and free pages come and go with them) under every
  operation. For the scheduler: which thread runs next, that the passes end, and when they miss a
  thread. For queues and rings: first in, first out, and when they are full.

  \<^bold>\<open>Not modelled.\<close> The drivers of all other devices, the other firmware tables, the
  transfers of writes and of DMA, file systems, graphic cards, monitors and the user interface, the loading of programs, system calls, and the rest of the userspace library; the concurrency of processors
  except in \<open>Cpu_Lock\<close>: the other models execute one operation at a time, so that a
  compare-and-exchange succeeds unless the code itself makes it fail. Copying and releasing the
  address spaces of processes are parameters of the scheduler, as are running executables.
\<close>

end
